(* ===== verification/Prelude.thy ===== *)
theory Prelude
  imports Complex_Main "HOL-Library.Sublist"
begin

text \<open>
  What the components share: the JavaScript values and strings the service handles, decimal
  rendering of integers, JavaScript's insertion-ordered \<open>Map\<close> as an association list, the SQL
  statements of the local store as functions on lists of rows, and reachability for step
  relations.  A \<open>string\<close> is a list of UTF-16 code units (the model's alphabet is Latin-1); finite
  JavaScript numbers are exact rationals, epoch milliseconds are \<open>int\<close>.
\<close>

named_theorems table_simps \<open>row-level facts about select, update and delete\<close>
named_theorems omap_simps \<open>lookup after an operation of an insertion-ordered map\<close>

section \<open>JavaScript values\<close>

datatype jsnum = NaN | NegInf | PosInf | Fin rat

text \<open>A value of type \<open>unknown\<close>: what \<open>JSON.parse\<close> or a request body can hold.\<close>

datatype jsval =
    JUndef
  | JNull
  | JBool bool
  | JNum jsnum
  | JStr string
  | JArr "jsval list"
  | JObj "(string \<times> jsval) list"

type_synonym ms = int

fun is_object :: "jsval \<Rightarrow> bool" where
  "is_object (JObj _) = True"
| "is_object _ = False"

text \<open>\<open>raw.key\<close>: an absent property reads as \<open>undefined\<close>.\<close>

fun js_field :: "jsval \<Rightarrow> string \<Rightarrow> jsval" where
  "js_field (JObj fs) k = (case map_of fs k of None \<Rightarrow> JUndef | Some v \<Rightarrow> v)"
| "js_field _ k = JUndef"

fun js_keys :: "jsval \<Rightarrow> string list" where
  "js_keys (JObj fs) = remdups (map fst fs)"
| "js_keys _ = []"

text \<open>Truthiness.\<close>

fun js_truthy :: "jsval \<Rightarrow> bool" where
  "js_truthy JUndef = False"
| "js_truthy JNull = False"
| "js_truthy (JBool b) = b"
| "js_truthy (JNum NaN) = False"
| "js_truthy (JNum (Fin q)) = (q \<noteq> 0)"
| "js_truthy (JStr s) = (s \<noteq> [])"
| "js_truthy _ = True"

text \<open>\<open>Number.isInteger\<close>, with the integer it holds.\<close>

definition rat_is_int :: "rat \<Rightarrow> bool" where
  "rat_is_int q \<longleftrightarrow> of_int \<lfloor>q\<rfloor> = q"

fun js_integer :: "jsval \<Rightarrow> int option" where
  "js_integer (JNum (Fin q)) = (if rat_is_int q then Some \<lfloor>q\<rfloor> else None)"
| "js_integer _ = None"

lemma rat_is_int_of_int [simp]: "rat_is_int (of_int i)"
  by (simp add: rat_is_int_def)

lemma js_integer_of_int [simp]: "js_integer (JNum (Fin (of_int i))) = Some i"
  by simp

text \<open>\<open>String.prototype.trim\<close>; the white space of the model's alphabet.\<close>

definition js_space :: "char \<Rightarrow> bool" where
  "js_space c \<longleftrightarrow> (let n = (of_char c :: nat) in (9 \<le> n \<and> n \<le> 13) \<or> n = 32 \<or> n = 160)"

definition js_trim :: "string \<Rightarrow> string" where
  "js_trim s = rev (dropWhile js_space (rev (dropWhile js_space s)))"

lemma js_trim_empty_iff: "js_trim s = [] \<longleftrightarrow> list_all js_space s"
proof
  assume "js_trim s = []"
  then have "\<forall>c \<in> set (dropWhile js_space s). js_space c"
    by (simp add: js_trim_def)
  then show "list_all js_space s"
    by (metis (full_types) Ball_set dropWhile_eq_Nil_conv hd_dropWhile hd_in_set)
next
  assume "list_all js_space s"
  then show "js_trim s = []"
    by (simp add: js_trim_def dropWhile_eq_Nil_conv [THEN iffD2] list_all_iff)
qed

text \<open>\<open>s.split(sep)\<close> with a separator of one character.\<close>

fun js_split :: "char \<Rightarrow> string \<Rightarrow> string list" where
  "js_split sep [] = [[]]"
| "js_split sep (c # s) =
     (if c = sep then [] # js_split sep s
      else (case js_split sep s of [] \<Rightarrow> [[c]] | p # ps \<Rightarrow> (c # p) # ps))"

lemma js_split_none: "sep \<notin> set s \<Longrightarrow> js_split sep s = [s]"
  by (induction s) auto

lemma js_split_one: "sep \<notin> set a \<Longrightarrow> js_split sep (a @ sep # b) = a # js_split sep b"
  by (induction a) auto

text \<open>\<open>s.slice(0, n)\<close> is \<open>take\<close>; \<open>a ?? b\<close> and \<open>a ?? null\<close> are option defaults.\<close>

definition nullish :: "'a option \<Rightarrow> 'a \<Rightarrow> 'a" where
  "nullish x d = (case x of None \<Rightarrow> d | Some v \<Rightarrow> v)"

lemma nullish_simps [simp]: "nullish None d = d" "nullish (Some v) d = v"
  by (simp_all add: nullish_def)

lemma split_at_char:
  "c \<notin> set a \<Longrightarrow> c \<notin> set b \<Longrightarrow> a @ c # r = b @ c # r' \<longleftrightarrow> a = b \<and> r = r'"
proof (induction a arbitrary: b)
  case Nil
  then show ?case by (cases b) auto
next
  case (Cons x a)
  then show ?case by (cases b) auto
qed

text \<open>\<open>[...new Set(xs)]\<close>: the first occurrence of each value.\<close>

definition js_unique :: "'a list \<Rightarrow> 'a list" where
  "js_unique xs = rev (remdups (rev xs))"

lemma set_js_unique [simp]: "set (js_unique xs) = set xs"
  by (simp add: js_unique_def)

lemma distinct_js_unique [simp]: "distinct (js_unique xs)"
  by (simp add: js_unique_def)

text \<open>\<open>findIndex\<close>\<close>

fun find_index :: "('a \<Rightarrow> bool) \<Rightarrow> 'a list \<Rightarrow> nat option" where
  "find_index p [] = None"
| "find_index p (x # xs) = (if p x then Some 0 else map_option Suc (find_index p xs))"

lemma find_index_Some: "find_index p xs = Some i \<Longrightarrow> i < length xs \<and> p (xs ! i)"
  by (induction xs arbitrary: i) (auto split: if_splits)

lemma find_index_None: "find_index p xs = None \<longleftrightarrow> (\<forall>x \<in> set xs. \<not> p x)"
  by (induction xs) auto

section \<open>Decimal rendering\<close>

definition digit_char :: "nat \<Rightarrow> char" where
  "digit_char d = char_of (48 + d)"

fun dec :: "nat \<Rightarrow> string" where
  "dec n = (if n < 10 then [digit_char n] else dec (n div 10) @ [digit_char (n mod 10)])"

declare dec.simps [simp del]

definition is_digit :: "char \<Rightarrow> bool" where
  "is_digit c \<longleftrightarrow> 48 \<le> (of_char c :: nat) \<and> (of_char c :: nat) \<le> 57"

definition undec :: "string \<Rightarrow> nat" where
  "undec s = foldl (\<lambda>a c. 10 * a + (of_char c - 48)) 0 s"

lemma of_char_digit_char: "d < 10 \<Longrightarrow> (of_char (digit_char d) :: nat) = 48 + d"
  by (simp add: digit_char_def)

lemma is_digit_digit_char: "d < 10 \<Longrightarrow> is_digit (digit_char d)"
  by (simp add: is_digit_def of_char_digit_char)

lemma undec_snoc: "undec (s @ [c]) = 10 * undec s + (of_char c - 48)"
  by (simp add: undec_def)

lemma undec_dec [simp]: "undec (dec n) = n"
proof (induction n rule: dec.induct)
  case (1 n)
  show ?case
  proof (cases "n < 10")
    case True
    then show ?thesis by (simp add: dec.simps [of n] undec_def of_char_digit_char)
  next
    case False
    with "1.IH" have "undec (dec (n div 10)) = n div 10" by simp
    with False show ?thesis
      by (simp add: dec.simps [of n] undec_snoc of_char_digit_char)
  qed
qed

lemma dec_inject [simp]: "dec m = dec n \<longleftrightarrow> m = n"
  by (metis undec_dec)

lemma dec_digits: "list_all is_digit (dec n)"
proof (induction n rule: dec.induct)
  case (1 n)
  then show ?case
    by (subst dec.simps) (simp add: is_digit_digit_char)
qed

lemma dec_nonempty [simp]: "dec n \<noteq> []"
  by (subst dec.simps) simp

lemma dec_no_colon: "CHR '':'' \<notin> set (dec n)"
  using dec_digits [of n] by (auto simp: list_all_iff is_digit_def)

lemma length_dec_bound: "n < 10 ^ k \<Longrightarrow> 0 < k \<Longrightarrow> length (dec n) \<le> k"
proof (induction n arbitrary: k rule: dec.induct)
  case (1 n)
  show ?case
  proof (cases "n < 10")
    case True
    with "1.prems" show ?thesis by (simp add: dec.simps [of n])
  next
    case False
    with "1.prems" have "k \<noteq> 1" and "k \<noteq> 0" by auto
    then obtain k' where k: "k = Suc k'" "0 < k'"
      by (cases k) auto
    with "1.prems" have "n div 10 < 10 ^ k'" by (simp add: less_mult_imp_div_less mult.commute)
    with "1.IH" False k(2) have "length (dec (n div 10)) \<le> k'" by simp
    with False k show ?thesis by (simp add: dec.simps [of n])
  qed
qed

section \<open>Insertion-ordered maps\<close>

text \<open>
  JavaScript's \<open>Map\<close>: \<open>set\<close> keeps the position of an existing key and appends a new one,
  \<open>delete\<close> removes the key, iteration follows insertion order.
\<close>

type_synonym ('k, 'v) omap = "('k \<times> 'v) list"

definition omap_get :: "('k, 'v) omap \<Rightarrow> 'k \<Rightarrow> 'v option" where
  "omap_get m k = map_of m k"

fun omap_set :: "'k \<Rightarrow> 'v \<Rightarrow> ('k, 'v) omap \<Rightarrow> ('k, 'v) omap" where
  "omap_set k v [] = [(k, v)]"
| "omap_set k v ((k', v') # m) = (if k = k' then (k, v) # m else (k', v') # omap_set k v m)"

definition omap_delete :: "'k \<Rightarrow> ('k, 'v) omap \<Rightarrow> ('k, 'v) omap" where
  "omap_delete k m = filter (\<lambda>e. fst e \<noteq> k) m"

definition omap_keys :: "('k, 'v) omap \<Rightarrow> 'k list" where
  "omap_keys m = map fst m"

definition omap_ok :: "('k, 'v) omap \<Rightarrow> bool" where
  "omap_ok m \<longleftrightarrow> distinct (omap_keys m)"

lemma omap_keys_simps [omap_simps, simp]:
  "omap_keys [] = []"
  "omap_keys (e # m) = fst e # omap_keys m"
  by (simp_all add: omap_keys_def)

lemma omap_get_set [omap_simps, simp]:
  "omap_get (omap_set k v m) = (omap_get m)(k \<mapsto> v)"
  by (induction m) (auto simp: omap_get_def fun_eq_iff)

lemma omap_get_delete [omap_simps, simp]:
  "omap_get (omap_delete k m) = (omap_get m)(k := None)"
  by (induction m) (auto simp: omap_get_def omap_delete_def fun_eq_iff)

lemma omap_get_Nil [omap_simps, simp]: "omap_get [] k = None"
  by (simp add: omap_get_def)

lemma set_omap_keys_set [omap_simps, simp]:
  "set (omap_keys (omap_set k v m)) = insert k (set (omap_keys m))"
  by (induction k v m rule: omap_set.induct) (simp_all add: insert_commute)

lemma set_omap_keys_delete [omap_simps, simp]:
  "set (omap_keys (omap_delete k m)) = set (omap_keys m) - {k}"
  by (auto simp: omap_keys_def omap_delete_def)

lemma omap_get_dom: "dom (omap_get m) = set (omap_keys m)"
  by (simp add: omap_get_def [abs_def] omap_keys_def dom_map_of_conv_image_fst)

lemma omap_get_None_iff: "omap_get m k = None \<longleftrightarrow> k \<notin> set (omap_keys m)"
  by (simp add: omap_get_def omap_keys_def map_of_eq_None_iff)

lemma omap_ok_Nil [simp]: "omap_ok []"
  by (simp add: omap_ok_def omap_keys_def)

lemma omap_ok_set [simp]: "omap_ok m \<Longrightarrow> omap_ok (omap_set k v m)"
proof (induction m)
  case (Cons e m)
  then show ?case
    by (cases e) (auto simp: omap_ok_def)
qed (simp add: omap_ok_def)

lemma omap_ok_delete [simp]: "omap_ok m \<Longrightarrow> omap_ok (omap_delete k m)"
  by (simp add: omap_ok_def omap_keys_def omap_delete_def distinct_map_filter)

lemma set_omap_set_subset: "set (omap_set k v m) \<subseteq> insert (k, v) (set m)"
  by (induction k v m rule: omap_set.induct) auto

lemma length_omap_set:
  "length (omap_set k v m) = (if k \<in> set (omap_keys m) then length m else Suc (length m))"
  by (induction m) auto

text \<open>The contract a store of keyed values offers its clients.\<close>

locale js_map =
  fixes get :: "'m \<Rightarrow> 'k \<Rightarrow> 'v option"
    and put :: "'k \<Rightarrow> 'v \<Rightarrow> 'm \<Rightarrow> 'm"
    and del :: "'k \<Rightarrow> 'm \<Rightarrow> 'm"
    and ok :: "'m \<Rightarrow> bool"
  assumes get_put: "get (put k v m) = (get m)(k \<mapsto> v)"
    and get_del: "get (del k m) = (get m)(k := None)"
    and ok_put: "ok m \<Longrightarrow> ok (put k v m)"
    and ok_del: "ok m \<Longrightarrow> ok (del k m)"
begin

lemma del_put_get: "get (put k v (del k m)) = get (put k v m)"
  by (simp add: get_put get_del)

lemma fold_del_get: "get (fold del ks m) k = (if k \<in> set ks then None else get m k)"
  by (induction ks arbitrary: m) (simp_all add: get_del)

lemma fold_del_ok: "ok m \<Longrightarrow> ok (fold del ks m)"
  by (induction ks arbitrary: m) (simp_all add: ok_del)

lemma fold_put_get:
  "get (fold (\<lambda>k. put k (f k)) ks m) k = (if k \<in> set ks then Some (f k) else get m k)"
  by (induction ks arbitrary: m) (auto simp: get_put)

end

interpretation om: js_map omap_get omap_set omap_delete omap_ok
  by unfold_locales simp_all

lemma fold_preserves: "P s \<Longrightarrow> (\<And>x s. P s \<Longrightarrow> P (f x s)) \<Longrightarrow> P (fold f xs s)"
  by (induction xs arbitrary: s) auto

section \<open>Tables of the local store\<close>

text \<open>
  A table is the list of its rows in \<open>rowid\<close> order.  \<open>SELECT ... WHERE p\<close> is \<open>filter p\<close>, a
  primary-key read is \<open>find p\<close>, \<open>UPDATE ... SET f WHERE p\<close> is \<open>update_rows p f\<close> with \<open>changed p\<close>
  the number of changed rows, and \<open>DELETE ... WHERE p\<close> is \<open>delete_rows p\<close>.
\<close>

definition update_rows :: "('r \<Rightarrow> bool) \<Rightarrow> ('r \<Rightarrow> 'r) \<Rightarrow> 'r list \<Rightarrow> 'r list" where
  "update_rows p f rows = map (\<lambda>r. if p r then f r else r) rows"

definition delete_rows :: "('r \<Rightarrow> bool) \<Rightarrow> 'r list \<Rightarrow> 'r list" where
  "delete_rows p rows = filter (\<lambda>r. \<not> p r) rows"

definition changed :: "('r \<Rightarrow> bool) \<Rightarrow> 'r list \<Rightarrow> nat" where
  "changed p rows = length (filter p rows)"

lemma update_rows_simps [table_simps, simp]:
  "update_rows p f [] = []"
  "update_rows p f (r # rs) = (if p r then f r else r) # update_rows p f rs"
  by (simp_all add: update_rows_def)

lemma delete_rows_simps [table_simps, simp]:
  "delete_rows p [] = []"
  "delete_rows p (r # rs) = (if p r then delete_rows p rs else r # delete_rows p rs)"
  by (simp_all add: delete_rows_def)

lemma changed_simps [table_simps, simp]:
  "changed p [] = 0"
  "changed p (r # rs) = (if p r then Suc (changed p rs) else changed p rs)"
  by (simp_all add: changed_def)

lemma changed_0_iff: "changed p rs = 0 \<longleftrightarrow> (\<forall>r \<in> set rs. \<not> p r)"
  by (induction rs) auto

lemma changed_pos_iff: "0 < changed p rs \<longleftrightarrow> (\<exists>r \<in> set rs. p r)"
  by (induction rs) auto

lemma set_update_rows: "set (update_rows p f rs) = (\<lambda>r. if p r then f r else r) ` set rs"
  by (simp add: update_rows_def)

lemma bex_update_rows [table_simps]:
  "(\<exists>r \<in> set (update_rows p f rs). P r) \<longleftrightarrow> (\<exists>r \<in> set rs. P (if p r then f r else r))"
  unfolding set_update_rows by blast

lemma ball_update_rows [table_simps]:
  "(\<forall>r \<in> set (update_rows p f rs). P r) \<longleftrightarrow> (\<forall>r \<in> set rs. P (if p r then f r else r))"
  unfolding set_update_rows by blast

lemma set_delete_rows [simp]: "set (delete_rows p rs) = {r \<in> set rs. \<not> p r}"
  by (simp add: delete_rows_def)

lemma length_update_rows [simp]: "length (update_rows p f rs) = length rs"
  by (simp add: update_rows_def)

lemma update_rows_unchanged: "changed p rs = 0 \<Longrightarrow> update_rows p f rs = rs"
  by (induction rs) (auto split: if_splits)

lemma find_Some_in: "find p rs = Some r \<Longrightarrow> r \<in> set rs \<and> p r"
  by (auto simp: find_Some_iff)

lemma find_unique_key:
  "distinct (map key rs) \<Longrightarrow> r \<in> set rs \<Longrightarrow> key r = k \<Longrightarrow> find (\<lambda>r. key r = k) rs = Some r"
  by (induction rs) auto

lemma find_append: "find p (xs @ ys) = (case find p xs of None \<Rightarrow> find p ys | Some r \<Rightarrow> Some r)"
  by (induction xs) auto

text \<open>The binary collation of \<open>ORDER BY\<close> on text.\<close>

fun bytes_le :: "nat list \<Rightarrow> nat list \<Rightarrow> bool" where
  "bytes_le [] ys = True"
| "bytes_le (x # xs) [] = False"
| "bytes_le (x # xs) (y # ys) = (x < y \<or> (x = y \<and> bytes_le xs ys))"

text \<open>
  The contract of a row update: it keeps the primary key.  Under it, an \<open>UPDATE\<close> keeps the
  uniqueness of keys, reads of the updated key see the new row, and other keys are untouched.
\<close>

locale row_update =
  fixes key :: "'r \<Rightarrow> 'k" and act :: "'r \<Rightarrow> 'r"
  assumes key_act: "key (act r) = key r"
begin

lemma keys_update: "map key (update_rows p act rs) = map key rs"
  by (induction rs) (simp_all add: key_act)

lemma distinct_update: "distinct (map key rs) \<Longrightarrow> distinct (map key (update_rows p act rs))"
  by (simp add: keys_update)

lemma find_update:
  "find (\<lambda>r. key r = k) (update_rows p act rs) =
     map_option (\<lambda>r. if p r then act r else r) (find (\<lambda>r. key r = k) rs)"
  by (induction rs) (simp_all add: key_act)

end

lemma distinct_key_delete: "distinct (map key rs) \<Longrightarrow> distinct (map key (delete_rows p rs))"
  by (simp add: delete_rows_def distinct_map_filter)

section \<open>Reachability\<close>

inductive reach :: "('s \<Rightarrow> bool) \<Rightarrow> ('s \<Rightarrow> 's \<Rightarrow> bool) \<Rightarrow> 's \<Rightarrow> bool"
  for init :: "'s \<Rightarrow> bool" and step :: "'s \<Rightarrow> 's \<Rightarrow> bool" where
  reach_init: "init s \<Longrightarrow> reach init step s"
| reach_step: "reach init step s \<Longrightarrow> step s t \<Longrightarrow> reach init step t"

inductive steps :: "('s \<Rightarrow> 's \<Rightarrow> bool) \<Rightarrow> 's \<Rightarrow> 's \<Rightarrow> bool"
  for step :: "'s \<Rightarrow> 's \<Rightarrow> bool" where
  steps_refl: "steps step s s"
| steps_snoc: "steps step s t \<Longrightarrow> step t u \<Longrightarrow> steps step s u"

text \<open>The contract of an inductive invariant, and what it gives on every reachable state.\<close>

locale invariant_system =
  fixes init :: "'s \<Rightarrow> bool" and step :: "'s \<Rightarrow> 's \<Rightarrow> bool" and inv :: "'s \<Rightarrow> bool"
  assumes init_inv: "init s \<Longrightarrow> inv s"
    and step_inv: "inv s \<Longrightarrow> step s t \<Longrightarrow> inv t"
begin

lemma reach_inv: "reach init step s \<Longrightarrow> inv s"
  by (induction rule: reach.induct) (auto intro: init_inv step_inv)

lemma steps_inv: "steps step s t \<Longrightarrow> inv s \<Longrightarrow> inv t"
  by (induction rule: steps.induct) (auto intro: step_inv)

end

text \<open>A measure that no step increases or decreases against the order is monotone over runs.\<close>

locale monotone_step =
  fixes step :: "'s \<Rightarrow> 's \<Rightarrow> bool" and obs :: "'s \<Rightarrow> 'o" and le :: "'o \<Rightarrow> 'o \<Rightarrow> bool"
  assumes le_refl: "le x x"
    and le_trans: "le x y \<Longrightarrow> le y z \<Longrightarrow> le x z"
    and step_le: "step s t \<Longrightarrow> le (obs s) (obs t)"
begin

lemma steps_le: "steps step s t \<Longrightarrow> le (obs s) (obs t)"
  by (induction rule: steps.induct) (auto intro: le_refl le_trans step_le)

end

end
