(* ===== verification/Js_Regex.thy ===== *)
theory Js_Regex
  imports Prelude
begin

text \<open>
  The regular expressions the service uses, with the backtracking semantics of ECMAScript.  A
  position is the consumed text (reversed) and the text to the right; \<open>regex_ends r p\<close> lists the
  positions at which a match of \<open>r\<close> from \<open>p\<close> can end, in the order the engine tries them, so its
  head is the match the engine reports.  An iteration of a starred expression that consumes nothing
  is rejected, as the language prescribes.
\<close>

datatype regex =
    Eps
  | Cls "char \<Rightarrow> bool"
  | Seq regex regex
  | Alt regex regex
  | Star regex
  | Bos
  | Eos
  | Wb

type_synonym rpos = "string \<times> string"

fun star_ends :: "(rpos \<Rightarrow> rpos list) \<Rightarrow> nat \<Rightarrow> rpos \<Rightarrow> rpos list" where
  "star_ends f 0 p = [p]"
| "star_ends f (Suc n) p =
     concat (map (star_ends f n) (filter (\<lambda>q. length (snd q) < length (snd p)) (f p))) @ [p]"

text \<open>\<open>\b\<close>: exactly one of the neighbours is a word character.\<close>

definition is_word :: "char \<Rightarrow> bool" where
  "is_word c \<longleftrightarrow> (let n = (of_char c :: nat) in
     (48 \<le> n \<and> n \<le> 57) \<or> (65 \<le> n \<and> n \<le> 90) \<or> n = 95 \<or> (97 \<le> n \<and> n \<le> 122))"

fun at_word :: "string \<Rightarrow> bool" where
  "at_word [] = False"
| "at_word (c # _) = is_word c"

text \<open>Every counted iteration consumes a character, so the length of the rest bounds them.\<close>

primrec regex_ends :: "regex \<Rightarrow> rpos \<Rightarrow> rpos list" where
  "regex_ends Eps p = [p]"
| "regex_ends (Cls P) p =
     (case snd p of [] \<Rightarrow> [] | c # s \<Rightarrow> if P c then [(c # fst p, s)] else [])"
| "regex_ends (Seq r1 r2) p = concat (map (regex_ends r2) (regex_ends r1 p))"
| "regex_ends (Alt r1 r2) p = regex_ends r1 p @ regex_ends r2 p"
| "regex_ends (Star r) p = star_ends (regex_ends r) (length (snd p)) p"
| "regex_ends Bos p = (if fst p = [] then [p] else [])"
| "regex_ends Eos p = (if snd p = [] then [p] else [])"
| "regex_ends Wb p = (if at_word (fst p) \<noteq> at_word (snd p) then [p] else [])"

text \<open>\<open>RegExp.prototype.test\<close>: a match from some starting position.\<close>

fun regex_test_from :: "regex \<Rightarrow> string \<Rightarrow> string \<Rightarrow> bool" where
  "regex_test_from r pre [] = (regex_ends r (pre, []) \<noteq> [])"
| "regex_test_from r pre (c # s) =
     (regex_ends r (pre, c # s) \<noteq> [] \<or> regex_test_from r (c # pre) s)"

definition regex_test :: "regex \<Rightarrow> string \<Rightarrow> bool" where
  "regex_test r s = regex_test_from r [] s"

text \<open>
  \<open>replace\<close> with the global flag: a match is replaced and the search goes on behind it; an empty
  match is replaced and the character behind it copied.  Every round consumes a character.
\<close>

fun regex_replace_loop :: "nat \<Rightarrow> regex \<Rightarrow> string \<Rightarrow> rpos \<Rightarrow> string" where
  "regex_replace_loop 0 r w p = (if regex_ends r p = [] then [] else w)"
| "regex_replace_loop (Suc n) r w p =
     (case snd p of
        [] \<Rightarrow> if regex_ends r p = [] then [] else w
      | c # s \<Rightarrow>
          (case regex_ends r p of
             [] \<Rightarrow> c # regex_replace_loop n r w (c # fst p, s)
           | q # _ \<Rightarrow>
               if length (snd q) < length (c # s) then w @ regex_replace_loop n r w q
               else w @ c # regex_replace_loop n r w (c # fst p, s)))"

definition regex_replace_all :: "regex \<Rightarrow> string \<Rightarrow> string \<Rightarrow> string" where
  "regex_replace_all r w s = regex_replace_loop (length s) r w ([], s)"

section \<open>Derived forms\<close>

fun lower_char :: "char \<Rightarrow> char" where
  "lower_char c =
     (let n = (of_char c :: nat)
      in if (65 \<le> n \<and> n \<le> 90) \<or> (192 \<le> n \<and> n \<le> 222 \<and> n \<noteq> 215) then char_of (n + 32) else c)"

definition js_lower :: "string \<Rightarrow> string" where
  "js_lower s = map lower_char s"

text \<open>\<open>toUpperCase\<close> on the letters whose upper case stays in the alphabet.\<close>

fun upper_char :: "char \<Rightarrow> char" where
  "upper_char c =
     (let n = (of_char c :: nat)
      in if (97 \<le> n \<and> n \<le> 122) \<or> (224 \<le> n \<and> n \<le> 254 \<and> n \<noteq> 247) then char_of (n - 32) else c)"

definition js_upper :: "string \<Rightarrow> string" where
  "js_upper s = map upper_char s"

definition chr :: "char \<Rightarrow> regex" where
  "chr c = Cls (\<lambda>d. d = c)"

definition chr_i :: "char \<Rightarrow> regex" where
  "chr_i c = Cls (\<lambda>d. lower_char d = lower_char c)"

definition lit :: "string \<Rightarrow> regex" where
  "lit s = foldr (\<lambda>c r. Seq (chr c) r) s Eps"

definition lit_i :: "string \<Rightarrow> regex" where
  "lit_i s = foldr (\<lambda>c r. Seq (chr_i c) r) s Eps"

definition opt :: "regex \<Rightarrow> regex" where
  "opt r = Alt r Eps"

definition plus :: "regex \<Rightarrow> regex" where
  "plus r = Seq r (Star r)"

definition alts :: "regex list \<Rightarrow> regex" where
  "alts rs = foldr Alt (butlast rs) (last rs)"

definition seqs :: "regex list \<Rightarrow> regex" where
  "seqs rs = foldr Seq rs Eps"

definition rep :: "nat \<Rightarrow> regex \<Rightarrow> regex" where
  "rep n r = seqs (replicate n r)"

text \<open>\<open>r{0,n}\<close>, greedy.\<close>

fun upto_rep :: "nat \<Rightarrow> regex \<Rightarrow> regex" where
  "upto_rep 0 r = Eps"
| "upto_rep (Suc n) r = Alt (Seq r (upto_rep n r)) Eps"

definition char_in :: "string \<Rightarrow> char \<Rightarrow> bool" where
  "char_in cs c = (c \<in> set cs)"

definition is_alnum :: "char \<Rightarrow> bool" where
  "is_alnum c \<longleftrightarrow> (let n = (of_char c :: nat) in
     (48 \<le> n \<and> n \<le> 57) \<or> (65 \<le> n \<and> n \<le> 90) \<or> (97 \<le> n \<and> n \<le> 122))"

definition is_hex_i :: "char \<Rightarrow> bool" where
  "is_hex_i c \<longleftrightarrow> (let n = (of_char c :: nat) in
     (48 \<le> n \<and> n \<le> 57) \<or> (65 \<le> n \<and> n \<le> 70) \<or> (97 \<le> n \<and> n \<le> 102))"

section \<open>Facts\<close>

lemma regex_ends_chr: "regex_ends (chr c) (pre, d # s) = (if d = c then [(d # pre, s)] else [])"
  "regex_ends (chr c) (pre, []) = []"
  by (simp_all add: chr_def)

text \<open>A match consumes a prefix of the rest and moves it over.\<close>

definition consumes :: "rpos \<Rightarrow> rpos \<Rightarrow> bool" where
  "consumes p q \<longleftrightarrow> (\<exists>u. snd p = u @ snd q \<and> fst q = rev u @ fst p)"

lemma consumes_refl [intro, simp]: "consumes p p"
  by (simp add: consumes_def)

lemma consumes_trans: "consumes p q \<Longrightarrow> consumes q r \<Longrightarrow> consumes p r"
  unfolding consumes_def by (metis append.assoc rev_append)

lemma star_ends_consumes:
  assumes "\<And>p q. q \<in> set (f p) \<Longrightarrow> consumes p q"
  shows "q \<in> set (star_ends f n p) \<Longrightarrow> consumes p q"
proof (induction n arbitrary: p)
  case (Suc n)
  then consider "q = p" | t where "t \<in> set (f p)" "q \<in> set (star_ends f n t)"
    by (auto simp del: split_paired_Ex)
  then show ?case
    by cases (auto intro: consumes_trans [OF assms Suc.IH])
qed simp

lemma regex_ends_consumes: "q \<in> set (regex_ends r p) \<Longrightarrow> consumes p q"
proof (induction r arbitrary: p q)
  case (Cls P)
  then show ?case by (auto simp: consumes_def split: list.splits if_splits)
next
  case (Seq r1 r2)
  then obtain t where "t \<in> set (regex_ends r1 p)" "q \<in> set (regex_ends r2 t)" by auto
  with Seq.IH show ?case by (blast intro: consumes_trans)
next
  case (Star r)
  then show ?case using star_ends_consumes [of "regex_ends r"] by auto
qed (auto split: if_splits)

lemma regex_ends_seqs_Cons:
  "regex_ends (seqs (r # rs)) p = concat (map (regex_ends (seqs rs)) (regex_ends r p))"
  by (simp add: seqs_def)

lemma regex_ends_seqs_Nil [simp]: "regex_ends (seqs []) p = [p]"
  by (simp add: seqs_def)

lemma regex_ends_rep_Suc:
  "regex_ends (rep (Suc n) r) p = concat (map (regex_ends (rep n r)) (regex_ends r p))"
  by (simp add: rep_def seqs_def)

lemma regex_ends_rep_Cls:
  "regex_ends (rep n (Cls P)) (pre, s) =
     (if n \<le> length s \<and> list_all P (take n s) then [(rev (take n s) @ pre, drop n s)] else [])"
proof (induction n arbitrary: pre s)
  case 0
  then show ?case by (simp add: rep_def seqs_def)
next
  case (Suc n)
  then show ?case by (cases s) (auto simp: regex_ends_rep_Suc)
qed

lemma regex_test_Bos_Seq: "regex_test (Seq Bos r) s \<longleftrightarrow> regex_ends r ([], s) \<noteq> []"
proof -
  have "pre \<noteq> [] \<Longrightarrow> \<not> regex_test_from (Seq Bos r) pre t" for pre t
    by (induction t arbitrary: pre) auto
  then show ?thesis
    by (cases s) (auto simp: regex_test_def)
qed

end
