(* ===== verification/Jwt_Auth.thy ===== *)
theory Jwt_Auth
  imports Js_Regex
begin

text \<open>
  \<open>http/auth.ts\<close>: the public key set and the verification of a bearer token.  The decoder of a token
  segment (base64url, then \<open>JSON.parse\<close>; \<open>None\<close> when it throws), the key-material check and the
  RSA signature check of \<open>node:crypto\<close> are arguments: every theorem holds whatever they return.
  Claims stay the unvalidated JSON value the token carries.
\<close>

datatype jwt_error =
    MissingBearer | MalformedJwt | MalformedPayload | UnsupportedAlg | UnknownKey | InvalidSignature
  | JwtExpired | IssuedInFuture rat | IssuedAtInvalid | NotBeforeInvalid | IssuerMismatch | AudienceMismatch
  | RequiredClaimsMissing | NotActive rat | IdentityMissing | JsTypeError

datatype jwks_error = NotJson | OnlyKeysMember | NoKey | NotPublicRsa | DuplicateOrEmptyKid | InvalidKey

record jwk =
  jwk_kid :: string
  jwk_n :: string
  jwk_e :: string
  jwk_use :: "string option"

definition PUBLIC_JWK_MEMBERS :: "string list" where
  "PUBLIC_JWK_MEMBERS = [''kty'', ''alg'', ''kid'', ''n'', ''e'', ''use'']"

definition PRIVATE_JWK_MEMBERS :: "string list" where
  "PRIVATE_JWK_MEMBERS = [''d'', ''p'', ''q'', ''dp'', ''dq'', ''qi'', ''oth'']"

fun js_nonempty_string :: "jsval \<Rightarrow> bool" where
  "js_nonempty_string (JStr s) = (s \<noteq> [])"
| "js_nonempty_string _ = False"

fun js_string :: "jsval \<Rightarrow> string" where
  "js_string (JStr s) = s"
| "js_string _ = []"

fun js_nonblank_string :: "jsval \<Rightarrow> bool" where
  "js_nonblank_string (JStr s) = (js_trim s \<noteq> [])"
| "js_nonblank_string _ = False"

definition parse_jwk :: "(jwk \<Rightarrow> bool) \<Rightarrow> string list \<Rightarrow> jsval \<Rightarrow> jwks_error + jwk" where
  "parse_jwk valid_key seen key =
     (if \<not> is_object key then Inl NotPublicRsa
      else if (\<exists>m \<in> set (js_keys key). m \<notin> set PUBLIC_JWK_MEMBERS)
           \<or> (\<exists>m \<in> set PRIVATE_JWK_MEMBERS. m \<in> set (js_keys key)) then Inl NotPublicRsa
      else if js_field key ''kty'' \<noteq> JStr ''RSA'' \<or> js_field key ''alg'' \<noteq> JStr ''RS256''
           \<or> (js_field key ''use'' \<noteq> JUndef \<and> js_field key ''use'' \<noteq> JStr ''sig'')
           \<or> \<not> js_nonempty_string (js_field key ''n'') \<or> \<not> js_nonempty_string (js_field key ''e'')
        then Inl NotPublicRsa
      else if \<not> js_nonblank_string (js_field key ''kid'') \<or> js_string (js_field key ''kid'') \<in> set seen
        then Inl DuplicateOrEmptyKid
      else (let result = \<lparr> jwk_kid = js_string (js_field key ''kid''), jwk_n = js_string (js_field key ''n''),
                           jwk_e = js_string (js_field key ''e''),
                           jwk_use = (if js_field key ''use'' = JUndef then None else Some ''sig'') \<rparr>
            in if valid_key result then Inr result else Inl InvalidKey))"

fun parse_jwk_list :: "(jwk \<Rightarrow> bool) \<Rightarrow> string list \<Rightarrow> jsval list \<Rightarrow> jwks_error + jwk list" where
  "parse_jwk_list valid_key seen [] = Inr []"
| "parse_jwk_list valid_key seen (raw # raws) =
     (case parse_jwk valid_key seen raw of
        Inl e \<Rightarrow> Inl e
      | Inr k \<Rightarrow>
          (case parse_jwk_list valid_key (jwk_kid k # seen) raws of
             Inl e \<Rightarrow> Inl e
           | Inr ks \<Rightarrow> Inr (k # ks)))"

text \<open>\<open>parsePublicJwks\<close> on the outcome of \<open>JSON.parse\<close>.\<close>

definition parsePublicJwks :: "(jwk \<Rightarrow> bool) \<Rightarrow> jsval option \<Rightarrow> jwks_error + jwk list" where
  "parsePublicJwks valid_key document =
     (case document of
        None \<Rightarrow> Inl NotJson
      | Some doc \<Rightarrow>
          if \<not> is_object doc \<or> (\<exists>k \<in> set (js_keys doc). k \<noteq> ''keys'') then Inl OnlyKeysMember
          else (case js_field doc ''keys'' of
                  JArr keys \<Rightarrow> if keys = [] then Inl NoKey else parse_jwk_list valid_key [] keys
                | _ \<Rightarrow> Inl NoKey))"

section \<open>Token verification\<close>

record caller =
  ca_callerId :: string
  ca_accessToken :: "string option"
  ca_tenantId :: "string option"
  ca_userId :: "string option"
  ca_roles :: "string list option"
  ca_claims :: "jsval option"

record jwt_options =
  jo_issuer :: string
  jo_audience :: string
  jo_clockSkewSeconds :: "rat option"

fun audienceContains :: "jsval \<Rightarrow> string \<Rightarrow> bool" where
  "audienceContains (JStr a) expected = (a = expected)"
| "audienceContains (JArr as) expected = (JStr expected \<in> set as)"
| "audienceContains _ expected = False"

fun js_finite :: "jsval \<Rightarrow> rat option" where
  "js_finite (JNum (Fin q)) = Some q"
| "js_finite _ = None"

fun js_strings :: "jsval list \<Rightarrow> string list" where
  "js_strings [] = []"
| "js_strings (JStr s # vs) = s # js_strings vs"
| "js_strings (_ # vs) = js_strings vs"

definition nullish_value :: "jsval \<Rightarrow> bool" where
  "nullish_value v \<longleftrightarrow> v = JUndef \<or> v = JNull"

definition claim_user :: "jsval \<Rightarrow> string" where
  "claim_user claims =
     (case js_field claims ''user_id'' of
        JStr u \<Rightarrow> u
      | _ \<Rightarrow> (case js_field claims ''sub'' of JStr u \<Rightarrow> u | _ \<Rightarrow> []))"

text \<open>The checks on the claims of a token whose signature is valid, in the order of the code.\<close>

definition check_claims :: "jwt_options \<Rightarrow> rat \<Rightarrow> jsval \<Rightarrow> jwt_error option" where
  "check_claims opts nowMs claims =
     (let now = of_int \<lfloor>nowMs / 1000\<rfloor>;
          skew = nullish (jo_clockSkewSeconds opts) 30
      in if nullish_value claims then Some JsTypeError
         else (case js_finite (js_field claims ''exp'') of
           None \<Rightarrow> Some JwtExpired
         | Some expiry \<Rightarrow>
         if expiry + skew \<le> now then Some JwtExpired
         else (case js_finite (js_field claims ''iat'') of
           None \<Rightarrow> Some IssuedAtInvalid
         | Some iat \<Rightarrow>
         if iat - skew > now then Some (IssuedInFuture (iat - now))
         else if js_field claims ''nbf'' \<noteq> JUndef \<and> js_finite (js_field claims ''nbf'') = None
           then Some NotBeforeInvalid
         else if js_field claims ''iss'' \<noteq> JStr (jo_issuer opts) then Some IssuerMismatch
         else if \<not> audienceContains (js_field claims ''aud'') (jo_audience opts) then Some AudienceMismatch
         else if (case js_field claims ''enterprise_id'' of JStr _ \<Rightarrow> False | _ \<Rightarrow> True)
              \<or> (case js_field claims ''roles'' of JArr _ \<Rightarrow> False | _ \<Rightarrow> True) then Some RequiredClaimsMissing
         else if (case js_finite (js_field claims ''nbf'') of None \<Rightarrow> False | Some nbf \<Rightarrow> nbf - skew > now)
           then Some (NotActive (the (js_finite (js_field claims ''nbf'')) - now))
         else if claim_user claims = [] \<or> \<not> js_nonblank_string (js_field claims ''tenant_id'')
           then Some IdentityMissing
         else None)))"

definition claims_caller :: "string \<Rightarrow> jsval \<Rightarrow> caller" where
  "claims_caller token claims =
     \<lparr> ca_callerId = claim_user claims, ca_accessToken = Some token,
       ca_tenantId = Some (js_string (js_field claims ''tenant_id'')), ca_userId = Some (claim_user claims),
       ca_roles = Some (case js_field claims ''roles'' of JArr rs \<Rightarrow> js_strings rs | _ \<Rightarrow> []),
       ca_claims = Some claims \<rparr>"

text \<open>\<open>keys.get(header.kid)\<close>: the map's keys are strings.\<close>

fun key_lookup :: "(string, jwk) omap \<Rightarrow> jsval \<Rightarrow> jwk option" where
  "key_lookup keys (JStr kid) = omap_get keys kid"
| "key_lookup keys _ = None"

definition verifyJwt ::
  "(string \<Rightarrow> jsval option) \<Rightarrow> (string \<Rightarrow> jwk \<Rightarrow> string \<Rightarrow> bool) \<Rightarrow> (string, jwk) omap \<Rightarrow> jwt_options
     \<Rightarrow> rat \<Rightarrow> string \<Rightarrow> jwt_error + caller" where
  "verifyJwt decode rsa_verify keys opts nowMs token =
     (case js_split (CHR ''.'') token of
        [h, p, sig] \<Rightarrow>
          (case (decode h, decode p) of
             (Some header, Some claims) \<Rightarrow>
               if nullish_value header then Inl JsTypeError
               else if js_field header ''alg'' \<noteq> JStr ''RS256'' \<or> \<not> js_truthy (js_field header ''kid'')
                 then Inl UnsupportedAlg
               else (case key_lookup keys (js_field header ''kid'') of
                       None \<Rightarrow> Inl UnknownKey
                     | Some key \<Rightarrow>
                         if \<not> rsa_verify (h @ ''.'' @ p) key sig then Inl InvalidSignature
                         else (case check_claims opts nowMs claims of
                                 Some e \<Rightarrow> Inl e
                               | None \<Rightarrow> Inr (claims_caller token claims)))
           | _ \<Rightarrow> Inl MalformedPayload)
      | _ \<Rightarrow> Inl MalformedJwt)"

text \<open>\<open>createJwtAuthenticator\<close>: the request handler over a parsed key set.\<close>

definition key_map :: "jwk list \<Rightarrow> (string, jwk) omap" where
  "key_map ks = fold (\<lambda>k m. omap_set (jwk_kid k) k m) ks []"

definition bearer_token :: "string option \<Rightarrow> string option" where
  "bearer_token authorization =
     (case authorization of
        Some h \<Rightarrow> if prefix ''Bearer '' h then Some (drop 7 h) else None
      | None \<Rightarrow> None)"

definition jwt_authenticate ::
  "(string \<Rightarrow> jsval option) \<Rightarrow> (string \<Rightarrow> jwk \<Rightarrow> string \<Rightarrow> bool) \<Rightarrow> jwk list \<Rightarrow> jwt_options
     \<Rightarrow> rat \<Rightarrow> string option \<Rightarrow> jwt_error + caller" where
  "jwt_authenticate decode rsa_verify jwks opts nowMs authorization =
     (case bearer_token authorization of
        None \<Rightarrow> Inl MissingBearer
      | Some token \<Rightarrow> verifyJwt decode rsa_verify (key_map jwks) opts nowMs token)"

section \<open>Facts\<close>

lemma js_string_nonblank: "js_nonblank_string v \<Longrightarrow> \<exists>s. v = JStr s \<and> js_trim s \<noteq> []"
  by (cases v) auto

lemma js_string_nonempty: "js_nonempty_string v \<Longrightarrow> \<exists>s. v = JStr s \<and> s \<noteq> []"
  by (cases v) auto

lemma parse_jwk_Inr:
  assumes "parse_jwk valid_key seen raw = Inr k"
  shows "valid_key k \<and> jwk_kid k \<notin> set seen \<and> js_trim (jwk_kid k) \<noteq> []
    \<and> js_field raw ''kid'' = JStr (jwk_kid k) \<and> js_field raw ''n'' = JStr (jwk_n k) \<and> js_field raw ''e'' = JStr (jwk_e k)
    \<and> set (js_keys raw) \<inter> set PRIVATE_JWK_MEMBERS = {}"
  using assms
  by (auto simp: parse_jwk_def Let_def split: if_splits dest!: js_string_nonblank js_string_nonempty)

lemma parse_jwk_list_Inr:
  assumes "parse_jwk_list valid_key seen raws = Inr ks"
  shows "distinct (map jwk_kid ks) \<and> set (map jwk_kid ks) \<inter> set seen = {}
    \<and> list_all2 (\<lambda>raw k. valid_key k \<and> js_trim (jwk_kid k) \<noteq> [] \<and> js_field raw ''kid'' = JStr (jwk_kid k)
         \<and> js_field raw ''n'' = JStr (jwk_n k) \<and> js_field raw ''e'' = JStr (jwk_e k)
         \<and> set (js_keys raw) \<inter> set PRIVATE_JWK_MEMBERS = {}) raws ks"
  using assms
proof (induction valid_key seen raws arbitrary: ks rule: parse_jwk_list.induct)
  case (2 valid_key seen raw raws)
  then obtain k ks' where k: "parse_jwk valid_key seen raw = Inr k"
    and ks': "parse_jwk_list valid_key (jwk_kid k # seen) raws = Inr ks'" "ks = k # ks'"
    by (auto split: sum.splits)
  from "2.IH" [OF k ks'(1)] parse_jwk_Inr [OF k] ks'(2) show ?case by auto
qed simp

lemma check_claims_None:
  assumes "check_claims opts nowMs claims = None"
  shows "\<exists>expiry iat. js_field claims ''exp'' = JNum (Fin expiry) \<and> js_field claims ''iat'' = JNum (Fin iat)
    \<and> of_int \<lfloor>nowMs / 1000\<rfloor> < expiry + nullish (jo_clockSkewSeconds opts) 30
    \<and> iat \<le> of_int \<lfloor>nowMs / 1000\<rfloor> + nullish (jo_clockSkewSeconds opts) 30
    \<and> js_field claims ''iss'' = JStr (jo_issuer opts)
    \<and> audienceContains (js_field claims ''aud'') (jo_audience opts)
    \<and> claim_user claims \<noteq> [] \<and> js_nonblank_string (js_field claims ''tenant_id'')"
proof -
  have fin: "js_finite v = Some q \<longleftrightarrow> v = JNum (Fin q)" for v q
    by (cases v rule: js_finite.cases) auto
  from assms show ?thesis
    by (simp add: check_claims_def Let_def fin not_less not_le algebra_simps split: if_splits option.splits)
qed

lemma verifyJwt_Inr:
  assumes "verifyJwt decode rsa_verify keys opts nowMs token = Inr c"
  obtains h p sig header claims key where "js_split (CHR ''.'') token = [h, p, sig]"
    "decode h = Some header" "decode p = Some claims" "js_field header ''alg'' = JStr ''RS256''"
    "key_lookup keys (js_field header ''kid'') = Some key" "rsa_verify (h @ ''.'' @ p) key sig"
    "check_claims opts nowMs claims = None" "c = claims_caller token claims"
  using assms that
  by (auto simp: verifyJwt_def split: list.splits option.splits if_splits)

section \<open>Properties\<close>


definition demo_claims :: jsval where
  "demo_claims = JObj [(''exp'', JNum (Fin 2000)), (''iat'', JNum (Fin 900)), (''iss'', JStr ''m''), (''aud'', JStr ''a''),
     (''enterprise_id'', JStr ''e''), (''roles'', JArr [JStr ''user'']), (''tenant_id'', JStr ''t''), (''sub'', JStr ''u'')]"

definition demo_decode :: "string \<Rightarrow> jsval option" where
  "demo_decode s = (if s = ''h'' then Some (JObj [(''alg'', JStr ''RS256''), (''kid'', JStr ''k'')])
     else if s = ''p'' then Some demo_claims else None)"

definition demo_jwk :: jwk where
  "demo_jwk = \<lparr> jwk_kid = ''k'', jwk_n = ''n'', jwk_e = ''e'', jwk_use = None \<rparr>"

definition demo_jwt_options :: jwt_options where
  "demo_jwt_options = \<lparr> jo_issuer = ''m'', jo_audience = ''a'', jo_clockSkewSeconds = None \<rparr>"

lemma demo_verify:
  "verifyJwt demo_decode (\<lambda>d k s. s = ''s'') [(''k'', demo_jwk)] demo_jwt_options 1000000 ''h.p.s''
     = Inr (claims_caller ''h.p.s'' demo_claims)"
  by (simp add: verifyJwt_def demo_decode_def demo_claims_def demo_jwt_options_def check_claims_def
      omap_get_def nullish_value_def claim_user_def Let_def js_trim_def js_space_def)


text \<open>A parsed key set is usable and public: it is not empty, its key identifiers are distinct and
  not blank, every key passed the key-material check, and no source key carried a private member.\<close>

theorem parsePublicJwks_public:
  assumes "parsePublicJwks valid_key document = Inr ks"
  shows "\<exists>doc raws. document = Some doc \<and> js_field doc ''keys'' = JArr raws
    \<and> ks \<noteq> [] \<and> distinct (map jwk_kid ks) \<and> length ks = length raws
    \<and> (\<forall>i < length ks. valid_key (ks ! i) \<and> js_trim (jwk_kid (ks ! i)) \<noteq> []
         \<and> js_field (raws ! i) ''kid'' = JStr (jwk_kid (ks ! i))
         \<and> set (js_keys (raws ! i)) \<inter> set PRIVATE_JWK_MEMBERS = {})"
proof -
  from assms obtain doc raws where doc: "document = Some doc" "js_field doc ''keys'' = JArr raws" "raws \<noteq> []"
    and ks: "parse_jwk_list valid_key [] raws = Inr ks"
    by (auto simp: parsePublicJwks_def split: option.splits if_splits jsval.splits)
  from parse_jwk_list_Inr [OF ks] doc show ?thesis
    by (auto simp: list_all2_conv_all_nth)
qed

theorem parsePublicJwks_public_witness:
  "\<exists>ks. parsePublicJwks (\<lambda>_. True) (Some (JObj [(''keys'', JArr [JObj [(''kty'', JStr ''RSA''), (''alg'', JStr ''RS256''),
        (''kid'', JStr ''k''), (''n'', JStr ''1''), (''e'', JStr ''3'')]])])) = Inr ks
     \<and> ks \<noteq> [] \<and> distinct (map jwk_kid ks)"
proof -
  have "parsePublicJwks (\<lambda>_. True) (Some (JObj [(''keys'', JArr [JObj [(''kty'', JStr ''RSA''), (''alg'', JStr ''RS256''),
        (''kid'', JStr ''k''), (''n'', JStr ''1''), (''e'', JStr ''3'')]])]))
      = Inr [\<lparr> jwk_kid = ''k'', jwk_n = ''1'', jwk_e = ''3'', jwk_use = None \<rparr>]"
    by (simp add: parsePublicJwks_def parse_jwk_def PUBLIC_JWK_MEMBERS_def PRIVATE_JWK_MEMBERS_def
        js_trim_def js_space_def Let_def)
  from this parsePublicJwks_public [OF this] show ?thesis by blast
qed

end
