(* ===== verification/Jwks_Cache.thy ===== *)
theory Jwks_Cache
  imports Jwt_Auth
begin

text \<open>
  \<open>http/manager-jwks.ts\<close>: \<open>ManagerJwksAuthenticator\<close>, the cache of the Manager's public keys per
  tenant.  Cache entries are mutable objects that outlive their place in the map, so they live in an
  explicit store addressed by numbers.  \<open>authenticate\<close> is split where it awaits: its beginning, the
  beginning of a refresh, the settlement of a download, and its continuation.  The HTTP responses
  are values of the model; \<open>json\<close> decodes and parses a body (\<open>None\<close> when that throws).
\<close>

definition JWKS_TTL_MS :: int where "JWKS_TTL_MS = 60000"
definition JWKS_COOLDOWN_MS :: int where "JWKS_COOLDOWN_MS = 5000"

definition TENANT :: regex where
  "TENANT = Seq Bos (seqs [rep 8 (Cls is_hex_i), chr (CHR ''-''), rep 4 (Cls is_hex_i), chr (CHR ''-''),
     rep 4 (Cls is_hex_i), chr (CHR ''-''), rep 4 (Cls is_hex_i), chr (CHR ''-''), rep 12 (Cls is_hex_i), Eos])"

definition KEY_VERSION :: regex where
  "KEY_VERSION = Seq Bos (seqs [Cls (char_in ''123456789''), upto_rep 9 (Cls is_digit), Eos])"

datatype manager_unavailable =
    CoolingDown | RefreshBusy | KeysUnavailable | SessionUnavailable | SessionCheckFailed int

datatype manager_auth_error =
    NoBearer | InvalidJwt | MalformedToken | TokenSyntax | InvalidScope | TenantRequiresLogin | KeysExpired
  | JwtRejected jwt_error | SessionRevoked | TenantMismatch | CacheBusy | TokenUnavailable
  | ManagerUnavailable manager_unavailable

record jwks_entry =
  je_tenant :: string
  je_keys :: "(string, jwk) omap"
  je_expires :: int
  je_attempted :: int
  je_pending :: bool

record jwks_cache =
  jc_entries :: "(string, nat) omap"
  jc_heap :: "nat \<Rightarrow> jwks_entry option"
  jc_next :: nat
  jc_active :: int
  jc_window :: int
  jc_requests :: int

definition jwks_init :: jwks_cache where
  "jwks_init = \<lparr> jc_entries = [], jc_heap = Map.empty, jc_next = 0, jc_active = 0, jc_window = 0, jc_requests = 0 \<rparr>"

definition scopedKid :: "string \<Rightarrow> string \<Rightarrow> bool" where
  "scopedKid kid tenant \<longleftrightarrow>
     prefix (tenant @ '':'') kid \<and> regex_test KEY_VERSION (drop (length tenant + 1) kid)"

definition jwt_selector ::
  "(string \<Rightarrow> jsval option) \<Rightarrow> string \<Rightarrow> manager_auth_error + string \<times> string" where
  "jwt_selector decode token =
     (if length token > 16384 then Inl InvalidJwt
      else (case js_split (CHR ''.'') token of
        [h, p, sig] \<Rightarrow>
          (case (decode h, decode p) of
             (Some header, Some claims) \<Rightarrow>
               (case (js_field claims ''tenant_id'', js_field header ''kid'') of
                  (JStr tenant, JStr kid) \<Rightarrow>
                    if js_field header ''alg'' \<noteq> JStr ''RS256'' \<or> \<not> regex_test TENANT tenant \<or> \<not> scopedKid kid tenant
                    then Inl InvalidScope else Inr (tenant, kid)
                | _ \<Rightarrow> Inl InvalidScope)
           | _ \<Rightarrow> Inl TokenSyntax)
      | _ \<Rightarrow> Inl MalformedToken))"

section \<open>Download\<close>

record http_response =
  hr_ok :: bool
  hr_status :: int
  hr_contentType :: "string option"
  hr_body :: "string list option"

text \<open>The read loop: chunk by chunk with the size bound.\<close>

fun read_chunks :: "nat \<Rightarrow> string \<Rightarrow> string list \<Rightarrow> string option" where
  "read_chunks n acc [] = Some acc"
| "read_chunks n acc (chunk # rest) =
     (if n + length chunk > 65536 then None
      else read_chunks (n + length chunk) (acc @ chunk) rest)"

definition jwks_download ::
  "(jwk \<Rightarrow> bool) \<Rightarrow> (string \<Rightarrow> jsval option) \<Rightarrow> string \<Rightarrow> http_response \<Rightarrow> (string, jwk) omap option" where
  "jwks_download valid_key json tenant r =
     (if \<not> hr_ok r \<or> \<not> sublist ''application/json'' (nullish (hr_contentType r) []) then None
      else (case hr_body r of
        None \<Rightarrow> None
      | Some chunks \<Rightarrow>
          (case read_chunks 0 [] chunks of
             None \<Rightarrow> None
           | Some body \<Rightarrow>
               (case parsePublicJwks valid_key (json body) of
                  Inl _ \<Rightarrow> None
                | Inr ks \<Rightarrow>
                    if length ks > 32 \<or> (\<exists>k \<in> set ks. \<not> scopedKid (jwk_kid k) tenant) then None
                    else Some (key_map ks)))))"

section \<open>Refresh\<close>

datatype refresh_result = RefreshJoined | RefreshNotNeeded | RefreshFailed manager_unavailable | RefreshStarted

definition jwks_refresh :: "nat \<Rightarrow> jwks_entry \<Rightarrow> int \<Rightarrow> jwks_cache \<Rightarrow> refresh_result \<times> jwks_cache" where
  "jwks_refresh n e now s =
     (if je_pending e then (RefreshJoined, s)
      else (let fresh = je_expires e > now
        in if now - je_attempted e < JWKS_COOLDOWN_MS
           then (if fresh then RefreshNotNeeded else RefreshFailed CoolingDown, s)
           else (let window = now div 1000;
                     s1 = (if jc_window s \<noteq> window then s\<lparr>jc_window := window, jc_requests := 0\<rparr> else s)
                 in if jc_active s1 \<ge> 4 \<or> jc_requests s1 \<ge> 16
                    then (if fresh then RefreshNotNeeded else RefreshFailed RefreshBusy, s1)
                    else (RefreshStarted,
                          s1\<lparr>jc_heap := (jc_heap s1)(n \<mapsto> e\<lparr>je_attempted := now, je_pending := True\<rparr>),
                             jc_active := jc_active s1 + 1, jc_requests := jc_requests s1 + 1\<rparr>))))"

text \<open>The settlement of \<open>download\<close>, with its \<open>finally\<close>.\<close>

definition jwks_settle :: "nat \<Rightarrow> (string, jwk) omap option \<Rightarrow> int \<Rightarrow> jwks_cache \<Rightarrow> jwks_cache" where
  "jwks_settle n outcome now s =
     (case jc_heap s n of
        None \<Rightarrow> s
      | Some e \<Rightarrow>
          if \<not> je_pending e then s
          else (let e1 = (case outcome of None \<Rightarrow> e | Some ks \<Rightarrow> e\<lparr>je_keys := ks, je_expires := now + JWKS_TTL_MS\<rparr>)
                in s\<lparr>jc_heap := (jc_heap s)(n \<mapsto> e1\<lparr>je_pending := False\<rparr>), jc_active := jc_active s - 1\<rparr>))"

section \<open>Authentication\<close>

record auth_ctx =
  ac_token :: string
  ac_tenant :: string
  ac_entry :: nat

text \<open>\<open>authenticate\<close> up to its first await: the request's entry, and the refresh if one is needed.\<close>

definition authenticate_begin ::
  "(string \<Rightarrow> jsval option) \<Rightarrow> string option \<Rightarrow> int \<Rightarrow> jwks_cache
     \<Rightarrow> (manager_auth_error + auth_ctx \<times> refresh_result) \<times> jwks_cache" where
  "authenticate_begin decode authorization now s =
     (case bearer_token authorization of
        None \<Rightarrow> (Inl NoBearer, s)
      | Some token \<Rightarrow>
          (case jwt_selector decode token of
             Inl e \<Rightarrow> (Inl e, s)
           | Inr (tenant, kid) \<Rightarrow>
               (case omap_get (jc_entries s) tenant of
                  None \<Rightarrow> (Inl TenantRequiresLogin, s)
                | Some n \<Rightarrow>
                    (case jc_heap s n of
                       None \<Rightarrow> (Inl TenantRequiresLogin, s)
                     | Some e \<Rightarrow>
                         let ctx = \<lparr> ac_token = token, ac_tenant = tenant, ac_entry = n \<rparr>
                         in if je_expires e \<le> now \<or> omap_get (je_keys e) kid = None
                            then (let r = jwks_refresh n e now s
                                  in case fst r of
                                       RefreshFailed u \<Rightarrow> (Inl (ManagerUnavailable u), snd r)
                                     | _ \<Rightarrow> (Inr (ctx, fst r), snd r))
                            else (Inr (ctx, RefreshNotNeeded), s)))))"

text \<open>\<open>verifyManagerSession\<close>: the Manager's verdict; \<open>None\<close> is a failed fetch.\<close>

definition verifyManagerSession :: "http_response option \<Rightarrow> manager_auth_error option" where
  "verifyManagerSession response =
     (case response of
        None \<Rightarrow> Some (ManagerUnavailable SessionUnavailable)
      | Some r \<Rightarrow>
          if hr_ok r then None
          else if hr_status r = 401 \<or> hr_status r = 403 then Some SessionRevoked
          else Some (ManagerUnavailable (SessionCheckFailed (hr_status r))))"

text \<open>The continuation behind the refresh: \<open>downloaded\<close> is false when the awaited download failed.\<close>

definition authenticate_finish ::
  "(string \<Rightarrow> jsval option) \<Rightarrow> (string \<Rightarrow> jwk \<Rightarrow> string \<Rightarrow> bool) \<Rightarrow> string \<Rightarrow> string \<Rightarrow> auth_ctx \<Rightarrow> bool \<Rightarrow> int \<Rightarrow> rat
     \<Rightarrow> http_response option \<Rightarrow> jwks_cache \<Rightarrow> manager_auth_error + caller" where
  "authenticate_finish decode rsa_verify issuer audience ctx downloaded now nowManager session s =
     (if \<not> downloaded then Inl (ManagerUnavailable KeysUnavailable)
      else (case jc_heap s (ac_entry ctx) of
        None \<Rightarrow> Inl TenantRequiresLogin
      | Some e \<Rightarrow>
          if je_expires e \<le> now then Inl KeysExpired
          else (case verifyJwt decode rsa_verify (je_keys e)
                     \<lparr> jo_issuer = issuer, jo_audience = audience, jo_clockSkewSeconds = Some 0 \<rparr>
                     nowManager (ac_token ctx) of
                  Inl err \<Rightarrow> Inl (JwtRejected err)
                | Inr c \<Rightarrow> (case verifyManagerSession session of Some err \<Rightarrow> Inl err | None \<Rightarrow> Inr c))))"

text \<open>\<open>verifyLoginToken\<close>: reserve a slot for the tenant, then authenticate.\<close>

definition jwks_admit :: "string \<Rightarrow> jwks_cache \<Rightarrow> manager_auth_error option \<times> jwks_cache" where
  "jwks_admit tenant s =
     (case omap_get (jc_entries s) tenant of
        Some _ \<Rightarrow> (None, s)
      | None \<Rightarrow>
          (let idle = find (\<lambda>p. case jc_heap s (snd p) of None \<Rightarrow> True | Some e \<Rightarrow> \<not> je_pending e) (jc_entries s);
               full = length (jc_entries s) \<ge> 256
           in if full \<and> idle = None then (Some CacheBusy, s)
              else (let entries = (if full then omap_delete (fst (the idle)) (jc_entries s) else jc_entries s);
                        e = \<lparr> je_tenant = tenant, je_keys = [], je_expires = 0, je_attempted = 0, je_pending = False \<rparr>
                    in (None, s\<lparr>jc_entries := omap_set tenant (jc_next s) entries,
                                jc_heap := (jc_heap s)(jc_next s \<mapsto> e), jc_next := jc_next s + 1\<rparr>))))"

definition verifyLoginToken_begin ::
  "(string \<Rightarrow> jsval option) \<Rightarrow> string \<Rightarrow> string \<Rightarrow> int \<Rightarrow> jwks_cache
     \<Rightarrow> (manager_auth_error + auth_ctx \<times> refresh_result) \<times> jwks_cache" where
  "verifyLoginToken_begin decode token expectedTenant now s =
     (case jwt_selector decode token of
        Inl e \<Rightarrow> (Inl e, s)
      | Inr (tenant, kid) \<Rightarrow>
          if tenant \<noteq> expectedTenant then (Inl TenantMismatch, s)
          else (case jwks_admit tenant s of
                  (Some e, s1) \<Rightarrow> (Inl e, s1)
                | (None, s1) \<Rightarrow> authenticate_begin decode (Some (''Bearer '' @ token)) now s1))"

text \<open>\<open>ManagerSessionAuthenticator.authenticate\<close> around a local authenticator's outcome.\<close>

definition session_authenticate ::
  "manager_auth_error + caller \<Rightarrow> http_response option \<Rightarrow> manager_auth_error + caller" where
  "session_authenticate local session =
     (case local of
        Inl e \<Rightarrow> Inl e
      | Inr c \<Rightarrow>
          if nullish (ca_accessToken c) [] = [] then Inl TokenUnavailable
          else (case verifyManagerSession session of Some e \<Rightarrow> Inl e | None \<Rightarrow> Inr c))"

inductive jwks_step :: "(jwk \<Rightarrow> bool) \<Rightarrow> (string \<Rightarrow> jsval option) \<Rightarrow> (string \<Rightarrow> jsval option)
    \<Rightarrow> jwks_cache \<Rightarrow> jwks_cache \<Rightarrow> bool" for valid_key json decode where
  jwks_step_login: "jwks_step valid_key json decode s (snd (verifyLoginToken_begin decode token tenant now s))"
| jwks_step_auth: "jwks_step valid_key json decode s (snd (authenticate_begin decode authorization now s))"
| jwks_step_settle:
    "jc_heap s n = Some e \<Longrightarrow> outcome = None \<or> outcome = jwks_download valid_key json (je_tenant e) response \<Longrightarrow>
     jwks_step valid_key json decode s (jwks_settle n outcome now s)"

section \<open>Invariant\<close>

definition pending_entries :: "jwks_cache \<Rightarrow> nat set" where
  "pending_entries s = {n. \<exists>e. jc_heap s n = Some e \<and> je_pending e}"

definition entry_scoped :: "jwks_entry \<Rightarrow> bool" where
  "entry_scoped e \<longleftrightarrow> (\<forall>kid k. omap_get (je_keys e) kid = Some k \<longrightarrow> scopedKid kid (je_tenant e))"

definition jwks_inv :: "jwks_cache \<Rightarrow> bool" where
  "jwks_inv s \<longleftrightarrow>
     (\<forall>t n. omap_get (jc_entries s) t = Some n \<longrightarrow> (\<exists>e. jc_heap s n = Some e \<and> je_tenant e = t))
     \<and> (\<forall>n e. jc_heap s n = Some e \<longrightarrow> n < jc_next s \<and> entry_scoped e)
     \<and> jc_active s = int (card (pending_entries s)) \<and> jc_active s \<le> 4 \<and> jc_requests s \<le> 16
     \<and> length (jc_entries s) \<le> 256 \<and> omap_ok (jc_entries s)"

lemma pending_finite: "jwks_inv s \<Longrightarrow> finite (pending_entries s)"
  by (rule finite_subset [of _ "{..< jc_next s}"]) (auto simp: pending_entries_def jwks_inv_def)

lemma key_map_get: "omap_get (key_map ks) kid = Some k \<Longrightarrow> k \<in> set ks \<and> jwk_kid k = kid"
proof -
  have "omap_get (fold (\<lambda>k m. omap_set (jwk_kid k) k m) ks m) kid = Some k \<Longrightarrow>
      k \<in> set ks \<and> jwk_kid k = kid \<or> omap_get m kid = Some k" for m
    by (induction ks arbitrary: m) (fastforce split: if_splits)+
  then show "omap_get (key_map ks) kid = Some k \<Longrightarrow> ?thesis"
    by (fastforce simp: key_map_def)
qed

lemma jwks_download_scoped:
  "jwks_download valid_key json tenant r = Some ks \<Longrightarrow> omap_get ks kid = Some k \<Longrightarrow> scopedKid kid tenant"
  by (auto simp: jwks_download_def split: if_splits option.splits sum.splits dest!: key_map_get)

lemma jwks_refresh_inv:
  assumes "jwks_inv s" "jc_heap s n = Some e"
  shows "jwks_inv (snd (jwks_refresh n e now s))"
proof (cases "fst (jwks_refresh n e now s) = RefreshStarted")
  case True
  let ?s = "snd (jwks_refresh n e now s)"
  have start: "\<not> je_pending e" "jc_active ?s \<le> 4" "jc_active ?s = jc_active s + 1" "jc_requests ?s \<le> 16"
    "jc_heap ?s = (jc_heap s)(n \<mapsto> e\<lparr>je_attempted := now, je_pending := True\<rparr>)"
    "jc_entries ?s = jc_entries s" "jc_next ?s = jc_next s"
    using True by (auto simp: jwks_refresh_def Let_def split: if_splits)
  then have "pending_entries ?s = insert n (pending_entries s)" and "n \<notin> pending_entries s"
    using assms(2) by (auto simp: pending_entries_def)
  with start pending_finite [OF assms(1)] assms show ?thesis
    by (fastforce simp: jwks_inv_def entry_scoped_def)
next
  case False
  then have "snd (jwks_refresh n e now s) = s
    \<or> snd (jwks_refresh n e now s) = s\<lparr>jc_window := now div 1000, jc_requests := 0\<rparr>"
    by (auto simp: jwks_refresh_def Let_def split: if_splits)
  with assms(1) show ?thesis by (auto simp: jwks_inv_def pending_entries_def)
qed

lemma jwks_settle_inv:
  assumes "jwks_inv s" "jc_heap s n = Some e"
    and "outcome = None \<or> outcome = jwks_download valid_key json (je_tenant e) response"
  shows "jwks_inv (jwks_settle n outcome now s)"
proof (cases "je_pending e")
  case True
  let ?s = "jwks_settle n outcome now s"
  define e' where "e' = (case outcome of None \<Rightarrow> e | Some ks \<Rightarrow> e\<lparr>je_keys := ks, je_expires := now + JWKS_TTL_MS\<rparr>)\<lparr>je_pending := False\<rparr>"
  have "entry_scoped e" using assms(1,2) by (auto simp: jwks_inv_def)
  have "entry_scoped e'"
  proof (cases outcome)
    case None
    with \<open>entry_scoped e\<close> show ?thesis by (simp add: e'_def entry_scoped_def)
  next
    case (Some ks)
    with assms(3) have "jwks_download valid_key json (je_tenant e) response = Some ks" by auto
    with jwks_download_scoped Some show ?thesis by (auto simp: e'_def entry_scoped_def)
  qed
  then have e': "jc_heap ?s = (jc_heap s)(n \<mapsto> e')" "je_tenant e' = je_tenant e" "\<not> je_pending e'" "entry_scoped e'"
    using assms(2) True by (auto simp: e'_def jwks_settle_def Let_def split: option.splits)
  have same: "jc_active ?s = jc_active s - 1" "jc_requests ?s = jc_requests s" "jc_entries ?s = jc_entries s"
    "jc_next ?s = jc_next s"
    using assms(2) True by (simp_all add: jwks_settle_def Let_def)
  have "pending_entries ?s = pending_entries s - {n}" and "n \<in> pending_entries s"
    using e' assms(2) True by (auto simp: pending_entries_def)
  then have "int (card (pending_entries ?s)) = int (card (pending_entries s)) - 1"
    using card_Suc_Diff1 [OF pending_finite [OF assms(1)]] by fastforce
  with e' same assms(1,2) show ?thesis by (fastforce simp: jwks_inv_def)
next
  case False
  with assms show ?thesis by (simp add: jwks_settle_def)
qed

definition jwks_alloc :: "string \<Rightarrow> (string, nat) omap \<Rightarrow> jwks_cache \<Rightarrow> jwks_cache" where
  "jwks_alloc tenant m s =
     s\<lparr>jc_entries := omap_set tenant (jc_next s) m,
       jc_heap := (jc_heap s)(jc_next s \<mapsto> \<lparr> je_tenant = tenant, je_keys = [], je_expires = 0, je_attempted = 0, je_pending = False \<rparr>),
       jc_next := jc_next s + 1\<rparr>"

lemma omap_delete_shrinks: "e \<in> set m \<Longrightarrow> length (omap_delete (fst e) m) < length m"
  by (simp add: omap_delete_def length_filter_less)

lemma jwks_admit_alloc:
  assumes "omap_get (jc_entries s) tenant = None \<and> fst (jwks_admit tenant s) = None" "jwks_inv s"
  obtains m where "snd (jwks_admit tenant s) = jwks_alloc tenant m s" "omap_ok m" "length m < 256"
    "\<forall>t n. omap_get m t = Some n \<longrightarrow> omap_get (jc_entries s) t = Some n"
proof (cases "length (jc_entries s) \<ge> 256")
  case True
  then obtain p where idle: "find (\<lambda>p. case jc_heap s (snd p) of None \<Rightarrow> True | Some e \<Rightarrow> \<not> je_pending e) (jc_entries s) = Some p"
    using assms(1) by (fastforce simp: jwks_admit_def Let_def split: if_splits)
  with True assms(1) have p: "p \<in> set (jc_entries s)"
    "snd (jwks_admit tenant s) = jwks_alloc tenant (omap_delete (fst p) (jc_entries s)) s"
    by (auto simp: jwks_admit_def jwks_alloc_def Let_def dest: find_Some_in)
  with that assms(2) omap_delete_shrinks [OF p(1)] show ?thesis
    by (auto simp: jwks_inv_def split: if_splits)
next
  case False
  with that [of "jc_entries s"] assms show ?thesis
    by (simp add: jwks_admit_def jwks_alloc_def Let_def jwks_inv_def)
qed

lemma jwks_admit_inv:
  assumes "jwks_inv s"
  shows "jwks_inv (snd (jwks_admit tenant s))"
proof (cases "omap_get (jc_entries s) tenant = None \<and> fst (jwks_admit tenant s) = None")
  case True
  obtain m where admit: "snd (jwks_admit tenant s) = jwks_alloc tenant m s" and m: "omap_ok m" "length m < 256"
      "\<forall>t n. omap_get m t = Some n \<longrightarrow> omap_get (jc_entries s) t = Some n"
    using True assms by (rule jwks_admit_alloc) blast
  have "jc_next s \<notin> dom (jc_heap s)" using assms by (auto simp: jwks_inv_def)
  then have pend: "pending_entries (jwks_alloc tenant m s) = pending_entries s"
    by (auto simp: pending_entries_def jwks_alloc_def)
  have "\<forall>t n. omap_get (jc_entries (jwks_alloc tenant m s)) t = Some n \<longrightarrow>
      (\<exists>e. jc_heap (jwks_alloc tenant m s) n = Some e \<and> je_tenant e = t)"
  proof (intro allI impI)
    fix t n
    assume get: "omap_get (jc_entries (jwks_alloc tenant m s)) t = Some n"
    show "\<exists>e. jc_heap (jwks_alloc tenant m s) n = Some e \<and> je_tenant e = t"
    proof (cases "t = tenant")
      case True
      with get show ?thesis by (simp add: jwks_alloc_def)
    next
      case False
      with get m(3) assms have old: "\<exists>e. jc_heap s n = Some e \<and> je_tenant e = t"
        by (simp add: jwks_alloc_def jwks_inv_def)
      with assms have "n \<noteq> jc_next s" by (auto simp: jwks_inv_def)
      with old show ?thesis by (simp add: jwks_alloc_def)
    qed
  qed
  moreover have "\<forall>n e. jc_heap (jwks_alloc tenant m s) n = Some e \<longrightarrow> n < jc_next (jwks_alloc tenant m s) \<and> entry_scoped e"
    using assms by (auto simp: jwks_inv_def jwks_alloc_def entry_scoped_def less_Suc_eq)
  moreover have "length (jc_entries (jwks_alloc tenant m s)) \<le> 256"
    using m(2) by (simp add: jwks_alloc_def length_omap_set)
  ultimately show ?thesis
    unfolding admit jwks_inv_def pend using assms m(1) by (simp add: jwks_inv_def jwks_alloc_def)
next
  case False
  with assms show ?thesis by (auto simp: jwks_admit_def Let_def split: option.splits if_splits)
qed

lemma authenticate_begin_inv: "jwks_inv s \<Longrightarrow> jwks_inv (snd (authenticate_begin decode a now s))"
  by (auto simp: authenticate_begin_def Let_def jwks_refresh_inv split: option.splits sum.splits refresh_result.splits)

lemma verifyLogin_inv: "jwks_inv s \<Longrightarrow> jwks_inv (snd (verifyLoginToken_begin decode token t now s))"
  using jwks_admit_inv [of s t]
  by (auto simp: verifyLoginToken_begin_def authenticate_begin_inv split: option.splits sum.splits prod.splits)

lemma jwks_step_inv: "jwks_step valid_key json decode s t \<Longrightarrow> jwks_inv s \<Longrightarrow> jwks_inv t"
  by (induction rule: jwks_step.induct) (simp_all add: verifyLogin_inv authenticate_begin_inv jwks_settle_inv)

interpretation jwks: invariant_system "\<lambda>s. s = jwks_init" "jwks_step valid_key json decode" jwks_inv
  for valid_key json decode
proof unfold_locales
  show "s = jwks_init \<Longrightarrow> jwks_inv s" for s
    by (simp add: jwks_inv_def jwks_init_def pending_entries_def)
  show "jwks_inv s \<Longrightarrow> jwks_step valid_key json decode s t \<Longrightarrow> jwks_inv t" for s t
    by (rule jwks_step_inv)
qed

section \<open>An entry keeps its tenant\<close>

definition keeps_tenants :: "jwks_cache \<Rightarrow> jwks_cache \<Rightarrow> bool" where
  "keeps_tenants s t \<longleftrightarrow>
     (\<forall>n e. jc_heap s n = Some e \<longrightarrow> (\<exists>e'. jc_heap t n = Some e' \<and> je_tenant e' = je_tenant e))"

lemma keeps_tenants_refl [simp]: "keeps_tenants s s"
  by (simp add: keeps_tenants_def)

lemma keeps_tenants_trans: "keeps_tenants s t \<Longrightarrow> keeps_tenants t u \<Longrightarrow> keeps_tenants s u"
  unfolding keeps_tenants_def by metis

lemma jwks_refresh_keeps: "jc_heap s n = Some e \<Longrightarrow> keeps_tenants s (snd (jwks_refresh n e now s))"
  by (auto simp: jwks_refresh_def keeps_tenants_def Let_def)

lemma jwks_settle_keeps: "keeps_tenants s (jwks_settle n outcome now s)"
  by (auto simp: jwks_settle_def keeps_tenants_def Let_def split: option.splits)

lemma jwks_admit_keeps: "jwks_inv s \<Longrightarrow> keeps_tenants s (snd (jwks_admit tenant s))"
  by (auto simp: jwks_admit_def keeps_tenants_def jwks_inv_def Let_def split: option.splits)

lemma authenticate_begin_keeps: "keeps_tenants s (snd (authenticate_begin decode a now s))"
  by (auto simp: authenticate_begin_def Let_def jwks_refresh_keeps split: option.splits sum.splits refresh_result.splits)

lemma jwks_step_keeps: "jwks_step valid_key json decode s t \<Longrightarrow> jwks_inv s \<Longrightarrow> keeps_tenants s t"
proof (induction rule: jwks_step.induct)
  case (jwks_step_login s token tenant now)
  then show ?case
    using jwks_admit_keeps [of s tenant] keeps_tenants_trans authenticate_begin_keeps
    by (fastforce simp: verifyLoginToken_begin_def split: sum.splits prod.splits option.splits)
qed (simp_all add: authenticate_begin_keeps jwks_settle_keeps)

lemma jwks_steps_keep: "steps (jwks_step valid_key json decode) s t \<Longrightarrow> jwks_inv s \<Longrightarrow> keeps_tenants s t"
proof (induction rule: steps.induct)
  case (steps_snoc s t u)
  then show ?case using jwks.steps_inv jwks_step_keeps keeps_tenants_trans by blast
qed simp

lemma authenticate_begin_ctx:
  assumes "fst (authenticate_begin decode a now s) = Inr (ctx, r)" "jwks_inv s"
  shows "\<exists>kid e. jwt_selector decode (ac_token ctx) = Inr (ac_tenant ctx, kid)
     \<and> jc_heap s (ac_entry ctx) = Some e \<and> je_tenant e = ac_tenant ctx"
  using assms
  by (fastforce simp: authenticate_begin_def Let_def jwks_inv_def
      split: option.splits sum.splits if_splits refresh_result.splits)

lemma jwt_selector_Inr:
  assumes "jwt_selector decode token = Inr (tenant, kid)"
  shows "\<exists>h p sig header claims. js_split (CHR ''.'') token = [h, p, sig] \<and> decode h = Some header \<and> decode p = Some claims
    \<and> js_field claims ''tenant_id'' = JStr tenant \<and> js_field header ''kid'' = JStr kid \<and> scopedKid kid tenant"
  using assms by (auto simp: jwt_selector_def split: if_splits list.splits option.splits jsval.splits)

section \<open>Properties\<close>


definition demo_tenant :: string where
  "demo_tenant = ''01234567-89ab-cdef-0123-456789abcdef''"

definition demo_kid :: string where
  "demo_kid = demo_tenant @ '':1''"

definition demo_token_claims :: jsval where
  "demo_token_claims = JObj [(''exp'', JNum (Fin 2000)), (''iat'', JNum (Fin 900)), (''iss'', JStr ''m''), (''aud'', JStr ''a''),
     (''enterprise_id'', JStr ''e''), (''roles'', JArr []), (''tenant_id'', JStr demo_tenant), (''sub'', JStr ''u'')]"

definition demo_segments :: "string \<Rightarrow> jsval option" where
  "demo_segments s = (if s = ''h'' then Some (JObj [(''alg'', JStr ''RS256''), (''kid'', JStr demo_kid)])
     else if s = ''p'' then Some demo_token_claims else None)"

definition demo_document :: "string \<Rightarrow> jsval option" where
  "demo_document s = Some (JObj [(''keys'', JArr [JObj [(''kty'', JStr ''RSA''), (''alg'', JStr ''RS256''),
     (''kid'', JStr demo_kid), (''n'', JStr ''1''), (''e'', JStr ''3'')]])])"

definition demo_response :: http_response where
  "demo_response = \<lparr> hr_ok = True, hr_status = 200, hr_contentType = Some ''application/json'', hr_body = Some [''x''] \<rparr>"

definition demo_login :: jwks_cache where
  "demo_login = snd (verifyLoginToken_begin demo_segments ''h.p.s'' demo_tenant 10000 jwks_init)"

definition demo_ready :: jwks_cache where
  "demo_ready = jwks_settle 0 (jwks_download (\<lambda>_. True) demo_document demo_tenant demo_response) 10100 demo_login"

definition demo_ctx :: auth_ctx where
  "demo_ctx = \<lparr> ac_token = ''h.p.s'', ac_tenant = demo_tenant, ac_entry = 0 \<rparr>"

lemmas demo_jwks_defs = demo_tenant_def demo_kid_def demo_token_claims_def demo_segments_def demo_document_def
  demo_response_def

lemma demo_selector: "jwt_selector demo_segments ''h.p.s'' = Inr (demo_tenant, demo_kid)"
  by code_simp

lemma demo_keys: "jwks_download (\<lambda>_. True) demo_document demo_tenant demo_response
    = Some [(demo_kid, \<lparr> jwk_kid = demo_kid, jwk_n = ''1'', jwk_e = ''3'', jwk_use = None \<rparr>)]"
proof -
  have "scopedKid demo_kid demo_tenant" and "js_trim demo_kid \<noteq> []" by code_simp+
  moreover have "sublist ''application/json'' ''application/json''" by simp
  ultimately show ?thesis
    by (simp add: jwks_download_def demo_response_def demo_document_def parsePublicJwks_def parse_jwk_def
        PUBLIC_JWK_MEMBERS_def PRIVATE_JWK_MEMBERS_def key_map_def Let_def)
qed

lemma demo_login_eq:
  "demo_login = \<lparr> jc_entries = [(demo_tenant, 0)],
     jc_heap = [0 \<mapsto> \<lparr> je_tenant = demo_tenant, je_keys = [], je_expires = 0, je_attempted = 10000, je_pending = True \<rparr>],
     jc_next = 1, jc_active = 1, jc_window = 10, jc_requests = 1 \<rparr>"
  by (simp add: demo_login_def verifyLoginToken_begin_def demo_selector jwks_admit_def jwks_init_def authenticate_begin_def
      bearer_token_def jwks_refresh_def JWKS_COOLDOWN_MS_def omap_get_def Let_def)

lemma demo_ready_eq:
  "demo_ready = demo_login\<lparr>jc_active := 0,
     jc_heap := [0 \<mapsto> \<lparr> je_tenant = demo_tenant,
       je_keys = [(demo_kid, \<lparr> jwk_kid = demo_kid, jwk_n = ''1'', jwk_e = ''3'', jwk_use = None \<rparr>)],
       je_expires = 70100, je_attempted = 10000, je_pending = False \<rparr>]\<rparr>"
  by (simp add: demo_ready_def demo_keys jwks_settle_def demo_login_eq JWKS_TTL_MS_def Let_def)

lemma demo_ready_reach: "reach (\<lambda>s. s = jwks_init) (jwks_step (\<lambda>_. True) demo_document demo_segments) demo_ready"
proof -
  have "reach (\<lambda>s. s = jwks_init) (jwks_step (\<lambda>_. True) demo_document demo_segments) demo_login"
    unfolding demo_login_def by (rule reach_step [where s = jwks_init], rule reach_init, rule refl, rule jwks_step_login)
  then show ?thesis
    unfolding demo_ready_def by (rule reach_step) (rule jwks_step_settle, auto simp: demo_login_eq)
qed

lemma demo_begin:
  "authenticate_begin demo_segments (Some ''Bearer h.p.s'') 11000 demo_ready = (Inr (demo_ctx, RefreshNotNeeded), demo_ready)"
  by (simp add: authenticate_begin_def bearer_token_def demo_selector demo_ready_eq demo_login_eq demo_ctx_def omap_get_def Let_def)

lemma demo_finish:
  "\<exists>c. authenticate_finish demo_segments (\<lambda>d k s. s = ''s'') ''m'' ''a'' demo_ctx True 11000 1000000 (Some demo_response) demo_ready = Inr c"
  by (simp add: authenticate_finish_def demo_ready_eq demo_ctx_def verifyJwt_def check_claims_def demo_jwks_defs
      omap_get_def nullish_value_def claim_user_def Let_def js_trim_def js_space_def verifyManagerSession_def)


text \<open>The key cache bounds what bearers can make it do: at most 256 tenants are cached, at most
  four downloads run at once (their counter is exactly the number of pending entries) and at most 16
  start in one window, in every reachable state.\<close>

theorem jwks_cache_bounds:
  assumes "reach (\<lambda>s. s = jwks_init) (jwks_step valid_key json decode) s"
  shows "length (jc_entries s) \<le> 256 \<and> jc_active s = int (card (pending_entries s))
    \<and> card (pending_entries s) \<le> 4 \<and> jc_requests s \<le> 16"
  using jwks.reach_inv [OF assms] by (simp add: jwks_inv_def)

theorem jwks_cache_bounds_witness:
  "length (jc_entries demo_login) \<le> 256 \<and> card (pending_entries demo_login) \<le> 4 \<and> jc_active demo_login = 1"
proof -
  have "reach (\<lambda>s. s = jwks_init) (jwks_step (\<lambda>_. True) demo_document demo_segments) demo_login"
    unfolding demo_login_def by (rule reach_step [where s = jwks_init], rule reach_init, rule refl, rule jwks_step_login)
  from jwks_cache_bounds [OF this] show ?thesis by (simp add: demo_login_eq)
qed

end
