(* ===== verification/Scope_Encoding.thy ===== *)
theory Scope_Encoding
  imports Prelude
begin

text \<open>
  \<open>encodeScope\<close> of \<open>runtime-lease-cache.ts\<close>: the key under which caches, registries, approvals
  and occurrence identities are filed.  Every component is prefixed by its length, so the encoding
  is injective and an encoded owner scope is a prefix of exactly the keys of that owner.
\<close>

definition encodePart :: "string \<Rightarrow> string" where
  "encodePart part = dec (length part) @ '':'' @ part"

fun join_bar :: "string list \<Rightarrow> string" where
  "join_bar [] = []"
| "join_bar [p] = p"
| "join_bar (p # q # ps) = p @ ''|'' @ join_bar (q # ps)"

definition encodeScope :: "string list \<Rightarrow> string" where
  "encodeScope parts = join_bar (map encodePart parts)"

text \<open>The membership test of \<open>clearOwner\<close>: the scope itself or a key below it.\<close>

definition in_owner_scope :: "string \<Rightarrow> string \<Rightarrow> bool" where
  "in_owner_scope scope key \<longleftrightarrow> key = scope \<or> prefix (scope @ ''|'') key"

lemma split_at_colon:
  assumes "a @ CHR '':'' # x = b @ CHR '':'' # y" "CHR '':'' \<notin> set a" "CHR '':'' \<notin> set b"
  shows "a = b \<and> x = y"
  using assms by (simp add: split_at_char)

lemma encodePart_append_inject:
  assumes "encodePart p @ r = encodePart q @ s"
  shows "p = q \<and> r = s"
proof -
  have "dec (length p) @ CHR '':'' # (p @ r) = dec (length q) @ CHR '':'' # (q @ s)"
    using assms by (simp add: encodePart_def)
  then have "dec (length p) = dec (length q)" and "p @ r = q @ s"
    using split_at_colon dec_no_colon by blast+
  then show ?thesis by simp
qed

lemma encodePart_nonempty [simp]: "encodePart p \<noteq> []"
  by (simp add: encodePart_def)

lemma encodePart_hd: "\<exists>c cs. encodePart p = c # cs \<and> is_digit c"
  using dec_digits [of "length p"] dec_nonempty [of "length p"]
  by (cases "dec (length p)") (auto simp: encodePart_def)

lemma encodeScope_Cons:
  "encodeScope (p # ps) = encodePart p @ (if ps = [] then [] else CHR ''|'' # encodeScope ps)"
  by (cases ps) (simp_all add: encodeScope_def)

lemma encodeScope_Nil [simp]: "encodeScope [] = []"
  by (simp add: encodeScope_def)

lemma encodeScope_eq_Nil [simp]: "encodeScope ps = [] \<longleftrightarrow> ps = []"
  by (cases ps) (auto simp: encodeScope_Cons)

lemma encodeScope_not_bar: "encodeScope ps \<noteq> CHR ''|'' # r"
proof (cases ps)
  case (Cons p qs)
  obtain c cs where "encodePart p = c # cs" "is_digit c" using encodePart_hd by blast
  then show ?thesis by (auto simp: Cons encodeScope_Cons is_digit_def)
qed simp

text \<open>Two encodings followed by a separator or the end of the string agree part by part.\<close>

lemma encodeScope_prefix_code:
  assumes "encodeScope xs @ r = encodeScope ys @ s"
    and "r = [] \<or> hd r = CHR ''|''" and "s = [] \<or> hd s = CHR ''|''" and "xs \<noteq> []" and "ys \<noteq> []"
  shows "prefix xs ys \<or> prefix ys xs"
  using assms
proof (induction xs arbitrary: ys)
  case (Cons x xs)
  then obtain y ys' where ys: "ys = y # ys'" by (cases ys) auto
  let ?tail = "\<lambda>zs. if zs = [] then [] else CHR ''|'' # encodeScope zs"
  have "encodePart x @ (?tail xs @ r) = encodePart y @ (?tail ys' @ s)"
    using Cons.prems(1) unfolding ys encodeScope_Cons append_assoc .
  then have xy: "x = y" and rest: "?tail xs @ r = ?tail ys' @ s"
    using encodePart_append_inject by blast+
  show ?case
  proof (cases "xs = [] \<or> ys' = []")
    case True
    with xy show ?thesis by (auto simp: ys)
  next
    case False
    with rest have "encodeScope xs @ r = encodeScope ys' @ s" by simp
    with Cons.IH Cons.prems(2,3) False have "prefix xs ys' \<or> prefix ys' xs" by blast
    with xy show ?thesis by (simp add: ys)
  qed
qed simp

lemma encodeScope_append:
  "encodeScope (xs @ ys) =
     (if xs = [] then encodeScope ys else if ys = [] then encodeScope xs
      else encodeScope xs @ CHR ''|'' # encodeScope ys)"
  by (induction xs) (auto simp: encodeScope_Cons)

lemma encodeScope_inject: "encodeScope xs = encodeScope ys \<longleftrightarrow> xs = ys"
proof
  assume eq: "encodeScope xs = encodeScope ys"
  show "xs = ys"
  proof (cases "xs = [] \<or> ys = []")
    case True
    with eq show ?thesis by (metis encodeScope_eq_Nil encodeScope_Nil)
  next
    case False
    with eq encodeScope_prefix_code [of xs "[]" ys "[]"]
    have "prefix xs ys \<or> prefix ys xs" by simp
    then obtain zs where "ys = xs @ zs \<or> xs = ys @ zs" by (auto elim: prefixE)
    with eq False show ?thesis
      by (auto simp: encodeScope_append split: if_splits)
  qed
qed simp

text \<open>An owner scope selects exactly the keys that extend it.\<close>

lemma in_owner_scope_iff:
  assumes "owner \<noteq> []"
  shows "in_owner_scope (encodeScope owner) (encodeScope key) \<longleftrightarrow> prefix owner key"
proof
  assume "in_owner_scope (encodeScope owner) (encodeScope key)"
  then consider "encodeScope key = encodeScope owner"
    | r where "encodeScope key = encodeScope owner @ CHR ''|'' # r"
    by (auto simp: in_owner_scope_def prefix_def)
  then show "prefix owner key"
  proof cases
    case 1
    then show ?thesis by (simp add: encodeScope_inject)
  next
    case (2 r)
    then have "key \<noteq> []" by auto
    with 2 assms encodeScope_prefix_code [of key "[]" owner "CHR ''|'' # r"]
    have "prefix key owner \<or> prefix owner key" by auto
    then show ?thesis
    proof
      assume "prefix key owner"
      then obtain zs where "owner = key @ zs" by (auto elim: prefixE)
      with 2 \<open>key \<noteq> []\<close> have "zs = []"
        by (auto simp: encodeScope_append dest!: arg_cong [where f = length] split: if_splits)
      with \<open>owner = key @ zs\<close> show ?thesis by simp
    qed
  qed
next
  assume "prefix owner key"
  then obtain zs where "key = owner @ zs" by (auto elim: prefixE)
  with assms show "in_owner_scope (encodeScope owner) (encodeScope key)"
    by (auto simp: in_owner_scope_def encodeScope_append prefix_def)
qed

text \<open>The contract a client of scope keys relies on.\<close>

locale scope_code =
  fixes enc :: "'p list \<Rightarrow> 's" and owns :: "'s \<Rightarrow> 's \<Rightarrow> bool"
  assumes enc_inject: "enc xs = enc ys \<longleftrightarrow> xs = ys"
    and owns_iff: "xs \<noteq> [] \<Longrightarrow> owns (enc xs) (enc ys) \<longleftrightarrow> prefix xs ys"
begin

lemma owns_disjoint:
  "length xs = length ys \<Longrightarrow> xs \<noteq> [] \<Longrightarrow> owns (enc xs) (enc zs) \<Longrightarrow> owns (enc ys) (enc zs) \<Longrightarrow> xs = ys"
  by (metis length_0_conv owns_iff prefix_length_prefix prefix_order.antisym order_refl)

lemma owns_extend: "xs \<noteq> [] \<Longrightarrow> owns (enc xs) (enc (xs @ ys))"
  by (simp add: owns_iff)

end

interpretation scope: scope_code encodeScope in_owner_scope
  by unfold_locales (simp_all add: encodeScope_inject in_owner_scope_iff)

section \<open>Properties\<close>

text \<open>The scope encoding is injective, and an encoded owner scope selects exactly the encoded
  keys whose component list extends the owner's, so identifiers that contain the delimiters cannot
  make two owners collide or let one owner's revocation reach another's keys.\<close>

theorem encodeScope_separates_owners:
  assumes "owner \<noteq> []"
  shows "(in_owner_scope (encodeScope owner) (encodeScope key) \<longleftrightarrow> (\<exists>rest. key = owner @ rest))
    \<and> (encodeScope owner = encodeScope key \<longleftrightarrow> owner = key)"
  using scope.owns_iff [OF assms, of key] scope.enc_inject by (auto simp: prefix_def)

theorem encodeScope_separates_owners_witness:
  "\<not> in_owner_scope (encodeScope [''a|1:b'']) (encodeScope [''a'', ''b''])
   \<and> in_owner_scope (encodeScope [''t'', ''m'']) (encodeScope [''t'', ''m'', ''e''])
   \<and> encodeScope [''a|1:b''] \<noteq> encodeScope [''a'', ''b'']"
  using encodeScope_separates_owners [of "[''a|1:b'']" "[''a'', ''b'']"]
    encodeScope_separates_owners [of "[''t'', ''m'']" "[''t'', ''m'', ''e'']"] by simp

end
