(* ===== verification/Manager_Clock.thy ===== *)
theory Manager_Clock
  imports Prelude
begin

text \<open>
  \<open>ManagerClock\<close> of \<open>clock.ts\<close>: the offset between the Manager's clock and the local one, estimated
  from the \<open>Date\<close> header of Manager responses.  \<open>Number\<close> and \<open>Date.parse\<close> are the arguments
  \<open>to_number\<close> and \<open>parse_date\<close>.
\<close>

definition MAX_CLOCK_OFFSET_MS :: rat where "MAX_CLOCK_OFFSET_MS = 7 * 24 * 60 * 60 * 1000"
definition MAX_OBSERVED_RTT_MS :: rat where "MAX_OBSERVED_RTT_MS = 10000"

record manager_clock =
  mc_offset :: rat

text \<open>The two response headers the clock reads.\<close>

record date_headers =
  hd_date :: "string option"
  hd_age :: "string option"

definition clock_init :: manager_clock where "clock_init = \<lparr> mc_offset = 0 \<rparr>"

definition clock_now :: "manager_clock \<Rightarrow> rat \<Rightarrow> rat" where
  "clock_now c local = local + mc_offset c"

definition clock_reset :: "manager_clock \<Rightarrow> manager_clock" where
  "clock_reset c = c\<lparr>mc_offset := 0\<rparr>"

definition clock_observe ::
  "(string \<Rightarrow> jsnum) \<Rightarrow> (string \<Rightarrow> rat option) \<Rightarrow> date_headers \<Rightarrow> rat \<Rightarrow> rat \<Rightarrow> manager_clock \<Rightarrow> manager_clock" where
  "clock_observe to_number parse_date h sentAt receivedAt c =
     (case hd_date h of
        None \<Rightarrow> c
      | Some date \<Rightarrow>
          if date = [] then c
          else if (case (case hd_age h of None \<Rightarrow> Fin 0 | Some a \<Rightarrow> to_number a) of
                     Fin age \<Rightarrow> age > 0 | _ \<Rightarrow> False) then c
          else (case parse_date date of
                  None \<Rightarrow> c
                | Some managerTime \<Rightarrow>
                    let rtt = receivedAt - sentAt;
                        offset = managerTime - (sentAt + rtt / 2)
                    in if rtt < 0 \<or> rtt > MAX_OBSERVED_RTT_MS then c
                       else if \<bar>offset\<bar> > MAX_CLOCK_OFFSET_MS then c
                       else c\<lparr>mc_offset := offset\<rparr>))"

text \<open>\<open>observingFetch\<close>: the response is returned as it is and observed when it arrives.\<close>

definition observingFetch ::
  "(string \<Rightarrow> jsnum) \<Rightarrow> (string \<Rightarrow> rat option) \<Rightarrow> rat \<Rightarrow> rat \<Rightarrow> 'e + date_headers \<times> 'r \<Rightarrow> manager_clock
     \<Rightarrow> ('e + date_headers \<times> 'r) \<times> manager_clock" where
  "observingFetch to_number parse_date sentAt receivedAt outcome c =
     (case outcome of
        Inl e \<Rightarrow> (Inl e, c)
      | Inr (h, r) \<Rightarrow> (Inr (h, r), clock_observe to_number parse_date h sentAt receivedAt c))"

inductive clock_step :: "manager_clock \<Rightarrow> manager_clock \<Rightarrow> bool" where
  clock_step_observe: "clock_step c (clock_observe num prs h sent recv c)"
| clock_step_reset: "clock_step c (clock_reset c)"

definition clock_bounded :: "manager_clock \<Rightarrow> bool" where
  "clock_bounded c \<longleftrightarrow> \<bar>mc_offset c\<bar> \<le> MAX_CLOCK_OFFSET_MS"

lemma clock_observe_cases:
  obtains "clock_observe num prs h sent recv c = c"
  | date t where "hd_date h = Some date" "prs date = Some t" "0 \<le> recv - sent" "recv - sent \<le> MAX_OBSERVED_RTT_MS"
      "\<bar>t - (sent + (recv - sent) / 2)\<bar> \<le> MAX_CLOCK_OFFSET_MS"
      "clock_observe num prs h sent recv c = c\<lparr>mc_offset := t - (sent + (recv - sent) / 2)\<rparr>"
proof (cases "clock_observe num prs h sent recv c = c")
  case False
  with that(2) show ?thesis
    by (auto simp: clock_observe_def Let_def not_less split: option.splits if_splits)
qed (use that(1) in blast)

lemma clock_observe_bounded: "clock_bounded c \<Longrightarrow> clock_bounded (clock_observe num prs h sent recv c)"
  by (rule clock_observe_cases [of num prs h sent recv c]) (auto simp: clock_bounded_def)

lemma clock_reset_bounded: "clock_bounded (clock_reset c)"
  by (simp add: clock_bounded_def clock_reset_def MAX_CLOCK_OFFSET_MS_def)

interpretation mclock: invariant_system "\<lambda>c. c = clock_init" clock_step clock_bounded
proof unfold_locales
  show "c = clock_init \<Longrightarrow> clock_bounded c" for c
    by (simp add: clock_bounded_def clock_init_def MAX_CLOCK_OFFSET_MS_def)
  show "clock_bounded c \<Longrightarrow> clock_step c d \<Longrightarrow> clock_bounded d" for c d
    by (erule clock_step.cases) (simp_all add: clock_observe_bounded clock_reset_bounded)
qed

section \<open>Properties\<close>

text \<open>The Manager-aligned clock is never more than seven days from the local clock, whatever
  headers were observed, and one accepted observation brings it within six seconds of the Manager's
  clock: if the \<open>Date\<close> header truncates to the second the Manager's time (local time plus \<open>d\<close>) at
  some moment between sending and receiving, the new offset is within 6000 ms of \<open>d\<close>.\<close>

theorem manager_clock_calibration:
  assumes "reach (\<lambda>c. c = clock_init) clock_step c"
    and "hd_date h = Some date" and "parse_date date = Some managerTime"
    and "sentAt \<le> t" and "t \<le> receivedAt" and "managerTime \<le> t + d" and "t + d < managerTime + 1000"
    and "c' = clock_observe to_number parse_date h sentAt receivedAt c" and "c' \<noteq> c"
  shows "\<bar>mc_offset c'\<bar> \<le> MAX_CLOCK_OFFSET_MS \<and> \<bar>clock_now c' local - (local + d)\<bar> \<le> 6000"
proof -
  have "clock_bounded c'"
    using mclock.reach_inv [OF assms(1)] assms(8) by (simp add: clock_observe_bounded)
  moreover have "\<bar>mc_offset c' - d\<bar> \<le> 6000"
    using assms(2-9)
    by (rule_tac clock_observe_cases [of to_number parse_date h sentAt receivedAt c])
      (auto simp: MAX_OBSERVED_RTT_MS_def abs_le_iff field_simps)
  ultimately show ?thesis by (simp add: clock_bounded_def clock_now_def)
qed

theorem manager_clock_calibration_witness:
  "\<bar>clock_now (clock_observe (\<lambda>_. NaN) (\<lambda>_. Some 5000) \<lparr>hd_date = Some ''d'', hd_age = None\<rparr> 1000 3000 clock_init) 0
     - (0 + 3400)\<bar> \<le> 6000"
  using manager_clock_calibration [of clock_init "\<lparr>hd_date = Some ''d'', hd_age = None\<rparr>" "''d''"
      "\<lambda>_. Some 5000" 5000 1000 2000 3000 3400 _ "\<lambda>_. NaN" 0]
  by (simp add: reach_init clock_observe_def clock_init_def Let_def MAX_OBSERVED_RTT_MS_def
      MAX_CLOCK_OFFSET_MS_def)

end
