(* ===== verification/Execution_Authorization.thy ===== *)
theory Execution_Authorization
  imports Scope_Encoding Jwt_Auth Manager_Clock
begin

text \<open>
  \<open>ExecutionAuthorizationRegistry\<close> of \<open>execution-authorization.ts\<close>: the identities background work may
  act under, one per owner (tenant and member), with a generation per owner key.  An expiry of
  \<open>None\<close> is JavaScript's positive infinity.  \<open>now\<close> is the reading of the Manager-aligned clock.
\<close>

record execution_identity =
  ei_caller :: caller
  ei_tenantId :: string
  ei_memberId :: string
  ei_expiresAt :: "rat option"
  ei_generation :: nat

record auth_registry =
  ar_identities :: "(string, execution_identity) omap"
  ar_generations :: "(string, nat) omap"

definition registry_init :: auth_registry where
  "registry_init = \<lparr> ar_identities = [], ar_generations = [] \<rparr>"

definition owner_key :: "string \<Rightarrow> string \<Rightarrow> string" where
  "owner_key tenant member = encodeScope [tenant, member]"

definition auth_generation :: "auth_registry \<Rightarrow> string \<Rightarrow> nat" where
  "auth_generation s key = nullish (omap_get (ar_generations s) key) 0"

definition callerMemberId :: "caller \<Rightarrow> string" where
  "callerMemberId c = nullish (ca_userId c) (ca_callerId c)"

definition caller_expiry :: "caller \<Rightarrow> rat option" where
  "caller_expiry c =
     (case ca_claims c of
        None \<Rightarrow> None
      | Some claims \<Rightarrow> map_option (\<lambda>e. e * 1000) (js_finite (js_field claims ''exp'')))"

definition past :: "rat option \<Rightarrow> rat \<Rightarrow> bool" where
  "past expiry now = (case expiry of None \<Rightarrow> False | Some e \<Rightarrow> e \<le> now)"

definition auth_register ::
  "caller \<Rightarrow> rat \<Rightarrow> auth_registry \<Rightarrow> execution_identity option \<times> auth_registry" where
  "auth_register c now s =
     (case ca_tenantId c of
        None \<Rightarrow> (None, s)
      | Some tenant \<Rightarrow>
          if tenant = [] \<or> callerMemberId c = [] then (None, s)
          else if past (caller_expiry c) now then (None, s)
          else (let key = owner_key tenant (callerMemberId c);
                    identity = \<lparr> ei_caller = c, ei_tenantId = tenant, ei_memberId = callerMemberId c,
                                 ei_expiresAt = caller_expiry c, ei_generation = auth_generation s key \<rparr>
                in (Some identity, s\<lparr>ar_identities := omap_set key identity (ar_identities s)\<rparr>)))"

definition auth_resolve ::
  "string \<Rightarrow> string \<Rightarrow> bool \<Rightarrow> rat \<Rightarrow> auth_registry \<Rightarrow> caller option \<times> auth_registry" where
  "auth_resolve tenant member requireAccessToken now s =
     (let key = owner_key tenant member
      in case omap_get (ar_identities s) key of
           None \<Rightarrow> (None, s)
         | Some i \<Rightarrow>
             if ei_generation i \<noteq> auth_generation s key \<or> past (ei_expiresAt i) now
             then (None, s\<lparr>ar_identities := omap_delete key (ar_identities s)\<rparr>)
             else if requireAccessToken \<and> nullish (ca_accessToken (ei_caller i)) [] = [] then (None, s)
             else (Some (ei_caller i), s))"

definition auth_get ::
  "string \<Rightarrow> string \<Rightarrow> rat \<Rightarrow> auth_registry \<Rightarrow> execution_identity option \<times> auth_registry" where
  "auth_get tenant member now s =
     (let r = auth_resolve tenant member False now s
      in case fst r of
           None \<Rightarrow> (None, snd r)
         | Some _ \<Rightarrow> (omap_get (ar_identities (snd r)) (owner_key tenant member), snd r))"

definition auth_bump :: "string \<Rightarrow> auth_registry \<Rightarrow> auth_registry" where
  "auth_bump key s = s\<lparr>ar_generations := omap_set key (auth_generation s key + 1) (ar_generations s)\<rparr>"

definition auth_invalidate :: "string \<Rightarrow> string \<Rightarrow> auth_registry \<Rightarrow> auth_registry" where
  "auth_invalidate tenant member s =
     (let key = owner_key tenant member
      in auth_bump key (s\<lparr>ar_identities := omap_delete key (ar_identities s)\<rparr>))"

definition auth_clear :: "auth_registry \<Rightarrow> auth_registry" where
  "auth_clear s = (fold auth_bump (omap_keys (ar_identities s)) s)\<lparr>ar_identities := []\<rparr>"

datatype auth_op =
    Register caller
  | Resolve string string bool
  | Get string string
  | Invalidate string string
  | Clear

fun auth_exec :: "rat \<Rightarrow> auth_op \<Rightarrow> auth_registry \<Rightarrow> auth_registry" where
  "auth_exec now (Register c) s = snd (auth_register c now s)"
| "auth_exec now (Resolve t m r) s = snd (auth_resolve t m r now s)"
| "auth_exec now (Get t m) s = snd (auth_get t m now s)"
| "auth_exec now (Invalidate t m) s = auth_invalidate t m s"
| "auth_exec now Clear s = auth_clear s"

inductive auth_step :: "auth_registry \<Rightarrow> auth_registry \<Rightarrow> bool" where
  auth_stepI: "auth_step s (auth_exec now op s)"

text \<open>A step that registers no caller for the owner.\<close>

fun registers :: "string \<Rightarrow> string \<Rightarrow> auth_op \<Rightarrow> bool" where
  "registers t m (Register c) = (ca_tenantId c = Some t \<and> callerMemberId c = m)"
| "registers t m _ = False"

inductive auth_quiet :: "string \<Rightarrow> string \<Rightarrow> auth_registry \<Rightarrow> auth_registry \<Rightarrow> bool" for t m where
  auth_quietI: "\<not> registers t m op \<Longrightarrow> auth_quiet t m s (auth_exec now op s)"

section \<open>Invariant\<close>

definition identity_ok :: "string \<Rightarrow> execution_identity \<Rightarrow> bool" where
  "identity_ok key i \<longleftrightarrow> key = owner_key (ei_tenantId i) (ei_memberId i)
     \<and> ca_tenantId (ei_caller i) = Some (ei_tenantId i) \<and> callerMemberId (ei_caller i) = ei_memberId i
     \<and> ei_tenantId i \<noteq> [] \<and> ei_memberId i \<noteq> [] \<and> ei_expiresAt i = caller_expiry (ei_caller i)"

definition registry_inv :: "auth_registry \<Rightarrow> bool" where
  "registry_inv s \<longleftrightarrow> (\<forall>key i. omap_get (ar_identities s) key = Some i \<longrightarrow> identity_ok key i)"

lemma owner_key_inject [simp]: "owner_key t m = owner_key t' m' \<longleftrightarrow> t = t' \<and> m = m'"
  by (simp add: owner_key_def scope.enc_inject)

lemma auth_bump_identities [simp]: "ar_identities (auth_bump k s) = ar_identities s"
  by (simp add: auth_bump_def)

lemma fold_auth_bump_identities [simp]: "ar_identities (fold auth_bump ks s) = ar_identities s"
  by (induction ks arbitrary: s) simp_all

lemma auth_resolve_identities:
  "ar_identities (snd (auth_resolve t m r now s)) = ar_identities s
   \<or> ar_identities (snd (auth_resolve t m r now s)) = omap_delete (owner_key t m) (ar_identities s)"
  by (simp add: auth_resolve_def Let_def split: option.splits)

lemma auth_get_state: "snd (auth_get t m now s) = snd (auth_resolve t m False now s)"
  by (simp add: auth_get_def Let_def split: option.splits)

lemma registry_inv_shrink:
  assumes "registry_inv s" "ar_identities s' = ar_identities s \<or> ar_identities s' = omap_delete k (ar_identities s)
    \<or> ar_identities s' = []"
  shows "registry_inv s'"
  using assms by (auto simp: registry_inv_def split: if_splits)

lemma auth_register_inv: "registry_inv s \<Longrightarrow> registry_inv (snd (auth_register c now s))"
  by (auto simp: auth_register_def registry_inv_def identity_ok_def Let_def split: option.splits)

lemma auth_exec_inv: "registry_inv s \<Longrightarrow> registry_inv (auth_exec now op s)"
proof (cases op)
  case (Register c)
  then show "registry_inv s \<Longrightarrow> ?thesis" by (simp add: auth_register_inv)
next
  case (Resolve t m r)
  then show "registry_inv s \<Longrightarrow> ?thesis"
    using auth_resolve_identities [of t m r now s] by (auto elim!: registry_inv_shrink)
next
  case (Get t m)
  then show "registry_inv s \<Longrightarrow> ?thesis"
    using auth_resolve_identities [of t m False now s] by (auto simp: auth_get_state elim!: registry_inv_shrink)
qed (auto simp: registry_inv_def auth_invalidate_def auth_clear_def Let_def)

interpretation authreg: invariant_system "\<lambda>s. s = registry_init" auth_step registry_inv
proof unfold_locales
  show "s = registry_init \<Longrightarrow> registry_inv s" for s by (simp add: registry_inv_def registry_init_def)
  show "registry_inv s \<Longrightarrow> auth_step s t \<Longrightarrow> registry_inv t" for s t
    by (erule auth_step.cases) (simp add: auth_exec_inv)
qed

section \<open>Revocation\<close>

text \<open>The contract of a store that can revoke a key: a revoked key reads as absent, and stays absent
  over every run of steps that publish nothing for it.\<close>

locale revocable =
  fixes live :: "'k \<Rightarrow> 's \<Rightarrow> bool" and revoke :: "'k \<Rightarrow> 's \<Rightarrow> 's" and quiet :: "'k \<Rightarrow> 's \<Rightarrow> 's \<Rightarrow> bool"
  assumes revoke_dead: "\<not> live k (revoke k s)"
    and quiet_dead: "quiet k s t \<Longrightarrow> \<not> live k s \<Longrightarrow> \<not> live k t"
begin

lemma dead_run: "steps (quiet k) s t \<Longrightarrow> \<not> live k s \<Longrightarrow> \<not> live k t"
  by (induction rule: steps.induct) (auto dest: quiet_dead)

lemma revoked_run: "steps (quiet k) (revoke k s) t \<Longrightarrow> \<not> live k t"
  using dead_run revoke_dead by blast

end

definition auth_live :: "string \<times> string \<Rightarrow> auth_registry \<Rightarrow> bool" where
  "auth_live o' s \<longleftrightarrow> omap_get (ar_identities s) (owner_key (fst o') (snd o')) \<noteq> None"

lemma auth_register_other:
  "\<not> registers t m (Register c) \<Longrightarrow>
   omap_get (ar_identities (snd (auth_register c now s))) (owner_key t m) = omap_get (ar_identities s) (owner_key t m)"
  by (auto simp: auth_register_def Let_def split: option.splits)

lemma auth_quiet_dead:
  assumes "auth_quiet t m s s'" "\<not> auth_live (t, m) s"
  shows "\<not> auth_live (t, m) s'"
  using assms(1)
proof cases
  case (auth_quietI op now)
  show ?thesis
  proof (cases op)
    case (Register c)
    with auth_quietI assms(2) show ?thesis
      by (simp add: auth_live_def auth_register_other del: registers.simps)
  next
    case (Resolve t' m' r)
    with auth_quietI assms(2) auth_resolve_identities [of t' m' r now s] show ?thesis
      by (auto simp: auth_live_def)
  next
    case (Get t' m')
    with auth_quietI assms(2) auth_resolve_identities [of t' m' False now s] show ?thesis
      by (auto simp: auth_live_def auth_get_state)
  qed (use auth_quietI assms(2) in \<open>auto simp: auth_live_def auth_invalidate_def auth_clear_def Let_def\<close>)
qed

interpretation authrev: revocable auth_live "\<lambda>o'. auth_invalidate (fst o') (snd o')" "\<lambda>o'. auth_quiet (fst o') (snd o')"
proof unfold_locales
  show "\<not> auth_live o' (auth_invalidate (fst o') (snd o') s)" for o' s
    by (simp add: auth_live_def auth_invalidate_def Let_def)
  show "auth_quiet (fst o') (snd o') s t \<Longrightarrow> \<not> auth_live o' s \<Longrightarrow> \<not> auth_live o' t" for o' s t
    using auth_quiet_dead [of "fst o'" "snd o'"] by simp
qed

section \<open>Properties\<close>

text \<open>Background work acts only under a live identity of its own owner: in every reachable
  registry, a resolved caller has exactly the requested tenant and member and an unexpired token, and
  carries an access token when one is required.\<close>

theorem resolve_owner_and_expiry:
  assumes "reach (\<lambda>s. s = registry_init) auth_step s"
    and "fst (auth_resolve tenant member requireToken now s) = Some c"
  shows "ca_tenantId c = Some tenant \<and> callerMemberId c = member \<and> tenant \<noteq> [] \<and> member \<noteq> []
    \<and> \<not> past (caller_expiry c) now \<and> (requireToken \<longrightarrow> (\<exists>tok. ca_accessToken c = Some tok \<and> tok \<noteq> []))"
proof -
  from assms(2) obtain i where i: "omap_get (ar_identities s) (owner_key tenant member) = Some i"
    and c: "c = ei_caller i" "\<not> past (ei_expiresAt i) now"
    and tok: "requireToken \<Longrightarrow> nullish (ca_accessToken c) [] \<noteq> []"
    by (auto simp: auth_resolve_def Let_def split: option.splits if_splits)
  have "identity_ok (owner_key tenant member) i"
    using authreg.reach_inv [OF assms(1)] i by (auto simp: registry_inv_def)
  with c tok show ?thesis
    by (cases "ca_accessToken c") (auto simp: identity_ok_def)
qed

definition demo_caller :: caller where
  "demo_caller = \<lparr> ca_callerId = ''u'', ca_accessToken = Some ''tok'', ca_tenantId = Some ''t'', ca_userId = None,
     ca_roles = None, ca_claims = None \<rparr>"

lemma demo_registered:
  "fst (auth_resolve ''t'' ''u'' True 5 (auth_exec 1 (Register demo_caller) registry_init)) = Some demo_caller"
  by (simp add: auth_resolve_def auth_register_def demo_caller_def registry_init_def Let_def caller_expiry_def
      past_def callerMemberId_def auth_generation_def omap_get_def)

theorem resolve_owner_and_expiry_witness:
  "ca_tenantId demo_caller = Some ''t'' \<and> callerMemberId demo_caller = ''u''
   \<and> fst (auth_resolve ''t'' ''u'' True 5 (auth_exec 1 (Register demo_caller) registry_init)) = Some demo_caller"
proof -
  have "reach (\<lambda>s. s = registry_init) auth_step (auth_exec 1 (Register demo_caller) registry_init)"
    by (rule reach_step [where s = registry_init], rule reach_init, rule refl, rule auth_stepI)
  from resolve_owner_and_expiry [OF this demo_registered] demo_registered show ?thesis by simp
qed

text \<open>Sign-out is final for background work: after an owner is invalidated, no sequence of
  registry calls other than a new registration of that owner makes it resolvable again.\<close>

theorem invalidated_owner_unresolvable:
  assumes "steps (auth_quiet tenant member) (auth_invalidate tenant member s) s'"
  shows "fst (auth_resolve tenant member requireToken now s') = None
    \<and> fst (auth_get tenant member now s') = None"
  using authrev.revoked_run [of "(tenant, member)"] assms
  by (simp add: auth_live_def auth_resolve_def auth_get_def Let_def)

theorem invalidated_owner_unresolvable_witness:
  "fst (auth_resolve ''t'' ''u'' True 5
     (auth_exec 2 (Register (demo_caller\<lparr>ca_callerId := ''v''\<rparr>))
        (auth_invalidate ''t'' ''u'' (auth_exec 1 (Register demo_caller) registry_init)))) = None"
  by (rule invalidated_owner_unresolvable [THEN conjunct1], rule steps_snoc, rule steps_refl, rule auth_quietI)
    (simp add: demo_caller_def callerMemberId_def)

end
