(* ===== verification/Runtime_Lease.thy ===== *)
theory Runtime_Lease
  imports Scope_Encoding
begin

text \<open>
  \<open>RuntimeLeaseCache\<close> of \<open>runtime-lease-cache.ts\<close>: a process-memory LRU cache of authorized runtime
  material, with a generation counter per key.  \<open>getOrLoad\<close> is asynchronous, so it is modelled as
  the three points where the event loop can interleave it with other calls: its synchronous
  beginning, the settlement of the loader, and the starter's continuation.  Wall times are
  milliseconds (\<open>None\<close> stands for an undefined or non-finite expiry), the monotonic clock is
  rational.
\<close>

section \<open>State\<close>

definition MAX_RUNTIME_LEASE_TTL_MS :: int where "MAX_RUNTIME_LEASE_TTL_MS = 300000"
definition MAX_RUNTIME_LEASE_ENTRIES :: int where "MAX_RUNTIME_LEASE_ENTRIES = 128"

record 'v lease_entry =
  le_key :: string
  le_value :: 'v
  le_loadedAt :: ms
  le_expiresAt :: ms
  le_ttlMs :: ms
  le_loadedMonotonic :: rat
  le_generation :: nat

record lease_put_options =
  po_now :: "ms option"
  po_userJwtExpiresAt :: "ms option"
  po_upstreamExpiresAt :: "ms option"
  po_maxTtlMs :: "int option"
  po_loadedMonotonic :: "rat option"

record 'v lease_cache =
  lc_entries :: "(string, 'v lease_entry) omap"
  lc_generations :: "(string, nat) omap"
  lc_pending :: "(string, nat) omap"
  lc_maxEntries :: "int option"
  lc_maxTtlMs :: "int option"

text \<open>The two clocks a call reads: \<open>this.clock()\<close> and \<open>this.monotonic()\<close>.\<close>

record clocks =
  ck_wall :: ms
  ck_mono :: rat

section \<open>Operations\<close>

definition lease_generation :: "'v lease_cache \<Rightarrow> string \<Rightarrow> nat" where
  "lease_generation c key = nullish (omap_get (lc_generations c) key) 0"

definition boundedLeaseTtl :: "ms \<Rightarrow> ms option \<Rightarrow> ms option \<Rightarrow> int option \<Rightarrow> ms option" where
  "boundedLeaseTtl now jwt upstream maxTtl =
     (case (jwt, upstream) of
        (Some j, Some u) \<Rightarrow>
          (let ttl = min (min (max (nullish maxTtl MAX_RUNTIME_LEASE_TTL_MS) 1) MAX_RUNTIME_LEASE_TTL_MS)
                         (min (j - now) (u - now))
           in if ttl > 0 then Some ttl else None)
      | _ \<Rightarrow> None)"

definition lease_live :: "'v lease_cache \<Rightarrow> clocks \<Rightarrow> string \<Rightarrow> 'v lease_entry \<Rightarrow> bool" where
  "lease_live c ck key e \<longleftrightarrow>
     \<not> (le_generation e \<noteq> lease_generation c key \<or> le_expiresAt e \<le> ck_wall ck
        \<or> ck_mono ck - le_loadedMonotonic e \<ge> of_int (le_ttlMs e))"

definition lease_get ::
  "'v lease_cache \<Rightarrow> string \<Rightarrow> clocks \<Rightarrow> 'v lease_entry option \<times> 'v lease_cache" where
  "lease_get c key ck =
     (case omap_get (lc_entries c) key of
        None \<Rightarrow> (None, c)
      | Some e \<Rightarrow>
          (if \<not> lease_live c ck key e
           then (None, c\<lparr>lc_entries := omap_delete key (lc_entries c)\<rparr>)
           else (Some e, c\<lparr>lc_entries := omap_set key e (omap_delete key (lc_entries c))\<rparr>)))"

definition lease_capacity :: "'v lease_cache \<Rightarrow> int" where
  "lease_capacity c =
     min (max (nullish (lc_maxEntries c) MAX_RUNTIME_LEASE_ENTRIES) 1) MAX_RUNTIME_LEASE_ENTRIES"

text \<open>\<open>evict\<close>: drop the first key while there are too many.\<close>

function evict_loop :: "int \<Rightarrow> (string, 'e) omap \<Rightarrow> (string, 'e) omap" where
  "evict_loop cap es =
     (if es \<noteq> [] \<and> int (length es) > cap then evict_loop cap (omap_delete (fst (hd es)) es) else es)"
  by pat_completeness auto
termination
proof (relation "measure (\<lambda>(cap, es). length es)")
  fix cap :: int and es :: "(string, 'e) omap"
  assume "es \<noteq> [] \<and> int (length es) > cap"
  then obtain e es' where "es = e # es'" by (cases es) auto
  then show "((cap, omap_delete (fst (hd es)) es), cap, es) \<in> measure (\<lambda>(cap, es). length es)"
    by (simp add: omap_delete_def le_imp_less_Suc)
qed simp

declare evict_loop.simps [simp del]

definition lease_put ::
  "'v lease_cache \<Rightarrow> string \<Rightarrow> 'v \<Rightarrow> lease_put_options \<Rightarrow> clocks \<Rightarrow> 'v lease_entry option \<times> 'v lease_cache" where
  "lease_put c key v opts ck =
     (let now = nullish (po_now opts) (ck_wall ck);
          maxTtl = (case po_maxTtlMs opts of None \<Rightarrow> lc_maxTtlMs c | Some m \<Rightarrow> Some m)
      in case boundedLeaseTtl now (po_userJwtExpiresAt opts) (po_upstreamExpiresAt opts) maxTtl of
           None \<Rightarrow> (None, c)
         | Some ttl \<Rightarrow>
             (let e = \<lparr> le_key = key, le_value = v, le_loadedAt = now, le_expiresAt = now + ttl,
                        le_ttlMs = ttl,
                        le_loadedMonotonic = nullish (po_loadedMonotonic opts) (ck_mono ck),
                        le_generation = lease_generation c key \<rparr>;
                  es = omap_set key e (omap_delete key (lc_entries c))
              in (Some e, c\<lparr>lc_entries := evict_loop (lease_capacity c) es\<rparr>)))"

definition bump_generation :: "string \<Rightarrow> 'v lease_cache \<Rightarrow> 'v lease_cache" where
  "bump_generation key c =
     c\<lparr>lc_generations := omap_set key (lease_generation c key + 1) (lc_generations c)\<rparr>"

definition lease_clear :: "string \<Rightarrow> 'v lease_cache \<Rightarrow> 'v lease_cache" where
  "lease_clear key c =
     bump_generation key
       (c\<lparr>lc_entries := omap_delete key (lc_entries c), lc_pending := omap_delete key (lc_pending c)\<rparr>)"

definition lease_known_keys :: "'v lease_cache \<Rightarrow> string list" where
  "lease_known_keys c =
     remdups (omap_keys (lc_entries c) @ omap_keys (lc_generations c) @ omap_keys (lc_pending c))"

definition lease_clearOwner :: "string \<Rightarrow> 'v lease_cache \<Rightarrow> 'v lease_cache" where
  "lease_clearOwner scope c = fold lease_clear (filter (in_owner_scope scope) (lease_known_keys c)) c"

definition lease_clearAll :: "'v lease_cache \<Rightarrow> 'v lease_cache" where
  "lease_clearAll c = fold bump_generation (lease_known_keys c) (c\<lparr>lc_entries := [], lc_pending := []\<rparr>)"

definition lease_size :: "'v lease_cache \<Rightarrow> nat" where
  "lease_size c = length (lc_entries c)"

text \<open>\<open>expiryMillis\<close>; \<open>Date.parse\<close> is the argument \<open>parse\<close> (\<open>None\<close> for \<open>NaN\<close>).\<close>

fun expiryMillis :: "(string \<Rightarrow> rat option) \<Rightarrow> jsval \<Rightarrow> rat option" where
  "expiryMillis parse (JNum (Fin q)) = Some (if q > 10000000000 then q else q * 1000)"
| "expiryMillis parse (JStr s) = parse s"
| "expiryMillis parse _ = None"

section \<open>getOrLoad as an asynchronous operation\<close>

datatype 'e lease_error = RuntimeLeaseInvalidated | LoadError 'e

record ('v, 'e) lease_op =
  op_key :: string
  op_generation :: nat
  op_loadedAt :: ms
  op_loadedMonotonic :: rat
  op_fallback :: "'v option"
  op_allowReuse :: bool
  op_isDenial :: "'e \<Rightarrow> bool"
  op_isRetryable :: "('e \<Rightarrow> bool) option"
  op_putOptions :: "'v \<Rightarrow> ms \<Rightarrow> lease_put_options"
  op_settled :: "('e lease_error + 'v) option"
  op_resumed :: bool

record 'e lease_load_options =
  lo_allowReuse :: bool
  lo_forceRefresh :: bool
  lo_isDenial :: "'e \<Rightarrow> bool"
  lo_isRetryable :: "('e \<Rightarrow> bool) option"

text \<open>The event loop: the cache, the started loads by operation number, the next number.\<close>

record ('v, 'e) lease_sys =
  ls_cache :: "'v lease_cache"
  ls_ops :: "nat \<Rightarrow> ('v, 'e) lease_op option"
  ls_next :: nat

datatype 'v begin_result = Hit 'v | Joined nat | Started nat

definition getOrLoad_start ::
  "string \<Rightarrow> ('v \<Rightarrow> ms \<Rightarrow> lease_put_options) \<Rightarrow> 'e lease_load_options \<Rightarrow> clocks \<Rightarrow> 'v option
   \<Rightarrow> ('v, 'e) lease_sys \<Rightarrow> 'v begin_result \<times> ('v, 'e) lease_sys" where
  "getOrLoad_start key putOptions opts ck fallback s =
     (let c = ls_cache s; n = ls_next s;
          op = \<lparr> op_key = key, op_generation = lease_generation c key, op_loadedAt = ck_wall ck,
                 op_loadedMonotonic = ck_mono ck, op_fallback = fallback,
                 op_allowReuse = lo_allowReuse opts, op_isDenial = lo_isDenial opts,
                 op_isRetryable = lo_isRetryable opts, op_putOptions = putOptions,
                 op_settled = None, op_resumed = False \<rparr>
      in (Started n,
          s\<lparr>ls_cache := c\<lparr>lc_pending := omap_set key n (lc_pending c)\<rparr>,
            ls_ops := (ls_ops s)(n \<mapsto> op), ls_next := Suc n\<rparr>))"

definition getOrLoad_begin ::
  "string \<Rightarrow> ('v \<Rightarrow> ms \<Rightarrow> lease_put_options) \<Rightarrow> 'e lease_load_options \<Rightarrow> clocks
   \<Rightarrow> ('v, 'e) lease_sys \<Rightarrow> 'v begin_result \<times> ('v, 'e) lease_sys" where
  "getOrLoad_begin key putOptions opts ck s =
     (let cached = fst (lease_get (ls_cache s) key ck);
          c = snd (lease_get (ls_cache s) key ck); s' = s\<lparr>ls_cache := c\<rparr>
      in if cached \<noteq> None \<and> \<not> lo_forceRefresh opts then (Hit (le_value (the cached)), s')
         else case omap_get (lc_pending c) key of
                Some n \<Rightarrow> (Joined n, s')
              | None \<Rightarrow> getOrLoad_start key putOptions opts ck (map_option le_value cached) s')"

text \<open>The operation's \<open>try/catch\<close>, when the loader settles.\<close>

definition settle_failure ::
  "('v, 'e) lease_op \<Rightarrow> 'e \<Rightarrow> clocks \<Rightarrow> 'v lease_cache \<Rightarrow> ('e lease_error + 'v) \<times> 'v lease_cache" where
  "settle_failure op err ck c =
     (if op_isDenial op err then (Inl (LoadError err), lease_clear (op_key op) c)
      else if lease_generation c (op_key op) \<noteq> op_generation op then (Inl RuntimeLeaseInvalidated, c)
      else if op_allowReuse op \<and> (case op_isRetryable op of None \<Rightarrow> True | Some p \<Rightarrow> p err)
      then (case op_fallback op of
              Some v \<Rightarrow> (Inr v, c)
            | None \<Rightarrow> (case lease_get c (op_key op) ck of
                          (Some e, c') \<Rightarrow> (Inr (le_value e), c')
                        | (None, c') \<Rightarrow> (Inl (LoadError err), c')))
      else (Inl (LoadError err), c))"

definition getOrLoad_settle ::
  "nat \<Rightarrow> 'e + 'v \<Rightarrow> clocks \<Rightarrow> ('v, 'e) lease_sys \<Rightarrow> ('v, 'e) lease_sys option" where
  "getOrLoad_settle n outcome ck s =
     (case ls_ops s n of
        None \<Rightarrow> None
      | Some op \<Rightarrow>
          if op_settled op \<noteq> None then None
          else (let p = (case outcome of
                            Inr v \<Rightarrow> (Inr v, ls_cache s)
                          | Inl e \<Rightarrow> settle_failure op e ck (ls_cache s))
                in Some (s\<lparr>ls_cache := snd p,
                           ls_ops := (ls_ops s)(n \<mapsto> op\<lparr>op_settled := Some (fst p)\<rparr>)\<rparr>)))"

text \<open>The \<open>finally\<close> block: forget the pending promise if it is still this one.\<close>

definition forget_pending :: "nat \<Rightarrow> string \<Rightarrow> 'v lease_cache \<Rightarrow> 'v lease_cache" where
  "forget_pending n key c =
     (if omap_get (lc_pending c) key = Some n
      then c\<lparr>lc_pending := omap_delete key (lc_pending c)\<rparr> else c)"

text \<open>The starter's continuation after \<open>await operation\<close>.\<close>

definition starter_commit ::
  "('v, 'e) lease_op \<Rightarrow> ('e lease_error + 'v) \<Rightarrow> clocks \<Rightarrow> 'v lease_cache \<Rightarrow> ('e lease_error + 'v) \<times> 'v lease_cache" where
  "starter_commit op r ck c =
     (case r of
        Inl err \<Rightarrow> (Inl err, c)
      | Inr v \<Rightarrow>
          if lease_generation c (op_key op) \<noteq> op_generation op then (Inl RuntimeLeaseInvalidated, c)
          else (Inr v, snd (lease_put c (op_key op) v
                  ((op_putOptions op v (op_loadedAt op))\<lparr>po_loadedMonotonic := Some (op_loadedMonotonic op)\<rparr>) ck)))"

definition getOrLoad_resume ::
  "nat \<Rightarrow> clocks \<Rightarrow> ('v, 'e) lease_sys \<Rightarrow> (('e lease_error + 'v) \<times> ('v, 'e) lease_sys) option" where
  "getOrLoad_resume n ck s =
     (case ls_ops s n of
        None \<Rightarrow> None
      | Some op \<Rightarrow>
          if op_resumed op then None
          else (case op_settled op of
                  None \<Rightarrow> None
                | Some r \<Rightarrow>
                    (let p = starter_commit op r ck (ls_cache s)
                     in Some (fst p, s\<lparr>ls_cache := forget_pending n (op_key op) (snd p),
                                     ls_ops := (ls_ops s)(n \<mapsto> op\<lparr>op_resumed := True\<rparr>)\<rparr>))))"

text \<open>A caller that joined a pending load awaits the operation itself: \<open>return pending\<close>.\<close>

definition getOrLoad_joined :: "nat \<Rightarrow> ('v, 'e) lease_sys \<Rightarrow> ('e lease_error + 'v) option" where
  "getOrLoad_joined n s = (case ls_ops s n of None \<Rightarrow> None | Some op \<Rightarrow> op_settled op)"

inductive lease_step :: "('v, 'e) lease_sys \<Rightarrow> ('v, 'e) lease_sys \<Rightarrow> bool" where
  step_begin: "lease_step s (snd (getOrLoad_begin key po opts ck s))"
| step_settle: "getOrLoad_settle n out ck s = Some s' \<Longrightarrow> lease_step s s'"
| step_resume: "getOrLoad_resume n ck s = Some (r, s') \<Longrightarrow> lease_step s s'"
| step_get: "lease_step s (s\<lparr>ls_cache := snd (lease_get (ls_cache s) key ck)\<rparr>)"
| step_put: "lease_step s (s\<lparr>ls_cache := snd (lease_put (ls_cache s) key v popts ck)\<rparr>)"
| step_clear: "lease_step s (s\<lparr>ls_cache := lease_clear key (ls_cache s)\<rparr>)"
| step_clearOwner: "lease_step s (s\<lparr>ls_cache := lease_clearOwner scope (ls_cache s)\<rparr>)"
| step_clearAll: "lease_step s (s\<lparr>ls_cache := lease_clearAll (ls_cache s)\<rparr>)"

definition lease_empty :: "int option \<Rightarrow> int option \<Rightarrow> 'v lease_cache" where
  "lease_empty maxEntries maxTtl =
     \<lparr> lc_entries = [], lc_generations = [], lc_pending = [], lc_maxEntries = maxEntries, lc_maxTtlMs = maxTtl \<rparr>"

definition lease_init :: "('v, 'e) lease_sys \<Rightarrow> bool" where
  "lease_init s \<longleftrightarrow> (\<exists>n t. ls_cache s = lease_empty n t) \<and> ls_ops s = Map.empty \<and> ls_next s = 0"

section \<open>Facts about the cache operations\<close>

lemma boundedLeaseTtl_bounds:
  assumes "boundedLeaseTtl now jwt upstream maxTtl = Some ttl"
  obtains j u where "jwt = Some j" "upstream = Some u" "0 < ttl" "ttl \<le> MAX_RUNTIME_LEASE_TTL_MS"
    "now + ttl \<le> j" "now + ttl \<le> u"
  using assms by (auto simp: boundedLeaseTtl_def Let_def split: option.splits if_splits)

lemma lease_capacity_bounds: "1 \<le> lease_capacity c" "lease_capacity c \<le> 128"
  by (simp_all add: lease_capacity_def MAX_RUNTIME_LEASE_ENTRIES_def)

lemma omap_delete_hd: "omap_ok (e # es) \<Longrightarrow> omap_delete (fst e) (e # es) = es"
  unfolding omap_ok_def omap_delete_def omap_keys_def
  by (auto simp: filter_id_conv) (metis fst_conv image_eqI)

lemma evict_loop_drop:
  "omap_ok es \<Longrightarrow> 0 \<le> cap \<Longrightarrow> evict_loop cap es = drop (length es - nat cap) es"
proof (induction cap es rule: evict_loop.induct)
  case (1 cap es)
  show ?case
  proof (cases "es \<noteq> [] \<and> int (length es) > cap")
    case True
    then obtain e es' where es: "es = e # es'" by (cases es) auto
    have del: "omap_delete (fst (hd es)) es = es'" using omap_delete_hd "1.prems" es by simp
    with True "1.IH" "1.prems" have "evict_loop cap es' = drop (length es' - nat cap) es'"
      by (metis omap_ok_delete)
    moreover have "length es - nat cap = Suc (length es' - nat cap)" using True es by auto
    ultimately show ?thesis using True del by (subst evict_loop.simps) (simp add: es)
  next
    case False
    then show ?thesis by (auto simp: evict_loop.simps [of cap es])
  qed
qed

lemma set_evict_loop: "set (evict_loop cap es) \<subseteq> set es"
proof (induction cap es rule: evict_loop.induct)
  case (1 cap es)
  then show ?case by (subst evict_loop.simps) (auto simp: omap_delete_def)
qed

lemma omap_ok_evict_loop: "omap_ok es \<Longrightarrow> omap_ok (evict_loop cap es)"
proof (induction cap es rule: evict_loop.induct)
  case (1 cap es)
  then show ?case by (subst evict_loop.simps) auto
qed

lemma length_evict_loop: "omap_ok es \<Longrightarrow> 0 \<le> cap \<Longrightarrow> int (length (evict_loop cap es)) \<le> cap"
  by (simp add: evict_loop_drop)

lemma lease_get_frame:
  "lc_generations (snd (lease_get c key ck)) = lc_generations c"
  "lc_pending (snd (lease_get c key ck)) = lc_pending c"
  "lc_maxEntries (snd (lease_get c key ck)) = lc_maxEntries c"
  by (simp_all add: lease_get_def split: option.splits)

lemma lease_put_frame:
  "lc_generations (snd (lease_put c key v opts ck)) = lc_generations c"
  "lc_pending (snd (lease_put c key v opts ck)) = lc_pending c"
  "lc_maxEntries (snd (lease_put c key v opts ck)) = lc_maxEntries c"
  by (simp_all add: lease_put_def Let_def split: option.splits)

lemma lease_generation_cong:
  "lc_generations c = lc_generations d \<Longrightarrow> lease_generation c = lease_generation d"
  by (simp add: lease_generation_def fun_eq_iff)

lemma lease_generation_upd [simp]:
  "lease_generation (c\<lparr>lc_entries := e\<rparr>) = lease_generation c"
  "lease_generation (c\<lparr>lc_pending := p\<rparr>) = lease_generation c"
  by (simp_all add: lease_generation_def fun_eq_iff)

lemma lease_capacity_cong: "lc_maxEntries c = lc_maxEntries d \<Longrightarrow> lease_capacity c = lease_capacity d"
  by (simp add: lease_capacity_def)

lemma lease_generation_bump:
  "lease_generation (bump_generation key c) k = lease_generation c k + (if k = key then 1 else 0)"
  by (simp add: bump_generation_def lease_generation_def)

lemma bump_frame [simp]:
  "lc_entries (bump_generation key c) = lc_entries c"
  "lc_pending (bump_generation key c) = lc_pending c"
  "lc_maxEntries (bump_generation key c) = lc_maxEntries c"
  by (simp_all add: bump_generation_def)

lemma lease_generation_clear:
  "lease_generation (lease_clear key c) k = lease_generation c k + (if k = key then 1 else 0)"
  by (simp add: lease_clear_def bump_generation_def lease_generation_def)

lemma lease_clear_frame [simp]:
  "lc_entries (lease_clear key c) = omap_delete key (lc_entries c)"
  "lc_pending (lease_clear key c) = omap_delete key (lc_pending c)"
  "lc_maxEntries (lease_clear key c) = lc_maxEntries c"
  by (simp_all add: lease_clear_def)

lemma lease_clear_fold:
  "lc_entries (fold lease_clear ks c) = fold omap_delete ks (lc_entries c)"
  "lc_pending (fold lease_clear ks c) = fold omap_delete ks (lc_pending c)"
  "lc_maxEntries (fold lease_clear ks c) = lc_maxEntries c"
  by (induction ks arbitrary: c) simp_all

lemma lease_generation_fold_clear:
  "distinct ks \<Longrightarrow>
   lease_generation (fold lease_clear ks c) k = lease_generation c k + (if k \<in> set ks then 1 else 0)"
  by (induction ks arbitrary: c) (auto simp: lease_generation_clear)

lemma bump_fold:
  "lc_entries (fold bump_generation ks c) = lc_entries c"
  "lc_pending (fold bump_generation ks c) = lc_pending c"
  "lc_maxEntries (fold bump_generation ks c) = lc_maxEntries c"
  by (induction ks arbitrary: c) simp_all

lemma lease_generation_fold_bump:
  "distinct ks \<Longrightarrow>
   lease_generation (fold bump_generation ks c) k = lease_generation c k + (if k \<in> set ks then 1 else 0)"
  by (induction ks arbitrary: c) (auto simp: lease_generation_bump)

lemmas lease_gen_simps = lease_generation_bump lease_generation_clear lease_generation_fold_clear
  lease_generation_fold_bump lease_get_frame(1) [THEN lease_generation_cong] lease_put_frame(1) [THEN lease_generation_cong]

lemma set_lease_known_keys:
  "set (lease_known_keys c) =
     set (omap_keys (lc_entries c)) \<union> set (omap_keys (lc_generations c)) \<union> set (omap_keys (lc_pending c))"
  by (auto simp: lease_known_keys_def)

lemma distinct_lease_known_keys [simp]: "distinct (lease_known_keys c)"
  by (simp add: lease_known_keys_def)

lemma lease_generation_clearOwner:
  "lease_generation (lease_clearOwner scope c) k =
     lease_generation c k + (if in_owner_scope scope k \<and> k \<in> set (lease_known_keys c) then 1 else 0)"
  by (simp add: lease_clearOwner_def lease_generation_fold_clear)

lemma lease_generation_clearAll:
  "lease_generation (lease_clearAll c) k =
     lease_generation c k + (if k \<in> set (lease_known_keys c) then 1 else 0)"
  by (simp add: lease_clearAll_def lease_generation_fold_bump)

lemma lease_clearOwner_entries:
  "omap_get (lc_entries (lease_clearOwner scope c)) k =
     (if in_owner_scope scope k then None else omap_get (lc_entries c) k)"
  by (auto simp: lease_clearOwner_def lease_clear_fold om.fold_del_get set_lease_known_keys
      omap_get_None_iff)

lemma lease_clearOwner_pending:
  "omap_get (lc_pending (lease_clearOwner scope c)) k =
     (if in_owner_scope scope k then None else omap_get (lc_pending c) k)"
  by (auto simp: lease_clearOwner_def lease_clear_fold om.fold_del_get set_lease_known_keys
      omap_get_None_iff)

section \<open>The invariant\<close>

definition lease_entry_ok :: "'v lease_cache \<Rightarrow> string \<Rightarrow> 'v lease_entry \<Rightarrow> bool" where
  "lease_entry_ok c k e \<longleftrightarrow>
     le_key e = k \<and> 0 < le_ttlMs e \<and> le_ttlMs e \<le> MAX_RUNTIME_LEASE_TTL_MS
     \<and> le_expiresAt e = le_loadedAt e + le_ttlMs e \<and> le_generation e \<le> lease_generation c k"

definition lease_cache_inv :: "'v lease_cache \<Rightarrow> bool" where
  "lease_cache_inv c \<longleftrightarrow>
     omap_ok (lc_entries c) \<and> int (length (lc_entries c)) \<le> lease_capacity c
     \<and> (\<forall>(k, e) \<in> set (lc_entries c). lease_entry_ok c k e)"

text \<open>
  A load whose captured generation is still current is the pending one of its key: that is what
  makes a revocation reach every load that could still commit.
\<close>

definition lease_ops_inv :: "('v, 'e) lease_sys \<Rightarrow> bool" where
  "lease_ops_inv s \<longleftrightarrow>
     (\<forall>n op. ls_ops s n = Some op \<longrightarrow>
        n < ls_next s \<and> op_generation op \<le> lease_generation (ls_cache s) (op_key op)
        \<and> (\<not> op_resumed op \<and> op_generation op = lease_generation (ls_cache s) (op_key op)
           \<longrightarrow> omap_get (lc_pending (ls_cache s)) (op_key op) = Some n))"

definition lease_inv :: "('v, 'e) lease_sys \<Rightarrow> bool" where
  "lease_inv s \<longleftrightarrow> lease_cache_inv (ls_cache s) \<and> lease_ops_inv s"

lemma lease_cache_inv_subset:
  assumes "lease_cache_inv c" "omap_ok (lc_entries d)" "set (lc_entries d) \<subseteq> set (lc_entries c)"
    "length (lc_entries d) \<le> length (lc_entries c)" "lc_maxEntries d = lc_maxEntries c"
    "\<And>k. lease_generation c k \<le> lease_generation d k"
  shows "lease_cache_inv d"
proof -
  have "lease_entry_ok d k e" if "(k, e) \<in> set (lc_entries d)" for k e
  proof -
    have "lease_entry_ok c k e" using that assms(1,3) by (auto simp: lease_cache_inv_def)
    then show ?thesis using assms(6) [of k] by (simp add: lease_entry_ok_def)
  qed
  then show ?thesis
    using assms(1,2,4) lease_capacity_cong [OF assms(5)] by (auto simp: lease_cache_inv_def)
qed

lemma omap_delete_length: "length (omap_delete k m) \<le> length m"
  by (simp add: omap_delete_def)

lemma omap_delete_subset: "set (omap_delete k m) \<subseteq> set m"
  by (auto simp: omap_delete_def)

lemma fold_omap_delete:
  "set (fold omap_delete ks m) \<subseteq> set m" "length (fold omap_delete ks m) \<le> length m"
   apply (induction ks arbitrary: m)
    apply (auto dest: subsetD [OF omap_delete_subset])
  apply (induction ks arbitrary: m)
   apply (auto intro: order_trans [OF _ omap_delete_length])
  done

lemma lease_cache_inv_clear: "lease_cache_inv c \<Longrightarrow> lease_cache_inv (lease_clear key c)"
  by (rule lease_cache_inv_subset [where c = c])
    (simp_all add: lease_cache_inv_def lease_generation_clear omap_delete_length omap_delete_subset)

lemma lease_cache_inv_clearOwner: "lease_cache_inv c \<Longrightarrow> lease_cache_inv (lease_clearOwner scope c)"
  unfolding lease_clearOwner_def
  by (rule lease_cache_inv_subset [where c = c])
    (simp_all add: lease_clear_fold fold_omap_delete om.fold_del_ok lease_generation_fold_clear
      lease_cache_inv_def)

lemma lease_cache_inv_clearAll: "lease_cache_inv c \<Longrightarrow> lease_cache_inv (lease_clearAll c)"
  by (rule lease_cache_inv_subset [where c = c])
    (simp_all add: lease_generation_clearAll, simp_all add: lease_clearAll_def bump_fold)

lemma set_omap_move: "omap_get m k = Some v \<Longrightarrow> set (omap_set k v (omap_delete k m)) \<subseteq> set m"
  using set_omap_set_subset [of k v "omap_delete k m"] omap_delete_subset [of k m]
  by (auto simp: omap_get_def dest: map_of_SomeD)

lemma length_omap_move: "omap_get m k = Some v \<Longrightarrow> length (omap_set k v (omap_delete k m)) \<le> length m"
proof -
  assume "omap_get m k = Some v"
  then have "(k, v) \<in> set m" by (simp add: omap_get_def map_of_SomeD)
  then have "length (omap_delete k m) < length m"
    unfolding omap_delete_def by (intro length_filter_less) auto
  then show ?thesis by (simp add: length_omap_set)
qed

lemma lease_cache_inv_get: "lease_cache_inv c \<Longrightarrow> lease_cache_inv (snd (lease_get c key ck))"
  by (rule lease_cache_inv_subset [where c = c])
    (auto simp: lease_gen_simps lease_get_frame, auto simp: lease_get_def lease_cache_inv_def length_omap_move
      omap_delete_length split: option.splits if_splits
      dest: subsetD [OF set_omap_move] subsetD [OF omap_delete_subset])

lemma lease_cache_inv_put: "lease_cache_inv c \<Longrightarrow> lease_cache_inv (snd (lease_put c key v opts ck))"
proof -
  assume inv: "lease_cache_inv c"
  let ?d = "snd (lease_put c key v opts ck)"
  have gen: "lease_generation ?d = lease_generation c" by (simp add: lease_gen_simps)
  have cap: "lease_capacity ?d = lease_capacity c" by (rule lease_capacity_cong) (rule lease_put_frame)
  have ok: "omap_ok (lc_entries ?d)" and len: "int (length (lc_entries ?d)) \<le> lease_capacity c"
    using inv lease_capacity_bounds(1) [of c]
    by (auto simp: lease_put_def Let_def lease_cache_inv_def omap_ok_evict_loop length_evict_loop
        split: option.splits)
  have "lease_entry_ok ?d k e" if "(k, e) \<in> set (lc_entries ?d)" for k e
    using that inv gen
    by (auto simp: lease_put_def Let_def lease_cache_inv_def lease_entry_ok_def split: option.splits
        elim!: boundedLeaseTtl_bounds dest!: subsetD [OF set_evict_loop] subsetD [OF set_omap_set_subset]
          subsetD [OF omap_delete_subset])
  with ok len cap show ?thesis by (auto simp: lease_cache_inv_def)
qed

lemma lease_cache_inv_pending [simp]:
  "lease_cache_inv (c\<lparr>lc_pending := p\<rparr>) = lease_cache_inv c"
  by (simp add: lease_cache_inv_def lease_entry_ok_def lease_generation_def lease_capacity_def)

text \<open>
  A cache change is a revocation-safe refinement when generations never decrease and a key whose
  generation is kept also keeps its pending load.
\<close>

definition cache_advances :: "'v lease_cache \<Rightarrow> 'v lease_cache \<Rightarrow> bool" where
  "cache_advances c d \<longleftrightarrow>
     (\<forall>k. lease_generation c k \<le> lease_generation d k
        \<and> (lease_generation d k = lease_generation c k
           \<longrightarrow> omap_get (lc_pending d) k = omap_get (lc_pending c) k))"

lemma cache_advances_refl [simp]: "cache_advances c c"
  by (simp add: cache_advances_def)

lemma cache_advances_get: "cache_advances c (snd (lease_get c key ck))"
  by (simp add: cache_advances_def lease_gen_simps lease_get_frame)

lemma cache_advances_put: "cache_advances c (snd (lease_put c key v opts ck))"
  by (simp add: cache_advances_def lease_gen_simps lease_put_frame)

lemma cache_advances_clear: "cache_advances c (lease_clear key c)"
  by (simp add: cache_advances_def lease_generation_clear)

lemma cache_advances_clearOwner: "cache_advances c (lease_clearOwner scope c)"
  by (auto simp: cache_advances_def lease_generation_clearOwner lease_clearOwner_pending
      set_lease_known_keys omap_get_None_iff [THEN iffD2])

lemma cache_advances_clearAll: "cache_advances c (lease_clearAll c)"
proof -
  have "omap_get (lc_pending (lease_clearAll c)) k = None" for k
    by (simp add: lease_clearAll_def bump_fold)
  then show ?thesis
    by (auto simp: cache_advances_def lease_generation_clearAll set_lease_known_keys
        omap_get_None_iff [THEN iffD2])
qed

lemmas cache_advances_intros = cache_advances_get cache_advances_put cache_advances_clear
  cache_advances_clearOwner cache_advances_clearAll

lemma settle_failure_advances: "cache_advances c (snd (settle_failure op err ck c))"
  using cache_advances_get [of c "op_key op" ck]
  by (auto simp: settle_failure_def cache_advances_clear split: option.splits prod.splits)

lemma settle_failure_inv: "lease_cache_inv c \<Longrightarrow> lease_cache_inv (snd (settle_failure op err ck c))"
  using lease_cache_inv_get [of c "op_key op" ck]
  by (auto simp: settle_failure_def lease_cache_inv_clear split: option.splits prod.splits)

lemma starter_commit_frame:
  "lease_generation (snd (starter_commit op r ck c)) = lease_generation c"
  "lc_pending (snd (starter_commit op r ck c)) = lc_pending c"
  by (auto simp: starter_commit_def lease_gen_simps lease_put_frame split: sum.splits)

lemma starter_commit_inv: "lease_cache_inv c \<Longrightarrow> lease_cache_inv (snd (starter_commit op r ck c))"
  by (auto simp: starter_commit_def lease_cache_inv_put split: sum.splits)

lemma lease_ops_inv_cache:
  "lease_ops_inv s \<Longrightarrow> cache_advances (ls_cache s) d \<Longrightarrow> lease_ops_inv (s\<lparr>ls_cache := d\<rparr>)"
  unfolding lease_ops_inv_def cache_advances_def
  by (clarsimp, rule conjI) (meson le_trans, metis le_antisym)

lemma lease_ops_inv_start:
  assumes "lease_ops_inv s" "omap_get (lc_pending (ls_cache s)) key = None"
  shows "lease_ops_inv (snd (getOrLoad_start key po opts ck fb s))"
  using assms by (auto simp: lease_ops_inv_def getOrLoad_start_def Let_def less_Suc_eq)

lemma lease_inv_begin:
  assumes inv: "lease_inv s"
  shows "lease_inv (snd (getOrLoad_begin key po opts ck s))"
proof -
  define cached where "cached = fst (lease_get (ls_cache s) key ck)"
  define c where "c = snd (lease_get (ls_cache s) key ck)"
  let ?s = "s\<lparr>ls_cache := c\<rparr>"
  have s': "lease_inv ?s"
    using inv by (simp add: lease_inv_def c_def lease_cache_inv_get lease_ops_inv_cache cache_advances_get)
  show ?thesis
  proof (cases "(cached \<noteq> None \<and> \<not> lo_forceRefresh opts) \<or> omap_get (lc_pending c) key \<noteq> None")
    case True
    then have "snd (getOrLoad_begin key po opts ck s) = ?s"
      by (auto simp: getOrLoad_begin_def Let_def cached_def c_def)
    with s' show ?thesis by simp
  next
    case False
    then have "snd (getOrLoad_begin key po opts ck s) =
        snd (getOrLoad_start key po opts ck (map_option le_value cached) ?s)"
      by (auto simp: getOrLoad_begin_def Let_def cached_def c_def)
    moreover have "lease_cache_inv (ls_cache (snd (getOrLoad_start key po opts ck fb ?s)))" for fb
      using s' by (simp add: lease_inv_def getOrLoad_start_def Let_def)
    ultimately show ?thesis
      using s' False lease_ops_inv_start [of ?s key po opts ck] by (simp add: lease_inv_def)
  qed
qed

lemma getOrLoad_settleE:
  assumes "getOrLoad_settle n out ck s = Some s'"
  obtains op p where "ls_ops s n = Some op"
    "s' = s\<lparr>ls_cache := snd p, ls_ops := (ls_ops s)(n \<mapsto> op\<lparr>op_settled := Some (fst p)\<rparr>)\<rparr>"
    "lease_cache_inv (ls_cache s) \<Longrightarrow> lease_cache_inv (snd p)" "cache_advances (ls_cache s) (snd p)"
proof -
  from assms obtain op where op: "ls_ops s n = Some op"
    by (auto simp: getOrLoad_settle_def split: option.splits)
  let ?p = "case out of Inr v \<Rightarrow> (Inr v, ls_cache s) | Inl e \<Rightarrow> settle_failure op e ck (ls_cache s)"
  show thesis
    using assms op
    by (intro that [of op ?p])
      (cases out; simp add: getOrLoad_settle_def Let_def settle_failure_inv settle_failure_advances
        split: if_splits)+
qed

lemma getOrLoad_resumeE:
  assumes "getOrLoad_resume n ck s = Some (res, s')"
  obtains op r where "ls_ops s n = Some op" "\<not> op_resumed op" "op_settled op = Some r"
    "res = fst (starter_commit op r ck (ls_cache s))"
    "s' = s\<lparr>ls_cache := forget_pending n (op_key op) (snd (starter_commit op r ck (ls_cache s))),
            ls_ops := (ls_ops s)(n \<mapsto> op\<lparr>op_resumed := True\<rparr>)\<rparr>"
  using assms by (auto simp: getOrLoad_resume_def Let_def split: option.splits if_splits)

lemma lease_inv_settle:
  assumes inv: "lease_inv s" and st: "getOrLoad_settle n out ck s = Some s'"
  shows "lease_inv s'"
proof -
  from st obtain op p where op: "ls_ops s n = Some op"
    and s': "s' = s\<lparr>ls_cache := snd p, ls_ops := (ls_ops s)(n \<mapsto> op\<lparr>op_settled := Some (fst p)\<rparr>)\<rparr>"
    and p: "lease_cache_inv (ls_cache s) \<Longrightarrow> lease_cache_inv (snd p)" "cache_advances (ls_cache s) (snd p)"
    by (rule getOrLoad_settleE) blast
  have "lease_inv (s\<lparr>ls_cache := snd p\<rparr>)"
    using inv p by (simp add: lease_inv_def lease_ops_inv_cache)
  then show ?thesis using op by (auto simp: s' lease_inv_def lease_ops_inv_def)
qed

lemma lease_inv_resume:
  assumes inv: "lease_inv s" and st: "getOrLoad_resume n ck s = Some (res, s')"
  shows "lease_inv s'"
proof -
  from st obtain op r where op: "ls_ops s n = Some op" "\<not> op_resumed op" and
    s': "s' = s\<lparr>ls_cache := forget_pending n (op_key op) (snd (starter_commit op r ck (ls_cache s))),
                ls_ops := (ls_ops s)(n \<mapsto> op\<lparr>op_resumed := True\<rparr>)\<rparr>"
    by (rule getOrLoad_resumeE) blast
  have "lease_cache_inv (ls_cache s')"
    using inv starter_commit_inv by (auto simp: s' forget_pending_def lease_inv_def)
  moreover have "lease_ops_inv s'"
    using inv op unfolding lease_inv_def lease_ops_inv_def
    by (auto simp: s' forget_pending_def starter_commit_frame) (metis option.inject)
  ultimately show ?thesis by (simp add: lease_inv_def)
qed

lemma lease_inv_cache_op:
  "lease_inv s \<Longrightarrow> lease_cache_inv d \<Longrightarrow> cache_advances (ls_cache s) d \<Longrightarrow> lease_inv (s\<lparr>ls_cache := d\<rparr>)"
  by (simp add: lease_inv_def lease_ops_inv_cache)

lemma lease_step_inv: "lease_step s t \<Longrightarrow> lease_inv s \<Longrightarrow> lease_inv t"
proof (induction rule: lease_step.induct)
  case (step_begin s key po opts ck)
  then show ?case by (rule lease_inv_begin)
next
  case (step_settle n out ck s s')
  then show ?case by (blast intro: lease_inv_settle)
next
  case (step_resume n ck s r s')
  then show ?case by (blast intro: lease_inv_resume)
qed (auto intro!: lease_inv_cache_op cache_advances_intros lease_cache_inv_get lease_cache_inv_put
    lease_cache_inv_clear lease_cache_inv_clearOwner lease_cache_inv_clearAll simp: lease_inv_def
    intro: lease_ops_inv_cache)

lemma lease_init_inv: "lease_init s \<Longrightarrow> lease_inv s"
  using lease_capacity_bounds(1) [of "ls_cache s"]
  by (auto simp: lease_init_def lease_inv_def lease_cache_inv_def lease_ops_inv_def lease_empty_def)

interpretation lease: invariant_system lease_init lease_step lease_inv
  by unfold_locales (auto intro: lease_init_inv lease_step_inv)

lemma lease_step_generation:
  "lease_step s t \<Longrightarrow> lease_generation (ls_cache s) k \<le> lease_generation (ls_cache t) k"
proof (induction rule: lease_step.induct)
  case (step_begin s key po opts ck)
  show ?case
    by (simp add: getOrLoad_begin_def getOrLoad_start_def Let_def lease_gen_simps split: option.splits)
next
  case (step_settle n out ck s s')
  then show ?case by (elim getOrLoad_settleE) (simp add: cache_advances_def)
next
  case (step_resume n ck s r s')
  then show ?case by (elim getOrLoad_resumeE) (simp add: forget_pending_def starter_commit_frame)
qed (simp_all add: lease_gen_simps lease_generation_clearOwner lease_generation_clearAll)

interpretation lease_gen: monotone_step lease_step "\<lambda>s. lease_generation (ls_cache s) k" "(\<le>)" for k
  by unfold_locales (auto intro: lease_step_generation)

section \<open>A started load keeps its identity\<close>

definition same_load :: "('v, 'e) lease_op \<Rightarrow> ('v, 'e) lease_op \<Rightarrow> bool" where
  "same_load op op' \<longleftrightarrow> op_key op' = op_key op \<and> op_generation op' = op_generation op
     \<and> (op_resumed op \<longrightarrow> op_resumed op')"

lemma lease_step_same_load:
  assumes "lease_step s t" "lease_inv s" "ls_ops s n = Some op"
  shows "\<exists>op'. ls_ops t n = Some op' \<and> same_load op op'"
  using assms
proof (induction rule: lease_step.induct)
  case (step_begin s key po opts ck)
  then have "n \<noteq> ls_next s" by (auto simp: lease_inv_def lease_ops_inv_def)
  with step_begin show ?case
    by (simp add: getOrLoad_begin_def getOrLoad_start_def Let_def same_load_def split: option.splits)
next
  case (step_settle m out ck s s')
  then show ?case by (elim getOrLoad_settleE) (auto simp: same_load_def)
next
  case (step_resume m ck s r s')
  then show ?case by (elim getOrLoad_resumeE) (auto simp: same_load_def)
qed (simp_all add: same_load_def)

lemma lease_steps_same_load:
  assumes "steps lease_step s t" "lease_inv s" "ls_ops s n = Some op"
  shows "\<exists>op'. ls_ops t n = Some op' \<and> same_load op op'"
  using assms
proof (induction rule: steps.induct)
  case (steps_refl s)
  then show ?case by (simp add: same_load_def)
next
  case (steps_snoc s t u)
  then obtain op' where op': "ls_ops t n = Some op'" "same_load op op'" by blast
  with steps_snoc lease.steps_inv lease_step_same_load obtain op'' where
    "ls_ops u n = Some op''" "same_load op' op''" by blast
  with op' show ?case by (auto simp: same_load_def)
qed

lemma starter_commit_stale:
  "lease_generation c (op_key op) \<noteq> op_generation op \<Longrightarrow>
   \<exists>e. starter_commit op r ck c = (Inl e, c)"
  by (cases r) (simp_all add: starter_commit_def)

lemma current_load_is_known:
  assumes "lease_inv s" "ls_ops s n = Some op" "\<not> op_resumed op"
    and "op_generation op = lease_generation (ls_cache s) (op_key op)"
  shows "op_key op \<in> set (lease_known_keys (ls_cache s))"
proof -
  have "omap_get (lc_pending (ls_cache s)) (op_key op) = Some n"
    using assms by (auto simp: lease_inv_def lease_ops_inv_def)
  then show ?thesis
    using omap_get_None_iff [of "lc_pending (ls_cache s)" "op_key op"] by (simp add: set_lease_known_keys)
qed

section \<open>Properties\<close>

text \<open>(C5) Revocation is final: when an owner is cleared while a load of one of its keys is in
  flight, whatever other calls interleave before and after, the load's starter gets an error when it
  resumes and nothing is written to the cache.\<close>

theorem revoked_load_never_commits:
  assumes "reach lease_init lease_step s0" and "ls_ops s0 n = Some op"
    and "steps lease_step s0 s1" and "in_owner_scope scope (op_key op)"
    and "steps lease_step (s1\<lparr>ls_cache := lease_clearOwner scope (ls_cache s1)\<rparr>) s2"
    and "getOrLoad_resume n ck s2 = Some (r, s3)"
  shows "(\<exists>e. r = Inl e) \<and> lc_entries (ls_cache s3) = lc_entries (ls_cache s2)"
proof -
  let ?c = "s1\<lparr>ls_cache := lease_clearOwner scope (ls_cache s1)\<rparr>"
  have inv0: "lease_inv s0" using assms(1) by (rule lease.reach_inv)
  have inv1: "lease_inv s1" using assms(3) inv0 by (rule lease.steps_inv)
  obtain op1 where op1: "ls_ops s1 n = Some op1" "same_load op op1"
    using lease_steps_same_load [OF assms(3) inv0 assms(2)] by blast
  have step: "lease_step s1 ?c" by (rule step_clearOwner)
  obtain op2 where op2: "ls_ops s2 n = Some op2" "same_load op1 op2"
    using lease_steps_same_load [OF assms(5) lease_step_inv [OF step inv1]] op1 by auto
  from assms(6) obtain rr where resumed: "\<not> op_resumed op2"
    and r: "r = fst (starter_commit op2 rr ck (ls_cache s2))"
    and s3: "ls_cache s3 = forget_pending n (op_key op2) (snd (starter_commit op2 rr ck (ls_cache s2)))"
    using op2(1) by (elim getOrLoad_resumeE) auto
  have "op_generation op1 < lease_generation (ls_cache ?c) (op_key op1)"
  proof (cases "op_generation op1 = lease_generation (ls_cache s1) (op_key op1)")
    case True
    then show ?thesis
      using current_load_is_known [OF inv1 op1(1) _ True] resumed op1(2) op2(2) assms(4)
      by (simp add: lease_generation_clearOwner same_load_def)
  next
    case False
    then show ?thesis using inv1 op1(1)
      by (fastforce simp: lease_inv_def lease_ops_inv_def lease_generation_clearOwner)
  qed
  also have "\<dots> \<le> lease_generation (ls_cache s2) (op_key op1)"
    using assms(5) by (rule lease_gen.steps_le)
  finally obtain e where "starter_commit op2 rr ck (ls_cache s2) = (Inl e, ls_cache s2)"
    using starter_commit_stale [of "ls_cache s2" op2] op2(2) by (auto simp: same_load_def)
  with r s3 show ?thesis by (auto simp: forget_pending_def)
qed

definition demo_put :: "nat \<Rightarrow> ms \<Rightarrow> lease_put_options" where
  "demo_put v t = \<lparr> po_now = Some t, po_userJwtExpiresAt = Some 9000, po_upstreamExpiresAt = Some 9000,
     po_maxTtlMs = None, po_loadedMonotonic = None \<rparr>"

definition demo_opts :: "nat lease_load_options" where
  "demo_opts = \<lparr> lo_allowReuse = True, lo_forceRefresh = False, lo_isDenial = (\<lambda>e. e = 403),
     lo_isRetryable = None \<rparr>"

definition demo_ck :: "ms \<Rightarrow> clocks" where
  "demo_ck t = \<lparr> ck_wall = t, ck_mono = of_int t \<rparr>"

definition demo_sys :: "(nat, nat) lease_sys" where
  "demo_sys = \<lparr> ls_cache = lease_empty None None, ls_ops = Map.empty, ls_next = 0 \<rparr>"

definition demo_started :: "(nat, nat) lease_sys" where
  "demo_started = snd (getOrLoad_begin (encodeScope [''t'', ''m'']) demo_put demo_opts (demo_ck 1000) demo_sys)"

definition demo_revoked :: "(nat, nat) lease_sys" where
  "demo_revoked = demo_started\<lparr>ls_cache := lease_clearOwner (encodeScope [''t'']) (ls_cache demo_started)\<rparr>"

definition demo_settled :: "(nat, nat) lease_sys" where
  "demo_settled = the (getOrLoad_settle 0 (Inr 7) (demo_ck 1500) demo_revoked)"

lemmas demo_defs = demo_put_def demo_opts_def demo_ck_def demo_sys_def demo_started_def demo_revoked_def
  demo_settled_def getOrLoad_begin_def getOrLoad_start_def Let_def lease_get_def lease_empty_def

lemma demo_sys_init: "lease_init demo_sys"
  by (auto simp: lease_init_def demo_sys_def)

lemma demo_reach: "reach lease_init lease_step demo_started"
  unfolding demo_started_def
  by (rule reach_step [where s = demo_sys], rule reach_init, rule demo_sys_init, rule step_begin)

lemma demo_op: "\<exists>op. ls_ops demo_started 0 = Some op \<and> op_key op = encodeScope [''t'', ''m''] \<and> op_settled op = None
   \<and> op_resumed op = False"
  by (simp add: demo_defs)

lemma demo_settled_eq: "getOrLoad_settle 0 (Inr 7) (demo_ck 1500) demo_revoked = Some demo_settled"
  using demo_op by (auto simp: demo_settled_def getOrLoad_settle_def demo_revoked_def Let_def)

theorem revoked_load_never_commits_witness:
  "\<exists>r s3. getOrLoad_resume 0 (demo_ck 2000) demo_settled = Some (r, s3)
     \<and> (\<exists>e. r = Inl e) \<and> lc_entries (ls_cache s3) = lc_entries (ls_cache demo_settled)"
proof -
  from demo_op obtain op where op: "ls_ops demo_started 0 = Some op" "op_key op = encodeScope [''t'', ''m'']"
    and fresh: "op_settled op = None" "op_resumed op = False" by blast
  have own: "in_owner_scope (encodeScope [''t'']) (op_key op)"
    using scope.owns_extend [of "[''t'']" "[''m'']"] op(2) by simp
  have run: "steps lease_step (demo_started\<lparr>ls_cache := lease_clearOwner (encodeScope [''t'']) (ls_cache demo_started)\<rparr>) demo_settled"
    unfolding demo_revoked_def [symmetric]
    by (rule steps_snoc [where t = demo_revoked], rule steps_refl, rule step_settle, rule demo_settled_eq)
  have "ls_ops demo_settled 0 = Some (op\<lparr>op_settled := Some (Inr 7)\<rparr>)"
    using op fresh by (simp add: demo_settled_def getOrLoad_settle_def demo_revoked_def Let_def)
  then obtain r s3 where res: "getOrLoad_resume 0 (demo_ck 2000) demo_settled = Some (r, s3)"
    using fresh by (simp add: getOrLoad_resume_def Let_def)
  then show ?thesis
    using revoked_load_never_commits [OF demo_reach op(1) steps_refl own run res] by blast
qed

text \<open>The cache is bounded and serves no expired material: in every reachable state it holds at
  most 128 entries, and an entry it serves is unexpired on the wall clock and on the monotonic clock,
  lives at most 300 seconds from its load and belongs to the key's current generation.\<close>

theorem lease_served_only_while_valid:
  assumes "reach lease_init lease_step s" and "lease_get (ls_cache s) key ck = (Some e, c')"
  shows "ck_wall ck < le_expiresAt e \<and> le_expiresAt e \<le> le_loadedAt e + 300000
    \<and> ck_mono ck - le_loadedMonotonic e < of_int (le_ttlMs e)
    \<and> le_generation e = lease_generation (ls_cache s) key \<and> lease_size (ls_cache s) \<le> 128"
proof -
  have inv: "lease_cache_inv (ls_cache s)"
    using lease.reach_inv [OF assms(1)] by (simp add: lease_inv_def)
  have e: "omap_get (lc_entries (ls_cache s)) key = Some e" and live: "lease_live (ls_cache s) ck key e"
    using assms(2) by (auto simp: lease_get_def split: option.splits if_splits)
  then have "lease_entry_ok (ls_cache s) key e"
    using inv by (auto simp: lease_cache_inv_def omap_get_def dest!: map_of_SomeD)
  moreover have "lease_size (ls_cache s) \<le> 128"
    using inv lease_capacity_bounds(2) [of "ls_cache s"] by (simp add: lease_cache_inv_def lease_size_def)
  ultimately show ?thesis
    using live by (auto simp: lease_live_def lease_entry_ok_def MAX_RUNTIME_LEASE_TTL_MS_def)
qed

definition demo_cached :: "(nat, nat) lease_sys" where
  "demo_cached = demo_sys\<lparr>ls_cache := snd (lease_put (ls_cache demo_sys) ''k'' 7 (demo_put 7 1000) (demo_ck 1000))\<rparr>"

lemma demo_cached_get:
  "\<exists>e c'. lease_get (ls_cache demo_cached) ''k'' (demo_ck 2000) = (Some e, c') \<and> le_value e = 7"
  by (simp add: demo_cached_def demo_defs lease_put_def boundedLeaseTtl_def MAX_RUNTIME_LEASE_TTL_MS_def
      MAX_RUNTIME_LEASE_ENTRIES_def lease_capacity_def evict_loop.simps lease_live_def lease_generation_def
      omap_delete_def omap_get_def)

theorem lease_served_only_while_valid_witness:
  "\<exists>e c'. lease_get (ls_cache demo_cached) ''k'' (demo_ck 2000) = (Some e, c')
     \<and> 2000 < le_expiresAt e \<and> le_expiresAt e \<le> le_loadedAt e + 300000 \<and> lease_size (ls_cache demo_cached) \<le> 128"
proof -
  have "reach lease_init lease_step demo_cached"
    unfolding demo_cached_def
    by (rule reach_step [where s = demo_sys], rule reach_init, rule demo_sys_init, rule step_put)
  moreover obtain e c' where g: "lease_get (ls_cache demo_cached) ''k'' (demo_ck 2000) = (Some e, c')"
    using demo_cached_get by blast
  ultimately show ?thesis
    using lease_served_only_while_valid [of demo_cached "''k''" "demo_ck 2000" e c']
    by (auto simp: demo_ck_def)
qed

text \<open>Cached material never outlives its two trust boundaries: \<open>put\<close> retains a value only when
  both the user's token expiry and the upstream expiry are known, and then the entry expires no later
  than either of them; otherwise the cache is unchanged.\<close>

theorem lease_put_trust_boundaries:
  "case lease_put c key v opts ck of
     (None, c') \<Rightarrow> c' = c
   | (Some e, c') \<Rightarrow> \<exists>jwt up. po_userJwtExpiresAt opts = Some jwt \<and> po_upstreamExpiresAt opts = Some up
        \<and> le_expiresAt e \<le> jwt \<and> le_expiresAt e \<le> up \<and> le_value e = v
        \<and> le_loadedAt e < le_expiresAt e \<and> le_generation e = lease_generation c key"
  by (auto simp: lease_put_def Let_def split: option.splits elim!: boundedLeaseTtl_bounds)



end
