(* ===== verification/Approval_Store.thy ===== *)
theory Approval_Store
  imports Prelude
begin

text \<open>
  The \<open>approval_record\<close> table of \<open>storage/sqlite.ts\<close> and its statements.  Timestamps are epoch
  milliseconds (ISO strings of one length compare like them).  Each store method is one transaction.
\<close>

datatype approval_risk = RBash | RWrite | REdit | RExternal | RUnknown

datatype approval_status =
  Pending | Approved | Executing | Succeeded | Rejected | Invalidated | Expired | Uncertain

record approval =
  ap_id :: string
  ap_batch :: string
  ap_tenant :: string
  ap_member :: string
  ap_conversation :: string
  ap_participant :: "string option"
  ap_session :: string
  ap_snapshot :: string
  ap_permissionRevision :: string
  ap_toolCall :: string
  ap_toolCallEntry :: "string option"
  ap_promptReceipt :: "string option"
  ap_toolName :: string
  ap_argsHmac :: string
  ap_summary :: string
  ap_risk :: approval_risk
  ap_status :: approval_status
  ap_approvedBy :: "string option"
  ap_approvedAt :: "ms option"
  ap_expiresAt :: ms
  ap_revision :: nat
  ap_consumed :: bool
  ap_idempotencyKey :: string
  ap_createdAt :: ms
  ap_updatedAt :: ms

type_synonym approvals = "approval list"

datatype approval_error =
    ConstraintViolation
  | ApprovalNotFound
  | ApprovalRevisionConflict
  | ApprovalDecisionConflict
  | ApprovalRecordExpired

definition status_open :: "approval_status \<Rightarrow> bool" where
  "status_open st \<longleftrightarrow> st = Pending \<or> st = Approved"

definition status_live :: "approval_status \<Rightarrow> bool" where
  "status_live st \<longleftrightarrow> st = Pending \<or> st = Approved \<or> st = Executing"

definition getApprovalRecord :: "string \<Rightarrow> approvals \<Rightarrow> approval option" where
  "getApprovalRecord i rows = find (\<lambda>r. ap_id r = i) rows"

text \<open>The unique index on the call columns; \<open>NULL\<close> participants never clash in SQLite.\<close>

definition same_call :: "approval \<Rightarrow> approval \<Rightarrow> bool" where
  "same_call a b \<longleftrightarrow> ap_tenant a = ap_tenant b \<and> ap_member a = ap_member b \<and> ap_conversation a = ap_conversation b
     \<and> ap_session a = ap_session b \<and> ap_participant a = ap_participant b \<and> ap_participant a \<noteq> None
     \<and> ap_toolCall a = ap_toolCall b \<and> ap_argsHmac a = ap_argsHmac b \<and> ap_snapshot a = ap_snapshot b"

definition createApprovalRecord :: "approval \<Rightarrow> approvals \<Rightarrow> (approval_error + approval) \<times> approvals" where
  "createApprovalRecord r rows =
     (if (\<exists>q \<in> set rows. ap_id q = ap_id r \<or> same_call q r) then (Inl ConstraintViolation, rows)
      else (Inr r, rows @ [r]))"

definition owned_by :: "string \<Rightarrow> string \<Rightarrow> string \<Rightarrow> approval \<Rightarrow> bool" where
  "owned_by tenant member conversation r \<longleftrightarrow>
     ap_tenant r = tenant \<and> ap_member r = member \<and> ap_conversation r = conversation"

definition getOwnedApprovalRecord :: "string \<Rightarrow> string \<Rightarrow> string \<Rightarrow> string \<Rightarrow> approvals \<Rightarrow> approval option" where
  "getOwnedApprovalRecord i tenant member conversation rows =
     find (\<lambda>r. ap_id r = i \<and> owned_by tenant member conversation r) rows"

text \<open>\<open>ORDER BY created_at DESC\<close>; rows of one instant keep their order.\<close>

definition by_created_desc :: "approvals \<Rightarrow> approvals" where
  "by_created_desc rows = sort_key (\<lambda>r. - ap_createdAt r) rows"

definition findApprovalForTool ::
  "string \<Rightarrow> string \<Rightarrow> string \<Rightarrow> string \<Rightarrow> string option \<Rightarrow> string \<Rightarrow> string \<Rightarrow> string \<Rightarrow> approvals \<Rightarrow> approval option" where
  "findApprovalForTool tenant member conversation session participant toolCall hmac snapshot rows =
     (case by_created_desc (filter (\<lambda>r. owned_by tenant member conversation r \<and> ap_session r = session
              \<and> ap_participant r = participant \<and> ap_toolCall r = toolCall \<and> ap_argsHmac r = hmac
              \<and> ap_snapshot r = snapshot) rows) of
        [] \<Rightarrow> None
      | r # _ \<Rightarrow> Some r)"

definition listOwnedApprovalRecords ::
  "string \<Rightarrow> string \<Rightarrow> string \<Rightarrow> bool \<Rightarrow> approvals \<Rightarrow> approvals" where
  "listOwnedApprovalRecords conversation tenant member includeTerminal rows =
     by_created_desc (filter (\<lambda>r. owned_by tenant member conversation r
        \<and> (includeTerminal \<or> status_live (ap_status r))) rows)"

text \<open>Row updates of the \<open>UPDATE\<close> statements.\<close>

definition set_status :: "approval_status \<Rightarrow> ms \<Rightarrow> approval \<Rightarrow> approval" where
  "set_status st now r = r\<lparr>ap_status := st, ap_updatedAt := now\<rparr>"

definition move_status :: "approval_status \<Rightarrow> ms \<Rightarrow> approval \<Rightarrow> approval" where
  "move_status st now r = r\<lparr>ap_status := st, ap_revision := ap_revision r + 1, ap_updatedAt := now\<rparr>"

definition mark_decided :: "bool \<Rightarrow> string \<Rightarrow> string \<Rightarrow> ms \<Rightarrow> approval \<Rightarrow> approval" where
  "mark_decided approve by' key now r =
     r\<lparr>ap_status := (if approve then Approved else Rejected),
       ap_approvedBy := (if approve then Some by' else None),
       ap_approvedAt := (if approve then Some now else None),
       ap_revision := ap_revision r + 1, ap_idempotencyKey := key, ap_updatedAt := now\<rparr>"

definition mark_claimed :: "ms \<Rightarrow> approval \<Rightarrow> approval" where
  "mark_claimed now r =
     r\<lparr>ap_status := Executing, ap_consumed := True, ap_revision := ap_revision r + 1, ap_updatedAt := now\<rparr>"

definition mark_invalid :: "ms \<Rightarrow> approval \<Rightarrow> approval" where
  "mark_invalid now r = move_status (if ap_status r = Executing then Uncertain else Invalidated) now r"

record decision =
  de_id :: string
  de_tenant :: string
  de_member :: string
  de_conversation :: string
  de_approve :: bool
  de_expectedRevision :: "nat option"
  de_approvedBy :: string
  de_key :: string

definition replayed_decision :: "decision \<Rightarrow> approval \<Rightarrow> bool" where
  "replayed_decision d r \<longleftrightarrow> ap_idempotencyKey r = de_key d
     \<and> ((ap_status r \<in> {Approved, Executing, Succeeded, Uncertain} \<and> de_approve d)
        \<or> (ap_status r = Rejected \<and> \<not> de_approve d))"

text \<open>The two updates of a fresh decision: the record itself, and on denial the rest of its batch.\<close>

definition apply_decision :: "decision \<Rightarrow> ms \<Rightarrow> string \<Rightarrow> approvals \<Rightarrow> approvals" where
  "apply_decision d now batch rows =
     (let rows1 = update_rows (\<lambda>q. ap_id q = de_id d \<and> ap_status q = Pending)
                    (mark_decided (de_approve d) (de_approvedBy d) (de_key d) now) rows
      in if de_approve d then rows1
         else update_rows (\<lambda>q. ap_batch q = batch \<and> ap_id q \<noteq> de_id d \<and> status_open (ap_status q))
                (move_status Invalidated now) rows1)"

definition decideApproval :: "decision \<Rightarrow> ms \<Rightarrow> approvals \<Rightarrow> (approval_error + approval) \<times> approvals" where
  "decideApproval d now rows =
     (case getOwnedApprovalRecord (de_id d) (de_tenant d) (de_member d) (de_conversation d) rows of
        None \<Rightarrow> (Inl ApprovalNotFound, rows)
      | Some r \<Rightarrow>
          if ap_expiresAt r \<le> now \<and> status_open (ap_status r)
          then (Inl ApprovalRecordExpired, update_rows (\<lambda>q. ap_id q = de_id d) (move_status Expired now) rows)
          else if replayed_decision d r then (Inr r, rows)
          else if de_expectedRevision d \<noteq> None \<and> de_expectedRevision d \<noteq> Some (ap_revision r)
          then (Inl ApprovalRevisionConflict, rows)
          else if ap_status r = Approved \<and> de_approve d then (Inr r, rows)
          else if ap_status r = Rejected \<and> \<not> de_approve d then (Inr r, rows)
          else if ap_status r \<noteq> Pending then (Inl ApprovalDecisionConflict, rows)
          else (case getApprovalRecord (de_id d) (apply_decision d now (ap_batch r) rows) of
                  None \<Rightarrow> Inl ApprovalNotFound
                | Some q \<Rightarrow> Inr q, apply_decision d now (ap_batch r) rows))"

definition claimable ::
  "string \<Rightarrow> string \<Rightarrow> string \<Rightarrow> string \<Rightarrow> nat \<Rightarrow> string \<Rightarrow> string \<Rightarrow> ms \<Rightarrow> approval \<Rightarrow> bool" where
  "claimable i tenant member conversation revision snapshot permission now r \<longleftrightarrow>
     ap_id r = i \<and> owned_by tenant member conversation r \<and> ap_status r = Approved \<and> \<not> ap_consumed r
     \<and> ap_revision r = revision \<and> ap_snapshot r = snapshot \<and> ap_permissionRevision r = permission \<and> ap_expiresAt r > now"

definition claimApproval ::
  "string \<Rightarrow> string \<Rightarrow> string \<Rightarrow> string \<Rightarrow> nat \<Rightarrow> string \<Rightarrow> string \<Rightarrow> ms \<Rightarrow> approvals \<Rightarrow> approval option \<times> approvals" where
  "claimApproval i tenant member conversation revision snapshot permission now rows =
     (let p = claimable i tenant member conversation revision snapshot permission now;
          rows1 = update_rows p (mark_claimed now) rows
      in if changed p rows = 0 then (None, rows1)
         else (getOwnedApprovalRecord i tenant member conversation rows1, rows1))"

definition finishApproval :: "string \<Rightarrow> approval_status \<Rightarrow> ms \<Rightarrow> approvals \<Rightarrow> approvals" where
  "finishApproval i st now rows =
     update_rows (\<lambda>r. ap_id r = i \<and> ap_status r = Executing) (set_status st now) rows"

definition expireApproval :: "string \<Rightarrow> ms \<Rightarrow> approvals \<Rightarrow> approvals" where
  "expireApproval i now rows =
     update_rows (\<lambda>r. ap_id r = i \<and> status_open (ap_status r) \<and> ap_expiresAt r \<le> now) (move_status Expired now) rows"

definition opt_eq :: "'a option \<Rightarrow> 'a \<Rightarrow> bool" where
  "opt_eq x v \<longleftrightarrow> x = None \<or> x = Some v"

definition invalidateApprovalsForConversation ::
  "string \<Rightarrow> string option \<Rightarrow> string option \<Rightarrow> ms \<Rightarrow> approvals \<Rightarrow> approvals" where
  "invalidateApprovalsForConversation conversation tenant member now rows =
     update_rows (\<lambda>r. ap_conversation r = conversation \<and> opt_eq tenant (ap_tenant r) \<and> opt_eq member (ap_member r)
        \<and> status_live (ap_status r)) (mark_invalid now) rows"

definition invalidateApprovalsForOwner :: "string \<Rightarrow> string \<Rightarrow> ms \<Rightarrow> approvals \<Rightarrow> approvals" where
  "invalidateApprovalsForOwner tenant member now rows =
     update_rows (\<lambda>r. ap_tenant r = tenant \<and> ap_member r = member \<and> status_live (ap_status r)) (mark_invalid now) rows"

definition deleteApprovalsForConversation ::
  "string \<Rightarrow> string option \<Rightarrow> string option \<Rightarrow> approvals \<Rightarrow> approvals" where
  "deleteApprovalsForConversation conversation tenant member rows =
     delete_rows (\<lambda>r. ap_conversation r = conversation \<and> opt_eq tenant (ap_tenant r) \<and> opt_eq member (ap_member r)) rows"

text \<open>The statement of the store's constructor: a restart cannot prove that a side effect ran.\<close>

definition restart_row :: "ms \<Rightarrow> approval \<Rightarrow> approval" where
  "restart_row now r = r\<lparr>ap_status := Uncertain, ap_consumed := True, ap_updatedAt := now\<rparr>"

definition restartApprovals :: "ms \<Rightarrow> approvals \<Rightarrow> approvals" where
  "restartApprovals now rows = update_rows (\<lambda>r. status_live (ap_status r)) (restart_row now) rows"

section \<open>Facts\<close>

lemmas row_actions = set_status_def move_status_def mark_decided_def mark_claimed_def mark_invalid_def restart_row_def

lemmas status_defs = status_open_def status_live_def

interpretation set_status: row_update ap_id "set_status st now" for st now
  by unfold_locales (simp add: row_actions)

interpretation move_status: row_update ap_id "move_status st now" for st now
  by unfold_locales (simp add: row_actions)

interpretation decided: row_update ap_id "mark_decided approve by' key now" for approve by' key now
  by unfold_locales (simp add: row_actions)

interpretation claimed: row_update ap_id "mark_claimed now" for now
  by unfold_locales (simp add: row_actions)

interpretation invalid: row_update ap_id "mark_invalid now" for now
  by unfold_locales (simp add: row_actions)

interpretation restarted: row_update ap_id "restart_row now" for now
  by unfold_locales (simp add: row_actions)

lemmas approval_keys = set_status.keys_update move_status.keys_update decided.keys_update claimed.keys_update
  invalid.keys_update restarted.keys_update

lemmas approval_finds = set_status.find_update move_status.find_update decided.find_update claimed.find_update
  invalid.find_update restarted.find_update

definition approvals_ok :: "approvals \<Rightarrow> bool" where
  "approvals_ok rows \<longleftrightarrow> distinct (map ap_id rows)"

text \<open>How a row may change: a decided or claimed row never becomes claimable again, and the columns
  that bind it to a call never change.\<close>

definition same_binding :: "approval \<Rightarrow> approval \<Rightarrow> bool" where
  "same_binding a b \<longleftrightarrow> ap_id b = ap_id a \<and> ap_batch b = ap_batch a \<and> ap_tenant b = ap_tenant a \<and> ap_member b = ap_member a
     \<and> ap_conversation b = ap_conversation a \<and> ap_participant b = ap_participant a \<and> ap_session b = ap_session a
     \<and> ap_snapshot b = ap_snapshot a \<and> ap_permissionRevision b = ap_permissionRevision a \<and> ap_toolCall b = ap_toolCall a
     \<and> ap_toolName b = ap_toolName a \<and> ap_argsHmac b = ap_argsHmac a \<and> ap_risk b = ap_risk a
     \<and> ap_expiresAt b = ap_expiresAt a \<and> ap_createdAt b = ap_createdAt a"

lemma same_binding_refl [simp]: "same_binding a a"
  by (simp add: same_binding_def)

lemma same_binding_trans: "same_binding a b \<Longrightarrow> same_binding b c \<Longrightarrow> same_binding a c"
  by (simp add: same_binding_def)

lemma same_binding_actions [simp]:
  "same_binding r (set_status st now r)" "same_binding r (move_status st now r)"
  "same_binding r (mark_decided approve by' key now r)" "same_binding r (mark_claimed now r)"
  "same_binding r (mark_invalid now r)" "same_binding r (restart_row now r)"
  by (simp_all add: same_binding_def row_actions)

lemma approvals_get_iff:
  "approvals_ok rows \<Longrightarrow> getApprovalRecord i rows = Some r \<longleftrightarrow> r \<in> set rows \<and> ap_id r = i"
  unfolding getApprovalRecord_def approvals_ok_def
  using find_unique_key [of ap_id rows r i] find_Some_in [of "\<lambda>r. ap_id r = i" rows r] by blast

lemma approvals_unique:
  assumes "approvals_ok rows" "r \<in> set rows" "q \<in> set rows" "ap_id r = ap_id q"
  shows "r = q"
  using assms inj_onD [of ap_id "set rows" r q] by (simp add: approvals_ok_def distinct_map)

lemma getOwned_Some:
  "getOwnedApprovalRecord i t m c rows = Some r \<Longrightarrow> r \<in> set rows \<and> ap_id r = i \<and> owned_by t m c r"
  by (auto simp: getOwnedApprovalRecord_def dest: find_Some_in)

lemma findApprovalForTool_Some:
  assumes "findApprovalForTool t m c session participant toolCall hmac snapshot rows = Some r"
  shows "r \<in> set rows \<and> owned_by t m c r \<and> ap_session r = session \<and> ap_participant r = participant
    \<and> ap_toolCall r = toolCall \<and> ap_argsHmac r = hmac \<and> ap_snapshot r = snapshot"
proof -
  have "r \<in> set (by_created_desc (filter (\<lambda>r. owned_by t m c r \<and> ap_session r = session
      \<and> ap_participant r = participant \<and> ap_toolCall r = toolCall \<and> ap_argsHmac r = hmac \<and> ap_snapshot r = snapshot) rows))"
    using assms by (auto simp: findApprovalForTool_def split: list.splits)
  then show ?thesis by (simp add: by_created_desc_def)
qed

lemma claimApproval_Some:
  assumes "claimApproval i t m c rv snap perm now rows = (Some q, rows')" "approvals_ok rows"
  obtains r where "r \<in> set rows" "claimable i t m c rv snap perm now r" "q = mark_claimed now r"
    "rows' = update_rows (claimable i t m c rv snap perm now) (mark_claimed now) rows"
proof -
  let ?p = "claimable i t m c rv snap perm now"
  from assms(1) have rows': "rows' = update_rows ?p (mark_claimed now) rows" and "0 < changed ?p rows"
    and q: "getOwnedApprovalRecord i t m c rows' = Some q"
    by (auto simp: claimApproval_def Let_def split: if_splits)
  then obtain r where r: "r \<in> set rows" "?p r" by (auto simp: changed_pos_iff)
  from getOwned_Some [OF q] obtain q0 where q0: "q0 \<in> set rows" "q = (if ?p q0 then mark_claimed now q0 else q0)" "ap_id q = i"
    by (auto simp: rows' set_update_rows)
  then have "ap_id q0 = i" by (auto simp: claimed.key_act split: if_splits)
  then have "q0 = r"
    using r q0(1) assms(2) by (auto simp: approvals_ok_def claimable_def distinct_map dest: inj_onD)
  with that q0 r rows' show ?thesis by simp
qed

end
