(* ===== verification/Approval_Policy.thy ===== *)
theory Approval_Policy
  imports Js_Regex Approval_Store
begin

text \<open>
  The pure functions of \<open>approval-service.ts\<close>: the risk classification of tools, the canonical form of
  tool arguments and the redacted summary shown to the user.  \<open>text_env\<close> collects what they use of
  the platform: SHA-256 in hexadecimal, \<open>JSON.stringify\<close>, the order \<open>localeCompare\<close> induces, and the
  three literals outside the model's alphabet.
\<close>

record text_env =
  te_sha256 :: "string \<Rightarrow> string"
  te_stringify :: "jsval \<Rightarrow> string option"
  te_localeLe :: "string \<Rightarrow> string \<Rightarrow> bool"
  te_hidden :: string
  te_omitted :: string
  te_ellipsis :: string

section \<open>Risk\<close>

definition SAFE_TOOLS :: "string list" where
  "SAFE_TOOLS = [''read'', ''grep'', ''find'', ''ls'', ''knowledge_search'', ''knowledge_get'',
     ''local_dir_search'', ''local_dir_read'',
     ''hindsight_recall'', ''memory_recall'', ''todo_update'', ''mention_employee'', ''delegate_employee'']"

definition EXTERNAL_TOOL :: regex where
  "EXTERNAL_TOOL = Seq Bos (seqs [alts [lit_i ''external'', lit_i ''connector'', lit_i ''jira''], Cls (char_in ''._:-'')])"

definition approvalRiskForTool :: "string \<Rightarrow> approval_risk option" where
  "approvalRiskForTool toolName =
     (if toolName = ''bash'' then Some RBash
      else if toolName = ''write'' then Some RWrite
      else if toolName = ''edit'' then Some REdit
      else if toolName \<in> set SAFE_TOOLS then None
      else if toolName = ''hindsight_retain'' \<or> toolName = ''memory_retain'' \<or> regex_test EXTERNAL_TOOL toolName
        then Some RExternal
      else Some RUnknown)"

section \<open>Canonical arguments\<close>

text \<open>A stable sort by the order \<open>le\<close>, as \<open>Array.prototype.sort\<close> is.\<close>

fun insert_by :: "('a \<Rightarrow> 'a \<Rightarrow> bool) \<Rightarrow> 'a \<Rightarrow> 'a list \<Rightarrow> 'a list" where
  "insert_by le x [] = [x]"
| "insert_by le x (y # ys) = (if le x y then x # y # ys else y # insert_by le x ys)"

definition sort_by :: "('a \<Rightarrow> 'a \<Rightarrow> bool) \<Rightarrow> 'a list \<Rightarrow> 'a list" where
  "sort_by le xs = foldr (insert_by le) xs []"

fun canonicalize :: "text_env \<Rightarrow> jsval \<Rightarrow> jsval" where
  "canonicalize env (JArr vs) = JArr (map (canonicalize env) vs)"
| "canonicalize env (JObj fs) =
     JObj (sort_by (\<lambda>a b. te_localeLe env (fst a) (fst b)) (map (\<lambda>(k, v). (k, canonicalize env v)) fs))"
| "canonicalize env v = v"

definition canonicalArgsHmac :: "text_env \<Rightarrow> jsval \<Rightarrow> string" where
  "canonicalArgsHmac env v = te_sha256 env (nullish (te_stringify env (canonicalize env v)) ''undefined'')"

section \<open>Redaction\<close>

definition not_delimiter :: "char \<Rightarrow> bool" where
  "not_delimiter c \<longleftrightarrow> \<not> js_space c \<and> c \<noteq> CHR '','' \<and> c \<noteq> CHR '';''"

definition SECRET_VALUE :: regex where
  "SECRET_VALUE = Seq
     (Alt (Seq (lit_i ''bearer'') (plus (Cls js_space)))
          (seqs [alts [seqs [lit_i ''api'', opt (Cls (char_in ''_ -'')), lit_i ''key''],
                       lit_i ''token'', lit_i ''secret'', lit_i ''password''],
                 Star (Cls js_space), Cls (char_in '':=''), Star (Cls js_space)]))
     (plus (Cls not_delimiter))"

definition SECRET_KEY :: regex where
  "SECRET_KEY = alts [lit_i ''token'', lit_i ''secret'', lit_i ''password'', lit_i ''credential'', lit_i ''authorization'',
     seqs [lit_i ''api'', opt (Cls (char_in ''_ -'')), lit_i ''key''],
     seqs [lit_i ''private'', opt (Cls (char_in ''_ -'')), lit_i ''key''], lit_i ''content'']"

function boundedRedaction :: "text_env \<Rightarrow> nat \<Rightarrow> jsval \<Rightarrow> jsval" where
  "boundedRedaction env depth v =
     (if depth > 3 then JStr (te_omitted env)
      else (case v of
        JStr s \<Rightarrow> JStr (take 240 (regex_replace_all SECRET_VALUE (te_hidden env) s))
      | JArr vs \<Rightarrow> JArr (map (boundedRedaction env (depth + 1)) (take 16 vs))
      | JObj fs \<Rightarrow>
          JObj (map (\<lambda>(k, w). (k, boundedRedaction env (depth + 1) w))
            (filter (\<lambda>(k, w). \<not> regex_test SECRET_KEY k) (take 16 fs)))
      | _ \<Rightarrow> v))"
  by pat_completeness auto
termination
  by (relation "measure (\<lambda>(env, depth, v). 4 - depth)") auto

declare boundedRedaction.simps [simp del]

definition redactedToolSummary :: "text_env \<Rightarrow> string \<Rightarrow> jsval \<Rightarrow> string" where
  "redactedToolSummary env toolName args =
     (let serialized = nullish (te_stringify env (boundedRedaction env 0 args)) ''{}''
      in toolName @ '': '' @ (if length serialized \<le> 800 then serialized else take 799 serialized @ te_ellipsis env))"

section \<open>Facts\<close>

lemma set_insert_by [simp]: "set (insert_by le x xs) = insert x (set xs)"
  by (induction xs) auto

lemma set_sort_by [simp]: "set (sort_by le xs) = set xs"
  by (induction xs) (auto simp: sort_by_def)

lemma mset_free_distinct_insert_by:
  "distinct (map f (insert_by le x xs)) \<longleftrightarrow> f x \<notin> set (map f xs) \<and> distinct (map f xs)"
  by (induction xs) auto

lemma distinct_sort_by: "distinct (map f (sort_by le xs)) \<longleftrightarrow> distinct (map f xs)"
proof (induction xs)
  case (Cons x xs)
  then show ?case
    using set_sort_by [of le xs] by (simp add: sort_by_def mset_free_distinct_insert_by)
qed (simp add: sort_by_def)

text \<open>What \<open>localeCompare\<close> gives on strings that it does not identify: a linear order.\<close>

definition linear_on :: "('a \<Rightarrow> 'a \<Rightarrow> bool) \<Rightarrow> bool" where
  "linear_on le \<longleftrightarrow> (\<forall>x y. le x y \<or> le y x) \<and> (\<forall>x y. le x y \<longrightarrow> le y x \<longrightarrow> x = y)
     \<and> (\<forall>x y z. le x y \<longrightarrow> le y z \<longrightarrow> le x z)"

lemma sorted_insert_by:
  assumes "linear_on le"
  shows "sorted_wrt (\<lambda>a b. le (f a) (f b)) xs \<Longrightarrow>
     sorted_wrt (\<lambda>a b. le (f a) (f b)) (insert_by (\<lambda>a b. le (f a) (f b)) x xs)"
proof (induction xs)
  case (Cons y ys)
  with assms show ?case unfolding linear_on_def by simp metis
qed simp

lemma sorted_sort_by:
  "linear_on le \<Longrightarrow> sorted_wrt (\<lambda>a b. le (f a) (f b)) (sort_by (\<lambda>a b. le (f a) (f b)) xs)"
  by (induction xs) (simp_all add: sort_by_def sorted_insert_by)

text \<open>Two lists sorted by distinct keys are equal when they have the same elements.\<close>

lemma sorted_key_unique:
  assumes "linear_on le" "sorted_wrt (\<lambda>a b. le (f a) (f b)) xs" "sorted_wrt (\<lambda>a b. le (f a) (f b)) ys"
    "distinct (map f xs)" "distinct (map f ys)" "set xs = set ys"
  shows "xs = ys"
  using assms(2-)
proof (induction xs arbitrary: ys)
  case (Cons x xs)
  then obtain y zs where ys: "ys = y # zs" by (cases ys) auto
  have "x = y"
  proof (rule ccontr)
    assume "x \<noteq> y"
    then have "x \<in> set zs" "y \<in> set xs" using Cons.prems(5) ys by auto
    then have "le (f y) (f x)" "le (f x) (f y)" using Cons.prems(1,2) ys by auto
    then have "f x = f y" using assms(1) by (auto simp: linear_on_def)
    with \<open>y \<in> set xs\<close> Cons.prems(3) show False by (metis distinct.simps(2) image_eqI list.set_map list.simps(9))
  qed
  moreover have "set xs = set zs"
    using Cons.prems(3-5) \<open>x = y\<close> ys by (auto simp: image_iff)
  ultimately show ?case using Cons ys by simp
qed simp

text \<open>Two JSON values that differ at most in the order of object members.\<close>

inductive same_json :: "jsval \<Rightarrow> jsval \<Rightarrow> bool" where
  same_atom: "same_json v v"
| same_arr: "list_all2 same_json vs ws \<Longrightarrow> same_json (JArr vs) (JArr ws)"
| same_obj: "distinct (map fst fs) \<Longrightarrow> distinct (map fst gs) \<Longrightarrow> set (map fst fs) = set (map fst gs) \<Longrightarrow>
     (\<And>k v w. (k, v) \<in> set fs \<Longrightarrow> (k, w) \<in> set gs \<Longrightarrow> same_json v w) \<Longrightarrow> same_json (JObj fs) (JObj gs)"

lemma canonicalize_same:
  assumes "linear_on (te_localeLe env)"
  shows "same_json v w \<Longrightarrow> canonicalize env v = canonicalize env w"
proof (induction rule: same_json.induct)
  case (same_arr vs ws)
  then show ?case by (auto simp: list_all2_conv_all_nth intro!: nth_equalityI)
next
  case (same_obj fs gs)
  let ?c = "\<lambda>(k, v). (k, canonicalize env v)"
  have fst_c: "fst (?c p) = fst p" for p by (cases p) simp
  have keys: "map fst (map ?c hs) = map fst hs" for hs by (simp add: fst_c)
  have sub: "set (map ?c as) \<subseteq> set (map ?c bs)"
    if "set (map fst as) \<subseteq> set (map fst bs)"
      and "\<And>k v w. (k, v) \<in> set as \<Longrightarrow> (k, w) \<in> set bs \<Longrightarrow> canonicalize env v = canonicalize env w" for as bs
  proof
    fix p assume "p \<in> set (map ?c as)"
    then obtain k v where p: "(k, v) \<in> set as" "p = (k, canonicalize env v)" by auto
    then have "k \<in> set (map fst bs)" using that(1) by force
    then obtain w where "(k, w) \<in> set bs" by auto
    with p that(2) show "p \<in> set (map ?c bs)" by force
  qed
  have "set (map ?c fs) = set (map ?c gs)"
    using sub [of fs gs] sub [of gs fs] same_obj.hyps(3) same_obj.IH by (metis subset_antisym order_refl)
  then have "sort_by (\<lambda>a b. te_localeLe env (fst a) (fst b)) (map ?c fs) = sort_by (\<lambda>a b. te_localeLe env (fst a) (fst b)) (map ?c gs)"
    using same_obj.hyps(1,2)
    by (intro sorted_key_unique [OF assms, of fst] sorted_sort_by [OF assms])
      (simp_all only: distinct_sort_by keys set_sort_by)
  then show ?case by simp
qed simp

text \<open>The shape of a redacted value with \<open>n\<close> levels left.\<close>

fun redacted :: "text_env \<Rightarrow> nat \<Rightarrow> jsval \<Rightarrow> bool" where
  "redacted env n (JStr s) = (length s \<le> 240 \<or> s = te_omitted env)"
| "redacted env n (JArr vs) = (0 < n \<and> length vs \<le> 16 \<and> (\<forall>v \<in> set vs. redacted env (n - 1) v))"
| "redacted env n (JObj fs) =
     (0 < n \<and> length fs \<le> 16 \<and> (\<forall>f \<in> set fs. \<not> regex_test SECRET_KEY (fst f) \<and> redacted env (n - 1) (snd f)))"
| "redacted env n _ = True"

lemma boundedRedaction_redacted: "redacted env (4 - depth) (boundedRedaction env depth v)"
proof (induction env depth v rule: boundedRedaction.induct)
  case (1 env depth v)
  show ?case
  proof (cases "depth > 3")
    case False
    show ?thesis
    proof (cases v)
      case (JArr vs)
      with 1 False show ?thesis by (subst boundedRedaction.simps) auto
    next
      case (JObj fs)
      have "length (filter (\<lambda>(k, w). \<not> regex_test SECRET_KEY k) (take 16 fs)) \<le> 16"
        by (rule le_trans [OF length_filter_le]) simp
      with JObj 1 False show ?thesis by (subst boundedRedaction.simps) auto
    qed (subst boundedRedaction.simps; use False in simp)+
  qed (subst boundedRedaction.simps; simp)
qed

section \<open>Properties\<close>

definition demo_order_env :: text_env where
  "demo_order_env = \<lparr> te_sha256 = id, te_stringify = (\<lambda>v. case v of JObj fs \<Rightarrow> Some (concat (map fst fs)) | _ \<Rightarrow> None),
     te_localeLe = (\<lambda>a b. lexordp_eq (map of_char a :: nat list) (map of_char b)), te_hidden = ''[hidden]'', te_omitted = ''[omitted]'',
     te_ellipsis = ''~'' \<rparr>"

lemma demo_order_linear: "linear_on (te_localeLe demo_order_env)"
proof -
  have "map of_char a = (map of_char b :: nat list) \<Longrightarrow> a = b" for a b :: string
    by (rule map_injective [of "of_char :: char \<Rightarrow> nat"]) (auto simp: inj_def)
  then show ?thesis
    unfolding linear_on_def demo_order_env_def text_env.select_convs
    using lexordp_eq_linear lexordp_eq_trans lexordp_eq_antisym by blast
qed

text \<open>The argument hash binds the value and not its spelling: two argument values that differ only
  in the order of object members have the same hash, at every nesting depth.\<close>

theorem argsHmac_member_order:
  assumes "linear_on (te_localeLe env)" and "same_json v w"
  shows "canonicalArgsHmac env v = canonicalArgsHmac env w"
  using canonicalize_same [OF assms] by (simp add: canonicalArgsHmac_def)

theorem argsHmac_member_order_witness:
  "canonicalArgsHmac demo_order_env (JObj [(''b'', JNull), (''a'', JBool True)])
     = canonicalArgsHmac demo_order_env (JObj [(''a'', JBool True), (''b'', JNull)])"
  by (rule argsHmac_member_order [OF demo_order_linear], rule same_obj) (auto intro: same_atom)

text \<open>Every tool that is not on the list of known read-only tools needs an approval, whatever it is
  called: only the thirteen safe names have no risk class.\<close>

theorem only_safe_tools_skip_approval:
  "approvalRiskForTool toolName = None \<longleftrightarrow> toolName \<in> set SAFE_TOOLS"
  by (auto simp: approvalRiskForTool_def SAFE_TOOLS_def)

text \<open>What is shown to the user and stored is redacted and bounded: in the redacted value no object
  member has a sensitive name, strings have at most 240 code units (the omission marker apart), arrays
  and objects at most 16 members, nesting stops below depth four; and the summary is at most 800 code
  units longer than its prefix.\<close>

theorem redaction_bounded:
  assumes "length (te_ellipsis env) \<le> 1"
  shows "redacted env 4 (boundedRedaction env 0 args)
     \<and> length (redactedToolSummary env toolName args) \<le> length (toolName @ '': '') + 800"
proof -
  have "redacted env (4 - 0) (boundedRedaction env 0 args)" by (rule boundedRedaction_redacted)
  with assms show ?thesis by (simp add: redactedToolSummary_def Let_def)
qed

theorem redaction_bounded_witness:
  "redacted demo_order_env 4 (boundedRedaction demo_order_env 0 (JObj [(''apiKey'', JStr ''k''), (''path'', JStr ''x'')]))"
  using redaction_bounded [of demo_order_env "JObj [(''apiKey'', JStr ''k''), (''path'', JStr ''x'')]" "''write''"]
  by (simp add: demo_order_env_def)

end
