(* ===== verification/Approval_Service.thy ===== *)
theory Approval_Service
  imports Approval_Policy Scope_Encoding
begin

text \<open>
  \<open>ApprovalService\<close> of \<open>approval-service.ts\<close>.  An \<open>execute\<close> call is a process: it begins, may wait for
  a decision, resumes when its waiter is settled, claims the record, runs the operation and finishes.
  Its await points are the steps of the transition system \<open>svc_step\<close>; every other method runs to
  completion in one step.  \<open>sv_log\<close> records the claims under which operations were started.
\<close>

definition POLICY_APPROVER :: string where "POLICY_APPROVER = ''policy:full-access''"

datatype permission_mode = ReadOnly | WorkspaceWrite | FullAccess

record request =
  rq_tenant :: string
  rq_member :: string
  rq_conversation :: string
  rq_participant :: "string option"
  rq_session :: string
  rq_snapshot :: string
  rq_permissionRevision :: string
  rq_toolCall :: string
  rq_toolCallEntry :: "string option"
  rq_promptReceipt :: "string option"
  rq_toolName :: string
  rq_args :: jsval
  rq_risk :: approval_risk
  rq_mode :: "permission_mode option"
  rq_expiresAt :: "ms option"

datatype service_error =
    PermissionDenied | BindingChanged | AlreadyConsumed | NotRecoverable | ApprovalTimedOut | ApprovalCancelled
  | ApprovalDenied | BatchRejected | StoreError approval_error | OperationFailed

datatype phase =
    WaitPending
  | WaitResolved
  | WaitRejected service_error
  | Running approval
  | Done "service_error option"

record call =
  cl_request :: request
  cl_current :: approval
  cl_phase :: phase

record claim_log =
  lg_record :: approval
  lg_request :: request
  lg_at :: ms

record svc =
  sv_rows :: approvals
  sv_waiters :: "(string, nat list) omap"
  sv_calls :: "nat \<Rightarrow> call option"
  sv_next :: nat
  sv_required :: "string list"
  sv_log :: "claim_log list"

definition svc_init :: svc where
  "svc_init = \<lparr> sv_rows = [], sv_waiters = [], sv_calls = Map.empty, sv_next = 0, sv_required = [], sv_log = [] \<rparr>"

text \<open>The constructor's clamp of \<open>ttlMs\<close>.\<close>

definition approval_ttl :: "int option \<Rightarrow> int" where
  "approval_ttl ttlMs = min (max (nullish ttlMs (10 * 60000)) 1000) (10 * 60000)"

definition sandbox_forbids :: "request \<Rightarrow> bool" where
  "sandbox_forbids rq \<longleftrightarrow> (rq_risk rq = RWrite \<or> rq_risk rq = REdit) \<and> rq_mode rq = Some ReadOnly"

definition autoApprove :: "request \<Rightarrow> bool" where
  "autoApprove rq \<longleftrightarrow> rq_mode rq = Some FullAccess \<and> rq_risk rq \<in> {RBash, RWrite, REdit}"

definition approval_id :: "text_env \<Rightarrow> request \<Rightarrow> string \<Rightarrow> string" where
  "approval_id env rq hash =
     take 32 (te_sha256 env (encodeScope [rq_tenant rq, rq_member rq, rq_conversation rq, rq_session rq,
        rq_toolCall rq, hash, rq_snapshot rq]))"

definition approval_expiry :: "int option \<Rightarrow> request \<Rightarrow> ms \<Rightarrow> ms" where
  "approval_expiry ttlMs rq now =
     (let maxExpiry = now + approval_ttl ttlMs
      in case rq_expiresAt rq of None \<Rightarrow> maxExpiry | Some e \<Rightarrow> min maxExpiry e)"

definition new_record :: "text_env \<Rightarrow> int option \<Rightarrow> request \<Rightarrow> string \<Rightarrow> ms \<Rightarrow> approval" where
  "new_record env ttlMs rq hash now =
     \<lparr> ap_id = approval_id env rq hash,
       ap_batch = encodeScope [rq_session rq, nullish (rq_promptReceipt rq) (rq_toolCall rq)],
       ap_tenant = rq_tenant rq, ap_member = rq_member rq, ap_conversation = rq_conversation rq,
       ap_participant = rq_participant rq, ap_session = rq_session rq, ap_snapshot = rq_snapshot rq,
       ap_permissionRevision = rq_permissionRevision rq, ap_toolCall = rq_toolCall rq,
       ap_toolCallEntry = rq_toolCallEntry rq, ap_promptReceipt = rq_promptReceipt rq, ap_toolName = rq_toolName rq,
       ap_argsHmac = hash, ap_summary = redactedToolSummary env (rq_toolName rq) (rq_args rq), ap_risk = rq_risk rq,
       ap_status = (if autoApprove rq then Approved else Pending),
       ap_approvedBy = (if autoApprove rq then Some POLICY_APPROVER else None),
       ap_approvedAt = (if autoApprove rq then Some now else None),
       ap_expiresAt = approval_expiry ttlMs rq now, ap_revision = 0, ap_consumed = False,
       ap_idempotencyKey = encodeScope [rq_conversation rq, rq_session rq, rq_toolCall rq],
       ap_createdAt = now, ap_updatedAt = now \<rparr>"

text \<open>\<open>create\<close>: the record, and the notification when a human decision is needed.\<close>

definition svc_create ::
  "text_env \<Rightarrow> int option \<Rightarrow> request \<Rightarrow> string \<Rightarrow> ms \<Rightarrow> svc \<Rightarrow> (service_error + approval) \<times> svc" where
  "svc_create env ttlMs rq hash now s =
     (if approval_expiry ttlMs rq now \<le> now then (Inl ApprovalTimedOut, s)
      else (case createApprovalRecord (new_record env ttlMs rq hash now) (sv_rows s) of
              (Inl e, rows) \<Rightarrow> (Inl (StoreError e), s\<lparr>sv_rows := rows\<rparr>)
            | (Inr r, rows) \<Rightarrow>
                (Inr r, s\<lparr>sv_rows := rows,
                          sv_required := (if autoApprove rq then sv_required s else sv_required s @ [ap_id r])\<rparr>)))"

section \<open>Waiters\<close>

text \<open>Settling a waiter: its promise is settled once, and its cleanup takes it out of the map.\<close>

definition settle_phase :: "service_error option \<Rightarrow> phase \<Rightarrow> phase" where
  "settle_phase e ph =
     (case ph of
        WaitPending \<Rightarrow> (case e of None \<Rightarrow> WaitResolved | Some err \<Rightarrow> WaitRejected err)
      | _ \<Rightarrow> ph)"

definition settle_calls ::
  "nat list \<Rightarrow> service_error option \<Rightarrow> (nat \<Rightarrow> call option) \<Rightarrow> nat \<Rightarrow> call option" where
  "settle_calls ns e calls n =
     (if n \<in> set ns then map_option (\<lambda>c. c\<lparr>cl_phase := settle_phase e (cl_phase c)\<rparr>) (calls n) else calls n)"

definition wake :: "string \<Rightarrow> service_error option \<Rightarrow> svc \<Rightarrow> svc" where
  "wake i e s =
     (case omap_get (sv_waiters s) i of
        None \<Rightarrow> s
      | Some ns \<Rightarrow> s\<lparr>sv_calls := settle_calls ns e (sv_calls s), sv_waiters := omap_delete i (sv_waiters s)\<rparr>)"

text \<open>The loops over \<open>this.waiters\<close> of \<open>cancelConversation\<close>, \<open>cancelOwner\<close> and \<open>cancelBatch\<close>: reject
  the waiters of every record that satisfies the loop's test.\<close>

definition reject_matching :: "(approval \<Rightarrow> bool) \<Rightarrow> service_error \<Rightarrow> svc \<Rightarrow> svc" where
  "reject_matching p e s =
     fold (\<lambda>i s. case getApprovalRecord i (sv_rows s) of
                   None \<Rightarrow> s
                 | Some r \<Rightarrow> if p r then wake i (Some e) s else s)
       (omap_keys (sv_waiters s)) s"

definition add_waiter :: "string \<Rightarrow> nat \<Rightarrow> svc \<Rightarrow> svc" where
  "add_waiter i n s =
     s\<lparr>sv_waiters := omap_set i (nullish (omap_get (sv_waiters s) i) [] @ [n]) (sv_waiters s)\<rparr>"

section \<open>Waiting and claiming\<close>

datatype wait_result = Claimed approval | WaitFailed service_error | MustWait approval

text \<open>One round of \<open>waitAndClaim\<close>: the attempt to claim, then the checks in front of the await.\<close>

definition claim_attempt :: "request \<Rightarrow> ms \<Rightarrow> approval \<Rightarrow> approvals \<Rightarrow> (wait_result + approval) \<times> approvals" where
  "claim_attempt rq now cur rows =
     (case claimApproval (ap_id cur) (rq_tenant rq) (rq_member rq) (rq_conversation rq) (ap_revision cur)
             (rq_snapshot rq) (rq_permissionRevision rq) now rows of
        (claim, rows') \<Rightarrow>
          let fallback = nullish (getApprovalRecord (ap_id cur) rows') cur;
              rest = (if ap_status fallback = Executing \<or> ap_consumed fallback then Inl (WaitFailed AlreadyConsumed)
                      else Inr fallback)
          in (case claim of
                Some q \<Rightarrow> if ap_status q = Executing \<and> ap_consumed q then Inl (Claimed q) else rest
              | None \<Rightarrow> rest, rows'))"

definition wait_check :: "ms \<Rightarrow> approval \<Rightarrow> approvals \<Rightarrow> wait_result \<times> approvals" where
  "wait_check now cur rows =
     (if ap_status cur \<in> {Rejected, Invalidated, Succeeded, Executing} then (WaitFailed AlreadyConsumed, rows)
      else if ap_status cur = Expired \<or> ap_expiresAt cur \<le> now
      then (WaitFailed ApprovalTimedOut, expireApproval (ap_id cur) now rows)
      else if ap_status cur = Uncertain then (WaitFailed NotRecoverable, rows)
      else (MustWait cur, rows))"

definition waitAndClaim_round :: "request \<Rightarrow> ms \<Rightarrow> approval \<Rightarrow> approvals \<Rightarrow> wait_result \<times> approvals" where
  "waitAndClaim_round rq now cur rows =
     (if ap_status cur = Approved
      then (case claim_attempt rq now cur rows of
              (Inl r, rows') \<Rightarrow> (r, rows')
            | (Inr cur', rows') \<Rightarrow> wait_check now cur' rows')
      else wait_check now cur rows)"

text \<open>\<open>signal.aborted\<close> in front of the wait, and the abort listener: cancel the record's conversation.\<close>

definition abort_rows :: "string \<Rightarrow> ms \<Rightarrow> approvals \<Rightarrow> approvals" where
  "abort_rows i now rows =
     invalidateApprovalsForConversation
       (case getApprovalRecord i rows of None \<Rightarrow> [] | Some r \<Rightarrow> ap_conversation r) None None now rows"

text \<open>A round of call \<open>n\<close> and what follows it up to the next await.\<close>

definition advance :: "nat \<Rightarrow> request \<Rightarrow> bool \<Rightarrow> ms \<Rightarrow> approval \<Rightarrow> svc \<Rightarrow> svc" where
  "advance n rq aborted now cur s =
     (let r = waitAndClaim_round rq now cur (sv_rows s);
          put = (\<lambda>cur ph s. s\<lparr>sv_calls := (sv_calls s)(n \<mapsto> \<lparr> cl_request = rq, cl_current = cur, cl_phase = ph \<rparr>)\<rparr>);
          s1 = s\<lparr>sv_rows := snd r\<rparr>
      in case fst r of
           Claimed q \<Rightarrow> put cur (Running q) (s1\<lparr>sv_log := sv_log s1 @ [\<lparr> lg_record = q, lg_request = rq, lg_at = now \<rparr>]\<rparr>)
         | WaitFailed e \<Rightarrow> put cur (Done (Some e)) s1
         | MustWait cur' \<Rightarrow>
             if aborted then put cur' (Done (Some ApprovalCancelled)) (s1\<lparr>sv_rows := abort_rows (ap_id cur') now (sv_rows s1)\<rparr>)
             else put cur' WaitPending (add_waiter (ap_id cur') n s1))"

section \<open>The methods\<close>

definition existing_approval :: "text_env \<Rightarrow> request \<Rightarrow> approvals \<Rightarrow> approval option" where
  "existing_approval env rq rows =
     findApprovalForTool (rq_tenant rq) (rq_member rq) (rq_conversation rq) (rq_session rq) (rq_participant rq)
       (rq_toolCall rq) (canonicalArgsHmac env (rq_args rq)) (rq_snapshot rq) rows"

text \<open>\<open>execute\<close> up to its first await; the call's number is \<open>sv_next\<close>.  The result is the error it
  fails with at once, if any.\<close>

definition execute_begin ::
  "text_env \<Rightarrow> int option \<Rightarrow> request \<Rightarrow> bool \<Rightarrow> ms \<Rightarrow> svc \<Rightarrow> service_error option \<times> svc" where
  "execute_begin env ttlMs rq aborted now s =
     (if sandbox_forbids rq then (Some PermissionDenied, s)
      else (case existing_approval env rq (sv_rows s) of
        Some r \<Rightarrow>
          if ap_permissionRevision r \<noteq> rq_permissionRevision rq \<or> ap_toolName r \<noteq> rq_toolName rq
          then (Some BindingChanged, s)
          else (None, advance (sv_next s) rq aborted now r (s\<lparr>sv_next := sv_next s + 1\<rparr>))
      | None \<Rightarrow>
          (case svc_create env ttlMs rq (canonicalArgsHmac env (rq_args rq)) now s of
             (Inl e, s1) \<Rightarrow> (Some e, s1)
           | (Inr r, s1) \<Rightarrow> (None, advance (sv_next s1) rq aborted now r (s1\<lparr>sv_next := sv_next s1 + 1\<rparr>)))))"

text \<open>The continuation of a call behind \<open>await this.waitForDecision(...)\<close>.\<close>

definition execute_resume :: "nat \<Rightarrow> bool \<Rightarrow> ms \<Rightarrow> svc \<Rightarrow> svc" where
  "execute_resume n aborted now s =
     (case sv_calls s n of
        None \<Rightarrow> s
      | Some c \<Rightarrow>
          (case cl_phase c of
             WaitResolved \<Rightarrow>
               advance n (cl_request c) aborted now
                 (nullish (getApprovalRecord (ap_id (cl_current c)) (sv_rows s)) (cl_current c)) s
           | WaitRejected e \<Rightarrow> s\<lparr>sv_calls := (sv_calls s)(n \<mapsto> c\<lparr>cl_phase := Done (Some e)\<rparr>)\<rparr>
           | _ \<Rightarrow> s))"

text \<open>The settlement of the operation.\<close>

definition execute_finish :: "nat \<Rightarrow> bool \<Rightarrow> ms \<Rightarrow> svc \<Rightarrow> svc" where
  "execute_finish n ok now s =
     (case sv_calls s n of
        None \<Rightarrow> s
      | Some c \<Rightarrow>
          (case cl_phase c of
             Running q \<Rightarrow>
               s\<lparr>sv_rows := finishApproval (ap_id q) (if ok then Succeeded else Uncertain) now (sv_rows s),
                 sv_calls := (sv_calls s)(n \<mapsto> c\<lparr>cl_phase := Done (if ok then None else Some OperationFailed)\<rparr>)\<rparr>
           | _ \<Rightarrow> s))"

definition expireDue :: "string \<Rightarrow> string \<Rightarrow> string \<Rightarrow> ms \<Rightarrow> svc \<Rightarrow> svc" where
  "expireDue conversation tenant member now s =
     fold (\<lambda>r s. if status_open (ap_status r) \<and> ap_expiresAt r \<le> now
                 then wake (ap_id r) (Some ApprovalTimedOut) (s\<lparr>sv_rows := expireApproval (ap_id r) now (sv_rows s)\<rparr>) else s)
       (listOwnedApprovalRecords conversation tenant member False (sv_rows s)) s"

definition list_approvals :: "string \<Rightarrow> string \<Rightarrow> string \<Rightarrow> bool \<Rightarrow> ms \<Rightarrow> svc \<Rightarrow> approvals \<times> svc" where
  "list_approvals conversation tenant member includeTerminal now s =
     (let s1 = expireDue conversation tenant member now s
      in (listOwnedApprovalRecords conversation tenant member includeTerminal (sv_rows s1), s1))"

definition cancelBatch :: "string \<Rightarrow> string \<Rightarrow> svc \<Rightarrow> svc" where
  "cancelBatch batch exceptId s =
     reject_matching (\<lambda>r. ap_id r \<noteq> exceptId \<and> ap_batch r = batch) BatchRejected s"

definition decide :: "decision \<Rightarrow> ms \<Rightarrow> svc \<Rightarrow> (approval_error + approval) \<times> svc" where
  "decide d now s =
     (let s1 = expireDue (de_conversation d) (de_tenant d) (de_member d) now s
      in case decideApproval d now (sv_rows s1) of
           (Inl e, rows) \<Rightarrow> (Inl e, s1\<lparr>sv_rows := rows\<rparr>)
         | (Inr r, rows) \<Rightarrow>
             (let s2 = s1\<lparr>sv_rows := rows\<rparr>;
                  s3 = (if ap_status r = Rejected then cancelBatch (ap_batch r) (ap_id r) s2 else s2)
              in (Inr r, wake (ap_id r) (if ap_status r = Approved then None else Some ApprovalDenied) s3)))"

definition cancelConversation :: "string \<Rightarrow> string option \<Rightarrow> string option \<Rightarrow> ms \<Rightarrow> svc \<Rightarrow> svc" where
  "cancelConversation conversation tenant member now s =
     reject_matching (\<lambda>r. ap_conversation r = conversation \<and> opt_eq tenant (ap_tenant r) \<and> opt_eq member (ap_member r))
       ApprovalCancelled
       (s\<lparr>sv_rows := invalidateApprovalsForConversation conversation tenant member now (sv_rows s)\<rparr>)"

definition cancelOwner :: "string \<Rightarrow> string \<Rightarrow> ms \<Rightarrow> svc \<Rightarrow> svc" where
  "cancelOwner tenant member now s =
     reject_matching (\<lambda>r. ap_tenant r = tenant \<and> ap_member r = member) ApprovalCancelled
       (s\<lparr>sv_rows := invalidateApprovalsForOwner tenant member now (sv_rows s)\<rparr>)"

definition clear_waiters :: "svc \<Rightarrow> svc" where
  "clear_waiters s =
     s\<lparr>sv_calls := settle_calls (concat (map snd (sv_waiters s))) (Some ApprovalCancelled) (sv_calls s), sv_waiters := []\<rparr>"

text \<open>The timer and the abort listener of a waiting call.\<close>

definition timer_fires :: "string \<Rightarrow> ms \<Rightarrow> svc \<Rightarrow> svc" where
  "timer_fires i now s =
     wake i (Some ApprovalTimedOut) (s\<lparr>sv_rows := expireApproval i now (sv_rows s)\<rparr>)"

definition abort_fires :: "string \<Rightarrow> ms \<Rightarrow> svc \<Rightarrow> svc" where
  "abort_fires i now s = wake i (Some ApprovalCancelled) (s\<lparr>sv_rows := abort_rows i now (sv_rows s)\<rparr>)"

text \<open>A restart of the process: in-memory calls and waiters are gone, the store's constructor runs.\<close>

definition svc_restart :: "ms \<Rightarrow> svc \<Rightarrow> svc" where
  "svc_restart now s = s\<lparr>sv_rows := restartApprovals now (sv_rows s), sv_waiters := [], sv_calls := Map.empty\<rparr>"

inductive svc_step :: "text_env \<Rightarrow> svc \<Rightarrow> svc \<Rightarrow> bool" for env where
  step_execute: "svc_step env s (snd (execute_begin env ttlMs rq aborted now s))"
| step_resume: "svc_step env s (execute_resume n aborted now s)"
| step_finish: "svc_step env s (execute_finish n ok now s)"
| step_list: "svc_step env s (snd (list_approvals conversation tenant member terminal now s))"
| step_decide: "de_approvedBy d \<noteq> POLICY_APPROVER \<Longrightarrow> svc_step env s (snd (decide d now s))"
| step_cancelConversation: "svc_step env s (cancelConversation conversation tenant' member' now s)"
| step_cancelOwner: "svc_step env s (cancelOwner tenant member now s)"
| step_clear_waiters: "svc_step env s (clear_waiters s)"
| step_timer: "svc_step env s (timer_fires i now s)"
| step_abort: "svc_step env s (abort_fires i now s)"
| step_restart: "svc_step env s (svc_restart now s)"

section \<open>Rows\<close>

definition local_risk :: "approval_risk \<Rightarrow> bool" where
  "local_risk k \<longleftrightarrow> k \<in> {RBash, RWrite, REdit}"

definition row_ok :: "approval \<Rightarrow> bool" where
  "row_ok r \<longleftrightarrow> (ap_status r \<in> {Executing, Succeeded, Uncertain} \<longrightarrow> ap_consumed r)
     \<and> (status_open (ap_status r) \<longrightarrow> \<not> ap_consumed r)
     \<and> (ap_status r = Approved \<longrightarrow> ap_approvedBy r \<noteq> None)
     \<and> (ap_approvedBy r = Some POLICY_APPROVER \<longrightarrow> local_risk (ap_risk r))
     \<and> ap_expiresAt r \<le> ap_createdAt r + 600000"

definition row_le :: "approval \<Rightarrow> approval \<Rightarrow> bool" where
  "row_le r r' \<longleftrightarrow> same_binding r r' \<and> (ap_consumed r \<longrightarrow> ap_consumed r')"

definition rows_ok :: "approvals \<Rightarrow> bool" where
  "rows_ok rows \<longleftrightarrow> approvals_ok rows \<and> (\<forall>r \<in> set rows. row_ok r)"

definition rows_le :: "approvals \<Rightarrow> approvals \<Rightarrow> bool" where
  "rows_le rows rows' \<longleftrightarrow> (\<forall>r \<in> set rows. \<exists>r' \<in> set rows'. row_le r r')"

definition good_step :: "approvals \<Rightarrow> approvals \<Rightarrow> bool" where
  "good_step rows rows' \<longleftrightarrow> (rows_ok rows \<longrightarrow> rows_ok rows') \<and> rows_le rows rows'"

lemma row_le_refl [simp]: "row_le r r"
  by (simp add: row_le_def)

lemma rows_le_trans: "rows_le a b \<Longrightarrow> rows_le b c \<Longrightarrow> rows_le a c"
  unfolding rows_le_def row_le_def by (meson same_binding_trans)

lemma good_step_refl [simp]: "good_step rows rows"
  unfolding good_step_def rows_le_def using row_le_refl by blast

lemma good_step_trans: "good_step a b \<Longrightarrow> good_step b c \<Longrightarrow> good_step a c"
  using rows_le_trans by (auto simp: good_step_def)

lemma good_step_update:
  assumes "\<And>r. p r \<Longrightarrow> row_ok r \<Longrightarrow> row_ok (f r)" "\<And>r. p r \<Longrightarrow> row_le r (f r)" "map ap_id (update_rows p f rows) = map ap_id rows"
  shows "good_step rows (update_rows p f rows)"
proof -
  have "rows_le rows (update_rows p f rows)"
  proof (unfold rows_le_def, intro ballI)
    fix r assume "r \<in> set rows"
    then have "(if p r then f r else r) \<in> set (update_rows p f rows)" by (simp add: set_update_rows)
    moreover have "row_le r (if p r then f r else r)" using assms(2) by simp
    ultimately show "\<exists>r' \<in> set (update_rows p f rows). row_le r r'" by blast
  qed
  moreover have "rows_ok rows \<Longrightarrow> rows_ok (update_rows p f rows)"
    using assms(1,3) by (auto simp: rows_ok_def approvals_ok_def set_update_rows)
  ultimately show ?thesis by (simp add: good_step_def)
qed

lemmas row_defs = row_ok_def row_le_def status_defs row_actions same_binding_def

lemma expire_good: "good_step rows (expireApproval i now rows)"
  unfolding expireApproval_def by (rule good_step_update) (auto simp: row_defs approval_keys)

lemma finish_good: "st \<in> {Succeeded, Uncertain} \<Longrightarrow> good_step rows (finishApproval i st now rows)"
  unfolding finishApproval_def by (rule good_step_update) (auto simp: row_defs approval_keys)

lemma invalidate_conversation_good: "good_step rows (invalidateApprovalsForConversation c t m now rows)"
  unfolding invalidateApprovalsForConversation_def by (rule good_step_update) (auto simp: row_defs approval_keys)

lemma invalidate_owner_good: "good_step rows (invalidateApprovalsForOwner t m now rows)"
  unfolding invalidateApprovalsForOwner_def by (rule good_step_update) (auto simp: row_defs approval_keys)

lemma restart_good: "good_step rows (restartApprovals now rows)"
  unfolding restartApprovals_def by (rule good_step_update) (auto simp: row_defs approval_keys)

lemma claim_good: "good_step rows (snd (claimApproval i t m c rv snap perm now rows))"
proof -
  have "snd (claimApproval i t m c rv snap perm now rows) =
      update_rows (claimable i t m c rv snap perm now) (mark_claimed now) rows"
    by (simp add: claimApproval_def Let_def)
  then show ?thesis
    using good_step_update [of "claimable i t m c rv snap perm now" "mark_claimed now" rows]
    by (simp add: row_defs claimable_def approval_keys)
qed

lemma decide_cases:
  "snd (decideApproval d now rows) = rows
   \<or> snd (decideApproval d now rows) = update_rows (\<lambda>q. ap_id q = de_id d) (move_status Expired now) rows
   \<or> (\<exists>batch. snd (decideApproval d now rows) = apply_decision d now batch rows)"
  by (simp add: decideApproval_def split: option.splits) blast

lemma decide_good:
  assumes "de_approvedBy d \<noteq> POLICY_APPROVER"
  shows "good_step rows (snd (decideApproval d now rows))"
proof -
  have 1: "good_step rows (update_rows (\<lambda>q. ap_id q = de_id d \<and> ap_status q = Pending)
      (mark_decided b (de_approvedBy d) (de_key d) now) rows)" for rows b
    using assms by (intro good_step_update) (auto simp: row_defs approval_keys)
  have 2: "good_step rows (update_rows p (move_status Invalidated now) rows)" for p rows
    by (rule good_step_update) (auto simp: row_defs approval_keys)
  have 3: "good_step rows (update_rows p (move_status Expired now) rows)" for p
    by (rule good_step_update) (auto simp: row_defs approval_keys)
  have 4: "good_step rows (apply_decision d now batch rows)" for batch
    using good_step_trans [OF 1 2] 1 by (simp add: apply_decision_def Let_def)
  show ?thesis
    using decide_cases [of d now rows] 3 4 by (elim disjE exE) simp_all
qed

section \<open>Invariant\<close>

text \<open>A record is bound to a request: same owner, conversation, session, call, arguments, tool and
  permission revision.\<close>

definition bound :: "text_env \<Rightarrow> request \<Rightarrow> approval \<Rightarrow> bool" where
  "bound env rq r \<longleftrightarrow> owned_by (rq_tenant rq) (rq_member rq) (rq_conversation rq) r \<and> ap_session r = rq_session rq
     \<and> ap_participant r = rq_participant rq \<and> ap_toolCall r = rq_toolCall rq \<and> ap_snapshot r = rq_snapshot rq
     \<and> ap_permissionRevision r = rq_permissionRevision rq \<and> ap_toolName r = rq_toolName rq
     \<and> ap_argsHmac r = canonicalArgsHmac env (rq_args rq)"

definition log_entry_ok :: "text_env \<Rightarrow> claim_log \<Rightarrow> bool" where
  "log_entry_ok env l \<longleftrightarrow> bound env (lg_request l) (lg_record l) \<and> \<not> sandbox_forbids (lg_request l)
     \<and> lg_at l < ap_expiresAt (lg_record l) \<and> ap_expiresAt (lg_record l) \<le> ap_createdAt (lg_record l) + 600000
     \<and> ap_approvedBy (lg_record l) \<noteq> None
     \<and> (ap_approvedBy (lg_record l) = Some POLICY_APPROVER \<longrightarrow> local_risk (ap_risk (lg_record l)))"

definition call_ok :: "text_env \<Rightarrow> approvals \<Rightarrow> request \<Rightarrow> approval \<Rightarrow> bool" where
  "call_ok env rows rq cur \<longleftrightarrow> bound env rq cur \<and> \<not> sandbox_forbids rq \<and> (\<exists>r \<in> set rows. same_binding cur r)"

definition log_ids :: "svc \<Rightarrow> string list" where
  "log_ids s = map (\<lambda>l. ap_id (lg_record l)) (sv_log s)"

definition svc_inv :: "text_env \<Rightarrow> svc \<Rightarrow> bool" where
  "svc_inv env s \<longleftrightarrow> rows_ok (sv_rows s) \<and> distinct (log_ids s) \<and> (\<forall>l \<in> set (sv_log s). log_entry_ok env l)
     \<and> (\<forall>i \<in> set (log_ids s). \<exists>r \<in> set (sv_rows s). ap_id r = i \<and> ap_consumed r)
     \<and> (\<forall>n c. sv_calls s n = Some c \<longrightarrow> call_ok env (sv_rows s) (cl_request c) (cl_current c))"

lemma same_binding_bound: "same_binding a b \<Longrightarrow> bound env rq b \<longleftrightarrow> bound env rq a"
  by (auto simp: same_binding_def bound_def owned_by_def)

lemma call_ok_step: "call_ok env rows rq cur \<Longrightarrow> rows_le rows rows' \<Longrightarrow> call_ok env rows' rq cur"
  unfolding call_ok_def rows_le_def row_le_def by (meson same_binding_trans)

lemma consumed_step:
  "\<exists>r \<in> set rows. ap_id r = i \<and> ap_consumed r \<Longrightarrow> rows_le rows rows' \<Longrightarrow> \<exists>r \<in> set rows'. ap_id r = i \<and> ap_consumed r"
  unfolding rows_le_def row_le_def same_binding_def by metis

lemma svc_inv_rows:
  assumes "svc_inv env s" "good_step (sv_rows s) rows'"
  shows "svc_inv env (s\<lparr>sv_rows := rows'\<rparr>)"
  using assms call_ok_step [of env "sv_rows s" _ _ rows'] consumed_step [of "sv_rows s" _ rows']
  by (auto simp: svc_inv_def good_step_def log_ids_def)

text \<open>Steps that change only the phases of calls.\<close>

definition phases_only :: "svc \<Rightarrow> svc \<Rightarrow> bool" where
  "phases_only s t \<longleftrightarrow> sv_rows t = sv_rows s \<and> sv_log t = sv_log s
     \<and> (\<forall>n c'. sv_calls t n = Some c' \<longrightarrow> (\<exists>c. sv_calls s n = Some c \<and> cl_request c' = cl_request c \<and> cl_current c' = cl_current c))"

lemma phases_only_refl [simp]: "phases_only s s"
  by (simp add: phases_only_def)

lemma phases_only_trans: "phases_only s t \<Longrightarrow> phases_only t u \<Longrightarrow> phases_only s u"
  unfolding phases_only_def by metis

lemma svc_inv_phases: "svc_inv env s \<Longrightarrow> phases_only s t \<Longrightarrow> svc_inv env t"
  unfolding svc_inv_def phases_only_def log_ids_def by metis

lemma wake_phases [simp]: "phases_only s (wake i e s)"
  by (auto simp: wake_def phases_only_def settle_calls_def split: option.splits if_splits)

lemma fold_phases: "(\<And>x s. phases_only s (f x s)) \<Longrightarrow> phases_only s (fold f xs s)"
  by (rule fold_preserves [where P = "phases_only s"]) (auto intro: phases_only_trans)

lemma reject_matching_phases [simp]: "phases_only s (reject_matching p e s)"
  unfolding reject_matching_def by (rule fold_phases) (simp split: option.splits)

lemma add_waiter_phases [simp]: "phases_only s (add_waiter i n s)"
  by (simp add: add_waiter_def phases_only_def)

lemma clear_waiters_phases [simp]: "phases_only s (clear_waiters s)"
  by (auto simp: clear_waiters_def phases_only_def settle_calls_def split: if_splits)

lemma expireDue_inv: "svc_inv env s \<Longrightarrow> svc_inv env (expireDue c t m now s)"
  unfolding expireDue_def
  by (rule fold_preserves [where P = "svc_inv env"])
    (auto intro: svc_inv_phases [OF svc_inv_rows [OF _ expire_good] wake_phases])

lemma decide_inv:
  assumes "svc_inv env s" "de_approvedBy d \<noteq> POLICY_APPROVER"
  shows "svc_inv env (snd (decide d now s))"
proof -
  let ?s1 = "expireDue (de_conversation d) (de_tenant d) (de_member d) now s"
  have "svc_inv env (?s1\<lparr>sv_rows := snd (decideApproval d now (sv_rows ?s1))\<rparr>)"
    by (intro svc_inv_rows expireDue_inv decide_good assms)
  then show ?thesis
    by (auto simp: decide_def cancelBatch_def Let_def split: prod.splits sum.splits
        intro: svc_inv_phases [OF svc_inv_phases [OF _ reject_matching_phases] wake_phases] svc_inv_phases [OF _ wake_phases])
qed

lemma round_claimed:
  assumes "rows_ok rows" "waitAndClaim_round rq now cur rows = (Claimed q, rows')"
  obtains r where "r \<in> set rows" "ap_id r = ap_id cur" "\<not> ap_consumed r" "ap_status r = Approved" "now < ap_expiresAt r"
    "q = mark_claimed now r" "q \<in> set rows'"
proof -
  let ?p = "claimable (ap_id cur) (rq_tenant rq) (rq_member rq) (rq_conversation rq) (ap_revision cur) (rq_snapshot rq)
    (rq_permissionRevision rq) now"
  from assms(2) have "claimApproval (ap_id cur) (rq_tenant rq) (rq_member rq) (rq_conversation rq) (ap_revision cur)
      (rq_snapshot rq) (rq_permissionRevision rq) now rows = (Some q, rows')"
    by (auto simp: waitAndClaim_round_def wait_check_def claim_attempt_def Let_def split: if_splits prod.splits option.splits sum.splits)
  then obtain r where r: "r \<in> set rows" "?p r" "q = mark_claimed now r" "rows' = update_rows ?p (mark_claimed now) rows"
    using assms(1) by (elim claimApproval_Some) (auto simp: rows_ok_def)
  then have "q \<in> set rows'" by (auto simp: set_update_rows)
  with that r show ?thesis by (auto simp: claimable_def)
qed

lemma round_good: "good_step rows (snd (waitAndClaim_round rq now cur rows))"
proof -
  have w: "good_step rows (snd (wait_check now c rows))" for c rows
    by (simp add: wait_check_def expire_good)
  have "snd (claim_attempt rq now cur rows) = snd (claimApproval (ap_id cur) (rq_tenant rq) (rq_member rq) (rq_conversation rq)
      (ap_revision cur) (rq_snapshot rq) (rq_permissionRevision rq) now rows)"
    by (simp add: claim_attempt_def Let_def split: prod.splits)
  then have "good_step rows (snd (claim_attempt rq now cur rows))" by (simp add: claim_good)
  then show ?thesis
    using w good_step_trans by (auto simp: waitAndClaim_round_def split: prod.splits sum.splits)
qed

lemma round_waits:
  assumes "rows_ok rows" "waitAndClaim_round rq now cur rows = (MustWait cur', rows')"
  shows "cur' = cur \<or> (cur' \<in> set rows' \<and> ap_id cur' = ap_id cur)"
proof -
  have "rows_ok rows'" using round_good [of rows rq now cur] assms by (simp add: good_step_def)
  with assms(2) show ?thesis
    by (auto simp: waitAndClaim_round_def wait_check_def claim_attempt_def Let_def nullish_def rows_ok_def approvals_get_iff
        split: if_splits prod.splits option.splits sum.splits)
qed

lemma rows_unique: "rows_ok rows \<Longrightarrow> r \<in> set rows \<Longrightarrow> q \<in> set rows \<Longrightarrow> ap_id r = ap_id q \<Longrightarrow> r = q"
  by (auto simp: rows_ok_def intro: approvals_unique)

lemma svc_inv_put:
  "svc_inv env s \<Longrightarrow> call_ok env (sv_rows s) rq cur \<Longrightarrow>
   svc_inv env (s\<lparr>sv_calls := (sv_calls s)(n \<mapsto> \<lparr> cl_request = rq, cl_current = cur, cl_phase = ph \<rparr>)\<rparr>)"
  by (auto simp: svc_inv_def log_ids_def)

lemma svc_inv_put_rows:
  "svc_inv env (s\<lparr>sv_rows := rows\<rparr>) \<Longrightarrow> call_ok env rows rq cur \<Longrightarrow>
   svc_inv env (s\<lparr>sv_rows := rows, sv_calls := (sv_calls s)(n \<mapsto> \<lparr> cl_request = rq, cl_current = cur, cl_phase = ph \<rparr>)\<rparr>)"
  using svc_inv_put [of env "s\<lparr>sv_rows := rows\<rparr>"] by simp

lemma call_ok_in: "r \<in> set rows \<Longrightarrow> bound env rq r \<Longrightarrow> \<not> sandbox_forbids rq \<Longrightarrow> call_ok env rows rq r"
  unfolding call_ok_def using same_binding_refl by blast

lemma svc_inv_log:
  "svc_inv env s \<Longrightarrow> log_entry_ok env l \<Longrightarrow> ap_id (lg_record l) \<notin> set (log_ids s) \<Longrightarrow>
   \<exists>r \<in> set (sv_rows s). ap_id r = ap_id (lg_record l) \<and> ap_consumed r \<Longrightarrow>
   svc_inv env (s\<lparr>sv_log := sv_log s @ [l]\<rparr>)"
  by (auto simp: svc_inv_def log_ids_def)

text \<open>A record that can still be claimed has no entry in the log.\<close>

lemma unconsumed_unlogged:
  assumes "svc_inv env s" "r \<in> set (sv_rows s)" "\<not> ap_consumed r"
  shows "ap_id r \<notin> set (log_ids s)"
proof
  assume "ap_id r \<in> set (log_ids s)"
  then obtain q where "q \<in> set (sv_rows s)" "ap_id q = ap_id r" "ap_consumed q"
    using assms(1) by (auto simp: svc_inv_def)
  with rows_unique [of "sv_rows s" r q] assms show False by (simp add: svc_inv_def)
qed

lemma advance_claims_inv:
  assumes inv: "svc_inv env s" and call: "call_ok env (sv_rows s) rq cur"
    and claim: "waitAndClaim_round rq now cur (sv_rows s) = (Claimed q, rows')"
  shows "svc_inv env (s\<lparr>sv_rows := rows', sv_log := sv_log s @ [\<lparr> lg_record = q, lg_request = rq, lg_at = now \<rparr>]\<rparr>)"
proof -
  have ok: "rows_ok (sv_rows s)" using inv by (simp add: svc_inv_def)
  obtain r where r: "r \<in> set (sv_rows s)" "ap_id r = ap_id cur" "\<not> ap_consumed r" "ap_status r = Approved"
    "now < ap_expiresAt r" "q = mark_claimed now r" "q \<in> set rows'"
    using round_claimed [OF ok claim] by blast
  obtain b where "b \<in> set (sv_rows s)" "same_binding cur b" using call by (auto simp: call_ok_def)
  then have "same_binding cur r" using rows_unique [OF ok r(1), of b] r(2) by (auto simp: same_binding_def)
  then have "bound env rq q" using call r(6) same_binding_bound same_binding_actions(4) by (metis call_ok_def)
  moreover have "row_ok r" using ok r(1) by (simp add: rows_ok_def)
  ultimately have "log_entry_ok env \<lparr> lg_record = q, lg_request = rq, lg_at = now \<rparr>"
    using r call by (auto simp: log_entry_ok_def row_ok_def call_ok_def mark_claimed_def)
  moreover have "ap_id q \<notin> set (log_ids s)"
    using unconsumed_unlogged [OF inv r(1,3)] r(6) by (simp add: mark_claimed_def)
  moreover have "good_step (sv_rows s) rows'" using round_good claim by (metis snd_conv)
  moreover have "ap_consumed q" using r(6) by (simp add: mark_claimed_def)
  ultimately show ?thesis
    using svc_inv_log [OF svc_inv_rows [OF inv], of rows' "\<lparr> lg_record = q, lg_request = rq, lg_at = now \<rparr>"] r(7)
    by (auto simp: log_ids_def)
qed

lemma advance_inv:
  assumes inv: "svc_inv env s" and call: "call_ok env (sv_rows s) rq cur"
  shows "svc_inv env (advance n rq aborted now cur s)"
proof -
  obtain w rows' where w: "waitAndClaim_round rq now cur (sv_rows s) = (w, rows')" by fastforce
  have good: "good_step (sv_rows s) rows'" using round_good w by (metis snd_conv)
  have inv': "svc_inv env (s\<lparr>sv_rows := rows'\<rparr>)" using inv good by (rule svc_inv_rows)
  have call': "call_ok env rows' rq cur" using call good by (auto simp: good_step_def intro: call_ok_step)
  show ?thesis
  proof (cases w)
    case (Claimed q)
    with w have claim: "waitAndClaim_round rq now cur (sv_rows s) = (Claimed q, rows')" by simp
    from svc_inv_put [OF advance_claims_inv [OF inv call claim]] claim call' show ?thesis
      by (simp add: advance_def Let_def)
  next
    case (WaitFailed e)
    with w inv' call' show ?thesis by (simp add: advance_def svc_inv_put_rows Let_def)
  next
    case (MustWait cur')
    have "call_ok env rows' rq cur'"
    proof (cases "cur' = cur")
      case False
      then have "cur' \<in> set rows'" "ap_id cur' = ap_id cur"
        using round_waits [of "sv_rows s" rq now cur cur' rows'] w MustWait inv by (simp_all add: svc_inv_def)
      moreover obtain b where b: "b \<in> set rows'" "same_binding cur b" using call' by (auto simp: call_ok_def)
      ultimately have "cur' = b" using inv' rows_unique [of rows' cur' b] by (auto simp: svc_inv_def same_binding_def)
      with b call' show ?thesis by (intro call_ok_in) (auto simp: call_ok_def same_binding_bound)
    qed (use call' in simp)
    moreover have abort: "good_step rows' (abort_rows (ap_id cur') now rows')"
      by (simp add: abort_rows_def invalidate_conversation_good)
    moreover have "svc_inv env (s\<lparr>sv_rows := abort_rows (ap_id cur') now rows'\<rparr>)"
      using svc_inv_rows [OF inv', of "abort_rows (ap_id cur') now rows'"] abort by simp
    ultimately show ?thesis
      using svc_inv_put [OF svc_inv_phases [OF inv' add_waiter_phases], of "ap_id cur'" n rq cur'] w MustWait
      by (auto simp: advance_def add_waiter_def Let_def good_step_def intro!: svc_inv_put_rows intro: call_ok_step)
  qed
qed

lemma existing_bound:
  assumes "existing_approval env rq rows = Some r"
  shows "r \<in> set rows \<and> (ap_permissionRevision r = rq_permissionRevision rq \<longrightarrow> ap_toolName r = rq_toolName rq \<longrightarrow> bound env rq r)"
  using findApprovalForTool_Some [OF assms [unfolded existing_approval_def]] by (auto simp: bound_def)

lemma new_record_ok: "row_ok (new_record env ttlMs rq hash now)"
  by (auto simp: row_ok_def new_record_def autoApprove_def local_risk_def status_open_def approval_expiry_def
      approval_ttl_def Let_def split: option.splits)

lemma svc_create_inv:
  assumes "svc_inv env s" "svc_create env ttlMs rq (canonicalArgsHmac env (rq_args rq)) now s = (res, s1)"
  shows "svc_inv env s1 \<and> (\<forall>r. res = Inr r \<longrightarrow> r \<in> set (sv_rows s1) \<and> bound env rq r)"
proof -
  let ?r = "new_record env ttlMs rq (canonicalArgsHmac env (rq_args rq)) now"
  have "good_step (sv_rows s) (sv_rows s @ [?r])" if "\<forall>q \<in> set (sv_rows s). ap_id q \<noteq> ap_id ?r"
  proof -
    have "rows_le (sv_rows s) (sv_rows s @ [?r])" unfolding rows_le_def using row_le_refl by fastforce
    moreover have "rows_ok (sv_rows s) \<Longrightarrow> rows_ok (sv_rows s @ [?r])"
      using that new_record_ok [of env ttlMs rq "canonicalArgsHmac env (rq_args rq)" now]
      by (auto simp: rows_ok_def approvals_ok_def)
    ultimately show ?thesis by (simp add: good_step_def)
  qed
  then have create: "svc_inv env (s\<lparr>sv_rows := sv_rows s @ [?r]\<rparr>)" if "\<forall>q \<in> set (sv_rows s). ap_id q \<noteq> ap_id ?r"
    using svc_inv_rows [OF assms(1)] that by blast
  have required: "svc_inv env t \<Longrightarrow> svc_inv env (t\<lparr>sv_required := x\<rparr>)" for t x
    by (simp add: svc_inv_def log_ids_def)
  have "bound env rq ?r" by (simp add: bound_def new_record_def owned_by_def)
  with assms create show ?thesis
    by (auto simp: svc_create_def createApprovalRecord_def intro!: required split: if_splits)
qed

lemma svc_inv_next: "svc_inv env s \<Longrightarrow> svc_inv env (s\<lparr>sv_next := k\<rparr>)"
  by (simp add: svc_inv_def log_ids_def)

lemma execute_begin_inv: "svc_inv env s \<Longrightarrow> svc_inv env (snd (execute_begin env ttlMs rq aborted now s))"
  by (auto simp: execute_begin_def dest: existing_bound svc_create_inv split: option.splits prod.splits sum.splits
      intro!: advance_inv svc_inv_next call_ok_in)

lemma execute_resume_inv:
  assumes inv: "svc_inv env s"
  shows "svc_inv env (execute_resume n aborted now s)"
proof (cases "sv_calls s n")
  case (Some c)
  let ?cur = "nullish (getApprovalRecord (ap_id (cl_current c)) (sv_rows s)) (cl_current c)"
  have ok: "call_ok env (sv_rows s) (cl_request c) (cl_current c)" and rows: "rows_ok (sv_rows s)"
    using inv Some by (auto simp: svc_inv_def)
  then obtain b where b: "b \<in> set (sv_rows s)" "same_binding (cl_current c) b" by (auto simp: call_ok_def)
  then have "getApprovalRecord (ap_id (cl_current c)) (sv_rows s) = Some b"
    using rows by (simp add: rows_ok_def approvals_get_iff same_binding_def)
  moreover have "call_ok env (sv_rows s) (cl_request c) b"
    using ok b by (intro call_ok_in) (simp_all add: call_ok_def same_binding_bound)
  ultimately have "call_ok env (sv_rows s) (cl_request c) ?cur" by simp
  moreover have "svc_inv env (s\<lparr>sv_calls := (sv_calls s)(n \<mapsto> c\<lparr>cl_phase := ph\<rparr>)\<rparr>)" for ph
    using svc_inv_put [OF inv ok, of n ph] by (cases c) simp
  ultimately show ?thesis
    using Some inv advance_inv [OF inv] by (auto simp: execute_resume_def split: phase.splits)
qed (use inv in \<open>simp add: execute_resume_def\<close>)

lemma execute_finish_inv:
  assumes inv: "svc_inv env s"
  shows "svc_inv env (execute_finish n ok now s)"
proof (cases "sv_calls s n")
  case (Some c)
  define st where "st = (if ok then Succeeded else Uncertain)"
  let ?rows = "\<lambda>q::approval. finishApproval (ap_id q) st now (sv_rows s)"
  have good: "good_step (sv_rows s) (?rows q)" for q by (rule finish_good) (simp add: st_def)
  have "call_ok env (sv_rows s) (cl_request c) (cl_current c)" using inv Some by (simp add: svc_inv_def)
  then have "call_ok env (?rows q) (cl_request c) (cl_current c)" for q
    using good by (auto simp: good_step_def intro: call_ok_step)
  from svc_inv_put_rows [OF svc_inv_rows [OF inv good] this]
  have "svc_inv env (s\<lparr>sv_rows := ?rows q, sv_calls := (sv_calls s)(n \<mapsto> c\<lparr>cl_phase := ph\<rparr>)\<rparr>)" for q ph
    by (cases c) simp
  with Some inv show ?thesis by (cases ok) (simp_all add: execute_finish_def st_def split: phase.splits)
qed (use inv in \<open>simp add: execute_finish_def\<close>)

lemma svc_restart_inv: "svc_inv env s \<Longrightarrow> svc_inv env (svc_restart now s)"
  using svc_inv_rows [OF _ restart_good, of env s now] by (simp add: svc_restart_def svc_inv_def log_ids_def)

lemma svc_step_inv: "svc_step env s t \<Longrightarrow> svc_inv env s \<Longrightarrow> svc_inv env t"
proof (induction rule: svc_step.induct)
  case (step_abort s i now)
  then show ?case
    unfolding abort_fires_def abort_rows_def
    by (intro svc_inv_phases [OF svc_inv_rows wake_phases] invalidate_conversation_good)
qed (auto simp: execute_begin_inv execute_resume_inv execute_finish_inv decide_inv svc_restart_inv list_approvals_def
    expireDue_inv Let_def cancelConversation_def cancelOwner_def timer_fires_def
    intro: svc_inv_phases [OF svc_inv_rows reject_matching_phases] svc_inv_phases [OF svc_inv_rows wake_phases]
      svc_inv_phases [OF _ clear_waiters_phases] invalidate_conversation_good invalidate_owner_good expire_good)

interpretation approvals: invariant_system "\<lambda>s. s = svc_init" "svc_step env" "svc_inv env" for env
proof unfold_locales
  show "s = svc_init \<Longrightarrow> svc_inv env s" for s
    by (simp add: svc_inv_def svc_init_def rows_ok_def approvals_ok_def log_ids_def)
  show "svc_inv env s \<Longrightarrow> svc_step env s t \<Longrightarrow> svc_inv env t" for s t
    by (rule svc_step_inv)
qed

lemma wake_rows [simp]: "sv_rows (wake i e s) = sv_rows s"
  using wake_phases [of s i e] by (simp add: phases_only_def)

lemma reject_matching_rows [simp]: "sv_rows (reject_matching p e s) = sv_rows s"
  using reject_matching_phases [of s p e] by (simp add: phases_only_def)

lemma cancelBatch_rows [simp]: "sv_rows (cancelBatch b i s) = sv_rows s"
  by (simp add: cancelBatch_def)

lemma wake_waiters: "omap_get (sv_waiters (wake i e s)) j = (if j = i then None else omap_get (sv_waiters s) j)"
  by (auto simp: wake_def split: option.splits)

lemma getApproval_id: "getApprovalRecord i rows = Some r \<Longrightarrow> ap_id r = i"
  by (auto simp: getApprovalRecord_def dest: find_Some_in)

lemma reject_matching_waiters:
  "omap_get (sv_waiters (reject_matching p e s)) j =
     (case getApprovalRecord j (sv_rows s) of
        Some r \<Rightarrow> if p r then None else omap_get (sv_waiters s) j
      | None \<Rightarrow> omap_get (sv_waiters s) j)"
proof -
  let ?f = "\<lambda>i s. case getApprovalRecord i (sv_rows s) of None \<Rightarrow> s | Some r \<Rightarrow> if p r then wake i (Some e) s else s"
  have f: "sv_rows (?f i s) = sv_rows s" for i s by (simp split: option.splits)
  have "omap_get (sv_waiters (fold ?f ks s)) j =
      (case getApprovalRecord j (sv_rows s) of
         Some r \<Rightarrow> if p r \<and> j \<in> set ks then None else omap_get (sv_waiters s) j
       | None \<Rightarrow> omap_get (sv_waiters s) j)" for ks s
  proof (induction ks arbitrary: s)
    case (Cons i ks)
    show ?case
      by (simp only: fold.simps comp_apply Cons.IH f) (auto simp: wake_waiters split: option.splits)
  qed (simp split: option.splits)
  then show ?thesis
    by (auto simp: reject_matching_def omap_get_None_iff split: option.splits)
qed

lemma expireDue_keeps:
  assumes "r \<in> set (sv_rows s)" "now < ap_expiresAt r"
  shows "r \<in> set (sv_rows (expireDue c t m now s))"
  unfolding expireDue_def
proof (rule fold_preserves [where P = "\<lambda>s. r \<in> set (sv_rows s)"])
  fix x :: approval and s' :: svc
  assume "r \<in> set (sv_rows s')"
  with assms(2) show "r \<in> set (sv_rows (if status_open (ap_status x) \<and> ap_expiresAt x \<le> now
      then wake (ap_id x) (Some ApprovalTimedOut) (s'\<lparr>sv_rows := expireApproval (ap_id x) now (sv_rows s')\<rparr>) else s'))"
    by (force simp: expireApproval_def set_update_rows)
qed (rule assms(1))

lemma getOwned_unique:
  assumes "approvals_ok rows" "r \<in> set rows" "ap_id r = i" "owned_by t m c r"
  shows "getOwnedApprovalRecord i t m c rows = Some r"
proof -
  have "\<exists>q. getOwnedApprovalRecord i t m c rows = Some q"
    using assms(2-4) by (auto simp: getOwnedApprovalRecord_def find_None_iff simp flip: not_None_eq)
  then obtain q where q: "getOwnedApprovalRecord i t m c rows = Some q" by blast
  with getOwned_Some [OF q] approvals_unique [OF assms(1,2), of q] assms(3) show ?thesis by simp
qed

lemma apply_decision_self:
  assumes "approvals_ok rows" "r \<in> set rows" "ap_id r = de_id d" "ap_status r = Pending"
  shows "getApprovalRecord (de_id d) (apply_decision d now batch rows) =
    Some (mark_decided (de_approve d) (de_approvedBy d) (de_key d) now r)"
proof -
  have "find (\<lambda>r. ap_id r = de_id d) rows = Some r"
    using assms(1-3) approvals_get_iff [of rows "de_id d" r] by (simp add: getApprovalRecord_def)
  with assms(3,4) show ?thesis
    by (simp add: getApprovalRecord_def apply_decision_def approval_finds mark_decided_def Let_def)
qed

lemma apply_decision_deny_batch:
  assumes "approvals_ok rows" "r \<in> set rows" "ap_id r = de_id d" "ap_status r = Pending" "\<not> de_approve d"
  shows "\<forall>q \<in> set (apply_decision d now batch rows). ap_batch q = batch \<longrightarrow> \<not> status_open (ap_status q)"
proof (intro ballI impI)
  fix q assume q: "q \<in> set (apply_decision d now batch rows)" "ap_batch q = batch"
  let ?rows1 = "update_rows (\<lambda>q. ap_id q = de_id d \<and> ap_status q = Pending)
      (mark_decided False (de_approvedBy d) (de_key d) now) rows"
  have decided: "\<not> status_open (ap_status p)" if p: "p \<in> set ?rows1" "ap_id p = de_id d" for p
  proof -
    obtain p0 where p0: "p0 \<in> set rows"
      "p = (if ap_id p0 = de_id d \<and> ap_status p0 = Pending then mark_decided False (de_approvedBy d) (de_key d) now p0 else p0)"
      using p(1) by (auto simp: set_update_rows)
    then have "ap_id p0 = de_id d" using p(2) by (simp add: mark_decided_def split: if_splits)
    then have "p0 = r" using approvals_unique [OF assms(1) p0(1) assms(2)] assms(3) by simp
    with p0 assms(3,4) show ?thesis by (simp add: mark_decided_def status_open_def)
  qed
  from q(1) assms(5) obtain p where p: "p \<in> set ?rows1"
    "q = (if ap_batch p = batch \<and> ap_id p \<noteq> de_id d \<and> status_open (ap_status p) then move_status Invalidated now p else p)"
    by (auto simp: apply_decision_def set_update_rows [of _ "move_status Invalidated now"] Let_def)
  with decided [of p] q(2) show "\<not> status_open (ap_status q)"
    by (auto simp: move_status_def status_open_def split: if_splits)
qed

section \<open>Properties\<close>

text \<open>(C1) An approval authorizes one execution: over every history of executions, decisions,
  cancellations, timeouts and process restarts, no approval record starts two operations.\<close>

theorem tool_executes_at_most_once:
  assumes "reach (\<lambda>s. s = svc_init) (svc_step env) s"
  shows "distinct (map (\<lambda>l. ap_id (lg_record l)) (sv_log s))"
  using approvals.reach_inv [OF assms] by (simp add: svc_inv_def log_ids_def)

text \<open>(C2) Every started operation was authorized for exactly this call: its record was approved, is
  unexpired and at most ten minutes old, is bound to the request's owner, conversation, session, tool
  call, tool, argument hash, snapshot and permission revision; the sandbox permission did not forbid
  it; and it was approved by policy only for a local tool.\<close>

theorem executions_are_authorized:
  assumes "reach (\<lambda>s. s = svc_init) (svc_step env) s" and "l \<in> set (sv_log s)"
  shows "bound env (lg_request l) (lg_record l) \<and> \<not> sandbox_forbids (lg_request l)
    \<and> lg_at l < ap_expiresAt (lg_record l) \<and> ap_expiresAt (lg_record l) \<le> ap_createdAt (lg_record l) + 600000
    \<and> (\<exists>approver. ap_approvedBy (lg_record l) = Some approver
        \<and> (approver = POLICY_APPROVER \<longrightarrow> local_risk (ap_risk (lg_record l))))"
  using approvals.reach_inv [OF assms(1)] assms(2) by (auto simp: svc_inv_def log_entry_ok_def)

definition demo_request :: request where
  "demo_request = \<lparr> rq_tenant = ''t'', rq_member = ''m'', rq_conversation = ''c'', rq_participant = None, rq_session = ''s'',
     rq_snapshot = ''v1'', rq_permissionRevision = ''p1'', rq_toolCall = ''call'', rq_toolCallEntry = None, rq_promptReceipt = None,
     rq_toolName = ''bash'', rq_args = JNull, rq_risk = RBash, rq_mode = Some FullAccess, rq_expiresAt = None \<rparr>"

definition demo_executed :: svc where
  "demo_executed = snd (execute_begin demo_order_env None demo_request False 1000 svc_init)"

lemma demo_executed_log:
  "map (\<lambda>l. (lg_at l, ap_approvedBy (lg_record l))) (sv_log demo_executed) = [(1000, Some POLICY_APPROVER)]"
  by (simp add: demo_executed_def execute_begin_def demo_request_def svc_init_def sandbox_forbids_def existing_approval_def
      findApprovalForTool_def by_created_desc_def svc_create_def approval_expiry_def approval_ttl_def createApprovalRecord_def
      advance_def waitAndClaim_round_def new_record_def autoApprove_def claim_attempt_def claimApproval_def claimable_def
      owned_by_def changed_def getOwnedApprovalRecord_def mark_claimed_def Let_def)

lemma demo_executed_reach: "reach (\<lambda>s. s = svc_init) (svc_step demo_order_env) demo_executed"
  unfolding demo_executed_def
  by (rule reach_step [where s = svc_init], rule reach_init, rule refl, rule step_execute)

theorem executions_are_authorized_witness:
  "\<exists>l \<in> set (sv_log demo_executed). lg_at l = 1000 \<and> bound demo_order_env (lg_request l) (lg_record l)
     \<and> lg_at l < ap_expiresAt (lg_record l)"
proof -
  obtain l where l: "sv_log demo_executed = [l]" "lg_at l = 1000"
    using demo_executed_log by (auto simp: map_eq_Cons_conv)
  then have "l \<in> set (sv_log demo_executed)" by simp
  from executions_are_authorized [OF demo_executed_reach this] l show ?thesis by auto
qed

theorem tool_executes_at_most_once_witness:
  "distinct (map (\<lambda>l. ap_id (lg_record l)) (sv_log demo_executed)) \<and> sv_log demo_executed \<noteq> []"
  using tool_executes_at_most_once [OF demo_executed_reach] demo_executed_log by auto

text \<open>A denial stops its whole batch: when a pending, unexpired record of the caller is denied, the
  record becomes rejected, no record of the batch can be claimed any more, and no execution waits on
  a record of the batch.\<close>

theorem deny_cancels_batch:
  assumes "reach (\<lambda>s. s = svc_init) (svc_step env) s"
    and "r \<in> set (sv_rows s)" and "ap_id r = de_id d" and "owned_by (de_tenant d) (de_member d) (de_conversation d) r"
    and "ap_status r = Pending" and "now < ap_expiresAt r" and "\<not> de_approve d"
    and "opt_eq (de_expectedRevision d) (ap_revision r)"
    and "decide d now s = (res, s')"
  shows "(\<exists>r'. res = Inr r' \<and> ap_status r' = Rejected \<and> same_binding r r')
    \<and> (\<forall>q \<in> set (sv_rows s'). ap_batch q = ap_batch r \<longrightarrow> \<not> status_open (ap_status q))
    \<and> (\<forall>i q. getApprovalRecord i (sv_rows s') = Some q \<longrightarrow> ap_batch q = ap_batch r \<longrightarrow> omap_get (sv_waiters s') i = None)"
proof -
  let ?s1 = "expireDue (de_conversation d) (de_tenant d) (de_member d) now s"
  let ?rows = "apply_decision d now (ap_batch r) (sv_rows ?s1)"
  let ?r = "mark_decided False (de_approvedBy d) (de_key d) now r"
  have inv: "svc_inv env ?s1" using approvals.reach_inv [OF assms(1)] by (rule expireDue_inv)
  then have ok: "approvals_ok (sv_rows ?s1)" by (simp add: svc_inv_def rows_ok_def)
  have r: "r \<in> set (sv_rows ?s1)" using assms(2,6) by (rule expireDue_keeps)
  have get: "getOwnedApprovalRecord (de_id d) (de_tenant d) (de_member d) (de_conversation d) (sv_rows ?s1) = Some r"
    using ok r assms(3,4) by (intro getOwned_unique) auto
  have rejected: "getApprovalRecord (de_id d) ?rows = Some ?r"
    using apply_decision_self [OF ok r assms(3,5)] assms(7) by simp
  have "decideApproval d now (sv_rows ?s1) = (Inr ?r, ?rows)"
    using get rejected assms(5-8)
    by (auto simp: decideApproval_def replayed_decision_def status_open_def opt_eq_def)
  then have s': "s' = wake (de_id d) (Some ApprovalDenied) (cancelBatch (ap_batch r) (de_id d) (?s1\<lparr>sv_rows := ?rows\<rparr>))"
    and res: "res = Inr ?r"
    using assms(3,9) by (auto simp: decide_def Let_def mark_decided_def)
  then have rows': "sv_rows s' = ?rows" by simp
  moreover have "\<forall>q \<in> set ?rows. ap_batch q = ap_batch r \<longrightarrow> \<not> status_open (ap_status q)"
    using ok r assms(3,5,7) by (intro apply_decision_deny_batch) auto
  moreover have "omap_get (sv_waiters s') i = None"
    if "getApprovalRecord i ?rows = Some q" "ap_batch q = ap_batch r" for i q
    using that rejected by (auto simp: s' cancelBatch_def wake_waiters reject_matching_waiters dest: getApproval_id)
  ultimately show ?thesis using res by (auto simp: mark_decided_def same_binding_def)
qed

definition demo_pending_request :: request where
  "demo_pending_request = demo_request\<lparr>rq_mode := Some WorkspaceWrite\<rparr>"

definition demo_pending :: approval where
  "demo_pending = new_record demo_order_env None demo_pending_request (canonicalArgsHmac demo_order_env JNull) 1000"

definition demo_waiting :: svc where
  "demo_waiting = snd (execute_begin demo_order_env None demo_pending_request False 1000 svc_init)"

definition demo_denial :: decision where
  "demo_denial = \<lparr> de_id = ap_id demo_pending, de_tenant = ''t'', de_member = ''m'', de_conversation = ''c'',
     de_approve = False, de_expectedRevision = Some 0, de_approvedBy = ''m'', de_key = ''k'' \<rparr>"

lemma demo_pending_fields:
  "ap_status demo_pending = Pending" "ap_expiresAt demo_pending = 601000" "ap_revision demo_pending = 0"
  "owned_by ''t'' ''m'' ''c'' demo_pending"
  by (simp_all add: demo_pending_def new_record_def demo_pending_request_def demo_request_def autoApprove_def
      approval_expiry_def approval_ttl_def owned_by_def Let_def)

lemma demo_waiting_state: "sv_rows demo_waiting = [demo_pending]" "omap_get (sv_waiters demo_waiting) (ap_id demo_pending) = Some [0]"
proof -
  have rq: "\<not> sandbox_forbids demo_pending_request" "rq_args demo_pending_request = JNull"
    "approval_expiry None demo_pending_request 1000 = 601000"
    by (simp_all add: sandbox_forbids_def demo_pending_request_def demo_request_def approval_expiry_def approval_ttl_def Let_def)
  have "waitAndClaim_round demo_pending_request 1000 demo_pending [demo_pending] = (MustWait demo_pending, [demo_pending])"
    by (simp add: waitAndClaim_round_def wait_check_def demo_pending_fields)
  then show "sv_rows demo_waiting = [demo_pending]" "omap_get (sv_waiters demo_waiting) (ap_id demo_pending) = Some [0]"
    by (simp_all add: demo_waiting_def execute_begin_def rq existing_approval_def findApprovalForTool_def by_created_desc_def
        svc_create_def createApprovalRecord_def svc_init_def advance_def add_waiter_def omap_get_def demo_pending_def [symmetric]
        Let_def)
qed

theorem deny_cancels_batch_witness:
  "\<exists>res s'. decide demo_denial 2000 demo_waiting = (res, s') \<and> (\<exists>r'. res = Inr r' \<and> ap_status r' = Rejected)
     \<and> filter (\<lambda>q. ap_batch q = ap_batch demo_pending \<and> status_open (ap_status q)) (sv_rows s') = []"
proof -
  obtain res s' where d: "decide demo_denial 2000 demo_waiting = (res, s')" by fastforce
  have "reach (\<lambda>s. s = svc_init) (svc_step demo_order_env) demo_waiting"
    unfolding demo_waiting_def by (rule reach_step [where s = svc_init], rule reach_init, rule refl, rule step_execute)
  from deny_cancels_batch [OF this, of demo_pending demo_denial 2000 res s'] d show ?thesis
    by (auto simp: demo_waiting_state demo_pending_fields demo_denial_def opt_eq_def filter_empty_conv)
qed

text \<open>Decisions are idempotent: repeating a decision that succeeded, with the same key and at any
  later time before the record expires, succeeds again and changes no record.\<close>

theorem decision_replay:
  assumes "approvals_ok rows" and "decideApproval d now rows = (Inr r, rows1)" and "now' < ap_expiresAt r"
  shows "decideApproval d now' rows1 = (Inr r, rows1)"
proof -
  let ?own = "getOwnedApprovalRecord (de_id d) (de_tenant d) (de_member d) (de_conversation d)"
  from assms(2) obtain r0 where r0: "?own rows = Some r0" by (auto simp: decideApproval_def split: option.splits)
  have split: "(rows1 = rows \<and> r = r0 \<and> (replayed_decision d r0 \<or> opt_eq (de_expectedRevision d) (ap_revision r0)
         \<and> (ap_status r0 = Approved \<and> de_approve d \<or> ap_status r0 = Rejected \<and> \<not> de_approve d)))
      \<or> (ap_status r0 = Pending \<and> rows1 = apply_decision d now (ap_batch r0) rows \<and> getApprovalRecord (de_id d) rows1 = Some r)"
    using assms(2) r0 by (simp add: decideApproval_def opt_eq_def split: if_splits option.splits)
  show ?thesis
  proof (cases "ap_status r0 = Pending \<and> rows1 = apply_decision d now (ap_batch r0) rows \<and> getApprovalRecord (de_id d) rows1 = Some r")
    case False
    with split have "rows1 = rows" "r = r0" by blast+
    with split False assms(3) r0 show ?thesis
      by (auto simp: decideApproval_def opt_eq_def)
  next
    case True
    have r0_in: "r0 \<in> set rows" "ap_id r0 = de_id d" "owned_by (de_tenant d) (de_member d) (de_conversation d) r0"
      using getOwned_Some [OF r0] by auto
    let ?r = "mark_decided (de_approve d) (de_approvedBy d) (de_key d) now r0"
    have get: "getApprovalRecord (de_id d) rows1 = Some ?r"
      using True assms(1) r0_in(1,2) by (auto simp: apply_decision_self)
    with True have "?r = r" by (metis option.inject)
    moreover have ok1: "approvals_ok rows1"
      using True assms(1) by (simp add: approvals_ok_def apply_decision_def approval_keys Let_def)
    moreover have "?own rows1 = Some ?r"
      using ok1 get r0_in(2,3) approvals_get_iff [OF ok1] by (intro getOwned_unique) (auto simp: owned_by_def mark_decided_def)
    moreover have "replayed_decision d ?r" by (simp add: replayed_decision_def mark_decided_def)
    ultimately show ?thesis
      using assms(3) by (simp add: decideApproval_def)
  qed
qed

theorem decision_replay_witness:
  "\<exists>r. decideApproval demo_denial 3000 [r] = (Inr r, [r]) \<and> ap_status r = Rejected"
proof -
  have "decideApproval demo_denial 2000 [demo_pending]
      = (Inr (mark_decided False ''m'' ''k'' 2000 demo_pending), [mark_decided False ''m'' ''k'' 2000 demo_pending])"
    using demo_pending_fields
    by (simp add: decideApproval_def getOwnedApprovalRecord_def demo_denial_def replayed_decision_def status_open_def
        apply_decision_def getApprovalRecord_def mark_decided_def Let_def)
  from decision_replay [OF _ this, of 3000] show ?thesis
    by (auto simp: approvals_ok_def mark_decided_def demo_pending_fields)
qed

end
