(* ===== verification/Schedule.thy ===== *)
theory Schedule
  imports Js_Regex
begin

text \<open>
  \<open>schedule.ts\<close> and \<open>schedule-calendar.ts\<close>: validation of a schedule, the occurrences it has, and the
  next one.  The calendar library and the platform's date functions are the arguments of
  \<open>temporal_env\<close>: the epoch day of an instant in a zone, the instant of a local date and time
  (\<open>None\<close> in a gap; the earlier instant of a fold), the day of week and of month of an epoch day,
  the zone check of \<open>Intl.DateTimeFormat\<close> and \<open>Date.parse\<close>.
\<close>

record temporal_env =
  tp_dateOf :: "string \<Rightarrow> ms \<Rightarrow> int"
  tp_instant :: "string \<Rightarrow> int \<Rightarrow> string \<Rightarrow> ms option"
  tp_dayOfWeek :: "int \<Rightarrow> int"
  tp_day :: "int \<Rightarrow> int"
  tp_zoneOk :: "string \<Rightarrow> bool"
  tp_parse :: "string \<Rightarrow> ms option"

text \<open>\<open>ModeOther\<close> is a mode that only reads as one of the three after \<open>String(...)\<close>, such as \<open>["weekly"]\<close>.\<close>

datatype calendar_mode = ModeDaily | ModeWeekly | ModeMonthly | ModeOther

record calendar_rule =
  cr_mode :: calendar_mode
  cr_timezone :: string
  cr_time :: string
  cr_weekday :: "int option"
  cr_dayOfMonth :: "int option"

record schedule =
  sc_id :: string
  sc_revision :: int
  sc_enabled :: bool
  sc_at :: "ms option"
  sc_interval :: "int option"
  sc_oneShot :: bool
  sc_calendar :: "calendar_rule option"
  sc_prompt :: string

datatype schedule_error =
    CalendarNotObject | CalendarFields | CalendarZone | CalendarTime | CalendarWeekday | CalendarMonthDay
  | ScheduleNotObject | ScheduleField string | ScheduleId | ScheduleRevision | ScheduleEnabled | ScheduleOneShot
  | CalendarCombined | ScheduleAt | ScheduleInterval | OneShotNeedsAt | ScheduleEmpty | RepeatNeedsInterval
  | OneShotInterval | ScheduleOverlap | ScheduleMisfire | SchedulePrompt

section \<open>Calendar rules\<close>

text \<open>\<open>String(value)\<close> where it can be one of the three mode names: strings, and arrays of one such value.\<close>

fun mode_text :: "jsval \<Rightarrow> string option" where
  "mode_text (JStr s) = Some s"
| "mode_text (JArr [v]) = mode_text v"
| "mode_text _ = None"

definition calendar_keys :: "jsval \<Rightarrow> string list" where
  "calendar_keys raw = [''mode'', ''timezone'', ''time'']
     @ (if js_field raw ''mode'' = JStr ''weekly'' then [''weekday''] else [])
     @ (if js_field raw ''mode'' = JStr ''monthly'' then [''day_of_month'', ''invalid_date_policy''] else [])"

definition OFFSET_ZONE :: regex where
  "OFFSET_ZONE = Seq Bos (Cls (char_in ''+-''))"

definition CLOCK_TIME :: regex where
  "CLOCK_TIME = Seq Bos (seqs
     [Alt (Seq (Cls (char_in ''01'')) (Cls is_digit)) (Seq (chr (CHR ''2'')) (Cls (char_in ''0123''))),
      chr (CHR '':''), Cls (char_in ''012345''), Cls is_digit, chr (CHR '':''), Cls (char_in ''012345''), Cls is_digit, Eos])"

definition int_in :: "jsval \<Rightarrow> int \<Rightarrow> int \<Rightarrow> bool" where
  "int_in v lo hi = (case js_integer v of None \<Rightarrow> False | Some i \<Rightarrow> lo \<le> i \<and> i \<le> hi)"

definition validateCalendar :: "temporal_env \<Rightarrow> jsval \<Rightarrow> schedule_error + calendar_rule" where
  "validateCalendar env raw =
     (if \<not> is_object raw then Inl CalendarNotObject
      else if (\<exists>k \<in> set (js_keys raw). k \<notin> set (calendar_keys raw))
           \<or> mode_text (js_field raw ''mode'') \<notin> {Some ''daily'', Some ''weekly'', Some ''monthly''} then Inl CalendarFields
      else (case js_field raw ''timezone'' of
        JStr zone \<Rightarrow>
          if regex_test OFFSET_ZONE zone \<or> \<not> tp_zoneOk env zone then Inl CalendarZone
          else (case js_field raw ''time'' of
            JStr time \<Rightarrow>
              if \<not> regex_test CLOCK_TIME time then Inl CalendarTime
              else if js_field raw ''mode'' = JStr ''weekly'' \<and> \<not> int_in (js_field raw ''weekday'') 1 7 then Inl CalendarWeekday
              else if js_field raw ''mode'' = JStr ''monthly'' \<and>
                 (\<not> int_in (js_field raw ''day_of_month'') 1 31 \<or> js_field raw ''invalid_date_policy'' \<noteq> JStr ''skip'')
                then Inl CalendarMonthDay
              else Inr \<lparr> cr_mode = (if js_field raw ''mode'' = JStr ''daily'' then ModeDaily
                           else if js_field raw ''mode'' = JStr ''weekly'' then ModeWeekly
                           else if js_field raw ''mode'' = JStr ''monthly'' then ModeMonthly else ModeOther),
                         cr_timezone = zone, cr_time = time, cr_weekday = js_integer (js_field raw ''weekday''),
                         cr_dayOfMonth = js_integer (js_field raw ''day_of_month'') \<rparr>
          | _ \<Rightarrow> Inl CalendarTime)
      | _ \<Rightarrow> Inl CalendarZone))"

definition day_matches :: "temporal_env \<Rightarrow> calendar_rule \<Rightarrow> int \<Rightarrow> bool" where
  "day_matches env rule date \<longleftrightarrow>
     (cr_mode rule = ModeWeekly \<longrightarrow> cr_weekday rule = Some (tp_dayOfWeek env date))
     \<and> (cr_mode rule = ModeMonthly \<longrightarrow> cr_dayOfMonth rule = Some (tp_day env date))"

text \<open>The bounded search over days; \<open>forward\<close> is direction 1.\<close>

fun calendar_search ::
  "temporal_env \<Rightarrow> calendar_rule \<Rightarrow> ms \<Rightarrow> bool \<Rightarrow> nat \<Rightarrow> int \<Rightarrow> ms option" where
  "calendar_search env rule timestamp forward 0 date = None"
| "calendar_search env rule timestamp forward (Suc n) date =
     (let continue = calendar_search env rule timestamp forward n (if forward then date + 1 else date - 1)
      in if \<not> day_matches env rule date then continue
         else (case tp_instant env (cr_timezone rule) date (cr_time rule) of
                 None \<Rightarrow> continue
               | Some candidate \<Rightarrow>
                   if (if forward then candidate > timestamp else candidate \<le> timestamp) then Some candidate
                   else continue))"

definition calendarOccurrence :: "temporal_env \<Rightarrow> calendar_rule \<Rightarrow> ms \<Rightarrow> bool \<Rightarrow> ms option" where
  "calendarOccurrence env rule timestamp forward =
     calendar_search env rule timestamp forward 370 (tp_dateOf env (cr_timezone rule) timestamp)"

section \<open>Schedules\<close>

definition ALLOWED :: "string list" where
  "ALLOWED = [''schedule_id'', ''revision'', ''enabled'', ''at'', ''interval_seconds'', ''one_shot'', ''overlap'', ''misfire'',
     ''prompt_template'', ''calendar'']"

definition safe_id_char :: "char \<Rightarrow> bool" where
  "safe_id_char c \<longleftrightarrow> is_alnum c \<or> c \<in> set ''._:-''"

definition SCHEDULE_ID :: regex where
  "SCHEDULE_ID = Seq Bos (seqs [Cls safe_id_char, upto_rep 127 (Cls safe_id_char), Eos])"

definition positive_int :: "jsval \<Rightarrow> int option" where
  "positive_int v = (case js_integer v of Some i \<Rightarrow> if i < 1 then None else Some i | None \<Rightarrow> None)"

text \<open>The parts of \<open>validateSchedule\<close>, in its order: identity, trigger, policies and prompt.\<close>

definition schedule_trigger ::
  "temporal_env \<Rightarrow> jsval \<Rightarrow> bool \<Rightarrow> schedule_error + ms option \<times> int option \<times> calendar_rule option" where
  "schedule_trigger env raw oneShot =
     (let atv = js_field raw ''at''; interval = js_field raw ''interval_seconds'';
          atMs = (case atv of JStr s \<Rightarrow> tp_parse env s | _ \<Rightarrow> None);
          calendar = (if js_field raw ''calendar'' = JUndef then Inr None
                      else (case validateCalendar env (js_field raw ''calendar'') of Inl e \<Rightarrow> Inl e | Inr c \<Rightarrow> Inr (Some c)))
      in case calendar of
           Inl e \<Rightarrow> Inl e
         | Inr cal \<Rightarrow>
             if cal \<noteq> None \<and> (atv \<noteq> JUndef \<or> interval \<noteq> JUndef \<or> oneShot) then Inl CalendarCombined
             else if atv \<noteq> JUndef \<and> atMs = None then Inl ScheduleAt
             else if interval \<noteq> JUndef \<and> positive_int interval = None then Inl ScheduleInterval
             else if oneShot \<and> atv = JUndef then Inl OneShotNeedsAt
             else if cal = None \<and> atv = JUndef \<and> interval = JUndef then Inl ScheduleEmpty
             else if atv \<noteq> JUndef \<and> interval = JUndef \<and> \<not> oneShot then Inl RepeatNeedsInterval
             else if atv \<noteq> JUndef \<and> interval \<noteq> JUndef \<and> oneShot then Inl OneShotInterval
             else Inr (atMs, positive_int interval, cal))"

definition schedule_identity :: "jsval \<Rightarrow> schedule_error + string \<times> int \<times> bool \<times> bool" where
  "schedule_identity raw =
     (case js_field raw ''schedule_id'' of
        JStr sid \<Rightarrow>
          if \<not> regex_test SCHEDULE_ID sid then Inl ScheduleId
          else (case (if js_field raw ''revision'' = JUndef then Some 1 else positive_int (js_field raw ''revision'')) of
            None \<Rightarrow> Inl ScheduleRevision
          | Some rev' \<Rightarrow>
              (case (case js_field raw ''enabled'' of JUndef \<Rightarrow> Some True | JBool b \<Rightarrow> Some b | _ \<Rightarrow> None) of
                None \<Rightarrow> Inl ScheduleEnabled
              | Some enabled \<Rightarrow>
                  if (case js_field raw ''one_shot'' of JUndef \<Rightarrow> False | JBool _ \<Rightarrow> False | _ \<Rightarrow> True) then Inl ScheduleOneShot
                  else Inr (sid, rev', enabled, js_field raw ''one_shot'' = JBool True)))
      | _ \<Rightarrow> Inl ScheduleId)"

definition schedule_prompt :: "jsval \<Rightarrow> schedule_error + string" where
  "schedule_prompt raw =
     (if js_field raw ''overlap'' \<notin> {JUndef, JStr ''skip''} then Inl ScheduleOverlap
      else if js_field raw ''misfire'' \<notin> {JUndef, JStr ''skip''} then Inl ScheduleMisfire
      else (case js_field raw ''prompt_template'' of
              JStr prompt \<Rightarrow> if js_trim prompt = [] \<or> length prompt > 200000 then Inl SchedulePrompt else Inr prompt
            | _ \<Rightarrow> Inl SchedulePrompt))"

definition validateSchedule :: "temporal_env \<Rightarrow> jsval \<Rightarrow> schedule_error + schedule" where
  "validateSchedule env raw =
     (if \<not> is_object raw then Inl ScheduleNotObject
      else (case find (\<lambda>k. k \<notin> set ALLOWED) (js_keys raw) of
        Some k \<Rightarrow> Inl (ScheduleField k)
      | None \<Rightarrow>
      (case schedule_identity raw of
        Inl e \<Rightarrow> Inl e
      | Inr (sid, rev', enabled, oneShot) \<Rightarrow>
      (case schedule_trigger env raw oneShot of
        Inl e \<Rightarrow> Inl e
      | Inr (atMs, interval, cal) \<Rightarrow>
      (case schedule_prompt raw of
        Inl e \<Rightarrow> Inl e
      | Inr prompt \<Rightarrow>
          Inr \<lparr> sc_id = sid, sc_revision = rev', sc_enabled = enabled, sc_at = atMs, sc_interval = interval,
                sc_oneShot = oneShot, sc_calendar = cal, sc_prompt = prompt \<rparr>)))))"

definition schedule_anchor :: "schedule \<Rightarrow> ms" where
  "schedule_anchor s = nullish (sc_at s) 0"

text \<open>\<open>occurrenceBetween\<close>: the occurrence a tick has to launch, in \<open>(previous, now]\<close>.\<close>

definition occurrenceBetween :: "temporal_env \<Rightarrow> schedule \<Rightarrow> ms \<Rightarrow> ms \<Rightarrow> ms option" where
  "occurrenceBetween env s previous now =
     (case sc_calendar s of
        Some rule \<Rightarrow>
          (case calendarOccurrence env rule now False of
             None \<Rightarrow> None
           | Some occurrence \<Rightarrow> if occurrence > previous then Some occurrence else None)
      | None \<Rightarrow>
          (let anchor = schedule_anchor s; interval = nullish (sc_interval s) 0 * 1000
           in if sc_oneShot s then (if anchor > previous \<and> anchor \<le> now then Some anchor else None)
              else if interval = 0 then None
              else (let index = (now - anchor) div interval;
                        occurrence = anchor + index * interval
                    in if index < 0 then None
                       else if occurrence > previous \<and> occurrence \<le> now then Some occurrence else None)))"

definition nextScheduleAt :: "temporal_env \<Rightarrow> schedule \<Rightarrow> ms \<Rightarrow> ms option" where
  "nextScheduleAt env s now =
     (if \<not> sc_enabled s then None
      else (case sc_calendar s of
        Some rule \<Rightarrow> calendarOccurrence env rule now True
      | None \<Rightarrow>
          (let anchor = schedule_anchor s; step = the (sc_interval s) * 1000
           in if sc_oneShot s then (if anchor > now then Some anchor else None)
              else Some (anchor + max 0 ((now - anchor) div step + 1) * step))))"

section \<open>Facts\<close>

text \<open>The trigger of a validated schedule is one of three kinds.\<close>

definition trigger_ok :: "schedule \<Rightarrow> bool" where
  "trigger_ok s \<longleftrightarrow>
     (sc_calendar s \<noteq> None \<and> sc_at s = None \<and> sc_interval s = None \<and> \<not> sc_oneShot s)
     \<or> (sc_calendar s = None \<and> sc_oneShot s \<and> sc_at s \<noteq> None \<and> sc_interval s = None)
     \<or> (sc_calendar s = None \<and> \<not> sc_oneShot s \<and> (\<exists>i \<ge> 1. sc_interval s = Some i))"

lemma positive_int_Some: "positive_int v = Some i \<Longrightarrow> 1 \<le> i"
  by (auto simp: positive_int_def split: option.splits if_splits)

lemma positive_int_JUndef [simp]: "positive_int JUndef = None"
  by (simp add: positive_int_def)

lemma schedule_trigger_Inr:
  assumes "schedule_trigger env raw oneShot = Inr (atMs, interval, cal)"
  shows "(cal \<noteq> None \<and> atMs = None \<and> interval = None \<and> \<not> oneShot)
     \<or> (cal = None \<and> oneShot \<and> atMs \<noteq> None \<and> interval = None)
     \<or> (cal = None \<and> \<not> oneShot \<and> (\<exists>i \<ge> 1. interval = Some i))"
  using assms
  by (cases "js_field raw ''at'' = JUndef"; cases "js_field raw ''interval_seconds'' = JUndef"; cases oneShot; cases cal)
    (simp_all add: schedule_trigger_def Let_def split: sum.splits if_splits, auto dest: positive_int_Some)

lemma validateSchedule_Inr:
  assumes "validateSchedule env raw = Inr s"
  shows "regex_test SCHEDULE_ID (sc_id s) \<and> 1 \<le> sc_revision s \<and> trigger_ok s
    \<and> js_trim (sc_prompt s) \<noteq> [] \<and> length (sc_prompt s) \<le> 200000"
proof -
  from assms obtain atMs interval cal oneShot sid rev' enabled prompt where
    parts: "schedule_identity raw = Inr (sid, rev', enabled, oneShot)" "schedule_prompt raw = Inr prompt"
    and trigger: "schedule_trigger env raw oneShot = Inr (atMs, interval, cal)"
    and s: "s = \<lparr> sc_id = sid, sc_revision = rev', sc_enabled = enabled, sc_at = atMs, sc_interval = interval,
                sc_oneShot = oneShot, sc_calendar = cal, sc_prompt = prompt \<rparr>"
    by (auto simp: validateSchedule_def split: if_splits option.splits sum.splits)
  have "regex_test SCHEDULE_ID sid \<and> 1 \<le> rev'"
    using parts(1) by (auto simp: schedule_identity_def split: jsval.splits if_splits option.splits dest: positive_int_Some)
  moreover have "js_trim prompt \<noteq> [] \<and> length prompt \<le> 200000"
    using parts(2) by (auto simp: schedule_prompt_def split: jsval.splits if_splits)
  ultimately show ?thesis
    using schedule_trigger_Inr [OF trigger] by (simp add: s trigger_ok_def)
qed

lemma regex_ends_upto_Cls:
  "q \<in> set (regex_ends (upto_rep n (Cls P)) (pre, s)) \<Longrightarrow>
   \<exists>u. s = u @ snd q \<and> length u \<le> n \<and> list_all P u"
proof (induction n arbitrary: pre s)
  case (Suc n)
  show ?case
  proof (cases "snd q = s")
    case False
    with Suc.prems obtain c t where s: "s = c # t" "P c" "q \<in> set (regex_ends (upto_rep n (Cls P)) (c # pre, t))"
      by (cases s) (auto split: if_splits)
    with Suc.IH obtain u where "t = u @ snd q" "length u \<le> n" "list_all P u" by blast
    with s show ?thesis by (intro exI [of _ "c # u"]) simp
  qed (intro exI [of _ "[]"], simp)
qed (auto intro: exI [of _ "[]"])

lemma SCHEDULE_ID_shape:
  assumes "regex_test SCHEDULE_ID s"
  shows "1 \<le> length s \<and> length s \<le> 128 \<and> list_all safe_id_char s"
proof -
  from assms obtain c t where s: "s = c # t" "safe_id_char c"
    and "regex_ends (seqs [upto_rep 127 (Cls safe_id_char), Eos]) ([c], t) \<noteq> []"
    unfolding SCHEDULE_ID_def regex_test_Bos_Seq by (cases s) (auto simp: seqs_def split: if_splits)
  then obtain q where q: "q \<in> set (regex_ends (upto_rep 127 (Cls safe_id_char)) ([c], t))" "snd q = []"
    by (auto simp: seqs_def simp del: upto_rep.simps split: if_splits)
  from regex_ends_upto_Cls [OF q(1)] q(2) s show ?thesis by auto
qed

text \<open>The search returns an instant of a matching day on the requested side.\<close>

lemma calendar_search_sound:
  assumes "calendar_search env rule ts forward n date = Some t"
  shows "(if forward then ts < t else t \<le> ts)
    \<and> (\<exists>d. day_matches env rule d \<and> tp_instant env (cr_timezone rule) d (cr_time rule) = Some t
          \<and> (if forward then date \<le> d \<and> d < date + int n else date - int n < d \<and> d \<le> date))"
  using assms
proof (induction n arbitrary: date)
  case (Suc n)
  show ?case
  proof (cases "calendar_search env rule ts forward n (if forward then date + 1 else date - 1) = Some t")
    case True
    from Suc.IH [OF True] show ?thesis by (auto split: if_splits)
  next
    case False
    with Suc.prems have "day_matches env rule date" "tp_instant env (cr_timezone rule) date (cr_time rule) = Some t"
      "if forward then ts < t else t \<le> ts"
      by (auto simp: Let_def split: if_splits option.splits)
    then show ?thesis by (auto intro!: exI [of _ date])
  qed
qed simp

lemma occurrenceBetween_window:
  "occurrenceBetween env s previous now = Some t \<Longrightarrow> previous < t \<and> t \<le> now"
  using calendar_search_sound [of env _ now False 370]
  by (fastforce simp: occurrenceBetween_def calendarOccurrence_def Let_def split: option.splits if_splits)

text \<open>What the calendar library guarantees: a later local date has a later instant, an instant falls on
  its own local date, and local dates follow the order of instants.\<close>

definition temporal_ok :: "temporal_env \<Rightarrow> bool" where
  "temporal_ok env \<longleftrightarrow>
     (\<forall>z d d' t i i'. tp_instant env z d t = Some i \<longrightarrow> tp_instant env z d' t = Some i' \<longrightarrow> d < d' \<longrightarrow> i < i')
     \<and> (\<forall>z d t i. tp_instant env z d t = Some i \<longrightarrow> tp_dateOf env z i = d)
     \<and> (\<forall>z i i'. i \<le> i' \<longrightarrow> tp_dateOf env z i \<le> tp_dateOf env z i')"

lemma calendar_search_first:
  assumes "calendar_search env rule ts True n date = Some t" "day_matches env rule d"
    "tp_instant env (cr_timezone rule) d (cr_time rule) = Some u" "ts < u" "date \<le> d"
  shows "\<exists>d' \<le> d. tp_instant env (cr_timezone rule) d' (cr_time rule) = Some t"
  using assms
proof (induction n arbitrary: date)
  case (Suc n)
  show ?case
  proof (cases "date = d")
    case True
    with Suc.prems show ?thesis by auto
  next
    case False
    with Suc.prems(5) have "date + 1 \<le> d" by simp
    with Suc.IH [of "date + 1"] Suc.prems show ?thesis
      by (auto simp: Let_def split: if_splits option.splits intro!: exI [of _ date])
  qed
qed simp

lemma calendar_next_fires:
  assumes env: "temporal_ok env" and nxt: "calendarOccurrence env rule now True = Some t"
  shows "now < t \<and> calendarOccurrence env rule t False = Some t
    \<and> (\<forall>u o'. u < t \<longrightarrow> calendarOccurrence env rule u False = Some o' \<longrightarrow> o' \<le> now)"
proof (intro conjI allI impI)
  let ?z = "cr_timezone rule" and ?t = "cr_time rule"
  from calendar_search_sound [OF nxt [unfolded calendarOccurrence_def]] obtain d where
    d: "day_matches env rule d" "tp_instant env ?z d ?t = Some t" and "now < t" by auto
  show "now < t" by fact
  have "tp_dateOf env ?z t = d" using env d(2) by (auto simp: temporal_ok_def)
  moreover have "calendar_search env rule t False (Suc 369) d = Some t"
    unfolding calendar_search.simps Let_def using d by simp
  ultimately show "calendarOccurrence env rule t False = Some t"
    by (simp add: calendarOccurrence_def)
  fix u o' assume u: "u < t" and "calendarOccurrence env rule u False = Some o'"
  from calendar_search_sound [OF this(2) [unfolded calendarOccurrence_def]] obtain d' where
    d': "day_matches env rule d'" "tp_instant env ?z d' ?t = Some o'" and "o' \<le> u" by auto
  show "o' \<le> now"
  proof (rule ccontr)
    assume "\<not> o' \<le> now"
    then have "now < o'" by simp
    moreover have "tp_dateOf env ?z o' = d'" using env d'(2) by (auto simp: temporal_ok_def)
    ultimately have "tp_dateOf env ?z now \<le> d'"
      using env by (auto simp: temporal_ok_def dest: spec [of _ ?z])
    with calendar_search_first [OF nxt [unfolded calendarOccurrence_def] d' \<open>now < o'\<close>]
    obtain d'' where "d'' \<le> d'" "tp_instant env ?z d'' ?t = Some t" by blast
    then have "t \<le> o'"
    proof (cases "d'' = d'")
      case False
      then have "d'' < d'" using \<open>d'' \<le> d'\<close> by simp
      with env \<open>tp_instant env ?z d'' ?t = Some t\<close> d'(2) have "t < o'" unfolding temporal_ok_def by metis
      then show ?thesis by simp
    qed (use d'(2) in simp)
    with \<open>o' \<le> u\<close> u show False by simp
  qed
qed

lemma grid_floor:
  fixes step :: int
  assumes "0 < step"
  shows "a + ((x - a) div step) * step \<le> x \<and> x < a + ((x - a) div step + 1) * step"
proof -
  define q r where "q = (x - a) div step" and "r = (x - a) mod step"
  have "q * step + r = x - a" unfolding q_def r_def by (rule div_mult_mod_eq)
  moreover have "0 \<le> r" "r < step" using assms by (simp_all add: r_def)
  moreover have "(q + 1) * step = q * step + step" by (simp add: distrib_right)
  ultimately show ?thesis unfolding q_def [symmetric] by linarith
qed

lemma interval_next_fires:
  fixes step :: int
  assumes "0 < step" and t: "t = a + max 0 ((now - a) div step + 1) * step"
  shows "now < t \<and> 0 \<le> (t - a) div step \<and> a + (t - a) div step * step = t
    \<and> (\<forall>u. u < t \<longrightarrow> (u - a) div step < 0 \<or> a + ((u - a) div step) * step \<le> now)"
proof -
  let ?k = "(now - a) div step"
  have step: "a + ?k * step \<le> now" "now < a + (?k + 1) * step" using grid_floor [OF assms(1), of a now] by auto
  have idx: "0 \<le> (t - a) div step" "a + (t - a) div step * step = t" using assms by simp_all
  have "now < t"
  proof (cases "0 \<le> ?k + 1")
    case False
    then have "(?k + 1) * step \<le> 0" using assms(1) by (simp add: mult_nonpos_nonneg)
    with step t show ?thesis by simp
  qed (use step t in simp)
  moreover have "(u - a) div step < 0 \<or> a + ((u - a) div step) * step \<le> now" if "u < t" for u
  proof (cases "0 \<le> ?k + 1")
    case True
    then have "u - a < (?k + 1) * step" using that t by simp
    then have "(u - a) div step < ?k + 1"
      using assms(1) grid_floor [OF assms(1), of a u] by (smt (verit) mult_less_cancel_right_pos)
    then have "(u - a) div step \<le> ?k" by simp
    then have "(u - a) div step * step \<le> ?k * step" using assms(1) by (simp add: mult_right_mono)
    with step show ?thesis by simp
  next
    case False
    then have "u < a" using that t by simp
    then show ?thesis using assms(1) by (simp add: div_neg_pos_less0)
  qed
  ultimately show ?thesis using idx by blast
qed

definition utc_env :: temporal_env where
  "utc_env = \<lparr> tp_dateOf = (\<lambda>z t. t div 86400000), tp_instant = (\<lambda>z d t. Some (d * 86400000 + 43200000)),
     tp_dayOfWeek = (\<lambda>d. (d + 3) mod 7 + 1), tp_day = (\<lambda>d. 1), tp_zoneOk = (\<lambda>z. z = ''UTC''), tp_parse = (\<lambda>s. None) \<rparr>"

definition daily_schedule :: schedule where
  "daily_schedule = \<lparr> sc_id = ''s'', sc_revision = 1, sc_enabled = True, sc_at = None, sc_interval = None, sc_oneShot = False,
     sc_calendar = Some \<lparr> cr_mode = ModeDaily, cr_timezone = ''UTC'', cr_time = ''12:00:00'', cr_weekday = None, cr_dayOfMonth = None \<rparr>,
     sc_prompt = ''p'' \<rparr>"

lemma utc_env_ok: "temporal_ok utc_env"
  by (auto simp: temporal_ok_def utc_env_def zdiv_mono1)

lemma daily_schedule_next: "nextScheduleAt utc_env daily_schedule 0 = Some 43200000"
  by (simp add: nextScheduleAt_def daily_schedule_def calendarOccurrence_def utc_env_def day_matches_def eval_nat_numeral)

section \<open>Properties\<close>


definition demo_schedule_json :: jsval where
  "demo_schedule_json = JObj [(''schedule_id'', JStr ''s1''), (''interval_seconds'', JNum (Fin 60)), (''prompt_template'', JStr ''go'')]"

lemma demo_schedule_valid: "regex_test SCHEDULE_ID ''s1''"
  by code_simp




text \<open>No interval run is lost or repeated: when the window \<open>(a, b]\<close> between two ticks holds a grid
  point of an interval schedule, the tick launches an occurrence in the window that is no earlier than
  that point, and whatever a later tick launches comes strictly after it.\<close>

theorem interval_tick_complete:
  assumes "sc_calendar s = None" and "\<not> sc_oneShot s" and "sc_interval s = Some i" and "1 \<le> i"
    and "g = schedule_anchor s + k * (i * 1000)" and "0 \<le> k" and "a < g" and "g \<le> b"
  shows "\<exists>x. occurrenceBetween env s a b = Some x \<and> g \<le> x \<and> a < x \<and> x \<le> b
    \<and> (\<forall>c y. occurrenceBetween env s b c = Some y \<longrightarrow> x < y)"
proof -
  let ?step = "i * 1000" and ?n = "(b - schedule_anchor s) div (i * 1000)"
  have pos: "0 < ?step" using assms(4) by simp
  have "k = (g - schedule_anchor s) div ?step" using assms(5) pos by simp
  also have "\<dots> \<le> ?n" using assms(8) pos by (simp add: zdiv_mono1)
  finally have "k \<le> ?n" .
  define x where "x = schedule_anchor s + ?n * ?step"
  have "g \<le> x" using \<open>k \<le> ?n\<close> assms(5) pos by (simp add: x_def mult_right_mono)
  moreover have "x \<le> b" using grid_floor [OF pos, of "schedule_anchor s" b] by (simp add: x_def)
  moreover have "0 \<le> ?n" using \<open>k \<le> ?n\<close> assms(6) by simp
  ultimately have x: "occurrenceBetween env s a b = Some x"
    using assms(1-4,7) by (simp add: occurrenceBetween_def Let_def x_def [symmetric])
  with \<open>g \<le> x\<close> show ?thesis
    using occurrenceBetween_window [OF x] occurrenceBetween_window [of env s b] by fastforce
qed

theorem interval_tick_complete_witness:
  "\<exists>x. occurrenceBetween utc_env (daily_schedule\<lparr>sc_calendar := None, sc_interval := Some 60\<rparr>) 50000 190000 = Some x \<and> 120000 \<le> x"
  using interval_tick_complete [of "daily_schedule\<lparr>sc_calendar := None, sc_interval := Some 60\<rparr>" 60 120000 2 50000 190000 utc_env]
  by (auto simp: daily_schedule_def schedule_anchor_def)



end
