(* ===== verification/Conversation_Store.thy ===== *)
theory Conversation_Store
  imports Approval_Service Schedule
begin

text \<open>
  The conversation tables of \<open>storage/sqlite.ts\<close> and the automation tables of
  \<open>storage/automation-tasks.ts\<close>: rows, reads and writes.  A JSON column holds the value its text
  denotes (members in order); timestamps are milliseconds.  The store is one record of tables; the
  columns of a table keep the source's meaning, prefixed by the table.
\<close>

datatype conversation_state = Draft | Active | Paused | Muted | Archived

record conversation =
  cv_id :: string
  cv_sessionFile :: string
  cv_workspace :: string
  cv_title :: "string option"
  cv_description :: "string option"
  cv_orchestration :: "jsval option"
  cv_kind :: string
  cv_labels :: "string list"
  cv_state :: conversation_state
  cv_entry :: "string option"
  cv_coordinator :: "string option"
  cv_solution :: "string option"
  cv_tenant :: "string option"
  cv_member :: "string option"
  cv_schedule :: "jsval option"
  cv_generation :: nat
  cv_permission :: permission_mode
  cv_lastRead :: "string option"
  cv_created :: ms
  cv_updated :: ms

record schedule_retry =
  sr_conversation :: string
  sr_scheduleId :: string
  sr_occurrence :: ms
  sr_revision :: int
  sr_generation :: nat
  sr_reason :: string
  sr_created :: ms

datatype participant_role = Coordinator | Member

record participant =
  pt_conversation :: string
  pt_employee :: string
  pt_role :: participant_role
  pt_sessionFile :: string
  pt_workspace :: string
  pt_piSession :: "string option"
  pt_version :: string
  pt_created :: ms
  pt_updated :: ms
  pt_removed :: "ms option"

record entry_source =
  es_conversation :: string
  es_employee :: string
  es_entry :: string
  es_logicalMessage :: string
  es_type :: string
  es_source :: string
  es_displayName :: "string option"
  es_created :: ms

datatype receipt_state = Accepted | Completed | Unknown

record receipt =
  rc_conversation :: string
  rc_caller :: string
  rc_key :: string
  rc_fingerprint :: string
  rc_state :: receipt_state
  rc_owner :: "string option"
  rc_lease :: "ms option"
  rc_accepted :: ms
  rc_completed :: "ms option"
  rc_lastEntry :: "string option"
  rc_failureCode :: "string option"
  rc_failureDetail :: "string option"

record occurrence =
  oc_id :: string
  oc_conversation :: string
  oc_tenant :: string
  oc_member :: string
  oc_schedule :: string
  oc_at :: ms
  oc_revision :: int
  oc_caller :: "string option"
  oc_receipt :: "string option"
  oc_reason :: "string option"

record automation_task =
  at_id :: string
  at_tenant :: string
  at_member :: string
  at_name :: string
  at_category :: string
  at_conversation :: string
  at_connectors :: "string list"
  at_revision :: int
  at_created :: ms
  at_updated :: ms
  at_deleted :: "ms option"

record task_creation =
  tc_tenant :: string
  tc_member :: string
  tc_key :: string
  tc_fingerprint :: string
  tc_task :: string
  tc_conversation :: string
  tc_completed :: bool
  tc_response :: "string option"

record workspace_move =
  wm_old :: string
  wm_new :: string
  wm_created :: ms

record store =
  st_conversations :: "conversation list"
  st_retries :: "schedule_retry list"
  st_participants :: "participant list"
  st_sources :: "entry_source list"
  st_receipts :: "receipt list"
  st_occurrences :: "occurrence list"
  st_tasks :: "automation_task list"
  st_bindings :: "(string \<times> string) list"
  st_creations :: "task_creation list"
  st_moves :: "workspace_move list"
  st_approvals :: approvals

definition store_init :: store where
  "store_init = \<lparr> st_conversations = [], st_retries = [], st_participants = [], st_sources = [], st_receipts = [],
     st_occurrences = [], st_tasks = [], st_bindings = [], st_creations = [], st_moves = [], st_approvals = [] \<rparr>"

datatype store_error =
    UniqueViolation
  | TaskCreationPending
  | TaskBindingRetired
  | ConversationMissing
  | IdempotencyConflict
  | IdempotencyUnknown
  | ScheduleRevisionConflict

section \<open>Reads\<close>

definition normalizePermissionMode :: "jsval \<Rightarrow> permission_mode" where
  "normalizePermissionMode v =
     (if v = JStr ''workspace-write'' then WorkspaceWrite else if v = JStr ''full-access'' then FullAccess else ReadOnly)"

text \<open>\<open>getConversation\<close>: the row with the retry marker of its schedule.\<close>

definition getConversation :: "string \<Rightarrow> store \<Rightarrow> conversation option" where
  "getConversation i s = find (\<lambda>c. cv_id c = i) (st_conversations s)"

definition withScheduleRetry :: "conversation \<Rightarrow> store \<Rightarrow> schedule_retry option" where
  "withScheduleRetry c s = find (\<lambda>r. sr_conversation r = cv_id c) (st_retries s)"

definition listScheduledConversations :: "store \<Rightarrow> (conversation \<times> schedule_retry option) list" where
  "listScheduledConversations s =
     map (\<lambda>c. (c, withScheduleRetry c s))
       (filter (\<lambda>c. cv_schedule c \<noteq> None \<and> cv_tenant c \<noteq> None \<and> cv_member c \<noteq> None) (st_conversations s))"

definition getOwnedConversation :: "string \<Rightarrow> string \<Rightarrow> string \<Rightarrow> store \<Rightarrow> conversation option" where
  "getOwnedConversation i tenant member s =
     (case getConversation i s of
        Some c \<Rightarrow> if cv_tenant c = Some tenant \<and> cv_member c = Some member then Some c else None
      | None \<Rightarrow> None)"

text \<open>\<open>json_extract\<close> on the schedule column.\<close>

definition sched_field :: "conversation \<Rightarrow> string \<Rightarrow> jsval" where
  "sched_field c k = js_field (nullish (cv_schedule c) JNull) k"

definition sched_is :: "conversation \<Rightarrow> string \<Rightarrow> int \<Rightarrow> bool" where
  "sched_is c sid revision \<longleftrightarrow>
     sched_field c ''schedule_id'' = JStr sid \<and> js_integer (sched_field c ''revision'') = Some revision"

text \<open>\<open>json_set(COALESCE(schedule_json, '{}'), '$.enabled', ...)\<close>\<close>

fun js_set :: "string \<Rightarrow> jsval \<Rightarrow> jsval \<Rightarrow> jsval" where
  "js_set k v (JObj fs) = JObj (omap_set k v fs)"
| "js_set k v x = x"

definition set_enabled :: "bool \<Rightarrow> ms \<Rightarrow> conversation \<Rightarrow> conversation" where
  "set_enabled b now c =
     c\<lparr>cv_schedule := Some (js_set ''enabled'' (JBool b) (nullish (cv_schedule c) (JObj []))),
       cv_generation := cv_generation c + 1, cv_updated := now\<rparr>"

section \<open>Retry markers\<close>

definition setScheduleRetry :: "schedule_retry \<Rightarrow> store \<Rightarrow> store" where
  "setScheduleRetry r s =
     s\<lparr>st_retries := (if \<exists>q \<in> set (st_retries s). sr_conversation q = sr_conversation r
        then update_rows (\<lambda>q. sr_conversation q = sr_conversation r) (\<lambda>_. r\<lparr>sr_reason := take 96 (sr_reason r)\<rparr>) (st_retries s)
        else st_retries s @ [r\<lparr>sr_reason := take 96 (sr_reason r)\<rparr>])\<rparr>"

definition clearScheduleRetry :: "string \<Rightarrow> store \<Rightarrow> store" where
  "clearScheduleRetry i s = s\<lparr>st_retries := delete_rows (\<lambda>r. sr_conversation r = i) (st_retries s)\<rparr>"

section \<open>Conversations\<close>

text \<open>The fields of a \<open>ConversationRecord\<close> argument; \<open>None\<close> is an absent field.\<close>

record conversation_input =
  ci_id :: string
  ci_sessionFile :: string
  ci_workspace :: string
  ci_title :: "string option"
  ci_description :: "string option"
  ci_orchestration :: "jsval option"
  ci_kind :: "string option"
  ci_labels :: "string list option"
  ci_state :: "conversation_state option"
  ci_entry :: "string option"
  ci_coordinator :: "string option"
  ci_solution :: "string option"
  ci_tenant :: "string option"
  ci_member :: "string option"
  ci_schedule :: "jsval option"
  ci_permission :: "permission_mode option"
  ci_lastRead :: "string option"
  ci_created :: "ms option"
  ci_updated :: "ms option"

definition conversation_row :: "conversation_input \<Rightarrow> nat \<Rightarrow> ms \<Rightarrow> conversation" where
  "conversation_row r generation now =
     \<lparr> cv_id = ci_id r, cv_sessionFile = ci_sessionFile r, cv_workspace = ci_workspace r, cv_title = ci_title r,
       cv_description = ci_description r, cv_orchestration = ci_orchestration r, cv_kind = nullish (ci_kind r) ''chat'',
       cv_labels = nullish (ci_labels r) [], cv_state = nullish (ci_state r) Active, cv_entry = ci_entry r,
       cv_coordinator = ci_coordinator r, cv_solution = ci_solution r, cv_tenant = ci_tenant r, cv_member = ci_member r,
       cv_schedule = ci_schedule r, cv_generation = generation, cv_permission = nullish (ci_permission r) ReadOnly,
       cv_lastRead = ci_lastRead r, cv_created = nullish (ci_created r) now, cv_updated = nullish (ci_updated r) now \<rparr>"

text \<open>\<open>saveConversation\<close>: the generation counts schedule changes; the creation time of an existing row stays.\<close>

definition saveConversation :: "conversation_input \<Rightarrow> bool \<Rightarrow> ms \<Rightarrow> store \<Rightarrow> store" where
  "saveConversation r scheduleMutation now s =
     (case getConversation (ci_id r) s of
        None \<Rightarrow> s\<lparr>st_conversations := st_conversations s @ [conversation_row r 0 now]\<rparr>
      | Some previous \<Rightarrow>
          (let generation = cv_generation previous + (if scheduleMutation \<or> cv_schedule previous \<noteq> ci_schedule r then 1 else 0)
           in s\<lparr>st_conversations := update_rows (\<lambda>c. cv_id c = ci_id r)
                  (\<lambda>c. (conversation_row r generation now)\<lparr>cv_created := cv_created c\<rparr>) (st_conversations s)\<rparr>))"

definition createConversation :: "conversation_input \<Rightarrow> ms \<Rightarrow> store \<Rightarrow> store" where
  "createConversation r now s = saveConversation (r\<lparr>ci_created := Some now, ci_updated := Some now\<rparr>) False now s"

definition input_of :: "conversation \<Rightarrow> conversation_input" where
  "input_of c =
     \<lparr> ci_id = cv_id c, ci_sessionFile = cv_sessionFile c, ci_workspace = cv_workspace c, ci_title = cv_title c,
       ci_description = cv_description c, ci_orchestration = cv_orchestration c, ci_kind = Some (cv_kind c),
       ci_labels = Some (cv_labels c), ci_state = Some (cv_state c), ci_entry = cv_entry c, ci_coordinator = cv_coordinator c,
       ci_solution = cv_solution c, ci_tenant = cv_tenant c, ci_member = cv_member c, ci_schedule = cv_schedule c,
       ci_permission = Some (cv_permission c), ci_lastRead = cv_lastRead c, ci_created = Some (cv_created c),
       ci_updated = Some (cv_updated c) \<rparr>"

text \<open>The patch of \<open>updateConversation\<close>: each field is absent or given.\<close>

record conversation_patch =
  cp_title :: "string option option"
  cp_kind :: "string option"
  cp_entry :: "string option option"
  cp_solution :: "string option option"
  cp_tenant :: "string option option"
  cp_member :: "string option option"
  cp_description :: "string option option"
  cp_orchestration :: "jsval option option"
  cp_labels :: "string list option"
  cp_state :: "conversation_state option"
  cp_coordinator :: "string option option"
  cp_schedule :: "jsval option option"
  cp_permission :: "permission_mode option"
  cp_lastRead :: "string option option"

definition empty_patch :: conversation_patch where
  "empty_patch = \<lparr> cp_title = None, cp_kind = None, cp_entry = None, cp_solution = None, cp_tenant = None, cp_member = None,
     cp_description = None, cp_orchestration = None, cp_labels = None, cp_state = None,
     cp_coordinator = None, cp_schedule = None, cp_permission = None, cp_lastRead = None \<rparr>"

definition apply_patch :: "conversation_patch \<Rightarrow> conversation_input \<Rightarrow> conversation_input" where
  "apply_patch p r =
     r\<lparr>ci_title := nullish (cp_title p) (ci_title r),
       ci_kind := (case cp_kind p of None \<Rightarrow> ci_kind r | x \<Rightarrow> x), ci_entry := nullish (cp_entry p) (ci_entry r),
       ci_solution := nullish (cp_solution p) (ci_solution r), ci_tenant := nullish (cp_tenant p) (ci_tenant r),
       ci_member := nullish (cp_member p) (ci_member r), ci_description := nullish (cp_description p) (ci_description r),
       ci_orchestration := nullish (cp_orchestration p) (ci_orchestration r),
       ci_labels := (case cp_labels p of None \<Rightarrow> ci_labels r | x \<Rightarrow> x),
       ci_state := (case cp_state p of None \<Rightarrow> ci_state r | x \<Rightarrow> x),
       ci_coordinator := nullish (cp_coordinator p) (ci_coordinator r), ci_schedule := nullish (cp_schedule p) (ci_schedule r),
       ci_permission := (case cp_permission p of None \<Rightarrow> ci_permission r | x \<Rightarrow> x),
       ci_lastRead := nullish (cp_lastRead p) (ci_lastRead r)\<rparr>"

section \<open>Automation tables\<close>

definition task_get :: "string \<Rightarrow> string \<Rightarrow> string \<Rightarrow> store \<Rightarrow> automation_task option" where
  "task_get i tenant member s =
     find (\<lambda>t. at_id t = i \<and> at_tenant t = tenant \<and> at_member t = member) (st_tasks s)"

text \<open>\<open>forConversation\<close>: the task bound to the conversation now or before.\<close>

definition task_forConversation :: "string \<Rightarrow> store \<Rightarrow> automation_task option" where
  "task_forConversation conversation s =
     (case map_of (st_bindings s) conversation of
        None \<Rightarrow> None
      | Some task \<Rightarrow> find (\<lambda>t. at_id t = task) (st_tasks s))"

definition task_list :: "string \<Rightarrow> string \<Rightarrow> store \<Rightarrow> automation_task list" where
  "task_list tenant member s = filter (\<lambda>t. at_tenant t = tenant \<and> at_member t = member) (st_tasks s)"

definition task_bind :: "string \<Rightarrow> string \<Rightarrow> store \<Rightarrow> store_error + store" where
  "task_bind task conversation s =
     (if map_of (st_bindings s) conversation \<noteq> None then Inl UniqueViolation
      else Inr (s\<lparr>st_bindings := st_bindings s @ [(conversation, task)]\<rparr>))"

definition task_insert :: "automation_task \<Rightarrow> store \<Rightarrow> store_error + store" where
  "task_insert t s =
     (if \<exists>q \<in> set (st_tasks s). at_id q = at_id t \<or> at_conversation q = at_conversation t then Inl UniqueViolation
      else task_bind (at_id t) (at_conversation t) (s\<lparr>st_tasks := st_tasks s @ [t]\<rparr>))"

definition task_update :: "automation_task \<Rightarrow> ms \<Rightarrow> store \<Rightarrow> store" where
  "task_update t now s =
     s\<lparr>st_tasks := update_rows (\<lambda>q. at_id q = at_id t \<and> at_tenant q = at_tenant t \<and> at_member q = at_member t)
         (\<lambda>q. q\<lparr>at_name := at_name t, at_category := at_category t, at_conversation := at_conversation t,
                at_connectors := at_connectors t, at_revision := at_revision q + 1, at_updated := now, at_deleted := at_deleted t\<rparr>)
         (st_tasks s)\<rparr>"

definition task_creation_pending :: "string \<Rightarrow> store \<Rightarrow> bool" where
  "task_creation_pending task s \<longleftrightarrow> (\<exists>c \<in> set (st_creations s). tc_task c = task \<and> \<not> tc_completed c)"

definition guardSchedule :: "string \<Rightarrow> store \<Rightarrow> store_error option" where
  "guardSchedule conversation s =
     (case task_forConversation conversation s of
        None \<Rightarrow> None
      | Some t \<Rightarrow>
          if task_creation_pending (at_id t) s then Some TaskCreationPending
          else if at_deleted t \<noteq> None \<or> at_conversation t \<noteq> conversation then Some TaskBindingRetired
          else None)"

definition task_conversationDeleted :: "string \<Rightarrow> ms \<Rightarrow> store \<Rightarrow> store" where
  "task_conversationDeleted conversation now s =
     s\<lparr>st_tasks := update_rows (\<lambda>t. at_conversation t = conversation)
          (\<lambda>t. t\<lparr>at_deleted := (case at_deleted t of None \<Rightarrow> Some now | d \<Rightarrow> d), at_revision := at_revision t + 1\<rparr>) (st_tasks s),
       st_occurrences := update_rows (\<lambda>o'. oc_conversation o' = conversation)
          (\<lambda>o'. o'\<lparr>oc_reason := Some ''conversation_deleted''\<rparr>) (st_occurrences s)\<rparr>"

text \<open>\<open>occurrence\<close>: insert, or update under the condition of the upsert: a recorded receipt that still
  exists is not overwritten by an observation without one.\<close>

definition receipt_recorded :: "occurrence \<Rightarrow> store \<Rightarrow> bool" where
  "receipt_recorded o' s \<longleftrightarrow>
     (\<exists>r \<in> set (st_receipts s). rc_conversation r = oc_conversation o' \<and> Some (rc_caller r) = oc_caller o'
        \<and> Some (rc_key r) = oc_receipt o')"

definition same_occurrence :: "occurrence \<Rightarrow> occurrence \<Rightarrow> bool" where
  "same_occurrence a b \<longleftrightarrow> oc_conversation a = oc_conversation b \<and> oc_schedule a = oc_schedule b \<and> oc_at a = oc_at b"

definition record_occurrence :: "occurrence \<Rightarrow> store \<Rightarrow> store_error + store" where
  "record_occurrence o' s =
     (case find (same_occurrence o') (st_occurrences s) of
        None \<Rightarrow>
          if \<exists>q \<in> set (st_occurrences s). oc_id q = oc_id o' then Inl UniqueViolation
          else Inr (s\<lparr>st_occurrences := st_occurrences s @ [o']\<rparr>)
      | Some q \<Rightarrow>
          if oc_receipt q = None \<or> oc_receipt o' \<noteq> None \<or> \<not> receipt_recorded q s
          then Inr (s\<lparr>st_occurrences := update_rows (same_occurrence o')
                 (\<lambda>q. q\<lparr>oc_caller := (case oc_caller o' of None \<Rightarrow> oc_caller q | c \<Rightarrow> c),
                        oc_receipt := (case oc_receipt o' of None \<Rightarrow> oc_receipt q | k \<Rightarrow> k), oc_reason := oc_reason o'\<rparr>)
                 (st_occurrences s)\<rparr>)
          else Inr s)"

text \<open>\<open>updateConversation\<close>\<close>

definition updateConversation :: "string \<Rightarrow> conversation_patch \<Rightarrow> ms \<Rightarrow> store \<Rightarrow> store_error + conversation option \<times> store" where
  "updateConversation i p now s =
     (case getConversation i s of
        None \<Rightarrow> Inr (None, s)
      | Some c \<Rightarrow>
          (let mutation = (cp_schedule p \<noteq> None)
           in case (if mutation then guardSchedule i s else None) of
                Some e \<Rightarrow> Inl e
              | None \<Rightarrow>
                  (let s1 = saveConversation ((apply_patch p (input_of c))\<lparr>ci_updated := Some now\<rparr>) mutation now s;
                       s2 = (if mutation then clearScheduleRetry i s1 else s1)
                   in Inr (getConversation i s2, s2))))"

section \<open>Participants\<close>

definition getConversationParticipant :: "string \<Rightarrow> string \<Rightarrow> store \<Rightarrow> participant option" where
  "getConversationParticipant conversation employee s =
     find (\<lambda>p. pt_conversation p = conversation \<and> pt_employee p = employee) (st_participants s)"

text \<open>\<open>ORDER BY CASE role WHEN 'coordinator' THEN 0 ELSE 1 END, employee_id\<close>; SQLite compares bytes.\<close>

definition participant_order :: "participant \<Rightarrow> nat \<times> nat list" where
  "participant_order p = (if pt_role p = Coordinator then 0 else 1, map of_char (pt_employee p))"

definition participant_le :: "participant \<Rightarrow> participant \<Rightarrow> bool" where
  "participant_le p q =
     (let a = participant_order p; b = participant_order q
      in fst a < fst b \<or> (fst a = fst b \<and> bytes_le (snd a) (snd b)))"

definition listConversationParticipants :: "string \<Rightarrow> bool \<Rightarrow> store \<Rightarrow> participant list" where
  "listConversationParticipants conversation includeRemoved s =
     sort_by participant_le
       (filter (\<lambda>p. pt_conversation p = conversation \<and> (includeRemoved \<or> pt_removed p = None)) (st_participants s))"

definition upsertConversationParticipant :: "participant \<Rightarrow> store \<Rightarrow> store" where
  "upsertConversationParticipant p s =
     (if getConversationParticipant (pt_conversation p) (pt_employee p) s = None
      then s\<lparr>st_participants := st_participants s @ [p\<lparr>pt_removed := None\<rparr>]\<rparr>
      else s\<lparr>st_participants :=
             update_rows (\<lambda>q. pt_conversation q = pt_conversation p \<and> pt_employee q = pt_employee p)
               (\<lambda>q. p\<lparr>pt_created := pt_created q, pt_removed := pt_removed q\<rparr>) (st_participants s)\<rparr>)"

definition fresh_participant :: "string \<Rightarrow> participant_role \<Rightarrow> ms \<Rightarrow> string \<times> string \<Rightarrow> participant" where
  "fresh_participant conversation role now member =
     \<lparr> pt_conversation = conversation, pt_employee = fst member, pt_role = role, pt_sessionFile = [], pt_workspace = [],
       pt_piSession = None, pt_version = snd member, pt_created = now, pt_updated = now, pt_removed = None \<rparr>"

definition createGroupConversation :: "conversation_input \<Rightarrow> (string \<times> string) list \<Rightarrow> ms \<Rightarrow> store \<Rightarrow> store" where
  "createGroupConversation r members now s =
     fold (\<lambda>m s. upsertConversationParticipant
             (fresh_participant (ci_id r) (if ci_coordinator r = Some (fst m) then Coordinator else Member) now m) s)
       members (createConversation r now s)"

definition remove_member :: "string \<Rightarrow> ms \<Rightarrow> string \<Rightarrow> store \<Rightarrow> store" where
  "remove_member conversation now employee s =
     s\<lparr>st_participants :=
         update_rows (\<lambda>p. pt_conversation p = conversation \<and> pt_employee p = employee \<and> pt_removed p = None)
           (\<lambda>p. p\<lparr>pt_removed := Some now, pt_updated := now\<rparr>) (st_participants s)\<rparr>"

definition add_member :: "string \<Rightarrow> ms \<Rightarrow> string \<times> string \<Rightarrow> store \<Rightarrow> store" where
  "add_member conversation now m s =
     (case getConversationParticipant conversation (fst m) s of
        Some _ \<Rightarrow>
          s\<lparr>st_participants :=
              update_rows (\<lambda>p. pt_conversation p = conversation \<and> pt_employee p = fst m)
                (\<lambda>p. p\<lparr>pt_role := Member, pt_version := snd m, pt_removed := None, pt_updated := now\<rparr>) (st_participants s)\<rparr>
      | None \<Rightarrow> upsertConversationParticipant (fresh_participant conversation Member now m) s)"

text \<open>\<open>updateGroupMembers\<close>: one transaction; a failing configuration change rolls the roster back.\<close>

definition updateGroupMembers ::
  "string \<Rightarrow> (string \<times> string) list \<Rightarrow> string list \<Rightarrow> conversation_patch \<Rightarrow> ms \<Rightarrow> store \<Rightarrow> (store_error + conversation) \<times> store" where
  "updateGroupMembers conversation add remove p now s =
     (let s1 = fold (remove_member conversation now) remove s;
          s2 = fold (add_member conversation now) add s1
      in case updateConversation conversation p now s2 of
           Inl e \<Rightarrow> (Inl e, s)
         | Inr (None, _) \<Rightarrow> (Inl ConversationMissing, s)
         | Inr (Some c, s3) \<Rightarrow> (Inr c, s3))"

definition deleteConversationParticipants :: "string \<Rightarrow> store \<Rightarrow> store" where
  "deleteConversationParticipants conversation s =
     s\<lparr>st_participants := delete_rows (\<lambda>p. pt_conversation p = conversation) (st_participants s)\<rparr>"

section \<open>Entry sources\<close>

definition getConversationEntrySource :: "string \<Rightarrow> string \<Rightarrow> string \<Rightarrow> store \<Rightarrow> entry_source option" where
  "getConversationEntrySource conversation employee entry s =
     find (\<lambda>e. es_conversation e = conversation \<and> es_employee e = employee \<and> es_entry e = entry) (st_sources s)"

definition upsertConversationEntrySource :: "entry_source \<Rightarrow> store \<Rightarrow> store" where
  "upsertConversationEntrySource e s =
     (if getConversationEntrySource (es_conversation e) (es_employee e) (es_entry e) s = None
      then s\<lparr>st_sources := st_sources s @ [e]\<rparr>
      else s\<lparr>st_sources :=
             update_rows (\<lambda>q. es_conversation q = es_conversation e \<and> es_employee q = es_employee e \<and> es_entry q = es_entry e)
               (\<lambda>q. e\<lparr>es_created := es_created q\<rparr>) (st_sources s)\<rparr>)"

section \<open>Workspaces\<close>

definition path_within :: "string \<Rightarrow> string \<Rightarrow> bool" where
  "path_within path p \<longleftrightarrow> p = path \<or> prefix (path @ ''/'') p"

definition workspaceInUse :: "string \<Rightarrow> store \<Rightarrow> bool" where
  "workspaceInUse path s \<longleftrightarrow>
     (\<exists>c \<in> set (st_conversations s). path_within path (cv_workspace c))
     \<or> (\<exists>p \<in> set (st_participants s). path_within path (pt_workspace p))
     \<or> (\<exists>m \<in> set (st_moves s). path_within path (wm_new m))"

text \<open>\<open>planWorkspaceMoves\<close>: all or none; \<open>old_path\<close> is the primary key and \<open>new_path\<close> is unique.\<close>

fun insert_moves :: "(string \<times> string) list \<Rightarrow> ms \<Rightarrow> workspace_move list \<Rightarrow> workspace_move list option" where
  "insert_moves [] now ms = Some ms"
| "insert_moves (m # rest) now ms =
     (if \<exists>q \<in> set ms. wm_old q = fst m \<or> wm_new q = snd m then None
      else insert_moves rest now (ms @ [\<lparr> wm_old = fst m, wm_new = snd m, wm_created = now \<rparr>]))"

definition planWorkspaceMoves :: "(string \<times> string) list \<Rightarrow> ms \<Rightarrow> store \<Rightarrow> store_error option \<times> store" where
  "planWorkspaceMoves moves now s =
     (case insert_moves moves now (st_moves s) of
        None \<Rightarrow> (Some UniqueViolation, s)
      | Some ms \<Rightarrow> (None, s\<lparr>st_moves := ms\<rparr>))"

definition finishWorkspaceMove :: "string \<Rightarrow> string \<Rightarrow> store \<Rightarrow> store" where
  "finishWorkspaceMove oldPath newPath s =
     s\<lparr>st_conversations := update_rows (\<lambda>c. cv_workspace c = oldPath) (\<lambda>c. c\<lparr>cv_workspace := newPath\<rparr>) (st_conversations s),
       st_participants := update_rows (\<lambda>p. pt_workspace p = oldPath) (\<lambda>p. p\<lparr>pt_workspace := newPath\<rparr>) (st_participants s),
       st_moves := delete_rows (\<lambda>m. wm_old m = oldPath) (st_moves s)\<rparr>"

section \<open>Facts\<close>

text \<open>The roster as a predicate: who currently takes part.\<close>

definition in_roster :: "string \<Rightarrow> string \<Rightarrow> store \<Rightarrow> bool" where
  "in_roster conversation employee s \<longleftrightarrow>
     (\<exists>p \<in> set (st_participants s). pt_conversation p = conversation \<and> pt_employee p = employee \<and> pt_removed p = None)"

lemma in_roster_listed:
  "in_roster conversation employee s \<longleftrightarrow> employee \<in> pt_employee ` set (listConversationParticipants conversation False s)"
  by (auto simp: in_roster_def listConversationParticipants_def image_iff)

lemma participant_exists_iff:
  "getConversationParticipant c e s = None \<longleftrightarrow> (\<forall>p \<in> set (st_participants s). \<not> (pt_conversation p = c \<and> pt_employee p = e))"
  by (auto simp: getConversationParticipant_def find_None_iff)

lemma remove_member_roster:
  "in_roster c e (remove_member c' now x s) \<longleftrightarrow> in_roster c e s \<and> \<not> (c = c' \<and> e = x)"
  by (fastforce simp: in_roster_def remove_member_def bex_update_rows split: if_splits)

lemma add_member_roster:
  "in_roster c e (add_member c' now m s) \<longleftrightarrow> in_roster c e s \<or> (c = c' \<and> e = fst m)"
proof (cases "getConversationParticipant c' (fst m) s")
  case None
  then show ?thesis
    by (auto simp: add_member_def upsertConversationParticipant_def fresh_participant_def in_roster_def)
next
  case (Some p)
  then have "p \<in> set (st_participants s)" "pt_conversation p = c'" "pt_employee p = fst m"
    by (auto simp: getConversationParticipant_def dest: find_Some_in)
  show ?thesis
  proof (cases "c = c' \<and> e = fst m")
    case True
    with Some \<open>p \<in> _\<close> \<open>pt_conversation p = c'\<close> \<open>pt_employee p = fst m\<close> show ?thesis
      by (auto simp: add_member_def in_roster_def bex_update_rows intro!: bexI [of _ p])
  next
    case False
    have "st_participants (add_member c' now m s) = update_rows (\<lambda>p. pt_conversation p = c' \<and> pt_employee p = fst m)
        (\<lambda>p. p\<lparr>pt_role := Member, pt_version := snd m, pt_removed := None, pt_updated := now\<rparr>) (st_participants s)"
      by (simp add: add_member_def Some)
    then have "in_roster c e (add_member c' now m s) \<longleftrightarrow> in_roster c e s"
      unfolding in_roster_def by (simp only: bex_update_rows, intro bex_cong) (use False in auto)
    with False show ?thesis by blast
  qed
qed

lemma fold_remove_roster:
  "in_roster c e (fold (remove_member c now) xs s) \<longleftrightarrow> in_roster c e s \<and> e \<notin> set xs"
  by (induction xs arbitrary: s) (auto simp: remove_member_roster)

lemma fold_add_roster:
  "in_roster c e (fold (add_member c now) ms s) \<longleftrightarrow> in_roster c e s \<or> e \<in> fst ` set ms"
  by (induction ms arbitrary: s) (auto simp: add_member_roster)

text \<open>Participant rows are never dropped by roster changes: the history of removed members stays.\<close>

definition has_row :: "string \<Rightarrow> string \<Rightarrow> store \<Rightarrow> bool" where
  "has_row c e s \<longleftrightarrow> (\<exists>p \<in> set (st_participants s). pt_conversation p = c \<and> pt_employee p = e)"

lemma remove_member_row [simp]: "has_row c e (remove_member c' now x s) \<longleftrightarrow> has_row c e s"
proof -
  have "st_participants (remove_member c' now x s) =
      update_rows (\<lambda>p. pt_conversation p = c' \<and> pt_employee p = x \<and> pt_removed p = None)
        (\<lambda>p. p\<lparr>pt_removed := Some now, pt_updated := now\<rparr>) (st_participants s)"
    by (simp add: remove_member_def)
  then show ?thesis
    unfolding has_row_def by (simp only: bex_update_rows, intro bex_cong) auto
qed

lemma add_member_row: "has_row c e s \<Longrightarrow> has_row c e (add_member c' now m s)"
  by (cases "getConversationParticipant c' (fst m) s")
    (auto simp: has_row_def add_member_def upsertConversationParticipant_def fresh_participant_def bex_update_rows
      if_distrib cong: if_cong)

lemma fold_add_row: "has_row c e s \<Longrightarrow> has_row c e (fold (add_member c' now) ms s)"
  by (induction ms arbitrary: s) (auto simp: add_member_row)

lemma fold_remove_row [simp]: "has_row c e (fold (remove_member c' now) xs s) \<longleftrightarrow> has_row c e s"
  by (induction xs arbitrary: s) auto

lemma saveConversation_participants [simp]: "st_participants (saveConversation r m now s) = st_participants s"
  by (simp add: saveConversation_def Let_def split: option.splits)

lemma updateConversation_participants:
  "updateConversation i p now s = Inr (c, s') \<Longrightarrow> st_participants s' = st_participants s"
  by (auto simp: updateConversation_def clearScheduleRetry_def Let_def split: option.splits if_splits)

text \<open>The schedule generation of a conversation.\<close>

definition generation_of :: "string \<Rightarrow> store \<Rightarrow> nat option" where
  "generation_of i s = map_option cv_generation (getConversation i s)"

lemma conversation_row_id [simp]: "cv_id (conversation_row r g now) = ci_id r"
  by (simp add: conversation_row_def)

lemma saveConversation_get:
  assumes "getConversation (ci_id r) s = Some c"
  shows "getConversation (ci_id r) (saveConversation r mutation now s) =
     Some ((conversation_row r (cv_generation c + (if mutation \<or> cv_schedule c \<noteq> ci_schedule r then 1 else 0)) now)\<lparr>cv_created := cv_created c\<rparr>)"
proof -
  have "find (\<lambda>c. cv_id c = i) (update_rows (\<lambda>c. cv_id c = i) f cs) = map_option f (find (\<lambda>c. cv_id c = i) cs)"
    if "\<And>c. cv_id (f c) = i" for f i and cs :: "conversation list"
    by (induction cs) (simp_all add: that)
  from this [of "\<lambda>c. (conversation_row r g now)\<lparr>cv_created := cv_created c\<rparr>" "ci_id r" for g] assms show ?thesis
    by (simp add: saveConversation_def getConversation_def Let_def)
qed

section \<open>Properties\<close>

text \<open>A membership change has exactly its intended effect and is atomic: on success the roster is
  the old one without the removed and with the added members, and every earlier participant's row is
  kept as history; on failure the store is unchanged.\<close>

theorem group_roster_update:
  "case updateGroupMembers conversation add remove p now s of
     (Inr c, s') \<Rightarrow>
       (\<forall>e. e \<in> pt_employee ` set (listConversationParticipants conversation False s') \<longleftrightarrow>
          e \<in> fst ` set add \<or> (e \<in> pt_employee ` set (listConversationParticipants conversation False s) \<and> e \<notin> set remove))
       \<and> {e. has_row conversation e s} \<subseteq> {e. has_row conversation e s'}
   | (Inl _, s') \<Rightarrow> s' = s"
proof (cases "fst (updateGroupMembers conversation add remove p now s)")
  case (Inl e)
  then show ?thesis
    by (auto simp: updateGroupMembers_def Let_def split: sum.splits option.splits)
next
  case (Inr c)
  let ?s2 = "fold (add_member conversation now) add (fold (remove_member conversation now) remove s)"
  from Inr obtain s' where upd: "updateConversation conversation p now ?s2 = Inr (Some c, s')"
    and res: "updateGroupMembers conversation add remove p now s = (Inr c, s')"
    by (auto simp: updateGroupMembers_def Let_def split: sum.splits option.splits)
  have rows: "st_participants s' = st_participants ?s2" using upd by (rule updateConversation_participants)
  have "in_roster conversation e s' \<longleftrightarrow> in_roster conversation e ?s2" for e by (simp add: in_roster_def rows)
  moreover have "has_row conversation e s \<Longrightarrow> has_row conversation e s'" for e
    using fold_add_row [of conversation e "fold (remove_member conversation now) remove s" conversation now add]
    unfolding fold_remove_row by (simp add: has_row_def [of conversation e s'] has_row_def [of conversation e ?s2] rows)
  ultimately show ?thesis
    by (auto simp: res in_roster_listed [symmetric] fold_add_roster fold_remove_roster)
qed

lemma updateConversation_generation:
  assumes "getConversation i s = Some c" and "updateConversation i p now s = Inr (res, s')"
  shows "\<exists>c'. res = Some c' \<and> cv_schedule c' = nullish (cp_schedule p) (cv_schedule c)
    \<and> cv_generation c' = cv_generation c + (if cp_schedule p \<noteq> None then 1 else 0)
    \<and> (cp_schedule p \<noteq> None \<longrightarrow> guardSchedule i s = None \<and> withScheduleRetry c' s' = None)"
proof -
  have i: "cv_id c = i" using assms(1) by (auto simp: getConversation_def dest: find_Some_in)
  let ?r = "(apply_patch p (input_of c))\<lparr>ci_updated := Some now\<rparr>"
  have r: "ci_id ?r = i" "ci_schedule ?r = nullish (cp_schedule p) (cv_schedule c)"
    by (simp_all add: apply_patch_def input_of_def i)
  let ?s1 = "saveConversation ?r (cp_schedule p \<noteq> None) now s"
  from assms have guard: "cp_schedule p \<noteq> None \<longrightarrow> guardSchedule i s = None"
    and s': "s' = (if cp_schedule p \<noteq> None then clearScheduleRetry i ?s1 else ?s1)" and res: "res = getConversation i s'"
    by (auto simp: updateConversation_def Let_def split: option.splits if_splits)
  have "getConversation i s' = getConversation i ?s1" by (simp add: s' clearScheduleRetry_def getConversation_def)
  also have "\<dots> = Some ((conversation_row ?r (cv_generation c + (if cp_schedule p \<noteq> None \<or> cv_schedule c \<noteq> ci_schedule ?r then 1 else 0)) now)
      \<lparr>cv_created := cv_created c\<rparr>)"
    using saveConversation_get [of ?r s c "cp_schedule p \<noteq> None" now] assms(1) r(1) by simp
  finally obtain c' where c': "getConversation i s' = Some c'" "cv_schedule c' = nullish (cp_schedule p) (cv_schedule c)"
    "cv_generation c' = cv_generation c + (if cp_schedule p \<noteq> None then 1 else 0)" "cv_id c' = i"
    using r by (cases "cp_schedule p") (auto simp: conversation_row_def)
  moreover have "cp_schedule p \<noteq> None \<longrightarrow> withScheduleRetry c' s' = None"
    by (auto simp: s' withScheduleRetry_def clearScheduleRetry_def c'(4) find_None_iff)
  ultimately show ?thesis using res guard by auto
qed

text \<open>The schedule generation identifies a schedule configuration: an update that carries a schedule
  increases it by one and drops the retry marker, an update that does not carry one leaves generation
  and schedule unchanged, and a retired task binding refuses the change.\<close>

theorem schedule_generation_tracks_changes:
  assumes "getConversation i s = Some c" and "updateConversation i p now s = Inr (res, s')"
  shows "\<exists>c'. res = Some c' \<and> cv_schedule c' = nullish (cp_schedule p) (cv_schedule c)
    \<and> cv_generation c' = cv_generation c + (if cp_schedule p \<noteq> None then 1 else 0)
    \<and> (cp_schedule p \<noteq> None \<longrightarrow> guardSchedule i s = None \<and> withScheduleRetry c' s' = None)"
  by (rule updateConversation_generation [OF assms])

definition demo_conversation :: conversation_input where
  "demo_conversation = \<lparr> ci_id = ''c'', ci_sessionFile = [], ci_workspace = [], ci_title = None, ci_description = None,
     ci_orchestration = None, ci_kind = None, ci_labels = None, ci_state = None, ci_entry = None, ci_coordinator = None,
     ci_solution = None, ci_tenant = Some ''t'', ci_member = Some ''m'',
     ci_schedule = Some (JObj [(''schedule_id'', JStr ''s''), (''revision'', JNum (Fin 1)), (''enabled'', JBool True)]),
     ci_permission = None, ci_lastRead = None, ci_created = None, ci_updated = None \<rparr>"

definition demo_store :: store where
  "demo_store = createConversation demo_conversation 1000 store_init"

lemma demo_store_get:
  "getConversation ''c'' demo_store = Some (conversation_row (demo_conversation\<lparr>ci_created := Some 1000, ci_updated := Some 1000\<rparr>) 0 1000)"
  by (simp add: demo_store_def createConversation_def saveConversation_def store_init_def getConversation_def
      demo_conversation_def conversation_row_def)

theorem schedule_generation_tracks_changes_witness:
  "\<exists>c' s'. updateConversation ''c'' (empty_patch\<lparr>cp_schedule := Some None\<rparr>) 2000 demo_store = Inr (Some c', s')
     \<and> cv_generation c' = 1 \<and> cv_schedule c' = None"
proof -
  let ?p = "empty_patch\<lparr>cp_schedule := Some None\<rparr>"
  have "guardSchedule ''c'' demo_store = None"
    by (simp add: guardSchedule_def task_forConversation_def demo_store_def createConversation_def saveConversation_def
        store_init_def getConversation_def)
  then obtain res s' where u: "updateConversation ''c'' ?p 2000 demo_store = Inr (res, s')"
    using demo_store_get by (auto simp: updateConversation_def Let_def empty_patch_def)
  from schedule_generation_tracks_changes [OF demo_store_get u] u show ?thesis
    by (auto simp: empty_patch_def conversation_row_def)
qed

end
