(* ===== verification/Prompt_Receipts.thy ===== *)
theory Prompt_Receipts
  imports Conversation_Store
begin

text \<open>
  The idempotency receipts of \<open>storage/sqlite.ts\<close>: a prompt is reserved under a key before it runs, its
  lease is renewed while it runs, and its outcome is recorded.  Every method is one transaction;
  \<open>uuid\<close> is the value of \<open>randomUUID()\<close>, \<open>instance\<close> the store's instance identifier.
\<close>

definition DEFAULT_LEASE_MS :: int where "DEFAULT_LEASE_MS = 30000"

definition EXPIRED_DETAIL :: string where
  "EXPIRED_DETAIL = ''Accepted execution lease expired; outcome is unknown and will not be replayed''"

record receipt_view =
  rv_receipt :: receipt
  rv_generation :: "nat option"
  rv_isNew :: bool

record reservation =
  rp_conversation :: string
  rp_caller :: string
  rp_key :: string
  rp_fingerprint :: string
  rp_leaseMs :: "int option"
  rp_oneShot :: bool
  rp_scheduleId :: "string option"
  rp_scheduleRevision :: "int option"
  rp_scheduleGeneration :: "nat option"
  rp_clearRetry :: bool
  rp_occurrenceAt :: "ms option"

definition is_receipt :: "string \<Rightarrow> string \<Rightarrow> string \<Rightarrow> receipt \<Rightarrow> bool" where
  "is_receipt conversation caller key r \<longleftrightarrow>
     rc_conversation r = conversation \<and> rc_caller r = caller \<and> rc_key r = key"

definition find_receipt :: "string \<Rightarrow> string \<Rightarrow> string \<Rightarrow> store \<Rightarrow> receipt option" where
  "find_receipt conversation caller key s = find (is_receipt conversation caller key) (st_receipts s)"

definition lease_over :: "receipt \<Rightarrow> ms \<Rightarrow> bool" where
  "lease_over r now = (case rc_lease r of None \<Rightarrow> True | Some t \<Rightarrow> t \<le> now)"

definition toReceipt :: "receipt \<Rightarrow> receipt_view" where
  "toReceipt r = \<lparr> rv_receipt = r, rv_generation = None, rv_isNew = False \<rparr>"

definition mark_lost :: "string \<Rightarrow> string \<Rightarrow> receipt \<Rightarrow> receipt" where
  "mark_lost code detail r =
     r\<lparr>rc_state := Unknown, rc_lease := None, rc_failureCode := Some code, rc_failureDetail := Some detail\<rparr>"

definition lose_receipt :: "string \<Rightarrow> string \<Rightarrow> string \<Rightarrow> store \<Rightarrow> store" where
  "lose_receipt conversation caller key s =
     s\<lparr>st_receipts := update_rows (\<lambda>r. is_receipt conversation caller key r \<and> rc_state r = Accepted)
         (mark_lost ''execution_unknown'' EXPIRED_DETAIL) (st_receipts s)\<rparr>"

text \<open>\<open>normalizeReceiptOnRead\<close>\<close>

definition normalizeReceiptOnRead :: "receipt \<Rightarrow> ms \<Rightarrow> store \<Rightarrow> receipt \<times> store" where
  "normalizeReceiptOnRead r now s =
     (if rc_state r \<noteq> Accepted \<or> \<not> lease_over r now then (r, s)
      else (mark_lost ''execution_unknown'' EXPIRED_DETAIL r, lose_receipt (rc_conversation r) (rc_caller r) (rc_key r) s))"

definition getPromptReceipt :: "string \<Rightarrow> string \<Rightarrow> string \<Rightarrow> ms \<Rightarrow> store \<Rightarrow> receipt_view option \<times> store" where
  "getPromptReceipt conversation caller key now s =
     (case find_receipt conversation caller key s of
        None \<Rightarrow> (None, s)
      | Some r \<Rightarrow> (let n = normalizeReceiptOnRead r now s in (Some (toReceipt (fst n)), snd n)))"

text \<open>\<open>ORDER BY accepted_at ASC, idempotency_key ASC\<close>\<close>

definition receipt_le :: "receipt \<Rightarrow> receipt \<Rightarrow> bool" where
  "receipt_le a b \<longleftrightarrow> rc_accepted a < rc_accepted b
     \<or> (rc_accepted a = rc_accepted b \<and> bytes_le (map of_char (rc_key a)) (map of_char (rc_key b)))"

definition listPromptReceipts :: "string \<Rightarrow> string \<Rightarrow> ms \<Rightarrow> store \<Rightarrow> receipt_view list \<times> store" where
  "listPromptReceipts conversation caller now s =
     (let rows = sort_by receipt_le (filter (\<lambda>r. rc_conversation r = conversation \<and> rc_caller r = caller) (st_receipts s))
      in (map (\<lambda>r. toReceipt (fst (normalizeReceiptOnRead r now s))) rows,
          fold (\<lambda>r s. snd (normalizeReceiptOnRead r now s)) rows s))"

section \<open>Reservation\<close>

text \<open>The schedule the reservation was captured from must still be the current, enabled one.\<close>

definition sched_enabled :: "conversation \<Rightarrow> bool" where
  "sched_enabled c \<longleftrightarrow> sched_field c ''enabled'' = JBool True \<or> js_integer (sched_field c ''enabled'') = Some 1"

definition schedule_current :: "reservation \<Rightarrow> store \<Rightarrow> bool" where
  "schedule_current q s =
     (case (rp_scheduleId q, rp_scheduleRevision q) of
        (Some sid, Some revision) \<Rightarrow>
          (case getConversation (rp_conversation q) s of
             None \<Rightarrow> False
           | Some c \<Rightarrow> sched_is c sid revision \<and> sched_enabled c \<and> opt_eq (rp_scheduleGeneration q) (cv_generation c))
      | _ \<Rightarrow> True)"

text \<open>The one-shot update: switch the captured schedule off.\<close>

definition consumes_schedule :: "reservation \<Rightarrow> conversation \<Rightarrow> bool" where
  "consumes_schedule q c \<longleftrightarrow> cv_id c = rp_conversation q
     \<and> (case rp_scheduleId q of None \<Rightarrow> True | Some sid \<Rightarrow> sched_field c ''schedule_id'' = JStr sid)
     \<and> (case rp_scheduleRevision q of None \<Rightarrow> True | Some v \<Rightarrow> js_integer (sched_field c ''revision'') = Some v)
     \<and> opt_eq (rp_scheduleGeneration q) (cv_generation c)"

definition consume_oneShot :: "reservation \<Rightarrow> ms \<Rightarrow> store \<Rightarrow> store" where
  "consume_oneShot q now s =
     (if rp_oneShot q
      then s\<lparr>st_conversations := update_rows (consumes_schedule q) (set_enabled False now) (st_conversations s)\<rparr>
      else s)"

text \<open>The read-back that the update switched the schedule off.\<close>

definition oneShot_consumed :: "reservation \<Rightarrow> store \<Rightarrow> bool" where
  "oneShot_consumed q s =
     (case (rp_oneShot q, rp_scheduleId q, rp_scheduleRevision q) of
        (True, Some sid, Some revision) \<Rightarrow>
          (case getConversation (rp_conversation q) s of
             None \<Rightarrow> False
           | Some c \<Rightarrow> sched_is c sid revision \<and> sched_field c ''enabled'' = JBool False
               \<and> (case rp_scheduleGeneration q of None \<Rightarrow> True | Some g \<Rightarrow> cv_generation c = g + 1))
      | _ \<Rightarrow> True)"

definition reserve_occurrence :: "reservation \<Rightarrow> store \<Rightarrow> store_error + store" where
  "reserve_occurrence q s =
     (case (rp_occurrenceAt q, rp_scheduleId q) of
        (Some t, Some sid) \<Rightarrow>
          if sid = [] then Inr s
          else (case getConversation (rp_conversation q) s of
            None \<Rightarrow> Inl ConversationMissing
          | Some c \<Rightarrow>
              (case (cv_tenant c, cv_member c, rp_scheduleRevision q) of
                 (Some tenant, Some member, Some revision) \<Rightarrow>
                   record_occurrence \<lparr> oc_id = rp_key q, oc_conversation = cv_id c, oc_tenant = tenant, oc_member = member,
                     oc_schedule = sid, oc_at = t, oc_revision = revision, oc_caller = Some (rp_caller q),
                     oc_receipt = (if rp_caller q = [] then None else Some (rp_key q)), oc_reason = None \<rparr> s
               | _ \<Rightarrow> Inl UniqueViolation))
      | _ \<Rightarrow> Inr s)"

definition new_receipt :: "reservation \<Rightarrow> string \<Rightarrow> ms \<Rightarrow> receipt" where
  "new_receipt q uuid now =
     \<lparr> rc_conversation = rp_conversation q, rc_caller = rp_caller q, rc_key = rp_key q, rc_fingerprint = rp_fingerprint q,
       rc_state = Accepted, rc_owner = Some uuid, rc_lease = Some (now + nullish (rp_leaseMs q) DEFAULT_LEASE_MS),
       rc_accepted = now, rc_completed = None, rc_lastEntry = None, rc_failureCode = None, rc_failureDetail = None \<rparr>"

text \<open>The part behind the insert; an error rolls the whole transaction back.\<close>

definition reserve_new :: "reservation \<Rightarrow> string \<Rightarrow> ms \<Rightarrow> store \<Rightarrow> store_error + store" where
  "reserve_new q uuid now s =
     (let s1 = s\<lparr>st_receipts := st_receipts s @ [new_receipt q uuid now]\<rparr>
      in if \<not> schedule_current q s1 then Inl ScheduleRevisionConflict
         else (let s2 = consume_oneShot q now s1
               in if \<not> oneShot_consumed q s2 then Inl ScheduleRevisionConflict
                  else (case reserve_occurrence q s2 of
                          Inl e \<Rightarrow> Inl e
                        | Inr s3 \<Rightarrow> Inr (if rp_clearRetry q then clearScheduleRetry (rp_conversation q) s3 else s3))))"

definition reservePrompt :: "reservation \<Rightarrow> string \<Rightarrow> ms \<Rightarrow> store \<Rightarrow> (store_error + receipt_view) \<times> store" where
  "reservePrompt q uuid now s =
     (case find_receipt (rp_conversation q) (rp_caller q) (rp_key q) s of
        Some r \<Rightarrow>
          if rc_fingerprint r \<noteq> rp_fingerprint q then (Inl IdempotencyConflict, s)
          else if rc_state r = Completed then (Inr (toReceipt r), s)
          else if rc_state r = Unknown then (Inl IdempotencyUnknown, s)
          else if \<not> lease_over r now then (Inr (toReceipt r), s)
          else (Inl IdempotencyUnknown, lose_receipt (rp_conversation q) (rp_caller q) (rp_key q) s)
      | None \<Rightarrow>
          (case reserve_new q uuid now s of
             Inl e \<Rightarrow> (Inl e, s)
           | Inr s' \<Rightarrow>
               (Inr \<lparr> rv_receipt = new_receipt q uuid now,
                      rv_generation = (if rp_oneShot q then map_option Suc (rp_scheduleGeneration q) else None),
                      rv_isNew = True \<rparr>, s')))"

section \<open>Outcome\<close>

definition owned_receipt :: "string \<Rightarrow> string \<Rightarrow> string \<Rightarrow> string \<Rightarrow> receipt \<Rightarrow> bool" where
  "owned_receipt conversation caller key owner r \<longleftrightarrow>
     is_receipt conversation caller key r \<and> rc_state r = Accepted \<and> rc_owner r = Some owner"

definition update_owned ::
  "string \<Rightarrow> string \<Rightarrow> string \<Rightarrow> string \<Rightarrow> (receipt \<Rightarrow> receipt) \<Rightarrow> store \<Rightarrow> store" where
  "update_owned conversation caller key owner f s =
     s\<lparr>st_receipts := update_rows (owned_receipt conversation caller key owner) f (st_receipts s)\<rparr>"

definition renewLease ::
  "string \<Rightarrow> string \<Rightarrow> string \<Rightarrow> string option \<Rightarrow> string \<Rightarrow> int \<Rightarrow> ms \<Rightarrow> store \<Rightarrow> store" where
  "renewLease conversation caller key ownerInstance instance' leaseMs now s =
     update_owned conversation caller key (nullish ownerInstance instance')
       (\<lambda>r. r\<lparr>rc_lease := Some (now + leaseMs)\<rparr>) s"

definition markCompleted ::
  "string \<Rightarrow> string \<Rightarrow> string \<Rightarrow> string option \<Rightarrow> string option \<Rightarrow> string \<Rightarrow> ms \<Rightarrow> store \<Rightarrow> store" where
  "markCompleted conversation caller key lastEntry ownerInstance instance' now s =
     update_owned conversation caller key (nullish ownerInstance instance')
       (\<lambda>r. r\<lparr>rc_state := Completed, rc_completed := Some now, rc_lease := None, rc_lastEntry := lastEntry,
               rc_failureCode := None, rc_failureDetail := None\<rparr>) s"

definition markUnknown ::
  "string \<Rightarrow> string \<Rightarrow> string \<Rightarrow> string option \<Rightarrow> string \<Rightarrow> int \<Rightarrow> string option \<Rightarrow> string option \<Rightarrow> ms \<Rightarrow> store \<Rightarrow> store" where
  "markUnknown conversation caller key ownerInstance instance' retryAfterMs code detail now s =
     update_owned conversation caller key (nullish ownerInstance instance')
       (\<lambda>r. r\<lparr>rc_state := Unknown, rc_lease := Some (now + retryAfterMs),
               rc_failureCode := Some (nullish (map_option (take 96) code) ''execution_unknown''),
               rc_failureDetail := Some (nullish (map_option (take 300) detail)
                  ''Execution outcome is unknown; do not retry automatically'')\<rparr>) s"

record retry_request =
  rr_scheduleId :: string
  rr_occurrence :: ms
  rr_revision :: int
  rr_generation :: nat
  rr_reason :: "string option"

definition retry_matches :: "string \<Rightarrow> retry_request \<Rightarrow> store \<Rightarrow> bool" where
  "retry_matches conversation q s =
     (case getConversation conversation s of
        None \<Rightarrow> False
      | Some c \<Rightarrow> sched_is c (rr_scheduleId q) (rr_revision q) \<and> cv_generation c = rr_generation q)"

definition reopen_schedule :: "string \<Rightarrow> retry_request \<Rightarrow> ms \<Rightarrow> store \<Rightarrow> store" where
  "reopen_schedule conversation q now s =
     setScheduleRetry
       \<lparr> sr_conversation = conversation, sr_scheduleId = rr_scheduleId q, sr_occurrence = rr_occurrence q,
         sr_revision = rr_revision q, sr_generation = rr_generation q + 1,
         sr_reason = nullish (rr_reason q) ''authorization_required'', sr_created = now \<rparr>
       (s\<lparr>st_conversations :=
           update_rows (\<lambda>c. cv_id c = conversation \<and> sched_is c (rr_scheduleId q) (rr_revision q) \<and> cv_generation c = rr_generation q)
             (set_enabled True now) (st_conversations s)\<rparr>)"

definition releasePreExecutionPrompt ::
  "string \<Rightarrow> string \<Rightarrow> string \<Rightarrow> string option \<Rightarrow> string \<Rightarrow> bool \<Rightarrow> retry_request option \<Rightarrow> ms \<Rightarrow> store \<Rightarrow> bool \<times> store" where
  "releasePreExecutionPrompt conversation caller key ownerInstance instance' oneShot retry now s =
     (let p = owned_receipt conversation caller key (nullish ownerInstance instance');
          released = (changed p (st_receipts s) > 0);
          s1 = s\<lparr>st_receipts := delete_rows p (st_receipts s)\<rparr>
      in case retry of
           Some q \<Rightarrow>
             if released \<and> oneShot
             then (if retry_matches conversation q s1 then (True, reopen_schedule conversation q now s1) else (False, s1))
             else (released, s1)
         | None \<Rightarrow> (released, s1))"

text \<open>The statement of the store's constructor on receipts of earlier instances.\<close>

definition restartReceipts :: "string \<Rightarrow> ms \<Rightarrow> store \<Rightarrow> store" where
  "restartReceipts instance' now s =
     s\<lparr>st_receipts := update_rows (\<lambda>r. rc_state r = Accepted \<and> (rc_owner r \<noteq> Some instance' \<or> lease_over r now))
         (mark_lost ''process_restart'' ''Execution state was not proven across Agent restart'') (st_receipts s)\<rparr>"

section \<open>Runs\<close>

text \<open>The history of a store under its receipt operations.  \<open>pr_started\<close> lists the keys under which an
  execution was started (a reservation reported as new) and not released before it ran.\<close>

record prompt_sys =
  pr_store :: store
  pr_started :: "(string \<times> string \<times> string) list"

definition started_by :: "reservation \<Rightarrow> store_error + receipt_view \<Rightarrow> (string \<times> string \<times> string) list" where
  "started_by q res = (case res of Inr v \<Rightarrow> if rv_isNew v then [(rp_conversation q, rp_caller q, rp_key q)] else [] | Inl _ \<Rightarrow> [])"

inductive prompt_step :: "prompt_sys \<Rightarrow> prompt_sys \<Rightarrow> bool" where
  step_reserve: "reservePrompt q uuid now (pr_store s) = (res, st) \<Longrightarrow>
     prompt_step s (s\<lparr>pr_store := st, pr_started := pr_started s @ started_by q res\<rparr>)"
| step_read: "prompt_step s (s\<lparr>pr_store := snd (getPromptReceipt c k i now (pr_store s))\<rparr>)"
| step_listReceipts: "prompt_step s (s\<lparr>pr_store := snd (listPromptReceipts c k now (pr_store s))\<rparr>)"
| step_renew: "prompt_step s (s\<lparr>pr_store := renewLease c k i owner inst leaseMs now (pr_store s)\<rparr>)"
| step_completed: "prompt_step s (s\<lparr>pr_store := markCompleted c k i entry owner inst now (pr_store s)\<rparr>)"
| step_unknown: "prompt_step s (s\<lparr>pr_store := markUnknown c k i owner inst after code detail now (pr_store s)\<rparr>)"
| step_release: "releasePreExecutionPrompt c k i owner inst oneShot retry now (pr_store s) = (ok, st) \<Longrightarrow>
     prompt_step s (s\<lparr>pr_store := st,
       pr_started := (if find_receipt c k i st = None then removeAll (c, k, i) (pr_started s) else pr_started s)\<rparr>)"
| step_restart_receipts: "prompt_step s (s\<lparr>pr_store := restartReceipts inst now (pr_store s)\<rparr>)"

definition prompt_init :: "prompt_sys \<Rightarrow> bool" where
  "prompt_init s \<longleftrightarrow> st_receipts (pr_store s) = [] \<and> pr_started s = []"

section \<open>Invariant\<close>

definition receipt_id :: "receipt \<Rightarrow> string \<times> string \<times> string" where
  "receipt_id r = (rc_conversation r, rc_caller r, rc_key r)"

definition receipt_ids :: "store \<Rightarrow> (string \<times> string \<times> string) list" where
  "receipt_ids s = map receipt_id (st_receipts s)"

definition prompt_inv :: "prompt_sys \<Rightarrow> bool" where
  "prompt_inv s \<longleftrightarrow> distinct (receipt_ids (pr_store s)) \<and> distinct (pr_started s)
     \<and> set (pr_started s) \<subseteq> set (receipt_ids (pr_store s))"

lemma is_receipt_id: "is_receipt c k i r \<longleftrightarrow> receipt_id r = (c, k, i)"
  by (auto simp: is_receipt_def receipt_id_def)

lemma find_receipt_None: "find_receipt c k i s = None \<longleftrightarrow> (c, k, i) \<notin> set (receipt_ids s)"
  unfolding find_receipt_def find_None_iff receipt_ids_def set_map is_receipt_id by (auto simp: image_iff)

lemma find_receipt_Some: "find_receipt c k i s = Some r \<Longrightarrow> r \<in> set (st_receipts s) \<and> receipt_id r = (c, k, i)"
  by (auto simp: find_receipt_def is_receipt_id dest: find_Some_in)

interpretation lost: row_update receipt_id "mark_lost code detail" for code detail
  by unfold_locales (simp add: mark_lost_def receipt_id_def)

lemma lose_receipt_ids [simp]: "receipt_ids (lose_receipt c k i s) = receipt_ids s"
  by (simp add: lose_receipt_def receipt_ids_def lost.keys_update)

lemma normalize_ids [simp]: "receipt_ids (snd (normalizeReceiptOnRead r now s)) = receipt_ids s"
  by (simp add: normalizeReceiptOnRead_def)

lemma getPromptReceipt_ids [simp]: "receipt_ids (snd (getPromptReceipt c k i now s)) = receipt_ids s"
  by (simp add: getPromptReceipt_def Let_def split: option.splits)

lemma listPromptReceipts_ids [simp]: "receipt_ids (snd (listPromptReceipts c k now s)) = receipt_ids s"
  unfolding listPromptReceipts_def Let_def snd_conv
  by (rule fold_preserves [where P = "\<lambda>t. receipt_ids t = receipt_ids s"]) simp_all

lemma update_owned_ids: "(\<And>r. receipt_id (f r) = receipt_id r) \<Longrightarrow> receipt_ids (update_owned c k i owner f s) = receipt_ids s"
  by (simp add: update_owned_def receipt_ids_def row_update.keys_update [OF row_update.intro])

lemma outcome_ids [simp]:
  "receipt_ids (renewLease c k i owner inst leaseMs now s) = receipt_ids s"
  "receipt_ids (markCompleted c k i entry owner inst now s) = receipt_ids s"
  "receipt_ids (markUnknown c k i owner inst after code detail now s) = receipt_ids s"
  by (simp_all add: renewLease_def markCompleted_def markUnknown_def update_owned_ids receipt_id_def)

lemma restart_ids [simp]: "receipt_ids (restartReceipts inst now s) = receipt_ids s"
  by (simp add: restartReceipts_def receipt_ids_def lost.keys_update)

lemma reserve_occurrence_receipts: "reserve_occurrence q s = Inr s' \<Longrightarrow> st_receipts s' = st_receipts s"
  by (auto simp: reserve_occurrence_def record_occurrence_def split: option.splits if_splits)

lemma reserve_new_receipts: "reserve_new q uuid now s = Inr s' \<Longrightarrow> st_receipts s' = st_receipts s @ [new_receipt q uuid now]"
  by (auto simp: reserve_new_def clearScheduleRetry_def consume_oneShot_def Let_def split: if_splits sum.splits
      dest!: reserve_occurrence_receipts)

lemma reservePrompt_ids:
  assumes "reservePrompt q uuid now s = (res, s')"
  shows "(started_by q res = [] \<and> receipt_ids s' = receipt_ids s)
    \<or> (started_by q res = [(rp_conversation q, rp_caller q, rp_key q)]
       \<and> (rp_conversation q, rp_caller q, rp_key q) \<notin> set (receipt_ids s)
       \<and> receipt_ids s' = receipt_ids s @ [(rp_conversation q, rp_caller q, rp_key q)])"
proof (cases "find_receipt (rp_conversation q) (rp_caller q) (rp_key q) s")
  case None
  with assms show ?thesis
    by (auto simp: reservePrompt_def started_by_def find_receipt_None receipt_ids_def new_receipt_def receipt_id_def
        split: sum.splits dest!: reserve_new_receipts)
next
  case (Some r)
  with assms show ?thesis
    by (auto simp: reservePrompt_def started_by_def toReceipt_def split: if_splits)
qed

lemma release_ids:
  assumes "releasePreExecutionPrompt c k i owner inst oneShot retry now s = (ok, s')"
  shows "st_receipts s' = delete_rows (owned_receipt c k i (nullish owner inst)) (st_receipts s)"
  using assms
  by (auto simp: releasePreExecutionPrompt_def reopen_schedule_def setScheduleRetry_def Let_def split: option.splits if_splits)

lemma prompt_step_inv: "prompt_step s t \<Longrightarrow> prompt_inv s \<Longrightarrow> prompt_inv t"
proof (induction rule: prompt_step.induct)
  case (step_reserve q uuid now s res st)
  from reservePrompt_ids [OF step_reserve.hyps] step_reserve.prems show ?case
    by (auto simp: prompt_inv_def)
next
  case (step_release c k i owner inst oneShot retry now s ok st)
  let ?p = "owned_receipt c k i (nullish owner inst)"
  have st: "st_receipts st = delete_rows ?p (st_receipts (pr_store s))" using step_release.hyps by (rule release_ids)
  have "distinct (receipt_ids st)"
    using step_release.prems by (simp add: prompt_inv_def receipt_ids_def st distinct_key_delete)
  moreover have "x \<in> set (receipt_ids st)" if "x \<in> set (receipt_ids (pr_store s))" "x \<noteq> (c, k, i)" for x
    using that by (auto simp: receipt_ids_def st owned_receipt_def is_receipt_id)
  ultimately show ?case
    using step_release.prems by (auto simp: prompt_inv_def find_receipt_None distinct_removeAll)
qed (simp_all add: prompt_inv_def)

interpretation prompts: invariant_system prompt_init prompt_step prompt_inv
proof unfold_locales
  show "prompt_init s \<Longrightarrow> prompt_inv s" for s by (simp add: prompt_init_def prompt_inv_def receipt_ids_def)
  show "prompt_inv s \<Longrightarrow> prompt_step s t \<Longrightarrow> prompt_inv t" for s t by (rule prompt_step_inv)
qed

section \<open>Properties\<close>

text \<open>(C3) A prompt key executes at most once: in every history of reservations, renewals, outcomes, reads,
  releases and restarts, no key is started twice, and a key that was started (and not released before
  execution) is never reported as new again.\<close>

theorem prompt_starts_at_most_once:
  assumes "reach prompt_init prompt_step s"
  shows "distinct (pr_started s)
    \<and> (\<forall>q uuid now v st. (rp_conversation q, rp_caller q, rp_key q) \<in> set (pr_started s) \<longrightarrow>
         reservePrompt q uuid now (pr_store s) = (Inr v, st) \<longrightarrow> \<not> rv_isNew v)"
proof (intro conjI allI impI)
  have inv: "prompt_inv s" using assms by (rule prompts.reach_inv)
  then show "distinct (pr_started s)" by (simp add: prompt_inv_def)
  fix q uuid now v st
  assume "(rp_conversation q, rp_caller q, rp_key q) \<in> set (pr_started s)"
    and res: "reservePrompt q uuid now (pr_store s) = (Inr v, st)"
  then have "(rp_conversation q, rp_caller q, rp_key q) \<in> set (receipt_ids (pr_store s))"
    using inv by (auto simp: prompt_inv_def)
  with reservePrompt_ids [OF res] show "\<not> rv_isNew v" by (auto simp: started_by_def)
qed

definition demo_reservation :: reservation where
  "demo_reservation = \<lparr> rp_conversation = ''c'', rp_caller = ''m'', rp_key = ''k'', rp_fingerprint = ''f'', rp_leaseMs = None,
     rp_oneShot = True, rp_scheduleId = Some ''s'', rp_scheduleRevision = Some 1, rp_scheduleGeneration = Some 0,
     rp_clearRetry = True, rp_occurrenceAt = Some 5000 \<rparr>"

lemmas demo_reserve_simps = reservePrompt_def demo_reservation_def demo_store_def createConversation_def saveConversation_def
  store_init_def getConversation_def demo_conversation_def conversation_row_def find_receipt_def reserve_new_def
  schedule_current_def sched_is_def sched_field_def sched_enabled_def opt_eq_def consume_oneShot_def consumes_schedule_def
  set_enabled_def oneShot_consumed_def reserve_occurrence_def record_occurrence_def clearScheduleRetry_def rat_is_int_def
  Let_def

definition demo_reserved :: store where
  "demo_reserved = snd (reservePrompt demo_reservation ''u'' 2000 demo_store)"

lemma demo_reserves:
  "reservePrompt demo_reservation ''u'' 2000 demo_store =
     (Inr \<lparr> rv_receipt = new_receipt demo_reservation ''u'' 2000, rv_generation = Some 1, rv_isNew = True \<rparr>, demo_reserved)"
  unfolding demo_reserved_def by (simp add: demo_reserve_simps)

lemma demo_replays: "\<exists>v st. reservePrompt demo_reservation ''v'' 3000 demo_reserved = (Inr v, st)"
  unfolding demo_reserved_def by (simp add: demo_reserve_simps is_receipt_def new_receipt_def lease_over_def DEFAULT_LEASE_MS_def)

theorem prompt_starts_at_most_once_witness:
  "\<exists>v st. reservePrompt demo_reservation ''v'' 3000 demo_reserved = (Inr v, st) \<and> \<not> rv_isNew v"
proof -
  let ?i = "\<lparr> pr_store = demo_store, pr_started = [] \<rparr>"
  have "prompt_init ?i" by (simp add: prompt_init_def demo_reserve_simps)
  moreover have "prompt_step ?i (?i\<lparr>pr_store := demo_reserved, pr_started := pr_started ?i @ [(''c'', ''m'', ''k'')]\<rparr>)"
    using prompt_step.step_reserve [of demo_reservation "''u''" 2000 ?i] demo_reserves
    by (simp add: started_by_def demo_reservation_def)
  ultimately have "reach prompt_init prompt_step \<lparr> pr_store = demo_reserved, pr_started = [(''c'', ''m'', ''k'')] \<rparr>"
    by (auto intro: reach.intros)
  note once = prompt_starts_at_most_once [OF this]
  obtain v st where v: "reservePrompt demo_reservation ''v'' 3000 demo_reserved = (Inr v, st)" using demo_replays by blast
  have "(rp_conversation demo_reservation, rp_caller demo_reservation, rp_key demo_reservation) = (''c'', ''m'', ''k'')"
    by (simp add: demo_reservation_def)
  with once v have "\<not> rv_isNew v" by simp blast
  with v show ?thesis by blast
qed

section \<open>One-shot schedules\<close>

lemma reserve_occurrence_conversations:
  "reserve_occurrence q s = Inr s' \<Longrightarrow> st_conversations s' = st_conversations s \<and> st_retries s' = st_retries s"
  by (auto simp: reserve_occurrence_def record_occurrence_def split: option.splits if_splits)

lemma getConversation_receipts [simp]: "getConversation i (s\<lparr>st_receipts := rs\<rparr>) = getConversation i s"
  by (simp add: getConversation_def)

lemma schedule_current_receipts [simp]: "schedule_current q (s\<lparr>st_receipts := rs\<rparr>) = schedule_current q s"
  unfolding schedule_current_def getConversation_receipts ..

lemma oneShot_consumed_receipts [simp]: "oneShot_consumed q (s\<lparr>st_receipts := rs\<rparr>) = oneShot_consumed q s"
  unfolding oneShot_consumed_def getConversation_receipts ..

lemma retry_matches_receipts [simp]: "retry_matches i q (s\<lparr>st_receipts := rs\<rparr>) = retry_matches i q s"
  by (simp add: retry_matches_def)

lemma reserve_new_cases:
  assumes "reserve_new q uuid now s = Inr s'"
  shows "schedule_current q s \<and> oneShot_consumed q (consume_oneShot q now s)
    \<and> st_conversations s' = st_conversations (consume_oneShot q now s)
    \<and> st_receipts s' = st_receipts s @ [new_receipt q uuid now]"
proof -
  let ?r = "st_receipts s @ [new_receipt q uuid now]"
  have cons: "consume_oneShot q now (s\<lparr>st_receipts := ?r\<rparr>) = (consume_oneShot q now s)\<lparr>st_receipts := ?r\<rparr>"
    by (simp add: consume_oneShot_def)
  from assms obtain s3 where "schedule_current q s" "oneShot_consumed q (consume_oneShot q now s)"
    "reserve_occurrence q ((consume_oneShot q now s)\<lparr>st_receipts := ?r\<rparr>) = Inr s3"
    "s' = (if rp_clearRetry q then clearScheduleRetry (rp_conversation q) s3 else s3)"
    by (auto simp: reserve_new_def Let_def cons split: if_splits sum.splits)
  with reserve_occurrence_conversations [of q _ s3] reserve_occurrence_receipts [of q _ s3] show ?thesis
    by (auto simp: clearScheduleRetry_def)
qed

lemma reserved_new:
  assumes "reservePrompt q uuid now s = (Inr v, s')" "rv_isNew v"
  shows "find_receipt (rp_conversation q) (rp_caller q) (rp_key q) s = None \<and> reserve_new q uuid now s = Inr s'
    \<and> rv_receipt v = new_receipt q uuid now"
  using assms by (auto simp: reservePrompt_def toReceipt_def split: option.splits if_splits sum.splits)

lemma find_update_rows:
  "(\<And>c. cv_id (f c) = cv_id c) \<Longrightarrow>
   find (\<lambda>c. cv_id c = i) (update_rows p f rows) = map_option (\<lambda>c. if p c then f c else c) (find (\<lambda>c. cv_id c = i) rows)"
  by (induction rows) simp_all

lemma getConversation_consume:
  "rp_oneShot q \<Longrightarrow> getConversation i (consume_oneShot q now s) =
     map_option (\<lambda>c. if consumes_schedule q c then set_enabled False now c else c) (getConversation i s)"
  by (simp add: consume_oneShot_def getConversation_def find_update_rows set_enabled_def)

lemma getConversation_rows: "st_conversations s = st_conversations t \<Longrightarrow> getConversation i s = getConversation i t"
  by (simp add: getConversation_def)

lemma getConversation_id: "getConversation i s = Some c \<Longrightarrow> cv_id c = i"
  by (auto simp: getConversation_def dest: find_Some_in)

lemma one_shot_consumed:
  assumes new: "reserve_new q uuid now s = Inr s'"
    and q: "rp_oneShot q" "rp_scheduleId q = Some sid" "rp_scheduleRevision q = Some revision"
  shows "\<exists>c. getConversation (rp_conversation q) s = Some c \<and> sched_is c sid revision \<and> sched_enabled c
     \<and> opt_eq (rp_scheduleGeneration q) (cv_generation c)
     \<and> sched_is (set_enabled False now c) sid revision
     \<and> sched_field (set_enabled False now c) ''enabled'' = JBool False
     \<and> getConversation (rp_conversation q) s' = Some (set_enabled False now c)"
proof -
  note n = reserve_new_cases [OF new]
  from n q obtain c where c: "getConversation (rp_conversation q) s = Some c" "sched_is c sid revision" "sched_enabled c"
    "opt_eq (rp_scheduleGeneration q) (cv_generation c)"
    by (auto simp: schedule_current_def split: option.splits)
  then have "consumes_schedule q c"
    using q getConversation_id [OF c(1)] by (simp add: consumes_schedule_def sched_is_def)
  then have "getConversation (rp_conversation q) (consume_oneShot q now s) = Some (set_enabled False now c)"
    using c q by (simp add: getConversation_consume)
  with n q c getConversation_rows [of s' "consume_oneShot q now s"] show ?thesis
    by (auto simp: oneShot_consumed_def)
qed



section \<open>Release before execution\<close>

lemma sched_is_set_enabled:
  "sched_is c sid revision \<Longrightarrow> sched_is (set_enabled b now c) sid revision \<and> sched_field (set_enabled b now c) ''enabled'' = JBool b"
proof -
  assume c: "sched_is c sid revision"
  then obtain fs where fs: "cv_schedule c = Some (JObj fs)"
    by (cases "nullish (cv_schedule c) JNull") (auto simp: sched_is_def sched_field_def nullish_def split: option.splits)
  have "map_of (omap_set k v fs) = (map_of fs)(k \<mapsto> v)" for k v
    using omap_get_set [of k v fs] by (simp add: omap_get_def [abs_def])
  with c fs show ?thesis by (simp add: sched_is_def sched_field_def set_enabled_def)
qed

lemma getConversation_reopen:
  assumes "getConversation i s = Some c" "sched_is c (rr_scheduleId q) (rr_revision q)" "cv_generation c = rr_generation q"
  shows "getConversation i (reopen_schedule i q now s) = Some (set_enabled True now c)"
  using assms getConversation_id [OF assms(1)]
  by (simp add: reopen_schedule_def setScheduleRetry_def getConversation_def find_update_rows set_enabled_def)

lemma reopen_retry:
  "\<exists>r \<in> set (st_retries (reopen_schedule i q now s)). sr_conversation r = i \<and> sr_scheduleId r = rr_scheduleId q
     \<and> sr_occurrence r = rr_occurrence q \<and> sr_generation r = rr_generation q + 1"
  by (simp add: reopen_schedule_def setScheduleRetry_def bex_update_rows)


definition demo_retry :: retry_request where
  "demo_retry = \<lparr> rr_scheduleId = ''s'', rr_occurrence = 5000, rr_revision = 1, rr_generation = 1, rr_reason = None \<rparr>"


section \<open>Restart\<close>

text \<open>(C8) An uncertain execution is never replayed.  After a restart under a fresh instance identifier no receipt is
  left accepted; a reservation of a key whose receipt was not completed is refused without
  changing the store, and one whose receipt was completed returns that receipt, not as new.\<close>

theorem restart_never_replays:
  assumes fresh: "\<forall>r \<in> set (st_receipts s). rc_owner r \<noteq> Some inst"
    and r: "find_receipt (rp_conversation q) (rp_caller q) (rp_key q) s = Some r"
  shows "(\<forall>r \<in> set (st_receipts (restartReceipts inst now s)). rc_state r \<noteq> Accepted)
    \<and> reservePrompt q uuid later (restartReceipts inst now s) =
       (if rc_fingerprint r \<noteq> rp_fingerprint q then Inl IdempotencyConflict
        else if rc_state r = Completed then Inr (toReceipt r) else Inl IdempotencyUnknown,
        restartReceipts inst now s)"
proof -
  let ?p = "\<lambda>r. rc_state r = Accepted \<and> (rc_owner r \<noteq> Some inst \<or> lease_over r now)"
  let ?f = "mark_lost ''process_restart'' ''Execution state was not proven across Agent restart''"
  have f: "find_receipt c k i (restartReceipts inst now s) = map_option (\<lambda>r. if ?p r then ?f r else r) (find_receipt c k i s)" for c k i
    using lost.find_update [of "(c, k, i)" ?p] by (simp add: find_receipt_def restartReceipts_def is_receipt_id [abs_def])
  have "r \<in> set (st_receipts s)" using r by (auto simp: find_receipt_def dest: find_Some_in)
  with fresh r f [of "rp_conversation q" "rp_caller q" "rp_key q"] have
    "reservePrompt q uuid later (restartReceipts inst now s) =
       (if rc_fingerprint r \<noteq> rp_fingerprint q then Inl IdempotencyConflict
        else if rc_state r = Completed then Inr (toReceipt r) else Inl IdempotencyUnknown,
        restartReceipts inst now s)"
    by (cases "rc_state r") (auto simp: reservePrompt_def mark_lost_def)
  moreover have "\<forall>r \<in> set (st_receipts (restartReceipts inst now s)). rc_state r \<noteq> Accepted"
    using fresh by (auto simp: restartReceipts_def set_update_rows mark_lost_def)
  ultimately show ?thesis by blast
qed

theorem restart_never_replays_witness:
  "fst (reservePrompt demo_reservation ''u2'' 9000 (restartReceipts ''i2'' 8000 demo_reserved)) = Inl IdempotencyUnknown"
proof -
  have rows: "st_receipts demo_reserved = [new_receipt demo_reservation ''u'' 2000]"
    unfolding demo_reserved_def by (simp add: demo_reserve_simps)
  then have f: "find_receipt (rp_conversation demo_reservation) (rp_caller demo_reservation) (rp_key demo_reservation) demo_reserved
      = Some (new_receipt demo_reservation ''u'' 2000)"
    by (simp add: find_receipt_def is_receipt_def new_receipt_def)
  have fresh: "\<forall>r \<in> set (st_receipts demo_reserved). rc_owner r \<noteq> Some ''i2''" by (simp add: rows new_receipt_def)
  show ?thesis using restart_never_replays [OF fresh f, of 8000 "''u2''" 9000] by (simp add: new_receipt_def)
qed

end
