(* ===== verification/Usage.thy ===== *)
theory Usage
  imports Jwt_Auth Approval_Policy
begin

text \<open>
  Usage measurement, \<open>usage.ts\<close>: exact cost in USD units (twelve decimals), the work record's usage and
  the hourly summary that may leave the machine.  Token counters are checked safe integers, so their
  sums are exact; \<open>bigint\<close> costs are \<open>nat\<close>.  The summaries' identifiers hash a template with the ISO
  text of the hour: \<open>usage_env\<close> holds SHA-256 and the ISO rendering.
\<close>

record usage_env =
  ue_sha256 :: "string \<Rightarrow> string"
  ue_iso :: "ms \<Rightarrow> string"

definition HOUR_MS :: ms where "HOUR_MS = 3600000"

definition MAX_SAFE_INTEGER :: int where "MAX_SAFE_INTEGER = 9007199254740991"

definition USD_SCALE :: nat where "USD_SCALE = 10 ^ 12"

section \<open>Decimal text\<close>

text \<open>\<open>/^\d+(?:\.\d{1,n})?$/\<close>\<close>

definition decimal_text :: "nat \<Rightarrow> string \<Rightarrow> bool" where
  "decimal_text n s \<longleftrightarrow>
     takeWhile is_digit s \<noteq> []
     \<and> (case dropWhile is_digit s of
          [] \<Rightarrow> True
        | c # f \<Rightarrow> c = CHR ''.'' \<and> f \<noteq> [] \<and> length f \<le> n \<and> list_all is_digit f)"

text \<open>\<open>padStart(n, "0")\<close> and \<open>padEnd(n, "0")\<close>\<close>

definition pad_start :: "nat \<Rightarrow> string \<Rightarrow> string" where
  "pad_start n s = replicate (n - length s) CHR ''0'' @ s"

definition pad_end :: "nat \<Rightarrow> string \<Rightarrow> string" where
  "pad_end n s = s @ replicate (n - length s) CHR ''0''"

text \<open>\<open>const [whole, fraction = ""] = value.split(".")\<close>, scaled by \<open>10^n\<close>.\<close>

definition scaled_units :: "nat \<Rightarrow> string \<Rightarrow> nat" where
  "scaled_units n s =
     (case js_split (CHR ''.'') s of
        [] \<Rightarrow> 0
      | [whole] \<Rightarrow> undec whole * 10 ^ n + undec (pad_end n [])
      | whole # fraction # _ \<Rightarrow> undec whole * 10 ^ n + undec (pad_end n fraction))"

definition usdDecimal :: "nat \<Rightarrow> string" where
  "usdDecimal units = dec (units div USD_SCALE) @ ''.'' @ pad_start 12 (dec (units mod USD_SCALE))"

text \<open>\<open>value.toFixed(12)\<close> for \<open>0 \<le> value < 1e21\<close>: the nearest multiple, the larger of two.\<close>

definition toFixed12 :: "rat \<Rightarrow> string" where
  "toFixed12 q = usdDecimal (nat \<lfloor>q * of_nat USD_SCALE + 1/2\<rfloor>)"

definition decimal_units :: "string \<Rightarrow> nat option" where
  "decimal_units s = (if decimal_text 12 s then Some (scaled_units 12 s) else None)"

fun usdUnits :: "jsval \<Rightarrow> nat option" where
  "usdUnits (JStr s) = decimal_units s"
| "usdUnits (JNum (Fin q)) = (if q < 0 \<or> q \<ge> 10 ^ 21 then None else decimal_units (toFixed12 q))"
| "usdUnits _ = None"

text \<open>The SQL function \<open>add_usage_cost\<close> the store registers.\<close>

definition add_usage_cost :: "jsval \<Rightarrow> jsval \<Rightarrow> string option" where
  "add_usage_cost left right =
     (case (usdUnits left, usdUnits right) of (Some a, Some b) \<Rightarrow> Some (usdDecimal (a + b)) | _ \<Rightarrow> None)"

text \<open>\<open>minorFromUsdUnits\<close>: the digit loop reads back the decimal text of the rounded cents.\<close>

definition minorFromUsdUnits :: "nat option \<Rightarrow> int option" where
  "minorFromUsdUnits units =
     (case units of
        None \<Rightarrow> None
      | Some u \<Rightarrow>
          (let minor = (u + 5000000000) div 10000000000
           in if int minor > MAX_SAFE_INTEGER then None
              else Some (foldl (\<lambda>result digit. result * 10 + (of_char digit :: int) - 48) 0 (dec minor))))"

section \<open>Measurement\<close>

record pricing =
  pc_version :: int
  pc_status :: string
  pc_billing :: string
  pc_input :: "string option"
  pc_output :: "string option"
  pc_cacheRead :: "string option"
  pc_cacheWrite :: "string option"
  pc_request :: "string option"
  pc_currency :: string

text \<open>A session entry: its type, the role of its message and the message's usage member.\<close>

record session_entry =
  en_type :: string
  en_role :: string
  en_usage :: jsval

definition is_assistant :: "session_entry \<Rightarrow> bool" where
  "is_assistant e \<longleftrightarrow> en_type e = ''message'' \<and> en_role e = ''assistant''"

definition USAGE_FIELDS :: "string list" where
  "USAGE_FIELDS = [''input'', ''output'', ''cacheRead'', ''cacheWrite'']"

definition safe_counter :: "jsval \<Rightarrow> int option" where
  "safe_counter v =
     (case js_integer v of
        Some n \<Rightarrow> if \<bar>n\<bar> \<le> MAX_SAFE_INTEGER \<and> 0 \<le> n then Some n else None
      | None \<Rightarrow> None)"

text \<open>The inner loop over the four fields, then the loop over the assistant messages.\<close>

fun add_fields :: "jsval \<Rightarrow> string list \<Rightarrow> int list \<Rightarrow> int list option" where
  "add_fields usage (f # fs) (t # ts) =
     (case safe_counter (js_field usage f) of
        None \<Rightarrow> None
      | Some v \<Rightarrow>
          if t + v > MAX_SAFE_INTEGER then None
          else map_option ((#) (t + v)) (add_fields usage fs ts))"
| "add_fields usage _ ts = Some ts"

fun add_usages :: "session_entry list \<Rightarrow> int list \<Rightarrow> int list option" where
  "add_usages [] totals = Some totals"
| "add_usages (e # es) totals =
     (case add_fields (en_usage e) USAGE_FIELDS totals of
        None \<Rightarrow> None
      | Some totals' \<Rightarrow> add_usages es totals')"

definition pricing_rates :: "pricing option \<Rightarrow> string option list" where
  "pricing_rates p =
     (case p of
        None \<Rightarrow> [None, None, None, None]
      | Some p \<Rightarrow> if pc_billing p = ''request'' then [pc_request p]
          else [pc_input p, pc_output p, pc_cacheRead p, pc_cacheWrite p])"

definition rate_ok :: "string option \<Rightarrow> bool" where
  "rate_ok r = (case r of None \<Rightarrow> False | Some s \<Rightarrow> decimal_text 6 s)"

definition pricing_known :: "pricing option \<Rightarrow> bool" where
  "pricing_known p =
     (case p of
        None \<Rightarrow> False
      | Some q \<Rightarrow> pc_status q = ''known'' \<and> pc_currency q = ''USD'' \<and> pc_billing q \<in> {''request'', ''token''}
          \<and> list_all rate_ok (pricing_rates p))"

definition rate_units :: "string option \<Rightarrow> nat" where
  "rate_units r = scaled_units 6 (nullish r [])"

definition usage_cost :: "pricing option \<Rightarrow> int list \<Rightarrow> nat option" where
  "usage_cost p totals =
     (if \<not> pricing_known p then None
      else if pc_billing (the p) = ''request'' then Some (rate_units (hd (pricing_rates p)) * 1000000)
      else Some (sum_list (map2 (\<lambda>v u. nat v * u) totals (map rate_units (pricing_rates p)))))"

record work_usage =
  wu_input :: int
  wu_output :: int
  wu_cache :: int
  wu_total :: int
  wu_cost :: "string option"
  wu_known :: bool
  wu_version :: "int option"

definition measureWorkUsage :: "session_entry list \<Rightarrow> pricing option \<Rightarrow> work_usage option" where
  "measureWorkUsage entries p =
     (let assistants = filter is_assistant entries
      in if assistants = [] then None
         else (case add_usages assistants [0, 0, 0, 0] of
           Some [input, output, cacheRead, cacheWrite] \<Rightarrow>
             Some \<lparr> wu_input = input, wu_output = output, wu_cache = cacheRead + cacheWrite,
               wu_total = input + output + cacheRead + cacheWrite,
               wu_cost = map_option usdDecimal (usage_cost p [input, output, cacheRead, cacheWrite]),
               wu_known = pricing_known p, wu_version = map_option pc_version p \<rparr>
         | _ \<Rightarrow> None))"

section \<open>Hourly summaries\<close>

record usage_summary =
  um_id :: string
  um_tenant :: string
  um_member :: string
  um_employee :: string
  um_windowStart :: ms
  um_windowEnd :: ms
  um_prompts :: rat
  um_settled :: rat
  um_errors :: rat
  um_input :: rat
  um_output :: rat
  um_cache :: rat
  um_costMinor :: "int option"
  um_durationMs :: rat
  um_pricingVersion :: "int option"
  um_pricingKnown :: bool
  um_runs :: rat
  um_tokens :: rat
  um_costTotal :: jsval
  um_durationSeconds :: rat

record usage_capture =
  ucp_tenant :: string
  ucp_member :: string
  ucp_employee :: string
  ucp_started :: ms
  ucp_ended :: ms
  ucp_entries :: "session_entry list"
  ucp_settled :: bool
  ucp_pricing :: "pricing option"

definition hour_of :: "ms \<Rightarrow> ms" where
  "hour_of t = t - t mod HOUR_MS"

definition finite_count :: "jsval \<Rightarrow> rat" where
  "finite_count v = (case js_finite v of Some q \<Rightarrow> if q \<ge> 0 then q else 0 | None \<Rightarrow> 0)"

definition sum_field :: "string \<Rightarrow> session_entry list \<Rightarrow> rat" where
  "sum_field f entries =
     foldl (\<lambda>a e. if is_assistant e \<and> js_truthy (en_usage e) then a + finite_count (js_field (en_usage e) f) else a) 0 entries"

definition int_text :: "int \<Rightarrow> string" where
  "int_text i = (if i < 0 then CHR ''-'' # dec (nat (- i)) else dec (nat i))"

definition aggregateUsage :: "usage_env \<Rightarrow> usage_capture \<Rightarrow> usage_summary" where
  "aggregateUsage env c =
     (let start = hour_of (ucp_started c);
          input = sum_field ''input'' (ucp_entries c);
          output = sum_field ''output'' (ucp_entries c);
          cache = sum_field ''cacheRead'' (ucp_entries c) + sum_field ''cacheWrite'' (ucp_entries c);
          measured = measureWorkUsage (ucp_entries c) (ucp_pricing c);
          known = (case measured of None \<Rightarrow> False | Some m \<Rightarrow> wu_known m \<and> wu_cost m \<noteq> None);
          costTotal = (if known then wu_cost (the measured) else None);
          version = map_option pc_version (ucp_pricing c);
          duration = max 0 (ucp_ended c - ucp_started c)
      in \<lparr> um_id = ue_sha256 env (ucp_tenant c @ '':'' @ ucp_member c @ '':'' @ ucp_employee c @ '':'' @ ue_iso env start @ '':''
             @ (case version of None \<Rightarrow> ''unknown'' | Some v \<Rightarrow> int_text v) @ (if known then [] else '':unknown'')),
           um_tenant = ucp_tenant c, um_member = ucp_member c, um_employee = ucp_employee c,
           um_windowStart = start, um_windowEnd = start + HOUR_MS,
           um_prompts = 1, um_settled = (if ucp_settled c then 1 else 0), um_errors = (if ucp_settled c then 0 else 1),
           um_input = input, um_output = output, um_cache = cache,
           um_costMinor = (if known then minorFromUsdUnits (usdUnits (case costTotal of None \<Rightarrow> JNull | Some t \<Rightarrow> JStr t)) else None),
           um_durationMs = of_int duration, um_pricingVersion = version, um_pricingKnown = known,
           um_runs = 1, um_tokens = input + output + cache,
           um_costTotal = (case costTotal of None \<Rightarrow> JNull | Some t \<Rightarrow> JStr t),
           um_durationSeconds = of_int ((duration + 999) div 1000) \<rparr>)"

text \<open>The verdict counts of one employee hour.\<close>

record outcome_summary =
  os_id :: string
  os_tenant :: string
  os_member :: string
  os_employee :: string
  os_windowStart :: ms
  os_windowEnd :: ms
  os_evaluated :: nat
  os_resolved :: nat

definition segmentOutcomeSummary ::
  "usage_env \<Rightarrow> string \<Rightarrow> string \<Rightarrow> string \<Rightarrow> ms \<Rightarrow> nat \<Rightarrow> nat \<Rightarrow> outcome_summary" where
  "segmentOutcomeSummary env tenant member employee hourStart evaluated resolved =
     (let start = hour_of hourStart
      in \<lparr> os_id = ue_sha256 env (''segment_outcome:'' @ tenant @ '':'' @ member @ '':'' @ employee @ '':'' @ ue_iso env start),
           os_tenant = tenant, os_member = member, os_employee = employee,
           os_windowStart = start, os_windowEnd = start + HOUR_MS, os_evaluated = evaluated, os_resolved = resolved \<rparr>)"

section \<open>Round trips\<close>

lemma dec_chars: "c \<in> set (dec n) \<Longrightarrow> is_digit c"
  using dec_digits [of n] by (simp add: list_all_iff)

lemma minus_not_dec: "CHR ''-'' # s \<noteq> dec n"
proof
  assume "CHR ''-'' # s = dec n"
  then have "is_digit CHR ''-''" by (metis dec_chars list.set_intros(1))
  then show False by (simp add: is_digit_def)
qed

lemma int_text_inject: "int_text i = int_text j \<longleftrightarrow> i = j"
  by (auto simp: int_text_def minus_not_dec minus_not_dec [symmetric])

lemma takeWhile_digits: "list_all is_digit a \<Longrightarrow> \<not> is_digit c \<Longrightarrow> takeWhile is_digit (a @ c # s) = a"
  by (simp add: list_all_iff takeWhile_tail)

lemma dropWhile_digits: "list_all is_digit a \<Longrightarrow> \<not> is_digit c \<Longrightarrow> dropWhile is_digit (a @ c # s) = c # s"
  by (simp add: list_all_iff dropWhile_append3)

lemma undec_append: "undec (a @ b) = undec a * 10 ^ length b + undec b"
proof (induction b rule: rev_induct)
  case (snoc c b)
  have "undec (a @ b @ [c]) = 10 * undec (a @ b) + (of_char c - 48)" using undec_snoc [of "a @ b" c] by simp
  with snoc show ?case by (simp add: undec_snoc algebra_simps)
qed (simp add: undec_def)

lemma undec_zeros: "undec (replicate n CHR ''0'') = 0"
  by (induction n) (simp_all add: undec_def)

lemma undec_pad_start [simp]: "undec (pad_start n s) = undec s"
  by (simp add: pad_start_def undec_append undec_zeros)

lemma dot_not_digit: "list_all is_digit s \<Longrightarrow> CHR ''.'' \<notin> set s"
  by (auto simp: list_all_iff is_digit_def)

lemma length_pad_start: "length s \<le> n \<Longrightarrow> length (pad_start n s) = n"
  by (simp add: pad_start_def)

lemma digits_pad_start: "list_all is_digit s \<Longrightarrow> list_all is_digit (pad_start n s)"
  by (auto simp: pad_start_def list_all_iff is_digit_def)

lemma units_fraction:
  "length (pad_start 12 (dec (u mod USD_SCALE))) = 12" "list_all is_digit (pad_start 12 (dec (u mod USD_SCALE)))"
proof -
  have "length (dec (u mod USD_SCALE)) \<le> 12"
    by (rule length_dec_bound) (simp_all add: USD_SCALE_def)
  then show "length (pad_start 12 (dec (u mod USD_SCALE))) = 12" by (rule length_pad_start)
  show "list_all is_digit (pad_start 12 (dec (u mod USD_SCALE)))" by (intro digits_pad_start dec_digits)
qed

lemma usdUnits_usdDecimal: "decimal_units (usdDecimal u) = Some u"
proof -
  let ?w = "dec (u div USD_SCALE)" and ?f = "pad_start 12 (dec (u mod USD_SCALE))"
  have dot: "\<not> is_digit CHR ''.''" by (simp add: is_digit_def)
  have f: "?f \<noteq> []" using units_fraction(1) [of u] by auto
  have "decimal_text 12 (usdDecimal u)"
    using f units_fraction [of u] by (simp add: decimal_text_def usdDecimal_def takeWhile_digits dropWhile_digits dec_digits dot)
  moreover have "js_split CHR ''.'' (usdDecimal u) = [?w, ?f]"
    using dot_not_digit [OF dec_digits] dot_not_digit [OF units_fraction(2)]
    by (simp add: usdDecimal_def js_split_one js_split_none)
  moreover have "pad_end 12 ?f = ?f" using units_fraction(1) [of u] by (simp add: pad_end_def)
  ultimately show ?thesis
    by (simp add: decimal_units_def scaled_units_def USD_SCALE_def)
qed

lemma foldl_digits: "list_all is_digit s \<Longrightarrow>
   foldl (\<lambda>result digit. result * 10 + (of_char digit :: int) - 48) (int a) s = int (foldl (\<lambda>a c. 10 * a + (of_char c - 48)) a s)"
proof (induction s arbitrary: a)
  case (Cons c s)
  have c: "(of_char c :: int) = int (of_char c)" by (simp only: of_nat_of_char)
  have "int a * 10 + (of_char c :: int) - 48 = int (10 * a + (of_char c - 48))"
    using Cons.prems by (simp add: is_digit_def of_nat_diff c)
  with Cons.IH [of "10 * a + (of_char c - 48)"] Cons.prems show ?case by (simp only: foldl_Cons list.pred_inject)
qed simp

lemma minor_digits: "foldl (\<lambda>result digit. result * 10 + (of_char digit :: int) - 48) 0 (dec n) = int n"
  using foldl_digits [OF dec_digits [of n], of 0] undec_dec [of n] by (simp add: undec_def)

lemma add_usage_cost_exact:
  "add_usage_cost (JStr (usdDecimal a)) (JStr (usdDecimal b)) = Some (usdDecimal (a + b))"
  by (simp add: add_usage_cost_def usdUnits_usdDecimal)

section \<open>Exact costs\<close>

text \<open>The value of a decimal text in USD, and what a counter sums to over the assistant messages.\<close>

definition usd_value :: "string \<Rightarrow> rat" where
  "usd_value s = of_nat (scaled_units 12 s) / 10 ^ 12"

definition counter_sum :: "string \<Rightarrow> session_entry list \<Rightarrow> int" where
  "counter_sum f entries = sum_list (map (\<lambda>e. the (js_integer (js_field (en_usage e) f))) (filter is_assistant entries))"

lemma undec_pad_end: "length f \<le> n \<Longrightarrow> undec (pad_end n f) = undec f * 10 ^ (n - length f)"
  by (simp add: pad_end_def undec_append undec_zeros)

lemma decimal_text_split:
  assumes "decimal_text n s"
  obtains "js_split CHR ''.'' s = [s]" | w f where "js_split CHR ''.'' s = [w, f]" "length f \<le> n"
proof (cases "dropWhile is_digit s")
  case Nil
  then have "list_all is_digit s" by (simp add: dropWhile_eq_Nil_conv list_all_iff)
  then show ?thesis using that(1) js_split_none dot_not_digit by blast
next
  case (Cons c f)
  let ?w = "takeWhile is_digit s"
  have w: "list_all is_digit ?w" by (auto simp: list_all_iff dest: set_takeWhileD)
  have f: "c = CHR ''.''" "list_all is_digit f" "length f \<le> n" using assms Cons by (auto simp: decimal_text_def)
  have "s = ?w @ CHR ''.'' # f" using Cons f takeWhile_dropWhile_id [of is_digit s] by simp
  then have "js_split CHR ''.'' s = [?w, f]"
    using js_split_one [OF dot_not_digit [OF w]] js_split_none [OF dot_not_digit [OF f(2)]] by metis
  then show ?thesis using that(2) f by blast
qed

lemma scaled_units_more:
  assumes "decimal_text n s" "n \<le> m"
  shows "scaled_units m s = scaled_units n s * 10 ^ (m - n)"
  using assms(1)
proof (cases rule: decimal_text_split)
  case 1
  have "(10::nat) ^ m = 10 ^ n * 10 ^ (m - n)" using assms(2) by (simp flip: power_add)
  with 1 show ?thesis by (simp add: scaled_units_def undec_pad_end)  (simp add: undec_def)
next
  case (2 w f)
  have e: "(10::nat) ^ m = 10 ^ n * 10 ^ (m - n)" "(10::nat) ^ (m - length f) = 10 ^ (n - length f) * 10 ^ (m - n)"
    using assms(2) 2(2) by (simp_all flip: power_add)
  with 2 assms(2) show ?thesis by (simp add: scaled_units_def undec_pad_end algebra_simps)
qed

lemma usd_value_rate: "rate_ok (Some r) \<Longrightarrow> of_nat (rate_units (Some r)) = usd_value r * 10 ^ 6"
  using scaled_units_more [of 6 r 12] by (simp add: rate_ok_def rate_units_def usd_value_def)

lemma usd_value_usdDecimal: "usd_value (usdDecimal u) = of_nat u / 10 ^ 12"
proof -
  have "scaled_units 12 (usdDecimal u) = u"
    using usdUnits_usdDecimal [of u] by (simp add: decimal_units_def split: if_splits)
  then show ?thesis by (simp add: usd_value_def)
qed

lemma safe_counter_Some: "safe_counter v = Some n \<Longrightarrow> js_integer v = Some n \<and> 0 \<le> n"
  by (auto simp: safe_counter_def split: option.splits if_splits)

lemma add_usages_sums:
  assumes "add_usages es [a, b, c, d] = Some ts" "list_all is_assistant es" "0 \<le> a" "0 \<le> b" "0 \<le> c" "0 \<le> d"
  shows "ts = [a + counter_sum ''input'' es, b + counter_sum ''output'' es, c + counter_sum ''cacheRead'' es,
      d + counter_sum ''cacheWrite'' es] \<and> list_all (\<lambda>t. 0 \<le> t) ts"
  using assms
proof (induction es arbitrary: a b c d)
  case Nil
  then show ?case by (auto simp: counter_sum_def)
next
  case (Cons e es)
  from Cons.prems(1) obtain v w x y where
    v: "safe_counter (js_field (en_usage e) ''input'') = Some v" "safe_counter (js_field (en_usage e) ''output'') = Some w"
      "safe_counter (js_field (en_usage e) ''cacheRead'') = Some x" "safe_counter (js_field (en_usage e) ''cacheWrite'') = Some y"
    and rest: "add_usages es [a + v, b + w, c + x, d + y] = Some ts"
    by (auto simp: USAGE_FIELDS_def split: option.splits if_splits)
  note n = v [THEN safe_counter_Some]
  have ih: "ts = [(a + v) + counter_sum ''input'' es, (b + w) + counter_sum ''output'' es, (c + x) + counter_sum ''cacheRead'' es,
      (d + y) + counter_sum ''cacheWrite'' es] \<and> list_all (\<lambda>t. 0 \<le> t) ts"
    using Cons.prems n by (intro Cons.IH [OF rest]) simp_all
  have "counter_sum f (e # es) = the (js_integer (js_field (en_usage e) f)) + counter_sum f es" for f
    using Cons.prems(2) by (simp add: counter_sum_def)
  with ih n show ?case by auto
qed

lemma measure_totals:
  assumes "measureWorkUsage entries p = Some w"
  shows "list_all (\<lambda>t. 0 \<le> t) (map (\<lambda>f. counter_sum f entries) USAGE_FIELDS)
    \<and> wu_total w = sum_list (map (\<lambda>f. counter_sum f entries) USAGE_FIELDS)
    \<and> wu_cost w = map_option usdDecimal (usage_cost p (map (\<lambda>f. counter_sum f entries) USAGE_FIELDS))"
proof -
  let ?es = "filter is_assistant entries"
  from assms obtain i u r x where t: "add_usages ?es [0, 0, 0, 0] = Some [i, u, r, x]"
    and w: "wu_total w = i + u + r + x" "wu_cost w = map_option usdDecimal (usage_cost p [i, u, r, x])"
    by (auto simp: measureWorkUsage_def Let_def split: if_splits option.splits list.splits)
  have "counter_sum f ?es = counter_sum f entries" for f by (simp add: counter_sum_def)
  moreover have "list_all is_assistant ?es" by (simp add: list_all_iff)
  ultimately show ?thesis using add_usages_sums [OF t] w by (simp add: USAGE_FIELDS_def)
qed

lemma of_nat_nat_rat: "0 \<le> i \<Longrightarrow> (of_nat (nat i) :: rat) = of_int i"
  by (metis int_nat_eq of_int_of_nat_eq)

lemma token_cost_value:
  assumes "usage_cost (Some p) [i, u, r, x] = Some n" "pc_billing p = ''token''" "0 \<le> i" "0 \<le> u" "0 \<le> r" "0 \<le> x"
  shows "(of_nat n :: rat) / 10 ^ 12 = (of_int i * usd_value (the (pc_input p)) + of_int u * usd_value (the (pc_output p))
     + of_int r * usd_value (the (pc_cacheRead p)) + of_int x * usd_value (the (pc_cacheWrite p))) / 10 ^ 6"
proof -
  from assms(1,2) obtain a b c d where rates: "pc_input p = Some a" "pc_output p = Some b" "pc_cacheRead p = Some c"
    "pc_cacheWrite p = Some d" "rate_ok (Some a)" "rate_ok (Some b)" "rate_ok (Some c)" "rate_ok (Some d)"
    by (auto simp: usage_cost_def pricing_known_def pricing_rates_def rate_ok_def split: if_splits option.splits)
  with assms(1,2) have n: "n = nat i * rate_units (Some a) + nat u * rate_units (Some b) + nat r * rate_units (Some c)
      + nat x * rate_units (Some d)"
    by (simp add: usage_cost_def pricing_rates_def split: if_splits)
  show ?thesis
    unfolding n using rates assms(3-6) by (simp add: usd_value_rate of_nat_nat_rat field_simps)
qed

lemma minor_rounds:
  assumes "minorFromUsdUnits (Some u) = Some m"
  shows "\<bar>of_int m - of_nat u / 10 ^ 10\<bar> \<le> (1/2 :: rat)"
proof -
  define q where "q = (u + 5000000000) div 10000000000"
  have m: "m = int q" using assms by (simp add: minorFromUsdUnits_def Let_def minor_digits q_def split: if_splits)
  have "10000000000 * q \<le> u + 5000000000" "u + 5000000000 < 10000000000 * q + 10000000000" unfolding q_def by simp_all
  then have "(of_nat (10000000000 * q) :: rat) \<le> of_nat (u + 5000000000)"
    "(of_nat (u + 5000000000) :: rat) < of_nat (10000000000 * q + 10000000000)" by (simp_all only: of_nat_le_iff of_nat_less_iff)
  then show ?thesis by (simp add: m abs_le_iff field_simps)
qed

section \<open>Property\<close>

text \<open>The recorded cost is exact.  When token usage is priced, the decimal text of the cost denotes exactly the sum
  over the four counters of all assistant messages of tokens times the rate per million, without any
  rounding; reading the text back gives the same units; and the cents field of the hourly summary is
  within half a cent of it.\<close>

theorem recorded_cost_exact:
  assumes "measureWorkUsage (ucp_entries c) (Some p) = Some w" and "wu_cost w = Some t"
    and "ucp_pricing c = Some p" and "pc_billing p = ''token''"
  shows "usd_value t = (of_int (counter_sum ''input'' (ucp_entries c)) * usd_value (the (pc_input p))
       + of_int (counter_sum ''output'' (ucp_entries c)) * usd_value (the (pc_output p))
       + of_int (counter_sum ''cacheRead'' (ucp_entries c)) * usd_value (the (pc_cacheRead p))
       + of_int (counter_sum ''cacheWrite'' (ucp_entries c)) * usd_value (the (pc_cacheWrite p))) / 10 ^ 6
    \<and> (\<exists>u. usdUnits (JStr t) = Some u \<and> usdDecimal u = t)
    \<and> (case um_costMinor (aggregateUsage env c) of None \<Rightarrow> True | Some m \<Rightarrow> \<bar>of_int m - 100 * usd_value t\<bar> \<le> 1/2)"
proof -
  let ?s = "\<lambda>f. counter_sum f (ucp_entries c)"
  note m = measure_totals [OF assms(1)]
  with assms(2) obtain n where n: "usage_cost (Some p) (map ?s USAGE_FIELDS) = Some n" "t = usdDecimal n" by auto
  have v: "usd_value t = of_nat n / 10 ^ 12" by (simp add: n(2) usd_value_usdDecimal)
  have "usd_value t = (of_int (?s ''input'') * usd_value (the (pc_input p)) + of_int (?s ''output'') * usd_value (the (pc_output p))
       + of_int (?s ''cacheRead'') * usd_value (the (pc_cacheRead p)) + of_int (?s ''cacheWrite'') * usd_value (the (pc_cacheWrite p))) / 10 ^ 6"
    unfolding v using n(1) assms(4) m by (intro token_cost_value) (simp_all add: USAGE_FIELDS_def)
  moreover have "usdUnits (JStr t) = Some n" by (simp add: n(2) usdUnits_usdDecimal)
  moreover have "case um_costMinor (aggregateUsage env c) of None \<Rightarrow> True | Some m \<Rightarrow> \<bar>of_int m - 100 * usd_value t\<bar> \<le> 1/2"
    using minor_rounds [of n] assms(1-3) \<open>usdUnits (JStr t) = Some n\<close>
    by (auto simp: aggregateUsage_def Let_def usd_value_usdDecimal n(2) split: option.splits if_splits)
  ultimately show ?thesis using n(2) by blast
qed

definition demo_entry :: session_entry where
  "demo_entry = \<lparr> en_type = ''message'', en_role = ''assistant'',
     en_usage = JObj [(''input'', JNum (Fin 1000)), (''output'', JNum (Fin 200)), (''cacheRead'', JNum (Fin 0)), (''cacheWrite'', JNum (Fin 0))] \<rparr>"

definition demo_pricing :: pricing where
  "demo_pricing = \<lparr> pc_version = 1, pc_status = ''known'', pc_billing = ''token'', pc_input = Some ''3'', pc_output = Some ''15.5'',
     pc_cacheRead = Some ''0'', pc_cacheWrite = Some ''0'', pc_request = None, pc_currency = ''USD'' \<rparr>"

definition demo_capture :: usage_capture where
  "demo_capture = \<lparr> ucp_tenant = ''t'', ucp_member = ''m'', ucp_employee = ''e'', ucp_started = 0, ucp_ended = 1500,
     ucp_entries = [demo_entry], ucp_settled = True, ucp_pricing = Some demo_pricing \<rparr>"

theorem recorded_cost_exact_witness:
  "\<exists>w t. measureWorkUsage [demo_entry] (Some demo_pricing) = Some w \<and> wu_cost w = Some t \<and> usd_value t = 61 / 10000"
proof -
  have "pricing_known (Some demo_pricing)"
    by (simp add: pricing_known_def pricing_rates_def demo_pricing_def rate_ok_def decimal_text_def is_digit_def)
  moreover have "add_usages [demo_entry] [0, 0, 0, 0] = Some [1000, 200, 0, 0]"
    by (simp add: demo_entry_def USAGE_FIELDS_def safe_counter_def rat_is_int_def MAX_SAFE_INTEGER_def)
  moreover have "filter is_assistant [demo_entry] = [demo_entry]" by (simp add: is_assistant_def demo_entry_def)
  ultimately have "\<exists>w t. measureWorkUsage [demo_entry] (Some demo_pricing) = Some w \<and> wu_cost w = Some t"
    by (simp add: measureWorkUsage_def usage_cost_def Let_def del: add_usages.simps filter.simps)
  then obtain w t where w: "measureWorkUsage (ucp_entries demo_capture) (Some demo_pricing) = Some w" "wu_cost w = Some t"
    by (auto simp: demo_capture_def)
  have "usd_value ''3'' = 3" "usd_value ''15.5'' = 31/2" "usd_value ''0'' = 0"
    by (simp_all add: usd_value_def scaled_units_def undec_pad_end) (simp_all add: undec_def)
  with recorded_cost_exact [OF w] w show ?thesis
    by (auto simp: demo_capture_def demo_pricing_def demo_entry_def counter_sum_def is_assistant_def rat_is_int_def)
qed

end
