(* ===== verification/Usage_Outbox.thy ===== *)
theory Usage_Outbox
  imports Usage Execution_Authorization
begin

text \<open>
  The usage outbox of \<open>storage/sqlite.ts\<close> and the service of \<open>usage-flush.ts\<close> that empties it.  A row
  holds an absolute hourly summary; uploading is claim, upload, mark, with other statements in
  between.  \<open>ue_real\<close> in \<open>outbox_env\<close> is SQLite's \<open>CAST(... AS REAL)\<close> of a decimal text; \<open>uuid\<close> is the value
  of \<open>randomUUID()\<close>, \<open>jitter\<close> that of \<open>Math.floor(Math.random() * 250)\<close>.
\<close>

record outbox_env =
  oe_real :: "string \<Rightarrow> rat"
  oe_hidden :: string
  oe_pathHidden :: string

datatype outbox_kind = UsageKind | OutcomeKind

datatype outbox_status = OPending | OSending | OSent | OFailed | ORejected

datatype outbox_payload = UsagePayload usage_summary | OutcomePayload outcome_summary

record outbox_row =
  ob_id :: string
  ob_tenant :: string
  ob_member :: string
  ob_kind :: outbox_kind
  ob_status :: outbox_status
  ob_attempts :: nat
  ob_error :: "string option"
  ob_payload :: outbox_payload
  ob_created :: ms
  ob_claim :: "string option"
  ob_claimed :: "ms option"
  ob_cost :: "string option"

type_synonym outbox = "outbox_row list"

section \<open>Accumulation\<close>

definition cost_text :: "string option \<Rightarrow> jsval" where
  "cost_text c = (case c of None \<Rightarrow> JNull | Some t \<Rightarrow> JStr t)"

text \<open>\<open>add_usage_cost(COALESCE(cost_total_decimal, $.cost_total), excluded.cost_total_decimal)\<close>\<close>

definition cumulative_cost :: "string option \<Rightarrow> jsval \<Rightarrow> string option \<Rightarrow> string option" where
  "cumulative_cost stored payloadCost added =
     add_usage_cost (case stored of Some t \<Rightarrow> JStr t | None \<Rightarrow> payloadCost) (cost_text added)"

definition merge_summary :: "outbox_env \<Rightarrow> usage_summary \<Rightarrow> usage_summary \<Rightarrow> string option \<Rightarrow> usage_summary" where
  "merge_summary env old new cost =
     old\<lparr>um_id := um_id new, um_tenant := um_tenant new,
       um_prompts := um_prompts old + um_prompts new, um_settled := um_settled old + um_settled new,
       um_errors := um_errors old + um_errors new, um_input := um_input old + um_input new,
       um_output := um_output old + um_output new, um_cache := um_cache old + um_cache new,
       um_costMinor := map_option (\<lambda>c. \<lfloor>oe_real env c * 100 + 1/2\<rfloor>) cost,
       um_durationMs := um_durationMs old + um_durationMs new,
       um_runs := um_runs old + um_runs new, um_tokens := um_tokens old + um_tokens new,
       um_costTotal := (case cost of None \<Rightarrow> JNull | Some c \<Rightarrow> JNum (Fin (oe_real env c))),
       um_durationSeconds := um_durationSeconds old + um_durationSeconds new\<rparr>"

text \<open>\<open>ON CONFLICT(summary_id) DO UPDATE\<close>.  The identifiers of the two kinds are hashes of differently
  prefixed texts; a row of the other kind keeps its payload here.\<close>

definition merge_row :: "outbox_env \<Rightarrow> usage_summary \<Rightarrow> string option \<Rightarrow> outbox_row \<Rightarrow> outbox_row" where
  "merge_row env new added r =
     (case ob_payload r of
        UsagePayload old \<Rightarrow>
          (let cost = cumulative_cost (ob_cost r) (um_costTotal old) added
           in r\<lparr>ob_payload := UsagePayload (merge_summary env old new cost), ob_cost := cost,
                ob_status := OPending, ob_error := None\<rparr>)
      | OutcomePayload _ \<Rightarrow> r\<lparr>ob_status := OPending, ob_error := None\<rparr>)"

definition usage_row :: "usage_summary \<Rightarrow> string option \<Rightarrow> ms \<Rightarrow> outbox_row" where
  "usage_row u cost now =
     \<lparr> ob_id = um_id u, ob_tenant = um_tenant u, ob_member = um_member u, ob_kind = UsageKind, ob_status = OPending,
       ob_attempts = 0, ob_error = None, ob_payload = UsagePayload u, ob_created = now, ob_claim = None, ob_claimed = None,
       ob_cost = cost \<rparr>"

definition has_id :: "string \<Rightarrow> outbox \<Rightarrow> bool" where
  "has_id i rows \<longleftrightarrow> (\<exists>r \<in> set rows. ob_id r = i)"

definition upsertUsageSummary ::
  "outbox_env \<Rightarrow> usage_summary \<Rightarrow> string option \<Rightarrow> ms \<Rightarrow> outbox \<Rightarrow> outbox" where
  "upsertUsageSummary env u preciseCost now rows =
     (let cost = map_option usdDecimal (usdUnits (case preciseCost of Some c \<Rightarrow> JStr c | None \<Rightarrow> um_costTotal u))
      in if has_id (um_id u) rows then update_rows (\<lambda>r. ob_id r = um_id u) (merge_row env u cost) rows
         else rows @ [usage_row u cost now])"

text \<open>One bucket of \<open>publishSegmentOutcomes\<close>: the counts replace the row's.\<close>

definition replace_outcome :: "outcome_summary \<Rightarrow> outbox_row \<Rightarrow> outbox_row" where
  "replace_outcome o' r = r\<lparr>ob_payload := OutcomePayload o', ob_status := OPending, ob_error := None\<rparr>"

definition outcome_row :: "outcome_summary \<Rightarrow> ms \<Rightarrow> outbox_row" where
  "outcome_row o' now =
     \<lparr> ob_id = os_id o', ob_tenant = os_tenant o', ob_member = os_member o', ob_kind = OutcomeKind, ob_status = OPending,
       ob_attempts = 0, ob_error = None, ob_payload = OutcomePayload o', ob_created = now, ob_claim = None, ob_claimed = None,
       ob_cost = None \<rparr>"

definition publish_bucket :: "outcome_summary \<Rightarrow> ms \<Rightarrow> outbox \<Rightarrow> outbox" where
  "publish_bucket o' now rows =
     (if os_evaluated o' = 0 \<or> has_id (os_id o') rows
      then update_rows (\<lambda>r. ob_id r = os_id o' \<and> ob_kind r = OutcomeKind) (replace_outcome o') rows
      else rows @ [outcome_row o' now])"

section \<open>Claims\<close>

definition sendable :: "outbox_status \<Rightarrow> bool" where
  "sendable s \<longleftrightarrow> s = OPending \<or> s = OFailed"

definition claimable_usage :: "string \<Rightarrow> string option \<Rightarrow> outbox_kind list \<Rightarrow> outbox_row \<Rightarrow> bool" where
  "claimable_usage tenant member kinds r \<longleftrightarrow>
     ob_tenant r = tenant \<and> ob_member r \<noteq> [] \<and> (case member of None \<Rightarrow> True | Some m \<Rightarrow> ob_member r = m)
     \<and> sendable (ob_status r) \<and> ob_kind r \<in> set kinds"

record claimed_row =
  cl_id :: string
  cl_tenant :: string
  cl_kind :: outbox_kind
  cl_payload :: outbox_payload
  cl_token :: string

definition claimed_of :: "string \<Rightarrow> outbox_row \<Rightarrow> claimed_row" where
  "claimed_of token r =
     \<lparr> cl_id = ob_id r, cl_tenant = ob_tenant r, cl_kind = ob_kind r, cl_payload = ob_payload r, cl_token = token \<rparr>"

definition start_send :: "string \<Rightarrow> ms \<Rightarrow> outbox_row \<Rightarrow> outbox_row" where
  "start_send token now r =
     r\<lparr>ob_status := OSending, ob_attempts := ob_attempts r + 1, ob_claim := Some token, ob_claimed := Some now, ob_error := None\<rparr>"

definition selected_rows :: "string \<Rightarrow> string option \<Rightarrow> int \<Rightarrow> outbox_kind list \<Rightarrow> outbox \<Rightarrow> outbox" where
  "selected_rows tenant member limit kinds rows =
     take (nat (min (max limit 1) 100))
       (sort_by (\<lambda>a b. ob_created a \<le> ob_created b) (filter (claimable_usage tenant member kinds) rows))"

definition claimUsageOutbox ::
  "string \<Rightarrow> string option \<Rightarrow> int \<Rightarrow> outbox_kind list \<Rightarrow> string \<Rightarrow> ms \<Rightarrow> outbox \<Rightarrow> claimed_row list \<times> outbox" where
  "claimUsageOutbox tenant member limit kinds uuid now rows =
     (let picked = selected_rows tenant member limit kinds rows
      in (map (claimed_of uuid) picked,
          fold (\<lambda>p. update_rows (\<lambda>r. ob_id r = ob_id p \<and> sendable (ob_status r)) (start_send uuid now)) picked rows))"

definition in_flight :: "string \<Rightarrow> string \<Rightarrow> outbox_row \<Rightarrow> bool" where
  "in_flight i token r \<longleftrightarrow> ob_id r = i \<and> ob_status r = OSending \<and> ob_claim r = Some token"

definition close_claim :: "outbox_status \<Rightarrow> string option \<Rightarrow> outbox_row \<Rightarrow> outbox_row" where
  "close_claim st err r = r\<lparr>ob_status := st, ob_claim := None, ob_claimed := None, ob_error := err\<rparr>"

definition markUsageSent :: "string \<Rightarrow> string \<Rightarrow> outbox \<Rightarrow> outbox" where
  "markUsageSent i token = update_rows (in_flight i token) (close_claim OSent None)"

definition markUsageFailed :: "string \<Rightarrow> string \<Rightarrow> string \<Rightarrow> outbox \<Rightarrow> outbox" where
  "markUsageFailed i token err = update_rows (in_flight i token) (close_claim OFailed (Some (take 500 err)))"

definition markUsageRejected :: "string \<Rightarrow> string \<Rightarrow> string \<Rightarrow> outbox \<Rightarrow> outbox" where
  "markUsageRejected i token err = update_rows (in_flight i token) (close_claim ORejected (Some (take 500 err)))"

definition releaseUsageClaim :: "string \<Rightarrow> string \<Rightarrow> string \<Rightarrow> outbox \<Rightarrow> outbox" where
  "releaseUsageClaim i token why =
     update_rows (in_flight i token)
       (\<lambda>r. (close_claim OPending (Some (take 500 why)) r)\<lparr>ob_attempts := ob_attempts r - 1\<rparr>)"

text \<open>The statement of the store's constructor on uploads a previous process left open.\<close>

definition restart_usage :: "outbox \<Rightarrow> outbox" where
  "restart_usage = update_rows (\<lambda>r. ob_status r = OSending)
     (\<lambda>r. close_claim OFailed (Some (nullish (ob_error r) ''Recovered unfinished usage upload'')) r)"

definition listUsageOutbox :: "string option \<Rightarrow> string option \<Rightarrow> outbox \<Rightarrow> outbox" where
  "listUsageOutbox tenant member rows =
     sort_by (\<lambda>a b. ob_created a \<ge> ob_created b)
       (filter (\<lambda>r. (case tenant of None \<Rightarrow> True | Some t \<Rightarrow> ob_tenant r = t)
                  \<and> (case member of None \<Rightarrow> True | Some m \<Rightarrow> ob_member r = m)) rows)"

definition owner_le :: "string \<times> string \<Rightarrow> string \<times> string \<Rightarrow> bool" where
  "owner_le a b \<longleftrightarrow> (if fst a = fst b then bytes_le (map of_char (snd a)) (map of_char (snd b))
     else bytes_le (map of_char (fst a)) (map of_char (fst b)))"

definition listUsageOutboxOwners :: "outbox \<Rightarrow> (string \<times> string) list" where
  "listUsageOutboxOwners rows =
     sort_by owner_le (remdups (map (\<lambda>r. (ob_tenant r, ob_member r))
       (filter (\<lambda>r. sendable (ob_status r) \<and> ob_member r \<noteq> []) rows)))"

section \<open>The flush service\<close>

definition OUTCOMES_UNSUPPORTED_NOTE :: string where
  "OUTCOMES_UNSUPPORTED_NOTE = ''Manager does not support segment outcome upload yet''"

text \<open>What an upload throws: \<open>ux_isError\<close> is \<open>instanceof Error\<close>, \<open>ux_message\<close> its message (or \<open>String(error)\<close>).\<close>

record upload_error =
  ux_isError :: bool
  ux_message :: string
  ux_status :: "int option"
  ux_problem :: "string option"

definition isEmployeeNotGranted :: "upload_error \<Rightarrow> bool" where
  "isEmployeeNotGranted e \<longleftrightarrow> ux_problem e = Some ''employee_not_granted''"

definition isEndpointMissing :: "upload_error \<Rightarrow> bool" where
  "isEndpointMissing e \<longleftrightarrow> ux_status e = Some 404"

definition DENIAL_CODE :: regex where
  "DENIAL_CODE = seqs [Wb, alts [lit ''401'', lit ''403''], Wb]"

definition isAccessDenial :: "upload_error \<Rightarrow> bool" where
  "isAccessDenial e \<longleftrightarrow> ux_status e = Some 401 \<or> ux_status e = Some 403 \<or> regex_test DENIAL_CODE (ux_message e)"

definition path_char :: "char \<Rightarrow> bool" where
  "path_char c \<longleftrightarrow> \<not> js_space c \<and> c \<notin> set [CHR 0x22, CHR 0x27, CHR ''<'', CHR ''>'']"

definition LOCAL_PATH :: regex where
  "LOCAL_PATH = Alt
     (seqs [chr (CHR ''/''),
        alts (map lit_i [''Users'', ''Volumes'', ''private'', ''home'', ''tmp'', ''var'', ''workspace'', ''etc'', ''root'',
          ''opt'', ''srv'', ''mnt'', ''data'']),
        Star (Seq (chr (CHR ''/'')) (Star (Cls path_char)))])
     (seqs [Cls (\<lambda>c. is_alnum c \<and> \<not> is_digit c), chr (CHR '':''), chr (CHR 0x5C), Star (Cls path_char)])"

definition redact_message :: "outbox_env \<Rightarrow> nat \<Rightarrow> string \<Rightarrow> string" where
  "redact_message env n raw =
     take n (regex_replace_all LOCAL_PATH (oe_pathHidden env) (regex_replace_all SECRET_VALUE (oe_hidden env) raw))"

definition safeUsageError :: "outbox_env \<Rightarrow> upload_error \<Rightarrow> string" where
  "safeUsageError env e =
     redact_message env 500 (if ux_isError e then ux_message e else ''Manager usage upload failed'')"

record flush_service =
  fl_backoff :: "(string, nat \<times> ms) omap"
  fl_unsupportedUntil :: "(string, ms) omap"
  fl_rows :: outbox
  fl_auth :: auth_registry

definition flush_scope :: "caller \<Rightarrow> string" where
  "flush_scope c = nullish (ca_tenantId c) [] @ '':'' @ callerMemberId c"

definition backoff_delay :: "nat \<Rightarrow> int" where
  "backoff_delay failures = min 300000 (1000 * 2 ^ min (failures - 1) 8)"

definition noteFailure :: "string \<Rightarrow> ms \<Rightarrow> int \<Rightarrow> flush_service \<Rightarrow> flush_service" where
  "noteFailure scope now jitter s =
     (let failures = (case omap_get (fl_backoff s) scope of None \<Rightarrow> 0 | Some b \<Rightarrow> fst b) + 1
      in s\<lparr>fl_backoff := omap_set scope (failures, now + (backoff_delay failures + jitter)) (fl_backoff s)\<rparr>)"

text \<open>The head of \<open>flushInternal\<close>: which kinds are offered, and the claim.\<close>

definition flush_begin ::
  "caller \<Rightarrow> bool \<Rightarrow> int \<Rightarrow> string \<Rightarrow> ms \<Rightarrow> flush_service \<Rightarrow> claimed_row list \<times> flush_service" where
  "flush_begin c hasOutcomeUploader limit uuid now s =
     (let supported = hasOutcomeUploader \<and> nullish (omap_get (fl_unsupportedUntil s) (flush_scope c)) 0 \<le> now;
          kinds = (if supported then [UsageKind, OutcomeKind] else [UsageKind]);
          claim = claimUsageOutbox (nullish (ca_tenantId c) []) (Some (callerMemberId c)) limit kinds uuid now (fl_rows s)
      in (fst claim, s\<lparr>fl_rows := snd claim\<rparr>))"

datatype upload_result = UploadOk | UploadError upload_error

text \<open>The local variables of \<open>flushInternal\<close>.\<close>

record flush_run =
  fr_sent :: "string list"
  fr_failed :: "string list"
  fr_denied :: bool
  fr_unsupported :: bool

definition run_init :: flush_run where
  "run_init = \<lparr> fr_sent = [], fr_failed = [], fr_denied = False, fr_unsupported = False \<rparr>"

text \<open>The iteration uploads unless the endpoint was found missing or access was denied before.\<close>

definition must_upload :: "claimed_row \<Rightarrow> flush_run \<Rightarrow> bool" where
  "must_upload row run \<longleftrightarrow> \<not> (cl_kind row = OutcomeKind \<and> fr_unsupported run) \<and> \<not> fr_denied run"

definition upload_failed ::
  "outbox_env \<Rightarrow> caller \<Rightarrow> int option \<Rightarrow> claimed_row \<Rightarrow> upload_error \<Rightarrow> ms \<Rightarrow> int
     \<Rightarrow> flush_run \<times> flush_service \<Rightarrow> flush_run \<times> flush_service" where
  "upload_failed env c retryMs row e now jitter = (\<lambda>(run, s).
     if cl_kind row = OutcomeKind \<and> isEndpointMissing e
     then (run\<lparr>fr_unsupported := True\<rparr>,
           s\<lparr>fl_rows := releaseUsageClaim (cl_id row) (cl_token row) OUTCOMES_UNSUPPORTED_NOTE (fl_rows s),
             fl_unsupportedUntil := omap_set (flush_scope c) (now + nullish retryMs 600000) (fl_unsupportedUntil s)\<rparr>)
     else if isEmployeeNotGranted e
     then (run, s\<lparr>fl_rows := markUsageRejected (cl_id row) (cl_token row) (safeUsageError env e) (fl_rows s)\<rparr>)
     else (let s1 = s\<lparr>fl_rows := markUsageFailed (cl_id row) (cl_token row) (safeUsageError env e) (fl_rows s)\<rparr>;
               s2 = (if isAccessDenial e
                     then noteFailure (flush_scope c) now jitter
                            (s1\<lparr>fl_auth := auth_invalidate (nullish (ca_tenantId c) []) (callerMemberId c) (fl_auth s1)\<rparr>)
                     else s1)
           in (run\<lparr>fr_denied := fr_denied run \<or> isAccessDenial e, fr_failed := fr_failed run @ [cl_id row]\<rparr>, s2)))"

definition flush_row ::
  "outbox_env \<Rightarrow> caller \<Rightarrow> int option \<Rightarrow> claimed_row \<Rightarrow> upload_result \<Rightarrow> ms \<Rightarrow> int
     \<Rightarrow> flush_run \<times> flush_service \<Rightarrow> flush_run \<times> flush_service" where
  "flush_row env c retryMs row result now jitter = (\<lambda>(run, s).
     if cl_kind row = OutcomeKind \<and> fr_unsupported run
     then (run, s\<lparr>fl_rows := releaseUsageClaim (cl_id row) (cl_token row) OUTCOMES_UNSUPPORTED_NOTE (fl_rows s)\<rparr>)
     else if fr_denied run
     then (run\<lparr>fr_failed := fr_failed run @ [cl_id row]\<rparr>,
           s\<lparr>fl_rows := markUsageFailed (cl_id row) (cl_token row) ''Manager usage authorization was denied'' (fl_rows s)\<rparr>)
     else (case result of
             UploadOk \<Rightarrow> (run\<lparr>fr_sent := fr_sent run @ [cl_id row]\<rparr>,
                          s\<lparr>fl_rows := markUsageSent (cl_id row) (cl_token row) (fl_rows s)\<rparr>)
           | UploadError e \<Rightarrow> upload_failed env c retryMs row e now jitter (run, s)))"

text \<open>\<open>drain\<close>: whether an owner is flushed in this round, and what its result does to the backoff.\<close>

definition drain_caller :: "string \<times> string \<Rightarrow> ms \<Rightarrow> flush_service \<Rightarrow> caller option \<times> flush_service" where
  "drain_caller owner now s =
     (let scope = fst owner @ '':'' @ snd owner
      in if (case omap_get (fl_backoff s) scope of None \<Rightarrow> 0 | Some b \<Rightarrow> snd b) > now then (None, s)
         else (let r = auth_resolve (fst owner) (snd owner) True (of_int now) (fl_auth s)
               in (fst r, s\<lparr>fl_auth := snd r\<rparr>)))"

definition drain_settled :: "string \<times> string \<Rightarrow> flush_run option \<Rightarrow> ms \<Rightarrow> int \<Rightarrow> flush_service \<Rightarrow> flush_service" where
  "drain_settled owner result now jitter s =
     (let scope = fst owner @ '':'' @ snd owner
      in case result of
           Some run \<Rightarrow> if fr_failed run = [] then s\<lparr>fl_backoff := omap_delete scope (fl_backoff s)\<rparr>
                       else noteFailure scope now jitter s
         | None \<Rightarrow> noteFailure scope now jitter s)"

text \<open>The loop over the claimed rows, with what each upload gives.\<close>

fun flush_rows ::
  "outbox_env \<Rightarrow> caller \<Rightarrow> int option \<Rightarrow> (claimed_row \<times> upload_result \<times> ms \<times> int) list
     \<Rightarrow> flush_run \<times> flush_service \<Rightarrow> flush_run \<times> flush_service" where
  "flush_rows env c retryMs [] w = w"
| "flush_rows env c retryMs ((row, result, now, jitter) # xs) w =
     flush_rows env c retryMs xs (flush_row env c retryMs row result now jitter w)"

section \<open>Histories\<close>

text \<open>The outbox under concurrent accumulation and uploads.  \<open>oy_claims\<close> are the claims handed to uploads,
  \<open>oy_delivered\<close> the payloads the Manager accepted, \<open>oy_used\<close> the recorded usage with its exact cost.\<close>

record outbox_sys =
  oy_rows :: outbox
  oy_claims :: "claimed_row list"
  oy_delivered :: "(string \<times> outbox_payload) list"
  oy_used :: "(usage_summary \<times> nat option) list"

definition summary_units :: "usage_summary \<Rightarrow> string option \<Rightarrow> nat option" where
  "summary_units u preciseCost = usdUnits (case preciseCost of Some c \<Rightarrow> JStr c | None \<Rightarrow> um_costTotal u)"

definition kind_free :: "string \<Rightarrow> outbox_kind \<Rightarrow> outbox \<Rightarrow> bool" where
  "kind_free i k rows \<longleftrightarrow> (\<forall>r \<in> set rows. ob_id r = i \<longrightarrow> ob_kind r = k)"

inductive outbox_step :: "outbox_env \<Rightarrow> outbox_sys \<Rightarrow> outbox_sys \<Rightarrow> bool" for env where
  step_record: "kind_free (um_id u) UsageKind (oy_rows s) \<Longrightarrow>
     outbox_step env s (s\<lparr>oy_rows := upsertUsageSummary env u preciseCost now (oy_rows s),
                          oy_used := oy_used s @ [(u, summary_units u preciseCost)]\<rparr>)"
| step_publish: "kind_free (os_id o') OutcomeKind (oy_rows s) \<Longrightarrow>
     outbox_step env s (s\<lparr>oy_rows := publish_bucket o' now (oy_rows s)\<rparr>)"
| step_claim: "uuid \<notin> cl_token ` set (oy_claims s) \<Longrightarrow>
     claimUsageOutbox tenant member limit kinds uuid now (oy_rows s) = (claimed, rows) \<Longrightarrow>
     outbox_step env s (s\<lparr>oy_rows := rows, oy_claims := oy_claims s @ claimed\<rparr>)"
| step_delivered: "cl \<in> set (oy_claims s) \<Longrightarrow>
     outbox_step env s (s\<lparr>oy_rows := markUsageSent (cl_id cl) (cl_token cl) (oy_rows s),
                          oy_delivered := oy_delivered s @ [(cl_id cl, cl_payload cl)]\<rparr>)"
| step_failed: "outbox_step env s (s\<lparr>oy_rows := markUsageFailed i token err (oy_rows s)\<rparr>)"
| step_rejected: "outbox_step env s (s\<lparr>oy_rows := markUsageRejected i token err (oy_rows s)\<rparr>)"
| step_released: "outbox_step env s (s\<lparr>oy_rows := releaseUsageClaim i token why (oy_rows s)\<rparr>)"
| step_restarted: "outbox_step env s (s\<lparr>oy_rows := restart_usage (oy_rows s)\<rparr>)"

definition outbox_init :: "outbox_sys \<Rightarrow> bool" where
  "outbox_init s \<longleftrightarrow> oy_rows s = [] \<and> oy_claims s = [] \<and> oy_delivered s = [] \<and> oy_used s = []"

section \<open>The ledger\<close>

definition COUNTERS :: "(usage_summary \<Rightarrow> rat) list" where
  "COUNTERS = [um_prompts, um_settled, um_errors, um_input, um_output, um_cache, um_durationMs, um_runs, um_tokens,
     um_durationSeconds]"

definition used_for :: "string \<Rightarrow> (usage_summary \<times> nat option) list \<Rightarrow> (usage_summary \<times> nat option) list" where
  "used_for i used = filter (\<lambda>x. um_id (fst x) = i) used"

definition ledger_total :: "(usage_summary \<Rightarrow> rat) \<Rightarrow> string \<Rightarrow> (usage_summary \<times> nat option) list \<Rightarrow> rat" where
  "ledger_total f i used = sum_list (map (\<lambda>x. f (fst x)) (used_for i used))"

definition ledger_cost :: "string \<Rightarrow> (usage_summary \<times> nat option) list \<Rightarrow> nat" where
  "ledger_cost i used = sum_list (map (\<lambda>x. nullish (snd x) 0) (used_for i used))"

definition row_accounts :: "(usage_summary \<times> nat option) list \<Rightarrow> outbox_row \<Rightarrow> bool" where
  "row_accounts used r \<longleftrightarrow>
     (case ob_payload r of
        UsagePayload u \<Rightarrow> ob_kind r = UsageKind \<and> (\<forall>f \<in> set COUNTERS. f u = ledger_total f (ob_id r) used)
          \<and> ((\<forall>x \<in> set (used_for (ob_id r) used). snd x \<noteq> None) \<longrightarrow>
               ob_cost r = Some (usdDecimal (ledger_cost (ob_id r) used)))
      | OutcomePayload _ \<Rightarrow> ob_kind r = OutcomeKind \<and> used_for (ob_id r) used = [])"

definition row_delivery :: "claimed_row list \<Rightarrow> (string \<times> outbox_payload) list \<Rightarrow> outbox_row \<Rightarrow> bool" where
  "row_delivery claims delivered r \<longleftrightarrow>
     (ob_status r = OSending \<longrightarrow> (\<exists>cl \<in> set claims. cl_id cl = ob_id r \<and> ob_claim r = Some (cl_token cl) \<and> cl_payload cl = ob_payload r))
     \<and> (ob_status r = OSent \<longrightarrow> (ob_id r, ob_payload r) \<in> set delivered)"

definition outbox_inv :: "outbox_sys \<Rightarrow> bool" where
  "outbox_inv s \<longleftrightarrow> distinct (map ob_id (oy_rows s)) \<and> distinct (map (\<lambda>c. (cl_id c, cl_token c)) (oy_claims s))
     \<and> (\<forall>r \<in> set (oy_rows s). row_accounts (oy_used s) r \<and> row_delivery (oy_claims s) (oy_delivered s) r)
     \<and> (\<forall>x \<in> set (oy_used s). has_id (um_id (fst x)) (oy_rows s))"

lemma used_for_snoc: "used_for i (used @ [x]) = used_for i used @ (if um_id (fst x) = i then [x] else [])"
  by (simp add: used_for_def)

lemma ledger_snoc:
  "ledger_total f i (used @ [x]) = ledger_total f i used + (if um_id (fst x) = i then f (fst x) else 0)"
  "ledger_cost i (used @ [x]) = ledger_cost i used + (if um_id (fst x) = i then nullish (snd x) 0 else 0)"
  by (simp_all add: ledger_total_def ledger_cost_def used_for_snoc)

lemma COUNTERS_merge: "f \<in> set COUNTERS \<Longrightarrow> f (merge_summary env old new cost) = f old + f new"
  by (auto simp: COUNTERS_def merge_summary_def)

text \<open>Statements that keep the identity, kind and payload of every row, and only move the status.\<close>

locale claim_move = row_update ob_id act for act :: "outbox_row \<Rightarrow> outbox_row" +
  assumes same_payload: "ob_payload (act r) = ob_payload r" "ob_kind (act r) = ob_kind r" "ob_cost (act r) = ob_cost r"
begin

lemma move_accounts: "row_accounts used r \<Longrightarrow> row_accounts used (if p r then act r else r)"
  by (simp add: row_accounts_def same_payload key_act split: outbox_payload.splits)

lemma has_id_move: "has_id i (update_rows p act rows) = has_id i rows"
  by (simp add: has_id_def bex_update_rows key_act if_distrib cong: if_cong)

lemma move_inv:
  assumes inv: "outbox_inv s"
    and claims: "set (oy_claims s) \<subseteq> set claims" "distinct (map (\<lambda>c. (cl_id c, cl_token c)) claims)"
    and delivered: "set (oy_delivered s) \<subseteq> set delivered"
    and moved: "\<And>r. r \<in> set (oy_rows s) \<Longrightarrow> p r \<Longrightarrow> row_delivery claims delivered (act r)"
  shows "outbox_inv (s\<lparr>oy_rows := update_rows p act (oy_rows s), oy_claims := claims, oy_delivered := delivered\<rparr>)"
proof -
  have "row_delivery claims delivered r" if "r \<in> set (oy_rows s)" for r
    using inv that claims(1) delivered unfolding outbox_inv_def row_delivery_def by blast
  with inv claims(2) moved show ?thesis
    by (simp add: outbox_inv_def keys_update ball_update_rows has_id_move move_accounts)
qed

end

interpretation closed: claim_move "close_claim st err" for st err
  by unfold_locales (simp_all add: close_claim_def)

interpretation released: claim_move "\<lambda>r. (close_claim st err r)\<lparr>ob_attempts := ob_attempts r - 1\<rparr>" for st err
  by unfold_locales (simp_all add: close_claim_def)

interpretation recovered: claim_move "\<lambda>r. close_claim st (Some (nullish (ob_error r) msg)) r" for st msg
  by unfold_locales (simp_all add: close_claim_def)

interpretation started: claim_move "start_send token now" for token now
  by unfold_locales (simp_all add: start_send_def)

section \<open>Preservation\<close>

lemma selected_subset: "set (selected_rows tenant member limit kinds rows) \<subseteq> {r \<in> set rows. sendable (ob_status r)}"
  by (auto simp: selected_rows_def claimable_usage_def dest!: in_set_takeD)

lemma selected_distinct: "distinct (map ob_id rows) \<Longrightarrow> distinct (map ob_id (selected_rows tenant member limit kinds rows))"
  by (simp add: selected_rows_def take_map [symmetric] distinct_take distinct_sort_by distinct_map_filter)

lemma fold_start_send:
  "fold (\<lambda>p. update_rows (\<lambda>r. ob_id r = ob_id p \<and> sendable (ob_status r)) (start_send token now)) picked rows =
     update_rows (\<lambda>r. ob_id r \<in> ob_id ` set picked \<and> sendable (ob_status r)) (start_send token now) rows"
proof (induction picked arbitrary: rows)
  case (Cons p picked)
  show ?case
    unfolding fold_simps comp_apply Cons.IH
    by (auto simp: update_rows_def start_send_def sendable_def)
qed (simp add: update_rows_def)

lemma claim_rows:
  assumes "claimUsageOutbox tenant member limit kinds uuid now rows = (claimed, rows')"
  shows "\<exists>picked. set picked \<subseteq> {r \<in> set rows. sendable (ob_status r)} \<and> (distinct (map ob_id rows) \<longrightarrow> distinct (map ob_id picked))
     \<and> claimed = map (claimed_of uuid) picked
     \<and> rows' = update_rows (\<lambda>r. ob_id r \<in> ob_id ` set picked \<and> sendable (ob_status r)) (start_send uuid now) rows"
proof (intro exI conjI)
  show "set (selected_rows tenant member limit kinds rows) \<subseteq> {r \<in> set rows. sendable (ob_status r)}" by (rule selected_subset)
  show "distinct (map ob_id rows) \<longrightarrow> distinct (map ob_id (selected_rows tenant member limit kinds rows))"
    using selected_distinct by blast
qed (use assms in \<open>simp_all add: claimUsageOutbox_def Let_def fold_start_send\<close>)

lemma claim_inv:
  assumes inv: "outbox_inv s" and fresh: "uuid \<notin> cl_token ` set (oy_claims s)"
    and claim: "claimUsageOutbox tenant member limit kinds uuid now (oy_rows s) = (claimed, rows)"
  shows "outbox_inv (s\<lparr>oy_rows := rows, oy_claims := oy_claims s @ claimed\<rparr>)"
proof -
  have ids: "distinct (map ob_id (oy_rows s))" using inv by (simp add: outbox_inv_def)
  with claim_rows [OF claim] obtain picked where
    picked: "set picked \<subseteq> {r \<in> set (oy_rows s). sendable (ob_status r)}" "distinct (map ob_id picked)"
    and claimed: "claimed = map (claimed_of uuid) picked"
    and rows: "rows = update_rows (\<lambda>r. ob_id r \<in> ob_id ` set picked \<and> sendable (ob_status r)) (start_send uuid now) (oy_rows s)"
    by blast
  have "row_delivery (oy_claims s @ claimed) (oy_delivered s) (start_send uuid now r)"
    if "r \<in> set (oy_rows s)" "ob_id r \<in> ob_id ` set picked \<and> sendable (ob_status r)" for r
  proof -
    from that obtain p where "p \<in> set picked" "ob_id p = ob_id r" by auto
    with that picked ids have "r \<in> set picked" by (metis (no_types, lifting) distinct_map inj_on_contraD mem_Collect_eq subset_iff)
    then have "claimed_of uuid r \<in> set claimed" by (simp add: claimed)
    then show ?thesis
      by (auto simp: row_delivery_def start_send_def claimed_of_def intro!: bexI [of _ "claimed_of uuid r"])
  qed
  moreover have "distinct (map (\<lambda>c. (cl_id c, cl_token c)) (oy_claims s @ claimed))"
    using inv fresh picked(2)
    by (auto simp: outbox_inv_def claimed claimed_of_def distinct_map inj_on_def comp_def)
  ultimately have "outbox_inv (s\<lparr>oy_rows := rows, oy_claims := oy_claims s @ claimed, oy_delivered := oy_delivered s\<rparr>)"
    unfolding rows by (intro started.move_inv [OF inv]) auto
  then show ?thesis by simp
qed

lemma delivered_inv:
  assumes inv: "outbox_inv s" and cl: "cl \<in> set (oy_claims s)"
  shows "outbox_inv (s\<lparr>oy_rows := markUsageSent (cl_id cl) (cl_token cl) (oy_rows s),
     oy_delivered := oy_delivered s @ [(cl_id cl, cl_payload cl)]\<rparr>)"
proof -
  have "ob_payload r = cl_payload cl" if "r \<in> set (oy_rows s)" "in_flight (cl_id cl) (cl_token cl) r" for r
  proof -
    from that inv obtain c where "c \<in> set (oy_claims s)" "cl_id c = ob_id r" "cl_token c = cl_token cl" "cl_payload c = ob_payload r"
      by (auto simp: outbox_inv_def row_delivery_def in_flight_def)
    with inv cl that(2) have "c = cl" by (auto simp: outbox_inv_def distinct_map in_flight_def dest: inj_onD)
    with \<open>cl_payload c = ob_payload r\<close> show ?thesis by simp
  qed
  then have "outbox_inv (s\<lparr>oy_rows := markUsageSent (cl_id cl) (cl_token cl) (oy_rows s), oy_claims := oy_claims s,
     oy_delivered := oy_delivered s @ [(cl_id cl, cl_payload cl)]\<rparr>)"
    unfolding markUsageSent_def using inv
    by (intro closed.move_inv [OF inv]) (auto simp: outbox_inv_def row_delivery_def close_claim_def in_flight_def)
  then show ?thesis by simp
qed

text \<open>A statement that closes claims other than as sent owes nothing.\<close>

lemma closing_inv:
  assumes "outbox_inv s" and "claim_move act" and "\<And>r. ob_status (act r) \<noteq> OSending \<and> ob_status (act r) \<noteq> OSent"
  shows "outbox_inv (s\<lparr>oy_rows := update_rows p act (oy_rows s)\<rparr>)"
proof -
  have "outbox_inv (s\<lparr>oy_rows := update_rows p act (oy_rows s), oy_claims := oy_claims s, oy_delivered := oy_delivered s\<rparr>)"
    using assms(1,3) by (intro claim_move.move_inv [OF assms(2)]) (auto simp: outbox_inv_def row_delivery_def)
  then show ?thesis by simp
qed

lemmas closing_moves = closed.claim_move_axioms released.claim_move_axioms recovered.claim_move_axioms

lemma merge_accounts:
  assumes "row_accounts used r" "ob_kind r = UsageKind" "ob_id r = um_id u"
  shows "row_accounts (used @ [(u, cost)]) (merge_row env u (map_option usdDecimal cost) r)"
proof -
  from assms(1,2) obtain old where old: "ob_payload r = UsagePayload old"
    by (cases "ob_payload r") (auto simp: row_accounts_def)
  have "cumulative_cost (ob_cost r) (um_costTotal old) (map_option usdDecimal cost)
      = Some (usdDecimal (ledger_cost (ob_id r) (used @ [(u, cost)])))"
    if "\<forall>x \<in> set (used_for (ob_id r) (used @ [(u, cost)])). snd x \<noteq> None"
  proof -
    from that assms(3) obtain n where n: "cost = Some n" by (auto simp: used_for_snoc)
    have "ob_cost r = Some (usdDecimal (ledger_cost (ob_id r) used))"
      using that assms(1) old by (simp add: row_accounts_def used_for_snoc ball_Un)
    then show ?thesis using n assms(3) by (simp add: cumulative_cost_def cost_text_def add_usage_cost_exact ledger_snoc)
  qed
  with assms old show ?thesis
    by (simp add: row_accounts_def merge_row_def Let_def COUNTERS_merge ledger_snoc)
qed

lemma accounts_other: "row_accounts used r \<Longrightarrow> um_id u \<noteq> ob_id r \<Longrightarrow> row_accounts (used @ [(u, c)]) r"
  by (simp add: row_accounts_def used_for_snoc ledger_snoc split: outbox_payload.splits)

lemma merge_row_fields [simp]: "ob_id (merge_row env u c r) = ob_id r" "ob_status (merge_row env u c r) = OPending"
  by (simp_all add: merge_row_def Let_def split: outbox_payload.splits)

interpretation merged: row_update ob_id "merge_row env u c" for env u c
  by unfold_locales simp

lemma fresh_accounts:
  assumes "used_for (um_id u) used = []"
  shows "row_accounts (used @ [(u, cost)]) (usage_row u (map_option usdDecimal cost) now)"
  using assms
  by (auto simp: row_accounts_def usage_row_def ledger_snoc ledger_total_def ledger_cost_def used_for_snoc nullish_def split: option.splits)

lemma has_id_update: "(\<And>r. ob_id (f r) = ob_id r) \<Longrightarrow> has_id i (update_rows p f rows) = has_id i rows"
  by (simp add: has_id_def bex_update_rows if_distrib cong: if_cong)

lemma record_inv:
  assumes inv: "outbox_inv s" and kind: "kind_free (um_id u) UsageKind (oy_rows s)"
  shows "outbox_inv (s\<lparr>oy_rows := upsertUsageSummary env u preciseCost now (oy_rows s),
     oy_used := oy_used s @ [(u, summary_units u preciseCost)]\<rparr>)"
proof (cases "has_id (um_id u) (oy_rows s)")
  case True
  let ?cost = "summary_units u preciseCost"
  let ?rows = "update_rows (\<lambda>r. ob_id r = um_id u) (merge_row env u (map_option usdDecimal ?cost)) (oy_rows s)"
  have "row_accounts (oy_used s @ [(u, ?cost)]) r \<and> row_delivery (oy_claims s) (oy_delivered s) r" if "r \<in> set ?rows" for r
  proof -
    from that obtain q where q: "q \<in> set (oy_rows s)" "r = (if ob_id q = um_id u then merge_row env u (map_option usdDecimal ?cost) q else q)"
      by (auto simp: set_update_rows)
    have i: "row_accounts (oy_used s) q" "row_delivery (oy_claims s) (oy_delivered s) q" using inv q(1) by (simp_all add: outbox_inv_def)
    show ?thesis
    proof (cases "ob_id q = um_id u")
      case True
      then have "ob_kind q = UsageKind" using kind q(1) by (simp add: kind_free_def)
      with True q(2) i(1) merge_accounts show ?thesis by (simp add: row_delivery_def)
    next
      case False
      with q(2) i accounts_other show ?thesis by simp
    qed
  qed
  with True inv show ?thesis
    by (simp add: upsertUsageSummary_def summary_units_def outbox_inv_def merged.keys_update has_id_update)
next
  case False
  let ?cost = "summary_units u preciseCost"
  have none: "used_for (um_id u) (oy_used s) = []"
    using False inv by (auto simp: outbox_inv_def used_for_def filter_empty_conv)
  have "row_accounts (oy_used s @ [(u, ?cost)]) r \<and> row_delivery (oy_claims s) (oy_delivered s) r"
    if "r \<in> set (oy_rows s @ [usage_row u (map_option usdDecimal ?cost) now])" for r
  proof (cases "r \<in> set (oy_rows s)")
    case True
    then have "um_id u \<noteq> ob_id r" using False by (auto simp: has_id_def)
    with True inv accounts_other show ?thesis by (simp add: outbox_inv_def)
  next
    case False
    with that fresh_accounts [OF none] show ?thesis by (simp add: row_delivery_def usage_row_def)
  qed
  with False inv show ?thesis
    by (auto simp: upsertUsageSummary_def summary_units_def outbox_inv_def has_id_def usage_row_def)
qed

lemma publish_inv:
  assumes inv: "outbox_inv s" and kind: "kind_free (os_id o') OutcomeKind (oy_rows s)"
  shows "outbox_inv (s\<lparr>oy_rows := publish_bucket o' now (oy_rows s)\<rparr>)"
proof (cases "os_evaluated o' = 0 \<or> has_id (os_id o') (oy_rows s)")
  case True
  let ?p = "\<lambda>r. ob_id r = os_id o' \<and> ob_kind r = OutcomeKind"
  have ids: "map ob_id (update_rows ?p (replace_outcome o') (oy_rows s)) = map ob_id (oy_rows s)"
    by (rule row_update.keys_update) (simp add: row_update_def replace_outcome_def)
  have "row_accounts (oy_used s) r \<and> row_delivery (oy_claims s) (oy_delivered s) r"
    if "r \<in> set (update_rows ?p (replace_outcome o') (oy_rows s))" for r
  proof -
    from that obtain q where q: "q \<in> set (oy_rows s)" "r = (if ?p q then replace_outcome o' q else q)"
      by (auto simp: set_update_rows)
    have i: "row_accounts (oy_used s) q" "row_delivery (oy_claims s) (oy_delivered s) q" using inv q(1) by (simp_all add: outbox_inv_def)
    from i(1) have "ob_kind q = OutcomeKind \<Longrightarrow> used_for (ob_id q) (oy_used s) = []"
      by (simp add: row_accounts_def split: outbox_payload.splits)
    then have "?p q \<Longrightarrow> row_accounts (oy_used s) (replace_outcome o' q) \<and> row_delivery (oy_claims s) (oy_delivered s) (replace_outcome o' q)"
      by (simp add: row_accounts_def row_delivery_def replace_outcome_def)
    with q(2) i show ?thesis by simp
  qed
  with True inv show ?thesis
    by (simp add: publish_bucket_def outbox_inv_def ids has_id_update replace_outcome_def)
next
  case False
  then have "used_for (os_id o') (oy_used s) = []" using inv by (auto simp: outbox_inv_def used_for_def filter_empty_conv)
  then have "row_accounts (oy_used s) (outcome_row o' now) \<and> row_delivery (oy_claims s) (oy_delivered s) (outcome_row o' now)"
    by (simp add: row_accounts_def row_delivery_def outcome_row_def)
  moreover have "os_id o' \<notin> ob_id ` set (oy_rows s)" using False by (auto simp: has_id_def)
  ultimately show ?thesis
    using False inv by (simp add: publish_bucket_def outbox_inv_def has_id_def outcome_row_def [of o' now])
qed

lemma outbox_step_inv: "outbox_step env s t \<Longrightarrow> outbox_inv s \<Longrightarrow> outbox_inv t"
proof (induction rule: outbox_step.induct)
  case (step_failed s i token err)
  then show ?case unfolding markUsageFailed_def by (rule closing_inv [OF _ closing_moves(1)]) (simp add: close_claim_def)
next
  case (step_rejected s i token err)
  then show ?case unfolding markUsageRejected_def by (rule closing_inv [OF _ closing_moves(1)]) (simp add: close_claim_def)
next
  case (step_released s i token why)
  then show ?case unfolding releaseUsageClaim_def by (rule closing_inv [OF _ closing_moves(2)]) (simp add: close_claim_def)
next
  case (step_restarted s)
  then show ?case unfolding restart_usage_def by (rule closing_inv [OF _ closing_moves(3)]) (simp add: close_claim_def)
qed (rule record_inv publish_inv claim_inv delivered_inv; assumption)+

interpretation usage_outbox: invariant_system outbox_init "outbox_step env" outbox_inv for env
proof unfold_locales
  show "outbox_init s \<Longrightarrow> outbox_inv s" for s by (simp add: outbox_init_def outbox_inv_def)
  show "outbox_inv s \<Longrightarrow> outbox_step env s t \<Longrightarrow> outbox_inv t" for s t by (rule outbox_step_inv)
qed

section \<open>Properties\<close>

text \<open>(C29) The outbox implements a ledger.  In every history of accumulation, claims, deliveries, failures and
  restarts there is one row per summary, and a usage row's counters are exactly the sums of all usage
  recorded under it, its cost the exact decimal sum when every recorded cost is known.\<close>

theorem outbox_refines_ledger:
  assumes "reach outbox_init (outbox_step env) s" and "(u, c) \<in> set (oy_used s)"
  shows "\<exists>r v. r \<in> set (oy_rows s) \<and> ob_id r = um_id u \<and> ob_payload r = UsagePayload v
    \<and> (\<forall>r' \<in> set (oy_rows s). ob_id r' = um_id u \<longrightarrow> r' = r)
    \<and> map (\<lambda>f. f v) COUNTERS = map (\<lambda>f. ledger_total f (um_id u) (oy_used s)) COUNTERS
    \<and> ((\<forall>x \<in> set (used_for (um_id u) (oy_used s)). snd x \<noteq> None) \<longrightarrow>
         ob_cost r = Some (usdDecimal (ledger_cost (um_id u) (oy_used s))))"
proof -
  have inv: "outbox_inv s" using assms(1) by (rule usage_outbox.reach_inv)
  with assms(2) obtain r where r: "r \<in> set (oy_rows s)" "ob_id r = um_id u" by (fastforce simp: outbox_inv_def has_id_def)
  have acc: "row_accounts (oy_used s) r" using inv r(1) by (simp add: outbox_inv_def)
  have "(u, c) \<in> set (used_for (ob_id r) (oy_used s))" using assms(2) r(2) by (simp add: used_for_def)
  with acc obtain v where v: "ob_payload r = UsagePayload v" by (cases "ob_payload r") (auto simp: row_accounts_def)
  have "\<forall>r' \<in> set (oy_rows s). ob_id r' = um_id u \<longrightarrow> r' = r"
  proof -
    have "inj_on ob_id (set (oy_rows s))" using inv by (simp add: outbox_inv_def distinct_map)
    with r show ?thesis by (metis inj_onD)
  qed
  moreover have "map (\<lambda>f. f v) COUNTERS = map (\<lambda>f. ledger_total f (um_id u) (oy_used s)) COUNTERS"
    using acc v r(2) by (simp add: row_accounts_def)
  moreover have "(\<forall>x \<in> set (used_for (um_id u) (oy_used s)). snd x \<noteq> None) \<longrightarrow>
      ob_cost r = Some (usdDecimal (ledger_cost (um_id u) (oy_used s)))"
    using acc v r(2) by (simp add: row_accounts_def)
  ultimately show ?thesis using r v by blast
qed

text \<open>No usage is lost to a concurrent upload.  A row counts as sent only if the Manager accepted the row's present
  payload; usage recorded while an upload was under way makes the row pending again, and the late
  confirmation of that upload does not close it.\<close>

theorem sent_means_current_payload:
  assumes "reach outbox_init (outbox_step env) s" and "r \<in> set (oy_rows s)"
  shows "(ob_status r = OSent \<longrightarrow> (ob_id r, ob_payload r) \<in> set (oy_delivered s))
    \<and> (\<forall>u precise now token. kind_free (um_id u) UsageKind (oy_rows s) \<and> ob_id r = um_id u \<longrightarrow>
         (\<exists>r' \<in> set (markUsageSent (um_id u) token (upsertUsageSummary env u precise now (oy_rows s))).
            ob_id r' = um_id u \<and> ob_status r' = OPending))"
proof (intro conjI allI impI)
  have inv: "outbox_inv s" using assms(1) by (rule usage_outbox.reach_inv)
  show "(ob_id r, ob_payload r) \<in> set (oy_delivered s)" if "ob_status r = OSent"
    using inv assms(2) that by (simp add: outbox_inv_def row_delivery_def)
  fix u :: usage_summary and precise now token
  assume u: "kind_free (um_id u) UsageKind (oy_rows s) \<and> ob_id r = um_id u"
  then have "has_id (um_id u) (oy_rows s)" using assms(2) by (auto simp: has_id_def)
  then obtain c where "upsertUsageSummary env u precise now (oy_rows s) = update_rows (\<lambda>r. ob_id r = um_id u) (merge_row env u c) (oy_rows s)"
    by (auto simp: upsertUsageSummary_def Let_def)
  then show "\<exists>r' \<in> set (markUsageSent (um_id u) token (upsertUsageSummary env u precise now (oy_rows s))).
      ob_id r' = um_id u \<and> ob_status r' = OPending"
    using u assms(2) by (auto simp: markUsageSent_def bex_update_rows in_flight_def intro!: bexI [of _ r])
qed

text \<open>After an iteration its claim is closed, whatever the upload gave.\<close>

lemma flush_row_closes:
  assumes "flush_row env c retryMs row result now jitter (run, s) = (run', s')"
  shows "\<exists>act. fl_rows s' = update_rows (in_flight (cl_id row) (cl_token row)) act (fl_rows s)
     \<and> (\<forall>r. ob_status (act r) \<noteq> OSending \<and> ob_id (act r) = ob_id r)"
  using assms
  by (auto simp: flush_row_def upload_failed_def noteFailure_def Let_def markUsageSent_def markUsageFailed_def markUsageRejected_def
      releaseUsageClaim_def close_claim_def split: if_splits upload_result.splits)

definition claims_open :: "string \<Rightarrow> outbox \<Rightarrow> string set" where
  "claims_open token rows = {ob_id r | r. r \<in> set rows \<and> ob_status r = OSending \<and> ob_claim r = Some token}"

lemma flush_row_open:
  assumes "flush_row env c retryMs row result now jitter (run, s) = (run', s')" "cl_token row = token"
  shows "claims_open token (fl_rows s') \<subseteq> claims_open token (fl_rows s) - {cl_id row}"
proof -
  from flush_row_closes [OF assms(1)] obtain act where
    act: "fl_rows s' = update_rows (in_flight (cl_id row) token) act (fl_rows s)"
      "\<And>r. ob_status (act r) \<noteq> OSending" using assms(2) by auto
  show ?thesis unfolding claims_open_def act(1) by (auto simp: set_update_rows act(2) in_flight_def split: if_splits)
qed

lemma flush_rows_open:
  assumes "flush_rows env c retryMs xs (run, s) = (run', s')" "\<forall>x \<in> set xs. cl_token (fst x) = token"
  shows "claims_open token (fl_rows s') \<subseteq> claims_open token (fl_rows s) - (\<lambda>x. cl_id (fst x)) ` set xs"
  using assms
proof (induction xs arbitrary: run s)
  case (Cons x xs)
  obtain row result now jitter where x: "x = (row, result, now, jitter)" by (cases x)
  obtain run1 s1 where one: "flush_row env c retryMs row result now jitter (run, s) = (run1, s1)" by force
  with Cons.prems x have "flush_rows env c retryMs xs (run1, s1) = (run', s')" by simp
  from Cons.IH [OF this] Cons.prems(2) have
    "claims_open token (fl_rows s') \<subseteq> claims_open token (fl_rows s1) - (\<lambda>x. cl_id (fst x)) ` set xs" by simp
  moreover have "claims_open token (fl_rows s1) \<subseteq> claims_open token (fl_rows s) - {cl_id row}"
    using flush_row_open [OF one] Cons.prems(2) x by simp
  ultimately show ?case unfolding x by auto
qed simp

text \<open>Every upload round settles.  After the loop has gone over all rows it claimed, whatever the uploads gave, no row
  is left in the sending state under the round's claim: each was sent, failed, rejected or returned.\<close>

theorem flush_settles_every_claim:
  assumes "flush_begin c hasOutcomes limit uuid now s = (claimed, s1)"
    and "\<forall>r \<in> set (fl_rows s). ob_claim r \<noteq> Some uuid"
    and "map fst xs = claimed"
    and "flush_rows env c retryMs xs (run_init, s1) = (run, s2)"
  shows "\<forall>r \<in> set (fl_rows s2). \<not> (ob_status r = OSending \<and> ob_claim r = Some uuid)"
proof -
  from assms(1) obtain tenant member kinds where
    "claimUsageOutbox tenant member limit kinds uuid now (fl_rows s) = (claimed, fl_rows s1)"
    by (auto simp: flush_begin_def Let_def)
  from claim_rows [OF this] obtain picked where
    claimed: "claimed = map (claimed_of uuid) picked"
    and rows: "fl_rows s1 = update_rows (\<lambda>r. ob_id r \<in> ob_id ` set picked \<and> sendable (ob_status r)) (start_send uuid now) (fl_rows s)"
    by blast
  have ids: "(\<lambda>x. cl_id (fst x)) ` set xs = ob_id ` set picked"
  proof -
    have "(\<lambda>x. cl_id (fst x)) ` set xs = cl_id ` set (map fst xs)" by (simp add: image_image)
    also have "\<dots> = ob_id ` set picked" by (simp add: assms(3) claimed image_image claimed_of_def)
    finally show ?thesis .
  qed
  have "claims_open uuid (fl_rows s1) \<subseteq> ob_id ` set picked"
    using assms(2) unfolding claims_open_def rows by (auto simp: set_update_rows start_send_def split: if_splits)
  moreover have "\<forall>x \<in> set xs. cl_token (fst x) = uuid"
  proof
    fix x assume "x \<in> set xs"
    then have "fst x \<in> set claimed" using assms(3) by (metis image_eqI list.set_map)
    then show "cl_token (fst x) = uuid" by (auto simp: claimed claimed_of_def)
  qed
  then have "claims_open uuid (fl_rows s2) \<subseteq> claims_open uuid (fl_rows s1) - ob_id ` set picked"
    using flush_rows_open [OF assms(4)] ids by simp
  ultimately have "claims_open uuid (fl_rows s2) = {}" by blast
  then show ?thesis by (auto simp: claims_open_def)
qed

section \<open>Witnesses\<close>

definition demo_outbox_env :: outbox_env where
  "demo_outbox_env = \<lparr> oe_real = (\<lambda>_. 0), oe_hidden = ''*'', oe_pathHidden = ''*'' \<rparr>"

definition demo_summary :: usage_summary where
  "demo_summary = \<lparr> um_id = ''i'', um_tenant = ''t'', um_member = ''m'', um_employee = ''e'', um_windowStart = 0,
     um_windowEnd = 3600000, um_prompts = 1, um_settled = 1, um_errors = 0, um_input = 10, um_output = 5, um_cache = 0,
     um_costMinor = Some 0, um_durationMs = 7, um_pricingVersion = Some 1, um_pricingKnown = True, um_runs = 1, um_tokens = 15,
     um_costTotal = JStr (usdDecimal 25), um_durationSeconds = 1 \<rparr>"

definition demo_outbox :: outbox_sys where
  "demo_outbox = \<lparr> oy_rows = [usage_row demo_summary (Some (usdDecimal 25)) 100], oy_claims = [], oy_delivered = [],
     oy_used = [(demo_summary, Some 25)] \<rparr>"

lemma demo_outbox_reach: "reach outbox_init (outbox_step demo_outbox_env) demo_outbox"
proof -
  let ?i = "\<lparr> oy_rows = [], oy_claims = [], oy_delivered = [], oy_used = [] \<rparr>"
  have "summary_units demo_summary None = Some 25" by (simp add: summary_units_def demo_summary_def usdUnits_usdDecimal)
  moreover have "outbox_step demo_outbox_env ?i (?i\<lparr>oy_rows := upsertUsageSummary demo_outbox_env demo_summary None 100 (oy_rows ?i),
      oy_used := oy_used ?i @ [(demo_summary, summary_units demo_summary None)]\<rparr>)"
    by (rule step_record) (simp add: kind_free_def)
  ultimately have "outbox_step demo_outbox_env ?i demo_outbox"
    by (simp add: demo_outbox_def upsertUsageSummary_def has_id_def summary_units_def)
  moreover have "outbox_init ?i" by (simp add: outbox_init_def)
  ultimately show ?thesis by (blast intro: reach.intros)
qed

theorem outbox_refines_ledger_witness:
  "\<exists>r. r \<in> set (oy_rows demo_outbox) \<and> ob_id r = ''i'' \<and> ob_cost r = Some (usdDecimal 25)"
  using outbox_refines_ledger [OF demo_outbox_reach, of demo_summary "Some 25"]
  by (auto simp: demo_outbox_def used_for_def ledger_cost_def demo_summary_def)

theorem sent_means_current_payload_witness:
  "\<exists>r' \<in> set (markUsageSent ''i'' ''tok'' (upsertUsageSummary demo_outbox_env demo_summary None 200 (oy_rows demo_outbox))).
     ob_id r' = ''i'' \<and> ob_status r' = OPending"
proof -
  let ?r = "usage_row demo_summary (Some (usdDecimal 25)) 100"
  have "?r \<in> set (oy_rows demo_outbox)" "kind_free (um_id demo_summary) UsageKind (oy_rows demo_outbox)" "ob_id ?r = um_id demo_summary"
    by (simp_all add: demo_outbox_def kind_free_def usage_row_def)
  with sent_means_current_payload [OF demo_outbox_reach this(1)] have
    "\<exists>r' \<in> set (markUsageSent (um_id demo_summary) ''tok'' (upsertUsageSummary demo_outbox_env demo_summary None 200 (oy_rows demo_outbox))).
       ob_id r' = um_id demo_summary \<and> ob_status r' = OPending" by blast
  then show ?thesis by (simp add: demo_summary_def)
qed

definition demo_flush :: flush_service where
  "demo_flush = \<lparr> fl_backoff = [], fl_unsupportedUntil = [], fl_rows = oy_rows demo_outbox, fl_auth = registry_init \<rparr>"

definition demo_uploader :: caller where
  "demo_uploader = \<lparr> ca_callerId = ''m'', ca_accessToken = None, ca_tenantId = Some ''t'', ca_userId = Some ''m'', ca_roles = None, ca_claims = None \<rparr>"

definition demo_failure :: upload_error where
  "demo_failure = \<lparr> ux_isError = True, ux_message = [], ux_status = Some 500, ux_problem = None \<rparr>"

theorem flush_settles_every_claim_witness:
  "\<exists>row run s2. flush_begin demo_uploader False 50 ''u'' 200 demo_flush = ([row], snd (flush_begin demo_uploader False 50 ''u'' 200 demo_flush))
     \<and> flush_rows demo_outbox_env demo_uploader None [(row, UploadError demo_failure, 300, 0)]
         (run_init, snd (flush_begin demo_uploader False 50 ''u'' 200 demo_flush)) = (run, s2)
     \<and> filter (\<lambda>r. ob_status r = OSending \<and> ob_claim r = Some ''u'') (fl_rows s2) = []"
proof -
  let ?s1 = "snd (flush_begin demo_uploader False 50 ''u'' 200 demo_flush)"
  obtain row where b: "flush_begin demo_uploader False 50 ''u'' 200 demo_flush = ([row], ?s1)"
    by (simp add: flush_begin_def demo_flush_def demo_outbox_def demo_uploader_def usage_row_def demo_summary_def claimUsageOutbox_def
        selected_rows_def claimable_usage_def sendable_def callerMemberId_def sort_by_def Let_def)
  obtain run s2 where f: "flush_rows demo_outbox_env demo_uploader None [(row, UploadError demo_failure, 300, 0)] (run_init, ?s1) = (run, s2)"
    by (meson surj_pair)
  have "\<forall>r \<in> set (fl_rows demo_flush). ob_claim r \<noteq> Some ''u''" by (simp add: demo_flush_def demo_outbox_def usage_row_def)
  from flush_settles_every_claim [OF b this _ f] b f show ?thesis by (auto simp: filter_empty_conv)
qed

end
