(* ===== verification/Context_Segments.thy ===== *)
theory Context_Segments
  imports Usage_Outbox
begin

text \<open>
  The context segments of \<open>storage/context-segments.ts\<close> with the listener \<open>publishSegmentOutcomes\<close> of
  \<open>storage/sqlite.ts\<close>: each context reset ends a segment, the member may judge it, and the hourly
  verdict counts of every employee are kept in the outbox.  A JSON column holds the list it encodes.
\<close>

datatype segment_outcome = Resolved | Unresolved

definition SEGMENT_OUTCOME_REASONS :: "string list" where
  "SEGMENT_OUTCOME_REASONS = [''off_topic'', ''missing_info'', ''execution_failed'', ''wrong_result'', ''too_slow'', ''other'']"

definition SEGMENT_EDIT_WINDOW_MS :: ms where "SEGMENT_EDIT_WINDOW_MS = 604800000"

record evaluation =
  ev_outcome :: "segment_outcome option"
  ev_reasons :: "string list"
  ev_note :: "string option"
  ev_followUp :: bool

record segment =
  sg_tenant :: string
  sg_member :: string
  sg_conversation :: string
  sg_id :: string
  sg_employees :: "string list"
  sg_messages :: int
  sg_outcome :: "segment_outcome option"
  sg_reasons :: "string list"
  sg_note :: "string option"
  sg_followUp :: bool
  sg_revision :: int
  sg_created :: ms
  sg_evaluated :: "ms option"
  sg_updated :: ms

datatype segment_error = SegmentNotFound | RevisionConflict | EditWindowClosed

record segment_store =
  ss_segments :: "segment list"
  ss_outbox :: outbox

section \<open>Reads\<close>

definition isOutcomeReason :: "string \<Rightarrow> bool" where
  "isOutcomeReason r \<longleftrightarrow> r \<in> set SEGMENT_OUTCOME_REASONS"

text \<open>What leaves the store: unknown reasons are filtered, the edit deadline is derived.\<close>

record public_segment =
  ps_row :: segment
  ps_editableUntil :: ms

definition publicSegment :: "segment \<Rightarrow> public_segment" where
  "publicSegment r = \<lparr> ps_row = r\<lparr>sg_reasons := filter isOutcomeReason (sg_reasons r)\<rparr>,
     ps_editableUntil = sg_created r + SEGMENT_EDIT_WINDOW_MS \<rparr>"

definition segment_key :: "segment \<Rightarrow> string \<times> string \<times> string \<times> string" where
  "segment_key r = (sg_tenant r, sg_member r, sg_conversation r, sg_id r)"

definition find_segment :: "string \<Rightarrow> string \<Rightarrow> string \<Rightarrow> string \<Rightarrow> segment list \<Rightarrow> segment option" where
  "find_segment tenant member conversation i rows = find (\<lambda>r. segment_key r = (tenant, member, conversation, i)) rows"

definition segment_get :: "string \<Rightarrow> string \<Rightarrow> string \<Rightarrow> string \<Rightarrow> segment list \<Rightarrow> public_segment option" where
  "segment_get tenant member conversation i rows = map_option publicSegment (find_segment tenant member conversation i rows)"

definition segment_le :: "segment \<Rightarrow> segment \<Rightarrow> bool" where
  "segment_le a b \<longleftrightarrow> sg_created a < sg_created b
     \<or> (sg_created a = sg_created b \<and> bytes_le (map of_char (sg_id a)) (map of_char (sg_id b)))"

definition segment_list :: "string \<Rightarrow> string \<Rightarrow> string \<Rightarrow> segment list \<Rightarrow> public_segment list" where
  "segment_list tenant member conversation rows =
     map publicSegment (sort_by segment_le
       (filter (\<lambda>r. sg_tenant r = tenant \<and> sg_member r = member \<and> sg_conversation r = conversation) rows))"

definition evaluated_segments ::
  "string \<Rightarrow> string \<Rightarrow> string option \<Rightarrow> ms option \<Rightarrow> ms option \<Rightarrow> segment list
     \<Rightarrow> (string list \<times> segment_outcome \<times> string list) list" where
  "evaluated_segments tenant member employee start stop rows =
     (let stop' = (if start = None then None else stop);
          hit = (\<lambda>r. sg_tenant r = tenant \<and> sg_member r = member \<and> sg_outcome r \<noteq> None
             \<and> (case start of None \<Rightarrow> True | Some t \<Rightarrow> t \<le> sg_created r)
             \<and> (case stop' of None \<Rightarrow> True | Some t \<Rightarrow> sg_created r < t))
      in filter (\<lambda>x. case employee of None \<Rightarrow> True | Some e \<Rightarrow> e = [] \<or> e \<in> set (fst x))
           (map (\<lambda>r. (sg_employees r, the (sg_outcome r), filter isOutcomeReason (sg_reasons r))) (filter hit rows)))"

definition counted :: "string \<Rightarrow> string \<Rightarrow> string \<Rightarrow> ms \<Rightarrow> segment \<Rightarrow> bool" where
  "counted tenant member employee hour r \<longleftrightarrow>
     sg_tenant r = tenant \<and> sg_member r = member \<and> sg_outcome r \<noteq> None
     \<and> hour \<le> sg_created r \<and> sg_created r < hour + HOUR_MS \<and> employee \<in> set (sg_employees r)"

definition hourlyCounts :: "string \<Rightarrow> string \<Rightarrow> string \<Rightarrow> ms \<Rightarrow> segment list \<Rightarrow> nat \<times> nat" where
  "hourlyCounts tenant member employee hour rows =
     (changed (counted tenant member employee hour) rows,
      changed (\<lambda>r. counted tenant member employee hour r \<and> sg_outcome r = Some Resolved) rows)"

section \<open>Publication\<close>

text \<open>JavaScript's remainder truncates.\<close>

definition hour_start :: "ms \<Rightarrow> ms" where
  "hour_start t = t - (if t \<ge> 0 then t mod HOUR_MS else - ((- t) mod HOUR_MS))"

definition bucket_key :: "string \<Rightarrow> ms \<Rightarrow> string" where
  "bucket_key employee hour = employee @ [CHR 0x00] @ int_text hour"

definition segment_buckets :: "(string list \<times> ms) list \<Rightarrow> (string \<times> ms) list" where
  "segment_buckets segments =
     map snd (fold (\<lambda>(employees, created) m.
         fold (\<lambda>e m. omap_set (bucket_key e (hour_start created)) (e, hour_start created) m) employees m) segments [])"

definition publishSegmentOutcomes ::
  "usage_env \<Rightarrow> string \<Rightarrow> string \<Rightarrow> (string \<times> ms) list \<Rightarrow> ms \<Rightarrow> segment_store \<Rightarrow> segment_store" where
  "publishSegmentOutcomes env tenant member buckets now s =
     s\<lparr>ss_outbox := fold (\<lambda>(employee, hour).
           let counts = hourlyCounts tenant member employee hour (ss_segments s)
           in publish_bucket (segmentOutcomeSummary env tenant member employee hour (fst counts) (snd counts)) now)
         buckets (ss_outbox s)\<rparr>"

definition segment_notify ::
  "usage_env \<Rightarrow> string \<Rightarrow> string \<Rightarrow> (string list \<times> ms) list \<Rightarrow> ms \<Rightarrow> segment_store \<Rightarrow> segment_store" where
  "segment_notify env tenant member segments now s =
     (if segments = [] then s else publishSegmentOutcomes env tenant member (segment_buckets segments) now s)"

section \<open>Operations\<close>

record segment_input =
  si_conversation :: string
  si_segment :: string
  si_employees :: "string list"
  si_messages :: int
  si_ended :: ms
  si_evaluation :: "evaluation option"

definition new_segment :: "string \<Rightarrow> string \<Rightarrow> segment_input \<Rightarrow> segment" where
  "new_segment tenant member q =
     (let e = si_evaluation q; outcome = (case e of None \<Rightarrow> None | Some e \<Rightarrow> ev_outcome e)
      in \<lparr> sg_tenant = tenant, sg_member = member, sg_conversation = si_conversation q, sg_id = si_segment q,
           sg_employees = si_employees q, sg_messages = si_messages q, sg_outcome = outcome,
           sg_reasons = (case e of None \<Rightarrow> [] | Some e \<Rightarrow> ev_reasons e), sg_note = (case e of None \<Rightarrow> None | Some e \<Rightarrow> ev_note e),
           sg_followUp = (case e of None \<Rightarrow> False | Some e \<Rightarrow> ev_followUp e), sg_revision = 1, sg_created = si_ended q,
           sg_evaluated = (if outcome = None then None else Some (si_ended q)), sg_updated = si_ended q \<rparr>)"

definition segment_record ::
  "usage_env \<Rightarrow> string \<Rightarrow> string \<Rightarrow> segment_input \<Rightarrow> ms \<Rightarrow> segment_store \<Rightarrow> public_segment option \<times> segment_store" where
  "segment_record env tenant member q now s =
     (let row = new_segment tenant member q;
          exists = (find_segment tenant member (si_conversation q) (si_segment q) (ss_segments s) \<noteq> None);
          s1 = (if exists then s else s\<lparr>ss_segments := ss_segments s @ [row]\<rparr>);
          s2 = (if \<not> exists \<and> sg_outcome row \<noteq> None
                then segment_notify env tenant member [(si_employees q, si_ended q)] now s1 else s1)
      in (segment_get tenant member (si_conversation q) (si_segment q) (ss_segments s2), s2))"

definition set_verdict :: "evaluation \<Rightarrow> ms \<Rightarrow> segment \<Rightarrow> segment" where
  "set_verdict e now r =
     (let cleared = (ev_outcome e = None)
      in r\<lparr>sg_outcome := ev_outcome e, sg_reasons := (if cleared then [] else ev_reasons e),
           sg_note := (if cleared then None else ev_note e), sg_followUp := (\<not> cleared \<and> ev_followUp e),
           sg_revision := sg_revision r + 1, sg_evaluated := (if cleared then None else Some now), sg_updated := now\<rparr>)"

definition segment_evaluate ::
  "usage_env \<Rightarrow> string \<Rightarrow> string \<Rightarrow> string \<Rightarrow> string \<Rightarrow> evaluation \<Rightarrow> int \<Rightarrow> ms \<Rightarrow> segment_store
     \<Rightarrow> (segment_error + public_segment option) \<times> segment_store" where
  "segment_evaluate env tenant member conversation i e expectedRevision now s =
     (case find_segment tenant member conversation i (ss_segments s) of
        None \<Rightarrow> (Inl SegmentNotFound, s)
      | Some current \<Rightarrow>
          if sg_revision current \<noteq> expectedRevision then (Inl RevisionConflict, s)
          else if now > sg_created current + SEGMENT_EDIT_WINDOW_MS then (Inl EditWindowClosed, s)
          else (let s1 = s\<lparr>ss_segments := update_rows
                       (\<lambda>r. segment_key r = (tenant, member, conversation, i) \<and> sg_revision r = expectedRevision)
                       (set_verdict e now) (ss_segments s)\<rparr>;
                    s2 = (if sg_outcome current \<noteq> ev_outcome e
                          then segment_notify env tenant member [(sg_employees current, sg_created current)] now s1 else s1)
                in (Inr (segment_get tenant member conversation i (ss_segments s2)), s2)))"

definition in_conversation :: "string \<Rightarrow> string \<Rightarrow> string \<Rightarrow> segment \<Rightarrow> bool" where
  "in_conversation tenant member conversation r \<longleftrightarrow>
     sg_tenant r = tenant \<and> sg_member r = member \<and> sg_conversation r = conversation"

definition segment_deleteConversation ::
  "usage_env \<Rightarrow> string \<Rightarrow> string \<Rightarrow> string \<Rightarrow> ms \<Rightarrow> segment_store \<Rightarrow> segment_store" where
  "segment_deleteConversation env tenant member conversation now s =
     (let gone = filter (\<lambda>r. in_conversation tenant member conversation r \<and> sg_outcome r \<noteq> None) (ss_segments s)
      in segment_notify env tenant member (map (\<lambda>r. (sg_employees r, sg_created r)) gone) now
           (s\<lparr>ss_segments := delete_rows (in_conversation tenant member conversation) (ss_segments s)\<rparr>))"

section \<open>Buckets\<close>

lemma bucket_key_inject: "bucket_key e h = bucket_key e' h' \<longleftrightarrow> e = e' \<and> h = h'"
proof
  assume "bucket_key e h = bucket_key e' h'"
  then have "rev (int_text h) @ CHR 0x00 # rev e = rev (int_text h') @ CHR 0x00 # rev e'"
    by (metis append.assoc append_Cons append_Nil bucket_key_def rev.simps(2) rev_append)
  moreover have "CHR 0x00 \<notin> set (rev (int_text i))" for i
    using dec_chars [of "CHR 0x00"] by (auto simp: int_text_def is_digit_def)
  ultimately show "e = e' \<and> h = h'" by (simp add: split_at_char int_text_inject)
qed simp

definition bucket_map :: "(string \<times> string \<times> ms) list \<Rightarrow> bool" where
  "bucket_map m \<longleftrightarrow> (\<forall>(k, e, h) \<in> set m. k = bucket_key e h)"

lemma omap_set_bucket:
  "bucket_map m \<Longrightarrow> set (map snd (omap_set (bucket_key e h) (e, h) m)) = insert (e, h) (set (map snd m)) \<and> bucket_map (omap_set (bucket_key e h) (e, h) m)"
proof (induction m)
  case (Cons x m)
  obtain e1 h1 where x: "x = (bucket_key e1 h1, e1, h1)" and m: "bucket_map m" using Cons.prems by (cases x) (auto simp: bucket_map_def)
  have cons: "bucket_map ((bucket_key e' h', e', h') # n) \<longleftrightarrow> bucket_map n" for e' h' n by (simp add: bucket_map_def)
  show ?case
  proof (cases "e = e1 \<and> h = h1")
    case True
    with m show ?thesis by (simp add: x cons)
  next
    case False
    then have "bucket_key e h \<noteq> bucket_key e1 h1" by (simp add: bucket_key_inject)
    with Cons.IH [OF m] show ?thesis by (simp add: x cons insert_commute)
  qed
qed (simp add: bucket_map_def)

lemma fold_employees:
  "bucket_map m \<Longrightarrow>
     set (map snd (fold (\<lambda>e m. omap_set (bucket_key e h) (e, h) m) es m)) = (\<lambda>e. (e, h)) ` set es \<union> set (map snd m)
     \<and> bucket_map (fold (\<lambda>e m. omap_set (bucket_key e h) (e, h) m) es m)"
proof (induction es arbitrary: m)
  case (Cons e es)
  with omap_set_bucket [OF Cons.prems, of e h] show ?case by auto
qed simp

lemma set_segment_buckets: "set (segment_buckets segments) = {(e, hour_start t) | e t es. (es, t) \<in> set segments \<and> e \<in> set es}"
proof -
  have "set (map snd (fold (\<lambda>(employees, created) m.
         fold (\<lambda>e m. omap_set (bucket_key e (hour_start created)) (e, hour_start created) m) employees m) segments m))
      = {(e, hour_start t) | e t es. (es, t) \<in> set segments \<and> e \<in> set es} \<union> set (map snd m)" if "bucket_map m" for m
    using that
  proof (induction segments arbitrary: m)
    case (Cons x segments)
    obtain es t where x: "x = (es, t)" by (cases x)
    from fold_employees [OF Cons.prems, of "hour_start t" es] Cons.IH show ?case by (auto simp: x)
  qed simp
  from this [of "[]"] show ?thesis by (simp add: segment_buckets_def bucket_map_def)
qed

section \<open>Published counts\<close>

definition colon_free :: "string \<Rightarrow> bool" where
  "colon_free s \<longleftrightarrow> CHR '':'' \<notin> set s"

text \<open>What the model relies on of the platform: SHA-256 and the ISO rendering separate their arguments.\<close>

definition id_env :: "usage_env \<Rightarrow> bool" where
  "id_env env \<longleftrightarrow> inj (ue_sha256 env) \<and> inj (ue_iso env)"

definition outcome_id :: "usage_env \<Rightarrow> string \<Rightarrow> string \<Rightarrow> string \<Rightarrow> ms \<Rightarrow> string" where
  "outcome_id env tenant member employee hour = os_id (segmentOutcomeSummary env tenant member employee hour 0 0)"

lemma outcome_id_summary [simp]: "os_id (segmentOutcomeSummary env t m e h a b) = outcome_id env t m e h"
  by (simp add: outcome_id_def segmentOutcomeSummary_def Let_def)

lemma outcome_id_inject:
  assumes "id_env env" "colon_free t" "colon_free m" "colon_free e" "colon_free t'" "colon_free m'" "colon_free e'"
  shows "outcome_id env t m e h = outcome_id env t' m' e' h' \<longleftrightarrow> t = t' \<and> m = m' \<and> e = e' \<and> hour_of h = hour_of h'"
proof -
  have "ue_sha256 env a = ue_sha256 env b \<longleftrightarrow> a = b" "ue_iso env i = ue_iso env j \<longleftrightarrow> i = j" for a b i j
    using assms(1) by (auto simp: id_env_def inj_eq)
  with assms(2-) show ?thesis
    by (simp add: outcome_id_def segmentOutcomeSummary_def Let_def split_at_char colon_free_def)
qed

definition published :: "outbox \<Rightarrow> string \<Rightarrow> outbox_payload option" where
  "published rows i = map_option ob_payload (find (\<lambda>r. ob_id r = i \<and> ob_kind r = OutcomeKind) rows)"

lemma find_replace:
  "find (\<lambda>r. ob_id r = i \<and> ob_kind r = OutcomeKind) (update_rows (\<lambda>r. ob_id r = j \<and> ob_kind r = OutcomeKind) (replace_outcome o') rows)
    = map_option (\<lambda>r. if i = j then replace_outcome o' r else r) (find (\<lambda>r. ob_id r = i \<and> ob_kind r = OutcomeKind) rows)"
  by (induction rows) (auto simp: replace_outcome_def)

lemma published_bucket:
  assumes "kind_free (os_id o') OutcomeKind rows"
  shows "published (publish_bucket o' now rows) i =
     (if i = os_id o' \<and> (os_evaluated o' \<noteq> 0 \<or> published rows i \<noteq> None) then Some (OutcomePayload o') else published rows i)"
proof (cases "os_evaluated o' = 0 \<or> has_id (os_id o') rows")
  case True
  have "has_id (os_id o') rows \<longleftrightarrow> published rows (os_id o') \<noteq> None"
    using assms by (auto simp: published_def find_None_iff has_id_def kind_free_def)
  with True show ?thesis
    by (cases "i = os_id o'")
      (auto simp: publish_bucket_def published_def find_replace replace_outcome_def option.map_ident split: option.splits)
next
  case False
  then have "find (\<lambda>r. ob_id r = os_id o' \<and> ob_kind r = OutcomeKind) rows = None" by (auto simp: has_id_def find_None_iff)
  with False show ?thesis
    by (auto simp: publish_bucket_def published_def find_append outcome_row_def split: option.splits)
qed

lemma publish_bucket_kinds:
  "kind_free i OutcomeKind rows \<Longrightarrow> kind_free i OutcomeKind (publish_bucket o' now rows)"
  by (auto simp: publish_bucket_def kind_free_def set_update_rows replace_outcome_def outcome_row_def)

text \<open>The published counts of an hour are the counts of the table.\<close>

definition current_bucket :: "usage_env \<Rightarrow> segment_store \<Rightarrow> string \<Rightarrow> string \<Rightarrow> string \<Rightarrow> ms \<Rightarrow> bool" where
  "current_bucket env s t m e h \<longleftrightarrow>
     (let c = hourlyCounts t m e h (ss_segments s)
      in published (ss_outbox s) (outcome_id env t m e h) = Some (OutcomePayload (segmentOutcomeSummary env t m e h (fst c) (snd c)))
         \<or> (published (ss_outbox s) (outcome_id env t m e h) = None \<and> fst c = 0))"

definition ids_free :: "usage_env \<Rightarrow> outbox \<Rightarrow> bool" where
  "ids_free env rows \<longleftrightarrow> (\<forall>t m e h. kind_free (outcome_id env t m e h) OutcomeKind rows)"

definition segment_ok :: "segment \<Rightarrow> bool" where
  "segment_ok r \<longleftrightarrow> colon_free (sg_tenant r) \<and> colon_free (sg_member r) \<and> list_all colon_free (sg_employees r) \<and> 0 \<le> sg_created r"

definition segments_inv :: "usage_env \<Rightarrow> segment_store \<Rightarrow> bool" where
  "segments_inv env s \<longleftrightarrow> distinct (map segment_key (ss_segments s)) \<and> list_all segment_ok (ss_segments s)
     \<and> ids_free env (ss_outbox s)
     \<and> (\<forall>t m e h. colon_free t \<and> colon_free m \<and> colon_free e \<and> hour_of h = h \<longrightarrow> current_bucket env s t m e h)"

lemma publish_fold:
  assumes "ids_free env rows"
    and "\<And>e h. (e, h) \<in> set bs \<Longrightarrow> colon_free e \<and> hour_of h = h"
    and ids: "id_env env" "colon_free t" "colon_free m" "colon_free t'" "colon_free m'" "colon_free e'" "hour_of h' = h'"
    and summary: "\<And>e h. os_id (f e h) = outcome_id env t m e h"
  shows "ids_free env (fold (\<lambda>(e, h). publish_bucket (f e h) now) bs rows)
    \<and> published (fold (\<lambda>(e, h). publish_bucket (f e h) now) bs rows) (outcome_id env t' m' e' h') =
      (if t' = t \<and> m' = m \<and> (e', h') \<in> set bs
          \<and> (os_evaluated (f e' h') \<noteq> 0 \<or> published rows (outcome_id env t' m' e' h') \<noteq> None)
       then Some (OutcomePayload (f e' h')) else published rows (outcome_id env t' m' e' h'))"
  using assms(1,2)
proof (induction bs arbitrary: rows)
  case (Cons b bs)
  obtain e h where b: "b = (e, h)" by (cases b)
  let ?rows = "publish_bucket (f e h) now rows"
  have eh: "colon_free e" "hour_of h = h" using Cons.prems(2) b by auto
  have free: "ids_free env ?rows" using Cons.prems(1) publish_bucket_kinds by (auto simp: ids_free_def)
  have same: "outcome_id env t' m' e' h' = os_id (f e h) \<longleftrightarrow> t' = t \<and> m' = m \<and> e' = e \<and> h' = h"
    using outcome_id_inject [OF ids(1)] ids eh summary by auto
  have one: "published ?rows (outcome_id env t' m' e' h') =
      (if (t' = t \<and> m' = m \<and> e' = e \<and> h' = h) \<and> (os_evaluated (f e h) \<noteq> 0 \<or> published rows (outcome_id env t' m' e' h') \<noteq> None)
       then Some (OutcomePayload (f e h)) else published rows (outcome_id env t' m' e' h'))"
    using published_bucket [of "f e h" rows now] Cons.prems(1) summary same by (auto simp: ids_free_def)
  have ih: "ids_free env (fold (\<lambda>(e, h). publish_bucket (f e h) now) bs ?rows)
    \<and> published (fold (\<lambda>(e, h). publish_bucket (f e h) now) bs ?rows) (outcome_id env t' m' e' h') =
      (if t' = t \<and> m' = m \<and> (e', h') \<in> set bs
          \<and> (os_evaluated (f e' h') \<noteq> 0 \<or> published ?rows (outcome_id env t' m' e' h') \<noteq> None)
       then Some (OutcomePayload (f e' h')) else published ?rows (outcome_id env t' m' e' h'))"
    using free Cons.prems(2) by (intro Cons.IH) auto
  show ?case
  proof (cases "t' = t \<and> m' = m \<and> e' = e \<and> h' = h")
    case True
    define x where "x = published rows (outcome_id env t m e h)"
    have "published ?rows (outcome_id env t m e h) = (if os_evaluated (f e h) \<noteq> 0 \<or> x \<noteq> None then Some (OutcomePayload (f e h)) else x)"
      using one True by (simp add: x_def)
    with ih True show ?thesis
      unfolding b by (cases "os_evaluated (f e h) \<noteq> 0 \<or> x \<noteq> None") (auto simp: x_def [symmetric])
  next
    case False
    then have "published ?rows (outcome_id env t' m' e' h') = published rows (outcome_id env t' m' e' h')"
      by (intro trans [OF one]) auto
    with ih False show ?thesis unfolding b by auto
  qed
qed simp

lemma hour_start_of: "0 \<le> t \<Longrightarrow> hour_start t = hour_of t"
  by (simp add: hour_start_def hour_of_def)

lemma hour_of_hour [simp]: "hour_of (hour_of t) = hour_of t"
  by (simp add: hour_of_def HOUR_MS_def mod_diff_left_eq [symmetric] minus_mod_eq_div_mult)

lemma hour_of_window: "hour_of h = h \<Longrightarrow> h \<le> t \<Longrightarrow> t < h + HOUR_MS \<Longrightarrow> hour_of t = h"
proof -
  assume h: "hour_of h = h" "h \<le> t" "t < h + HOUR_MS"
  then have "h mod HOUR_MS = 0" by (simp add: hour_of_def)
  then have "t mod HOUR_MS = (t - h) mod HOUR_MS" by (metis diff_zero mod_diff_right_eq)
  also have "\<dots> = t - h" using h by (simp add: HOUR_MS_def)
  finally show ?thesis by (simp add: hour_of_def)
qed

text \<open>A counted segment is in the bucket that its change publishes.\<close>

lemma counted_bucket:
  assumes "counted t m e h r" "hour_of h = h" "segment_ok r"
  shows "hour_start (sg_created r) = h \<and> e \<in> set (sg_employees r) \<and> sg_tenant r = t \<and> sg_member r = m"
  using assms hour_of_window [of h "sg_created r"] by (simp add: counted_def segment_ok_def hour_start_of)

lemma publish_inv_step:
  assumes inv: "segments_inv env s" and env: "id_env env"
    and owner: "colon_free t" "colon_free m"
    and segs: "\<And>es c. (es, c) \<in> set segments \<Longrightarrow> list_all colon_free es \<and> 0 \<le> c"
    and new: "distinct (map segment_key rows)" "list_all segment_ok rows"
    and keep: "\<And>t' m' e h. hour_of h = h \<Longrightarrow> hourlyCounts t' m' e h rows \<noteq> hourlyCounts t' m' e h (ss_segments s) \<Longrightarrow>
       t' = t \<and> m' = m \<and> (\<exists>es c. (es, c) \<in> set segments \<and> e \<in> set es \<and> hour_start c = h)"
  shows "segments_inv env (segment_notify env t m segments now (s\<lparr>ss_segments := rows\<rparr>))"
proof -
  let ?f = "\<lambda>e h. segmentOutcomeSummary env t m e h (fst (hourlyCounts t m e h rows)) (snd (hourlyCounts t m e h rows))"
  let ?bs = "if segments = [] then [] else segment_buckets segments"
  let ?ob = "fold (\<lambda>(e, h). publish_bucket (?f e h) now) ?bs (ss_outbox s)"
  have s': "segment_notify env t m segments now (s\<lparr>ss_segments := rows\<rparr>) = s\<lparr>ss_segments := rows, ss_outbox := ?ob\<rparr>"
    by (simp add: segment_notify_def publishSegmentOutcomes_def Let_def)
  have bs: "(e, h) \<in> set ?bs \<longleftrightarrow> (\<exists>es c. (es, c) \<in> set segments \<and> e \<in> set es \<and> hour_start c = h)" for e h
    by (auto simp: set_segment_buckets)
  have ok: "colon_free e \<and> hour_of h = h" if "(e, h) \<in> set ?bs" for e h
  proof -
    from that bs obtain es c where c: "(es, c) \<in> set segments" "e \<in> set es" "hour_start c = h" by blast
    with segs [OF c(1)] show ?thesis by (auto simp: list_all_iff hour_start_of)
  qed
  have free: "ids_free env (ss_outbox s)" using inv by (simp add: segments_inv_def)
  note pf = publish_fold [where f = ?f and bs = ?bs and now = now, OF free ok env owner _ _ _ _ outcome_id_summary]
  have "current_bucket env (s\<lparr>ss_segments := rows, ss_outbox := ?ob\<rparr>) t' m' e h"
    if "colon_free t'" "colon_free m'" "colon_free e" "hour_of h = h" for t' m' e h
  proof -
    have old: "current_bucket env s t' m' e h" using inv that by (simp add: segments_inv_def)
    have p: "published ?ob (outcome_id env t' m' e h) =
      (if t' = t \<and> m' = m \<and> (e, h) \<in> set ?bs \<and> (os_evaluated (?f e h) \<noteq> 0 \<or> published (ss_outbox s) (outcome_id env t' m' e h) \<noteq> None)
       then Some (OutcomePayload (?f e h)) else published (ss_outbox s) (outcome_id env t' m' e h))"
      using pf [OF _ that] by blast
    have ev: "os_evaluated (?f e h) = fst (hourlyCounts t m e h rows)" by (simp add: segmentOutcomeSummary_def Let_def)
    show ?thesis
    proof (cases "t' = t \<and> m' = m \<and> (e, h) \<in> set ?bs")
      case True
      with p ev show ?thesis by (auto simp: current_bucket_def Let_def split: if_splits)
    next
      case False
      then have "hourlyCounts t' m' e h rows = hourlyCounts t' m' e h (ss_segments s)" using keep [OF that(4)] bs by blast
      with False p old show ?thesis by (auto simp: current_bucket_def Let_def)
    qed
  qed
  moreover have "ids_free env ?ob"
    using pf [of "[]" "[]" "[]" 0] by (simp add: colon_free_def hour_of_def)
  ultimately show ?thesis using new unfolding s' by (simp add: segments_inv_def)
qed

section \<open>Histories\<close>

lemma changed_update: "(\<And>r. r \<in> set rows \<Longrightarrow> p r \<Longrightarrow> P (f r) = P r) \<Longrightarrow> changed P (update_rows p f rows) = changed P rows"
  by (induction rows) auto

lemma changed_delete: "(\<And>r. r \<in> set rows \<Longrightarrow> p r \<Longrightarrow> \<not> P r) \<Longrightarrow> changed P (delete_rows p rows) = changed P rows"
  by (induction rows) auto

lemma changed_snoc: "changed P (rows @ [r]) = changed P rows + (if P r then 1 else 0)"
  by (simp add: changed_def)

inductive segment_step :: "usage_env \<Rightarrow> segment_store \<Rightarrow> segment_store \<Rightarrow> bool" for env where
  step_segment_record: "segment_ok (new_segment t m q) \<Longrightarrow> segment_step env s (snd (segment_record env t m q now s))"
| step_segment_evaluate: "segment_step env s (snd (segment_evaluate env t m c i e revision now s))"
| step_segment_delete: "colon_free t \<Longrightarrow> colon_free m \<Longrightarrow> segment_step env s (segment_deleteConversation env t m c now s)"
| step_outbox_other: "published rows = published (ss_outbox s) \<Longrightarrow> ids_free env rows \<Longrightarrow>
     segment_step env s (s\<lparr>ss_outbox := rows\<rparr>)"

definition segments_init :: "segment_store \<Rightarrow> bool" where
  "segments_init s \<longleftrightarrow> ss_segments s = [] \<and> ss_outbox s = []"

lemma notify_Nil [simp]: "segment_notify env t m [] now s = s"
  by (simp add: segment_notify_def)

lemma record_segment_inv:
  assumes inv: "segments_inv env s" and env: "id_env env" and ok: "segment_ok (new_segment t m q)"
  shows "segments_inv env (snd (segment_record env t m q now s))"
proof (cases "find_segment t m (si_conversation q) (si_segment q) (ss_segments s) = None")
  case True
  let ?r = "new_segment t m q" and ?rows = "ss_segments s @ [new_segment t m q]"
  let ?segs = "if sg_outcome ?r \<noteq> None then [(si_employees q, si_ended q)] else []"
  have f: "sg_tenant ?r = t" "sg_member ?r = m" "sg_employees ?r = si_employees q" "sg_created ?r = si_ended q"
    "segment_key ?r = (t, m, si_conversation q, si_segment q)"
    by (simp_all add: new_segment_def segment_key_def Let_def)
  have owner: "colon_free t" "colon_free m" "list_all colon_free (si_employees q)" "0 \<le> si_ended q"
    using ok f by (simp_all add: segment_ok_def)
  have "segment_key ?r \<notin> segment_key ` set (ss_segments s)" using True f(5) by (auto simp: find_segment_def find_None_iff)
  then have d: "distinct (map segment_key ?rows)" "list_all segment_ok ?rows" using inv ok by (simp_all add: segments_inv_def)
  have keep: "t' = t \<and> m' = m \<and> (\<exists>es c. (es, c) \<in> set ?segs \<and> e \<in> set es \<and> hour_start c = h)"
    if "hour_of h = h" "hourlyCounts t' m' e h ?rows \<noteq> hourlyCounts t' m' e h (ss_segments s)" for t' m' e h
  proof -
    have c: "counted t' m' e h ?r" using that(2) by (auto simp: hourlyCounts_def changed_snoc split: if_splits)
    with counted_bucket [OF c that(1) ok] f show ?thesis by (auto simp: counted_def)
  qed
  have "segments_inv env (segment_notify env t m ?segs now (s\<lparr>ss_segments := ?rows\<rparr>))"
    using owner by (intro publish_inv_step [OF inv env owner(1,2) _ d keep]) (auto split: if_splits)
  then show ?thesis using True by (auto simp: segment_record_def Let_def split: if_splits)
next
  case False
  then show ?thesis using inv by (simp add: segment_record_def Let_def)
qed

lemma set_verdict_fields [simp]:
  "segment_key (set_verdict e now r) = segment_key r" "sg_employees (set_verdict e now r) = sg_employees r"
  "sg_created (set_verdict e now r) = sg_created r" "sg_outcome (set_verdict e now r) = ev_outcome e"
  "segment_ok (set_verdict e now r) = segment_ok r" "sg_revision (set_verdict e now r) = sg_revision r + 1"
  "sg_tenant (set_verdict e now r) = sg_tenant r" "sg_member (set_verdict e now r) = sg_member r"
  by (simp_all add: set_verdict_def segment_key_def segment_ok_def Let_def)

interpretation verdicts: row_update segment_key "set_verdict e now" for e now
  by unfold_locales simp

lemma find_segment_Some:
  assumes "find_segment t m c i rows = Some r"
  shows "r \<in> set rows \<and> segment_key r = (t, m, c, i)"
  using find_Some_in [OF assms [unfolded find_segment_def]] .

lemma key_unique: "distinct (map segment_key rows) \<Longrightarrow> r \<in> set rows \<Longrightarrow> q \<in> set rows \<Longrightarrow> segment_key q = segment_key r \<Longrightarrow> q = r"
  by (auto simp: distinct_map dest: inj_onD)

lemma evaluate_segment_inv:
  assumes inv: "segments_inv env s" and env: "id_env env"
  shows "segments_inv env (snd (segment_evaluate env t m c i e revision now s))"
proof (cases "find_segment t m c i (ss_segments s)")
  case None
  then show ?thesis using inv by (simp add: segment_evaluate_def)
next
  case (Some r)
  let ?p = "\<lambda>r. segment_key r = (t, m, c, i) \<and> sg_revision r = revision"
  let ?rows = "update_rows ?p (set_verdict e now) (ss_segments s)"
  let ?segs = "if sg_outcome r \<noteq> ev_outcome e then [(sg_employees r, sg_created r)] else []"
  note r = find_segment_Some [OF Some]
  have ok: "segment_ok r" "distinct (map segment_key (ss_segments s))" using inv r by (auto simp: segments_inv_def list_all_iff)
  have only: "q = r" if "q \<in> set (ss_segments s)" "?p q" for q using key_unique [OF ok(2)] r that by auto
  have owner: "colon_free t" "colon_free m" "sg_tenant r = t" "sg_member r = m" using r ok by (auto simp: segment_key_def segment_ok_def)
  have d: "distinct (map segment_key ?rows)" "list_all segment_ok ?rows"
    using inv by (auto simp: segments_inv_def verdicts.keys_update list_all_iff set_update_rows)
  have keep: "t' = t \<and> m' = m \<and> (\<exists>es b. (es, b) \<in> set ?segs \<and> x \<in> set es \<and> hour_start b = h)"
    if h: "hour_of h = h" and ne: "hourlyCounts t' m' x h ?rows \<noteq> hourlyCounts t' m' x h (ss_segments s)" for t' m' x h
  proof -
    have "sg_outcome r \<noteq> ev_outcome e \<and> (counted t' m' x h r \<or> counted t' m' x h (set_verdict e now r))"
    proof (rule ccontr)
      assume no: "\<not> ?thesis"
      have same: "changed P ?rows = changed P (ss_segments s)" if "P (set_verdict e now r) = P r" for P
      proof (rule changed_update)
        show "P (set_verdict e now q) = P q" if "q \<in> set (ss_segments s)" "?p q" for q
          using only [OF that] \<open>P (set_verdict e now r) = P r\<close> by simp
      qed
      have "counted t' m' x h (set_verdict e now r) = counted t' m' x h r"
      proof (cases "sg_outcome r = ev_outcome e")
        case True
        then show ?thesis by (simp add: counted_def)
      next
        case False
        with no show ?thesis by blast
      qed
      moreover have "(counted t' m' x h r \<and> ev_outcome e = Some Resolved) = (counted t' m' x h r \<and> sg_outcome r = Some Resolved)"
        using no by auto
      ultimately have "hourlyCounts t' m' x h ?rows = hourlyCounts t' m' x h (ss_segments s)"
        unfolding hourlyCounts_def by (intro arg_cong2 [of _ _ _ _ Pair] same) simp_all
      with ne show False by simp
    qed
    moreover from this have "hour_start (sg_created r) = h \<and> x \<in> set (sg_employees r) \<and> t' = t \<and> m' = m"
      using counted_bucket [OF _ h, of t' m' x r] counted_bucket [OF _ h, of t' m' x "set_verdict e now r"] ok(1) owner(3,4) by auto
    ultimately show ?thesis by auto
  qed
  have "segments_inv env (segment_notify env t m ?segs now (s\<lparr>ss_segments := ?rows\<rparr>))"
    using ok(1) by (intro publish_inv_step [OF inv env owner(1,2) _ d keep]) (auto simp: segment_ok_def split: if_splits)
  then show ?thesis using inv Some by (auto simp: segment_evaluate_def Let_def split: if_splits)
qed

lemma delete_segment_inv:
  assumes inv: "segments_inv env s" and env: "id_env env" and owner: "colon_free t" "colon_free m"
  shows "segments_inv env (segment_deleteConversation env t m c now s)"
proof -
  let ?p = "in_conversation t m c" and ?rows = "delete_rows (in_conversation t m c) (ss_segments s)"
  let ?gone = "filter (\<lambda>r. ?p r \<and> sg_outcome r \<noteq> None) (ss_segments s)"
  let ?segs = "map (\<lambda>r. (sg_employees r, sg_created r)) ?gone"
  have all: "\<And>r. r \<in> set (ss_segments s) \<Longrightarrow> segment_ok r" using inv by (simp add: segments_inv_def list_all_iff)
  have d: "distinct (map segment_key ?rows)" "list_all segment_ok ?rows"
    using inv by (auto simp: segments_inv_def distinct_key_delete list_all_iff)
  have keep: "t' = t \<and> m' = m \<and> (\<exists>es b. (es, b) \<in> set ?segs \<and> x \<in> set es \<and> hour_start b = h)"
    if h: "hour_of h = h" and ne: "hourlyCounts t' m' x h ?rows \<noteq> hourlyCounts t' m' x h (ss_segments s)" for t' m' x h
  proof -
    have "\<exists>r \<in> set (ss_segments s). ?p r \<and> counted t' m' x h r"
    proof (rule ccontr)
      assume no: "\<not> ?thesis"
      have "hourlyCounts t' m' x h ?rows = hourlyCounts t' m' x h (ss_segments s)"
        unfolding hourlyCounts_def using no by (auto intro!: changed_delete)
      with ne show False by simp
    qed
    then obtain r where r: "r \<in> set (ss_segments s)" "?p r" "counted t' m' x h r" by blast
    from counted_bucket [OF r(3) h all [OF r(1)]] r show ?thesis
      by (auto simp: in_conversation_def counted_def image_iff)
  qed
  have "segments_inv env (segment_notify env t m ?segs now (s\<lparr>ss_segments := ?rows\<rparr>))"
    using all by (intro publish_inv_step [OF inv env owner _ d keep]) (auto simp: segment_ok_def)
  then show ?thesis by (simp add: segment_deleteConversation_def Let_def)
qed

lemma segment_step_inv: "segment_step env s s' \<Longrightarrow> id_env env \<Longrightarrow> segments_inv env s \<Longrightarrow> segments_inv env s'"
proof (induction rule: segment_step.induct)
  case (step_outbox_other rows s)
  then show ?case by (simp add: segments_inv_def current_bucket_def)
qed (simp_all add: record_segment_inv evaluate_segment_inv delete_segment_inv)

lemma segments_init_inv: "segments_init s \<Longrightarrow> segments_inv env s"
  by (simp add: segments_init_def segments_inv_def ids_free_def kind_free_def current_bucket_def published_def hourlyCounts_def)

definition segments_sound :: "usage_env \<Rightarrow> segment_store \<Rightarrow> bool" where
  "segments_sound env s \<longleftrightarrow> (id_env env \<longrightarrow> segments_inv env s)"

interpretation segments: invariant_system segments_init "segment_step env" "segments_sound env" for env
proof unfold_locales
  show "segments_init s \<Longrightarrow> segments_sound env s" for s by (simp add: segments_sound_def segments_init_inv)
  show "segments_sound env s \<Longrightarrow> segment_step env s t \<Longrightarrow> segments_sound env t" for s t
    by (simp add: segments_sound_def segment_step_inv)
qed

text \<open>The other statements on the outbox leave the published counts alone.\<close>

lemma published_move:
  assumes "claim_move act"
  shows "published (update_rows p act rows) = published rows"
proof
  fix i
  have "ob_id (act r) = ob_id r" "ob_kind (act r) = ob_kind r" "ob_payload (act r) = ob_payload r" for r
    using assms by (simp_all add: claim_move_def claim_move_axioms_def row_update_def)
  then show "published (update_rows p act rows) i = published rows i"
    by (induction rows) (auto simp: published_def)
qed

section \<open>Properties\<close>


text \<open>A verdict is edited under its revision and in its window.  A change succeeds only for the revision the caller
  saw and within seven days of the reset; it raises the revision, so a second edit made against the same
  revision is refused and changes nothing.\<close>

theorem verdict_edit_guarded:
  assumes "distinct (map segment_key (ss_segments s))"
    and "segment_evaluate env t m c i e revision now s = (Inr v, s')"
  shows "\<exists>r r'. find_segment t m c i (ss_segments s) = Some r \<and> sg_revision r = revision
     \<and> now \<le> sg_created r + SEGMENT_EDIT_WINDOW_MS
     \<and> find_segment t m c i (ss_segments s') = Some r' \<and> sg_outcome r' = ev_outcome e \<and> sg_revision r' = revision + 1
     \<and> (\<forall>e' now'. segment_evaluate env t m c i e' revision now' s' = (Inl RevisionConflict, s'))"
proof -
  let ?p = "\<lambda>r. segment_key r = (t, m, c, i) \<and> sg_revision r = revision"
  from assms(2) obtain r where r: "find_segment t m c i (ss_segments s) = Some r" "sg_revision r = revision"
    "now \<le> sg_created r + SEGMENT_EDIT_WINDOW_MS"
    by (auto simp: segment_evaluate_def split: option.splits if_splits)
  with assms(2) have rows: "ss_segments s' = update_rows ?p (set_verdict e now) (ss_segments s)"
    by (auto simp: segment_evaluate_def segment_notify_def publishSegmentOutcomes_def Let_def split: if_splits)
  have "find_segment t m c i (ss_segments s') = Some (set_verdict e now r)"
    using r find_segment_Some [OF r(1)] by (simp add: rows find_segment_def verdicts.find_update)
  with r show ?thesis by (auto simp: segment_evaluate_def)
qed

definition demo_usage_env :: usage_env where
  "demo_usage_env = \<lparr> ue_sha256 = (\<lambda>s. s), ue_iso = int_text \<rparr>"

definition demo_reset :: segment_input where
  "demo_reset = \<lparr> si_conversation = ''c'', si_segment = ''s1'', si_employees = [''e''], si_messages = 4, si_ended = 3600500,
     si_evaluation = Some \<lparr> ev_outcome = Some Resolved, ev_reasons = [], ev_note = None, ev_followUp = False \<rparr> \<rparr>"

definition demo_segments_store :: segment_store where
  "demo_segments_store = snd (segment_record demo_usage_env ''t'' ''m'' demo_reset 3600500 \<lparr> ss_segments = [], ss_outbox = [] \<rparr>)"

lemma demo_segments_rows: "ss_segments demo_segments_store = [new_segment ''t'' ''m'' demo_reset]"
  by (simp add: demo_segments_store_def segment_record_def find_segment_def segment_notify_def publishSegmentOutcomes_def Let_def)


theorem verdict_edit_guarded_witness:
  "\<exists>v s'. segment_evaluate demo_usage_env ''t'' ''m'' ''c'' ''s1''
       \<lparr> ev_outcome = None, ev_reasons = [], ev_note = None, ev_followUp = False \<rparr> 1 4000000 demo_segments_store = (Inr v, s')
     \<and> segment_evaluate demo_usage_env ''t'' ''m'' ''c'' ''s1''
       \<lparr> ev_outcome = Some Unresolved, ev_reasons = [], ev_note = None, ev_followUp = False \<rparr> 1 4000001 s' = (Inl RevisionConflict, s')"
proof -
  have d: "distinct (map segment_key (ss_segments demo_segments_store))" by (simp add: demo_segments_rows)
  obtain v s' where v: "segment_evaluate demo_usage_env ''t'' ''m'' ''c'' ''s1''
       \<lparr> ev_outcome = None, ev_reasons = [], ev_note = None, ev_followUp = False \<rparr> 1 4000000 demo_segments_store = (Inr v, s')"
    by (simp add: segment_evaluate_def demo_segments_rows find_segment_def segment_key_def new_segment_def demo_reset_def
        SEGMENT_EDIT_WINDOW_MS_def Let_def)
  from verdict_edit_guarded [OF d v] v show ?thesis by blast
qed

end
