(* ===== verification/Work_Records.thy ===== *)
theory Work_Records
  imports Usage_Outbox Conversation_Store
begin

text \<open>
  The work records of \<open>storage/work-records.ts\<close>: one observation per execution, live or imported from
  the session history, and the change feed clients poll.  \<open>AUTOINCREMENT\<close> keys are counters that are
  never reused; \<open>uuid\<close> is the value of \<open>randomUUID()\<close>; the conversation table is read through
  \<open>getOwnedConversation\<close>.
\<close>

datatype work_outcome = WActive | WSucceeded | WError | WAborted | WUnknown

datatype provenance = Live | PiHistory

record work_record =
  wk_seq :: nat
  wk_id :: string
  wk_tenant :: string
  wk_member :: string
  wk_employee :: string
  wk_conversation :: string
  wk_provenance :: provenance
  wk_outcome :: work_outcome
  wk_reason :: "string option"
  wk_occurred :: "ms option"
  wk_started :: "ms option"
  wk_ended :: "ms option"
  wk_updated :: ms
  wk_startOrdinal :: int
  wk_endOrdinal :: "int option"
  wk_firstEntry :: "string option"
  wk_lastEntry :: "string option"
  wk_firstAt :: "ms option"
  wk_lastAt :: "ms option"
  wk_usage :: "work_usage option"
  wk_receipt :: "string option"

record work_change =
  wc_seq :: nat
  wc_record :: string
  wc_tenant :: string
  wc_member :: string
  wc_employee :: string
  wc_deleted :: bool

record work_repo =
  wr_records :: "work_record list"
  wr_changes :: "work_change list"
  wr_recordSeq :: nat
  wr_changeSeq :: nat
  wr_outbox :: outbox

datatype work_error = NotOwned | UsageOwnerMismatch

section \<open>Change feed\<close>

text \<open>\<open>change\<close>: the record's row of the feed moves to the end.\<close>

definition record_change :: "work_record \<Rightarrow> bool \<Rightarrow> work_repo \<Rightarrow> work_repo" where
  "record_change row deleted s =
     (let seq = wr_changeSeq s + 1
      in s\<lparr>wr_changeSeq := seq,
           wr_changes := (if \<exists>c \<in> set (wr_changes s). wc_record c = wk_id row
             then update_rows (\<lambda>c. wc_record c = wk_id row) (\<lambda>c. c\<lparr>wc_seq := seq, wc_deleted := deleted\<rparr>) (wr_changes s)
             else wr_changes s @ [\<lparr> wc_seq = seq, wc_record = wk_id row, wc_tenant = wk_tenant row, wc_member = wk_member row,
                                   wc_employee = wk_employee row, wc_deleted = deleted \<rparr>])\<rparr>)"

definition work_get :: "string \<Rightarrow> string \<Rightarrow> string \<Rightarrow> work_repo \<Rightarrow> work_record option" where
  "work_get i tenant member s = find (\<lambda>r. wk_id r = i \<and> wk_tenant r = tenant \<and> wk_member r = member) (wr_records s)"

definition of_conversation :: "string \<Rightarrow> string \<Rightarrow> string \<Rightarrow> work_record \<Rightarrow> bool" where
  "of_conversation conversation tenant member r \<longleftrightarrow>
     wk_conversation r = conversation \<and> wk_tenant r = tenant \<and> wk_member r = member"

definition work_forConversation :: "string \<Rightarrow> string \<Rightarrow> string \<Rightarrow> work_repo \<Rightarrow> work_record list" where
  "work_forConversation conversation tenant member s = filter (of_conversation conversation tenant member) (wr_records s)"

record work_filter =
  wf_tenant :: string
  wf_member :: string
  wf_employee :: "string option"
  wf_start :: "ms option"
  wf_end :: "ms option"

definition in_filter :: "work_filter \<Rightarrow> string \<Rightarrow> string \<Rightarrow> string \<Rightarrow> bool" where
  "in_filter f tenant member employee \<longleftrightarrow>
     tenant = wf_tenant f \<and> member = wf_member f \<and> opt_eq (wf_employee f) employee"

text \<open>Newest first; a record without a time sorts last.  An open end compares with \<open>NULL\<close> and selects nothing.\<close>

definition occurred_key :: "work_record \<Rightarrow> int \<times> nat" where
  "occurred_key r = (nullish (wk_occurred r) (- 8640000000000000), wk_seq r)"

definition key_less :: "int \<times> nat \<Rightarrow> int \<times> nat \<Rightarrow> bool" where
  "key_less a b \<longleftrightarrow> fst a < fst b \<or> (fst a = fst b \<and> snd a < snd b)"

definition work_history :: "work_filter \<Rightarrow> nat \<Rightarrow> (int \<times> nat) option \<Rightarrow> work_repo \<Rightarrow> work_record list" where
  "work_history f limit boundary s =
     take limit (sort_by (\<lambda>a b. \<not> key_less (occurred_key a) (occurred_key b))
       (filter (\<lambda>r. in_filter f (wk_tenant r) (wk_member r) (wk_employee r)
          \<and> (case wf_start f of None \<Rightarrow> True
             | Some a \<Rightarrow> (case (wk_occurred r, wf_end f) of (Some t, Some b) \<Rightarrow> a \<le> t \<and> t < b | _ \<Rightarrow> False))
          \<and> (case boundary of None \<Rightarrow> True | Some k \<Rightarrow> key_less (occurred_key r) k)) (wr_records s)))"

definition work_changes :: "work_filter \<Rightarrow> nat \<Rightarrow> nat \<Rightarrow> work_repo \<Rightarrow> work_change list" where
  "work_changes f after limit s =
     take limit (sort_by (\<lambda>a b. wc_seq a \<le> wc_seq b)
       (filter (\<lambda>c. in_filter f (wc_tenant c) (wc_member c) (wc_employee c) \<and> wc_seq c > after) (wr_changes s)))"

definition watermark :: "work_filter option \<Rightarrow> work_repo \<Rightarrow> nat" where
  "watermark f s =
     foldl max 0 (map wc_seq (filter (\<lambda>c. case f of None \<Rightarrow> True
        | Some f \<Rightarrow> in_filter f (wc_tenant c) (wc_member c) (wc_employee c)) (wr_changes s)))"

section \<open>Executions\<close>

record work_start =
  wa_tenant :: string
  wa_member :: string
  wa_receipt :: "string option"
  wa_conversation :: string
  wa_employee :: string
  wa_startedAt :: ms
  wa_startOrdinal :: int

definition owned_work :: "store \<Rightarrow> string \<Rightarrow> string \<Rightarrow> string \<Rightarrow> bool" where
  "owned_work st conversation tenant member \<longleftrightarrow> getOwnedConversation conversation tenant member st \<noteq> None"

definition started_record :: "work_start \<Rightarrow> string \<Rightarrow> nat \<Rightarrow> work_record" where
  "started_record q uuid seq =
     \<lparr> wk_seq = seq, wk_id = uuid, wk_tenant = wa_tenant q, wk_member = wa_member q, wk_employee = wa_employee q,
       wk_conversation = wa_conversation q, wk_provenance = Live, wk_outcome = WActive, wk_reason = None,
       wk_occurred = Some (wa_startedAt q), wk_started = Some (wa_startedAt q), wk_ended = None, wk_updated = wa_startedAt q,
       wk_startOrdinal = wa_startOrdinal q, wk_endOrdinal = None, wk_firstEntry = None, wk_lastEntry = None,
       wk_firstAt = None, wk_lastAt = None, wk_usage = None,
       wk_receipt = (case wa_receipt q of Some k \<Rightarrow> if k = [] then None else Some k | None \<Rightarrow> None) \<rparr>"

definition insert_record :: "work_record \<Rightarrow> work_repo \<Rightarrow> work_repo" where
  "insert_record r s =
     record_change r False (s\<lparr>wr_records := wr_records s @ [r\<lparr>wk_seq := wr_recordSeq s + 1\<rparr>], wr_recordSeq := wr_recordSeq s + 1\<rparr>)"

definition work_start_op :: "store \<Rightarrow> work_start \<Rightarrow> string \<Rightarrow> work_repo \<Rightarrow> (work_error + string) \<times> work_repo" where
  "work_start_op st q uuid s =
     (if \<not> owned_work st (wa_conversation q) (wa_tenant q) (wa_member q) then (Inl NotOwned, s)
      else (Inr uuid, insert_record (started_record q uuid 0) s))"

record work_finish =
  wi_outcome :: work_outcome
  wi_endedAt :: ms
  wi_endOrdinal :: int
  wi_firstEntry :: "string option"
  wi_lastEntry :: "string option"
  wi_firstAt :: "ms option"
  wi_lastAt :: "ms option"
  wi_usage :: "work_usage option"

definition finished :: "work_finish \<Rightarrow> work_record \<Rightarrow> work_record" where
  "finished q r =
     r\<lparr>wk_outcome := wi_outcome q, wk_ended := Some (wi_endedAt q), wk_updated := wi_endedAt q, wk_endOrdinal := Some (wi_endOrdinal q),
       wk_firstEntry := wi_firstEntry q, wk_lastEntry := wi_lastEntry q, wk_firstAt := wi_firstAt q, wk_lastAt := wi_lastAt q,
       wk_usage := wi_usage q\<rparr>"

definition work_finish_op ::
  "outbox_env \<Rightarrow> string \<Rightarrow> string \<Rightarrow> string \<Rightarrow> work_finish \<Rightarrow> usage_summary option \<Rightarrow> ms \<Rightarrow> work_repo \<Rightarrow> (work_error + bool) \<times> work_repo" where
  "work_finish_op env i tenant member q summary now s =
     (case work_get i tenant member s of
        None \<Rightarrow> (Inr False, s)
      | Some row \<Rightarrow>
          if wk_outcome row \<noteq> WActive then (Inr False, s)
          else if (case summary of None \<Rightarrow> False
                   | Some u \<Rightarrow> um_tenant u \<noteq> wk_tenant row \<or> um_member u \<noteq> wk_member row \<or> um_employee u \<noteq> wk_employee row)
          then (Inl UsageOwnerMismatch, s)
          else (let s1 = s\<lparr>wr_records := update_rows (\<lambda>r. wk_id r = i) (finished q) (wr_records s)\<rparr>;
                    s2 = (case summary of None \<Rightarrow> s1
                          | Some u \<Rightarrow> s1\<lparr>wr_outbox := upsertUsageSummary env u
                              (case wi_usage q of None \<Rightarrow> None | Some w \<Rightarrow> wu_cost w) now (wr_outbox s1)\<rparr>)
                in (Inr True, record_change row False s2)))"

text \<open>The sweep of the constructor.\<close>

definition lost_record :: "ms \<Rightarrow> work_record \<Rightarrow> work_record" where
  "lost_record now r = r\<lparr>wk_outcome := WUnknown, wk_reason := Some ''process_restart'', wk_ended := None, wk_updated := now\<rparr>"

definition work_restart :: "ms \<Rightarrow> work_repo \<Rightarrow> work_repo" where
  "work_restart now s =
     fold (\<lambda>row s. record_change row False
         (s\<lparr>wr_records := update_rows (\<lambda>r. wk_id r = wk_id row) (lost_record now) (wr_records s)\<rparr>))
       (filter (\<lambda>r. wk_outcome r = WActive) (wr_records s)) s"

definition work_deleteConversation :: "string \<Rightarrow> string \<Rightarrow> string \<Rightarrow> work_repo \<Rightarrow> work_repo" where
  "work_deleteConversation conversation tenant member s =
     (let s1 = fold (\<lambda>row. record_change row True) (work_forConversation conversation tenant member s) s
      in s1\<lparr>wr_records := delete_rows (of_conversation conversation tenant member) (wr_records s1)\<rparr>)"

section \<open>History import\<close>

record history_segment =
  hs_startOrdinal :: int
  hs_endOrdinal :: int
  hs_firstEntry :: string
  hs_lastEntry :: string
  hs_firstAt :: "ms option"
  hs_lastAt :: "ms option"
  hs_outcome :: work_outcome

text \<open>Ordinals with the infinities: \<open>None\<close> is positive infinity; nothing covered yet is the empty list of bounds.\<close>

fun next_start :: "int \<Rightarrow> int list \<Rightarrow> int option" where
  "next_start x [] = None"
| "next_start x (y # ys) = (if y = x then (case ys of [] \<Rightarrow> None | z # _ \<Rightarrow> Some z) else next_start x ys)"

definition live_end :: "int list \<Rightarrow> work_record \<Rightarrow> int option" where
  "live_end starts r = (case wk_endOrdinal r of Some e \<Rightarrow> Some e | None \<Rightarrow> next_start (wk_startOrdinal r) starts)"

text \<open>\<open>coveredUntil\<close>: \<open>None\<close> is minus infinity, \<open>Some None\<close> infinity.\<close>

fun max_bound :: "int option option \<Rightarrow> int option \<Rightarrow> int option option" where
  "max_bound None e = Some e"
| "max_bound (Some None) e = Some None"
| "max_bound (Some (Some c)) None = Some None"
| "max_bound (Some (Some c)) (Some e) = Some (Some (max c e))"

fun below_bound :: "int \<Rightarrow> int option option \<Rightarrow> bool" where
  "below_bound x None = False"
| "below_bound x (Some None) = True"
| "below_bound x (Some (Some c)) = (x < c)"

fun advance_live :: "int list \<Rightarrow> int \<Rightarrow> work_record list \<Rightarrow> int option option \<Rightarrow> work_record list \<times> int option option" where
  "advance_live starts x [] covered = ([], covered)"
| "advance_live starts x (r # live) covered =
     (if wk_startOrdinal r \<le> x then advance_live starts x live (max_bound covered (live_end starts r)) else (r # live, covered))"

fun pending_segments ::
  "int list \<Rightarrow> work_record list \<Rightarrow> int option option \<Rightarrow> string list \<Rightarrow> history_segment list \<Rightarrow> history_segment list" where
  "pending_segments starts live covered anchors [] = []"
| "pending_segments starts live covered anchors (g # gs) =
     (let step = advance_live starts (hs_startOrdinal g) live covered
      in if hs_firstEntry g \<in> set anchors \<or> below_bound (hs_startOrdinal g) (snd step)
         then pending_segments starts (fst step) (snd step) anchors gs
         else g # pending_segments starts (fst step) (snd step) (hs_firstEntry g # anchors) gs)"

definition participant_rows :: "string \<Rightarrow> string \<Rightarrow> string \<Rightarrow> string \<Rightarrow> work_repo \<Rightarrow> work_record list" where
  "participant_rows conversation tenant member employee s =
     sort_by (\<lambda>a b. wk_startOrdinal a \<le> wk_startOrdinal b)
       (filter (\<lambda>r. of_conversation conversation tenant member r \<and> wk_employee r = employee) (wr_records s))"

definition import_selection ::
  "string \<Rightarrow> string \<Rightarrow> string \<Rightarrow> string \<Rightarrow> history_segment list \<Rightarrow> work_repo \<Rightarrow> history_segment list" where
  "import_selection conversation tenant member employee segments s =
     (let rows = participant_rows conversation tenant member employee s;
          anchors = map (\<lambda>r. nullish (wk_firstEntry r) []) (filter (\<lambda>r. wk_provenance r = PiHistory \<and> wk_firstEntry r \<noteq> None) rows);
          live = filter (\<lambda>r. wk_provenance r = Live) rows
      in pending_segments (js_unique (map wk_startOrdinal live)) live None anchors
           (sort_by (\<lambda>a b. hs_startOrdinal a \<le> hs_startOrdinal b) segments))"

definition history_record ::
  "string \<Rightarrow> string \<Rightarrow> string \<Rightarrow> string \<Rightarrow> ms \<Rightarrow> history_segment \<Rightarrow> string \<Rightarrow> work_record" where
  "history_record conversation tenant member employee now g uuid =
     \<lparr> wk_seq = 0, wk_id = uuid, wk_tenant = tenant, wk_member = member, wk_employee = employee, wk_conversation = conversation,
       wk_provenance = PiHistory, wk_outcome = hs_outcome g, wk_reason = None, wk_occurred = hs_firstAt g, wk_started = None,
       wk_ended = None, wk_updated = now, wk_startOrdinal = hs_startOrdinal g, wk_endOrdinal = Some (hs_endOrdinal g),
       wk_firstEntry = Some (hs_firstEntry g), wk_lastEntry = Some (hs_lastEntry g), wk_firstAt = hs_firstAt g,
       wk_lastAt = hs_lastAt g, wk_usage = None, wk_receipt = None \<rparr>"

definition importHistory ::
  "store \<Rightarrow> string \<Rightarrow> string \<Rightarrow> string \<Rightarrow> string \<Rightarrow> history_segment list \<Rightarrow> string list \<Rightarrow> ms \<Rightarrow> work_repo
     \<Rightarrow> work_error option \<times> work_repo" where
  "importHistory st conversation tenant member employee segments uuids now s =
     (let pending = import_selection conversation tenant member employee segments s
      in if pending = [] then (None, s)
         else if \<not> owned_work st conversation tenant member then (Some NotOwned, s)
         else (None, fold insert_record
                 (map2 (history_record conversation tenant member employee now) pending uuids) s))"

section \<open>The import sweep\<close>

definition beyond :: "int \<Rightarrow> int option \<Rightarrow> bool" where
  "beyond x e = (case e of None \<Rightarrow> True | Some c \<Rightarrow> x < c)"

text \<open>The reference: a live record covers the ordinals from its start to its end, or to the next live start while open.\<close>

definition live_covers :: "int list \<Rightarrow> work_record \<Rightarrow> int \<Rightarrow> bool" where
  "live_covers starts r x \<longleftrightarrow> wk_startOrdinal r \<le> x \<and> beyond x (live_end starts r)"

fun unanchored :: "string list \<Rightarrow> history_segment list \<Rightarrow> history_segment list" where
  "unanchored anchors [] = []"
| "unanchored anchors (g # gs) =
     (if hs_firstEntry g \<in> set anchors then unanchored anchors gs else g # unanchored (hs_firstEntry g # anchors) gs)"

lemma below_max_bound: "below_bound x (max_bound c e) \<longleftrightarrow> below_bound x c \<or> beyond x e"
  by (cases "(c, e)" rule: max_bound.cases) (auto simp: beyond_def split: option.splits)

lemma advance_live_split:
  "advance_live starts x live covered =
     (dropWhile (\<lambda>r. wk_startOrdinal r \<le> x) live,
      foldl max_bound covered (map (live_end starts) (takeWhile (\<lambda>r. wk_startOrdinal r \<le> x) live)))"
  by (induction live arbitrary: covered) simp_all

lemma below_foldl: "below_bound x (foldl max_bound c es) \<longleftrightarrow> below_bound x c \<or> (\<exists>e \<in> set es. beyond x e)"
  by (induction es arbitrary: c) (auto simp: below_max_bound)

lemma pending_reference:
  assumes "sorted_wrt (\<lambda>a b. wk_startOrdinal a \<le> wk_startOrdinal b) live"
    and "sorted_wrt (\<lambda>a b. hs_startOrdinal a \<le> hs_startOrdinal b) gs"
  shows "pending_segments starts live covered anchors gs =
     unanchored anchors (filter (\<lambda>g. \<not> below_bound (hs_startOrdinal g) covered
       \<and> \<not> (\<exists>r \<in> set live. live_covers starts r (hs_startOrdinal g))) gs)"
  using assms
proof (induction gs arbitrary: live covered anchors)
  case (Cons g gs)
  let ?P = "\<lambda>r. wk_startOrdinal r \<le> hs_startOrdinal g"
  let ?live = "dropWhile ?P live" and ?used = "takeWhile ?P live"
  let ?cov = "foldl max_bound covered (map (live_end starts) ?used)"
  have sorted: "sorted_wrt (\<lambda>a b. wk_startOrdinal a \<le> wk_startOrdinal b) ?live"
    using Cons.prems(1) by (metis sorted_wrt_append takeWhile_dropWhile_id)
  have late: "hs_startOrdinal g < wk_startOrdinal r" if "r \<in> set ?live" for r
  proof (cases ?live)
    case (Cons q rest)
    then have "\<not> ?P q" by (metis hd_dropWhile list.distinct(1) list.sel(1))
    with sorted that Cons show ?thesis by auto
  next
    case Nil
    with that show ?thesis by (simp only: list.set empty_iff)
  qed
  have live: "set live = set ?used \<union> set ?live" by (metis set_append takeWhile_dropWhile_id)
  have cov: "below_bound x ?cov \<or> (\<exists>r \<in> set ?live. live_covers starts r x)
      \<longleftrightarrow> below_bound x covered \<or> (\<exists>r \<in> set live. live_covers starts r x)" if "hs_startOrdinal g \<le> x" for x
  proof -
    have "beyond x (live_end starts r) \<longleftrightarrow> live_covers starts r x" if "r \<in> set ?used" for r
      using set_takeWhileD [OF that] \<open>hs_startOrdinal g \<le> x\<close> by (auto simp: live_covers_def)
    then show ?thesis unfolding live below_foldl by auto
  qed
  have rest: "filter (\<lambda>g. \<not> below_bound (hs_startOrdinal g) ?cov \<and> \<not> (\<exists>r \<in> set ?live. live_covers starts r (hs_startOrdinal g))) gs
      = filter (\<lambda>g. \<not> below_bound (hs_startOrdinal g) covered \<and> \<not> (\<exists>r \<in> set live. live_covers starts r (hs_startOrdinal g))) gs"
    using Cons.prems(2) cov by (intro filter_cong) auto
  have now: "below_bound (hs_startOrdinal g) ?cov
      \<longleftrightarrow> below_bound (hs_startOrdinal g) covered \<or> (\<exists>r \<in> set live. live_covers starts r (hs_startOrdinal g))"
    using cov [of "hs_startOrdinal g"] late by (force simp: live_covers_def)
  have ih: "pending_segments starts ?live ?cov anchors' gs = unanchored anchors'
      (filter (\<lambda>g. \<not> below_bound (hs_startOrdinal g) covered \<and> \<not> (\<exists>r \<in> set live. live_covers starts r (hs_startOrdinal g))) gs)" for anchors'
    using Cons.IH [OF sorted, of ?cov anchors'] Cons.prems(2) rest by simp
  show ?case by (simp add: advance_live_split Let_def now ih)
qed simp

section \<open>Feed invariants\<close>

definition work_rec :: "string \<Rightarrow> work_repo \<Rightarrow> work_record option" where
  "work_rec i s = find (\<lambda>r. wk_id r = i) (wr_records s)"

definition feed_row :: "string \<Rightarrow> work_repo \<Rightarrow> work_change option" where
  "feed_row i s = find (\<lambda>c. wc_record c = i) (wr_changes s)"

definition same_owner :: "work_change \<Rightarrow> work_record \<Rightarrow> bool" where
  "same_owner c r \<longleftrightarrow> wc_tenant c = wk_tenant r \<and> wc_member c = wk_member r \<and> wc_employee c = wk_employee r"

text \<open>Every record has a feed row with its owner, not deleted; sequence numbers stay behind the counter.\<close>

definition feed_inv :: "work_repo \<Rightarrow> bool" where
  "feed_inv s \<longleftrightarrow> distinct (map wk_id (wr_records s)) \<and> distinct (map wc_record (wr_changes s))
     \<and> (\<forall>c \<in> set (wr_changes s). wc_seq c \<le> wr_changeSeq s)
     \<and> (\<forall>i c. feed_row i s = Some c \<longrightarrow> wc_deleted c = (work_rec i s = None))
     \<and> (\<forall>i r. work_rec i s = Some r \<longrightarrow> (\<exists>c. feed_row i s = Some c \<and> same_owner c r))"

definition fresh_id :: "string \<Rightarrow> work_repo \<Rightarrow> bool" where
  "fresh_id i s \<longleftrightarrow> work_rec i s = None \<and> feed_row i s = None"

lemma feed_row_change:
  "feed_row i (record_change row d s) =
     (if i = wk_id row
      then Some (case feed_row i s of
          Some c \<Rightarrow> c\<lparr>wc_seq := wr_changeSeq s + 1, wc_deleted := d\<rparr>
        | None \<Rightarrow> \<lparr> wc_seq = wr_changeSeq s + 1, wc_record = wk_id row, wc_tenant = wk_tenant row, wc_member = wk_member row,
                   wc_employee = wk_employee row, wc_deleted = d \<rparr>)
      else feed_row i s)"
proof -
  have f: "find (\<lambda>c. wc_record c = i) (update_rows (\<lambda>c. wc_record c = j) (\<lambda>c. c\<lparr>wc_seq := n, wc_deleted := d\<rparr>) cs)
      = map_option (\<lambda>c. if i = j then c\<lparr>wc_seq := n, wc_deleted := d\<rparr> else c) (find (\<lambda>c. wc_record c = i) cs)"
    for i j n and cs :: "work_change list" by (induction cs) auto
  show ?thesis
  proof (cases "\<exists>c \<in> set (wr_changes s). wc_record c = wk_id row")
    case True
    then obtain c where "feed_row (wk_id row) s = Some c"
      by (cases "feed_row (wk_id row) s") (auto simp: feed_row_def find_None_iff)
    with True show ?thesis
      by (cases "i = wk_id row") (auto simp: record_change_def Let_def feed_row_def f option.map_ident)
  next
    case False
    then have "feed_row (wk_id row) s = None" by (auto simp: feed_row_def find_None_iff)
    with False show ?thesis
      by (cases "i = wk_id row") (auto simp: record_change_def Let_def feed_row_def find_append split: option.splits)
  qed
qed

lemma record_change_records [simp]:
  "wr_records (record_change row d s) = wr_records s" "wr_changeSeq (record_change row d s) = wr_changeSeq s + 1"
  "work_rec i (record_change row d s) = work_rec i s"
  by (simp_all add: record_change_def Let_def work_rec_def)

lemma record_change_feed:
  assumes "distinct (map wc_record (wr_changes s))" "\<forall>c \<in> set (wr_changes s). wc_seq c \<le> wr_changeSeq s"
  shows "distinct (map wc_record (wr_changes (record_change row d s)))
    \<and> (\<forall>c \<in> set (wr_changes (record_change row d s)). wc_seq c \<le> wr_changeSeq (record_change row d s))"
proof -
  have "map wc_record (update_rows p (\<lambda>c. c\<lparr>wc_seq := n, wc_deleted := d\<rparr>) cs) = map wc_record cs"
    for p n and cs :: "work_change list" by (induction cs) simp_all
  with assms show ?thesis
    by (auto simp: record_change_def Let_def set_update_rows dest: bspec [OF assms(2)])
qed

text \<open>\<open>t\<close> follows \<open>s\<close>: whatever differs between them is behind the watermark of \<open>s\<close> in the feed of \<open>t\<close>.\<close>

definition follows :: "work_repo \<Rightarrow> work_repo \<Rightarrow> bool" where
  "follows s t \<longleftrightarrow> feed_inv t \<and> wr_changeSeq s \<le> wr_changeSeq t
     \<and> (\<forall>i. work_rec i s \<noteq> work_rec i t \<longrightarrow> (\<exists>c. feed_row i t = Some c \<and> wr_changeSeq s < wc_seq c))
     \<and> (\<forall>i c. feed_row i s = Some c \<longrightarrow> (\<exists>c'. feed_row i t = Some c' \<and> (c' = c \<or> wr_changeSeq s < wc_seq c')))"

lemma follows_refl: "feed_inv s \<Longrightarrow> follows s s"
  by (simp add: follows_def)

lemma follows_inv: "follows s t \<Longrightarrow> feed_inv t"
  by (simp add: follows_def)

lemma follows_trans:
  assumes st: "follows s t" and tu: "follows t u"
  shows "follows s u"
proof -
  have le: "wr_changeSeq s \<le> wr_changeSeq t" using st by (simp add: follows_def)
  have kept: "\<exists>c'. feed_row i u = Some c' \<and> (c' = c \<or> wr_changeSeq s < wc_seq c')" if "feed_row i t = Some c" for i c
    using tu that le unfolding follows_def by fastforce
  have "\<exists>c. feed_row i u = Some c \<and> wr_changeSeq s < wc_seq c" if "work_rec i s \<noteq> work_rec i u" for i
  proof (cases "work_rec i t = work_rec i u")
    case True
    with that st obtain c where "feed_row i t = Some c" "wr_changeSeq s < wc_seq c" unfolding follows_def by metis
    with kept [of i c] show ?thesis by blast
  next
    case False
    with tu le show ?thesis unfolding follows_def by fastforce
  qed
  moreover have "\<exists>c'. feed_row i u = Some c' \<and> (c' = c \<or> wr_changeSeq s < wc_seq c')" if "feed_row i s = Some c" for i c
  proof -
    from that st obtain c1 where "feed_row i t = Some c1" "c1 = c \<or> wr_changeSeq s < wc_seq c1" unfolding follows_def by blast
    with kept [of i c1] show ?thesis by blast
  qed
  ultimately show ?thesis using st tu unfolding follows_def by fastforce
qed

text \<open>One record changes together with its feed row.\<close>

lemma follows_one:
  assumes inv: "feed_inv s" and ids: "distinct (map wk_id rows)"
    and others: "\<And>i. i \<noteq> wk_id row \<Longrightarrow> find (\<lambda>r. wk_id r = i) rows = work_rec i s"
    and self: "(find (\<lambda>r. wk_id r = wk_id row) rows = None) = d"
    and owner: "\<And>r c. find (\<lambda>r. wk_id r = wk_id row) rows = Some r \<Longrightarrow> feed_row (wk_id row) s = Some c \<Longrightarrow> same_owner c r"
      "\<And>r. find (\<lambda>r. wk_id r = wk_id row) rows = Some r \<Longrightarrow> feed_row (wk_id row) s = None \<Longrightarrow>
         wk_tenant r = wk_tenant row \<and> wk_member r = wk_member row \<and> wk_employee r = wk_employee row"
  shows "follows s (record_change row d (s\<lparr>wr_records := rows\<rparr>))"
proof -
  let ?t = "record_change row d (s\<lparr>wr_records := rows\<rparr>)"
  have rec: "work_rec i (s\<lparr>wr_records := rows\<rparr>) = find (\<lambda>r. wk_id r = i) rows" for i by (simp add: work_rec_def)
  have feed: "feed_row i (s\<lparr>wr_records := rows\<rparr>) = feed_row i s" for i by (simp add: feed_row_def)
  have row: "\<exists>c. feed_row (wk_id row) ?t = Some c \<and> wc_seq c = wr_changeSeq s + 1 \<and> wc_deleted c = d
      \<and> (\<forall>r. find (\<lambda>r. wk_id r = wk_id row) rows = Some r \<longrightarrow> same_owner c r)"
  proof (cases "feed_row (wk_id row) s")
    case None
    with owner(2) show ?thesis by (auto simp: feed_row_change feed same_owner_def)
  next
    case (Some c)
    with owner(1) show ?thesis by (auto simp: feed_row_change feed same_owner_def)
  qed
  have other: "feed_row i ?t = feed_row i s" if "i \<noteq> wk_id row" for i using that by (simp add: feed_row_change feed)
  have seq: "distinct (map wc_record (wr_changes ?t)) \<and> (\<forall>c \<in> set (wr_changes ?t). wc_seq c \<le> wr_changeSeq ?t)"
    using inv by (intro record_change_feed) (simp_all add: feed_inv_def)
  have del: "wc_deleted c = (work_rec i ?t = None)" if "feed_row i ?t = Some c" for i c
    using that inv row self others other [of i] by (cases "i = wk_id row") (auto simp: rec feed_inv_def)
  have own: "\<exists>c. feed_row i ?t = Some c \<and> same_owner c r" if "work_rec i ?t = Some r" for i r
    using that inv row others other [of i] by (cases "i = wk_id row") (auto simp: rec feed_inv_def)
  have "feed_inv ?t" unfolding feed_inv_def using ids seq del own by simp
  moreover have "\<exists>c. feed_row i ?t = Some c \<and> wr_changeSeq s < wc_seq c" if "work_rec i s \<noteq> work_rec i ?t" for i
    using that row others by (cases "i = wk_id row") (auto simp: rec)
  moreover have "\<exists>c'. feed_row i ?t = Some c' \<and> (c' = c \<or> wr_changeSeq s < wc_seq c')" if "feed_row i s = Some c" for i c
    using that row other by (cases "i = wk_id row") auto
  ultimately show ?thesis by (simp add: follows_def)
qed

text \<open>A transition of a record that keeps its identity and owner.\<close>

locale record_transition =
  fixes act :: "work_record \<Rightarrow> work_record"
  assumes keeps: "wk_id (act r) = wk_id r" "wk_tenant (act r) = wk_tenant r" "wk_member (act r) = wk_member r"
    "wk_employee (act r) = wk_employee r"
begin

lemma find_act: "find (\<lambda>r. wk_id r = i) (update_rows (\<lambda>r. wk_id r = j) act rows) =
   map_option (\<lambda>r. if i = j then act r else r) (find (\<lambda>r. wk_id r = i) rows)"
  by (induction rows) (auto simp: keeps)

lemma ids_act: "map wk_id (update_rows p act rows) = map wk_id rows"
  by (induction rows) (auto simp: keeps)

lemma touch_follows:
  assumes "feed_inv s" "work_rec (wk_id row) s \<noteq> None"
  shows "follows s (record_change row False (s\<lparr>wr_records := update_rows (\<lambda>r. wk_id r = wk_id row) act (wr_records s)\<rparr>))"
proof (rule follows_one)
  fix r c
  assume "find (\<lambda>r. wk_id r = wk_id row) (update_rows (\<lambda>r. wk_id r = wk_id row) act (wr_records s)) = Some r"
    and c: "feed_row (wk_id row) s = Some c"
  then obtain r0 where "work_rec (wk_id row) s = Some r0" "r = act r0" by (auto simp: find_act work_rec_def)
  moreover from this(1) assms(1) c have "same_owner c r0" unfolding feed_inv_def by (metis option.inject)
  ultimately show "same_owner c r" by (simp add: same_owner_def keeps)
next
  fix r
  assume "feed_row (wk_id row) s = None"
  moreover obtain c where "feed_row (wk_id row) s = Some c" using assms unfolding feed_inv_def by (metis option.exhaust)
  ultimately show "wk_tenant r = wk_tenant row \<and> wk_member r = wk_member row \<and> wk_employee r = wk_employee row" by simp
qed (use assms in \<open>auto simp: feed_inv_def ids_act find_act work_rec_def option.map_ident\<close>)

end

interpretation finishing: record_transition "finished q" for q
  by unfold_locales (simp_all add: finished_def)

interpretation losing: record_transition "lost_record now" for now
  by unfold_locales (simp_all add: lost_record_def)

lemma follows_outbox [simp]: "follows s (t\<lparr>wr_outbox := x\<rparr>) = follows s t" "follows (s\<lparr>wr_outbox := x\<rparr>) t = follows s t"
  "feed_inv (s\<lparr>wr_outbox := x\<rparr>) = feed_inv s" "work_rec i (s\<lparr>wr_outbox := x\<rparr>) = work_rec i s"
  by (simp_all add: follows_def feed_inv_def work_rec_def feed_row_def)

lemma insert_follows:
  assumes "feed_inv s" "fresh_id (wk_id r) s"
  shows "follows s (insert_record r s)"
proof -
  let ?r = "r\<lparr>wk_seq := wr_recordSeq s + 1\<rparr>" and ?s = "s\<lparr>wr_recordSeq := wr_recordSeq s + 1\<rparr>"
  have none: "find (\<lambda>q. wk_id q = wk_id r) (wr_records s) = None" using assms(2) by (simp add: fresh_id_def work_rec_def)
  have "follows ?s (record_change r False (?s\<lparr>wr_records := wr_records s @ [?r]\<rparr>))"
  proof (rule follows_one)
    show "feed_inv ?s" using assms(1) by (simp add: feed_inv_def work_rec_def feed_row_def)
    show "distinct (map wk_id (wr_records s @ [?r]))" using assms(1) none by (auto simp: feed_inv_def find_None_iff)
  qed (use assms(2) none in \<open>auto simp: find_append work_rec_def feed_row_def fresh_id_def split: option.splits\<close>)
  moreover have "follows ?s t = follows s t" for t by (simp add: follows_def work_rec_def feed_row_def)
  moreover have "insert_record r s = record_change r False (?s\<lparr>wr_records := wr_records s @ [?r]\<rparr>)"
    unfolding insert_record_def by (rule arg_cong [of _ _ "record_change r False"]) simp
  ultimately show ?thesis by simp
qed

lemma drop_follows:
  assumes "feed_inv s"
  shows "follows s (record_change row True (s\<lparr>wr_records := delete_rows (\<lambda>r. wk_id r = wk_id row) (wr_records s)\<rparr>))"
proof -
  have f: "find (\<lambda>r. wk_id r = i) (delete_rows (\<lambda>r. wk_id r = j) rows) = (if i = j then None else find (\<lambda>r. wk_id r = i) rows)"
    for i j and rows :: "work_record list" by (induction rows) auto
  show ?thesis
    using assms by (intro follows_one) (auto simp: f work_rec_def feed_inv_def distinct_key_delete)
qed

section \<open>Histories\<close>

inductive work_step :: "work_repo \<Rightarrow> work_repo \<Rightarrow> bool" where
  step_start: "fresh_id uuid s \<Longrightarrow> work_step s (snd (work_start_op st q uuid s))"
| step_finish: "work_step s (snd (work_finish_op env i tenant member q summary now s))"
| step_work_restart: "work_step s (work_restart now s)"
| step_import: "distinct uuids \<Longrightarrow> \<forall>u \<in> set uuids. fresh_id u s \<Longrightarrow>
     work_step s (snd (importHistory st conversation tenant member employee segments uuids now s))"
| step_delete: "work_step s (work_deleteConversation conversation tenant member s)"

definition work_init :: "work_repo \<Rightarrow> bool" where
  "work_init s \<longleftrightarrow> wr_records s = [] \<and> wr_changes s = []"

lemma finish_follows:
  assumes "feed_inv s"
  shows "follows s (snd (work_finish_op env i tenant member q summary now s))"
proof (cases "work_get i tenant member s")
  case None
  then show ?thesis using assms by (simp add: work_finish_op_def follows_refl)
next
  case (Some row)
  then have row: "row \<in> set (wr_records s)" "wk_id row = i" using find_Some_in [of _ "wr_records s" row] by (auto simp: work_get_def)
  then have "work_rec (wk_id row) s \<noteq> None" by (auto simp: work_rec_def find_None_iff)
  from finishing.touch_follows [OF assms this, of q] have
    f: "follows s (record_change row False (s\<lparr>wr_records := update_rows (\<lambda>r. wk_id r = i) (finished q) (wr_records s)\<rparr>))" by (simp add: row)
  have ob: "record_change row False (t\<lparr>wr_outbox := x\<rparr>) = (record_change row False t)\<lparr>wr_outbox := x\<rparr>" for t x
    by (simp add: record_change_def Let_def)
  show ?thesis using Some f assms by (simp add: work_finish_op_def Let_def follows_refl ob split: option.splits)
qed

lemma restart_follows:
  assumes "feed_inv s"
  shows "follows s (work_restart now s)"
proof -
  let ?f = "\<lambda>row s. record_change row False (s\<lparr>wr_records := update_rows (\<lambda>r. wk_id r = wk_id row) (lost_record now) (wr_records s)\<rparr>)"
  have "follows s (fold ?f rows t)" if "follows s t" "\<forall>r \<in> set rows. wk_id r \<in> set (map wk_id (wr_records t))" for rows t
    using that
  proof (induction rows arbitrary: t)
    case (Cons row rows)
    have "work_rec (wk_id row) t \<noteq> None" using Cons.prems(2) by (auto simp: work_rec_def find_None_iff)
    with Cons.prems(1) have "follows s (?f row t)"
      using losing.touch_follows [of t row now] by (blast intro: follows_trans follows_inv)
    moreover have "map wk_id (wr_records (?f row t)) = map wk_id (wr_records t)" by (simp add: losing.ids_act)
    ultimately show ?case using Cons.IH [of "?f row t"] Cons.prems(2) by simp
  qed simp
  from this [of s "filter (\<lambda>r. wk_outcome r = WActive) (wr_records s)"] assms show ?thesis
    by (simp add: work_restart_def follows_refl)
qed

lemma insert_fresh:
  "fresh_id i s \<Longrightarrow> i \<noteq> wk_id r \<Longrightarrow> fresh_id i (insert_record r s)"
proof -
  assume i: "fresh_id i s" "i \<noteq> wk_id r"
  then have "feed_row i (insert_record r s) = None"
    by (simp add: insert_record_def feed_row_change) (simp add: fresh_id_def feed_row_def)
  moreover have "work_rec i (insert_record r s) = None"
    using i by (simp add: insert_record_def) (simp add: fresh_id_def work_rec_def find_append)
  ultimately show "fresh_id i (insert_record r s)" by (simp add: fresh_id_def)
qed

lemma import_follows:
  assumes "follows s t" "distinct (map wk_id rs)" "\<forall>r \<in> set rs. fresh_id (wk_id r) t"
  shows "follows s (fold insert_record rs t)"
  using assms
proof (induction rs arbitrary: t)
  case (Cons r rs)
  have "follows s (insert_record r t)"
    using follows_trans [OF Cons.prems(1) insert_follows [OF follows_inv [OF Cons.prems(1)]]] Cons.prems(3) by simp
  moreover have "\<forall>q \<in> set rs. fresh_id (wk_id q) (insert_record r t)"
  proof
    fix q assume "q \<in> set rs"
    moreover from this Cons.prems(2) have "wk_id q \<noteq> wk_id r" by (metis distinct.simps(2) image_eqI list.set_map list.simps(9))
    ultimately show "fresh_id (wk_id q) (insert_record r t)" using Cons.prems(3) by (simp add: insert_fresh)
  qed
  ultimately show ?case using Cons.IH Cons.prems(2) by simp
qed simp

lemma delete_fold:
  "(fold (\<lambda>row. record_change row True) rows s)\<lparr>wr_records := filter (\<lambda>r. wk_id r \<notin> wk_id ` set rows) (wr_records s)\<rparr>
    = fold (\<lambda>row s. record_change row True (s\<lparr>wr_records := delete_rows (\<lambda>r. wk_id r = wk_id row) (wr_records s)\<rparr>)) rows s"
proof (induction rows arbitrary: s)
  case Nil
  then show ?case by simp
next
  case (Cons row rows)
  let ?s = "record_change row True (s\<lparr>wr_records := delete_rows (\<lambda>r. wk_id r = wk_id row) (wr_records s)\<rparr>)"
  have c: "record_change r d (t\<lparr>wr_records := x\<rparr>) = (record_change r d t)\<lparr>wr_records := x\<rparr>" for r d t x
    by (simp add: record_change_def Let_def)
  have cf: "fold (\<lambda>row. record_change row True) qs (t\<lparr>wr_records := x\<rparr>) = (fold (\<lambda>row. record_change row True) qs t)\<lparr>wr_records := x\<rparr>" for qs t x
    by (induction qs arbitrary: t) (simp_all add: c)
  have "filter (\<lambda>r. wk_id r \<notin> wk_id ` set rows) (wr_records ?s) = filter (\<lambda>r. wk_id r \<notin> wk_id ` set (row # rows)) (wr_records s)"
    by (simp add: delete_rows_def conj_commute)
  with Cons.IH [of ?s] show ?case by (simp add: c cf)
qed

lemma delete_follows:
  assumes "feed_inv s"
  shows "follows s (work_deleteConversation conversation tenant member s)"
proof -
  let ?p = "of_conversation conversation tenant member" and ?rows = "work_forConversation conversation tenant member s"
  let ?g = "\<lambda>row s. record_change row True (s\<lparr>wr_records := delete_rows (\<lambda>r. wk_id r = wk_id row) (wr_records s)\<rparr>)"
  have recs: "wr_records (fold (\<lambda>row. record_change row True) rows t) = wr_records t" for rows t
    by (induction rows arbitrary: t) simp_all
  have inj: "inj_on wk_id (set (wr_records s))" using assms by (simp add: feed_inv_def distinct_map)
  have "delete_rows ?p (wr_records s) = filter (\<lambda>r. wk_id r \<notin> wk_id ` set ?rows) (wr_records s)"
    unfolding delete_rows_def work_forConversation_def using inj by (intro filter_cong) (auto dest: inj_onD)
  then have "work_deleteConversation conversation tenant member s = fold ?g ?rows s"
    unfolding delete_fold [symmetric] by (simp add: work_deleteConversation_def Let_def recs)
  moreover have "follows s (fold ?g rows t)" if "follows s t" for rows t
    using that
  proof (induction rows arbitrary: t)
    case (Cons row rows)
    then have "follows s (?g row t)" by (blast intro: follows_trans drop_follows follows_inv)
    with Cons.IH show ?case by simp
  qed simp
  ultimately show ?thesis using follows_refl [OF assms] by simp
qed

lemma work_step_follows: "work_step s t \<Longrightarrow> feed_inv s \<Longrightarrow> follows s t"
proof (induction rule: work_step.induct)
  case (step_start uuid s st q)
  then show ?case by (auto simp: work_start_op_def follows_refl started_record_def intro!: insert_follows)
next
  case (step_import uuids s st conversation tenant member employee segments now)
  let ?pending = "import_selection conversation tenant member employee segments s"
  let ?rs = "map2 (history_record conversation tenant member employee now) ?pending uuids"
  have "map wk_id ?rs = map snd (zip ?pending uuids)" by (auto simp: history_record_def)
  then have ids: "map wk_id ?rs = take (length ?pending) uuids" by (simp add: map_snd_zip_take min_def)
  have "follows s (fold insert_record ?rs s)"
  proof (rule import_follows)
    show "distinct (map wk_id ?rs)" unfolding ids using step_import.hyps(1) by simp
    have "wk_id ` set ?rs \<subseteq> set uuids" using ids by (metis list.set_map set_take_subset)
    then show "\<forall>r \<in> set ?rs. fresh_id (wk_id r) s" using step_import.hyps(2) by blast
  qed (rule follows_refl [OF step_import.prems])
  then show ?case using step_import.prems by (simp add: importHistory_def Let_def follows_refl)
qed (simp_all add: finish_follows restart_follows delete_follows)

interpretation work_feed: invariant_system work_init work_step feed_inv
proof unfold_locales
  show "work_init s \<Longrightarrow> feed_inv s" for s by (simp add: work_init_def feed_inv_def work_rec_def feed_row_def)
  show "feed_inv s \<Longrightarrow> work_step s t \<Longrightarrow> feed_inv t" for s t using work_step_follows [of s t] by (simp add: follows_def)
qed

lemma work_steps_follow: "steps work_step s t \<Longrightarrow> feed_inv s \<Longrightarrow> follows s t"
proof (induction rule: steps.induct)
  case (steps_snoc s t u)
  then have "follows s t" by simp
  moreover from this have "feed_inv t" by (simp add: follows_def)
  ultimately show ?case using work_step_follows [OF steps_snoc.hyps(2)] by (blast intro: follows_trans)
qed (rule follows_refl)

text \<open>The owner columns of a feed row never change.\<close>

definition owner_kept :: "work_repo \<Rightarrow> work_repo \<Rightarrow> bool" where
  "owner_kept s t \<longleftrightarrow> (\<forall>i c. feed_row i s = Some c \<longrightarrow> (\<exists>c'. feed_row i t = Some c'
     \<and> wc_tenant c' = wc_tenant c \<and> wc_member c' = wc_member c \<and> wc_employee c' = wc_employee c))"

lemma owner_kept_refl: "owner_kept s s"
  by (simp add: owner_kept_def)

lemma owner_kept_trans: "owner_kept s t \<Longrightarrow> owner_kept t u \<Longrightarrow> owner_kept s u"
  unfolding owner_kept_def by metis

lemma owner_kept_change: "owner_kept s t \<Longrightarrow> owner_kept s (record_change row d (t\<lparr>wr_records := rows\<rparr>))"
proof -
  have "owner_kept t (record_change row d (t\<lparr>wr_records := rows\<rparr>))"
    by (auto simp: owner_kept_def feed_row_change) (auto simp: feed_row_def)
  then show "owner_kept s t \<Longrightarrow> ?thesis" by (rule owner_kept_trans [rotated])
qed

lemma owner_kept_records [simp]: "owner_kept s (t\<lparr>wr_records := rows\<rparr>) = owner_kept s t" "owner_kept s (t\<lparr>wr_outbox := x\<rparr>) = owner_kept s t"
  "owner_kept s (t\<lparr>wr_recordSeq := n\<rparr>) = owner_kept s t"
  by (simp_all add: owner_kept_def feed_row_def)

lemma owner_kept_change' : "owner_kept s t \<Longrightarrow> owner_kept s (record_change row d t)"
  using owner_kept_change [of s t row d "wr_records t"] by simp

lemma owner_kept_fold: "(\<And>x t. owner_kept s t \<Longrightarrow> owner_kept s (f x t)) \<Longrightarrow> owner_kept s t \<Longrightarrow> owner_kept s (fold f xs t)"
  by (rule fold_preserves [where P = "owner_kept s"]) auto

lemma work_step_owner: "work_step s t \<Longrightarrow> owner_kept s t"
  by (induction rule: work_step.induct)
    (auto simp: work_start_op_def insert_record_def work_finish_op_def work_restart_def importHistory_def work_deleteConversation_def
      Let_def owner_kept_refl intro!: owner_kept_fold owner_kept_change' split: option.splits)

lemma work_steps_owner:
  assumes "steps work_step s t" "feed_row i s = Some c" "feed_row i t = Some c'"
  shows "wc_tenant c' = wc_tenant c \<and> wc_member c' = wc_member c \<and> wc_employee c' = wc_employee c"
proof -
  have "owner_kept s t" using assms(1)
    by (induction rule: steps.induct) (auto intro: owner_kept_refl owner_kept_trans work_step_owner)
  with assms(2,3) show ?thesis by (fastforce simp: owner_kept_def)
qed

lemma length_sort_by [simp]: "length (sort_by le xs) = length xs"
proof -
  have "length (insert_by le x ys) = Suc (length ys)" for x ys by (induction ys) auto
  then show ?thesis by (induction xs) (simp_all add: sort_by_def)
qed

section \<open>Properties\<close>


text \<open>(C32) The import sweep selects what it should: the single pass over the live records, with its running cover bound,
  imports exactly the segments, in ordinal order, that no live record covers and whose first entry was
  not imported before, each first entry once.\<close>

theorem import_sweep_reference:
  "import_selection conversation tenant member employee segments s =
     (let rows = participant_rows conversation tenant member employee s;
          live = filter (\<lambda>r. wk_provenance r = Live) rows;
          starts = js_unique (map wk_startOrdinal live)
      in unanchored (map (\<lambda>r. nullish (wk_firstEntry r) []) (filter (\<lambda>r. wk_provenance r = PiHistory \<and> wk_firstEntry r \<noteq> None) rows))
           (filter (\<lambda>g. \<not> (\<exists>r \<in> set live. live_covers starts r (hs_startOrdinal g)))
             (sort_by (\<lambda>a b. hs_startOrdinal a \<le> hs_startOrdinal b) segments)))"
proof -
  have lin: "linear_on ((\<le>) :: int \<Rightarrow> int \<Rightarrow> bool)" by (auto simp: linear_on_def)
  have "sorted_wrt (\<lambda>a b. wk_startOrdinal a \<le> wk_startOrdinal b)
      (filter (\<lambda>r. wk_provenance r = Live) (participant_rows conversation tenant member employee s))"
    unfolding participant_rows_def by (intro sorted_wrt_filter sorted_sort_by [OF lin])
  from pending_reference [OF this sorted_sort_by [OF lin, of hs_startOrdinal]] show ?thesis
    unfolding import_selection_def Let_def by (simp only: below_bound.simps not_False_eq_True simp_thms)
qed

text \<open>An execution is finished once.  A finish that reports success found the record active, stores its outcome and
  adds its usage to the outbox exactly once; whatever finish comes later for the record, it reports
  failure and changes nothing.\<close>

theorem work_finished_once:
  assumes "distinct (map wk_id (wr_records s))" and "wi_outcome q \<noteq> WActive"
    and "work_finish_op env i tenant member q summary now s = (Inr True, s')"
  shows "(\<exists>r. work_get i tenant member s = Some r \<and> wk_outcome r = WActive \<and> work_get i tenant member s' = Some (finished q r))
    \<and> wr_outbox s' = (case summary of None \<Rightarrow> wr_outbox s
        | Some u \<Rightarrow> upsertUsageSummary env u (case wi_usage q of None \<Rightarrow> None | Some w \<Rightarrow> wu_cost w) now (wr_outbox s))
    \<and> (\<forall>q' summary' now'. work_finish_op env i tenant member q' summary' now' s' = (Inr False, s'))"
proof -
  from assms(3) obtain r where r: "work_get i tenant member s = Some r" "wk_outcome r = WActive"
    by (auto simp: work_finish_op_def split: option.splits if_splits)
  have f: "find (\<lambda>r. wk_id r = i \<and> wk_tenant r = tenant \<and> wk_member r = member) (update_rows (\<lambda>r. wk_id r = i) (finished q) rows)
      = map_option (finished q) (find (\<lambda>r. wk_id r = i \<and> wk_tenant r = tenant \<and> wk_member r = member) rows)"
    for rows :: "work_record list" by (induction rows) (auto simp: finished_def)
  from assms(3) r have s': "wr_records s' = update_rows (\<lambda>r. wk_id r = i) (finished q) (wr_records s)"
    "wr_outbox s' = (case summary of None \<Rightarrow> wr_outbox s
        | Some u \<Rightarrow> upsertUsageSummary env u (case wi_usage q of None \<Rightarrow> None | Some w \<Rightarrow> wu_cost w) now (wr_outbox s))"
    by (auto simp: work_finish_op_def record_change_def Let_def split: option.splits if_splits)
  then have "work_get i tenant member s' = Some (finished q r)" using r by (simp add: work_get_def f)
  with r s' assms(2) show ?thesis by (simp add: work_finish_op_def finished_def)
qed

section \<open>Witnesses\<close>

definition demo_repo :: work_repo where
  "demo_repo = \<lparr> wr_records = [], wr_changes = [], wr_recordSeq = 0, wr_changeSeq = 0, wr_outbox = [] \<rparr>"

definition demo_work :: work_start where
  "demo_work = \<lparr> wa_tenant = ''t'', wa_member = ''m'', wa_receipt = None, wa_conversation = ''c'', wa_employee = ''e'',
     wa_startedAt = 10, wa_startOrdinal = 0 \<rparr>"

definition demo_working :: work_repo where
  "demo_working = snd (work_start_op demo_store demo_work ''w'' demo_repo)"

lemma demo_working_record: "work_rec ''w'' demo_working = Some (started_record demo_work ''w'' 1)"
  by (simp add: demo_working_def work_start_op_def owned_work_def getOwnedConversation_def demo_store_get demo_work_def demo_repo_def
      conversation_row_def demo_conversation_def insert_record_def record_change_def work_rec_def started_record_def Let_def)


definition demo_finish :: work_finish where
  "demo_finish = \<lparr> wi_outcome = WSucceeded, wi_endedAt = 20, wi_endOrdinal = 3, wi_firstEntry = None, wi_lastEntry = None,
     wi_firstAt = None, wi_lastAt = None, wi_usage = None \<rparr>"

theorem work_finished_once_witness:
  "\<exists>s'. work_finish_op demo_outbox_env ''w'' ''t'' ''m'' demo_finish None 20 demo_working = (Inr True, s')
     \<and> work_finish_op demo_outbox_env ''w'' ''t'' ''m'' demo_finish None 30 s' = (Inr False, s')"
proof -
  have rows: "wr_records demo_working = [started_record demo_work ''w'' 1]"
    by (simp add: demo_working_def work_start_op_def owned_work_def getOwnedConversation_def demo_store_get demo_work_def demo_repo_def
        conversation_row_def demo_conversation_def insert_record_def record_change_def started_record_def Let_def)
  obtain s' where f: "work_finish_op demo_outbox_env ''w'' ''t'' ''m'' demo_finish None 20 demo_working = (Inr True, s')"
    by (simp add: work_finish_op_def work_get_def rows started_record_def demo_work_def Let_def)
  have "distinct (map wk_id (wr_records demo_working))" "wi_outcome demo_finish \<noteq> WActive" by (simp_all add: rows demo_finish_def)
  from work_finished_once [OF this f] f show ?thesis by blast
qed

end
