(* ===== verification/Read_Paging.thy ===== *)
theory Read_Paging
  imports Conversation_Store
begin

text \<open>
  Keyset pagination: the opaque cursors of \<open>storage/read-cursor.ts\<close>, the query checks of
  \<open>services/conversation-reads.ts\<close>, \<open>listConversations\<close> of \<open>storage/sqlite.ts\<close> and the loop over all
  of its pages.  Base64url is modelled byte by byte; \<open>JSON.stringify\<close> and \<open>JSON.parse\<close> (with the
  UTF-8 coding around them), SHA-256, \<open>toISOString\<close> and \<open>Date.parse\<close> are the fields of \<open>cursor_env\<close>.
\<close>

record cursor_env =
  ce_hash :: "jsval \<Rightarrow> string"
  ce_json :: "jsval \<Rightarrow> nat list"
  ce_parse :: "nat list \<Rightarrow> jsval option"
  ce_iso :: "ms \<Rightarrow> string"
  ce_date :: "string \<Rightarrow> ms option"

datatype read_error = InvalidReadCursor | ConversationReadError nat string

section \<open>Base64url\<close>

definition b64_digit :: "nat \<Rightarrow> char" where
  "b64_digit n = (if n < 26 then char_of (65 + n) else if n < 52 then char_of (71 + n) else if n < 62 then char_of (n - 4)
     else if n = 62 then CHR ''-'' else CHR ''_'')"

definition b64_value :: "char \<Rightarrow> nat option" where
  "b64_value c = (let n = (of_char c :: nat) in
     if 65 \<le> n \<and> n \<le> 90 then Some (n - 65) else if 97 \<le> n \<and> n \<le> 122 then Some (n - 71)
     else if 48 \<le> n \<and> n \<le> 57 then Some (n + 4) else if n = 45 then Some 62 else if n = 95 then Some 63 else None)"

text \<open>\<open>toString("base64url")\<close>: no padding.\<close>

fun b64_encode :: "nat list \<Rightarrow> string" where
  "b64_encode [] = []"
| "b64_encode [a] = [b64_digit (a div 4), b64_digit (a mod 4 * 16)]"
| "b64_encode [a, b] = [b64_digit (a div 4), b64_digit (a mod 4 * 16 + b div 16), b64_digit (b mod 16 * 4)]"
| "b64_encode (a # b # c # r) =
     [b64_digit (a div 4), b64_digit (a mod 4 * 16 + b div 16), b64_digit (b mod 16 * 4 + c div 64), b64_digit (c mod 64)]
     @ b64_encode r"

text \<open>\<open>Buffer.from(text, "base64url")\<close> on digits of the alphabet: a single left-over digit gives no byte.\<close>

fun b64_bytes :: "nat list \<Rightarrow> nat list" where
  "b64_bytes (w # x # y # z # r) =
     [w * 4 + x div 16, x mod 16 * 16 + y div 4, y mod 4 * 64 + z] @ b64_bytes r"
| "b64_bytes [w, x, y] = [w * 4 + x div 16, x mod 16 * 16 + y div 4]"
| "b64_bytes [w, x] = [w * 4 + x div 16]"
| "b64_bytes [w] = []"
| "b64_bytes [] = []"

definition b64_decode :: "string \<Rightarrow> nat list" where
  "b64_decode s = b64_bytes (map (\<lambda>c. the (b64_value c)) s)"

section \<open>Cursors\<close>

datatype cursor_item = CStr string | CNum int
datatype cursor_type = TString | TNumber

fun item_value :: "cursor_item \<Rightarrow> jsval" where
  "item_value (CStr s) = JStr s"
| "item_value (CNum i) = JNum (Fin (of_int i))"

definition safe_integer :: "int \<Rightarrow> bool" where
  "safe_integer i \<longleftrightarrow> \<bar>i\<bar> \<le> 9007199254740991"

fun value_item :: "cursor_type \<Rightarrow> jsval \<Rightarrow> cursor_item option" where
  "value_item TString (JStr s) = Some (CStr s)"
| "value_item TNumber v = (case js_integer v of Some i \<Rightarrow> if safe_integer i then Some (CNum i) else None | None \<Rightarrow> None)"
| "value_item _ _ = None"

fun value_items :: "cursor_type list \<Rightarrow> jsval list \<Rightarrow> cursor_item list option" where
  "value_items [] [] = Some []"
| "value_items (t # ts) (v # vs) =
     (case (value_item t v, value_items ts vs) of (Some i, Some is) \<Rightarrow> Some (i # is) | _ \<Rightarrow> None)"
| "value_items _ _ = None"

definition readCursorScope :: "cursor_env \<Rightarrow> string \<Rightarrow> jsval list \<Rightarrow> jsval list \<Rightarrow> string" where
  "readCursorScope env resource owner filters = ce_hash env (JArr [JStr resource, JArr owner, JArr filters])"

definition cursor_value :: "string \<Rightarrow> cursor_item list \<Rightarrow> jsval" where
  "cursor_value scope boundary =
     JObj [(''v'', JNum (Fin 1)), (''scope'', JStr scope), (''boundary'', JArr (map item_value boundary))]"

definition encodeReadCursor :: "cursor_env \<Rightarrow> string \<Rightarrow> cursor_item list \<Rightarrow> string" where
  "encodeReadCursor env scope boundary = ''page_v1.'' @ b64_encode (ce_json env (cursor_value scope boundary))"

text \<open>\<open>/^page_v1\.[A-Za-z0-9_-]+$/\<close>\<close>

definition cursor_shape :: "string \<Rightarrow> bool" where
  "cursor_shape cursor \<longleftrightarrow>
     take 8 cursor = ''page_v1.'' \<and> drop 8 cursor \<noteq> [] \<and> list_all (\<lambda>c. b64_value c \<noteq> None) (drop 8 cursor)"

text \<open>Every failure on the way, exceptions of \<open>JSON.parse\<close> included, is the one error of the caller.\<close>

definition decodeReadCursor ::
  "cursor_env \<Rightarrow> string \<Rightarrow> string \<Rightarrow> cursor_type list \<Rightarrow> read_error + cursor_item list" where
  "decodeReadCursor env cursor scope types =
     (let encoded = drop 8 cursor; bytes = b64_decode encoded
      in if length cursor > 8192 \<or> \<not> cursor_shape cursor then Inl InvalidReadCursor
         else if b64_encode bytes \<noteq> encoded then Inl InvalidReadCursor
         else (case ce_parse env bytes of
           None \<Rightarrow> Inl InvalidReadCursor
         | Some value \<Rightarrow>
             if js_field value ''v'' \<noteq> JNum (Fin 1) \<or> js_field value ''scope'' \<noteq> JStr scope then Inl InvalidReadCursor
             else (case js_field value ''boundary'' of
               JArr items \<Rightarrow>
                 (case value_items types items of None \<Rightarrow> Inl InvalidReadCursor | Some b \<Rightarrow> Inr b)
             | _ \<Rightarrow> Inl InvalidReadCursor)))"

text \<open>
  \<open>compareReadOrder\<close>: strings by code unit, numbers by value.  The components of two compared keys
  have the same types in every caller; a missing right component compares with neither.
\<close>

fun str_less :: "string \<Rightarrow> string \<Rightarrow> bool" where
  "str_less xs [] = False"
| "str_less [] (y # ys) = True"
| "str_less (x # xs) (y # ys) = ((of_char x :: nat) < of_char y \<or> (x = y \<and> str_less xs ys))"

fun item_less :: "cursor_item \<Rightarrow> cursor_item \<Rightarrow> bool" where
  "item_less (CStr a) (CStr b) = str_less a b"
| "item_less (CNum a) (CNum b) = (a < b)"
| "item_less _ _ = False"

fun compareReadOrder :: "cursor_item list \<Rightarrow> cursor_item list \<Rightarrow> int" where
  "compareReadOrder [] right = 0"
| "compareReadOrder left [] = 0"
| "compareReadOrder (l # left) (r # right) =
     (if item_less l r then -1 else if item_less r l then 1 else compareReadOrder left right)"

section \<open>Query parameters\<close>

text \<open>A \<open>URLSearchParams\<close> is the list of its pairs; \<open>get\<close> is the first value of a key.\<close>

type_synonym url_query = "(string \<times> string) list"

definition validateReadQuery :: "url_query \<Rightarrow> string list \<Rightarrow> read_error option" where
  "validateReadQuery query allowed =
     (if list_all (\<lambda>(k, _). k \<in> set allowed \<and> length (filter (\<lambda>e. fst e = k) query) = 1) query then None
      else Some (ConversationReadError 422 ''invalid_query''))"

definition readPageLimit :: "url_query \<Rightarrow> read_error + nat" where
  "readPageLimit query =
     (case map_of query ''limit'' of
        None \<Rightarrow> Inr 50
      | Some raw \<Rightarrow>
          if raw \<noteq> [] \<and> list_all is_digit raw \<and> 1 \<le> undec raw \<and> undec raw \<le> 100 then Inr (undec raw)
          else Inl (ConversationReadError 422 ''invalid_limit''))"

section \<open>Conversations by page\<close>

record conversation_page =
  pg_items :: "(conversation \<times> schedule_retry option) list"
  pg_next :: "string option"
  pg_hasMore :: bool

definition conversation_key :: "cursor_env \<Rightarrow> conversation \<Rightarrow> cursor_item list" where
  "conversation_key env c = [CStr (ce_iso env (cv_updated c)), CStr (cv_id c)]"

definition owner_value :: "string option \<Rightarrow> jsval" where
  "owner_value o' = (case o' of None \<Rightarrow> JNull | Some s \<Rightarrow> JStr s)"

definition conversation_scope :: "cursor_env \<Rightarrow> string option \<Rightarrow> string option \<Rightarrow> string" where
  "conversation_scope env tenant member =
     readCursorScope env ''conversations:updated-desc'' [owner_value tenant, owner_value member] []"

text \<open>The boundary of a page: a cursor, or the bare id of a row of the same owner (older clients).\<close>

definition page_boundary ::
  "cursor_env \<Rightarrow> string \<Rightarrow> string option \<Rightarrow> string option \<Rightarrow> store \<Rightarrow> read_error + cursor_item list" where
  "page_boundary env cursor tenant member s =
     (case (if take 8 cursor = ''page_v1.'' then decodeReadCursor env cursor (conversation_scope env tenant member) [TString, TString]
            else (case getConversation cursor s of
                    None \<Rightarrow> Inl InvalidReadCursor
                  | Some anchor \<Rightarrow>
                      if (tenant \<noteq> None \<and> cv_tenant anchor \<noteq> tenant) \<or> (member \<noteq> None \<and> cv_member anchor \<noteq> member)
                      then Inl InvalidReadCursor else Inr (conversation_key env anchor))) of
        Inl e \<Rightarrow> Inl e
      | Inr b \<Rightarrow>
          (case b of
             [CStr t, CStr i] \<Rightarrow> if ce_date env t = None \<or> i = [] then Inl InvalidReadCursor else Inr b
           | _ \<Rightarrow> Inl InvalidReadCursor))"

definition listed_for :: "string option \<Rightarrow> string option \<Rightarrow> conversation \<Rightarrow> bool" where
  "listed_for tenant member c \<longleftrightarrow> (tenant = None \<or> cv_tenant c = tenant) \<and> (member = None \<or> cv_member c = member)"

text \<open>The \<open>SELECT\<close> without its \<open>LIMIT\<close>: newest first, behind the boundary.\<close>

definition conversation_rows ::
  "cursor_env \<Rightarrow> cursor_item list option \<Rightarrow> string option \<Rightarrow> string option \<Rightarrow> store \<Rightarrow> conversation list" where
  "conversation_rows env boundary tenant member s =
     sort_by (\<lambda>a b. 0 \<le> compareReadOrder (conversation_key env a) (conversation_key env b))
       (filter (\<lambda>c. (boundary = None \<or> compareReadOrder (conversation_key env c) (the boundary) < 0) \<and> listed_for tenant member c)
          (st_conversations s))"

definition conversation_page_of ::
  "cursor_env \<Rightarrow> nat \<Rightarrow> cursor_item list option \<Rightarrow> string option \<Rightarrow> string option \<Rightarrow> store \<Rightarrow> conversation_page" where
  "conversation_page_of env safeLimit boundary tenant member s =
     (let rows = take (safeLimit + 1) (conversation_rows env boundary tenant member s);
          items = take safeLimit rows;
          hasMore = length rows > safeLimit
      in \<lparr> pg_items = map (\<lambda>c. (c, withScheduleRetry c s)) items,
           pg_next = (if hasMore \<and> items \<noteq> []
                      then Some (encodeReadCursor env (conversation_scope env tenant member) (conversation_key env (last items)))
                      else None),
           pg_hasMore = hasMore \<rparr>)"

definition listConversations ::
  "cursor_env \<Rightarrow> int \<Rightarrow> string option \<Rightarrow> string option \<Rightarrow> string option \<Rightarrow> store \<Rightarrow> read_error + conversation_page" where
  "listConversations env limit cursor tenant member s =
     (let safeLimit = nat (min (max limit 1) 100)
      in case cursor of
           None \<Rightarrow> Inr (conversation_page_of env safeLimit None tenant member s)
         | Some text \<Rightarrow>
             (case page_boundary env text tenant member s of
                Inl e \<Rightarrow> Inl e
              | Inr b \<Rightarrow> Inr (conversation_page_of env safeLimit (Some b) tenant member s)))"

text \<open>
  The \<open>do ... while (cursor)\<close> loop over all pages of an owner.  The value \<open>None\<close> is a loop that
  does not end.
\<close>

partial_function (option) all_pages ::
  "cursor_env \<Rightarrow> string option \<Rightarrow> string \<Rightarrow> store \<Rightarrow> string option \<Rightarrow> (conversation \<times> schedule_retry option) list
     \<Rightarrow> (read_error + (conversation \<times> schedule_retry option) list) option" where
  "all_pages env tenant member s cursor acc =
     (case listConversations env 100 cursor tenant (Some member) s of
        Inl e \<Rightarrow> Some (Inl e)
      | Inr page \<Rightarrow>
          (case pg_next page of
             None \<Rightarrow> Some (Inr (acc @ pg_items page))
           | Some c \<Rightarrow> if c = [] then Some (Inr (acc @ pg_items page))
                       else all_pages env tenant member s (Some c) (acc @ pg_items page)))"

definition allConversations ::
  "cursor_env \<Rightarrow> string option \<Rightarrow> string \<Rightarrow> store \<Rightarrow> (read_error + (conversation \<times> schedule_retry option) list) option" where
  "allConversations env tenant member s = all_pages env tenant member s None []"


section \<open>Facts\<close>

lemma b64_value_digit [simp]: "n < 64 \<Longrightarrow> b64_value (b64_digit n) = Some n"
  by (auto simp: b64_value_def b64_digit_def Let_def)

lemma b64_encode_digits: "list_all (\<lambda>b. b < 256) bs \<Longrightarrow> list_all (\<lambda>c. b64_value c \<noteq> None) (b64_encode bs)"
  by (induction bs rule: b64_encode.induct) auto

lemma byte_split:
  fixes b :: nat
  assumes "b < 256"
  shows "b div 16 div 16 = 0" "b div 16 mod 16 * 16 + b mod 16 = b" "b div 64 div 4 = 0" "b div 64 mod 4 * 64 + b mod 64 = b"
proof -
  from assms have "b div 16 < 16" "b div 64 < 4" by auto
  then show "b div 16 div 16 = 0" "b div 16 mod 16 * 16 + b mod 16 = b" "b div 64 div 4 = 0" "b div 64 mod 4 * 64 + b mod 64 = b"
    by simp_all
qed

lemma b64_decode_encode: "list_all (\<lambda>b. b < 256) bs \<Longrightarrow> b64_decode (b64_encode bs) = bs"
proof (induction bs rule: b64_encode.induct)
  case (4 a b c r)
  moreover have "a < 256 \<Longrightarrow> b < 256 \<Longrightarrow> c < 256 \<Longrightarrow>
    a div 4 < 64 \<and> a mod 4 * 16 + b div 16 < 64 \<and> b mod 16 * 4 + c div 64 < 64 \<and> c mod 64 < 64"
    by auto
  ultimately show ?case by (simp add: b64_decode_def byte_split)
next
  case (3 a b)
  moreover from 3 have "a div 4 < 64 \<and> a mod 4 * 16 + b div 16 < 64 \<and> b mod 16 * 4 < 64" by auto
  ultimately show ?case by (simp add: b64_decode_def byte_split)
qed (auto simp: b64_decode_def)

lemma length_b64_encode: "3 * length (b64_encode bs) \<le> 4 * length bs + 2"
  by (induction bs rule: b64_encode.induct) auto

lemma b64_encode_nonempty: "bs \<noteq> [] \<Longrightarrow> b64_encode bs \<noteq> []"
  by (cases bs rule: b64_encode.cases) auto

text \<open>The items a caller encodes: each has its declared type, numbers are safe integers.\<close>

fun item_typed :: "cursor_type \<Rightarrow> cursor_item \<Rightarrow> bool" where
  "item_typed TString (CStr _) = True"
| "item_typed TNumber (CNum i) = safe_integer i"
| "item_typed _ _ = False"

lemma value_item_typed: "item_typed t i \<Longrightarrow> value_item t (item_value i) = Some i"
  by (cases t; cases i) auto

lemma value_items_typed: "list_all2 item_typed ts is \<Longrightarrow> value_items ts (map item_value is) = Some is"
  by (induction rule: list_all2_induct) (simp_all add: value_item_typed)

text \<open>
  What the cursors rely on: the bytes of a serialized value parse back to it, and it is small enough
  for the length limit of a cursor (6138 bytes give at most 8184 digits).
\<close>

definition cursor_json :: "cursor_env \<Rightarrow> jsval \<Rightarrow> bool" where
  "cursor_json env v \<longleftrightarrow> ce_parse env (ce_json env v) = Some v \<and> list_all (\<lambda>b. b < 256) (ce_json env v)
     \<and> ce_json env v \<noteq> [] \<and> length (ce_json env v) \<le> 6138"

lemma encode_shape:
  assumes "cursor_json env (cursor_value scope b)"
  shows "cursor_shape (encodeReadCursor env scope b)" "length (encodeReadCursor env scope b) \<le> 8192"
proof -
  let ?bs = "ce_json env (cursor_value scope b)"
  from assms show "cursor_shape (encodeReadCursor env scope b)"
    by (simp add: cursor_shape_def encodeReadCursor_def cursor_json_def b64_encode_digits b64_encode_nonempty
        del: not_None_eq)
  from assms length_b64_encode [of ?bs] show "length (encodeReadCursor env scope b) \<le> 8192"
    by (simp add: encodeReadCursor_def cursor_json_def)
qed

lemma decode_encode:
  assumes "cursor_json env (cursor_value scope b)" "list_all2 item_typed ts b"
  shows "decodeReadCursor env (encodeReadCursor env scope b) scope ts = Inr b"
proof -
  from assms have "b64_decode (b64_encode (ce_json env (cursor_value scope b))) = ce_json env (cursor_value scope b)"
    by (intro b64_decode_encode) (simp add: cursor_json_def)
  moreover from assms have "ce_parse env (ce_json env (cursor_value scope b)) = Some (cursor_value scope b)"
    by (simp add: cursor_json_def)
  moreover have "drop 8 (encodeReadCursor env scope b) = b64_encode (ce_json env (cursor_value scope b))"
    by (simp add: encodeReadCursor_def)
  ultimately show ?thesis
    using encode_shape [OF assms(1)] value_items_typed [OF assms(2)]
    by (simp add: decodeReadCursor_def Let_def cursor_value_def)
qed

lemma decode_Inr_scope:
  assumes "decodeReadCursor env cursor scope ts = Inr b"
  obtains v where "ce_parse env (b64_decode (drop 8 cursor)) = Some v" "js_field v ''scope'' = JStr scope"
    "b64_encode (b64_decode (drop 8 cursor)) = drop 8 cursor"
  using assms by (auto simp: decodeReadCursor_def Let_def split: if_splits option.splits jsval.splits)

section \<open>Keyset pagination\<close>

lemma str_less_irrefl [simp]: "\<not> str_less x x"
  by (induction x) auto

lemma str_less_trans: "str_less x y \<Longrightarrow> str_less y z \<Longrightarrow> str_less x z"
proof (induction x y arbitrary: z rule: str_less.induct)
  case (3 x xs y ys)
  then show ?case by (cases z) auto
qed (auto elim: str_less.elims)

lemma str_less_total: "x \<noteq> y \<Longrightarrow> str_less x y \<or> str_less y x"
proof (induction x y rule: str_less.induct)
  case (1 xs)
  then show ?case by (cases xs) auto
next
  case (3 x xs y ys)
  moreover have "x = y \<or> (of_char x :: nat) < of_char y \<or> (of_char y :: nat) < of_char x"
    by (metis char_of_char linorder_neqE_nat)
  ultimately show ?case by auto
qed auto

text \<open>
  The contract of a page query: rows in the strict order of their keys.  Under it, the rows behind
  the last row of a page are exactly the rows that page left out, so no page repeats or skips one.
\<close>

locale keyset =
  fixes key :: "'r \<Rightarrow> 'k" and before :: "'k \<Rightarrow> 'k \<Rightarrow> bool"
  assumes before_irrefl: "\<not> before k k"
    and before_trans: "before j k \<Longrightarrow> before k l \<Longrightarrow> before j l"
    and before_total: "j \<noteq> k \<Longrightarrow> before j k \<or> before k j"
begin

definition ordered :: "'r list \<Rightarrow> bool" where
  "ordered rows \<longleftrightarrow> sorted_wrt (\<lambda>a b. before (key a) (key b)) rows"

lemma behind_last:
  assumes "ordered rows" "0 < n" "n \<le> length rows"
  shows "filter (\<lambda>r. before (key (last (take n rows))) (key r)) rows = drop n rows"
proof -
  let ?l = "last (take n rows)"
  from assms have nonempty: "take n rows \<noteq> []" by auto
  from assms(1) have split: "sorted_wrt (\<lambda>a b. before (key a) (key b)) (take n rows @ drop n rows)"
    by (simp add: ordered_def)
  have "\<not> before (key ?l) (key r)" if "r \<in> set (take n rows)" for r
  proof (cases "r = ?l")
    case False
    have "take n rows = butlast (take n rows) @ [?l]" using nonempty by simp
    with that False split have "before (key r) (key ?l)"
      by (metis (no_types, lifting) Un_iff append_is_Nil_conv empty_iff last_in_set list.set(1) set_ConsD set_append
          sorted_wrt_append list.set_intros(1))
    then show ?thesis using before_irrefl before_trans by blast
  qed (simp add: before_irrefl)
  moreover have "before (key ?l) (key r)" if "r \<in> set (drop n rows)" for r
    using split that last_in_set [OF nonempty] by (simp only: sorted_wrt_append)
  ultimately have "filter (\<lambda>r. before (key ?l) (key r)) (take n rows @ drop n rows) = drop n rows"
    by (simp only: filter_append) (simp add: filter_id_conv filter_empty_conv)
  then show ?thesis by simp
qed

lemma ordered_drop: "ordered rows \<Longrightarrow> ordered (drop n rows)"
  by (simp add: ordered_def sorted_wrt_drop)

lemma linear_upto: "linear_on (\<lambda>j k. \<not> before k j)"
  unfolding linear_on_def by (metis before_irrefl before_trans before_total)

lemma ordered_strict:
  "sorted_wrt (\<lambda>a b. \<not> before (key b) (key a)) rows \<Longrightarrow> distinct (map key rows) \<Longrightarrow> ordered rows"
proof (induction rows)
  case (Cons r rows)
  have "before (key r) (key r')" if "r' \<in> set rows" for r'
    using Cons.prems that before_total [of "key r" "key r'"] by force
  with Cons show ?case by (simp add: ordered_def)
qed (simp add: ordered_def)

abbreviation query :: "('r \<Rightarrow> bool) \<Rightarrow> 'r list \<Rightarrow> 'r list" where
  "query p table \<equiv> sort_by (\<lambda>a b. \<not> before (key b) (key a)) (filter p table)"

lemma distinct_query: "distinct (map key table) \<Longrightarrow> distinct (map key (query p table))"
  by (simp add: distinct_sort_by distinct_map_filter)

lemma ordered_query:
  "distinct (map key table) \<Longrightarrow> ordered (query p table)"
  by (intro ordered_strict sorted_sort_by [OF linear_upto] distinct_query)

text \<open>A filtered query is the filtered result of the query.\<close>

lemma query_filter:
  assumes "distinct (map key table)"
  shows "query (\<lambda>r. q r \<and> p r) table = filter q (query p table)"
proof (rule sorted_key_unique [OF linear_upto])
  show "sorted_wrt (\<lambda>a b. \<not> before (key b) (key a)) (query (\<lambda>r. q r \<and> p r) table)"
    by (rule sorted_sort_by [OF linear_upto])
  show "sorted_wrt (\<lambda>a b. \<not> before (key b) (key a)) (filter q (query p table))"
    by (intro sorted_wrt_filter sorted_sort_by [OF linear_upto])
  show "distinct (map key (query (\<lambda>r. q r \<and> p r) table))" "distinct (map key (filter q (query p table)))"
    using assms by (simp_all only: distinct_query distinct_map_filter)
  show "set (query (\<lambda>r. q r \<and> p r) table) = set (filter q (query p table))"
    by auto
qed

lemma next_rows:
  assumes "distinct (map key table)" "0 < n" "n \<le> length (query p table)"
  shows "query (\<lambda>r. before (key (last (take n (query p table)))) (key r) \<and> p r) table = drop n (query p table)"
  by (simp only: query_filter [OF assms(1)] behind_last [OF ordered_query [OF assms(1)] assms(2,3)])

end

text \<open>The order of the conversation list: newest first, then by descending id.\<close>

definition newer :: "string \<times> string \<Rightarrow> string \<times> string \<Rightarrow> bool" where
  "newer a b \<longleftrightarrow> str_less (fst b) (fst a) \<or> (fst a = fst b \<and> str_less (snd b) (snd a))"

definition conversation_rank :: "cursor_env \<Rightarrow> conversation \<Rightarrow> string \<times> string" where
  "conversation_rank env c = (ce_iso env (cv_updated c), cv_id c)"

interpretation conversations: keyset "conversation_rank env" newer for env
proof unfold_locales
  fix j k l
  show "\<not> newer k k" by (simp add: newer_def)
  show "newer j k \<Longrightarrow> newer k l \<Longrightarrow> newer j l" by (auto simp: newer_def dest: str_less_trans)
  show "j \<noteq> k \<Longrightarrow> newer j k \<or> newer k j"
    using str_less_total by (auto simp: newer_def prod_eq_iff)
qed

lemma str_less_asym: "str_less x y \<Longrightarrow> \<not> str_less y x"
  using str_less_trans str_less_irrefl by blast

lemma compare_newer:
  "compareReadOrder [CStr t, CStr i] [CStr u, CStr j] < 0 \<longleftrightarrow> newer (u, j) (t, i)"
  using str_less_total [of t u] by (auto simp: newer_def dest: str_less_asym)

lemma compare_conversations:
  "compareReadOrder (conversation_key env a) (conversation_key env b) < 0
     \<longleftrightarrow> newer (conversation_rank env b) (conversation_rank env a)"
  by (simp only: conversation_key_def conversation_rank_def compare_newer)

lemma conversation_rows_query:
  "conversation_rows env boundary tenant member s =
     conversations.query env (\<lambda>c. (boundary = None \<or> compareReadOrder (conversation_key env c) (the boundary) < 0) \<and> listed_for tenant member c)
       (st_conversations s)"
  unfolding conversation_rows_def by (simp only: not_less [symmetric] compare_conversations)

text \<open>
  What the list relies on: ids are unique and non-empty, timestamps parse, and the cursor of every
  listed row can be serialized.
\<close>

definition pageable :: "cursor_env \<Rightarrow> string option \<Rightarrow> string option \<Rightarrow> store \<Rightarrow> bool" where
  "pageable env tenant member s \<longleftrightarrow> distinct (map cv_id (st_conversations s))
     \<and> list_all (\<lambda>c. cv_id c \<noteq> [] \<and> ce_date env (ce_iso env (cv_updated c)) \<noteq> None
          \<and> cursor_json env (cursor_value (conversation_scope env tenant member) (conversation_key env c))) (st_conversations s)"

lemma pageable_ranks: "pageable env tenant member s \<Longrightarrow> distinct (map (conversation_rank env) (st_conversations s))"
  by (auto simp: pageable_def distinct_map conversation_rank_def inj_on_def)

lemma cursor_boundary:
  assumes "pageable env tenant member s" "c \<in> set (st_conversations s)"
  shows "page_boundary env (encodeReadCursor env (conversation_scope env tenant member) (conversation_key env c)) tenant member s
    = Inr (conversation_key env c)"
proof -
  let ?cursor = "encodeReadCursor env (conversation_scope env tenant member) (conversation_key env c)"
  from assms have c: "cv_id c \<noteq> []" "ce_date env (ce_iso env (cv_updated c)) \<noteq> None"
    "cursor_json env (cursor_value (conversation_scope env tenant member) (conversation_key env c))"
    by (auto simp: pageable_def list_all_iff)
  have "take 8 ?cursor = ''page_v1.''" by (simp add: encodeReadCursor_def)
  moreover have "decodeReadCursor env ?cursor (conversation_scope env tenant member) [TString, TString] = Inr (conversation_key env c)"
    by (rule decode_encode [OF c(3)]) (simp add: conversation_key_def)
  ultimately show ?thesis using c(1,2) by (simp add: page_boundary_def conversation_key_def)
qed

lemma conversation_rows_after:
  assumes "pageable env tenant member s" "0 < n" "n \<le> length (conversation_rows env None tenant member s)"
  shows "conversation_rows env (Some (conversation_key env (last (take n (conversation_rows env None tenant member s))))) tenant member s
    = drop n (conversation_rows env None tenant member s)"
  using conversations.next_rows [OF pageable_ranks [OF assms(1)] assms(2), of "listed_for tenant member"] assms(3)
  by (simp only: conversation_rows_query compare_conversations simp_thms option.sel option.distinct)

lemma set_conversation_rows:
  "set (conversation_rows env None tenant member s) = {c \<in> set (st_conversations s). listed_for tenant member c}"
  by (auto simp: conversation_rows_def)

lemma page_position:
  assumes "pageable env tenant member s" "n \<le> length R" "R = conversation_rows env None tenant member s"
    "n = 0 \<and> cursor = None \<or> 0 < n \<and>
       cursor = Some (encodeReadCursor env (conversation_scope env tenant member) (conversation_key env (last (take n R))))"
  shows "\<exists>boundary. listConversations env 100 cursor tenant member s = Inr (conversation_page_of env 100 boundary tenant member s)
    \<and> conversation_rows env boundary tenant member s = drop n R"
  using assms(4)
proof
  assume n: "0 < n \<and> cursor = Some (encodeReadCursor env (conversation_scope env tenant member) (conversation_key env (last (take n R))))"
  then have "take n R \<noteq> []" using assms(2) by auto
  then have "last (take n R) \<in> set R" by (meson in_set_takeD last_in_set)
  then have "last (take n R) \<in> set (st_conversations s)" using assms(3) by (simp add: set_conversation_rows)
  from cursor_boundary [OF assms(1) this] conversation_rows_after [OF assms(1), of n] n assms(2,3)
  show ?thesis by (intro exI [of _ "Some (conversation_key env (last (take n R)))"]) (simp add: listConversations_def)
qed (use assms(3) in \<open>intro exI [of _ None], simp add: listConversations_def\<close>)

lemma all_pages_from:
  assumes "pageable env (Some tenant) (Some member) s" "n \<le> length R"
    "R = conversation_rows env None (Some tenant) (Some member) s"
    "n = 0 \<and> cursor = None \<or> 0 < n \<and> cursor = Some (encodeReadCursor env
       (conversation_scope env (Some tenant) (Some member)) (conversation_key env (last (take n R))))"
  shows "all_pages env (Some tenant) member s cursor acc = Some (Inr (acc @ map (\<lambda>c. (c, withScheduleRetry c s)) (drop n R)))"
  using assms(2,4)
proof (induction "length R - n" arbitrary: n cursor acc rule: less_induct)
  case less
  let ?view = "\<lambda>c. (c, withScheduleRetry c s)" and ?rest = "drop n R"
  obtain boundary where page: "listConversations env 100 cursor (Some tenant) (Some member) s =
      Inr (conversation_page_of env 100 boundary (Some tenant) (Some member) s)"
    and rows: "conversation_rows env boundary (Some tenant) (Some member) s = ?rest"
    using page_position [OF assms(1) less.prems(1) assms(3) less.prems(2)] by blast
  show ?case
  proof (cases "length ?rest > 100")
    case False
    then show ?thesis
      by (subst all_pages.simps) (simp add: page conversation_page_of_def rows Let_def)
  next
    case True
    let ?next = "encodeReadCursor env (conversation_scope env (Some tenant) (Some member)) (conversation_key env (last (take (n + 100) R)))"
    have "last (take 100 ?rest) = last (take (n + 100) R)"
      using True by (simp add: take_add)
    moreover have "take 100 ?rest \<noteq> []" using True by auto
    ultimately have "all_pages env (Some tenant) member s cursor acc = all_pages env (Some tenant) member s (Some ?next) (acc @ map ?view (take 100 ?rest))"
      using True by (subst all_pages.simps) (simp add: page conversation_page_of_def rows Let_def encodeReadCursor_def)
    also have "\<dots> = Some (Inr ((acc @ map ?view (take 100 ?rest)) @ map ?view (drop (n + 100) R)))"
      using True by (intro less.hyps) auto
    finally have "all_pages env (Some tenant) member s cursor acc =
      Some (Inr (acc @ map ?view (take 100 ?rest @ drop (n + 100) R)))" by simp
    moreover have "take 100 ?rest @ drop (n + 100) R = ?rest"
      by (metis add.commute append_take_drop_id drop_drop)
    ultimately show ?thesis by simp
  qed
qed

text \<open>(C36) Reading all conversations ends and is complete: for every store whose rows can be paged, the loop over
  the pages of an owner returns, and what it yields is every conversation of that owner exactly once,
  newest first.\<close>

theorem all_conversations_terminates:
  assumes "pageable env (Some tenant) (Some member) s"
  shows "\<exists>items. allConversations env (Some tenant) member s = Some (Inr items)
    \<and> distinct (map (cv_id \<circ> fst) items)
    \<and> set (map fst items) = {c \<in> set (st_conversations s). cv_tenant c = Some tenant \<and> cv_member c = Some member}
    \<and> sorted_wrt (\<lambda>a b. compareReadOrder (conversation_key env (fst b)) (conversation_key env (fst a)) < 0) items"
proof -
  let ?R = "conversation_rows env None (Some tenant) (Some member) s"
  have result: "allConversations env (Some tenant) member s = Some (Inr (map (\<lambda>c. (c, withScheduleRetry c s)) ?R))"
    using all_pages_from [OF assms _ refl, of 0 None "[]"] by (simp add: allConversations_def)
  have "distinct (map cv_id ?R)"
    using assms by (simp add: conversation_rows_def distinct_sort_by distinct_map_filter pageable_def)
  moreover have "sorted_wrt (\<lambda>a b. newer (conversation_rank env a) (conversation_rank env b)) ?R"
    using conversations.ordered_query [OF pageable_ranks [OF assms]]
    by (simp add: conversation_rows_query conversations.ordered_def)
  ultimately show ?thesis
    unfolding result
    by (intro exI [of _ "map (\<lambda>c. (c, withScheduleRetry c s)) ?R"])
      (auto simp: set_conversation_rows listed_for_def image_iff sorted_wrt_map compare_conversations comp_def)
qed

definition demo_row :: "string \<Rightarrow> ms \<Rightarrow> conversation" where
  "demo_row i t = (conversation_row \<lparr> ci_id = i, ci_sessionFile = ''s'', ci_workspace = ''w'', ci_title = None, ci_description = None,
     ci_orchestration = None, ci_kind = None, ci_labels = None, ci_state = None, ci_entry = None, ci_coordinator = None,
     ci_solution = None, ci_tenant = Some ''t'', ci_member = Some ''m'', ci_schedule = None, ci_permission = None,
     ci_lastRead = None, ci_created = None, ci_updated = Some t \<rparr> 0 0)"

definition demo_listed :: store where
  "demo_listed = store_init\<lparr>st_conversations := [demo_row ''a'' 1, demo_row ''b'' 2]\<rparr>"

definition demo_cursor_value :: "string \<Rightarrow> string \<Rightarrow> jsval" where
  "demo_cursor_value t i = cursor_value [] [CStr t, CStr i]"

definition demo_cursors :: cursor_env where
  "demo_cursors = \<lparr> ce_hash = (\<lambda>_. []),
     ce_json = (\<lambda>v. if v = demo_cursor_value ''1'' ''a'' then [1] else [2]),
     ce_parse = (\<lambda>bs. if bs = [1] then Some (demo_cursor_value ''1'' ''a'') else Some (demo_cursor_value ''2'' ''b'')),
     ce_iso = (\<lambda>t. if t = 1 then ''1'' else ''2''), ce_date = (\<lambda>s. Some 0) \<rparr>"

theorem all_conversations_terminates_witness:
  "\<exists>items. allConversations demo_cursors (Some ''t'') ''m'' demo_listed = Some (Inr items)
    \<and> distinct (map (cv_id \<circ> fst) items) \<and> set (map fst items) = {demo_row ''a'' 1, demo_row ''b'' 2}"
proof -
  have "pageable demo_cursors (Some ''t'') (Some ''m'') demo_listed"
    by (simp add: pageable_def demo_listed_def demo_row_def demo_cursors_def demo_cursor_value_def conversation_row_def
        conversation_scope_def readCursorScope_def conversation_key_def cursor_json_def cursor_value_def)
  from all_conversations_terminates [OF this] obtain items where
    "allConversations demo_cursors (Some ''t'') ''m'' demo_listed = Some (Inr items)" "distinct (map (cv_id \<circ> fst) items)"
    "set (map fst items) = {c \<in> set (st_conversations demo_listed). cv_tenant c = Some ''t'' \<and> cv_member c = Some ''m''}" by blast
  moreover have "{c \<in> set (st_conversations demo_listed). cv_tenant c = Some ''t'' \<and> cv_member c = Some ''m''}
    = {demo_row ''a'' 1, demo_row ''b'' 2}"
    by (auto simp: demo_listed_def demo_row_def conversation_row_def)
  ultimately show ?thesis by auto
qed

text \<open>A cursor decodes, in the scope it was issued for, to the boundary it was issued at, and in every other
  scope (another owner, filter or resource) it is refused.\<close>

theorem cursor_roundtrip_scoped:
  assumes "cursor_json env (cursor_value scope b)" "list_all2 item_typed types b"
  shows "decodeReadCursor env (encodeReadCursor env scope b) scope' types
    = (if scope' = scope then Inr b else Inl InvalidReadCursor)"
proof (cases "scope' = scope")
  case False
  let ?bs = "ce_json env (cursor_value scope b)"
  have "drop 8 (encodeReadCursor env scope b) = b64_encode ?bs" by (simp add: encodeReadCursor_def)
  moreover have "b64_decode (b64_encode ?bs) = ?bs" "ce_parse env ?bs = Some (cursor_value scope b)"
    using assms(1) by (simp_all add: cursor_json_def b64_decode_encode)
  ultimately show ?thesis
    using False encode_shape [OF assms(1)] by (simp add: decodeReadCursor_def Let_def cursor_value_def)
qed (simp add: decode_encode [OF assms])

theorem cursor_roundtrip_scoped_witness:
  "decodeReadCursor demo_cursors (encodeReadCursor demo_cursors [] [CStr ''1'', CStr ''a'']) [] [TString, TString]
     = Inr [CStr ''1'', CStr ''a'']
   \<and> decodeReadCursor demo_cursors (encodeReadCursor demo_cursors [] [CStr ''1'', CStr ''a'']) ''x'' [TString, TString]
     = Inl InvalidReadCursor"
proof -
  have "cursor_json demo_cursors (cursor_value [] [CStr ''1'', CStr ''a''])"
    by (simp add: cursor_json_def demo_cursors_def demo_cursor_value_def)
  from cursor_roundtrip_scoped [OF this, of "[TString, TString]"] show ?thesis by simp
qed

end
