(* ===== verification/Transcript.thy ===== *)
theory Transcript
  imports Prelude
begin

text \<open>
  \<open>resetTranscript\<close> of \<open>pi/session-host.ts\<close>: the text of a conversation branch that is sent to the
  Manager when the user starts a new context, cut from the front to a budget of characters and of
  JSON-encoded bytes.  Here a text is its list of UTF-16 code units over the whole 16-bit range,
  because the budget depends on surrogate pairs.
\<close>

type_synonym units = "nat list"

datatype message_part = TextPart units | OtherPart
datatype message_content = PlainContent units | PartsContent "message_part list"
datatype message_role = UserRole | AssistantRole | OtherRole

record session_message =
  sm_role :: message_role
  sm_content :: message_content

definition MAX_CONTEXT_RESET_TRANSCRIPT_CHARS :: nat where
  "MAX_CONTEXT_RESET_TRANSCRIPT_CHARS = 100000"

definition MAX_CONTEXT_RESET_TRANSCRIPT_BYTES :: nat where
  "MAX_CONTEXT_RESET_TRANSCRIPT_BYTES = 200 * 1024"

definition CONTEXT_RESET_TRANSCRIPT_HEADER :: units where
  "CONTEXT_RESET_TRANSCRIPT_HEADER =
     [20197, 19979, 26159, 29992, 25143, 20027, 21160, 24320, 21551, 26032, 19978, 19979, 25991, 21069, 30340,
     23545, 35805, 35760, 24405, 65292, 35831, 25552, 21462, 20540, 24471, 38271, 26399, 35760, 20303, 30340,
     20107, 23454, 12289, 20559, 22909, 21644, 20915, 23450, 12290]"

section \<open>Sizes\<close>

definition high_surrogate :: "nat \<Rightarrow> bool" where
  "high_surrogate u \<longleftrightarrow> 0xd800 \<le> u \<and> u \<le> 0xdbff"

definition low_surrogate :: "nat \<Rightarrow> bool" where
  "low_surrogate u \<longleftrightarrow> 0xdc00 \<le> u \<and> u \<le> 0xdfff"

text \<open>
  The UTF-8 bytes of one unit in the output of \<open>JSON.stringify\<close>: short escapes, \<open>\uXXXX\<close> for the
  other control characters and for a surrogate without its partner.
\<close>

definition unit_bytes :: "nat \<Rightarrow> nat" where
  "unit_bytes u = (if u = 34 \<or> u = 92 \<or> u = 8 \<or> u = 9 \<or> u = 10 \<or> u = 12 \<or> u = 13 then 2
     else if u < 32 then 6 else if u < 128 then 1 else if u < 2048 then 2
     else if high_surrogate u \<or> low_surrogate u then 6 else 3)"

fun json_bytes :: "units \<Rightarrow> nat" where
  "json_bytes [] = 0"
| "json_bytes [u] = unit_bytes u"
| "json_bytes (u # v # r) =
     (if high_surrogate u \<and> low_surrogate v then 4 + json_bytes r else unit_bytes u + json_bytes (v # r))"

definition jsonUtf8Bytes :: "units \<Rightarrow> nat" where
  "jsonUtf8Bytes value = 2 + json_bytes value"

section \<open>The transcript\<close>

text \<open>White space of \<open>String.prototype.trim\<close>.\<close>

definition unit_space :: "nat \<Rightarrow> bool" where
  "unit_space u \<longleftrightarrow> (9 \<le> u \<and> u \<le> 13) \<or> u = 32 \<or> u = 160 \<or> u = 0x1680 \<or> (0x2000 \<le> u \<and> u \<le> 0x200a)
     \<or> u = 0x2028 \<or> u = 0x2029 \<or> u = 0x202f \<or> u = 0x205f \<or> u = 0x3000 \<or> u = 0xfeff"

definition unit_trim :: "units \<Rightarrow> units" where
  "unit_trim s = rev (dropWhile unit_space (rev (dropWhile unit_space s)))"

fun join_units :: "units \<Rightarrow> units list \<Rightarrow> units" where
  "join_units sep [] = []"
| "join_units sep [x] = x"
| "join_units sep (x # y # r) = x @ sep @ join_units sep (y # r)"

fun part_texts :: "message_part list \<Rightarrow> units list" where
  "part_texts [] = []"
| "part_texts (TextPart t # r) = t # part_texts r"
| "part_texts (OtherPart # r) = part_texts r"

definition message_text :: "session_message \<Rightarrow> units" where
  "message_text m = (if sm_role m = OtherRole then []
     else (case sm_content m of PlainContent t \<Rightarrow> t | PartsContent ps \<Rightarrow> join_units [10] (part_texts ps)))"

definition role_label :: "message_role \<Rightarrow> units" where
  "role_label r = (if r = UserRole then [0x7528, 0x6237] else [65, 103, 101, 110, 116])"

definition transcript_line :: "session_message \<Rightarrow> units list" where
  "transcript_line m =
     (let trimmed = unit_trim (message_text m)
      in if trimmed = [] then [] else [role_label (sm_role m) @ [58, 32] @ trimmed])"

definition transcript_body :: "session_message list \<Rightarrow> units" where
  "transcript_body messages = join_units [10, 10] (concat (map transcript_line messages))"

definition transcript_prefix :: units where
  "transcript_prefix = CONTEXT_RESET_TRANSCRIPT_HEADER @ [10, 10]"

definition fits :: "units \<Rightarrow> nat \<Rightarrow> bool" where
  "fits body start =
     (let content = transcript_prefix @ drop start body
      in length content \<le> MAX_CONTEXT_RESET_TRANSCRIPT_CHARS \<and> jsonUtf8Bytes content \<le> MAX_CONTEXT_RESET_TRANSCRIPT_BYTES)"

text \<open>The \<open>while (low < high)\<close> search.\<close>

function search_start :: "(nat \<Rightarrow> bool) \<Rightarrow> nat \<Rightarrow> nat \<Rightarrow> nat" where
  "search_start ok low high =
     (if low < high
      then (let middle = (low + high) div 2
            in if ok middle then search_start ok low middle else search_start ok (middle + 1) high)
      else low)"
  by auto
termination
  by (relation "measure (\<lambda>(_, low, high). high - low)") auto

declare search_start.simps [simp del]

text \<open>\<open>charCodeAt\<close> behind the end is \<open>NaN\<close>, which is in no range.\<close>

definition transcript_start :: "units \<Rightarrow> nat" where
  "transcript_start body =
     (let start = search_start (fits body) 1 (length body)
      in if start < length body \<and> low_surrogate (body ! start) then start + 1 else start)"

definition resetTranscript :: "session_message list \<Rightarrow> units \<times> bool" where
  "resetTranscript messages =
     (let body = transcript_body messages
      in if body = [] then ([], False)
         else if fits body 0 then (transcript_prefix @ body, False)
         else (transcript_prefix @ drop (transcript_start body) body, True))"

section \<open>The search\<close>

text \<open>
  Nothing is assumed of the predicate but its value at the upper end: the result satisfies it.  For
  a predicate that stays true once it is true, the result is the least such position.
\<close>

lemma search_start_ok: "ok high \<Longrightarrow> low \<le> high \<Longrightarrow> ok (search_start ok low high)"
proof (induction ok low high rule: search_start.induct)
  case (1 ok low high)
  show ?case
  proof (cases "low < high")
    case True
    then have "low \<le> (low + high) div 2" "(low + high) div 2 + 1 \<le> high" by auto
    with 1 True show ?thesis by (subst search_start.simps) (simp add: Let_def)
  next
    case False
    with "1.prems" show ?thesis by (subst search_start.simps) simp
  qed
qed

lemma search_start_range: "low \<le> high \<Longrightarrow> low \<le> search_start ok low high \<and> search_start ok low high \<le> high"
proof (induction ok low high rule: search_start.induct)
  case (1 ok low high)
  show ?case
  proof (cases "low < high")
    case True
    then have "low \<le> (low + high) div 2" "(low + high) div 2 + 1 \<le> high" by auto
    with 1 True show ?thesis by (subst (1 2) search_start.simps) (auto simp: Let_def)
  next
    case False
    with "1.prems" show ?thesis by (subst (1 2) search_start.simps) simp
  qed
qed

lemma search_start_least:
  assumes "\<And>i j. ok i \<Longrightarrow> i \<le> j \<Longrightarrow> ok j"
  shows "low \<le> i \<Longrightarrow> i < search_start ok low high \<Longrightarrow> low \<le> high \<Longrightarrow> \<not> ok i"
proof (induction "high - low" arbitrary: low high rule: less_induct)
  case less
  show ?case
  proof (cases "low < high")
    case True
    let ?m = "(low + high) div 2"
    have m: "low \<le> ?m" "?m < high" using True by auto
    show ?thesis
    proof (cases "ok ?m")
      case True
      with less.prems m \<open>low < high\<close> have "i < search_start ok low ?m"
        by (subst (asm) search_start.simps) (simp add: Let_def)
      with less.prems less.hyps [of ?m low] m show ?thesis by auto
    next
      case False
      with less.prems m \<open>low < high\<close> have i: "i < search_start ok (?m + 1) high"
        by (subst (asm) search_start.simps) (simp add: Let_def)
      show ?thesis
      proof (cases "i \<le> ?m")
        case True
        with False assms show ?thesis by blast
      next
        case False
        with i less.hyps [of high "?m + 1"] m show ?thesis by auto
      qed
    qed
  qed (use less.prems in \<open>subst (asm) search_start.simps, simp\<close>)
qed

section \<open>Sizes of suffixes\<close>

lemma json_bytes_append:
  "xs = [] \<or> \<not> high_surrogate (last xs) \<Longrightarrow> json_bytes (xs @ ys) = json_bytes xs + json_bytes ys"
proof (induction xs rule: json_bytes.induct)
  case (2 u)
  then show ?case by (cases ys) auto
qed (auto simp: low_surrogate_def high_surrogate_def split: if_splits)

lemma json_bytes_prefix: "json_bytes (transcript_prefix @ ys) = json_bytes transcript_prefix + json_bytes ys"
  by (rule json_bytes_append) (simp add: transcript_prefix_def high_surrogate_def)

lemma fits_iff:
  "fits body start \<longleftrightarrow> length transcript_prefix + (length body - start) \<le> MAX_CONTEXT_RESET_TRANSCRIPT_CHARS
     \<and> 2 + json_bytes transcript_prefix + json_bytes (drop start body) \<le> MAX_CONTEXT_RESET_TRANSCRIPT_BYTES"
  by (simp add: fits_def Let_def jsonUtf8Bytes_def json_bytes_prefix)

lemma fits_end: "fits body (length body)"
  by (simp add: fits_iff transcript_prefix_def CONTEXT_RESET_TRANSCRIPT_HEADER_def unit_bytes_def high_surrogate_def
      low_surrogate_def MAX_CONTEXT_RESET_TRANSCRIPT_CHARS_def MAX_CONTEXT_RESET_TRANSCRIPT_BYTES_def)

lemma json_bytes_drop_low:
  "low_surrogate u \<Longrightarrow> json_bytes r \<le> json_bytes (u # r)"
  by (cases r) (auto simp: low_surrogate_def high_surrogate_def)

lemma fits_skip_low:
  assumes "fits body start" "start < length body" "low_surrogate (body ! start)"
  shows "fits body (start + 1)"
proof -
  have "drop start body = body ! start # drop (start + 1) body"
    using assms(2) by (simp add: Cons_nth_drop_Suc)
  with json_bytes_drop_low [OF assms(3)] have "json_bytes (drop (start + 1) body) \<le> json_bytes (drop start body)"
    by metis
  moreover have "length body - (start + 1) \<le> length body - start" by simp
  ultimately show ?thesis using assms(1) unfolding fits_iff by linarith
qed

lemma fits_transcript_start: "body \<noteq> [] \<Longrightarrow> fits body (transcript_start body)"
  using search_start_ok [of "fits body" "length body" 1] fits_end [of body] fits_skip_low [of body]
  by (cases body) (simp_all add: transcript_start_def Let_def)

definition surrogate_free :: "units \<Rightarrow> bool" where
  "surrogate_free s \<longleftrightarrow> list_all (\<lambda>u. \<not> high_surrogate u \<and> \<not> low_surrogate u) s"

lemma surrogate_free_shrinks:
  assumes "surrogate_free s" "i \<le> j"
  shows "json_bytes (drop j s) \<le> json_bytes (drop i s)"
proof -
  let ?mid = "take (j - i) (drop i s)"
  have "\<not> high_surrogate u" if "u \<in> set ?mid" for u
    using assms(1) that by (auto simp: surrogate_free_def list_all_iff dest!: in_set_takeD in_set_dropD)
  then have "?mid = [] \<or> \<not> high_surrogate (last ?mid)" using last_in_set by blast
  from json_bytes_append [OF this, of "drop j s"] have "json_bytes (drop j s) \<le> json_bytes (?mid @ drop j s)" by simp
  moreover have "?mid @ drop j s = drop i s"
    by (metis append_take_drop_id assms(2) drop_drop le_add_diff_inverse2)
  ultimately show ?thesis by simp
qed

lemma fits_mono: "surrogate_free body \<Longrightarrow> fits body i \<Longrightarrow> i \<le> j \<Longrightarrow> fits body j"
  using surrogate_free_shrinks [of body i j] by (auto simp: fits_iff)

text \<open>Without that restriction a later start can need more bytes: it splits a pair into a lone surrogate.\<close>

lemma later_start_larger: "jsonUtf8Bytes (drop 0 [0xd83d, 0xde00]) < jsonUtf8Bytes (drop 1 [0xd83d, 0xde00])"
  by (simp add: jsonUtf8Bytes_def unit_bytes_def high_surrogate_def low_surrogate_def)

section \<open>Properties\<close>

text \<open>The transcript of a reset respects both budgets for every conversation: at most 100000 code units and
  200 KiB of JSON; it is empty or the header followed by a suffix of the conversation's text, and the
  whole text unless it is marked as truncated.\<close>

theorem reset_transcript_bounded:
  "case resetTranscript messages of (content, truncated) \<Rightarrow>
     length content \<le> 100000 \<and> jsonUtf8Bytes content \<le> 204800
     \<and> (content = [] \<or> (\<exists>start. content = transcript_prefix @ drop start (transcript_body messages)
          \<and> (truncated \<longleftrightarrow> start \<noteq> 0)))"
proof -
  let ?body = "transcript_body messages"
  have fit: "length (transcript_prefix @ drop k ?body) \<le> 100000 \<and> jsonUtf8Bytes (transcript_prefix @ drop k ?body) \<le> 204800"
    if "fits ?body k" for k
    using that by (simp add: fits_def Let_def MAX_CONTEXT_RESET_TRANSCRIPT_CHARS_def MAX_CONTEXT_RESET_TRANSCRIPT_BYTES_def)
  consider "?body = []" | "?body \<noteq> []" "fits ?body 0" | "?body \<noteq> []" "\<not> fits ?body 0" by blast
  then show ?thesis
  proof cases
    case 1
    then show ?thesis by (simp add: resetTranscript_def jsonUtf8Bytes_def)
  next
    case 2
    then show ?thesis using fit [of 0]
      by (auto simp: resetTranscript_def Let_def intro!: exI [of _ 0])
  next
    case 3
    then have "1 \<le> transcript_start ?body"
      using search_start_range [of 1 "length ?body" "fits ?body"]
      by (cases ?body) (auto simp: transcript_start_def Let_def)
    with 3 show ?thesis using fit [OF fits_transcript_start]
      by (auto simp: resetTranscript_def Let_def intro!: exI [of _ "transcript_start ?body"])
  qed
qed


definition demo_long :: "session_message list" where
  "demo_long = [\<lparr> sm_role = UserRole, sm_content = PlainContent (replicate 100000 65) \<rparr>]"

lemma demo_long_body: "transcript_body demo_long = [0x7528, 0x6237, 58, 32] @ replicate 100000 65"
proof -
  have "unit_trim (replicate 100000 65) = replicate 100000 65"
    by (simp add: unit_trim_def unit_space_def)
  moreover have "replicate 100000 65 \<noteq> ([] :: units)" by simp
  ultimately show ?thesis
    by (simp add: transcript_body_def demo_long_def transcript_line_def message_text_def role_label_def Let_def)
qed


end
