(* ===== verification/Group_Config.thy ===== *)
theory Group_Config
  imports Conversation_Store
begin

text \<open>
  Group conversations: the orchestration rules of \<open>groups/orchestration.ts\<close>, the creation of
  \<open>services/group-creation.ts\<close> up to the start of its participants, and the fan-out of
  \<open>services/group-message-delivery.ts\<close>.  The prompt texts of the coordinator, which are not ASCII, are
  the fields of \<open>context_texts\<close>.
\<close>

datatype orchestration = Auto | Custom string

datatype group_error =
    InvalidOrchestration
  | InvalidReference
  | InvalidConfiguration
  | InvalidMembers
  | InvalidCoordinator
  | ConversationNotFound
  | ConversationExists
  | NoTargets
  | SelfMention

section \<open>Rules\<close>

definition keys_within :: "jsval \<Rightarrow> string list \<Rightarrow> bool" where
  "keys_within v allowed = list_all (\<lambda>k. k \<in> set allowed) (js_keys v)"

definition custom_prompt :: "jsval \<Rightarrow> string option" where
  "custom_prompt v =
     (if js_field v ''mode'' = JStr ''custom'' \<and> js_field v ''format'' = JStr ''collaboration-markdown-v1''
         \<and> keys_within v [''mode'', ''format'', ''prompt'']
      then (case js_field v ''prompt'' of
              JStr p \<Rightarrow> if js_trim p \<noteq> [] \<and> length p \<le> 16000 then Some (js_trim p) else None
            | _ \<Rightarrow> None)
      else None)"

definition parseOrchestration :: "jsval \<Rightarrow> group_error + orchestration" where
  "parseOrchestration v =
     (if is_object v \<and> js_field v ''mode'' = JStr ''auto'' \<and> keys_within v [''mode''] then Inr Auto
      else (case (if is_object v then custom_prompt v else None) of
              Some p \<Rightarrow> Inr (Custom p)
            | None \<Rightarrow> Inl InvalidOrchestration))"

text \<open>\<open>/@\{([^{}\s]+)\}/\<close> at the head of a text: the id and the rest behind the reference.\<close>

definition ref_char :: "char \<Rightarrow> bool" where
  "ref_char c \<longleftrightarrow> c \<noteq> CHR ''{'' \<and> c \<noteq> CHR ''}'' \<and> \<not> js_space c"

fun member_ref :: "string \<Rightarrow> (string \<times> string) option" where
  "member_ref (a # b # r) =
     (if a = CHR ''@'' \<and> b = CHR ''{'' \<and> takeWhile ref_char r \<noteq> []
      then (case dropWhile ref_char r of
              c # rest \<Rightarrow> if c = CHR ''}'' then Some (takeWhile ref_char r, rest) else None
            | [] \<Rightarrow> None)
      else None)"
| "member_ref _ = None"

lemma member_ref_Some: "member_ref s = Some (i, rest) \<Longrightarrow> s = ''@'' @ ''{'' @ i @ ''}'' @ rest \<and> i \<noteq> [] \<and> list_all ref_char i"
proof (induction s rule: member_ref.induct)
  case (1 a b r)
  then have ab: "a = CHR ''@''" "b = CHR ''{''" "takeWhile ref_char r \<noteq> []" "i = takeWhile ref_char r"
    "dropWhile ref_char r = CHR ''}'' # rest"
    by (auto split: if_splits list.splits)
  then have "r = i @ CHR ''}'' # rest" by (metis takeWhile_dropWhile_id)
  moreover have "list_all ref_char i" using ab(4) by (simp add: list_all_iff) (meson set_takeWhileD)
  ultimately show ?case using ab(1-4) by (metis append_Cons append_Nil)
qed auto

lemma member_ref_shorter: "member_ref s = Some (i, rest) \<Longrightarrow> length rest < length s"
  by (drule member_ref_Some) simp

text \<open>\<open>prompt.replace(..., callback)\<close>: the ids the callback sees, in order, and what is left.\<close>

function scan_refs :: "string \<Rightarrow> string list \<times> string" where
  "scan_refs [] = ([], [])"
| "scan_refs (c # r) =
     (case member_ref (c # r) of
        Some (i, rest) \<Rightarrow> (let (ids, left) = scan_refs rest in (i # ids, left))
      | None \<Rightarrow> (let (ids, left) = scan_refs r in (ids, c # left)))"
  by pat_completeness auto
termination
  by (relation "measure length") (auto dest: member_ref_shorter)

fun includes_open :: "string \<Rightarrow> bool" where
  "includes_open (a # b # r) = ((a = CHR ''@'' \<and> b = CHR ''{'') \<or> includes_open (b # r))"
| "includes_open _ = False"

definition validateMemberReferences :: "string \<Rightarrow> string list \<Rightarrow> group_error option" where
  "validateMemberReferences prompt members =
     (let (ids, left) = scan_refs prompt
      in if \<not> list_all (\<lambda>i. i \<in> set members) ids then Some InvalidReference
         else if includes_open left then Some InvalidReference else None)"

text \<open>The roster of a request: an array of distinct non-blank strings within the limit.\<close>

fun roster_ids :: "jsval list \<Rightarrow> string list option" where
  "roster_ids [] = Some []"
| "roster_ids (JStr i # r) = (case roster_ids r of None \<Rightarrow> None | Some is \<Rightarrow> Some (i # is))"
| "roster_ids _ = None"

definition checked_roster :: "nat \<Rightarrow> (string \<Rightarrow> bool) \<Rightarrow> jsval \<Rightarrow> group_error + string list" where
  "checked_roster limit ok v =
     (case v of
        JArr vs \<Rightarrow>
          (case roster_ids vs of
             Some members \<Rightarrow>
               if 1 \<le> length vs \<and> length vs \<le> limit \<and> list_all (\<lambda>i. js_trim i \<noteq> [] \<and> ok i) members \<and> distinct members
               then Inr members else Inl InvalidMembers
           | None \<Rightarrow> Inl InvalidMembers)
      | _ \<Rightarrow> Inl InvalidMembers)"

record group_input =
  gi_title :: string
  gi_description :: "string option"
  gi_members :: jsval
  gi_coordinator :: string
  gi_orchestration :: jsval

definition description_length :: "string option \<Rightarrow> nat" where
  "description_length d = (case d of None \<Rightarrow> 0 | Some s \<Rightarrow> length s)"

definition validateCustomGroup :: "group_input \<Rightarrow> group_error + orchestration" where
  "validateCustomGroup g =
     (if js_trim (gi_title g) = [] \<or> length (gi_title g) > 200 \<or> description_length (gi_description g) > 4000
      then Inl InvalidConfiguration
      else (case checked_roster 32 (list_all ref_char) (gi_members g) of
        Inl e \<Rightarrow> Inl e
      | Inr members \<Rightarrow>
          if gi_coordinator g \<notin> set members then Inl InvalidCoordinator
          else (case parseOrchestration (gi_orchestration g) of
            Inl e \<Rightarrow> Inl e
          | Inr Auto \<Rightarrow>
              if js_trim (nullish (gi_description g) []) = [] then Inl InvalidOrchestration else Inr Auto
          | Inr (Custom p) \<Rightarrow>
              (case validateMemberReferences p members of Some e \<Rightarrow> Inl e | None \<Rightarrow> Inr (Custom p)))))"

definition validateFreeGroup :: "string option \<Rightarrow> jsval \<Rightarrow> string \<Rightarrow> nat \<Rightarrow> group_error option" where
  "validateFreeGroup description members coordinator previous =
     (if description_length description > 4000 then Some InvalidConfiguration
      else (case checked_roster (max 32 previous) (\<lambda>_. True) members of
        Inl e \<Rightarrow> Some e
      | Inr ids \<Rightarrow> if coordinator \<notin> set ids then Some InvalidCoordinator else None))"

record context_texts =
  cx_member :: string
  cx_auto :: string
  cx_purpose :: string
  cx_custom :: string
  cx_rules :: string
  cx_coordinator :: string

definition orchestrationContext :: "context_texts \<Rightarrow> orchestration \<Rightarrow> string option \<Rightarrow> bool \<Rightarrow> string" where
  "orchestrationContext tx rule description coordinator =
     (if \<not> coordinator then cx_member tx
      else cx_rules tx @ [char_of (10 :: nat)]
        @ (case rule of
             Auto \<Rightarrow> cx_auto tx @ [char_of (10 :: nat)] @ cx_purpose tx @ [char_of (10 :: nat)] @ nullish description []
           | Custom p \<Rightarrow> cx_custom tx @ [char_of (10 :: nat)] @ p)
        @ [char_of (10 :: nat)] @ cx_coordinator tx)"

section \<open>Creation\<close>

definition assertAvailable :: "string \<Rightarrow> string \<Rightarrow> string \<Rightarrow> store \<Rightarrow> group_error option" where
  "assertAvailable i tenant member s =
     (case getConversation i s of
        None \<Rightarrow> None
      | Some existing \<Rightarrow>
          if cv_tenant existing = Some tenant \<and> cv_member existing = Some member then Some ConversationExists
          else Some ConversationNotFound)"

record resolved_group =
  rg_id :: string
  rg_title :: "string option"
  rg_labels :: "string list"
  rg_description :: "string option"
  rg_orchestration :: "jsval option"
  rg_coordinator :: string
  rg_solution :: "string option"
  rg_schedule :: "jsval option"
  rg_permission :: permission_mode
  rg_tenant :: string
  rg_member :: string
  rg_participants :: "(string \<times> string) list"

text \<open>The record of the group; \<open>sessionFile\<close> and \<open>workspace\<close> are not given and become empty.\<close>

definition group_conversation :: "resolved_group \<Rightarrow> conversation_input" where
  "group_conversation g =
     \<lparr> ci_id = rg_id g, ci_sessionFile = [], ci_workspace = [], ci_title = rg_title g, ci_description = rg_description g,
       ci_orchestration = rg_orchestration g, ci_kind = Some ''group'', ci_labels = Some (rg_labels g), ci_state = Some Active,
       ci_entry = None, ci_coordinator = Some (rg_coordinator g), ci_solution = rg_solution g, ci_tenant = Some (rg_tenant g),
       ci_member = Some (rg_member g), ci_schedule = rg_schedule g, ci_permission = Some (rg_permission g), ci_lastRead = None,
       ci_created = None, ci_updated = None \<rparr>"

text \<open>\<open>create\<close> up to its first \<open>await\<close>.\<close>

definition group_create :: "resolved_group \<Rightarrow> ms \<Rightarrow> store \<Rightarrow> group_error + store" where
  "group_create g now s =
     (case assertAvailable (rg_id g) (rg_tenant g) (rg_member g) s of
        Some e \<Rightarrow> Inl e
      | None \<Rightarrow> Inr (createGroupConversation (group_conversation g) (rg_participants g) now s))"

section \<open>Delivery\<close>

datatype message_source = Human string | Employee string

text \<open>\<open>deliver\<close> up to the fan-out: the employees the message goes to, each once.\<close>

definition delivery_targets :: "message_source \<Rightarrow> string list \<Rightarrow> group_error + string list" where
  "delivery_targets source ids =
     (let targets = js_unique ids
      in if targets = [] then Inl NoTargets
         else if (case source of Employee i \<Rightarrow> i \<in> set targets | Human _ \<Rightarrow> False) then Inl SelfMention
         else Inr targets)"

text \<open>
  \<open>Promise.all\<close> over the targets: all replies in the order of the targets, or the failure of one of
  them; which one is the order in which the promises reject, the argument \<open>order\<close>.
\<close>

definition deliver ::
  "(string \<Rightarrow> 'e + 'r) \<Rightarrow> (string list \<Rightarrow> string list) \<Rightarrow> message_source \<Rightarrow> string list \<Rightarrow> (group_error + 'e) + 'r list" where
  "deliver reply order source ids =
     (case delivery_targets source ids of
        Inl e \<Rightarrow> Inl (Inl e)
      | Inr targets \<Rightarrow>
          (case find (\<lambda>i. \<exists>e. reply i = Inl e) (order targets) of
             Some i \<Rightarrow> (case reply i of Inl e \<Rightarrow> Inl (Inr e) | Inr _ \<Rightarrow> Inr [])
           | None \<Rightarrow> Inr (map (\<lambda>i. projr (reply i)) targets)))"

section \<open>Facts\<close>

text \<open>An opening of a reference behind a reference lies in the text behind it: ids hold no brace.\<close>

lemma open_behind_ref:
  "CHR ''{'' \<notin> set w \<Longrightarrow> w @ CHR ''}'' # rest = pre @ ''@'' @ ''{'' @ post \<Longrightarrow> \<exists>pre'. rest = pre' @ ''@'' @ ''{'' @ post"
proof (induction w arbitrary: pre)
  case Nil
  then show ?case by (cases pre) auto
next
  case (Cons c w)
  then show ?case
  proof (cases pre)
    case Nil
    with Cons.prems show ?thesis by (cases w) auto
  next
    case (Cons d pre')
    with Cons.IH [of pre'] Cons.prems show ?thesis by auto
  qed
qed

lemma scan_refs_covers:
  "scan_refs s = (ids, left) \<Longrightarrow> \<not> includes_open left \<Longrightarrow> s = pre @ ''@'' @ ''{'' @ post
     \<Longrightarrow> \<exists>i rest. i \<in> set ids \<and> post = i @ ''}'' @ rest"
proof (induction s arbitrary: ids left pre rule: scan_refs.induct)
  case (2 c r)
  show ?case
  proof (cases "member_ref (c # r)")
    case None
    with "2.prems"(1) obtain left' where left: "scan_refs r = (ids, left')" "left = c # left'"
      by (auto split: prod.splits)
    then have no: "\<not> includes_open left'" using "2.prems"(2) by (cases left') auto
    show ?thesis
    proof (cases pre)
      case Nil
      with "2.prems"(3) have "c = CHR ''@''" "r = CHR ''{'' # post" by auto
      moreover have "member_ref (CHR ''{'' # post) = None" by (cases post) auto
      ultimately have "includes_open left" using left by (auto split: prod.splits)
      with "2.prems"(2) show ?thesis by simp
    next
      case (Cons d pre')
      with "2.prems"(3) have "r = pre' @ ''@'' @ ''{'' @ post" by simp
      from "2.IH"(1) [OF None left(1) no this] show ?thesis .
    qed
  next
    case (Some ir)
    then obtain i rest where m: "member_ref (c # r) = Some (i, rest)" by (cases ir) auto
    from member_ref_Some [OF this] have s: "c # r = ''@'' @ ''{'' @ i @ ''}'' @ rest" and i: "CHR ''{'' \<notin> set i"
      by (auto simp: list_all_iff ref_char_def)
    from m "2.prems"(1) obtain ids' where ids: "scan_refs rest = (ids', left)" "ids = i # ids'"
      by (auto split: prod.splits)
    show ?thesis
    proof (cases pre)
      case Nil
      with s "2.prems"(3) have "post = i @ ''}'' @ rest" by auto
      with ids(2) show ?thesis by auto
    next
      case (Cons d pre')
      with s "2.prems"(3) have "CHR ''{'' # i @ CHR ''}'' # rest = pre' @ ''@'' @ ''{'' @ post" by auto
      then obtain q where "i @ CHR ''}'' # rest = q @ ''@'' @ ''{'' @ post" by (cases pre') auto
      from open_behind_ref [OF i this] obtain q' where "rest = q' @ ''@'' @ ''{'' @ post" by blast
      from "2.IH"(2) [OF m refl ids(1) "2.prems"(2) this] ids(2) show ?thesis by auto
    qed
  qed
qed auto

lemma roster_ids_Some: "roster_ids vs = Some is \<Longrightarrow> vs = map JStr is"
  by (induction vs arbitrary: "is" rule: roster_ids.induct) (auto split: option.splits)

lemma checked_roster_Inr:
  "checked_roster limit ok v = Inr members \<Longrightarrow> v = JArr (map JStr members) \<and> distinct members
     \<and> 1 \<le> length members \<and> length members \<le> limit"
  by (auto simp: checked_roster_def dest!: roster_ids_Some split: jsval.splits option.splits if_splits)

section \<open>Properties\<close>

text \<open>An accepted custom rule refers to members only: the roster of the group has 1 to 32 distinct employees with
  the coordinator among them, and every at sign with an opening brace in the rule, wherever it stands, is the reference
  of one of them.\<close>

theorem accepted_rule_names_members:
  assumes "validateCustomGroup g = Inr (Custom p)" "p = pre @ ''@'' @ ''{'' @ post"
  shows "\<exists>members i rest. gi_members g = JArr (map JStr members) \<and> distinct members \<and> length members \<in> {1..32}
    \<and> gi_coordinator g \<in> set members \<and> i \<in> set members \<and> post = i @ ''}'' @ rest"
proof -
  from assms(1) obtain members where roster: "checked_roster 32 (list_all ref_char) (gi_members g) = Inr members"
    and coord: "gi_coordinator g \<in> set members" and refs: "validateMemberReferences p members = None"
    by (auto simp: validateCustomGroup_def split: if_splits sum.splits orchestration.splits option.splits)
  from refs obtain ids left where scan: "scan_refs p = (ids, left)" "set ids \<subseteq> set members" "\<not> includes_open left"
    by (auto simp: validateMemberReferences_def list_all_iff split: prod.splits if_splits)
  from scan_refs_covers [OF scan(1,3) assms(2)] obtain i rest where "i \<in> set ids" "post = i @ ''}'' @ rest" by blast
  with scan(2) coord checked_roster_Inr [OF roster] show ?thesis by auto
qed

definition demo_group :: group_input where
  "demo_group = \<lparr> gi_title = ''Team'', gi_description = None, gi_members = JArr [JStr ''ann'', JStr ''bob''], gi_coordinator = ''ann'',
     gi_orchestration = JObj [(''mode'', JStr ''custom''), (''format'', JStr ''collaboration-markdown-v1''), (''prompt'', JStr (''ask @'' @ ''{bob}''))] \<rparr>"

theorem accepted_rule_names_members_witness:
  "\<exists>members i rest. gi_members demo_group = JArr (map JStr members) \<and> distinct members \<and> length members \<in> {1..32}
    \<and> gi_coordinator demo_group \<in> set members \<and> i \<in> set members \<and> ''bob}'' = i @ ''}'' @ rest"
proof -
  have "validateCustomGroup demo_group = Inr (Custom (''ask @'' @ ''{bob}''))" by code_simp
  from accepted_rule_names_members [OF this, of "''ask ''" "''bob}''"] show ?thesis by simp
qed

end
