(* ===== verification/Session_Entries.thy ===== *)
theory Session_Entries
  imports Work_Records
begin

text \<open>
  What the service reads from the entries of an agent session: the historical segments of
  \<open>pi/work-history.ts\<close>, and the user-visible checklist of \<open>tools/todo.ts\<close>, \<open>pi/todo-reconcile.ts\<close> and
  \<open>pi/todo-reminder.ts\<close>.  \<open>Date.parse\<close>, the range check of \<open>Date\<close> and the two replacement texts of
  the redaction are the fields of \<open>entry_env\<close>.
\<close>

record entry_env =
  en_parse :: "string \<Rightarrow> ms option"
  en_dateOk :: "int \<Rightarrow> bool"
  en_hidden :: string
  en_pathHidden :: string

datatype entry_kind = MessageEntry | CustomMessage string | OtherEntry

record work_entry =
  se_id :: string
  se_kind :: entry_kind
  se_role :: string
  se_toolName :: "string option"
  se_isError :: bool
  se_details :: jsval
  se_stopReason :: "string option"
  se_timestamp :: jsval

section \<open>Historical work\<close>

definition observedWorkOutcome :: "string option \<Rightarrow> bool \<Rightarrow> bool \<Rightarrow> bool \<Rightarrow> work_outcome" where
  "observedWorkOutcome stopReason settled aborted failed =
     (if aborted \<or> stopReason = Some ''aborted'' then WAborted
      else if failed \<or> stopReason = Some ''error'' then WError
      else if settled \<and> (stopReason = Some ''stop'' \<or> stopReason = Some ''length'') then WSucceeded
      else WUnknown)"

definition is_message :: "string \<Rightarrow> work_entry \<Rightarrow> bool" where
  "is_message role e \<longleftrightarrow> se_kind e = MessageEntry \<and> se_role e = role"

definition lastAssistantStopReason :: "work_entry list \<Rightarrow> string option" where
  "lastAssistantStopReason entries =
     (case find (is_message ''assistant'') (rev entries) of None \<Rightarrow> None | Some e \<Rightarrow> se_stopReason e)"

definition workEntryTime :: "entry_env \<Rightarrow> work_entry option \<Rightarrow> ms option" where
  "workEntryTime env entry =
     (case entry of
        None \<Rightarrow> None
      | Some e \<Rightarrow>
          (case se_timestamp e of
             JStr s \<Rightarrow> en_parse env s
           | v \<Rightarrow> (case js_integer v of
                    Some i \<Rightarrow> if \<bar>i\<bar> \<le> 9007199254740991 \<and> en_dateOk env i then Some i else None
                  | None \<Rightarrow> None)))"

text \<open>The loop that collects the starts: every user message, and a leading assistant message.\<close>

fun segment_starts :: "nat \<Rightarrow> nat list \<Rightarrow> work_entry list \<Rightarrow> nat list" where
  "segment_starts ordinal starts [] = starts"
| "segment_starts ordinal starts (e # es) =
     segment_starts (ordinal + 1)
       (if is_message ''user'' e \<or> (starts = [] \<and> is_message ''assistant'' e) then starts @ [ordinal] else starts) es"

fun segment_ranges :: "nat \<Rightarrow> nat list \<Rightarrow> (nat \<times> nat) list" where
  "segment_ranges until [] = []"
| "segment_ranges until [s] = [(s, until)]"
| "segment_ranges until (s # t # r) = (s, t) # segment_ranges until (t # r)"

definition historicalWorkSegments :: "work_entry list \<Rightarrow> (nat \<times> nat) list" where
  "historicalWorkSegments entries = segment_ranges (length entries) (segment_starts 0 [] entries)"

text \<open>The segments \<open>WorkRecordReadService.backfill\<close> imports for a session.\<close>

definition backfill_segment :: "entry_env \<Rightarrow> work_entry list \<Rightarrow> nat \<times> nat \<Rightarrow> history_segment" where
  "backfill_segment env entries bounds =
     (let part = take (snd bounds - fst bounds) (drop (fst bounds) entries)
      in \<lparr> hs_startOrdinal = int (fst bounds), hs_endOrdinal = int (snd bounds), hs_firstEntry = se_id (hd part),
           hs_lastEntry = se_id (last part), hs_firstAt = workEntryTime env (Some (hd part)),
           hs_lastAt = workEntryTime env (Some (last part)),
           hs_outcome = observedWorkOutcome (lastAssistantStopReason part) True False False \<rparr>)"

definition backfill_segments :: "entry_env \<Rightarrow> work_entry list \<Rightarrow> history_segment list" where
  "backfill_segments env entries = map (backfill_segment env entries) (historicalWorkSegments entries)"

section \<open>Checklists\<close>

datatype todo_status = TodoPending | TodoInProgress | TodoCompleted

record todo_item =
  td_id :: string
  td_title :: string
  td_status :: todo_status

datatype todo_error =
    TodoTooMany | TodoNotObject | TodoUnsupportedField | TodoBadId | TodoBadTitle | TodoBadStatus | TodoDuplicateId

definition MAX_TODO_ITEMS :: nat where "MAX_TODO_ITEMS = 32"
definition MAX_TODO_ID_CHARS :: nat where "MAX_TODO_ID_CHARS = 128"
definition MAX_TODO_TITLE_CHARS :: nat where "MAX_TODO_TITLE_CHARS = 500"

definition secret_char :: "char \<Rightarrow> bool" where
  "secret_char c \<longleftrightarrow> is_alnum c \<or> c \<in> set ''._~+/=-''"

definition INLINE_SECRET :: regex where
  "INLINE_SECRET = Alt
     (Seq (alts [Seq (lit_i ''bearer'') (plus (Cls js_space)), Seq (lit_i ''basic'') (plus (Cls js_space)),
                 Seq (alts [lit_i ''sk'', lit_i ''pk'', lit_i ''rk'']) (chr (CHR ''-''))])
          (plus (Cls secret_char)))
     (seqs [alts [lit_i ''token'', lit_i ''secret'', lit_i ''password'',
                  seqs [lit_i ''api'', opt (Cls (char_in '' _-'')), lit_i ''key'']],
            Star (Cls js_space), Cls (char_in '':=''), Star (Cls js_space), plus (Cls (\<lambda>c. \<not> js_space c \<and> c \<notin> set '',;''))])"

definition inline_path_char :: "char \<Rightarrow> bool" where
  "inline_path_char c \<longleftrightarrow> \<not> js_space c \<and> c \<notin> set [CHR 0x22, CHR 0x27, CHR ''<'', CHR ''>'']"

definition INLINE_PATH :: regex where
  "INLINE_PATH = Alt
     (seqs [chr (CHR ''/''),
        alts (map lit_i [''Users'', ''private'', ''home'', ''tmp'', ''var'', ''workspace'', ''etc'', ''root'']),
        Star (Seq (chr (CHR ''/'')) (Star (Cls inline_path_char)))])
     (seqs [Cls (\<lambda>c. is_alnum c \<and> \<not> is_digit c), chr (CHR '':''), chr (CHR 0x5C), Star (Cls inline_path_char)])"

definition redact_title :: "entry_env \<Rightarrow> string \<Rightarrow> string" where
  "redact_title env title =
     regex_replace_all INLINE_PATH (en_pathHidden env) (regex_replace_all INLINE_SECRET (en_hidden env) title)"

fun todo_status_of :: "jsval \<Rightarrow> todo_status option" where
  "todo_status_of (JStr s) =
     (if s = ''pending'' then Some TodoPending else if s = ''in_progress'' then Some TodoInProgress
      else if s = ''completed'' then Some TodoCompleted else None)"
| "todo_status_of _ = None"

definition todo_id :: "jsval \<Rightarrow> string option" where
  "todo_id raw = (case js_field raw ''id'' of
     JStr i \<Rightarrow> if i = [] \<or> length i > MAX_TODO_ID_CHARS \<or> CHR ''/'' \<in> set i \<or> CHR 0x5C \<in> set i then None else Some i
   | _ \<Rightarrow> None)"

definition todo_title :: "jsval \<Rightarrow> string option" where
  "todo_title raw = (case js_field raw ''title'' of
     JStr t \<Rightarrow> if js_trim t = [] \<or> length t > MAX_TODO_TITLE_CHARS then None else Some t
   | _ \<Rightarrow> None)"

definition normalize_item :: "entry_env \<Rightarrow> string list \<Rightarrow> jsval \<Rightarrow> todo_error + todo_item" where
  "normalize_item env ids raw =
     (if \<not> is_object raw then Inl TodoNotObject
      else if \<not> list_all (\<lambda>k. k \<in> {''id'', ''title'', ''status''}) (js_keys raw) then Inl TodoUnsupportedField
      else (case (todo_id raw, todo_title raw, todo_status_of (js_field raw ''status'')) of
              (None, _, _) \<Rightarrow> Inl TodoBadId
            | (Some _, None, _) \<Rightarrow> Inl TodoBadTitle
            | (Some _, Some _, None) \<Rightarrow> Inl TodoBadStatus
            | (Some i, Some t, Some st) \<Rightarrow>
                if i \<in> set ids then Inl TodoDuplicateId
                else Inr \<lparr> td_id = i, td_title = redact_title env t, td_status = st \<rparr>))"

text \<open>The \<open>map\<close> with the set of ids seen so far; the first failing item throws.\<close>

fun normalize_items :: "entry_env \<Rightarrow> string list \<Rightarrow> jsval list \<Rightarrow> todo_error + todo_item list" where
  "normalize_items env ids [] = Inr []"
| "normalize_items env ids (v # vs) =
     (case normalize_item env ids v of
        Inl e \<Rightarrow> Inl e
      | Inr item \<Rightarrow>
          (case normalize_items env (td_id item # ids) vs of Inl e \<Rightarrow> Inl e | Inr items \<Rightarrow> Inr (item # items)))"

definition normalizeTodoItems :: "entry_env \<Rightarrow> jsval \<Rightarrow> todo_error + todo_item list" where
  "normalizeTodoItems env v =
     (case v of
        JArr vs \<Rightarrow> if length vs > MAX_TODO_ITEMS then Inl TodoTooMany else normalize_items env [] vs
      | _ \<Rightarrow> Inl TodoTooMany)"

text \<open>The newest successful \<open>todo_update\<close>; the statuses of its items are all that is read of them.\<close>

fun array_items :: "jsval \<Rightarrow> jsval list option" where
  "array_items (JArr vs) = Some vs"
| "array_items _ = None"

definition entry_items :: "work_entry \<Rightarrow> jsval list option" where
  "entry_items e =
     (if is_message ''toolResult'' e \<and> se_toolName e = Some ''todo_update'' \<and> \<not> se_isError e
      then array_items (js_field (se_details e) ''items'') else None)"

fun first_items :: "work_entry list \<Rightarrow> jsval list option" where
  "first_items [] = None"
| "first_items (e # es) = (case entry_items e of Some items \<Rightarrow> Some items | None \<Rightarrow> first_items es)"

definition latestChecklist :: "work_entry list \<Rightarrow> jsval list option" where
  "latestChecklist entries = first_items (rev entries)"

definition item_completed :: "jsval \<Rightarrow> bool" where
  "item_completed v \<longleftrightarrow> js_field v ''status'' = JStr ''completed''"

definition checklistUnfinished :: "work_entry list \<Rightarrow> bool" where
  "checklistUnfinished entries =
     (case latestChecklist entries of None \<Rightarrow> False | Some items \<Rightarrow> \<not> list_all item_completed items)"

fun reconcile_positions :: "nat \<Rightarrow> bool \<Rightarrow> work_entry list \<Rightarrow> nat list" where
  "reconcile_positions index inside [] = []"
| "reconcile_positions index inside (e # es) =
     (if se_kind e = CustomMessage ''todo_reconcile'' then reconcile_positions (index + 1) True es
      else if is_message ''user'' e then reconcile_positions (index + 1) False es
      else if inside then index # reconcile_positions (index + 1) inside es
      else reconcile_positions (index + 1) inside es)"

definition reconcileEntryPositions :: "work_entry list \<Rightarrow> nat list" where
  "reconcileEntryPositions entries = reconcile_positions 0 False entries"

section \<open>Reminders\<close>

definition TODO_REMINDER_AFTER_TOOL_CALLS :: nat where
  "TODO_REMINDER_AFTER_TOOL_CALLS = 8"

record agent_message =
  am_role :: string
  am_toolName :: "string option"
  am_isError :: bool
  am_details :: jsval
  am_content :: "string list"

definition checklistItems :: "agent_message \<Rightarrow> jsval list option" where
  "checklistItems m =
     (if am_role m \<noteq> ''toolResult'' \<or> am_toolName m \<noteq> Some ''todo_update'' \<or> am_isError m then None
      else array_items (js_field (am_details m) ''items''))"

text \<open>The loop from the newest message; true when a reminder is due.\<close>

fun reminder_due :: "nat \<Rightarrow> agent_message list \<Rightarrow> bool" where
  "reminder_due toolCalls [] = False"
| "reminder_due toolCalls (m # older) =
     (if am_role m = ''user'' \<or> am_role m = ''custom'' then False
      else if am_role m \<noteq> ''toolResult'' then reminder_due toolCalls older
      else (case checklistItems m of
              None \<Rightarrow> reminder_due (toolCalls + 1) older
            | Some items \<Rightarrow> \<not> (toolCalls < TODO_REMINDER_AFTER_TOOL_CALLS \<or> list_all item_completed items)))"

definition withTodoReminder :: "string \<Rightarrow> agent_message list \<Rightarrow> agent_message list option" where
  "withTodoReminder reminder messages =
     (if messages = [] \<or> am_role (last messages) \<noteq> ''toolResult'' then None
      else if reminder_due 0 (rev messages)
      then Some (butlast messages @ [(last messages)\<lparr>am_content := am_content (last messages) @ [reminder]\<rparr>])
      else None)"

fun string_items :: "jsval list \<Rightarrow> string list" where
  "string_items [] = []"
| "string_items (JStr s # r) = s # string_items r"
| "string_items (_ # r) = string_items r"

definition todoUpdateAllowed :: "jsval \<Rightarrow> bool" where
  "todoUpdateAllowed toolPolicy =
     (let names = (case array_items (js_field toolPolicy ''allowed_tools'') of None \<Rightarrow> [] | Some vs \<Rightarrow> string_items vs)
      in names = [] \<or> ''todo_update'' \<in> set names)"

section \<open>Facts\<close>

lemma normalize_item_Inr:
  assumes "normalize_item env ids raw = Inr item"
  shows "td_id item \<notin> set ids \<and> td_id item \<noteq> [] \<and> length (td_id item) \<le> MAX_TODO_ID_CHARS \<and> CHR ''/'' \<notin> set (td_id item)
    \<and> js_field raw ''id'' = JStr (td_id item) \<and> todo_status_of (js_field raw ''status'') = Some (td_status item)
    \<and> (\<exists>t. js_field raw ''title'' = JStr t \<and> length t \<le> MAX_TODO_TITLE_CHARS \<and> td_title item = redact_title env t)"
  using assms
  by (auto simp: normalize_item_def todo_id_def todo_title_def split: if_splits option.splits jsval.splits)

lemma normalize_items_ids:
  "normalize_items env ids vs = Inr items \<Longrightarrow> distinct (map td_id items) \<and> set (map td_id items) \<inter> set ids = {}
     \<and> length items = length vs \<and> map (\<lambda>v. js_field v ''id'') vs = map (JStr \<circ> td_id) items"
proof (induction vs arbitrary: ids items)
  case (Cons v vs)
  then obtain item rest where parts: "normalize_item env ids v = Inr item"
    "normalize_items env (td_id item # ids) vs = Inr rest" "items = item # rest"
    by (auto split: sum.splits)
  with Cons.IH [OF parts(2)] normalize_item_Inr [OF parts(1)] show ?case by auto
qed simp

text \<open>The starts are increasing, inside the session, and delimit a partition of the entries behind the first.\<close>

definition opens_work :: "work_entry \<Rightarrow> bool" where
  "opens_work e \<longleftrightarrow> is_message ''user'' e \<or> is_message ''assistant'' e"

lemma segment_starts_sorted:
  "sorted_wrt (<) starts \<Longrightarrow> list_all (\<lambda>i. i < n) starts \<Longrightarrow>
     sorted_wrt (<) (segment_starts n starts es) \<and> list_all (\<lambda>i. i < n + length es) (segment_starts n starts es)"
proof (induction es arbitrary: n starts)
  case Nil
  then show ?case by (auto simp: list_all_iff)
next
  case (Cons e es)
  let ?starts = "if is_message ''user'' e \<or> (starts = [] \<and> is_message ''assistant'' e) then starts @ [n] else starts"
  have "sorted_wrt (<) ?starts" "list_all (\<lambda>i. i < n + 1) ?starts"
    using Cons.prems by (auto simp: sorted_wrt_append list_all_iff less_SucI)
  from Cons.IH [OF this] show ?case by simp
qed

lemma segment_starts_keep: "starts \<noteq> [] \<Longrightarrow> \<exists>more. segment_starts n starts es = starts @ more"
proof (induction es arbitrary: n starts)
  case (Cons e es)
  show ?case
  proof (cases "is_message ''user'' e")
    case True
    then show ?thesis using Cons.IH [of "starts @ [n]" "n + 1"] by auto
  next
    case False
    with Cons show ?thesis by simp
  qed
qed simp

lemma segment_starts_first:
  "segment_starts n [] es = (if list_all (\<lambda>e. \<not> opens_work e) es then []
     else segment_starts (n + length (takeWhile (\<lambda>e. \<not> opens_work e) es) + 1) [n + length (takeWhile (\<lambda>e. \<not> opens_work e) es)]
       (drop (length (takeWhile (\<lambda>e. \<not> opens_work e) es) + 1) es))"
  by (induction es arbitrary: n) (auto simp: opens_work_def)

lemma segment_ranges_cover:
  "starts \<noteq> [] \<Longrightarrow> sorted_wrt (<) starts \<Longrightarrow> list_all (\<lambda>i. i < until) starts \<Longrightarrow>
     concat (map (\<lambda>(a, b). [a..<b]) (segment_ranges until starts)) = [hd starts..<until]
     \<and> list_all (\<lambda>(a, b). a < b) (segment_ranges until starts)"
proof (induction until starts rule: segment_ranges.induct)
  case (3 until s t r)
  then have "s \<le> t" "t \<le> until" by auto
  then have "[s..<t] @ [t..<until] = [s..<until]"
    using upt_add_eq_append [of s t "until - t"] by simp
  with 3 show ?case by simp
qed auto

text \<open>The session entry at which the first work starts.\<close>

definition first_work :: "work_entry list \<Rightarrow> nat" where
  "first_work entries = length (takeWhile (\<lambda>e. \<not> opens_work e) entries)"

lemma segments_partition:
  "concat (map (\<lambda>(a, b). [a..<b]) (historicalWorkSegments entries)) = [first_work entries..<length entries]"
proof (cases "list_all (\<lambda>e. \<not> opens_work e) entries")
  case True
  then have "takeWhile (\<lambda>e. \<not> opens_work e) entries = entries" by (simp add: list_all_iff takeWhile_eq_all_conv)
  then have "first_work entries = length entries" by (metis first_work_def)
  with True show ?thesis
    by (simp add: historicalWorkSegments_def segment_starts_first)
next
  case False
  let ?starts = "segment_starts 0 [] entries"
  have "?starts = segment_starts (first_work entries + 1) [first_work entries] (drop (first_work entries + 1) entries)"
    using False segment_starts_first [of 0 entries] by (simp add: first_work_def)
  then obtain more where starts: "?starts = first_work entries # more"
    using segment_starts_keep [of "[first_work entries]"] by force
  have "sorted_wrt (<) ?starts" "list_all (\<lambda>i. i < length entries) ?starts"
    using segment_starts_sorted [of "[]" 0 entries] by simp_all
  from segment_ranges_cover [OF _ this] starts show ?thesis
    by (simp add: historicalWorkSegments_def)
qed

lemma reminder_extends_newest:
  "withTodoReminder reminder ms = Some ms' \<Longrightarrow> butlast ms' = butlast ms
     \<and> am_content (last ms') = am_content (last ms) @ [reminder] \<and> length ms' = length ms"
  by (auto simp: withTodoReminder_def split: if_splits)

section \<open>Properties\<close>

text \<open>A checklist update that is accepted is well-formed: at most 32 items in the order given, with pairwise
  different ids that are non-empty, at most 128 characters long and free of path separators.\<close>

theorem todo_update_wellformed:
  assumes "normalizeTodoItems env (JArr vs) = Inr items"
  shows "length items \<le> 32 \<and> distinct (map td_id items) \<and> map (\<lambda>v. js_field v ''id'') vs = map (JStr \<circ> td_id) items
    \<and> list_all (\<lambda>t. td_id t \<noteq> [] \<and> length (td_id t) \<le> 128 \<and> CHR ''/'' \<notin> set (td_id t)) items"
proof -
  from assms have items: "normalize_items env [] vs = Inr items" and "length vs \<le> 32"
    by (auto simp: normalizeTodoItems_def MAX_TODO_ITEMS_def split: if_splits)
  have "normalize_items env ids ws = Inr is \<Longrightarrow> list_all (\<lambda>t. td_id t \<noteq> [] \<and> length (td_id t) \<le> 128 \<and> CHR ''/'' \<notin> set (td_id t)) is"
    for ids ws "is"
    by (induction ws arbitrary: ids "is")
      (auto simp: MAX_TODO_ID_CHARS_def dest!: normalize_item_Inr split: sum.splits)
  with items normalize_items_ids [OF items] \<open>length vs \<le> 32\<close> show ?thesis by auto
qed

definition demo_entry_env :: entry_env where
  "demo_entry_env = \<lparr> en_parse = (\<lambda>_. None), en_dateOk = (\<lambda>_. True), en_hidden = ''-'', en_pathHidden = ''-'' \<rparr>"

definition demo_todo :: "jsval list" where
  "demo_todo = [JObj [(''id'', JStr ''a''), (''title'', JStr ''ok''), (''status'', JStr ''pending'')],
     JObj [(''id'', JStr ''b''), (''title'', JStr ''sk-1''), (''status'', JStr ''completed'')]]"

theorem todo_update_wellformed_witness:
  "distinct [''a'', ''b''] \<and> normalizeTodoItems demo_entry_env (JArr demo_todo) =
     Inr [\<lparr> td_id = ''a'', td_title = ''ok'', td_status = TodoPending \<rparr>, \<lparr> td_id = ''b'', td_title = ''-'', td_status = TodoCompleted \<rparr>]"
proof -
  have items: "normalizeTodoItems demo_entry_env (JArr demo_todo) =
     Inr [\<lparr> td_id = ''a'', td_title = ''ok'', td_status = TodoPending \<rparr>, \<lparr> td_id = ''b'', td_title = ''-'', td_status = TodoCompleted \<rparr>]"
    by code_simp
  from todo_update_wellformed [OF items] items show ?thesis by simp
qed

end
