(* ===== verification/Usage_Statistics.thy ===== *)
theory Usage_Statistics
  imports Work_Records Read_Paging
begin

text \<open>
  \<open>services/usage-statistics.ts\<close> with the query filter of \<open>services/work-records.ts\<close>: figures of a
  member over the hourly summaries of the outbox, or over the work records of one conversation.  A
  stored payload is the value its JSON text parses to, \<open>None\<close> when parsing throws; counters are the
  safe integers the code checks for; \<open>Date.parse\<close>, \<open>toISOString\<close> and \<open>localeCompare\<close> are parameters.
\<close>

section \<open>The filter\<close>

definition ISO_UTC :: regex where
  "ISO_UTC = Seq Bos (seqs
     [rep 4 (Cls is_digit), chr (CHR ''-''), rep 2 (Cls is_digit), chr (CHR ''-''), rep 2 (Cls is_digit), chr (CHR ''T''),
      rep 2 (Cls is_digit), chr (CHR '':''), rep 2 (Cls is_digit), chr (CHR '':''), rep 2 (Cls is_digit),
      opt (Seq (chr (CHR ''.'')) (Seq (Cls is_digit) (upto_rep 2 (Cls is_digit)))), chr (CHR ''Z''), Eos])"

definition normalized_stamp :: "string \<Rightarrow> string" where
  "normalized_stamp v =
     (if CHR ''.'' \<in> set v
      then (let fraction = butlast (tl (dropWhile (\<lambda>c. c \<noteq> CHR ''.'') v))
            in takeWhile (\<lambda>c. c \<noteq> CHR ''.'') v @ ''.'' @ fraction @ replicate (3 - length fraction) (CHR ''0'') @ ''Z'')
      else butlast v @ ''.000Z'')"

definition window_timestamp :: "cursor_env \<Rightarrow> string option \<Rightarrow> ms option" where
  "window_timestamp env value =
     (case value of
        None \<Rightarrow> None
      | Some v \<Rightarrow>
          if \<not> regex_test ISO_UTC v then None
          else (case ce_date env v of
                  None \<Rightarrow> None
                | Some parsed \<Rightarrow> if ce_iso env parsed = normalized_stamp v then Some parsed else None))"

definition workReadFilter :: "cursor_env \<Rightarrow> string \<Rightarrow> string \<Rightarrow> url_query \<Rightarrow> bool \<Rightarrow> read_error + work_filter" where
  "workReadFilter env tenant member query hourly =
     (let employee = map_of query ''employee_id'';
          rawStart = map_of query ''window_start''; rawEnd = map_of query ''window_end'';
          start = window_timestamp env rawStart; stop = window_timestamp env rawEnd;
          windowed = rawStart \<noteq> None \<or> rawEnd \<noteq> None
      in if employee \<noteq> None \<and> (js_trim (the employee) = [] \<or> length (the employee) > 256)
         then Inl (ConversationReadError 422 ''invalid_employee_id'')
         else if windowed \<and> (start = None \<or> stop = None \<or> the start \<ge> the stop
                \<or> (hourly \<and> (the start mod 3600000 \<noteq> 0 \<or> the stop mod 3600000 \<noteq> 0)))
         then Inl (ConversationReadError 422 ''invalid_time_range'')
         else Inr \<lparr> wf_tenant = tenant, wf_member = member, wf_employee = employee,
                wf_start = (if windowed then start else None), wf_end = (if windowed then stop else None) \<rparr>)"

section \<open>Samples\<close>

record usage_counters =
  uc_input :: int
  uc_output :: int
  uc_cache :: int
  uc_duration :: int
  uc_cost :: "nat option"

record usage_sample =
  us_employee :: string
  us_count :: int
  us_succeeded :: int
  us_nonSuccess :: int
  us_usage :: "usage_counters option"

text \<open>A row of \<open>usage_summary_outbox\<close> as the query reads it.\<close>

record summary_row =
  sy_tenant :: string
  sy_member :: string
  sy_isUsage :: bool
  sy_payload :: "jsval option"
  sy_cost :: "string option"

datatype sampled = Excluded | Skipped | Sample usage_sample

definition counter :: "jsval \<Rightarrow> string \<Rightarrow> int option" where
  "counter v k = (case js_integer (js_field v k) of
     Some i \<Rightarrow> if safe_integer i \<and> 0 \<le> i then Some i else None | None \<Rightarrow> None)"

definition hour_window :: "cursor_env \<Rightarrow> jsval \<Rightarrow> ms option" where
  "hour_window env v =
     (case (js_field v ''window_start'', js_field v ''window_end'') of
        (JStr a, JStr b) \<Rightarrow>
          (case (ce_date env a, ce_date env b) of
             (Some start, Some stop) \<Rightarrow> if start mod 3600000 = 0 \<and> stop = start + 3600000 then Some start else None
           | _ \<Rightarrow> None)
      | _ \<Rightarrow> None)"

definition summary_counters :: "string list" where
  "summary_counters = [''prompt_count'', ''settled_count'', ''error_count'', ''input_tokens'', ''output_tokens'', ''cache_tokens'',
     ''duration_ms_total'']"

definition summary_cost :: "summary_row \<Rightarrow> jsval \<Rightarrow> nat option" where
  "summary_cost row v = usdUnits (case sy_cost row of Some t \<Rightarrow> JStr t | None \<Rightarrow> js_field v ''cost_total'')"

definition hourly_row :: "cursor_env \<Rightarrow> work_filter \<Rightarrow> summary_row \<Rightarrow> sampled" where
  "hourly_row env f row =
     (case sy_payload row of
        None \<Rightarrow> Excluded
      | Some v \<Rightarrow>
          if js_field v ''tenant_id'' \<noteq> JStr (wf_tenant f) \<or> js_field v ''member_id'' \<noteq> JStr (wf_member f) then Excluded
          else if wf_employee f \<noteq> None \<and> js_field v ''employee_id'' \<noteq> JStr (the (wf_employee f)) then Skipped
          else (case hour_window env v of
            None \<Rightarrow> Excluded
          | Some start \<Rightarrow>
              if (case (wf_start f, wf_end f) of (Some a, Some b) \<Rightarrow> start < a \<or> start \<ge> b | _ \<Rightarrow> False) then Skipped
              else if js_field v ''schema_version'' \<noteq> JStr ''1'' \<or> js_field v ''currency'' \<noteq> JStr ''USD''
                   \<or> \<not> list_all (\<lambda>k. counter v k \<noteq> None) summary_counters then Excluded
              else (let n = (\<lambda>k. the (counter v k)) in
                Sample \<lparr> us_employee = (case js_field v ''employee_id'' of JStr e \<Rightarrow> e | _ \<Rightarrow> ''unknown''),
                  us_count = n ''prompt_count'', us_succeeded = n ''settled_count'', us_nonSuccess = n ''error_count'',
                  us_usage = Some \<lparr> uc_input = n ''input_tokens'', uc_output = n ''output_tokens'', uc_cache = n ''cache_tokens'',
                    uc_duration = n ''duration_ms_total'',
                    uc_cost = (if js_field v ''pricing_status'' = JStr ''known'' then summary_cost row v else None) \<rparr> \<rparr>)))"

definition hourlySamples :: "cursor_env \<Rightarrow> work_filter \<Rightarrow> summary_row list \<Rightarrow> sampled list" where
  "hourlySamples env f rows =
     map (hourly_row env f) (filter (\<lambda>r. sy_isUsage r \<and> sy_tenant r = wf_tenant f \<and> sy_member r = wf_member f) rows)"

text \<open>A settled live record; its stored usage is the value the column's text denotes.\<close>

record record_usage_row =
  ur_record :: work_record
  ur_usage :: "jsval option option"

definition record_row :: "work_filter \<Rightarrow> record_usage_row \<Rightarrow> sampled" where
  "record_row f row =
     (let r = ur_record row
      in if wf_employee f \<noteq> None \<and> wk_employee r \<noteq> the (wf_employee f) then Skipped
         else if (case (wf_start f, wf_end f) of
                    (Some a, Some b) \<Rightarrow> (case wk_occurred r of None \<Rightarrow> True | Some t \<Rightarrow> t < a \<or> t \<ge> b)
                  | _ \<Rightarrow> False) then Skipped
         else (case ur_usage row of
           Some None \<Rightarrow> Excluded
         | stored \<Rightarrow>
             (let v = (case stored of Some (Some v) \<Rightarrow> v | _ \<Rightarrow> JNull);
                  counted = list_all (\<lambda>k. counter v k \<noteq> None) [''input_tokens'', ''output_tokens'', ''cache_tokens''];
                  units = (if js_field v ''pricing_status'' = JStr ''known'' then usdUnits (js_field v ''cost_total'') else None);
                  duration = (case (wk_started r, wk_ended r) of (Some a, Some b) \<Rightarrow> max 0 (b - a) | _ \<Rightarrow> 0)
              in Sample \<lparr> us_employee = wk_employee r, us_count = 1, us_succeeded = of_bool (wk_outcome r = WSucceeded),
                   us_nonSuccess = of_bool (wk_outcome r \<noteq> WSucceeded),
                   us_usage = (if counted then Some \<lparr> uc_input = the (counter v ''input_tokens''),
                       uc_output = the (counter v ''output_tokens''), uc_cache = the (counter v ''cache_tokens''),
                       uc_duration = duration, uc_cost = units \<rparr> else None) \<rparr>)))"

definition workRecordSamples :: "work_filter \<Rightarrow> string \<Rightarrow> record_usage_row list \<Rightarrow> sampled list" where
  "workRecordSamples f conversation rows =
     map (record_row f) (filter (\<lambda>row. wk_tenant (ur_record row) = wf_tenant f \<and> wk_member (ur_record row) = wf_member f
        \<and> wk_conversation (ur_record row) = conversation \<and> wk_provenance (ur_record row) = Live
        \<and> wk_outcome (ur_record row) \<noteq> WActive) rows)"

fun samples_of :: "sampled list \<Rightarrow> usage_sample list" where
  "samples_of [] = []"
| "samples_of (Sample s # r) = s # samples_of r"
| "samples_of (_ # r) = samples_of r"

definition excluded_of :: "sampled list \<Rightarrow> nat" where
  "excluded_of xs = length (filter (\<lambda>x. x = Excluded) xs)"

section \<open>Sums\<close>

record accumulator =
  ac_executions :: int
  ac_succeeded :: int
  ac_nonSuccess :: int
  ac_input :: int
  ac_output :: int
  ac_cache :: int
  ac_duration :: int
  ac_unknown :: int
  ac_known :: int
  ac_cost :: nat

definition acc_init :: accumulator where
  "acc_init = \<lparr> ac_executions = 0, ac_succeeded = 0, ac_nonSuccess = 0, ac_input = 0, ac_output = 0, ac_cache = 0, ac_duration = 0,
     ac_unknown = 0, ac_known = 0, ac_cost = 0 \<rparr>"

definition sample_cost :: "usage_sample \<Rightarrow> nat option" where
  "sample_cost s = (case us_usage s of None \<Rightarrow> None | Some u \<Rightarrow> uc_cost u)"

definition acc_add :: "usage_sample \<Rightarrow> accumulator \<Rightarrow> accumulator" where
  "acc_add s a =
     (let counted = (case us_usage s of
            None \<Rightarrow> a
          | Some u \<Rightarrow> a\<lparr>ac_input := ac_input a + uc_input u, ac_output := ac_output a + uc_output u,
                        ac_cache := ac_cache a + uc_cache u, ac_duration := ac_duration a + uc_duration u\<rparr>);
          priced = (case sample_cost s of
            Some units \<Rightarrow> counted\<lparr>ac_cost := ac_cost counted + units, ac_known := ac_known counted + us_count s\<rparr>
          | None \<Rightarrow> counted\<lparr>ac_unknown := ac_unknown counted + us_count s\<rparr>)
      in priced\<lparr>ac_executions := ac_executions a + us_count s, ac_succeeded := ac_succeeded a + us_succeeded s,
                ac_nonSuccess := ac_nonSuccess a + us_nonSuccess s\<rparr>)"

datatype pricing_status = PricingKnown | PricingPartial | PricingUnknown

record usage_totals =
  ut_executions :: int
  ut_succeeded :: int
  ut_nonSuccess :: int
  ut_input :: int
  ut_output :: int
  ut_cache :: int
  ut_tokens :: int
  ut_duration :: int
  ut_cost :: "string option"
  ut_knownCost :: string
  ut_costMinor :: "nat option"
  ut_pricing :: pricing_status
  ut_unpriced :: int

definition acc_totals :: "nat \<Rightarrow> accumulator \<Rightarrow> usage_totals" where
  "acc_totals excluded a =
     (let complete = ac_unknown a = 0 \<and> excluded = 0
      in \<lparr> ut_executions = ac_executions a, ut_succeeded = ac_succeeded a, ut_nonSuccess = ac_nonSuccess a,
           ut_input = ac_input a, ut_output = ac_output a, ut_cache = ac_cache a,
           ut_tokens = ac_input a + ac_output a + ac_cache a, ut_duration = ac_duration a,
           ut_cost = (if complete then Some (usdDecimal (ac_cost a)) else None), ut_knownCost = usdDecimal (ac_cost a),
           ut_costMinor = (if complete then Some ((ac_cost a + 5000000000) div 10000000000) else None),
           ut_pricing = (if complete then PricingKnown else if ac_known a > 0 then PricingPartial else PricingUnknown),
           ut_unpriced = ac_unknown a \<rparr>)"

definition group_add :: "usage_sample \<Rightarrow> (string, accumulator) omap \<Rightarrow> (string, accumulator) omap" where
  "group_add s groups = omap_set (us_employee s) (acc_add s (nullish (omap_get groups (us_employee s)) acc_init)) groups"

definition group_le :: "(string \<Rightarrow> string \<Rightarrow> bool) \<Rightarrow> string \<times> usage_totals \<Rightarrow> string \<times> usage_totals \<Rightarrow> bool" where
  "group_le locale_le a b \<longleftrightarrow> ut_tokens (snd a) > ut_tokens (snd b) \<or> (ut_tokens (snd a) = ut_tokens (snd b) \<and> locale_le (fst a) (fst b))"

record usage_statistics =
  ust_total :: usage_totals
  ust_excluded :: nat
  ust_groups :: "(string \<times> usage_totals) list option"

definition usage_figures :: "(string \<Rightarrow> string \<Rightarrow> bool) \<Rightarrow> bool \<Rightarrow> sampled list \<Rightarrow> usage_statistics" where
  "usage_figures locale_le grouped xs =
     (let samples = samples_of xs
      in \<lparr> ust_total = acc_totals (excluded_of xs) (fold acc_add samples acc_init),
           ust_excluded = excluded_of xs,
           ust_groups = (if grouped
             then Some (sort_by (group_le locale_le) (map (\<lambda>(e, a). (e, acc_totals 0 a)) (fold group_add samples [])))
             else None) \<rparr>)"

definition statistics ::
  "cursor_env \<Rightarrow> (string \<Rightarrow> string \<Rightarrow> bool) \<Rightarrow> string \<Rightarrow> string \<Rightarrow> url_query \<Rightarrow> summary_row list \<Rightarrow> record_usage_row list
     \<Rightarrow> read_error + usage_statistics" where
  "statistics env locale_le tenant member query summaries records =
     (case validateReadQuery query [''employee_id'', ''conversation_id'', ''group_by'', ''window_start'', ''window_end''] of
        Some e \<Rightarrow> Inl e
      | None \<Rightarrow>
          (case workReadFilter env tenant member query True of
             Inl e \<Rightarrow> Inl e
           | Inr f \<Rightarrow>
               (let conversation = map_of query ''conversation_id''; groupBy = map_of query ''group_by''
                in if conversation \<noteq> None \<and> (js_trim (the conversation) = [] \<or> length (the conversation) > 256)
                   then Inl (ConversationReadError 422 ''invalid_conversation_id'')
                   else if groupBy \<noteq> None \<and> groupBy \<noteq> Some ''employee'' then Inl (ConversationReadError 422 ''invalid_group_by'')
                   else Inr (usage_figures locale_le (groupBy \<noteq> None)
                     (case conversation of None \<Rightarrow> hourlySamples env f summaries | Some c \<Rightarrow> workRecordSamples f c records)))))"

section \<open>Facts\<close>

lemma sum_insert_by: "sum_list (map f (insert_by le x xs)) = f x + (sum_list (map f xs) :: int)"
  by (induction xs) auto

lemma sum_sort_by: "sum_list (map f (sort_by le xs)) = (sum_list (map f xs) :: int)"
proof (induction xs)
  case (Cons x xs)
  then show ?case using sum_insert_by [of f le x "sort_by le xs"] by (simp add: sort_by_def)
qed (simp add: sort_by_def)

text \<open>
  The contract of a counter: a sample adds its own share.  For every such counter the figure of the
  whole is the sum of the figures of the groups.
\<close>

locale additive_counter =
  fixes g :: "accumulator \<Rightarrow> int" and share :: "usage_sample \<Rightarrow> int"
  assumes g_init: "g acc_init = 0"
    and g_add: "g (acc_add s a) = g a + share s"
begin

lemma counter_total: "g (fold acc_add ss a) = g a + sum_list (map share ss)"
  by (induction ss arbitrary: a) (simp_all add: g_add)

lemma counter_set:
  "sum_list (map (g \<circ> snd) (omap_set k v m)) = sum_list (map (g \<circ> snd) m) - g (nullish (omap_get m k) acc_init) + g v"
  by (induction m) (auto simp: g_init omap_get_def)

lemma counter_groups:
  "sum_list (map (g \<circ> snd) (fold group_add ss m)) = sum_list (map (g \<circ> snd) m) + sum_list (map share ss)"
  by (induction ss arbitrary: m) (simp_all add: group_add_def counter_set g_add)

lemma groups_add_up: "sum_list (map (g \<circ> snd) (fold group_add ss [])) = g (fold acc_add ss acc_init)"
  by (simp add: counter_groups counter_total g_init)

end

definition sample_tokens :: "usage_sample \<Rightarrow> int" where
  "sample_tokens s = (case us_usage s of None \<Rightarrow> 0 | Some u \<Rightarrow> uc_input u + uc_output u + uc_cache u)"

interpretation executions: additive_counter ac_executions us_count
  by unfold_locales (simp_all add: acc_init_def acc_add_def Let_def)

interpretation tokens: additive_counter "\<lambda>a. ac_input a + ac_output a + ac_cache a" sample_tokens
  by unfold_locales (auto simp: acc_init_def acc_add_def Let_def sample_tokens_def split: option.splits)

interpretation unpriced: additive_counter ac_unknown "\<lambda>s. if sample_cost s = None then us_count s else 0"
  by unfold_locales (auto simp: acc_init_def acc_add_def Let_def split: option.splits)

interpretation cost: additive_counter "\<lambda>a. int (ac_cost a)" "\<lambda>s. int (nullish (sample_cost s) 0)"
  by unfold_locales (auto simp: acc_init_def acc_add_def Let_def split: option.splits)

lemma groups_distinct: "omap_ok m \<Longrightarrow> omap_ok (fold group_add ss m)"
  by (induction ss arbitrary: m) (simp_all add: group_add_def)

section \<open>Properties\<close>

text \<open>The figures per employee add up to the figures of the member: tokens, executions and executions without a
  known price of the groups sum to those of the total, every employee has one group, and the total is
  priced in full exactly when nothing was excluded and no execution lacks a price.\<close>

theorem group_figures_add_up:
  "case usage_figures locale_le True xs of st \<Rightarrow>
     \<exists>gs. ust_groups st = Some gs \<and> distinct (map fst gs)
       \<and> sum_list (map (ut_tokens \<circ> snd) gs) = ut_tokens (ust_total st)
       \<and> sum_list (map (ut_executions \<circ> snd) gs) = ut_executions (ust_total st)
       \<and> sum_list (map (ut_unpriced \<circ> snd) gs) = ut_unpriced (ust_total st)
       \<and> (ut_cost (ust_total st) \<noteq> None) = (ut_unpriced (ust_total st) = 0 \<and> ust_excluded st = 0)"
proof -
  let ?groups = "fold group_add (samples_of xs) []"
  let ?gs = "map (\<lambda>(e, a). (e, acc_totals 0 a)) ?groups"
  have views: "map (ut_tokens \<circ> snd) ?gs = map ((\<lambda>a. ac_input a + ac_output a + ac_cache a) \<circ> snd) ?groups"
    "map (ut_executions \<circ> snd) ?gs = map (ac_executions \<circ> snd) ?groups"
    "map (ut_unpriced \<circ> snd) ?gs = map (ac_unknown \<circ> snd) ?groups"
    by (auto simp: acc_totals_def Let_def)
  have "map fst ?gs = omap_keys ?groups" by (auto simp: omap_keys_def)
  then have "distinct (map fst ?gs)" using groups_distinct [of "[]" "samples_of xs"] by (simp add: omap_ok_def)
  then show ?thesis
    using views tokens.groups_add_up [of "samples_of xs"] executions.groups_add_up [of "samples_of xs"]
      unpriced.groups_add_up [of "samples_of xs"]
    by (simp add: usage_figures_def Let_def distinct_sort_by sum_sort_by acc_totals_def del: map_map)
qed

end
