(* ===== verification/Chat_Send_Queue.thy ===== *)
theory Chat_Send_Queue
  imports Prelude "HOL-Library.Multiset"
begin

text \<open>
  \<open>clients/desktop/src/lib/chatSendQueue.ts\<close>: the messages a user types while an answer is generated
  wait in a queue per conversation.  The queues are an object keyed by conversation id, here an
  insertion-ordered map; attachments and the snapshot of the input box are opaque.
\<close>

record ('f, 's) queued_message =
  qm_id :: string
  qm_text :: string
  qm_files :: "'f list"
  qm_employee :: "string option"
  qm_mentions :: "string list option"
  qm_snapshot :: "'s option"

type_synonym ('f, 's) send_queues = "(string, ('f, 's) queued_message list) omap"

definition queue_of :: "('f, 's) send_queues \<Rightarrow> string \<Rightarrow> ('f, 's) queued_message list" where
  "queue_of queues c = nullish (omap_get queues c) []"

definition enqueueMessage :: "('f, 's) send_queues \<Rightarrow> string \<Rightarrow> ('f, 's) queued_message \<Rightarrow> ('f, 's) send_queues" where
  "enqueueMessage queues c m = omap_set c (queue_of queues c @ [m]) queues"

definition prependQueuedMessage :: "('f, 's) send_queues \<Rightarrow> string \<Rightarrow> ('f, 's) queued_message \<Rightarrow> ('f, 's) send_queues" where
  "prependQueuedMessage queues c m = omap_set c (m # queue_of queues c) queues"

definition withQueue :: "('f, 's) send_queues \<Rightarrow> string \<Rightarrow> ('f, 's) queued_message list \<Rightarrow> ('f, 's) send_queues" where
  "withQueue queues c queue = (if queue \<noteq> [] then omap_set c queue queues else omap_delete c queues)"

definition removeQueuedMessage :: "('f, 's) send_queues \<Rightarrow> string \<Rightarrow> string \<Rightarrow> ('f, 's) send_queues" where
  "removeQueuedMessage queues c i =
     (if \<not> (\<exists>m \<in> set (queue_of queues c). qm_id m = i) then queues
      else withQueue queues c (filter (\<lambda>m. qm_id m \<noteq> i) (queue_of queues c)))"

definition replaceQueuedMessage ::
  "('f, 's) send_queues \<Rightarrow> string \<Rightarrow> string \<Rightarrow> ('f, 's) queued_message option \<Rightarrow> ('f, 's) send_queues" where
  "replaceQueuedMessage queues c i replacement =
     (case replacement of
        None \<Rightarrow> removeQueuedMessage queues c i
      | Some r \<Rightarrow>
          if \<not> (\<exists>m \<in> set (queue_of queues c). qm_id m = i) then queues
          else omap_set c (map (\<lambda>m. if qm_id m = i then r else m) (queue_of queues c)) queues)"

text \<open>\<open>splice(from, 1)\<close> followed by \<open>splice(to, 0, moved)\<close>.\<close>

definition splice_move :: "nat \<Rightarrow> nat \<Rightarrow> 'a list \<Rightarrow> 'a list" where
  "splice_move from to xs =
     (let rest = take from xs @ drop (Suc from) xs in take to rest @ [xs ! from] @ drop to rest)"

definition moveQueuedMessage :: "('f, 's) send_queues \<Rightarrow> string \<Rightarrow> string \<Rightarrow> string \<Rightarrow> ('f, 's) send_queues" where
  "moveQueuedMessage queues c fromId toId =
     (case (find_index (\<lambda>m. qm_id m = fromId) (queue_of queues c), find_index (\<lambda>m. qm_id m = toId) (queue_of queues c)) of
        (Some from, Some to) \<Rightarrow>
          if from = to then queues else omap_set c (splice_move from to (queue_of queues c)) queues
      | _ \<Rightarrow> queues)"

definition promoteQueuedMessage :: "('f, 's) send_queues \<Rightarrow> string \<Rightarrow> string \<Rightarrow> ('f, 's) send_queues" where
  "promoteQueuedMessage queues c i =
     (case find_index (\<lambda>m. qm_id m = i) (queue_of queues c) of
        Some index \<Rightarrow>
          if index = 0 then queues
          else omap_set c ((queue_of queues c ! index) # take index (queue_of queues c) @ drop (index + 1) (queue_of queues c)) queues
      | None \<Rightarrow> queues)"

definition takeNextQueuedMessage ::
  "('f, 's) send_queues \<Rightarrow> string \<Rightarrow> ('f, 's) queued_message option \<times> ('f, 's) send_queues" where
  "takeNextQueuedMessage queues c =
     (case queue_of queues c of [] \<Rightarrow> (None, queues) | m # rest \<Rightarrow> (Some m, withQueue queues c rest))"

definition renameQueue :: "('f, 's) send_queues \<Rightarrow> string \<Rightarrow> string \<Rightarrow> ('f, 's) send_queues" where
  "renameQueue queues fromC toC =
     (if queue_of queues fromC = [] \<or> fromC = toC then queues
      else (let rest = withQueue queues fromC [] in omap_set toC (queue_of rest toC @ queue_of queues fromC) rest))"

definition shouldDispatchQueue :: "nat \<Rightarrow> bool \<Rightarrow> bool \<Rightarrow> bool \<Rightarrow> bool \<Rightarrow> bool" where
  "shouldDispatchQueue queueLength isGenerating isSyncing disabled isSubmitting \<longleftrightarrow>
     0 < queueLength \<and> \<not> isGenerating \<and> \<not> isSyncing \<and> \<not> disabled \<and> \<not> isSubmitting"

section \<open>Operations as events\<close>

text \<open>
  An event of the input box, with the messages it brings in and the messages it takes out of the
  queues: sending takes one out, removing takes out what has the id, editing swaps it.
\<close>

datatype ('f, 's) queue_event =
    QEnqueue string "('f, 's) queued_message"
  | QPrepend string "('f, 's) queued_message"
  | QReplace string string "('f, 's) queued_message option"
  | QRemove string string
  | QMove string string string
  | QPromote string string
  | QTake string
  | QRename string string

fun queue_step :: "('f, 's) queue_event \<Rightarrow> ('f, 's) send_queues \<Rightarrow> ('f, 's) send_queues" where
  "queue_step (QEnqueue c m) q = enqueueMessage q c m"
| "queue_step (QPrepend c m) q = prependQueuedMessage q c m"
| "queue_step (QReplace c i r) q = replaceQueuedMessage q c i r"
| "queue_step (QRemove c i) q = removeQueuedMessage q c i"
| "queue_step (QMove c i j) q = moveQueuedMessage q c i j"
| "queue_step (QPromote c i) q = promoteQueuedMessage q c i"
| "queue_step (QTake c) q = snd (takeNextQueuedMessage q c)"
| "queue_step (QRename c d) q = renameQueue q c d"

fun entering :: "('f, 's) queue_event \<Rightarrow> ('f, 's) send_queues \<Rightarrow> ('f, 's) queued_message list" where
  "entering (QEnqueue c m) q = [m]"
| "entering (QPrepend c m) q = [m]"
| "entering (QReplace c i r) q =
     (case r of None \<Rightarrow> [] | Some m \<Rightarrow> replicate (length (filter (\<lambda>m. qm_id m = i) (queue_of q c))) m)"
| "entering _ q = []"

fun leaving :: "('f, 's) queue_event \<Rightarrow> ('f, 's) send_queues \<Rightarrow> ('f, 's) queued_message list" where
  "leaving (QReplace c i r) q = filter (\<lambda>m. qm_id m = i) (queue_of q c)"
| "leaving (QRemove c i) q = filter (\<lambda>m. qm_id m = i) (queue_of q c)"
| "leaving (QTake c) q = (case fst (takeNextQueuedMessage q c) of None \<Rightarrow> [] | Some m \<Rightarrow> [m])"
| "leaving _ q = []"

text \<open>A history: the queues at its end, and all that entered and left on the way.\<close>

fun queue_run ::
  "('f, 's) queue_event list \<Rightarrow> ('f, 's) send_queues
     \<Rightarrow> ('f, 's) send_queues \<times> ('f, 's) queued_message list \<times> ('f, 's) queued_message list" where
  "queue_run [] q = (q, [], [])"
| "queue_run (e # es) q =
     (let (q', ins, outs) = queue_run es (queue_step e q) in (q', entering e q @ ins, leaving e q @ outs))"

definition all_queued :: "('f, 's) send_queues \<Rightarrow> ('f, 's) queued_message multiset" where
  "all_queued q = mset (concat (map snd q))"

text \<open>Keys are unique and no stored queue is empty.\<close>

definition queues_ok :: "('f, 's) send_queues \<Rightarrow> bool" where
  "queues_ok q \<longleftrightarrow> omap_ok q \<and> list_all (\<lambda>e. snd e \<noteq> []) q"

section \<open>Facts\<close>

lemma all_queued_set:
  "all_queued (omap_set c v q) + mset (queue_of q c) = all_queued q + mset v"
  by (induction q) (auto simp: all_queued_def queue_of_def omap_get_def ac_simps)

lemma all_queued_delete:
  "omap_ok q \<Longrightarrow> all_queued (omap_delete c q) + mset (queue_of q c) = all_queued q"
proof (induction q)
  case (Cons e q)
  have "c \<notin> set (omap_keys q) \<Longrightarrow> omap_delete c q = q"
    by (auto simp: omap_delete_def omap_keys_def filter_id_conv)
  with Cons show ?case
    by (cases e) (auto simp: all_queued_def queue_of_def omap_get_def omap_ok_def omap_delete_def ac_simps)
qed (simp add: all_queued_def queue_of_def omap_delete_def)

lemma all_queued_with:
  "omap_ok q \<Longrightarrow> all_queued (withQueue q c v) + mset (queue_of q c) = all_queued q + mset v"
  by (simp add: withQueue_def all_queued_set all_queued_delete)

lemma queue_of_with: "queue_of (withQueue q c v) d = (if d = c then v else queue_of q d)"
  by (simp add: withQueue_def queue_of_def)

lemma withQueue_ok: "queues_ok q \<Longrightarrow> queues_ok (withQueue q c v)"
proof (cases "v = []")
  case True
  assume "queues_ok q"
  moreover have "set (omap_delete c q) \<subseteq> set q" by (auto simp: omap_delete_def)
  ultimately show ?thesis using True by (auto simp: queues_ok_def withQueue_def list_all_iff)
next
  case False
  assume "queues_ok q"
  with False set_omap_set_subset [of c v q] show ?thesis
    by (auto simp: queues_ok_def withQueue_def list_all_iff)
qed

lemma set_queue_ok: "queues_ok q \<Longrightarrow> v \<noteq> [] \<Longrightarrow> queues_ok (omap_set c v q)"
  using withQueue_ok [of q c v] by (simp add: withQueue_def)

text \<open>
  The contract of an edit inside one conversation: it rearranges the queue of that conversation and
  touches no other.  Every such edit keeps all messages.
\<close>

locale queue_edit =
  fixes edit :: "('f, 's) send_queues \<Rightarrow> ('f, 's) send_queues" and c :: string
  assumes edit_set: "edit q = q \<or> (\<exists>v. edit q = omap_set c v q \<and> mset v = mset (queue_of q c) \<and> v \<noteq> [])"
begin

lemma edit_keeps_all: "all_queued (edit q) = all_queued q"
  using edit_set [of q] all_queued_set [of c _ q] by (metis add_right_cancel)

lemma edit_ok: "queues_ok q \<Longrightarrow> queues_ok (edit q)"
  using edit_set [of q] set_queue_ok by metis

lemma edit_frame: "d \<noteq> c \<Longrightarrow> queue_of (edit q) d = queue_of q d"
  using edit_set [of q] by (auto simp: queue_of_def)

end

lemma mset_without: "i < length xs \<Longrightarrow> mset (take i xs @ drop (Suc i) xs) + {#xs ! i#} = mset xs"
  by (metis add_mset_add_single id_take_nth_drop mset.simps(2) mset_append union_mset_add_mset_right)

lemma mset_splice_move:
  assumes "i < length xs"
  shows "mset (splice_move i j xs) = mset xs"
proof -
  let ?rest = "take i xs @ drop (Suc i) xs"
  have "mset (splice_move i j xs) = mset (take j ?rest @ drop j ?rest) + {#xs ! i#}"
    unfolding splice_move_def Let_def by (simp only: mset_append) simp
  then show ?thesis using mset_without [OF assms] by (simp only: append_take_drop_id)
qed

lemma splice_move_nonempty [simp]: "splice_move i j xs \<noteq> []"
  by (simp add: splice_move_def Let_def)

interpretation moving: queue_edit "\<lambda>q. moveQueuedMessage q c i j" c for c i j
proof unfold_locales
  fix q :: "('f, 's) send_queues"
  show "moveQueuedMessage q c i j = q \<or>
    (\<exists>v. moveQueuedMessage q c i j = omap_set c v q \<and> mset v = mset (queue_of q c) \<and> v \<noteq> [])"
  proof (cases "find_index (\<lambda>m. qm_id m = i) (queue_of q c)"; cases "find_index (\<lambda>m. qm_id m = j) (queue_of q c)")
    fix a b
    assume *: "find_index (\<lambda>m. qm_id m = i) (queue_of q c) = Some a" "find_index (\<lambda>m. qm_id m = j) (queue_of q c) = Some b"
    then have "mset (splice_move a b (queue_of q c)) = mset (queue_of q c)"
      by (intro mset_splice_move) (simp add: find_index_Some)
    with * show ?thesis
      by (cases "a = b") (simp_all add: moveQueuedMessage_def exI [of _ "splice_move a b (queue_of q c)"])
  qed (simp_all add: moveQueuedMessage_def)
qed

interpretation promoting: queue_edit "\<lambda>q. promoteQueuedMessage q c i" c for c i
proof unfold_locales
  fix q :: "('f, 's) send_queues"
  show "promoteQueuedMessage q c i = q \<or>
    (\<exists>v. promoteQueuedMessage q c i = omap_set c v q \<and> mset v = mset (queue_of q c) \<and> v \<noteq> [])"
  proof (cases "find_index (\<lambda>m. qm_id m = i) (queue_of q c)")
    case (Some k)
    then have "mset (queue_of q c ! k # take k (queue_of q c) @ drop (k + 1) (queue_of q c)) = mset (queue_of q c)"
      using mset_without [of k "queue_of q c"] by (simp add: find_index_Some)
    moreover have "promoteQueuedMessage q c i = (if k = 0 then q
        else omap_set c (queue_of q c ! k # take k (queue_of q c) @ drop (k + 1) (queue_of q c)) q)"
      using Some by (simp add: promoteQueuedMessage_def)
    ultimately show ?thesis by (metis list.distinct(1))
  qed (simp add: promoteQueuedMessage_def)
qed

section \<open>Conservation\<close>

lemma filter_split: "mset (filter (\<lambda>m. \<not> p m) xs) + mset (filter p xs) = mset xs"
  by (metis add.commute mset_filter multiset_partition)

lemma mset_map_replace:
  "mset (map (\<lambda>m. if p m then r else m) xs) = mset (filter (\<lambda>m. \<not> p m) xs) + mset (replicate (length (filter p xs)) r)"
  by (induction xs) auto

lemma no_match: "\<not> (\<exists>m \<in> set xs. p m) \<Longrightarrow> filter p xs = []"
  by (simp add: filter_empty_conv)

lemma settle_out:
  fixes W :: "'a multiset"
  assumes "W + Q = A + (K + R)" "K + L = Q"
  shows "W + L = A + R"
proof -
  have "(W + L) + K = (A + R) + K" using assms by (auto simp: ac_simps)
  then show ?thesis by simp
qed

lemma remove_conserves:
  assumes "queues_ok q"
  shows "all_queued (removeQueuedMessage q c i) + mset (filter (\<lambda>m. qm_id m = i) (queue_of q c)) = all_queued q"
proof (cases "\<exists>m \<in> set (queue_of q c). qm_id m = i")
  case True
  let ?keep = "filter (\<lambda>m. qm_id m \<noteq> i) (queue_of q c)" and ?out = "filter (\<lambda>m. qm_id m = i) (queue_of q c)"
  from assms have "all_queued (withQueue q c ?keep) + mset (queue_of q c) = all_queued q + (mset ?keep + {#})"
    by (simp add: all_queued_with queues_ok_def)
  from settle_out [OF this filter_split] True show ?thesis by (simp add: removeQueuedMessage_def)
next
  case False
  then show ?thesis using no_match [OF False] by (simp add: removeQueuedMessage_def)
qed

lemma replace_conserves:
  assumes "queues_ok q"
  shows "all_queued (replaceQueuedMessage q c i r) + mset (leaving (QReplace c i r) q) = all_queued q + mset (entering (QReplace c i r) q)"
proof (cases r)
  case (Some m)
  let ?new = "map (\<lambda>x. if qm_id x = i then m else x) (queue_of q c)"
  show ?thesis
  proof (cases "\<exists>m \<in> set (queue_of q c). qm_id m = i")
    case True
    have "all_queued (omap_set c ?new q) + mset (queue_of q c) = all_queued q + mset ?new"
      by (rule all_queued_set)
    from settle_out [OF this [unfolded mset_map_replace] filter_split] True Some show ?thesis
      by (simp add: replaceQueuedMessage_def)
  next
    case False
    then show ?thesis using no_match [OF False] Some by (simp add: replaceQueuedMessage_def)
  qed
qed (use remove_conserves [OF assms] in \<open>simp add: replaceQueuedMessage_def\<close>)

lemma take_conserves:
  assumes "queues_ok q"
  shows "all_queued (snd (takeNextQueuedMessage q c)) + mset (leaving (QTake c) q) = all_queued q"
proof (cases "queue_of q c")
  case (Cons m rest)
  have "all_queued (withQueue q c rest) + mset (queue_of q c) = all_queued q + mset rest"
    using assms by (simp add: all_queued_with queues_ok_def)
  with Cons show ?thesis by (simp add: takeNextQueuedMessage_def)
qed (simp add: takeNextQueuedMessage_def)

lemma rename_conserves:
  assumes "queues_ok q"
  shows "all_queued (renameQueue q c d) = all_queued q"
proof (cases "queue_of q c = [] \<or> c = d")
  case False
  let ?rest = "withQueue q c []"
  have "all_queued (omap_set d (queue_of ?rest d @ queue_of q c) ?rest) + mset (queue_of ?rest d)
      = all_queued ?rest + (mset (queue_of ?rest d) + mset (queue_of q c))"
    by (simp add: all_queued_set)
  moreover have "all_queued ?rest + mset (queue_of q c) = all_queued q"
    using assms all_queued_with [of q c "[]"] by (simp add: queues_ok_def)
  ultimately show ?thesis using False by (simp add: renameQueue_def Let_def ac_simps)
qed (simp add: renameQueue_def)

lemma queue_step_conserves:
  "queues_ok q \<Longrightarrow> all_queued (queue_step e q) + mset (leaving e q) = all_queued q + mset (entering e q)"
proof (cases e)
  case (QEnqueue c m)
  then show ?thesis using all_queued_set [of c "queue_of q c @ [m]" q]
    by (simp add: enqueueMessage_def)
next
  case (QPrepend c m)
  then show ?thesis using all_queued_set [of c "m # queue_of q c" q]
    by (simp add: prependQueuedMessage_def)
qed (simp_all add: replace_conserves [simplified] remove_conserves [simplified] take_conserves [simplified] rename_conserves
    moving.edit_keeps_all promoting.edit_keeps_all)

lemma queue_step_ok: "queues_ok q \<Longrightarrow> queues_ok (queue_step e q)"
proof (cases e)
  case (QReplace c i r)
  assume "queues_ok q"
  with QReplace show ?thesis
    by (auto simp: replaceQueuedMessage_def removeQueuedMessage_def withQueue_ok intro!: set_queue_ok split: option.splits)
next
  case (QTake c)
  assume "queues_ok q"
  with QTake show ?thesis by (auto simp: takeNextQueuedMessage_def withQueue_ok split: list.splits)
next
  case (QRename c d)
  assume "queues_ok q"
  with QRename show ?thesis by (auto simp: renameQueue_def Let_def set_queue_ok withQueue_ok)
qed (simp_all add: enqueueMessage_def prependQueuedMessage_def removeQueuedMessage_def set_queue_ok withQueue_ok
    moving.edit_ok promoting.edit_ok)

lemma queue_step_frame:
  "d \<noteq> c \<Longrightarrow> queue_of (queue_step (QTake c) q) d = queue_of q d"
  by (simp add: takeNextQueuedMessage_def queue_of_with split: list.splits)

section \<open>Properties\<close>

text \<open>(C34) Queued messages are neither lost nor duplicated: after any sequence of enqueueing, sending, failed sends,
  edits, removals, reordering, promotions and renames, the messages still queued together with those that
  left are exactly the messages queued at the start together with those that entered.\<close>

theorem queue_conserves_messages:
  assumes "queues_ok q" "queue_run events q = (q', ins, outs)"
  shows "all_queued q' + mset outs = all_queued q + mset ins"
  using assms
proof (induction events arbitrary: q ins outs)
  case (Cons e es)
  obtain ins' outs' where run: "queue_run es (queue_step e q) = (q', ins', outs')"
    "ins = entering e q @ ins'" "outs = leaving e q @ outs'"
    using Cons.prems(2) by (auto split: prod.splits)
  have "all_queued q' + mset outs' = all_queued (queue_step e q) + mset ins'"
    by (rule Cons.IH [OF queue_step_ok [OF Cons.prems(1)] run(1)])
  moreover have "all_queued (queue_step e q) + mset (leaving e q) = all_queued q + mset (entering e q)"
    by (rule queue_step_conserves [OF Cons.prems(1)])
  ultimately show ?case unfolding run(2,3)
    by (metis (no_types, opaque_lifting) add.assoc add.commute mset_append)
qed auto

definition demo_message :: "string \<Rightarrow> (unit, unit) queued_message" where
  "demo_message i = \<lparr> qm_id = i, qm_text = ''hi'', qm_files = [], qm_employee = None, qm_mentions = None, qm_snapshot = None \<rparr>"

definition demo_events :: "(unit, unit) queue_event list" where
  "demo_events = [QEnqueue ''emp_1'' (demo_message ''a''), QEnqueue ''emp_1'' (demo_message ''b''), QPromote ''emp_1'' ''b'',
     QRename ''emp_1'' ''c1'', QTake ''c1'', QMove ''c1'' ''a'' ''a'']"

theorem queue_conserves_messages_witness:
  "queue_run demo_events [] = ([(''c1'', [demo_message ''a''])], [demo_message ''a'', demo_message ''b''], [demo_message ''b''])
   \<and> all_queued [(''c1'', [demo_message ''a''])] + mset [demo_message ''b'']
       = all_queued [] + mset [demo_message ''a'', demo_message ''b'']"
proof -
  have run: "queue_run demo_events [] =
      ([(''c1'', [demo_message ''a''])], [demo_message ''a'', demo_message ''b''], [demo_message ''b''])"
    by code_simp
  have "queues_ok ([] :: (unit, unit) send_queues)" by (simp add: queues_ok_def)
  from queue_conserves_messages [OF this run] run show ?thesis by blast
qed

end
