(* ===== verification/Settle_Tracker.thy ===== *)
theory Settle_Tracker
  imports Prelude
begin

text \<open>
  \<open>clients/desktop/src/lib/groupStreamLifecycle.ts\<close>: when a prompt round of one or several employees
  is over.  The closure's variables are a record; a call of \<open>onComplete\<close> adds one to
  \<open>tr_completions\<close>.
\<close>

datatype run_status = Expected | Running | Settled
datatype tracker_mode = Single | Group

record tracker =
  tr_mode :: tracker_mode
  tr_known :: bool
  tr_participants :: "(string, run_status) omap"
  tr_anonymous :: bool
  tr_ended :: bool
  tr_released :: bool
  tr_fired :: bool
  tr_completions :: nat

definition uniqueEmployeeIds :: "string list option \<Rightarrow> string list" where
  "uniqueEmployeeIds ids = js_unique (filter (\<lambda>i. i \<noteq> []) (nullish ids []))"

definition createSettleTracker :: "tracker_mode \<Rightarrow> string list option \<Rightarrow> bool option \<Rightarrow> tracker" where
  "createSettleTracker mode ids known =
     \<lparr> tr_mode = mode, tr_known = (mode = Single \<or> known = Some True),
       tr_participants = fold (\<lambda>i. omap_set i Expected) (uniqueEmployeeIds ids) [],
       tr_anonymous = False, tr_ended = False, tr_released = False, tr_fired = False, tr_completions = 0 \<rparr>"

definition all_settled :: "tracker \<Rightarrow> bool" where
  "all_settled t \<longleftrightarrow> tr_participants t \<noteq> [] \<and> list_all (\<lambda>e. snd e = Settled) (tr_participants t)"

definition round_complete :: "tracker \<Rightarrow> bool" where
  "round_complete t \<longleftrightarrow> tr_ended t
     \<or> (tr_mode t = Single \<and> (tr_anonymous t \<or> all_settled t))
     \<or> (tr_mode t = Group \<and> tr_known t \<and> all_settled t)"

definition maybeComplete :: "tracker \<Rightarrow> tracker" where
  "maybeComplete t =
     (if tr_released t \<or> tr_fired t then t
      else if \<not> round_complete t then t
      else t\<lparr>tr_fired := True, tr_completions := tr_completions t + 1\<rparr>)"

text \<open>An absent source id and the empty one are both falsy.\<close>

definition markRunning :: "string option \<Rightarrow> bool \<Rightarrow> tracker \<Rightarrow> tracker" where
  "markRunning source newExecution t =
     (case source of
        Some i \<Rightarrow>
          if tr_released t \<or> tr_fired t \<or> i = [] then t
          else if newExecution \<or> omap_get (tr_participants t) i \<noteq> Some Settled
          then t\<lparr>tr_participants := omap_set i Running (tr_participants t)\<rparr> else t
      | None \<Rightarrow> t)"

definition markSettled :: "string option \<Rightarrow> tracker \<Rightarrow> tracker" where
  "markSettled source t =
     (if tr_released t \<or> tr_fired t then t
      else if source \<noteq> None \<and> source \<noteq> Some []
      then maybeComplete (t\<lparr>tr_participants := omap_set (the source) Settled (tr_participants t)\<rparr>)
      else if tr_mode t = Single then maybeComplete (t\<lparr>tr_anonymous := True\<rparr>)
      else t)"

definition markConversationEnded :: "tracker \<Rightarrow> tracker" where
  "markConversationEnded t =
     (if tr_released t \<or> tr_fired t then t else maybeComplete (t\<lparr>tr_ended := True\<rparr>))"

definition tracker_isDone :: "tracker \<Rightarrow> bool" where
  "tracker_isDone t = tr_fired t"

definition tracker_release :: "tracker \<Rightarrow> tracker" where
  "tracker_release t = t\<lparr>tr_released := True\<rparr>"

record tracker_snapshot =
  ts_mode :: tracker_mode
  ts_known :: bool
  ts_participants :: "(string, run_status) omap"
  ts_ended :: bool
  ts_done :: bool

definition getSnapshot :: "tracker \<Rightarrow> tracker_snapshot" where
  "getSnapshot t = \<lparr> ts_mode = tr_mode t, ts_known = tr_known t, ts_participants = tr_participants t,
     ts_ended = tr_ended t, ts_done = tr_fired t \<rparr>"

section \<open>Histories\<close>

datatype tracker_event = ERunning "string option" bool | ESettled "string option" | EEnded | ERelease

fun tracker_step :: "tracker_event \<Rightarrow> tracker \<Rightarrow> tracker" where
  "tracker_step (ERunning source new) t = markRunning source new t"
| "tracker_step (ESettled source) t = markSettled source t"
| "tracker_step EEnded t = markConversationEnded t"
| "tracker_step ERelease t = tracker_release t"

text \<open>Before release the callback has fired exactly when the round is complete.\<close>

definition tracker_ok :: "tracker \<Rightarrow> bool" where
  "tracker_ok t \<longleftrightarrow> \<not> tr_released t \<and> tr_fired t = round_complete t \<and> tr_completions t = of_bool (tr_fired t)"

lemma all_settled_running [simp]: "\<not> all_settled (t\<lparr>tr_participants := omap_set i Running ps\<rparr>)"
proof -
  have "(i, Running) \<in> set (omap_set i Running ps)" by (induction ps) auto
  then have "\<not> list_all (\<lambda>e. snd e = Settled) (omap_set i Running ps)"
    by (force simp only: list_all_iff snd_conv run_status.simps)
  then show ?thesis by (simp add: all_settled_def)
qed

lemma maybeComplete_ok:
  "\<not> tr_released t \<Longrightarrow> \<not> tr_fired t \<Longrightarrow> tr_completions t = 0 \<Longrightarrow> tracker_ok (maybeComplete t)"
  by (auto simp: maybeComplete_def tracker_ok_def round_complete_def all_settled_def)

lemma round_complete_running:
  "\<not> round_complete t \<Longrightarrow> \<not> round_complete (t\<lparr>tr_participants := omap_set i Running ps\<rparr>)"
  by (simp add: round_complete_def)

lemma tracker_step_ok:
  assumes "tracker_ok t" "e \<noteq> ERelease"
  shows "tracker_ok (tracker_step e t)"
proof (cases "tr_fired t")
  case True
  with assms show ?thesis
    by (cases e) (auto simp: markRunning_def markSettled_def markConversationEnded_def split: option.splits)
next
  case False
  with assms(1) have t: "\<not> tr_released t" "\<not> round_complete t" "tr_completions t = 0"
    by (simp_all add: tracker_ok_def)
  show ?thesis
  proof (cases e)
    case (ERunning source new)
    then show ?thesis
      using assms(1) False t round_complete_running [OF t(2)]
      by (auto simp: markRunning_def tracker_ok_def split: option.splits)
  next
    case (ESettled source)
    then show ?thesis using assms(1) False t by (auto simp: markSettled_def intro!: maybeComplete_ok)
  next
    case EEnded
    then show ?thesis using False t by (auto simp: markConversationEnded_def intro!: maybeComplete_ok)
  qed (use assms(2) in simp)
qed

lemma fold_not_settled: "list_all (\<lambda>e. snd e \<noteq> Settled) m \<Longrightarrow> list_all (\<lambda>e. snd e \<noteq> Settled) (fold (\<lambda>i. omap_set i Expected) ids m)"
proof (induction ids arbitrary: m)
  case (Cons i ids)
  have "list_all (\<lambda>e. snd e \<noteq> Settled) (omap_set i Expected m)"
    using Cons.prems set_omap_set_subset [of i Expected m] by (auto simp: list_all_iff)
  with Cons.IH show ?case by simp
qed simp

lemma create_ok: "tracker_ok (createSettleTracker mode ids known)"
proof -
  have "\<not> all_settled (createSettleTracker mode ids known)"
    using fold_not_settled [of "[]" "uniqueEmployeeIds ids"]
    by (cases "tr_participants (createSettleTracker mode ids known)")
      (auto simp: all_settled_def createSettleTracker_def list_all_iff)
  then show ?thesis by (simp add: tracker_ok_def round_complete_def) (simp add: createSettleTracker_def)
qed

text \<open>The tracker's states until its release keep the invariant.\<close>

interpretation tracking: invariant_system
  "\<lambda>t. \<exists>mode ids known. t = createSettleTracker mode ids known" "\<lambda>t u. \<exists>e. e \<noteq> ERelease \<and> u = tracker_step e t" tracker_ok
  by unfold_locales (auto simp: create_ok tracker_step_ok)

lemma steps_of_events:
  "ERelease \<notin> set events \<Longrightarrow> steps (\<lambda>t u. \<exists>e. e \<noteq> ERelease \<and> u = tracker_step e t) t (fold tracker_step events t)"
proof (induction events rule: rev_induct)
  case (snoc e es)
  then have "steps (\<lambda>t u. \<exists>e. e \<noteq> ERelease \<and> u = tracker_step e t) t (fold tracker_step es t)" by simp
  then have "steps (\<lambda>t u. \<exists>e. e \<noteq> ERelease \<and> u = tracker_step e t) t (tracker_step e (fold tracker_step es t))"
    by (rule steps.steps_snoc) (use snoc.prems in \<open>auto intro!: exI [of _ e]\<close>)
  then show ?case by simp
qed (simp add: steps.steps_refl)

lemma released_never_fires:
  "tr_released t \<Longrightarrow> tr_completions (fold tracker_step events t) = tr_completions t"
proof (induction events arbitrary: t)
  case (Cons e es)
  have "tr_released (tracker_step e t) \<and> tr_completions (tracker_step e t) = tr_completions t"
    using Cons.prems
    by (cases e) (auto simp: markRunning_def markSettled_def markConversationEnded_def tracker_release_def split: option.splits)
  with Cons.IH show ?case by simp
qed simp

section \<open>Properties\<close>



end
