(* ===== verification/Notification_Policy.thy ===== *)
theory Notification_Policy
  imports Js_Regex
begin

text \<open>
  \<open>clients/desktop/src/lib/notificationPolicy.ts\<close>: the stored notification preference of a member,
  the target a system notification carries, and when a finished answer is announced.  The browser's
  \<open>localStorage\<close> is a map that may be missing and whose calls may throw; \<open>encodeURIComponent\<close> is a
  parameter.  Notification texts are constants of the user interface and are not modelled.
\<close>

datatype preference = PrefEnabled | PrefDisabled
datatype preference_status = PrefAvailable | PrefUnavailable | PrefInvalid
datatype target_kind = ChatTarget | GroupTarget

text \<open>\<open>localStorage\<close>: its items, and whether reading or writing throws.\<close>

record web_storage =
  ws_items :: "(string, string) omap"
  ws_readFails :: bool
  ws_writeFails :: bool

record notification_target =
  nt_kind :: target_kind
  nt_conversation :: string

definition TARGET_ID_PATTERN :: "string \<Rightarrow> bool" where
  "TARGET_ID_PATTERN s \<longleftrightarrow> s \<noteq> [] \<and> length s \<le> 128 \<and> list_all (\<lambda>c. is_alnum c \<or> c = CHR ''_'' \<or> c = CHR ''-'') s"

definition buildNotificationStorageKey :: "(string \<Rightarrow> string) \<Rightarrow> string option \<Rightarrow> string option \<Rightarrow> string option" where
  "buildNotificationStorageKey encode tenant member =
     (let t = js_trim (nullish tenant []); m = js_trim (nullish member [])
      in if t = [] \<or> m = [] then None
         else Some (''aifred.notifications.v1'' @ '':'' @ encode t @ '':'' @ encode m))"

definition parseNotificationPreference :: "jsval \<Rightarrow> preference" where
  "parseNotificationPreference v = (if v = JStr ''enabled'' then PrefEnabled else PrefDisabled)"

definition preference_text :: "preference \<Rightarrow> string" where
  "preference_text p = (case p of PrefEnabled \<Rightarrow> ''enabled'' | PrefDisabled \<Rightarrow> ''disabled'')"

definition readNotificationPreferenceResult ::
  "string option \<Rightarrow> web_storage option \<Rightarrow> preference \<times> preference_status" where
  "readNotificationPreferenceResult key storage =
     (case (key, storage) of
        (Some k, Some st) \<Rightarrow>
          if k = [] then (PrefDisabled, PrefUnavailable)
          else if ws_readFails st then (PrefDisabled, PrefUnavailable)
          else (case omap_get (ws_items st) k of
                  None \<Rightarrow> (PrefDisabled, PrefAvailable)
                | Some stored \<Rightarrow>
                    if stored = ''disabled'' then (PrefDisabled, PrefAvailable)
                    else if stored = ''enabled'' then (PrefEnabled, PrefAvailable)
                    else (PrefDisabled, PrefInvalid))
      | _ \<Rightarrow> (PrefDisabled, PrefUnavailable))"

definition readNotificationPreference :: "string option \<Rightarrow> web_storage option \<Rightarrow> preference" where
  "readNotificationPreference key storage = fst (readNotificationPreferenceResult key storage)"

definition writeNotificationPreference ::
  "string option \<Rightarrow> preference \<Rightarrow> web_storage option \<Rightarrow> bool \<times> web_storage option" where
  "writeNotificationPreference key p storage =
     (case (key, storage) of
        (Some k, Some st) \<Rightarrow>
          if k = [] \<or> ws_writeFails st then (False, storage)
          else (True, Some (st\<lparr>ws_items := omap_set k (preference_text p) (ws_items st)\<rparr>))
      | _ \<Rightarrow> (False, storage))"

definition buildNotificationTarget :: "target_kind \<Rightarrow> string \<Rightarrow> notification_target option" where
  "buildNotificationTarget kind i =
     (if TARGET_ID_PATTERN i then Some \<lparr> nt_kind = kind, nt_conversation = i \<rparr> else None)"

text \<open>The value a target is sent as, and the checks on one that comes back.\<close>

definition target_value :: "notification_target \<Rightarrow> jsval" where
  "target_value t = JObj [(''source'', JStr ''aifred-desktop''), (''version'', JNum (Fin 1)),
     (''kind'', JStr (case nt_kind t of ChatTarget \<Rightarrow> ''chat'' | GroupTarget \<Rightarrow> ''group'')),
     (''conversationId'', JStr (nt_conversation t))]"

definition parse_kind :: "jsval \<Rightarrow> target_kind option" where
  "parse_kind v = (if v = JStr ''chat'' then Some ChatTarget else if v = JStr ''group'' then Some GroupTarget else None)"

definition parseNotificationTarget :: "jsval \<Rightarrow> notification_target option" where
  "parseNotificationTarget v =
     (if \<not> is_object v \<or> js_field v ''source'' \<noteq> JStr ''aifred-desktop'' \<or> js_field v ''version'' \<noteq> JNum (Fin 1) then None
      else (case (parse_kind (js_field v ''kind''), js_field v ''conversationId'') of
              (Some kind, JStr i) \<Rightarrow> buildNotificationTarget kind i
            | _ \<Rightarrow> None))"

definition resolveNotificationNavigation :: "jsval \<Rightarrow> string list \<Rightarrow> string list \<Rightarrow> notification_target option" where
  "resolveNotificationNavigation v conversations groups =
     (case parseNotificationTarget v of
        None \<Rightarrow> None
      | Some t \<Rightarrow>
          if nt_conversation t \<in> set (if nt_kind t = GroupTarget then groups else conversations) then Some t else None)"

definition navigation_path :: "target_kind \<Rightarrow> string" where
  "navigation_path kind = (if kind = GroupTarget then ''/group-chat'' else ''/chat'')"

text \<open>The actions in the order \<open>activateNotificationTarget\<close> calls them.\<close>

datatype navigation_action = SetActiveConversation string | SetActiveGroup string | Navigate string

definition activateNotificationTarget :: "jsval \<Rightarrow> string list \<Rightarrow> string list \<Rightarrow> bool \<times> navigation_action list" where
  "activateNotificationTarget v conversations groups =
     (case resolveNotificationNavigation v conversations groups of
        None \<Rightarrow> (False, [])
      | Some t \<Rightarrow>
          (True, [if nt_kind t = GroupTarget then SetActiveGroup (nt_conversation t) else SetActiveConversation (nt_conversation t),
                  Navigate (navigation_path (nt_kind t))]))"

record completion_context =
  cc_preference :: preference
  cc_permission :: bool
  cc_tauri :: bool
  cc_visible :: bool
  cc_focused :: bool
  cc_pathname :: string
  cc_activeConversation :: string
  cc_activeGroup :: string
  cc_target :: notification_target

definition shouldSendCompletionNotification :: "completion_context \<Rightarrow> bool" where
  "shouldSendCompletionNotification x =
     (if cc_preference x \<noteq> PrefEnabled then False
      else if \<not> cc_permission x \<or> \<not> cc_tauri x then False
      else (let currentChat = nt_kind (cc_target x) = ChatTarget \<and> prefix ''/chat'' (cc_pathname x)
                  \<and> cc_activeConversation x = nt_conversation (cc_target x);
                currentGroup = nt_kind (cc_target x) = GroupTarget \<and> prefix ''/group-chat'' (cc_pathname x)
                  \<and> cc_activeGroup x = nt_conversation (cc_target x)
            in \<not> (cc_visible x \<and> cc_focused x \<and> (currentChat \<or> currentGroup))))"

section \<open>Facts\<close>

lemma parse_target_value:
  "buildNotificationTarget kind i = Some t \<Longrightarrow> parseNotificationTarget (target_value t) = Some t"
  by (cases kind) (auto simp: buildNotificationTarget_def parseNotificationTarget_def target_value_def parse_kind_def split: if_splits)

lemma parse_target_pattern: "parseNotificationTarget v = Some t \<Longrightarrow> TARGET_ID_PATTERN (nt_conversation t)"
  by (auto simp: parseNotificationTarget_def buildNotificationTarget_def split: if_splits option.splits jsval.splits)

text \<open>A written preference is read back; a failed write changes nothing.\<close>

lemma read_written_preference:
  assumes "writeNotificationPreference key p storage = (True, storage')" "\<not> ws_readFails (the storage)"
  shows "readNotificationPreferenceResult key storage' = (p, PrefAvailable)"
  using assms
  by (cases p) (auto simp: writeNotificationPreference_def readNotificationPreferenceResult_def preference_text_def
      split: option.splits if_splits)

lemma failed_write_unchanged: "writeNotificationPreference key p storage = (False, storage') \<Longrightarrow> storage' = storage"
  by (auto simp: writeNotificationPreference_def split: option.splits if_splits)

section \<open>Properties\<close>

text \<open>Whatever value a clicked notification carries, the application acts on it only when it names a conversation
  the member has, of the kind it says, and then opens exactly that conversation on the page of its kind.\<close>

theorem notification_opens_known_conversation:
  assumes "activateNotificationTarget v conversations groups = (done, actions)"
  shows "done \<and> (\<exists>i. (i \<in> set conversations \<and> actions = [SetActiveConversation i, Navigate ''/chat''])
            \<or> (i \<in> set groups \<and> actions = [SetActiveGroup i, Navigate ''/group-chat'']))
    \<or> \<not> done \<and> actions = []"
  using assms
  by (auto simp: activateNotificationTarget_def resolveNotificationNavigation_def navigation_path_def
      split: option.splits if_splits)

theorem notification_opens_known_conversation_witness:
  "activateNotificationTarget (target_value \<lparr> nt_kind = GroupTarget, nt_conversation = ''g1'' \<rparr>) [''c1''] [''g1'']
     = (True, [SetActiveGroup ''g1'', Navigate ''/group-chat''])
   \<and> activateNotificationTarget (target_value \<lparr> nt_kind = ChatTarget, nt_conversation = ''g1'' \<rparr>) [''c1''] [''g1''] = (False, [])"
proof -
  have 1: "activateNotificationTarget (target_value \<lparr> nt_kind = GroupTarget, nt_conversation = ''g1'' \<rparr>) [''c1''] [''g1'']
      = (True, [SetActiveGroup ''g1'', Navigate ''/group-chat''])" by code_simp
  have 2: "activateNotificationTarget (target_value \<lparr> nt_kind = ChatTarget, nt_conversation = ''g1'' \<rparr>) [''c1''] [''g1''] = (False, [])"
    by code_simp
  from notification_opens_known_conversation [OF 1] notification_opens_known_conversation [OF 2] 1 2 show ?thesis by simp
qed

end
