(* ===== verification/Office_Milestones.thy ===== *)
theory Office_Milestones
  imports Prelude
begin

text \<open>
  \<open>clients/desktop/src/lib/officeMilestones.ts\<close>: the milestones the office view derives from the event
  stream, and their storage for the current day.  The user interface's labels, which are not ASCII,
  are the fields of \<open>label_texts\<close>; \<open>JSON.stringify\<close> and \<open>JSON.parse\<close> of the stored shape are
  parameters.
\<close>

datatype milestone_kind =
    RunStart | ToolStart | ToolEnd | RetryStart | Compaction | ApprovalNeeded | RunEnd | SettledRun | RecordDone

datatype milestone_level = InfoLevel | WarnLevel | ActionLevel

record milestone =
  ml_key :: string
  ml_at :: ms
  ml_employee :: string
  ml_employeeId :: "string option"
  ml_conversation :: string
  ml_work :: "string option"
  ml_kind :: milestone_kind
  ml_label :: string
  ml_level :: milestone_level
  ml_done :: "bool option"

record milestone_shape =
  mp_date :: string
  mp_lastEvents :: "(string, string) omap"
  mp_items :: "milestone list"

record label_texts =
  lt_start :: string
  lt_tool :: "string \<Rightarrow> string"
  lt_toolEnd :: "string \<Rightarrow> bool \<Rightarrow> string"
  lt_retry :: "nat option \<Rightarrow> nat option \<Rightarrow> string"
  lt_compaction :: string
  lt_approval :: string
  lt_end :: "string option \<Rightarrow> string"
  lt_settled :: string

definition MAX_ITEMS :: nat where
  "MAX_ITEMS = 200"

section \<open>Events\<close>

record stream_event =
  ev_type :: string
  ev_conversation :: "string option"
  ev_toolCall :: "string option"
  ev_toolCallCamel :: "string option"
  ev_work :: "string option"
  ev_employeeName :: "string option"
  ev_employeeId :: "string option"
  ev_toolName :: "string option"
  ev_isError :: "bool option"
  ev_attempt :: "nat option"
  ev_maxAttempts :: "nat option"
  ev_reason :: "string option"

record milestone_fallback =
  mf_employee :: string
  mf_employeeId :: "string option"
  mf_conversation :: string

definition or_else :: "'a option \<Rightarrow> 'a option \<Rightarrow> 'a option" where
  "or_else a b = (case a of None \<Rightarrow> b | Some _ \<Rightarrow> a)"

definition event_conversation :: "stream_event \<Rightarrow> milestone_fallback \<Rightarrow> string" where
  "event_conversation e f = nullish (ev_conversation e) (mf_conversation f)"

definition milestone_base :: "stream_event \<Rightarrow> milestone_fallback \<Rightarrow> ms \<Rightarrow> string \<Rightarrow> milestone_kind \<Rightarrow> string \<Rightarrow> milestone_level \<Rightarrow> milestone" where
  "milestone_base e f now key kind label level =
     \<lparr> ml_key = key, ml_at = now, ml_employee = nullish (ev_employeeName e) (mf_employee f),
       ml_employeeId = or_else (ev_employeeId e) (mf_employeeId f), ml_conversation = event_conversation e f, ml_work = ev_work e,
       ml_kind = kind, ml_label = label, ml_level = level, ml_done = None \<rparr>"

definition tool_key :: "string \<Rightarrow> string \<Rightarrow> string" where
  "tool_key conv call = conv @ '':tool:'' @ call"

text \<open>The branches of the \<open>switch\<close>; an empty tool call id is falsy.\<close>

definition mapSseToMilestone ::
  "label_texts \<Rightarrow> ms \<Rightarrow> stream_event \<Rightarrow> string option \<Rightarrow> milestone_fallback \<Rightarrow> milestone option" where
  "mapSseToMilestone lt now e eventId f =
     (let conv = event_conversation e f;
          call = or_else (ev_toolCall e) (ev_toolCallCamel e);
          run = nullish (or_else (ev_work e) eventId) ''run'';
          base = milestone_base e f now
      in if ev_type e = ''reconciliation'' then None
         else if ev_type e = ''agent_start'' then Some (base (conv @ '':'' @ run @ '':start'') RunStart (lt_start lt) InfoLevel)
         else if ev_type e = ''tool_execution_start'' then
           (if call = None \<or> call = Some [] then None
            else Some ((base (tool_key conv (the call)) ToolStart (lt_tool lt (nullish (ev_toolName e) ''unknown'')) InfoLevel)
                   \<lparr>ml_done := Some False\<rparr>))
         else if ev_type e = ''tool_execution_end'' then
           (if call = None \<or> call = Some [] then None
            else Some ((base (tool_key conv (the call)) ToolEnd
                     (lt_toolEnd lt (nullish (ev_toolName e) ''unknown'') (ev_isError e = Some True))
                     (if ev_isError e = Some True then WarnLevel else InfoLevel))\<lparr>ml_done := Some True\<rparr>))
         else if ev_type e = ''auto_retry_start'' then
           Some (base (conv @ '':retry:'' @ nullish (ev_work e) [] @ '':'' @ nullish (or_else (map_option dec (ev_attempt e)) eventId) [])
                  RetryStart (lt_retry lt (ev_attempt e) (ev_maxAttempts e)) WarnLevel)
         else if ev_type e = ''compaction_start'' then
           Some (base (conv @ '':compact:'' @ nullish (or_else (ev_work e) eventId) (dec (nat now))) Compaction (lt_compaction lt) InfoLevel)
         else if ev_type e = ''approval_required'' then
           Some (base (conv @ '':approval:'' @ nullish (or_else call (or_else eventId (ev_work e))) (dec (nat now)))
                  ApprovalNeeded (lt_approval lt) ActionLevel)
         else if ev_type e = ''agent_end'' then
           Some (base (conv @ '':'' @ run @ '':end'') RunEnd (lt_end lt (ev_reason e))
                  (if ev_reason e = Some ''error'' then WarnLevel else InfoLevel))
         else if ev_type e = ''agent_settled'' then
           Some (base (conv @ '':'' @ run @ '':settled'') SettledRun (lt_settled lt) InfoLevel)
         else None)"

text \<open>\<open>result.slice(-MAX_ITEMS)\<close>\<close>

definition newest_items :: "'a list \<Rightarrow> 'a list" where
  "newest_items xs = drop (length xs - MAX_ITEMS) xs"

definition upsertMilestone :: "milestone list \<Rightarrow> milestone \<Rightarrow> milestone list" where
  "upsertMilestone items m =
     (let result = (case find_index (\<lambda>x. ml_key x = ml_key m) items of
                      Some i \<Rightarrow> items[i := m\<lparr>ml_at := ml_at (items ! i)\<rparr>]
                    | None \<Rightarrow> items @ [m])
      in if length result > MAX_ITEMS then newest_items result else result)"

section \<open>Storage\<close>

text \<open>
  What \<open>JSON.parse\<close> gives for the stored text: \<open>None\<close> when it throws or is falsy; items without a
  string key are \<open>None\<close>.
\<close>

record parsed_shape =
  pp_date :: "string option"
  pp_lastEvents :: "(string, string) omap option"
  pp_items :: "milestone option list option"

definition emptyShape :: "string \<Rightarrow> milestone_shape" where
  "emptyShape date = \<lparr> mp_date = date, mp_lastEvents = [], mp_items = [] \<rparr>"

definition loadMilestoneStorage :: "(string \<Rightarrow> parsed_shape option) \<Rightarrow> string \<Rightarrow> string option \<Rightarrow> milestone_shape" where
  "loadMilestoneStorage parse today raw =
     (case raw of
        None \<Rightarrow> emptyShape today
      | Some text \<Rightarrow>
          if text = [] then emptyShape today
          else (case parse text of
                  None \<Rightarrow> emptyShape today
                | Some p \<Rightarrow>
                    (case pp_items p of
                       Some items \<Rightarrow>
                         if pp_date p = Some today
                         then \<lparr> mp_date = today, mp_lastEvents = nullish (pp_lastEvents p) [], mp_items = map the (filter (\<lambda>x. x \<noteq> None) items) \<rparr>
                         else emptyShape today
                     | None \<Rightarrow> emptyShape today)))"

text \<open>The text \<open>saveMilestoneStorage\<close> stores; a write that throws leaves what was stored.\<close>

definition saveMilestoneStorage :: "(milestone_shape \<Rightarrow> string) \<Rightarrow> bool \<Rightarrow> milestone_shape \<Rightarrow> string option \<Rightarrow> string option" where
  "saveMilestoneStorage stringify fails state stored =
     (if fails then stored else Some (stringify (state\<lparr>mp_items := newest_items (mp_items state)\<rparr>)))"

section \<open>Facts\<close>

lemma length_newest [simp]: "length (newest_items xs) \<le> MAX_ITEMS"
  by (simp add: newest_items_def)

lemma newest_short [simp]: "length xs \<le> MAX_ITEMS \<Longrightarrow> newest_items xs = xs"
  by (simp add: newest_items_def)

lemma upsert_keys:
  "distinct (map ml_key items) \<Longrightarrow> distinct (map ml_key (upsertMilestone items m)) \<and> length (upsertMilestone items m) \<le> MAX_ITEMS"
proof (cases "find_index (\<lambda>x. ml_key x = ml_key m) items")
  case None
  assume "distinct (map ml_key items)"
  with None have "distinct (map ml_key (items @ [m]))" by (auto simp: find_index_None)
  then have "distinct (map ml_key (newest_items (items @ [m])))"
    unfolding newest_items_def by (metis distinct_drop drop_map)
  with None \<open>distinct (map ml_key (items @ [m]))\<close> show ?thesis
    by (simp add: upsertMilestone_def Let_def del: map_append)
next
  case (Some i)
  assume d: "distinct (map ml_key items)"
  from Some have i: "i < length items" "ml_key (items ! i) = ml_key m" by (auto dest: find_index_Some)
  let ?r = "items[i := m\<lparr>ml_at := ml_at (items ! i)\<rparr>]"
  have "map ml_key ?r = (map ml_key items)[i := ml_key m]" by (simp add: map_update)
  then have "map ml_key ?r = map ml_key items" using i by (metis list_update_id nth_map)
  with d have "distinct (map ml_key ?r)" by simp
  moreover have "distinct (map ml_key (newest_items ?r))"
    unfolding newest_items_def by (metis calculation distinct_drop drop_map)
  ultimately show ?thesis using Some by (simp add: upsertMilestone_def Let_def)
qed

text \<open>The end of a tool call replaces its start and keeps the time it was first seen.\<close>

lemma tool_end_updates_start:
  assumes "find_index (\<lambda>x. ml_key x = ml_key m) items = Some i" "length items \<le> MAX_ITEMS"
  shows "upsertMilestone items m = items[i := m\<lparr>ml_at := ml_at (items ! i)\<rparr>]"
  using assms by (simp add: upsertMilestone_def Let_def)

lemma tool_events_share_key:
  assumes "mapSseToMilestone lt now e eventId f = Some m" "mapSseToMilestone lt now' (e\<lparr>ev_type := ''tool_execution_end''\<rparr>) eventId' f = Some m'"
    "ev_type e = ''tool_execution_start''"
  shows "ml_key m' = ml_key m"
  using assms by (auto simp: mapSseToMilestone_def Let_def milestone_base_def event_conversation_def split: if_splits)

lemma load_saved:
  assumes "\<And>shape. parse (stringify shape) = Some \<lparr> pp_date = Some (mp_date shape), pp_lastEvents = Some (mp_lastEvents shape),
      pp_items = Some (map Some (mp_items shape)) \<rparr>" "\<And>shape. stringify shape \<noteq> []"
  shows "loadMilestoneStorage parse today (saveMilestoneStorage stringify False state stored)
    = (if mp_date state = today then state\<lparr>mp_items := newest_items (mp_items state)\<rparr> else emptyShape today)"
proof -
  have "map the (filter (\<lambda>x. x \<noteq> None) (map Some xs)) = xs" for xs :: "milestone list" by (induction xs) auto
  then show ?thesis
    using assms by (auto simp: loadMilestoneStorage_def saveMilestoneStorage_def)
qed

end
