(* ===== verification/Schedule_Service.thy ===== *)
theory Schedule_Service
  imports Usage_Outbox Prompt_Receipts
begin

text \<open>
  \<open>ScheduleService\<close> of \<open>schedule.ts\<close>: the periodic tick that finds due occurrences, reserves a prompt
  for each and hands it to the session host, and what happens when the prompt settles.  The tick
  visits the conversations it read at its start one after the other; each visit is one step, since
  the code awaits only behind a visit.  A call of \<open>host.prompt\<close> is an entry of \<open>ss_calls\<close> with the
  variables its continuation captured; \<open>schedule_settle\<close> is that continuation.  \<open>prompting\<close> is
  \<open>host.isPrompting\<close>, \<open>fresh\<close> the value of \<open>randomUUID()\<close> in the reservation of a conversation and
  \<open>clock\<close> the time of the authorization registry.
\<close>

record schedule_env =
  sv_temporal :: temporal_env
  sv_sha256 :: "string \<Rightarrow> string"
  sv_iso :: "ms \<Rightarrow> string"
  sv_fingerprint :: "string \<Rightarrow> string \<Rightarrow> string \<Rightarrow> string"
  sv_texts :: outbox_env
  sv_instance :: string

record retryable =
  ry_scheduleId :: string
  ry_occurrence :: ms
  ry_revision :: int
  ry_generation :: nat

record launch_call =
  lc_conversation :: conversation
  lc_caller :: caller
  lc_key :: string
  lc_owner :: "string option"
  lc_generation :: "nat option"
  lc_schedule :: schedule
  lc_occurrence :: ms

record schedule_service =
  ss_store :: store
  ss_auth :: "auth_registry option"
  ss_timer :: bool
  ss_lastTick :: "ms option"
  ss_retryable :: "(string, retryable) omap"
  ss_calls :: "launch_call list"

definition schedule_start :: "ms \<Rightarrow> schedule_service \<Rightarrow> schedule_service" where
  "schedule_start now s = (if ss_timer s then s else s\<lparr>ss_timer := True, ss_lastTick := Some now\<rparr>)"

definition schedule_stop :: "schedule_service \<Rightarrow> schedule_service" where
  "schedule_stop s = s\<lparr>ss_timer := False\<rparr>"

section \<open>Launching\<close>

text \<open>\<open>options.authorization?.resolve(tenant, member, { requireAccessToken: true })\<close>\<close>

definition resolve_owner :: "string \<Rightarrow> string \<Rightarrow> rat \<Rightarrow> schedule_service \<Rightarrow> caller option \<times> schedule_service" where
  "resolve_owner tenant member clock s =
     (case ss_auth s of
        None \<Rightarrow> (None, s)
      | Some reg \<Rightarrow>
          (let r = auth_resolve tenant member True clock reg in (fst r, s\<lparr>ss_auth := Some (snd r)\<rparr>)))"

definition occurrence_key :: "schedule_env \<Rightarrow> schedule \<Rightarrow> ms \<Rightarrow> conversation \<Rightarrow> string" where
  "occurrence_key env sched occ c = sv_sha256 env (encodeScope [sc_id sched, sv_iso env occ, cv_id c])"

definition observe ::
  "schedule_env \<Rightarrow> conversation \<Rightarrow> schedule \<Rightarrow> ms \<Rightarrow> string \<Rightarrow> schedule_service \<Rightarrow> store_error + schedule_service" where
  "observe env c sched occ reason s =
     (case record_occurrence \<lparr> oc_id = occurrence_key env sched occ c, oc_conversation = cv_id c, oc_tenant = nullish (cv_tenant c) [],
         oc_member = nullish (cv_member c) [], oc_schedule = sc_id sched, oc_at = occ, oc_revision = sc_revision sched,
         oc_caller = None, oc_receipt = None, oc_reason = Some reason \<rparr> (ss_store s) of
        Inl e \<Rightarrow> Inl e
      | Inr st \<Rightarrow> Inr (s\<lparr>ss_store := st\<rparr>))"

definition schedule_caller :: "conversation \<Rightarrow> caller" where
  "schedule_caller c =
     \<lparr> ca_callerId = ''schedule:'' @ nullish (cv_tenant c) [] @ '':'' @ nullish (cv_member c) [], ca_accessToken = None,
       ca_tenantId = cv_tenant c, ca_userId = cv_member c, ca_roles = None, ca_claims = None \<rparr>"

definition launch_reservation :: "schedule_env \<Rightarrow> conversation \<Rightarrow> schedule \<Rightarrow> ms \<Rightarrow> caller \<Rightarrow> reservation" where
  "launch_reservation env c sched occ who =
     \<lparr> rp_conversation = cv_id c, rp_caller = ca_callerId who, rp_key = occurrence_key env sched occ c,
       rp_fingerprint = sv_fingerprint env (sc_prompt sched) (sc_id sched) (sv_iso env occ), rp_leaseMs = None,
       rp_oneShot = sc_oneShot sched, rp_scheduleId = Some (sc_id sched), rp_scheduleRevision = Some (sc_revision sched),
       rp_scheduleGeneration = Some (cv_generation c), rp_clearRetry = True, rp_occurrenceAt = Some occ \<rparr>"

definition forget_retry :: "string \<Rightarrow> schedule_service \<Rightarrow> schedule_service" where
  "forget_retry i s = s\<lparr>ss_retryable := omap_delete i (ss_retryable s)\<rparr>"

text \<open>\<open>launch\<close>: true when the prompt was handed to the host; other store errors escape.\<close>

definition start_prompt ::
  "schedule_env \<Rightarrow> ms \<Rightarrow> string \<Rightarrow> conversation \<Rightarrow> schedule \<Rightarrow> ms \<Rightarrow> caller \<Rightarrow> schedule_service
     \<Rightarrow> store_error + bool \<times> schedule_service" where
  "start_prompt env now uuid c sched occ who s =
     (case reservePrompt (launch_reservation env c sched occ who) uuid now (ss_store s) of
        (Inl e, st) \<Rightarrow>
          if e = IdempotencyUnknown \<or> e = IdempotencyConflict \<or> e = ScheduleRevisionConflict
          then Inr (False, forget_retry (cv_id c) (s\<lparr>ss_store := st\<rparr>)) else Inl e
      | (Inr receipt, st) \<Rightarrow>
          if \<not> rv_isNew receipt then Inr (False, forget_retry (cv_id c) (s\<lparr>ss_store := st\<rparr>))
          else Inr (True, s\<lparr>ss_store := st, ss_calls := ss_calls s @
                 [\<lparr> lc_conversation = c, lc_caller = who, lc_key = occurrence_key env sched occ c,
                    lc_owner = rc_owner (rv_receipt receipt), lc_generation = rv_generation receipt,
                    lc_schedule = sched, lc_occurrence = occ \<rparr>]\<rparr>))"

definition launch ::
  "schedule_env \<Rightarrow> ms \<Rightarrow> rat \<Rightarrow> string \<Rightarrow> conversation \<Rightarrow> schedule \<Rightarrow> ms \<Rightarrow> schedule_service
     \<Rightarrow> store_error + bool \<times> schedule_service" where
  "launch env now clock uuid c sched occ s =
     (let (resolved, s1) = resolve_owner (nullish (cv_tenant c) []) (nullish (cv_member c) []) clock s
      in if ss_auth s \<noteq> None \<and> resolved = None then Inr (False, s1)
         else start_prompt env now uuid c sched occ (nullish resolved (schedule_caller c)) s1)"

section \<open>The tick\<close>

definition retry_fits :: "retryable \<Rightarrow> schedule \<Rightarrow> conversation \<Rightarrow> bool" where
  "retry_fits r sched c \<longleftrightarrow> ry_revision r = sc_revision sched \<and> ry_scheduleId r = sc_id sched \<and> ry_generation r = cv_generation c"

definition persisted_fits :: "schedule_retry \<Rightarrow> schedule \<Rightarrow> conversation \<Rightarrow> bool" where
  "persisted_fits r sched c \<longleftrightarrow> sr_scheduleId r = sc_id sched \<and> sr_revision r = sc_revision sched \<and> sr_generation r = cv_generation c"

text \<open>The retry markers that no longer belong to the schedule are dropped.\<close>

definition drop_stale :: "schedule \<Rightarrow> conversation \<Rightarrow> schedule_retry option \<Rightarrow> schedule_service \<Rightarrow> schedule_service" where
  "drop_stale sched c persisted s =
     (let s1 = (case omap_get (ss_retryable s) (cv_id c) of
                  Some r \<Rightarrow> if retry_fits r sched c then s else forget_retry (cv_id c) s
                | None \<Rightarrow> s)
      in case persisted of
           Some r \<Rightarrow> if persisted_fits r sched c then s1 else s1\<lparr>ss_store := clearScheduleRetry (cv_id c) (ss_store s1)\<rparr>
         | None \<Rightarrow> s1)"

definition disable_retry :: "conversation \<Rightarrow> schedule_retry option \<Rightarrow> schedule_service \<Rightarrow> schedule_service" where
  "disable_retry c persisted s =
     (let s1 = forget_retry (cv_id c) s
      in if persisted \<noteq> None then s1\<lparr>ss_store := clearScheduleRetry (cv_id c) (ss_store s1)\<rparr> else s1)"

text \<open>The occurrence to launch and whether it is a retry.\<close>

definition due_occurrence ::
  "schedule_env \<Rightarrow> ms \<Rightarrow> ms \<Rightarrow> schedule \<Rightarrow> conversation \<Rightarrow> schedule_retry option \<Rightarrow> schedule_service \<Rightarrow> (ms \<times> bool) option" where
  "due_occurrence env previous now sched c persisted s =
     (case filter (\<lambda>r. retry_fits r sched c) (case omap_get (ss_retryable s) (cv_id c) of Some r \<Rightarrow> [r] | None \<Rightarrow> []) of
        r # _ \<Rightarrow> Some (ry_occurrence r, True)
      | [] \<Rightarrow>
          (case filter (\<lambda>r. persisted_fits r sched c) (case persisted of Some r \<Rightarrow> [r] | None \<Rightarrow> []) of
             r # _ \<Rightarrow> Some (sr_occurrence r, True)
           | [] \<Rightarrow> map_option (\<lambda>t. (t, False)) (occurrenceBetween (sv_temporal env) sched previous now)))"

record tick_state =
  tk_service :: schedule_service
  tk_launched :: nat
  tk_blocked :: bool

text \<open>An owner without a usable identity blocks the tick; without a registry nobody is asked.\<close>

definition owner_blocked :: "conversation \<Rightarrow> rat \<Rightarrow> schedule_service \<Rightarrow> bool \<times> schedule_service" where
  "owner_blocked c clock s =
     (let (resolved, s1) = resolve_owner (nullish (cv_tenant c) []) (nullish (cv_member c) []) clock s
      in (ss_auth s \<noteq> None \<and> resolved = None, s1))"

definition tick_launch ::
  "schedule_env \<Rightarrow> ms \<Rightarrow> rat \<Rightarrow> string \<Rightarrow> conversation \<Rightarrow> schedule \<Rightarrow> ms \<times> bool \<Rightarrow> tick_state \<Rightarrow> store_error + tick_state" where
  "tick_launch env now clock uuid c sched due t =
     (case launch env now clock uuid c sched (fst due) (tk_service t) of
        Inl e \<Rightarrow> Inl e
      | Inr (started, s1) \<Rightarrow>
          (let s2 = (if started \<and> snd due then forget_retry (cv_id c) s1 else s1);
               (blocked, s3) = owner_blocked c clock s2
           in Inr \<lparr> tk_service = s3, tk_launched = tk_launched t + (if started then 1 else 0), tk_blocked = tk_blocked t \<or> blocked \<rparr>))"

definition tick_due ::
  "schedule_env \<Rightarrow> ms \<Rightarrow> rat \<Rightarrow> (string \<Rightarrow> bool) \<Rightarrow> (string \<Rightarrow> string) \<Rightarrow> conversation \<Rightarrow> schedule \<Rightarrow> ms \<times> bool
     \<Rightarrow> tick_state \<Rightarrow> store_error + tick_state" where
  "tick_due env now clock prompting fresh c sched due t =
     (if prompting (cv_id c)
      then (case observe env c sched (fst due) ''overlap_skip'' (tk_service t) of
              Inl e \<Rightarrow> Inl e | Inr s \<Rightarrow> Inr (t\<lparr>tk_service := s\<rparr>))
      else (let (blocked, s1) = owner_blocked c clock (tk_service t)
            in if blocked
               then (case observe env c sched (fst due) ''authorization_required'' s1 of
                       Inl e \<Rightarrow> Inl e | Inr s \<Rightarrow> Inr (t\<lparr>tk_service := s, tk_blocked := True\<rparr>))
               else tick_launch env now clock (fresh (cv_id c)) c sched due (t\<lparr>tk_service := s1\<rparr>)))"

definition tick_conversation ::
  "schedule_env \<Rightarrow> ms \<Rightarrow> ms \<Rightarrow> rat \<Rightarrow> (string \<Rightarrow> bool) \<Rightarrow> (string \<Rightarrow> string) \<Rightarrow> conversation \<times> schedule_retry option
     \<Rightarrow> tick_state \<Rightarrow> store_error + tick_state" where
  "tick_conversation env previous now clock prompting fresh entry t =
     (let c = fst entry; persisted = snd entry
      in case validateSchedule (sv_temporal env) (nullish (cv_schedule c) JUndef) of
           Inl _ \<Rightarrow> Inr t
         | Inr sched \<Rightarrow>
             if nullish (cv_tenant c) [] = [] \<or> nullish (cv_member c) [] = [] then Inr t
             else (let s1 = drop_stale sched c persisted (tk_service t)
                   in if \<not> sc_enabled sched then Inr (t\<lparr>tk_service := disable_retry c persisted s1\<rparr>)
                      else (case due_occurrence env previous now sched c persisted s1 of
                              None \<Rightarrow> Inr (t\<lparr>tk_service := s1\<rparr>)
                            | Some due \<Rightarrow> tick_due env now clock prompting fresh c sched due (t\<lparr>tk_service := s1\<rparr>))))"

fun tick_all ::
  "schedule_env \<Rightarrow> ms \<Rightarrow> ms \<Rightarrow> rat \<Rightarrow> (string \<Rightarrow> bool) \<Rightarrow> (string \<Rightarrow> string) \<Rightarrow> (conversation \<times> schedule_retry option) list
     \<Rightarrow> tick_state \<Rightarrow> store_error + tick_state" where
  "tick_all env previous now clock prompting fresh [] t = Inr t"
| "tick_all env previous now clock prompting fresh (e # es) t =
     (case tick_conversation env previous now clock prompting fresh e t of
        Inl err \<Rightarrow> Inl err
      | Inr t' \<Rightarrow> tick_all env previous now clock prompting fresh es t')"

definition schedule_tick ::
  "schedule_env \<Rightarrow> ms \<Rightarrow> rat \<Rightarrow> (string \<Rightarrow> bool) \<Rightarrow> (string \<Rightarrow> string) \<Rightarrow> schedule_service \<Rightarrow> store_error + nat \<times> schedule_service" where
  "schedule_tick env now clock prompting fresh s =
     (let previous = nullish (ss_lastTick s) now;
          s0 = s\<lparr>ss_lastTick := Some previous\<rparr>
      in if now \<le> previous then Inr (0, s0)
         else (case tick_all env previous now clock prompting fresh (listScheduledConversations (ss_store s0))
                      \<lparr> tk_service = s0, tk_launched = 0, tk_blocked = False \<rparr> of
                 Inl e \<Rightarrow> Inl e
               | Inr t \<Rightarrow>
                   Inr (tk_launched t, if tk_blocked t then tk_service t else (tk_service t)\<lparr>ss_lastTick := Some now\<rparr>)))"

section \<open>Settling\<close>

definition safeScheduleFailure :: "schedule_env \<Rightarrow> string option \<Rightarrow> string" where
  "safeScheduleFailure env message = redact_message (sv_texts env) 300 (nullish message ''Scheduled prompt failed'')"

text \<open>How \<open>host.prompt\<close> ends: with the last entry, or with an error that may carry the pre-execution mark.\<close>

datatype prompt_end = PromptSettled "string option" | PromptFailed bool "string option"

definition remember_retry :: "launch_call \<Rightarrow> schedule_service \<Rightarrow> schedule_service" where
  "remember_retry l s =
     (case getConversation (cv_id (lc_conversation l)) (ss_store s) of
        Some c \<Rightarrow>
          if sched_is c (sc_id (lc_schedule l)) (sc_revision (lc_schedule l))
          then s\<lparr>ss_retryable := omap_set (cv_id c)
                   \<lparr> ry_scheduleId = sc_id (lc_schedule l), ry_occurrence = lc_occurrence l,
                     ry_revision = sc_revision (lc_schedule l), ry_generation = cv_generation c \<rparr> (ss_retryable s)\<rparr>
          else s
      | None \<Rightarrow> s)"

definition settle_unknown :: "schedule_env \<Rightarrow> launch_call \<Rightarrow> string \<Rightarrow> string \<Rightarrow> ms \<Rightarrow> schedule_service \<Rightarrow> schedule_service" where
  "settle_unknown env l code detail now s =
     s\<lparr>ss_store := markUnknown (cv_id (lc_conversation l)) (ca_callerId (lc_caller l)) (lc_key l) (lc_owner l) (sv_instance env)
         30000 (Some code) (Some detail) now (ss_store s)\<rparr>"

definition settle_failed ::
  "schedule_env \<Rightarrow> launch_call \<Rightarrow> bool \<Rightarrow> string option \<Rightarrow> ms \<Rightarrow> schedule_service \<Rightarrow> store_error + schedule_service" where
  "settle_failed env l preExecution message now s =
     (let released = (case lc_generation l of
            Some g \<Rightarrow>
              if preExecution
              then releasePreExecutionPrompt (cv_id (lc_conversation l)) (ca_callerId (lc_caller l)) (lc_key l) (lc_owner l)
                     (sv_instance env) (sc_oneShot (lc_schedule l))
                     (Some \<lparr> rr_scheduleId = sc_id (lc_schedule l), rr_occurrence = lc_occurrence l,
                             rr_revision = sc_revision (lc_schedule l), rr_generation = g,
                             rr_reason = Some ''authorization_required'' \<rparr>) now (ss_store s)
              else (False, ss_store s)
          | None \<Rightarrow> (False, ss_store s));
          s1 = s\<lparr>ss_store := snd released\<rparr>
      in if fst released
         then (case observe env (lc_conversation l) (lc_schedule l) (lc_occurrence l) ''authorization_required'' s1 of
                 Inl e \<Rightarrow> Inl e | Inr s2 \<Rightarrow> Inr (remember_retry l s2))
         else Inr (settle_unknown env l ''execution_failed'' (safeScheduleFailure env message) now s1))"

definition schedule_settle ::
  "schedule_env \<Rightarrow> launch_call \<Rightarrow> prompt_end \<Rightarrow> ms \<Rightarrow> schedule_service \<Rightarrow> store_error + schedule_service" where
  "schedule_settle env l outcome now s =
     (case outcome of
        PromptSettled entry \<Rightarrow>
          if entry \<noteq> None \<and> entry \<noteq> Some []
          then Inr (s\<lparr>ss_store := markCompleted (cv_id (lc_conversation l)) (ca_callerId (lc_caller l)) (lc_key l) entry
                      (lc_owner l) (sv_instance env) now (ss_store s)\<rparr>)
          else Inr (settle_unknown env l ''prompt_not_settled'' ''Prompt did not produce a proven terminal entry'' now s)
      | PromptFailed preExecution message \<Rightarrow> settle_failed env l preExecution message now s)"

section \<open>Facts\<close>

lemma resolve_Some_keeps:
  "fst (auth_resolve t m r now s) = Some c \<Longrightarrow> snd (auth_resolve t m r now s) = s"
  by (auto simp: auth_resolve_def Let_def split: option.splits if_splits)

lemma resolve_owner_frame [simp]:
  "ss_store (snd (resolve_owner t m clock s)) = ss_store s" "ss_calls (snd (resolve_owner t m clock s)) = ss_calls s"
  "ss_lastTick (snd (resolve_owner t m clock s)) = ss_lastTick s"
  by (simp_all add: resolve_owner_def Let_def split: option.splits)

lemma resolve_owner_Some:
  "fst (resolve_owner t m clock s) = Some who \<Longrightarrow> snd (resolve_owner t m clock s) = s"
  by (auto simp: resolve_owner_def Let_def resolve_Some_keeps split: option.splits)

lemma forget_retry_frame [simp]:
  "ss_store (forget_retry i s) = ss_store s" "ss_calls (forget_retry i s) = ss_calls s" "ss_auth (forget_retry i s) = ss_auth s"
  "ss_lastTick (forget_retry i s) = ss_lastTick s"
  by (simp_all add: forget_retry_def)

lemma observe_frame:
  "observe env c sched occ reason s = Inr s' \<Longrightarrow> ss_calls s' = ss_calls s \<and> ss_lastTick s' = ss_lastTick s \<and> ss_auth s' = ss_auth s"
  by (auto simp: observe_def split: sum.splits)

text \<open>The tables a visit reads are untouched by dropping stale retry markers.\<close>

definition same_tables :: "store \<Rightarrow> store \<Rightarrow> bool" where
  "same_tables a b \<longleftrightarrow> st_conversations a = st_conversations b \<and> st_receipts a = st_receipts b"

lemma drop_stale_frame:
  "same_tables (ss_store (drop_stale sched c persisted s)) (ss_store s) \<and> ss_calls (drop_stale sched c persisted s) = ss_calls s
    \<and> ss_auth (drop_stale sched c persisted s) = ss_auth s \<and> ss_lastTick (drop_stale sched c persisted s) = ss_lastTick s"
  by (auto simp: drop_stale_def Let_def same_tables_def clearScheduleRetry_def split: option.splits)

lemma disable_retry_frame [simp]:
  "ss_calls (disable_retry c persisted s) = ss_calls s" "ss_auth (disable_retry c persisted s) = ss_auth s"
  "ss_lastTick (disable_retry c persisted s) = ss_lastTick s"
  by (simp_all add: disable_retry_def Let_def)

lemma owner_blocked_frame:
  assumes "owner_blocked c clock s = (b, s')"
  shows "ss_store s' = ss_store s \<and> ss_calls s' = ss_calls s \<and> ss_lastTick s' = ss_lastTick s \<and> (\<not> b \<longrightarrow> s' = s)"
proof -
  have s': "s' = snd (resolve_owner (nullish (cv_tenant c) []) (nullish (cv_member c) []) clock s)"
    and b: "b \<longleftrightarrow> ss_auth s \<noteq> None \<and> fst (resolve_owner (nullish (cv_tenant c) []) (nullish (cv_member c) []) clock s) = None"
    using assms by (auto simp: owner_blocked_def split: prod.splits)
  show ?thesis
  proof (cases "ss_auth s")
    case None
    then show ?thesis using s' by (simp add: resolve_owner_def)
  next
    case (Some reg)
    then show ?thesis using s' b resolve_owner_Some by fastforce
  qed
qed

text \<open>What the continuation of a launch captured.\<close>

definition launched :: "schedule_env \<Rightarrow> rat \<Rightarrow> conversation \<Rightarrow> schedule \<Rightarrow> schedule_service \<Rightarrow> launch_call \<Rightarrow> bool" where
  "launched env clock c sched s l \<longleftrightarrow> lc_conversation l = c \<and> lc_schedule l = sched
     \<and> (case ss_auth s of None \<Rightarrow> lc_caller l = schedule_caller c
        | Some reg \<Rightarrow> fst (auth_resolve (nullish (cv_tenant c) []) (nullish (cv_member c) []) True clock reg) = Some (lc_caller l))
     \<and> lc_key l = occurrence_key env sched (lc_occurrence l) c
     \<and> find_receipt (cv_id c) (ca_callerId (lc_caller l)) (lc_key l) (ss_store s) = None
     \<and> schedule_current (launch_reservation env c sched (lc_occurrence l) (lc_caller l)) (ss_store s)"

lemma start_prompt_starts:
  assumes "start_prompt env now uuid c sched occ who s = Inr (b, s')"
  shows "(\<not> b \<and> ss_calls s' = ss_calls s) \<or>
    (b \<and> (\<exists>l. ss_calls s' = ss_calls s @ [l] \<and> lc_conversation l = c \<and> lc_schedule l = sched \<and> lc_caller l = who \<and> lc_occurrence l = occ
       \<and> lc_key l = occurrence_key env sched occ c
       \<and> find_receipt (cv_id c) (ca_callerId who) (lc_key l) (ss_store s) = None
       \<and> schedule_current (launch_reservation env c sched occ who) (ss_store s)
       \<and> (\<exists>r \<in> set (st_receipts (ss_store s')). is_receipt (cv_id c) (ca_callerId who) (lc_key l) r \<and> rc_state r = Accepted)))"
proof -
  let ?q = "launch_reservation env c sched occ who"
  obtain result st where reserve: "reservePrompt ?q uuid now (ss_store s) = (result, st)" by fastforce
  show ?thesis
  proof (cases "\<exists>v. result = Inr v \<and> rv_isNew v")
    case True
    then obtain v where v: "result = Inr v" "rv_isNew v" by blast
    from reserved_new [OF reserve [unfolded v(1)] v(2)]
    have absent: "find_receipt (cv_id c) (ca_callerId who) (occurrence_key env sched occ c) (ss_store s) = None"
      and new: "reserve_new ?q uuid now (ss_store s) = Inr st"
      by (simp_all add: launch_reservation_def)
    from reserve_new_cases [OF new] have "schedule_current ?q (ss_store s)" "new_receipt ?q uuid now \<in> set (st_receipts st)" by auto
    moreover have "is_receipt (cv_id c) (ca_callerId who) (occurrence_key env sched occ c) (new_receipt ?q uuid now)
        \<and> rc_state (new_receipt ?q uuid now) = Accepted"
      by (simp add: is_receipt_def new_receipt_def launch_reservation_def)
    ultimately show ?thesis using assms reserve v absent by (auto simp: start_prompt_def)
  next
    case False
    with assms reserve show ?thesis by (auto simp: start_prompt_def split: sum.splits if_splits)
  qed
qed

lemma launch_starts:
  assumes "launch env now clock uuid c sched occ s = Inr (b, s')"
  shows "(\<not> b \<and> ss_calls s' = ss_calls s) \<or>
    (b \<and> (\<exists>l. ss_calls s' = ss_calls s @ [l] \<and> launched env clock c sched s l \<and> lc_occurrence l = occ
       \<and> (\<exists>r \<in> set (st_receipts (ss_store s')). is_receipt (cv_id c) (ca_callerId (lc_caller l)) (lc_key l) r \<and> rc_state r = Accepted)))"
proof -
  let ?r = "resolve_owner (nullish (cv_tenant c) []) (nullish (cv_member c) []) clock s"
  let ?who = "nullish (fst ?r) (schedule_caller c)"
  show ?thesis
  proof (cases "ss_auth s \<noteq> None \<and> fst ?r = None")
    case True
    with assms have "b = False" "s' = snd ?r" by (auto simp: launch_def Let_def split: prod.splits)
    then show ?thesis by simp
  next
    case False
    then have start: "start_prompt env now uuid c sched occ ?who (snd ?r) = Inr (b, s')"
      using assms by (auto simp: launch_def Let_def split: prod.splits)
    have "case ss_auth s of None \<Rightarrow> ?who = schedule_caller c
      | Some reg \<Rightarrow> fst (auth_resolve (nullish (cv_tenant c) []) (nullish (cv_member c) []) True clock reg) = Some ?who"
      using False by (auto simp: resolve_owner_def Let_def split: option.splits)
    with start_prompt_starts [OF start] show ?thesis
      unfolding launched_def resolve_owner_frame by metis
  qed
qed

text \<open>A visit adds at most one call.\<close>

definition visit_ok ::
  "schedule_env \<Rightarrow> rat \<Rightarrow> conversation \<Rightarrow> schedule \<Rightarrow> schedule_service \<Rightarrow> schedule_service \<Rightarrow> bool" where
  "visit_ok env clock c sched s s' \<longleftrightarrow> ss_calls s' = ss_calls s \<or>
     (\<exists>l. ss_calls s' = ss_calls s @ [l] \<and> launched env clock c sched s l
        \<and> (\<exists>r \<in> set (st_receipts (ss_store s')). is_receipt (cv_id c) (ca_callerId (lc_caller l)) (lc_key l) r \<and> rc_state r = Accepted))"

lemma tick_launch_visit:
  assumes "tick_launch env now clock uuid c sched due t = Inr t'"
  shows "visit_ok env clock c sched (tk_service t) (tk_service t')"
proof -
  from assms obtain b s1 s3 blocked where l: "launch env now clock uuid c sched (fst due) (tk_service t) = Inr (b, s1)"
    and o: "owner_blocked c clock (if b \<and> snd due then forget_retry (cv_id c) s1 else s1) = (blocked, s3)" and t': "tk_service t' = s3"
    by (auto simp: tick_launch_def Let_def split: sum.splits prod.splits)
  have "ss_calls s3 = ss_calls s1" "ss_store s3 = ss_store s1"
    using owner_blocked_frame [OF o] by (auto split: if_splits)
  with launch_starts [OF l] t' show ?thesis unfolding visit_ok_def by auto
qed

lemma tick_due_visit:
  assumes "tick_due env now clock prompting fresh c sched due t = Inr t'"
  shows "visit_ok env clock c sched (tk_service t) (tk_service t')
    \<and> (prompting (cv_id c) \<longrightarrow> ss_calls (tk_service t') = ss_calls (tk_service t))"
proof (cases "prompting (cv_id c)")
  case True
  with assms show ?thesis
    by (auto simp: tick_due_def visit_ok_def dest: observe_frame split: sum.splits)
next
  case False
  obtain blocked s1 where o: "owner_blocked c clock (tk_service t) = (blocked, s1)" by fastforce
  note frame = owner_blocked_frame [OF o]
  show ?thesis
  proof (cases blocked)
    case True
    with assms False o frame show ?thesis
      by (auto simp: tick_due_def visit_ok_def dest!: observe_frame split: sum.splits)
  next
    case nb: False
    with frame have "s1 = tk_service t" by simp
    then have "tick_launch env now clock (fresh (cv_id c)) c sched due t = Inr t'"
      using assms False o nb by (simp add: tick_due_def)
    from tick_launch_visit [OF this] False show ?thesis by simp
  qed
qed

lemma launched_same:
  assumes "same_tables (ss_store s) (ss_store s')" "ss_auth s = ss_auth s'"
  shows "launched env clock c sched s l = launched env clock c sched s' l"
proof -
  from assms(1) have "getConversation i (ss_store s) = getConversation i (ss_store s')" for i
    by (intro getConversation_rows) (simp add: same_tables_def)
  moreover from assms(1) have "st_receipts (ss_store s) = st_receipts (ss_store s')" by (simp add: same_tables_def)
  ultimately show ?thesis using assms(2)
    by (simp add: launched_def find_receipt_def schedule_current_def split: option.splits)
qed

lemma tick_conversation_visit:
  assumes "tick_conversation env previous now clock prompting fresh (c, persisted) t = Inr t'"
    "ss_calls (tk_service t') \<noteq> ss_calls (tk_service t)"
  shows "\<exists>sched. validateSchedule (sv_temporal env) (nullish (cv_schedule c) JUndef) = Inr sched \<and> \<not> prompting (cv_id c)
    \<and> visit_ok env clock c sched (tk_service t) (tk_service t')"
proof -
  from assms obtain sched due where v: "validateSchedule (sv_temporal env) (nullish (cv_schedule c) JUndef) = Inr sched"
    and d: "tick_due env now clock prompting fresh c sched due (t\<lparr>tk_service := drop_stale sched c persisted (tk_service t)\<rparr>) = Inr t'"
    using drop_stale_frame [of _ c persisted "tk_service t"]
    by (auto simp: tick_conversation_def Let_def disable_retry_def split: sum.splits if_splits option.splits)
  note frame = drop_stale_frame [of sched c persisted "tk_service t"]
  from tick_due_visit [OF d] have "visit_ok env clock c sched (drop_stale sched c persisted (tk_service t)) (tk_service t')"
    "prompting (cv_id c) \<longrightarrow> ss_calls (tk_service t') = ss_calls (drop_stale sched c persisted (tk_service t))" by simp_all
  with frame assms(2) v launched_same [of "drop_stale sched c persisted (tk_service t)" "tk_service t"] show ?thesis
    unfolding visit_ok_def by auto
qed

section \<open>The watermark\<close>

definition unresolvable :: "string \<Rightarrow> string \<Rightarrow> rat \<Rightarrow> schedule_service \<Rightarrow> bool" where
  "unresolvable tenant member clock s =
     (case ss_auth s of None \<Rightarrow> False | Some reg \<Rightarrow> fst (auth_resolve tenant member True clock reg) = None)"

lemma auth_resolve_None_stable:
  assumes "fst (auth_resolve t m True clock reg) = None"
  shows "fst (auth_resolve t m True clock (snd (auth_resolve t' m' r clock reg))) = None"
proof -
  have "ar_generations (snd (auth_resolve t' m' r clock reg)) = ar_generations reg"
    by (simp add: auth_resolve_def Let_def split: option.splits)
  with assms auth_resolve_identities [of t' m' r clock reg] show ?thesis
    by (auto simp: auth_resolve_def [of t m] auth_generation_def Let_def split: option.splits if_splits)
qed

lemma resolve_owner_unresolvable:
  "unresolvable t m clock s \<Longrightarrow> unresolvable t m clock (snd (resolve_owner t' m' clock s))"
  by (auto simp: unresolvable_def resolve_owner_def Let_def auth_resolve_None_stable split: option.splits)

lemma unresolvable_auth: "ss_auth s = ss_auth s' \<Longrightarrow> unresolvable t m clock s = unresolvable t m clock s'"
  by (simp add: unresolvable_def)

lemma owner_blocked_unresolvable:
  assumes "owner_blocked c clock s = (b, s')" "unresolvable t m clock s"
  shows "unresolvable t m clock s'"
proof -
  from assms(1) have "s' = snd (resolve_owner (nullish (cv_tenant c) []) (nullish (cv_member c) []) clock s)"
    by (auto simp: owner_blocked_def split: prod.splits)
  with resolve_owner_unresolvable [OF assms(2)] show ?thesis by simp
qed

lemma start_prompt_frame:
  "start_prompt env now uuid c sched occ who s = Inr (b, s') \<Longrightarrow> ss_auth s' = ss_auth s \<and> ss_lastTick s' = ss_lastTick s"
  by (auto simp: start_prompt_def split: prod.splits sum.splits if_splits)

lemma launch_keeps:
  assumes "launch env now clock uuid c sched occ s = Inr (b, s')" "unresolvable t m clock s"
  shows "unresolvable t m clock s' \<and> ss_lastTick s' = ss_lastTick s"
proof -
  obtain resolved s1 where r: "resolve_owner (nullish (cv_tenant c) []) (nullish (cv_member c) []) clock s = (resolved, s1)"
    by fastforce
  with resolve_owner_unresolvable [OF assms(2)] resolve_owner_frame(3) have "unresolvable t m clock s1" "ss_lastTick s1 = ss_lastTick s"
    by (metis snd_conv)+
  with assms(1) r show ?thesis
    by (auto simp: launch_def split: if_splits dest!: start_prompt_frame)
      (metis unresolvable_auth start_prompt_frame)+
qed

text \<open>A visit keeps the watermark, what is unresolvable, and a block that was raised.\<close>

definition tick_keeps :: "string \<Rightarrow> string \<Rightarrow> rat \<Rightarrow> tick_state \<Rightarrow> tick_state \<Rightarrow> bool" where
  "tick_keeps t m clock a b \<longleftrightarrow> unresolvable t m clock (tk_service b) \<and> ss_lastTick (tk_service b) = ss_lastTick (tk_service a)
     \<and> (tk_blocked a \<longrightarrow> tk_blocked b)"

lemma tick_launch_keeps:
  assumes "tick_launch env now clock uuid c sched due a = Inr b" "unresolvable t m clock (tk_service a)"
  shows "tick_keeps t m clock a b"
proof -
  from assms(1) obtain st s1 s3 blocked where l: "launch env now clock uuid c sched (fst due) (tk_service a) = Inr (st, s1)"
    and o: "owner_blocked c clock (if st \<and> snd due then forget_retry (cv_id c) s1 else s1) = (blocked, s3)"
    and b: "tk_service b = s3" "tk_blocked b = (tk_blocked a \<or> blocked)"
    by (auto simp: tick_launch_def Let_def split: sum.splits prod.splits)
  from launch_keeps [OF l assms(2)] have "unresolvable t m clock (if st \<and> snd due then forget_retry (cv_id c) s1 else s1)"
    "ss_lastTick (if st \<and> snd due then forget_retry (cv_id c) s1 else s1) = ss_lastTick (tk_service a)"
    by (simp_all add: unresolvable_def)
  with owner_blocked_unresolvable [OF o] owner_blocked_frame [OF o] b show ?thesis by (simp add: tick_keeps_def)
qed

lemma tick_due_keeps:
  assumes "tick_due env now clock prompting fresh c sched due a = Inr b" "unresolvable t m clock (tk_service a)"
  shows "tick_keeps t m clock a b \<and> (\<not> prompting (cv_id c) \<and> unresolvable (nullish (cv_tenant c) []) (nullish (cv_member c) []) clock (tk_service a)
    \<longrightarrow> tk_blocked b)"
proof (cases "prompting (cv_id c)")
  case True
  with assms show ?thesis
    by (auto simp: tick_due_def tick_keeps_def unresolvable_def dest!: observe_frame split: sum.splits)
next
  case np: False
  obtain blocked s1 where o: "owner_blocked c clock (tk_service a) = (blocked, s1)" by fastforce
  note keep = owner_blocked_unresolvable [OF o assms(2)] and frame = owner_blocked_frame [OF o]
  show ?thesis
  proof (cases blocked)
    case True
    with assms(1) np o obtain s2 where "observe env c sched (fst due) ''authorization_required'' s1 = Inr s2"
      "b = a\<lparr>tk_service := s2, tk_blocked := True\<rparr>" by (auto simp: tick_due_def split: sum.splits)
    with keep frame observe_frame show ?thesis by (fastforce simp: tick_keeps_def unresolvable_def)
  next
    case False
    with frame have s1: "s1 = tk_service a" by simp
    then have "tick_launch env now clock (fresh (cv_id c)) c sched due a = Inr b"
      using assms(1) np o False by (simp add: tick_due_def)
    from tick_launch_keeps [OF this assms(2)] have "tick_keeps t m clock a b" .
    moreover have "\<not> unresolvable (nullish (cv_tenant c) []) (nullish (cv_member c) []) clock (tk_service a)"
      using o False by (auto simp: owner_blocked_def unresolvable_def resolve_owner_def Let_def split: option.splits prod.splits)
    ultimately show ?thesis by simp
  qed
qed

lemma due_occurrence_due:
  "occurrenceBetween (sv_temporal env) sched previous now = Some occ \<Longrightarrow> due_occurrence env previous now sched c persisted s \<noteq> None"
  by (auto simp: due_occurrence_def split: list.splits)

lemma tick_conversation_keeps:
  assumes "tick_conversation env previous now clock prompting fresh (c, persisted) a = Inr b" "unresolvable t m clock (tk_service a)"
  shows "tick_keeps t m clock a b"
proof -
  note frame = drop_stale_frame [of _ c persisted "tk_service a"]
  have keep: "unresolvable t m clock (drop_stale sched c persisted (tk_service a))" for sched
    using assms(2) frame [of sched] by (simp add: unresolvable_def)
  have "unresolvable t m clock (disable_retry c persisted (drop_stale sched c persisted (tk_service a)))
    \<and> ss_lastTick (disable_retry c persisted (drop_stale sched c persisted (tk_service a))) = ss_lastTick (tk_service a)" for sched
    using keep [of sched] frame [of sched] by (simp add: unresolvable_def)
  with assms keep frame show ?thesis
    unfolding tick_conversation_def
    by (auto simp: tick_keeps_def Let_def split: sum.splits if_splits option.splits
        dest!: tick_due_keeps [where t = t and m = m])
qed

lemma tick_conversation_blocks:
  assumes "tick_conversation env previous now clock prompting fresh (c, persisted) a = Inr b"
    "unresolvable tenant member clock (tk_service a)" "cv_tenant c = Some tenant" "cv_member c = Some member" "tenant \<noteq> []" "member \<noteq> []"
    "validateSchedule (sv_temporal env) (nullish (cv_schedule c) JUndef) = Inr sched" "sc_enabled sched" "\<not> prompting (cv_id c)"
    "occurrenceBetween (sv_temporal env) sched previous now = Some occ"
  shows "tk_blocked b"
proof -
  let ?s = "drop_stale sched c persisted (tk_service a)"
  obtain due where "due_occurrence env previous now sched c persisted ?s = Some due"
    using due_occurrence_due [OF assms(10), of c persisted ?s] by auto
  with assms have "tick_due env now clock prompting fresh c sched due (a\<lparr>tk_service := ?s\<rparr>) = Inr b"
    by (simp add: tick_conversation_def Let_def)
  moreover have "unresolvable tenant member clock (tk_service (a\<lparr>tk_service := ?s\<rparr>))"
    using assms(2) drop_stale_frame [of sched c persisted "tk_service a"] by (simp add: unresolvable_def)
  ultimately show ?thesis using tick_due_keeps [of env now clock prompting fresh c sched due "a\<lparr>tk_service := ?s\<rparr>" b tenant member] assms(3,4,9)
    by simp
qed

lemma tick_all_keeps:
  "tick_all env previous now clock prompting fresh es a = Inr b \<Longrightarrow> unresolvable t m clock (tk_service a) \<Longrightarrow> tick_keeps t m clock a b"
proof (induction es arbitrary: a)
  case (Cons e es)
  then obtain a' where a': "tick_conversation env previous now clock prompting fresh (fst e, snd e) a = Inr a'"
    "tick_all env previous now clock prompting fresh es a' = Inr b" by (auto split: sum.splits)
  from tick_conversation_keeps [OF a'(1) Cons.prems(2)] Cons.IH [OF a'(2)] show ?case by (auto simp: tick_keeps_def)
qed (simp add: tick_keeps_def)

lemma tick_all_blocks:
  assumes "tick_all env previous now clock prompting fresh es a = Inr b" "unresolvable tenant member clock (tk_service a)"
    "(c, persisted) \<in> set es" "cv_tenant c = Some tenant" "cv_member c = Some member" "tenant \<noteq> []" "member \<noteq> []"
    "validateSchedule (sv_temporal env) (nullish (cv_schedule c) JUndef) = Inr sched" "sc_enabled sched" "\<not> prompting (cv_id c)"
    "occurrenceBetween (sv_temporal env) sched previous now = Some occ"
  shows "tk_blocked b"
  using assms(1-3)
proof (induction es arbitrary: a)
  case (Cons e es)
  then obtain a' where a': "tick_conversation env previous now clock prompting fresh (fst e, snd e) a = Inr a'"
    "tick_all env previous now clock prompting fresh es a' = Inr b" by (auto split: sum.splits)
  note keep = tick_conversation_keeps [OF a'(1) Cons.prems(2), unfolded tick_keeps_def]
  show ?case
  proof (cases "e = (c, persisted)")
    case True
    with a'(1) have "tick_conversation env previous now clock prompting fresh (c, persisted) a = Inr a'" by simp
    from tick_conversation_blocks [OF this Cons.prems(2) assms(4-11)] have "tk_blocked a'" .
    then show ?thesis using tick_all_keeps [OF a'(2)] keep by (auto simp: tick_keeps_def)
  next
    case False
    with Cons.IH [OF a'(2)] Cons.prems(3) keep show ?thesis by auto
  qed
qed simp

section \<open>Properties\<close>


definition demo_due :: conversation where
  "demo_due = conversation_row (demo_conversation\<lparr>ci_schedule := Some (JObj [(''schedule_id'', JStr ''s1''), (''revision'', JNum (Fin 1)),
     (''enabled'', JBool True), (''one_shot'', JBool True), (''at'', JStr ''x''), (''prompt_template'', JStr ''go'')])\<rparr>) 0 0"

definition demo_schedule_env :: schedule_env where
  "demo_schedule_env = \<lparr> sv_temporal = utc_env\<lparr>tp_parse := (\<lambda>s. Some 5000)\<rparr>, sv_sha256 = (\<lambda>s. s), sv_iso = (\<lambda>t. ''x''),
     sv_fingerprint = (\<lambda>a b c. a), sv_texts = \<lparr> oe_real = (\<lambda>s. 0), oe_hidden = [], oe_pathHidden = [] \<rparr>, sv_instance = ''i'' \<rparr>"

definition demo_service :: "auth_registry option \<Rightarrow> schedule_service" where
  "demo_service reg = \<lparr> ss_store = store_init\<lparr>st_conversations := [demo_due]\<rparr>, ss_auth = reg, ss_timer = True, ss_lastTick = Some 1000,
     ss_retryable = [], ss_calls = [] \<rparr>"

definition demo_due_schedule :: schedule where
  "demo_due_schedule = \<lparr> sc_id = ''s1'', sc_revision = 1, sc_enabled = True, sc_at = Some 5000, sc_interval = None, sc_oneShot = True,
     sc_calendar = None, sc_prompt = ''go'' \<rparr>"

lemma demo_due_valid: "validateSchedule (sv_temporal demo_schedule_env) (nullish (cv_schedule demo_due) JUndef) = Inr demo_due_schedule"
  by (simp add: validateSchedule_def schedule_identity_def schedule_prompt_def demo_due_def conversation_row_def demo_conversation_def
      demo_schedule_valid ALLOWED_def schedule_trigger_def positive_int_def js_trim_def js_space_def Let_def rat_is_int_def
      demo_schedule_env_def demo_due_schedule_def)

lemma demo_due_occurrence:
  "1000 < now \<Longrightarrow> 5000 \<le> now \<Longrightarrow> occurrenceBetween (sv_temporal demo_schedule_env) demo_due_schedule 1000 now = Some 5000"
  by (simp add: occurrenceBetween_def demo_due_schedule_def schedule_anchor_def Let_def)

lemma demo_due_row:
  "cv_id demo_due = ''c''" "cv_tenant demo_due = Some ''t''" "cv_member demo_due = Some ''m''" "cv_generation demo_due = 0"
  "cv_schedule demo_due \<noteq> None"
  by (simp_all add: demo_due_def conversation_row_def demo_conversation_def)

lemma demo_due_reserved:
  "\<exists>v st. reservePrompt (launch_reservation demo_schedule_env demo_due demo_due_schedule 5000 (schedule_caller demo_due)) ''u'' 6000
     (store_init\<lparr>st_conversations := [demo_due]\<rparr>) = (Inr v, st) \<and> rv_isNew v"
  by (simp add: demo_reserve_simps launch_reservation_def demo_due_schedule_def demo_due_def)

text \<open>The tick of a store with the one due conversation.\<close>

lemmas demo_tick_simps = tick_conversation_def demo_due_valid demo_due_row drop_stale_def due_occurrence_def demo_due_occurrence
  tick_due_def owner_blocked_def resolve_owner_def Let_def demo_service_def


text \<open>A due one-shot whose owner is not signed in is not lost: the tick that finds it keeps its watermark, so every
  later tick finds the same occurrence due again until the owner has signed in.\<close>

theorem blocked_one_shot_stays_due:
  assumes "schedule_tick env now clock prompting fresh s = Inr (n, s')" "ss_lastTick s = Some previous" "previous < now"
    "(c, persisted) \<in> set (listScheduledConversations (ss_store s))"
    "cv_tenant c = Some tenant" "cv_member c = Some member" "tenant \<noteq> []" "member \<noteq> []"
    "validateSchedule (sv_temporal env) (nullish (cv_schedule c) JUndef) = Inr sched" "sc_enabled sched" "sc_oneShot sched"
    "\<not> prompting (cv_id c)" "occurrenceBetween (sv_temporal env) sched previous now = Some occ"
    "unresolvable tenant member clock s" "now \<le> later"
  shows "ss_lastTick s' = Some previous \<and> occurrenceBetween (sv_temporal env) sched previous later = Some occ"
proof -
  let ?t0 = "\<lparr> tk_service = s\<lparr>ss_lastTick := Some previous\<rparr>, tk_launched = 0, tk_blocked = False \<rparr>"
  from assms(1-3) obtain t where t: "tick_all env previous now clock prompting fresh (listScheduledConversations (ss_store s)) ?t0 = Inr t"
    and s': "s' = (if tk_blocked t then tk_service t else (tk_service t)\<lparr>ss_lastTick := Some now\<rparr>)"
    by (auto simp: schedule_tick_def Let_def split: sum.splits)
  have u: "unresolvable tenant member clock (tk_service ?t0)" using assms(14) by (simp add: unresolvable_def)
  have "tk_blocked t" by (rule tick_all_blocks [OF t u assms(4-10,12,13)])
  moreover have "ss_lastTick (tk_service t) = Some previous"
    using tick_all_keeps [OF t u] by (simp add: tick_keeps_def)
  moreover have "occurrenceBetween (sv_temporal env) sched previous later = Some occ"
    using assms(11,13,15) validateSchedule_Inr [OF assms(9)]
    by (auto simp: occurrenceBetween_def trigger_ok_def Let_def split: option.splits if_splits)
  ultimately show ?thesis using s' by simp
qed

theorem blocked_one_shot_stays_due_witness:
  "\<exists>n s'. schedule_tick demo_schedule_env 6000 0 (\<lambda>_. False) (\<lambda>_. ''u'') (demo_service (Some registry_init)) = Inr (n, s')
     \<and> ss_lastTick s' = Some 1000 \<and> occurrenceBetween (sv_temporal demo_schedule_env) demo_due_schedule 1000 9000 = Some 5000"
proof -
  let ?r = "schedule_tick demo_schedule_env 6000 0 (\<lambda>_. False) (\<lambda>_. ''u'') (demo_service (Some registry_init))"
  have "sc_enabled demo_due_schedule" by (simp add: demo_due_schedule_def)
  then obtain n s' where r: "?r = Inr (n, s')"
    by (simp add: demo_tick_simps schedule_tick_def listScheduledConversations_def withScheduleRetry_def store_init_def
        auth_resolve_def registry_init_def observe_def record_occurrence_def del: not_None_eq)
  note c = demo_due_row
  have listed: "(demo_due, None) \<in> set (listScheduledConversations (ss_store (demo_service (Some registry_init))))"
    by (simp add: listScheduledConversations_def demo_service_def withScheduleRetry_def store_init_def demo_due_row)
  have due: "occurrenceBetween (sv_temporal demo_schedule_env) demo_due_schedule 1000 6000 = Some 5000" by (simp add: demo_due_occurrence)
  have u: "unresolvable ''t'' ''m'' 0 (demo_service (Some registry_init))"
    by (simp add: unresolvable_def demo_service_def auth_resolve_def registry_init_def Let_def)
  have "ss_lastTick (demo_service (Some registry_init)) = Some 1000" by (simp add: demo_service_def)
  from blocked_one_shot_stays_due [OF r this _ listed c(2,3) _ _ demo_due_valid _ _ _ due u, of 9000] r
  show ?thesis by (simp add: demo_due_schedule_def)
qed

end
