(* ===== verification/Automation_Requests.thy ===== *)
theory Automation_Requests
  imports Usage_Statistics Schedule_Service Session_Entries
begin

text \<open>
  What a request to the automation tasks says and may use: the request values and schedules of
  \<open>services/automation-tasks.ts\<close> and the connector checks of \<open>connectors.ts\<close>.  The state holds the
  tables, the work records, the local projections of employees and snapshots and the connector file
  (\<open>None\<close> when it is invalid), which other components write; dates, JSON, SHA-256, \<open>Number\<close> on a query
  text and the summary read from a session are parameters, and so is the untitled name, which is not
  ASCII.
\<close>

datatype auto_error = AutoError nat string | AutoStore store_error | AutoSchedule schedule_error | AutoRead read_error | AutoHost | AutoType

text \<open>The rest of a method behind a call that may throw.\<close>

definition and_then :: "'e + 'a \<Rightarrow> ('a \<Rightarrow> 'e + 'b) \<Rightarrow> 'e + 'b" where
  "and_then m f = (case m of Inl e \<Rightarrow> Inl e | Inr x \<Rightarrow> f x)"

definition check_that :: "'e option \<Rightarrow> 'e + unit" where
  "check_that m = (case m of None \<Rightarrow> Inr () | Some e \<Rightarrow> Inl e)"

record expert =
  ex_employee :: string
  ex_name :: string
  ex_version :: string
  ex_status :: "string option"
  ex_revoked :: bool

record snapshot =
  sn_employee :: string
  sn_version :: string
  sn_connectors :: "string list option"
  sn_toolPolicy :: jsval

record connector =
  ln_tenant :: string
  ln_member :: string
  ln_id :: string
  ln_name :: string
  ln_tokenReady :: bool

record connector_view =
  cn_id :: string
  cn_name :: string
  cn_enabled :: bool
  cn_employees :: "string list"

datatype task_run_status = RunRunning | RunUnknown | RunError | RunAborted | RunSucceeded | RunSkipped | RunBlocked

record task_run =
  rn_id :: string
  rn_conversation :: string
  rn_schedule :: string
  rn_at :: ms
  rn_receipt :: "string option"
  rn_status :: task_run_status
  rn_started :: "ms option"
  rn_finished :: "ms option"
  rn_error :: "string option"
  rn_summary :: "string option"
  rn_work :: "string list"

datatype task_status = TaskCompleted | TaskActive | TaskPaused

record task_view =
  tv_id :: string
  tv_name :: string
  tv_category :: string
  tv_prompt :: string
  tv_summary :: string
  tv_employee :: "string option"
  tv_employeeName :: "string option"
  tv_connectorIds :: "string list"
  tv_connectors :: "connector_view list"
  tv_schedule :: "jsval option"
  tv_status :: task_status
  tv_block :: "string option"
  tv_conversation :: "string option"
  tv_group :: bool
  tv_automation :: bool
  tv_etag :: string
  tv_lastRun :: "task_run option"
  tv_nextRun :: "ms option"
  tv_created :: "ms option"
  tv_updated :: "ms option"

record automation_env =
  ae_temporal :: temporal_env
  ae_cursors :: cursor_env
  ae_number :: "string \<Rightarrow> jsval"
  ae_instant :: "jsval \<Rightarrow> ms option"
  ae_fingerprint :: "string \<Rightarrow> string \<Rightarrow> string \<Rightarrow> string \<Rightarrow> string list \<Rightarrow> jsval \<Rightarrow> string"
  ae_json :: "task_view \<Rightarrow> string"
  ae_unjson :: "string \<Rightarrow> task_view"
  ae_untitled :: string
  ae_resultSummary :: "string \<Rightarrow> string option"

record automation_state =
  au_store :: store
  au_work :: "work_record list"
  au_experts :: "string \<Rightarrow> string \<Rightarrow> expert list"
  au_snapshots :: "string \<Rightarrow> string \<Rightarrow> snapshot list"
  au_connectors :: "connector list option"
  au_auth :: "auth_registry option"
  au_creating :: "string list"

abbreviation ae_iso :: "automation_env \<Rightarrow> ms \<Rightarrow> string" where
  "ae_iso env \<equiv> ce_iso (ae_cursors env)"

type_synonym owner = "string \<times> string"

definition ownerOf :: "caller \<Rightarrow> owner" where
  "ownerOf who = (nullish (ca_tenantId who) [], callerMemberId who)"

section \<open>Request values\<close>

definition auto_text :: "jsval \<Rightarrow> string \<Rightarrow> nat \<Rightarrow> auto_error + string" where
  "auto_text v name limit =
     (case v of
        JStr s \<Rightarrow> if js_trim s = [] \<or> length s > limit then Inl (AutoError 422 (name @ ''_invalid'')) else Inr s
      | _ \<Rightarrow> Inl (AutoError 422 (name @ ''_invalid'')))"

definition onlyKeys :: "jsval \<Rightarrow> string list \<Rightarrow> bool" where
  "onlyKeys v keys = list_all (\<lambda>k. k \<in> set keys) (js_keys v)"

definition schedule_base :: "string \<Rightarrow> string \<Rightarrow> int \<Rightarrow> bool \<Rightarrow> (string \<times> jsval) list" where
  "schedule_base prompt i revision enabled =
     [(''schedule_id'', JStr i), (''revision'', JNum (Fin (of_int revision))), (''enabled'', JBool enabled), (''prompt_template'', JStr prompt)]"

text \<open>The object \<open>taskSchedule\<close> hands to \<open>validateSchedule\<close>; \<open>None\<close> is any of its failures.\<close>

definition schedule_request :: "automation_env \<Rightarrow> jsval \<Rightarrow> string \<Rightarrow> string \<Rightarrow> int \<Rightarrow> bool \<Rightarrow> jsval option" where
  "schedule_request env rule prompt i revision enabled =
     (let base = schedule_base prompt i revision enabled
      in case js_field rule ''timezone'' of
           JStr zone \<Rightarrow>
             if regex_test OFFSET_ZONE zone \<or> \<not> tp_zoneOk (ae_temporal env) zone then None
             else if mode_text (js_field rule ''mode'') \<in> {Some ''daily'', Some ''weekly'', Some ''monthly''}
             then (case validateCalendar (ae_temporal env) rule of
                     Inl _ \<Rightarrow> None | Inr _ \<Rightarrow> Some (JObj (base @ [(''calendar'', rule)])))
             else if js_field rule ''mode'' = JStr ''once''
             then (if \<not> onlyKeys rule [''mode'', ''timezone'', ''run_at''] then None
                   else (case ae_instant env (js_field rule ''run_at'') of
                           None \<Rightarrow> None
                         | Some t \<Rightarrow> Some (JObj (base @ [(''one_shot'', JBool True), (''at'', JStr (ae_iso env t))]))))
             else if js_field rule ''mode'' = JStr ''interval''
             then (if \<not> onlyKeys rule [''mode'', ''timezone'', ''interval_seconds'', ''starts_at'']
                      \<or> \<not> int_in (js_field rule ''interval_seconds'') 300 315360000 then None
                   else (case ae_instant env (js_field rule ''starts_at'') of
                           None \<Rightarrow> None
                         | Some t \<Rightarrow> Some (JObj (base @ [(''at'', JStr (ae_iso env t)), (''interval_seconds'', js_field rule ''interval_seconds'')]))))
             else None
         | _ \<Rightarrow> None)"

definition taskSchedule :: "automation_env \<Rightarrow> jsval \<Rightarrow> string \<Rightarrow> string \<Rightarrow> int \<Rightarrow> bool \<Rightarrow> auto_error + schedule \<times> jsval option" where
  "taskSchedule env value prompt i revision enabled =
     (if \<not> is_object value then Inl (AutoError 422 ''validation_error'')
      else (case schedule_request env value prompt i revision enabled of
              None \<Rightarrow> Inl (AutoError 422 ''task_schedule_invalid'')
            | Some raw \<Rightarrow>
                (case validateSchedule (ae_temporal env) raw of
                   Inl _ \<Rightarrow> Inl (AutoError 422 ''task_schedule_invalid'')
                 | Inr s \<Rightarrow> Inr (s, (if js_field raw ''calendar'' = JUndef then None else Some (js_field raw ''calendar''))))))"

text \<open>\<open>{ ...schedule }\<close>: the value stored for a validated schedule.\<close>

definition schedule_value :: "automation_env \<Rightarrow> schedule \<Rightarrow> jsval option \<Rightarrow> jsval" where
  "schedule_value env s calendar = JObj (
     [(''schedule_id'', JStr (sc_id s)), (''revision'', JNum (Fin (of_int (sc_revision s)))), (''enabled'', JBool (sc_enabled s))]
     @ (case sc_at s of None \<Rightarrow> [] | Some t \<Rightarrow> [(''at'', JStr (ae_iso env t))])
     @ (case sc_interval s of None \<Rightarrow> [] | Some n \<Rightarrow> [(''interval_seconds'', JNum (Fin (of_int n)))])
     @ [(''one_shot'', JBool (sc_oneShot s))]
     @ (case calendar of None \<Rightarrow> [] | Some v \<Rightarrow> [(''calendar'', v)])
     @ [(''overlap'', JStr ''skip''), (''misfire'', JStr ''skip''), (''prompt_template'', JStr (sc_prompt s))])"

definition publicSchedule :: "automation_env \<Rightarrow> (schedule \<times> jsval option) option \<Rightarrow> jsval option" where
  "publicSchedule env sched =
     (case sched of
        None \<Rightarrow> None
      | Some (s, Some calendar) \<Rightarrow> Some calendar
      | Some (s, None) \<Rightarrow>
          if sc_oneShot s
          then Some (JObj [(''mode'', JStr ''once''), (''timezone'', JStr ''UTC''), (''run_at'', JStr (ae_iso env (nullish (sc_at s) 0)))])
          else Some (JObj [(''mode'', JStr ''interval''), (''timezone'', JStr ''UTC''),
                 (''interval_seconds'', JNum (Fin (of_int (nullish (sc_interval s) 0)))), (''starts_at'', JStr (ae_iso env (nullish (sc_at s) 0)))]))"

text \<open>\<open>conversation.schedule ? validateSchedule(conversation.schedule) : null\<close>\<close>

definition stored_schedule :: "automation_env \<Rightarrow> conversation option \<Rightarrow> auto_error + (schedule \<times> jsval option) option" where
  "stored_schedule env c =
     (case c of
        None \<Rightarrow> Inr None
      | Some c \<Rightarrow>
          (case cv_schedule c of
             None \<Rightarrow> Inr None
           | Some v \<Rightarrow>
               (case validateSchedule (ae_temporal env) v of
                  Inl e \<Rightarrow> Inl (AutoSchedule e)
                | Inr s \<Rightarrow> Inr (Some (s, if js_field v ''calendar'' = JUndef then None else Some (js_field v ''calendar''))))))"

definition categories :: "string list" where
  "categories = [''report'', ''monitor'', ''reminder'', ''other'']"

definition auto_category :: "jsval \<Rightarrow> auto_error + string" where
  "auto_category v =
     (case mode_text v of
        Some s \<Rightarrow> if s \<in> set categories then Inr s else Inl (AutoError 422 ''category_invalid'')
      | None \<Rightarrow> Inl (AutoError 422 ''category_invalid''))"

definition connector_name :: "string \<Rightarrow> bool" where
  "connector_name s \<longleftrightarrow> (case s of
     [] \<Rightarrow> False
   | c # r \<Rightarrow> (97 \<le> (of_char c :: nat) \<and> (of_char c :: nat) \<le> 122) \<and> length r \<le> 63
       \<and> list_all (\<lambda>d. (97 \<le> (of_char d :: nat) \<and> (of_char d :: nat) \<le> 122) \<or> is_digit d \<or> d = CHR ''_'' \<or> d = CHR ''-'') r)"

definition auto_connectorIds :: "jsval \<Rightarrow> auto_error + string list" where
  "auto_connectorIds v =
     (case v of
        JArr vs \<Rightarrow>
          (let ids = string_items vs
           in if length vs > 10 \<or> length ids \<noteq> length vs \<or> \<not> list_all connector_name ids \<or> \<not> distinct ids
              then Inl (AutoError 422 ''connector_unavailable'')
              else Inr (sort_by (\<lambda>a b. \<not> str_less b a) ids))
      | _ \<Rightarrow> Inl (AutoError 422 ''connector_unavailable''))"

section \<open>Connectors and employees\<close>

definition permitsConnectorTool :: "snapshot \<Rightarrow> string \<Rightarrow> bool" where
  "permitsConnectorTool sn i =
     (case js_field (sn_toolPolicy sn) ''allowed_tools'' of
        JArr vs \<Rightarrow> vs = [] \<or> JStr (''connector_'' @ i) \<in> set vs
      | _ \<Rightarrow> True)"

definition expert_active :: "expert \<Rightarrow> bool" where
  "expert_active e \<longleftrightarrow> \<not> ex_revoked e \<and> (ex_status e = None \<or> ex_status e = Some [] \<or> ex_status e = Some ''active'')"

definition granting :: "snapshot list \<Rightarrow> string \<Rightarrow> expert \<Rightarrow> bool" where
  "granting snapshots i e \<longleftrightarrow> (\<exists>sn \<in> set snapshots. sn_employee sn = ex_employee e \<and> sn_version sn = ex_version e
     \<and> sn_connectors sn \<noteq> None \<and> i \<in> set (the (sn_connectors sn)) \<and> permitsConnectorTool sn i)"

definition authorizedConnectors :: "automation_state \<Rightarrow> owner \<Rightarrow> string option \<Rightarrow> auto_error + connector_view list" where
  "authorizedConnectors s own employee =
     (case au_connectors s of
        None \<Rightarrow> Inl (AutoError 503 ''connector_configuration_invalid'')
      | Some rows \<Rightarrow>
          (let experts = filter (\<lambda>e. expert_active e \<and> (employee = None \<or> employee = Some [] \<or> employee = Some (ex_employee e)))
                 (au_experts s (fst own) (snd own));
               snapshots = au_snapshots s (fst own) (snd own)
           in Inr (concat (map (\<lambda>row.
                let employees = map ex_employee (filter (granting snapshots (ln_id row)) experts)
                in if employees = [] then []
                   else [\<lparr> cn_id = ln_id row, cn_name = ln_name row, cn_enabled = ln_tokenReady row, cn_employees = employees \<rparr>])
              (filter (\<lambda>row. ln_tenant row = fst own \<and> ln_member row = snd own) rows)))))"

definition usable_connector :: "connector_view list \<Rightarrow> string \<Rightarrow> bool" where
  "usable_connector available i \<longleftrightarrow> (\<exists>c \<in> set available. cn_id c = i \<and> cn_enabled c)"

definition validateConnectorSelection :: "automation_state \<Rightarrow> owner \<Rightarrow> string \<Rightarrow> string list \<Rightarrow> auto_error option" where
  "validateConnectorSelection s own employee ids =
     (if ids = [] then None
      else (case authorizedConnectors s own (Some employee) of
              Inl e \<Rightarrow> Some e
            | Inr available \<Rightarrow>
                if list_all (usable_connector available) ids then None else Some (AutoError 422 ''connector_unavailable'')))"

definition auto_employee :: "automation_state \<Rightarrow> owner \<Rightarrow> string \<Rightarrow> auto_error option" where
  "auto_employee s own i =
     (case find (\<lambda>e. ex_employee e = i \<and> \<not> ex_revoked e) (au_experts s (fst own) (snd own)) of
        None \<Rightarrow> Some (AutoError 403 ''employee_not_authorized'')
      | Some e \<Rightarrow>
          if \<not> expert_active e \<or> \<not> (\<exists>sn \<in> set (au_snapshots s (fst own) (snd own)). sn_employee sn = i \<and> sn_version sn = ex_version e)
          then Some (AutoError 403 ''employee_not_authorized'') else None)"

section \<open>Facts\<close>

lemma and_then_Inr [simp]: "and_then m f = Inr y \<longleftrightarrow> (\<exists>x. m = Inr x \<and> f x = Inr y)"
  by (simp add: and_then_def split: sum.splits)

lemma and_then_simps [simp]: "and_then (Inl e) f = Inl e" "and_then (Inr x) f = f x"
  by (simp_all add: and_then_def)

lemma check_that_Inr [simp]: "check_that m = Inr u \<longleftrightarrow> m = None"
  by (simp add: check_that_def split: option.splits)

end
