(* ===== verification/Automation_Service.thy ===== *)
theory Automation_Service
  imports Automation_Requests
begin

text \<open>
  \<open>AutomationTaskService\<close> of \<open>services/automation-tasks.ts\<close>: tasks as the user sees them over the
  conversation, task, creation and occurrence tables.  \<open>create\<close> and \<open>patch\<close> are split at their \<open>await\<close>
  on the session host; a conversation the code then asks the host to delete is a result of the step.  A
  method that throws inside a transaction leaves the tables as they were.  Resolving an identity drops
  it from the registry when it has expired; the reads here do not thread that clean-up, which does not
  change what resolves.  \<open>clock\<close> is the time of the registry, \<open>prompting\<close> is \<open>host.isPrompting\<close>.
\<close>

section \<open>Runs\<close>

definition run_outcome :: "work_outcome list \<Rightarrow> string option \<Rightarrow> receipt_state option \<Rightarrow> task_run_status" where
  "run_outcome results reason receipt =
     (if WActive \<in> set results then RunRunning
      else if WUnknown \<in> set results then RunUnknown
      else if WError \<in> set results then RunError
      else if WAborted \<in> set results then RunAborted
      else if results \<noteq> [] \<and> list_all (\<lambda>r. r = WSucceeded) results then RunSucceeded
      else if reason = Some ''overlap_skip'' then RunSkipped
      else if reason \<noteq> None \<and> reason \<noteq> Some [] then RunBlocked
      else if receipt = Some Accepted then RunRunning
      else RunUnknown)"

definition run_work :: "owner \<Rightarrow> occurrence \<Rightarrow> work_record list \<Rightarrow> work_record list" where
  "run_work own row work =
     filter (\<lambda>w. of_conversation (oc_conversation row) (fst own) (snd own) w \<and> oc_receipt row \<noteq> None \<and> wk_receipt w = oc_receipt row) work"

definition run_receipt :: "occurrence \<Rightarrow> store \<Rightarrow> receipt option" where
  "run_receipt row s =
     (case (oc_caller row, oc_receipt row) of
        (Some caller, Some key) \<Rightarrow> find_receipt (oc_conversation row) caller key s
      | _ \<Rightarrow> None)"

definition run_view :: "automation_env \<Rightarrow> owner \<Rightarrow> automation_state \<Rightarrow> occurrence \<Rightarrow> task_run" where
  "run_view env own s row =
     (let work = run_work own row (au_work s);
          started = concat (map (\<lambda>w. case wk_started w of None \<Rightarrow> [] | Some t \<Rightarrow> [t]) work);
          receipt = run_receipt row (au_store s)
      in \<lparr> rn_id = oc_id row, rn_conversation = oc_conversation row, rn_schedule = oc_schedule row, rn_at = oc_at row,
           rn_receipt = oc_receipt row,
           rn_status = (if oc_reason row = Some ''conversation_deleted'' then RunUnknown
                        else run_outcome (map wk_outcome work) (oc_reason row) (map_option rc_state receipt)),
           rn_started = (if started = [] then None else Some (Min (set started))),
           rn_finished = (if work \<noteq> [] \<and> list_all (\<lambda>w. wk_ended w \<noteq> None) work then Some (Max (set (map (the \<circ> wk_ended) work))) else None),
           rn_error = (case oc_reason row of None \<Rightarrow> Option.bind receipt rc_failureCode | r \<Rightarrow> r),
           rn_summary = (if work = [] then None else ae_resultSummary env (wk_id (last work))),
           rn_work = map wk_id work \<rparr>)"

definition run_key :: "automation_env \<Rightarrow> ms \<Rightarrow> string \<Rightarrow> cursor_item list" where
  "run_key env t i = [CStr (ae_iso env t), CStr i]"

text \<open>\<open>runRows\<close>: newest first; \<open>None\<close> is the limit \<open>-1\<close>.\<close>

definition runRows :: "automation_env \<Rightarrow> string \<Rightarrow> caller \<Rightarrow> nat option \<Rightarrow> automation_state \<Rightarrow> task_run list" where
  "runRows env i who limit s =
     (let own = ownerOf who;
          rows = sort_by (\<lambda>a b. 0 \<le> compareReadOrder (run_key env (oc_at a) (oc_id a)) (run_key env (oc_at b) (oc_id b)))
            (filter (\<lambda>row. oc_tenant row = fst own \<and> oc_member row = snd own
               \<and> ((oc_conversation row, i) \<in> set (st_bindings (au_store s)) \<or> oc_conversation row = i)) (st_occurrences (au_store s)))
      in map (run_view env own s) (case limit of None \<Rightarrow> rows | Some n \<Rightarrow> take n rows))"

section \<open>Reading a task\<close>

definition not_found :: auto_error where
  "not_found = AutoError 404 ''task_not_found''"

text \<open>\<open>resolve\<close>: the task row, if any, and its conversation.\<close>

definition task_resolve ::
  "string \<Rightarrow> caller \<Rightarrow> bool \<Rightarrow> store \<Rightarrow> auto_error + automation_task option \<times> conversation option" where
  "task_resolve i who includeDeleted s =
     (let own = ownerOf who
      in case task_get i (fst own) (snd own) s of
           Some task \<Rightarrow>
             if at_deleted task \<noteq> None \<and> \<not> includeDeleted then Inl not_found
             else Inr (Some task, getOwnedConversation (at_conversation task) (fst own) (snd own) s)
         | None \<Rightarrow>
             (case getOwnedConversation i (fst own) (snd own) s of
                Some c \<Rightarrow> if cv_schedule c = None \<or> task_forConversation i s \<noteq> None then Inl not_found else Inr (None, Some c)
              | None \<Rightarrow> Inl not_found))"

definition etag_of :: "int \<Rightarrow> nat \<Rightarrow> string" where
  "etag_of revision generation = ''\"'' @ int_text revision @ ''-'' @ dec generation @ ''\"''"

definition task_etag :: "automation_task option \<Rightarrow> conversation option \<Rightarrow> string" where
  "task_etag task c = etag_of (case task of None \<Rightarrow> 0 | Some t \<Rightarrow> at_revision t) (case c of None \<Rightarrow> 0 | Some c \<Rightarrow> cv_generation c)"

definition view_employee :: "conversation option \<Rightarrow> string option" where
  "view_employee c = (case c of None \<Rightarrow> None | Some c \<Rightarrow> (case cv_entry c of None \<Rightarrow> cv_coordinator c | e \<Rightarrow> e))"

definition view_retry :: "conversation option \<Rightarrow> store \<Rightarrow> schedule_retry option" where
  "view_retry c s = Option.bind c (\<lambda>c. withScheduleRetry c s)"

text \<open>The one occurrence of a one-shot has been launched.\<close>

definition oneshot_launched :: "schedule option \<Rightarrow> task_run option \<Rightarrow> schedule_retry option \<Rightarrow> bool" where
  "oneshot_launched sched last_run retry \<longleftrightarrow>
     (case (sched, last_run) of
        (Some s, Some r) \<Rightarrow> sc_oneShot s \<and> rn_receipt r \<noteq> None \<and> rn_receipt r \<noteq> Some [] \<and> rn_schedule r = sc_id s
           \<and> Some (rn_at r) = sc_at s \<and> retry = None
      | _ \<Rightarrow> False)"

definition view_status :: "schedule option \<Rightarrow> task_run option \<Rightarrow> schedule_retry option \<Rightarrow> task_status" where
  "view_status sched last_run retry =
     (let consumed = oneshot_launched sched last_run retry; outcome = map_option rn_status last_run
      in if consumed \<and> outcome \<noteq> Some RunRunning \<and> outcome \<noteq> Some RunBlocked then TaskCompleted
         else if (sched \<noteq> None \<and> sc_enabled (the sched)) \<or> (consumed \<and> outcome = Some RunRunning) then TaskActive
         else TaskPaused)"

definition view_block ::
  "automation_state \<Rightarrow> owner \<Rightarrow> rat \<Rightarrow> schedule option \<Rightarrow> schedule_retry option \<Rightarrow> string list \<Rightarrow> connector_view list \<Rightarrow> string option" where
  "view_block s own clock sched retry ids available =
     (if sched = None then Some ''configuration_required''
      else (case retry of
              Some r \<Rightarrow> Some (sr_reason r)
            | None \<Rightarrow>
                if \<not> list_all (usable_connector available) ids then Some ''connector_unavailable''
                else (case au_auth s of
                        None \<Rightarrow> None
                      | Some reg \<Rightarrow>
                          if fst (auth_resolve (fst own) (snd own) True clock reg) = None then Some ''authorization_required'' else None)))"

definition view_available :: "automation_state \<Rightarrow> owner \<Rightarrow> string option \<Rightarrow> string list \<Rightarrow> connector_view list" where
  "view_available s own employee ids =
     (if ids = [] then [] else (case authorizedConnectors s own employee of Inl _ \<Rightarrow> [] | Inr available \<Rightarrow> available))"

definition latest :: "ms option \<Rightarrow> ms option \<Rightarrow> ms option" where
  "latest a b = (case (a, b) of (Some x, Some y) \<Rightarrow> Some (max x y) | (Some x, None) \<Rightarrow> Some x | (None, y) \<Rightarrow> y)"

definition view_of ::
  "automation_env \<Rightarrow> ms \<Rightarrow> rat \<Rightarrow> string \<Rightarrow> caller \<Rightarrow> automation_task option \<Rightarrow> conversation option
     \<Rightarrow> (schedule \<times> jsval option) option \<Rightarrow> automation_state \<Rightarrow> task_view" where
  "view_of env now clock i who task c sched s =
     (let own = ownerOf who;
          employee = view_employee c;
          plan = map_option fst sched;
          last_run = (case runRows env i who (Some 1) s of [] \<Rightarrow> None | r # _ \<Rightarrow> Some r);
          retry = view_retry c (au_store s);
          ids = (case task of None \<Rightarrow> [] | Some t \<Rightarrow> at_connectors t);
          available = view_available s own employee ids;
          prompt = (case plan of None \<Rightarrow> [] | Some p \<Rightarrow> sc_prompt p)
      in \<lparr> tv_id = i,
           tv_name = (case task of Some t \<Rightarrow> at_name t | None \<Rightarrow> nullish (Option.bind c cv_title) (ae_untitled env)),
           tv_category = (case task of Some t \<Rightarrow> at_category t | None \<Rightarrow> ''other''),
           tv_prompt = prompt, tv_summary = take 240 prompt, tv_employee = employee,
           tv_employeeName = map_option ex_name (find (\<lambda>e. Some (ex_employee e) = employee) (au_experts s (fst own) (snd own))),
           tv_connectorIds = ids, tv_connectors = filter (\<lambda>k. cn_id k \<in> set ids) available,
           tv_schedule = publicSchedule env sched,
           tv_status = view_status plan last_run retry,
           tv_block = view_block s own clock plan retry ids available,
           tv_conversation = map_option cv_id c, tv_group = (map_option cv_kind c = Some ''group''),
           tv_automation = (task \<noteq> None), tv_etag = task_etag task c,
           tv_lastRun = last_run,
           tv_nextRun = (if Option.bind task at_deleted \<noteq> None then None else Option.bind plan (\<lambda>p. nextScheduleAt (ae_temporal env) p now)),
           tv_created = (case task of Some t \<Rightarrow> Some (at_created t) | None \<Rightarrow> map_option cv_created c),
           tv_updated = latest (map_option at_updated task) (map_option cv_updated c) \<rparr>)"

definition auto_get ::
  "automation_env \<Rightarrow> ms \<Rightarrow> rat \<Rightarrow> string \<Rightarrow> caller \<Rightarrow> bool \<Rightarrow> automation_state \<Rightarrow> auto_error + task_view" where
  "auto_get env now clock i who includeDeleted s =
     and_then (task_resolve i who includeDeleted (au_store s)) (\<lambda>(task, c).
     and_then (stored_schedule env c) (\<lambda>sched.
       Inr (view_of env now clock i who task c sched s)))"

section \<open>Lists\<close>

definition pair_text :: "string \<times> string \<Rightarrow> string" where
  "pair_text e = fst e @ '','' @ snd e"

record 'a auto_page =
  ap_data :: "'a list"
  ap_more :: bool
  ap_next :: "string option"

definition auto_page_of ::
  "automation_env \<Rightarrow> 'a list \<Rightarrow> caller \<Rightarrow> url_query \<Rightarrow> string \<Rightarrow> ('a \<Rightarrow> cursor_item list) \<Rightarrow> auto_error + 'a auto_page" where
  "auto_page_of env rows who query resource key =
     (let own = ownerOf who; number = (case map_of query ''limit'' of None \<Rightarrow> JNum (Fin 50) | Some text \<Rightarrow> ae_number env text)
      in if \<not> int_in number 1 100 then Inl (AutoError 422 ''invalid_limit'')
         else (let limit = nat (the (js_integer number));
                   filters = sort_by (\<lambda>a b. \<not> str_less (pair_text b) (pair_text a))
                     (filter (\<lambda>e. fst e \<noteq> ''cursor'' \<and> fst e \<noteq> ''limit'') query);
                   scope = readCursorScope (ae_cursors env) resource [JStr (fst own), JStr (snd own)]
                     (map (\<lambda>e. JArr [JStr (fst e), JStr (snd e)]) filters)
               in and_then
                    (case map_of query ''cursor'' of
                       None \<Rightarrow> Inr None
                     | Some cursor \<Rightarrow>
                         if cursor = [] then Inr None
                         else (case decodeReadCursor (ae_cursors env) cursor scope [TString, TString] of
                                 Inl e \<Rightarrow> Inl (AutoRead e) | Inr b \<Rightarrow> Inr (Some b)))
                    (\<lambda>boundary.
                       let sorted_rows = filter (\<lambda>r. boundary = None \<or> compareReadOrder (key r) (the boundary) < 0)
                             (sort_by (\<lambda>a b. 0 \<le> compareReadOrder (key a) (key b)) rows);
                           data = take limit sorted_rows;
                           more = length sorted_rows > limit
                       in Inr \<lparr> ap_data = data, ap_more = more,
                                ap_next = (if more then Some (encodeReadCursor (ae_cursors env) scope (key (last data))) else None) \<rparr>)))"

fun status_text :: "task_status \<Rightarrow> string" where
  "status_text TaskActive = ''active''"
| "status_text TaskPaused = ''paused''"
| "status_text TaskCompleted = ''completed''"

fun auto_get_all ::
  "automation_env \<Rightarrow> ms \<Rightarrow> rat \<Rightarrow> string list \<Rightarrow> caller \<Rightarrow> automation_state \<Rightarrow> auto_error + task_view list" where
  "auto_get_all env now clock [] who s = Inr []"
| "auto_get_all env now clock (i # is) who s =
     and_then (auto_get env now clock i who False s) (\<lambda>v.
     and_then (auto_get_all env now clock is who s) (\<lambda>vs. Inr (v # vs)))"

definition owned_task_ids :: "owner \<Rightarrow> store \<Rightarrow> string list" where
  "owned_task_ids own s =
     map at_id (filter (\<lambda>t. at_deleted t = None) (task_list (fst own) (snd own) s))
     @ map cv_id (filter (\<lambda>c. cv_tenant c = Some (fst own) \<and> cv_member c = Some (snd own) \<and> task_forConversation (cv_id c) s = None)
         (map fst (listScheduledConversations s)))"

definition matches_filter :: "string \<Rightarrow> string \<Rightarrow> string \<Rightarrow> string option \<Rightarrow> store \<Rightarrow> task_view \<Rightarrow> bool" where
  "matches_filter category status q employee s t \<longleftrightarrow>
     (category = ''all'' \<or> tv_category t = category) \<and> (status = ''all'' \<or> status_text (tv_status t) = status)
     \<and> (q = [] \<or> sublist (js_lower q) (js_lower (tv_name t @ '' '' @ tv_summary t @ '' '' @ nullish (tv_employeeName t) [])))
     \<and> (employee = None \<or> employee = Some [] \<or> tv_employee t = employee
        \<or> (tv_group t \<and> (\<exists>p \<in> set (listConversationParticipants (nullish (tv_conversation t) []) False s). Some (pt_employee p) = employee)))"

definition view_key :: "automation_env \<Rightarrow> task_view \<Rightarrow> cursor_item list" where
  "view_key env t = [CStr (case tv_created t of None \<Rightarrow> [] | Some c \<Rightarrow> ae_iso env c), CStr (tv_id t)]"

text \<open>\<open>list\<close>: an item is a task without its prompt.\<close>

definition auto_list ::
  "automation_env \<Rightarrow> ms \<Rightarrow> rat \<Rightarrow> caller \<Rightarrow> url_query \<Rightarrow> automation_state \<Rightarrow> auto_error + task_view auto_page" where
  "auto_list env now clock who query s =
     (let category = nullish (map_of query ''category'') ''all''; status = nullish (map_of query ''status'') ''all'';
          q = nullish (map_of query ''q'') []
      in if \<not> list_all (\<lambda>e. fst e \<in> {''category'', ''status'', ''q'', ''employee_id'', ''limit'', ''cursor''}) query
         then Inl (AutoError 422 ''validation_error'')
         else if category \<notin> set (''all'' # categories) \<or> status \<notin> {''all'', ''active'', ''paused'', ''completed''} \<or> length q > 120
         then Inl (AutoError 422 ''invalid_filter'')
         else and_then (auto_get_all env now clock (owned_task_ids (ownerOf who) (au_store s)) who s) (\<lambda>views.
           auto_page_of env
             (map (\<lambda>t. t\<lparr>tv_prompt := []\<rparr>) (filter (matches_filter category status q (map_of query ''employee_id'') (au_store s)) views))
             who query ''tasks'' (view_key env)))"

definition auto_runs ::
  "automation_env \<Rightarrow> string \<Rightarrow> caller \<Rightarrow> url_query \<Rightarrow> automation_state \<Rightarrow> auto_error + task_run auto_page" where
  "auto_runs env i who query s =
     (if \<not> list_all (\<lambda>e. fst e \<in> {''limit'', ''cursor'', ''include_deleted''}) query then Inl (AutoError 422 ''validation_error'')
      else and_then (task_resolve i who (map_of query ''include_deleted'' = Some ''true'') (au_store s)) (\<lambda>_.
        auto_page_of env (runRows env i who None s) who query (''runs:'' @ i) (\<lambda>r. run_key env (rn_at r) (rn_id r))))"

section \<open>Creating a task\<close>

record create_request =
  cq_name :: string
  cq_prompt :: string
  cq_category :: string
  cq_employee :: string
  cq_connectors :: "string list"
  cq_schedule :: jsval
  cq_fingerprint :: string

text \<open>\<open>/^[\x21-\x7e]{1,128}$/\<close>\<close>

definition idempotency_key_ok :: "string option \<Rightarrow> bool" where
  "idempotency_key_ok key \<longleftrightarrow>
     (case key of
        None \<Rightarrow> False
      | Some k \<Rightarrow> k \<noteq> [] \<and> length k \<le> 128 \<and> list_all (\<lambda>c. 33 \<le> (of_char c :: nat) \<and> (of_char c :: nat) \<le> 126) k)"

definition task_fields :: "string list" where
  "task_fields = [''name'', ''prompt'', ''category'', ''employee_id'', ''connector_ids'', ''schedule'']"

definition create_request_of :: "automation_env \<Rightarrow> jsval \<Rightarrow> string option \<Rightarrow> auto_error + create_request" where
  "create_request_of env body key =
     and_then (check_that (if onlyKeys body task_fields then None else Some (AutoError 422 ''validation_error''))) (\<lambda>_.
     and_then (check_that (if idempotency_key_ok key then None else Some (AutoError 422 ''idempotency_key_required''))) (\<lambda>_.
     and_then (auto_text (js_field body ''name'') ''task_name'' 120) (\<lambda>name.
     and_then (auto_text (js_field body ''prompt'') ''prompt'' 20000) (\<lambda>prompt.
     and_then (auto_category (js_field body ''category'')) (\<lambda>category.
     and_then (auto_text (js_field body ''employee_id'') ''employee_id'' 256) (\<lambda>employee.
     and_then (auto_connectorIds (if js_field body ''connector_ids'' \<in> {JUndef, JNull} then JArr [] else js_field body ''connector_ids'')) (\<lambda>ids.
     and_then (taskSchedule env (js_field body ''schedule'') prompt ''fingerprint'' 1 True) (\<lambda>(sched, calendar).
       Inr \<lparr> cq_name = name, cq_prompt = prompt, cq_category = category, cq_employee = employee, cq_connectors = ids,
             cq_schedule = js_field body ''schedule'',
             cq_fingerprint = ae_fingerprint env name prompt category employee ids (schedule_value env sched calendar) \<rparr>))))))))"

definition is_creation :: "owner \<Rightarrow> string \<Rightarrow> task_creation \<Rightarrow> bool" where
  "is_creation own key c \<longleftrightarrow> tc_tenant c = fst own \<and> tc_member c = snd own \<and> tc_key c = key"

definition creation_of :: "owner \<Rightarrow> string \<Rightarrow> store \<Rightarrow> task_creation option" where
  "creation_of own key s = find (is_creation own key) (st_creations s)"

definition private_conversation :: "owner \<Rightarrow> string \<Rightarrow> string \<Rightarrow> string option \<Rightarrow> permission_mode \<Rightarrow> conversation_input" where
  "private_conversation own i title employee mode =
     \<lparr> ci_id = i, ci_sessionFile = [], ci_workspace = [], ci_title = Some title, ci_description = None, ci_orchestration = None,
       ci_kind = Some ''private'', ci_labels = None, ci_state = None, ci_entry = employee, ci_coordinator = None, ci_solution = None,
       ci_tenant = Some (fst own), ci_member = Some (snd own), ci_schedule = None, ci_permission = Some mode, ci_lastRead = None,
       ci_created = None, ci_updated = None \<rparr>"

definition lift_store :: "store_error + 'a \<Rightarrow> auto_error + 'a" where
  "lift_store r = (case r of Inl e \<Rightarrow> Inl (AutoStore e) | Inr x \<Rightarrow> Inr x)"

text \<open>The first transaction of \<open>create\<close>: the key, the conversation and the task row.\<close>

definition insert_creation ::
  "owner \<Rightarrow> string \<Rightarrow> create_request \<Rightarrow> string \<Rightarrow> string \<Rightarrow> ms \<Rightarrow> store \<Rightarrow> auto_error + store" where
  "insert_creation own key q i conversation now s =
     (let s1 = s\<lparr>st_creations := st_creations s @
            [\<lparr> tc_tenant = fst own, tc_member = snd own, tc_key = key, tc_fingerprint = cq_fingerprint q, tc_task = i,
               tc_conversation = conversation, tc_completed = False, tc_response = None \<rparr>]\<rparr>;
          s2 = createConversation (private_conversation own conversation (cq_name q) (Some (cq_employee q)) ReadOnly) now s1
      in lift_store (task_insert
           \<lparr> at_id = i, at_tenant = fst own, at_member = snd own, at_name = cq_name q, at_category = cq_category q,
             at_conversation = conversation, at_connectors = cq_connectors q, at_revision = 1, at_created = now, at_updated = now,
             at_deleted = None \<rparr> s2))"

record pending_create =
  pn_caller :: caller
  pn_key :: string
  pn_task :: string
  pn_conversation :: string
  pn_prompt :: string
  pn_schedule :: jsval

datatype create_step = CreateReplay task_view | CreateStarted pending_create

definition recorded_response :: "task_creation option \<Rightarrow> string option" where
  "recorded_response c =
     (case c of
        None \<Rightarrow> None
      | Some c \<Rightarrow> if tc_completed c \<and> tc_response c \<noteq> Some [] then tc_response c else None)"

definition new_creation_checks ::
  "automation_env \<Rightarrow> ms \<Rightarrow> owner \<Rightarrow> create_request \<Rightarrow> task_creation option \<Rightarrow> automation_state \<Rightarrow> auto_error + unit" where
  "new_creation_checks env now own q existing s =
     and_then (check_that (auto_employee s own (cq_employee q))) (\<lambda>_.
     and_then (check_that (validateConnectorSelection s own (cq_employee q) (cq_connectors q))) (\<lambda>_.
     and_then (taskSchedule env (cq_schedule q) (cq_prompt q) ''pending'' 1 True) (\<lambda>(configured, _).
       check_that (if existing = None \<and> sc_oneShot configured \<and> nullish (sc_at configured) 0 \<le> now
         then Some (AutoError 422 ''task_schedule_invalid'') else None))))"

text \<open>\<open>create\<close> up to its \<open>await\<close>; \<open>fresh\<close> are the two values of \<open>randomUUID()\<close>.\<close>

definition create_begin ::
  "automation_env \<Rightarrow> ms \<Rightarrow> string \<times> string \<Rightarrow> jsval \<Rightarrow> caller \<Rightarrow> string option \<Rightarrow> automation_state
     \<Rightarrow> auto_error + create_step \<times> automation_state" where
  "create_begin env now fresh body who key s =
     and_then (create_request_of env body key) (\<lambda>q.
       let own = ownerOf who; k = nullish key []; existing = creation_of own k (au_store s)
       in if existing \<noteq> None \<and> tc_fingerprint (the existing) \<noteq> cq_fingerprint q then Inl (AutoError 409 ''idempotency_key_reused'')
          else (case recorded_response existing of
            Some json \<Rightarrow> Inr (CreateReplay (ae_unjson env json), s)
          | None \<Rightarrow>
              and_then (new_creation_checks env now own q existing s) (\<lambda>_.
                let i = (case existing of None \<Rightarrow> fst fresh | Some c \<Rightarrow> tc_task c);
                    conversation = (case existing of None \<Rightarrow> snd fresh | Some c \<Rightarrow> tc_conversation c)
                in if i \<in> set (au_creating s) then Inl (AutoError 409 ''task_creation_pending'')
                   else and_then (if existing = None then insert_creation own k q i conversation now (au_store s) else Inr (au_store s)) (\<lambda>st.
                     Inr (CreateStarted \<lparr> pn_caller = who, pn_key = k, pn_task = i, pn_conversation = conversation,
                                          pn_prompt = cq_prompt q, pn_schedule = cq_schedule q \<rparr>,
                          s\<lparr>au_store := st, au_creating := au_creating s @ [i]\<rparr>)))))"

definition set_creation :: "owner \<Rightarrow> string \<Rightarrow> (task_creation \<Rightarrow> task_creation) \<Rightarrow> store \<Rightarrow> store" where
  "set_creation own key f s = s\<lparr>st_creations := update_rows (is_creation own key) f (st_creations s)\<rparr>"

definition set_schedule :: "automation_env \<Rightarrow> string \<Rightarrow> (schedule \<times> jsval option) option \<Rightarrow> ms \<Rightarrow> store \<Rightarrow> auto_error + store" where
  "set_schedule env conversation sched now s =
     and_then (lift_store (updateConversation conversation
         (empty_patch\<lparr>cp_schedule := Some (map_option (\<lambda>(p, calendar). schedule_value env p calendar) sched)\<rparr>) now s)) (\<lambda>r. Inr (snd r))"

text \<open>The second transaction of \<open>create\<close>.\<close>

definition create_commit ::
  "automation_env \<Rightarrow> ms \<Rightarrow> rat \<Rightarrow> pending_create \<Rightarrow> automation_state \<Rightarrow> auto_error + task_view \<times> store" where
  "create_commit env now clock p s =
     (let own = ownerOf (pn_caller p)
      in and_then (case task_get (pn_task p) (fst own) (snd own) (au_store s) of
                     None \<Rightarrow> Inl (AutoError 409 ''task_creation_cancelled'')
                   | Some t \<Rightarrow> if at_deleted t \<noteq> None then Inl (AutoError 409 ''task_creation_cancelled'') else Inr ()) (\<lambda>_.
         and_then (taskSchedule env (pn_schedule p) (pn_prompt p) (pn_task p) 1 True) (\<lambda>sched.
         and_then (set_schedule env (pn_conversation p) (Some sched) now
                     (set_creation own (pn_key p) (\<lambda>c. c\<lparr>tc_completed := True\<rparr>) (au_store s))) (\<lambda>st.
         and_then (auto_get env now clock (pn_task p) (pn_caller p) False (s\<lparr>au_store := st\<rparr>)) (\<lambda>v.
           Inr (v, set_creation own (pn_key p) (\<lambda>c. c\<lparr>tc_completed := True, tc_response := Some (ae_json env v)\<rparr>) st))))))"

text \<open>\<open>create\<close> behind its \<open>await\<close>, which may have failed.\<close>

definition create_finish ::
  "automation_env \<Rightarrow> ms \<Rightarrow> rat \<Rightarrow> pending_create \<Rightarrow> bool \<Rightarrow> automation_state \<Rightarrow> (auto_error + task_view) \<times> automation_state" where
  "create_finish env now clock p initialized s =
     (let s0 = s\<lparr>au_creating := removeAll (pn_task p) (au_creating s)\<rparr>
      in if \<not> initialized then (Inl AutoHost, s0)
         else (case create_commit env now clock p s of
                 Inl e \<Rightarrow> (Inl e, s0)
               | Inr (v, st) \<Rightarrow> (Inr v, s0\<lparr>au_store := st\<rparr>)))"

section \<open>Changing a task\<close>

definition checkVersion ::
  "automation_env \<Rightarrow> ms \<Rightarrow> rat \<Rightarrow> string \<Rightarrow> caller \<Rightarrow> string option \<Rightarrow> automation_state \<Rightarrow> auto_error + unit" where
  "checkVersion env now clock i who etag s =
     and_then (check_that (if etag = None \<or> etag = Some [] then Some (AutoError 422 ''if_match_required'') else None)) (\<lambda>_.
     and_then (auto_get env now clock i who False s) (\<lambda>v.
       check_that (if Some (tv_etag v) \<noteq> etag then Some (AutoError 409 ''task_revision_conflict'') else None)))"

definition requireInitialized :: "string \<Rightarrow> store \<Rightarrow> auto_error + unit" where
  "requireInitialized i s =
     check_that (if task_creation_pending i s then Some (AutoError 409 ''task_creation_pending'') else None)"

text \<open>\<open>materialize\<close>: the task row of a conversation that has only a schedule.\<close>

definition materialize :: "automation_env \<Rightarrow> ms \<Rightarrow> string \<Rightarrow> caller \<Rightarrow> store \<Rightarrow> auto_error + automation_task \<times> store" where
  "materialize env now i who s =
     and_then (task_resolve i who False s) (\<lambda>(_, c).
       case c of
         None \<Rightarrow> Inl AutoType
       | Some c \<Rightarrow>
           (let own = ownerOf who;
                row = \<lparr> at_id = i, at_tenant = fst own, at_member = snd own, at_name = nullish (cv_title c) (ae_untitled env),
                        at_category = ''other'', at_conversation = cv_id c, at_connectors = [], at_revision = 1,
                        at_created = cv_created c, at_updated = now, at_deleted = None \<rparr>
            in and_then (lift_store (task_insert row s)) (\<lambda>st. Inr (row, st))))"

datatype task_action = ActionEnable | ActionPause | ActionDelete

definition row_for :: "automation_env \<Rightarrow> ms \<Rightarrow> string \<Rightarrow> caller \<Rightarrow> automation_task option \<Rightarrow> store \<Rightarrow> auto_error + automation_task \<times> store" where
  "row_for env now i who task s = (case task of Some t \<Rightarrow> Inr (t, s) | None \<Rightarrow> materialize env now i who s)"

definition toggle_schedule ::
  "automation_env \<Rightarrow> conversation option \<Rightarrow> (schedule \<times> jsval option) option \<Rightarrow> bool \<Rightarrow> ms \<Rightarrow> store \<Rightarrow> auto_error + store" where
  "toggle_schedule env c sched enabled now s =
     (case (c, sched) of
        (Some c, Some (p, calendar)) \<Rightarrow>
          if sc_enabled p \<noteq> enabled then set_schedule env (cv_id c) (Some (p\<lparr>sc_enabled := enabled\<rparr>, calendar)) now s else Inr s
      | _ \<Rightarrow> Inr s)"

text \<open>\<open>action\<close>: one transaction.\<close>

definition task_act ::
  "automation_env \<Rightarrow> ms \<Rightarrow> rat \<Rightarrow> string \<Rightarrow> task_action \<Rightarrow> caller \<Rightarrow> string option \<Rightarrow> automation_state
     \<Rightarrow> auto_error + task_view option \<times> automation_state" where
  "task_act env now clock i act who etag s =
     and_then (checkVersion env now clock i who etag s) (\<lambda>_.
     and_then (if act = ActionDelete then Inr () else requireInitialized i (au_store s)) (\<lambda>_.
     and_then (task_resolve i who False (au_store s)) (\<lambda>(_, c).
     and_then (row_for env now i who (task_get i (fst (ownerOf who)) (snd (ownerOf who)) (au_store s)) (au_store s)) (\<lambda>(row, st1).
     and_then (stored_schedule env c) (\<lambda>sched.
     and_then (if act \<noteq> ActionEnable then Inr ()
               else if sched = None then Inl (AutoError 409 ''task_not_enableable'')
               else and_then (auto_get env now clock i who False (s\<lparr>au_store := st1\<rparr>)) (\<lambda>v.
                 check_that (if tv_status v = TaskCompleted then Some (AutoError 409 ''task_not_enableable'') else None))) (\<lambda>_.
     and_then (toggle_schedule env c sched (act = ActionEnable) now st1) (\<lambda>st2.
       if act = ActionDelete then Inr (None, s\<lparr>au_store := task_update (row\<lparr>at_deleted := Some now\<rparr>) now st2\<rparr>)
       else and_then (auto_get env now clock i who False (s\<lparr>au_store := st2\<rparr>)) (\<lambda>v. Inr (Some v, s\<lparr>au_store := st2\<rparr>)))))))))"

record pending_patch =
  pp_id :: string
  pp_caller :: caller
  pp_etag :: "string option"
  pp_conversation :: string
  pp_next :: string
  pp_task :: "automation_task option"
  pp_name :: string
  pp_category :: string
  pp_connectors :: "string list"
  pp_schedule :: "(schedule \<times> jsval option) option"
  pp_switching :: bool
  pp_reschedule :: bool

definition given :: "jsval \<Rightarrow> string \<Rightarrow> bool" where
  "given body k \<longleftrightarrow> js_field body k \<noteq> JUndef"

text \<open>The schedule a patch leads to.\<close>

definition patched_schedule ::
  "automation_env \<Rightarrow> string \<Rightarrow> jsval \<Rightarrow> string \<Rightarrow> (schedule \<times> jsval option) option \<Rightarrow> auto_error + (schedule \<times> jsval option) option" where
  "patched_schedule env i body current sched =
     (if given body ''schedule''
      then and_then (if given body ''prompt'' then auto_text (js_field body ''prompt'') ''prompt'' 20000 else Inr current) (\<lambda>prompt.
        and_then (taskSchedule env (js_field body ''schedule'') prompt (case sched of None \<Rightarrow> i | Some (p, _) \<Rightarrow> sc_id p)
            ((case sched of None \<Rightarrow> 0 | Some (p, _) \<Rightarrow> sc_revision p) + 1) (case sched of None \<Rightarrow> True | Some (p, _) \<Rightarrow> sc_enabled p)) (\<lambda>r.
          Inr (Some r)))
      else if given body ''prompt''
      then (case sched of
              None \<Rightarrow> Inl (AutoError 422 ''configuration_required'')
            | Some (p, calendar) \<Rightarrow>
                and_then (auto_text (js_field body ''prompt'') ''prompt'' 20000) (\<lambda>prompt.
                  Inr (Some (p\<lparr>sc_prompt := prompt, sc_revision := sc_revision p + 1\<rparr>, calendar))))
      else Inr sched)"

definition patch_checks ::
  "jsval \<Rightarrow> bool \<Rightarrow> string option \<Rightarrow> string list \<Rightarrow> owner \<Rightarrow> automation_state \<Rightarrow> auto_error + unit" where
  "patch_checks body grouped employee ids own s =
     (let touched = given body ''employee_id'' \<or> given body ''connector_ids''
      in if grouped \<and> touched then Inl (AutoError 422 ''group_target_immutable'')
         else if employee \<noteq> None \<and> employee \<noteq> Some [] \<and> touched
         then and_then (check_that (auto_employee s own (the employee))) (\<lambda>_.
           check_that (validateConnectorSelection s own (the employee) ids))
         else Inr ())"

text \<open>\<open>patch\<close> up to its \<open>await\<close>: a change of the employee has created the next conversation.\<close>

definition patch_begin ::
  "automation_env \<Rightarrow> ms \<Rightarrow> rat \<Rightarrow> (string \<Rightarrow> bool) \<Rightarrow> string \<Rightarrow> string \<Rightarrow> jsval \<Rightarrow> caller \<Rightarrow> string option \<Rightarrow> automation_state
     \<Rightarrow> auto_error + pending_patch \<times> automation_state" where
  "patch_begin env now clock prompting uuid i body who etag s =
     (let own = ownerOf who
      in and_then (check_that (if onlyKeys body task_fields then None else Some (AutoError 422 ''validation_error''))) (\<lambda>_.
         and_then (checkVersion env now clock i who etag s) (\<lambda>_.
         and_then (requireInitialized i (au_store s)) (\<lambda>_.
         and_then (task_resolve i who False (au_store s)) (\<lambda>(task, conversation).
         and_then (case conversation of None \<Rightarrow> Inl (AutoError 409 ''conversation_deleted'') | Some c \<Rightarrow> Inr c) (\<lambda>c.
         and_then (check_that (if (\<exists>k \<in> set [''employee_id'', ''connector_ids'', ''prompt'', ''schedule'']. k \<in> set (js_keys body)) \<and> prompting (cv_id c)
             then Some (AutoError 409 ''task_busy'') else None)) (\<lambda>_.
         and_then (auto_get env now clock i who False s) (\<lambda>current.
         and_then (if given body ''name'' then auto_text (js_field body ''name'') ''task_name'' 120 else Inr (tv_name current)) (\<lambda>name.
         and_then (if given body ''category'' then auto_category (js_field body ''category'') else Inr (tv_category current)) (\<lambda>category.
         and_then (if given body ''connector_ids'' then auto_connectorIds (js_field body ''connector_ids'') else Inr (tv_connectorIds current)) (\<lambda>ids.
         and_then (if given body ''employee_id'' then and_then (auto_text (js_field body ''employee_id'') ''employee_id'' 256) (\<lambda>e. Inr (Some e))
                   else Inr (tv_employee current)) (\<lambda>employee.
         and_then (patch_checks body (tv_group current) employee ids own s) (\<lambda>_.
         and_then (stored_schedule env conversation) (\<lambda>sched.
         and_then (patched_schedule env i body (tv_prompt current) sched) (\<lambda>sched'.
           let switching = (employee \<noteq> tv_employee current); target = (if switching then uuid else cv_id c)
           in Inr (\<lparr> pp_id = i, pp_caller = who, pp_etag = etag, pp_conversation = cv_id c, pp_next = target, pp_task = task,
                     pp_name = name, pp_category = category, pp_connectors = ids, pp_schedule = sched', pp_switching = switching,
                     pp_reschedule = (switching \<or> given body ''schedule'' \<or> given body ''prompt'') \<rparr>,
                   if switching
                   then s\<lparr>au_store := createConversation (private_conversation own target name employee (cv_permission c)) now (au_store s)\<rparr>
                   else s))))))))))))))))"

text \<open>The transaction of \<open>patch\<close>; the version is checked again behind the \<open>await\<close>.\<close>

definition patch_commit ::
  "automation_env \<Rightarrow> ms \<Rightarrow> rat \<Rightarrow> (string \<Rightarrow> bool) \<Rightarrow> pending_patch \<Rightarrow> automation_state \<Rightarrow> auto_error + store" where
  "patch_commit env now clock prompting p s =
     and_then (checkVersion env now clock (pp_id p) (pp_caller p) (pp_etag p) s) (\<lambda>_.
     and_then (check_that (if pp_switching p \<and> prompting (pp_conversation p) then Some (AutoError 409 ''task_busy'') else None)) (\<lambda>_.
     and_then (row_for env now (pp_id p) (pp_caller p) (pp_task p) (au_store s)) (\<lambda>(row, st1).
     and_then (if pp_switching p
               then and_then (set_schedule env (pp_conversation p) None now st1) (\<lambda>st. lift_store (task_bind (pp_id p) (pp_next p) st))
               else Inr st1) (\<lambda>st2.
       let st3 = task_update (row\<lparr>at_name := pp_name p, at_category := pp_category p, at_conversation := pp_next p,
                   at_connectors := pp_connectors p\<rparr>) now st2
       in if pp_reschedule p then set_schedule env (pp_next p) (pp_schedule p) now st3 else Inr st3))))"

text \<open>\<open>patch\<close> behind its \<open>await\<close>: the answer, the state and the conversation the host is asked to delete.\<close>

definition patch_finish ::
  "automation_env \<Rightarrow> ms \<Rightarrow> rat \<Rightarrow> (string \<Rightarrow> bool) \<Rightarrow> pending_patch \<Rightarrow> bool \<Rightarrow> automation_state
     \<Rightarrow> (auto_error + task_view) \<times> automation_state \<times> string option" where
  "patch_finish env now clock prompting p initialized s =
     (let discard = (if pp_switching p then Some (pp_next p) else None)
      in if pp_switching p \<and> \<not> initialized then (Inl AutoHost, s, discard)
         else (case patch_commit env now clock prompting p s of
                 Inl e \<Rightarrow> (Inl e, s, discard)
               | Inr st \<Rightarrow>
                   (let s' = s\<lparr>au_store := st\<rparr> in (auto_get env now clock (pp_id p) (pp_caller p) False s', s', None))))"

section \<open>Facts\<close>

lemma lift_store_Inr [simp]: "lift_store r = Inr x \<longleftrightarrow> r = Inr x"
  by (simp add: lift_store_def split: sum.splits)

lemma split_at_last:
  assumes "a @ c # d = a' @ c # d'" "c \<notin> set d" "c \<notin> set d'"
  shows "a = a' \<and> d = d'"
proof -
  from assms(1) have "rev d @ c # rev a = rev d' @ c # rev a'" by (metis append.assoc append_Cons append_Nil rev.simps(2) rev_append)
  with assms(2,3) show ?thesis by (simp add: split_at_char)
qed

lemma etag_of_inject: "etag_of r g = etag_of r' g' \<longleftrightarrow> r = r' \<and> g = g'"
proof
  assume "etag_of r g = etag_of r' g'"
  then have "(int_text r @ CHR ''-'' # dec g) @ ''\"'' = (int_text r' @ CHR ''-'' # dec g') @ ''\"''" by (simp add: etag_of_def)
  then have "int_text r @ CHR ''-'' # dec g = int_text r' @ CHR ''-'' # dec g'" by (rule append_same_eq [THEN iffD1])
  moreover have "CHR ''-'' \<notin> set (dec n)" for n by (auto dest!: dec_chars simp: is_digit_def)
  ultimately show "r = r' \<and> g = g'" by (auto simp: int_text_inject dest!: split_at_last)
qed (simp add: etag_of_def)

text \<open>The version of a task an entity tag stands for: the revision of its row and the generation of its schedule.\<close>

definition version_of :: "string \<Rightarrow> caller \<Rightarrow> store \<Rightarrow> (int \<times> nat) option" where
  "version_of i who s =
     (case task_resolve i who False s of
        Inl _ \<Rightarrow> None
      | Inr (task, c) \<Rightarrow> Some (case task of None \<Rightarrow> 0 | Some t \<Rightarrow> at_revision t, case c of None \<Rightarrow> 0 | Some c \<Rightarrow> cv_generation c))"

definition owned_task :: "string \<Rightarrow> caller \<Rightarrow> store \<Rightarrow> automation_task option" where
  "owned_task i who s = task_get i (fst (ownerOf who)) (snd (ownerOf who)) s"

definition row_revision :: "string \<Rightarrow> caller \<Rightarrow> store \<Rightarrow> int" where
  "row_revision i who s = (case owned_task i who s of None \<Rightarrow> 0 | Some t \<Rightarrow> at_revision t)"

definition version_less :: "(int \<times> nat) option \<Rightarrow> (int \<times> nat) option \<Rightarrow> bool" where
  "version_less v w \<longleftrightarrow>
     (case (v, w) of
        (Some a, Some b) \<Rightarrow> fst a < fst b \<or> (fst a = fst b \<and> snd a < snd b)
      | (Some _, None) \<Rightarrow> True
      | _ \<Rightarrow> False)"

lemma version_less_trans: "version_less u v \<Longrightarrow> version_less v w \<Longrightarrow> version_less u w"
  by (auto simp: version_less_def split: option.splits)

lemma version_less_irrefl [simp]: "\<not> version_less v v"
  by (auto simp: version_less_def split: option.splits)

lemma version_of_revision: "version_of i who s = Some (r, g) \<Longrightarrow> r = row_revision i who s"
  by (auto simp: version_of_def task_resolve_def row_revision_def owned_task_def Let_def split: sum.splits option.splits if_splits)

lemma version_revision_less:
  assumes "version_of i who s = Some v" "row_revision i who s < row_revision i who s'"
  shows "version_less (version_of i who s) (version_of i who s')"
  using assms version_of_revision [of i who s] version_of_revision [of i who s']
  by (cases v; cases "version_of i who s'") (auto simp: version_less_def)

lemma checkVersion_Inr:
  assumes "checkVersion env now clock i who etag s = Inr u"
  obtains r g where "version_of i who (au_store s) = Some (r, g)" "etag = Some (etag_of r g)"
  using assms
  by (auto simp: checkVersion_def auto_get_def version_of_def view_of_def task_etag_def Let_def split: if_splits)

lemma owned_task_in: "owned_task i who s = Some t \<Longrightarrow> t \<in> set (st_tasks s) \<and> at_id t = i \<and> at_tenant t = fst (ownerOf who) \<and> at_member t = snd (ownerOf who)"
  by (auto simp: owned_task_def task_get_def dest: find_Some_in)

lemma resolve_task: "task_resolve i who False s = Inr (task, c) \<Longrightarrow> task = owned_task i who s"
  by (auto simp: task_resolve_def owned_task_def Let_def split: option.splits if_splits)

section \<open>What the writes leave alone\<close>

lemma saveConversation_tasks [simp]: "st_tasks (saveConversation r m now s) = st_tasks s"
  by (simp add: saveConversation_def Let_def split: option.splits)

lemma set_schedule_tasks: "set_schedule env c sched now s = Inr s' \<Longrightarrow> st_tasks s' = st_tasks s"
  by (auto simp: set_schedule_def lift_store_def updateConversation_def clearScheduleRetry_def Let_def split: sum.splits option.splits if_splits)

lemma task_bind_tasks: "task_bind i c s = Inr s' \<Longrightarrow> st_tasks s' = st_tasks s"
  by (auto simp: task_bind_def split: if_splits)

lemma row_revision_cong: "st_tasks s' = st_tasks s \<Longrightarrow> row_revision i who s' = row_revision i who s"
  by (simp add: row_revision_def owned_task_def task_get_def)

lemma task_update_owned:
  assumes "at_id t = i" "at_tenant t = fst (ownerOf who)" "at_member t = snd (ownerOf who)"
  shows "owned_task i who (task_update t now s) = map_option (\<lambda>q. q\<lparr>at_name := at_name t, at_category := at_category t,
     at_conversation := at_conversation t, at_connectors := at_connectors t, at_revision := at_revision q + 1, at_updated := now,
     at_deleted := at_deleted t\<rparr>) (owned_task i who s)"
proof -
  let ?P = "\<lambda>q. at_id q = i \<and> at_tenant q = fst (ownerOf who) \<and> at_member q = snd (ownerOf who)"
  let ?f = "\<lambda>q. q\<lparr>at_name := at_name t, at_category := at_category t, at_conversation := at_conversation t,
     at_connectors := at_connectors t, at_revision := at_revision q + 1, at_updated := now, at_deleted := at_deleted t\<rparr>"
  have "find ?P (update_rows ?P ?f ts) = map_option ?f (find ?P ts)" for ts
    by (induction ts) auto
  with assms show ?thesis by (simp add: owned_task_def task_get_def task_update_def)
qed

lemma task_update_revision:
  assumes "at_id t = i" "at_tenant t = fst (ownerOf who)" "at_member t = snd (ownerOf who)" "owned_task i who s \<noteq> None"
  shows "row_revision i who (task_update t now s) = row_revision i who s + 1"
  using assms(4) by (auto simp: row_revision_def task_update_owned [OF assms(1-3)])

lemma materialize_row:
  assumes "materialize env now i who s = Inr (row, s')"
  shows "owned_task i who s = None \<and> owned_task i who s' = Some row \<and> row_revision i who s = 0 \<and> row_revision i who s' = 1"
proof -
  from assms have row: "at_id row = i" "at_tenant row = fst (ownerOf who)" "at_member row = snd (ownerOf who)" "at_revision row = 1"
    and insert: "lift_store (task_insert row s) = Inr s'"
    by (auto simp: materialize_def Let_def split: option.splits)
  then have tasks: "st_tasks s' = st_tasks s @ [row]" and fresh: "\<forall>q \<in> set (st_tasks s). at_id q \<noteq> i"
    by (auto simp: lift_store_def task_insert_def task_bind_def split: sum.splits if_splits)
  from fresh have none: "owned_task i who s = None" by (auto simp: owned_task_def task_get_def find_None_iff)
  with row tasks have "owned_task i who s' = Some row"
    by (simp add: owned_task_def task_get_def find_append)
  with row(4) none show ?thesis by (simp add: row_revision_def)
qed

text \<open>A schedule change raises the generation of its conversation and keeps its owner.\<close>

lemma set_schedule_generation:
  assumes "set_schedule env i sched now s = Inr s'" "getConversation i s = Some c"
  shows "\<exists>c'. getConversation i s' = Some c' \<and> cv_generation c' = cv_generation c + 1 \<and> cv_tenant c' = cv_tenant c \<and> cv_member c' = cv_member c"
proof -
  let ?p = "empty_patch\<lparr>cp_schedule := Some (map_option (\<lambda>(p, calendar). schedule_value env p calendar) sched)\<rparr>"
  let ?r = "(apply_patch ?p (input_of c))\<lparr>ci_updated := Some now\<rparr>"
  have i: "cv_id c = i" using assms(2) by (auto simp: getConversation_def dest: find_Some_in)
  have r: "ci_id ?r = i" "ci_tenant ?r = cv_tenant c" "ci_member ?r = cv_member c"
    by (simp_all add: apply_patch_def input_of_def empty_patch_def i)
  from assms have "s' = clearScheduleRetry i (saveConversation ?r True now s)"
    by (auto simp: set_schedule_def lift_store_def updateConversation_def Let_def split: sum.splits option.splits)
  then have "getConversation i s' = getConversation i (saveConversation ?r True now s)"
    by (simp add: clearScheduleRetry_def getConversation_def)
  with saveConversation_get [of ?r s c True now] assms(2) r show ?thesis by (simp add: conversation_row_def)
qed

section \<open>Edits\<close>

text \<open>The rows of the task table: a row is inserted with revision 1 and its revision only grows.\<close>

definition tasks_ok :: "store \<Rightarrow> bool" where
  "tasks_ok s \<longleftrightarrow> (\<forall>t \<in> set (st_tasks s). 1 \<le> at_revision t)"

text \<open>One accepted edit of task \<open>i\<close> under an entity tag: an action, or a patch whose first half ran in any earlier state.\<close>

inductive edit :: "automation_env \<Rightarrow> string \<Rightarrow> caller \<Rightarrow> string option \<Rightarrow> automation_state \<Rightarrow> automation_state \<Rightarrow> bool" for env i who where
  edit_act: "task_act env now clock i act who etag s = Inr (v, s') \<Longrightarrow> edit env i who etag s s'"
| edit_patch: "patch_begin env now0 clock0 prompting0 uuid i body who etag s0 = Inr (p, s1) \<Longrightarrow> tasks_ok (au_store s0) \<Longrightarrow>
     patch_commit env now clock prompting p s = Inr st \<Longrightarrow> edit env i who etag s (s\<lparr>au_store := st\<rparr>)"

lemma row_for_revision:
  assumes "row_for env now i who task s = Inr (row, s')" "task = owned_task i who s"
  shows "owned_task i who s' = Some row \<and> row_revision i who s \<le> row_revision i who s'
    \<and> (task = None \<longrightarrow> row_revision i who s < row_revision i who s') \<and> (task \<noteq> None \<longrightarrow> s' = s)"
proof (cases task)
  case None
  with assms show ?thesis using materialize_row [of env now i who s row s'] by (simp add: row_for_def)
qed (use assms in \<open>simp add: row_for_def\<close>)

lemma toggle_schedule_cases:
  "toggle_schedule env c sched b now s = Inr s' \<Longrightarrow> s' = s \<or> (\<exists>c0 p. c = Some c0 \<and> set_schedule env (cv_id c0) p now s = Inr s')"
  by (auto simp: toggle_schedule_def split: option.splits prod.splits if_splits)

lemma set_schedule_version:
  assumes res: "task_resolve i who False s = Inr (Some t, Some c)" and set: "set_schedule env (cv_id c) sched now s = Inr s'"
  shows "version_less (version_of i who s) (version_of i who s')"
proof -
  from res have t: "owned_task i who s = Some t" "at_deleted t = None"
    "getOwnedConversation (at_conversation t) (fst (ownerOf who)) (snd (ownerOf who)) s = Some c"
    by (auto simp: task_resolve_def owned_task_def Let_def split: option.splits if_splits)
  then have get: "getConversation (at_conversation t) s = Some c" and id: "cv_id c = at_conversation t"
    and own: "cv_tenant c = Some (fst (ownerOf who))" "cv_member c = Some (snd (ownerOf who))"
    by (auto simp: getOwnedConversation_def getConversation_def dest: find_Some_in split: option.splits if_splits)
  from set_schedule_generation [OF set [unfolded id] get] obtain c' where
    c': "getConversation (at_conversation t) s' = Some c'" "cv_generation c' = cv_generation c + 1"
    "cv_tenant c' = cv_tenant c" "cv_member c' = cv_member c" by blast
  have "owned_task i who s' = Some t" using t(1) set_schedule_tasks [OF set] by (simp add: owned_task_def task_get_def)
  with c' own t(2) have "version_of i who s' = Some (at_revision t, cv_generation c + 1)"
    by (simp add: version_of_def task_resolve_def owned_task_def getOwnedConversation_def Let_def)
  with res show ?thesis by (simp add: version_of_def version_less_def)
qed

lemma task_act_version:
  assumes act: "task_act env now clock i act who etag s = Inr (v, s')" and changed: "au_store s' \<noteq> au_store s"
  shows "version_less (version_of i who (au_store s)) (version_of i who (au_store s'))"
proof -
  from act obtain u task c row st1 sched st2 where
    check: "checkVersion env now clock i who etag s = Inr u"
    and res: "task_resolve i who False (au_store s) = Inr (task, c)"
    and row: "row_for env now i who (owned_task i who (au_store s)) (au_store s) = Inr (row, st1)"
    and st2: "toggle_schedule env c sched (act = ActionEnable) now st1 = Inr st2"
    and s': "au_store s' = (if act = ActionDelete then task_update (row\<lparr>at_deleted := Some now\<rparr>) now st2 else st2)"
    by (auto simp: task_act_def owned_task_def split: if_splits)
  from check obtain w where w: "version_of i who (au_store s) = Some w" by (rule checkVersion_Inr) blast
  have tasks: "st_tasks st2 = st_tasks st1"
    using toggle_schedule_cases [OF st2] by (auto dest: set_schedule_tasks)
  note rows = row_for_revision [OF row refl] and rev2 = row_revision_cong [OF tasks, of i who]
  have row2: "owned_task i who st2 = Some row" using rows tasks by (simp add: owned_task_def task_get_def)
  consider (grows) "row_revision i who (au_store s) < row_revision i who (au_store s')"
    | (kept) "act \<noteq> ActionDelete" "owned_task i who (au_store s) \<noteq> None"
  proof (cases "act = ActionDelete")
    case True
    have "row_revision i who (au_store s') = row_revision i who st2 + 1"
      using s' True row2 owned_task_in [OF row2] by (simp add: task_update_revision)
    with rows rev2 that(1) show ?thesis by linarith
  next
    case False
    with rows rev2 s' that show ?thesis by auto
  qed
  then show ?thesis
  proof cases
    case grows
    with w show ?thesis by (rule version_revision_less)
  next
    case kept
    with rows have "st1 = au_store s" by simp
    with kept(1) s' changed have "st2 \<noteq> st1" by auto
    with toggle_schedule_cases [OF st2] obtain c0 p where c0: "c = Some c0" and set: "set_schedule env (cv_id c0) p now st1 = Inr st2"
      by blast
    from res kept(2) obtain t where "task = Some t" by (auto dest: resolve_task)
    with res set c0 \<open>st1 = au_store s\<close> s' kept(1) show ?thesis by (auto intro: set_schedule_version)
  qed
qed

lemma patch_begin_Inr:
  assumes "patch_begin env now clock prompting uuid i body who etag s = Inr (p, s1)"
  obtains c u where "checkVersion env now clock i who etag s = Inr u" "task_resolve i who False (au_store s) = Inr (pp_task p, Some c)"
    "pp_id p = i" "pp_caller p = who" "pp_etag p = etag"
  using assms by (auto simp: patch_begin_def Let_def split: option.splits)

text \<open>The row a patch writes is the row of the task, which exists by then.\<close>

lemma patch_row:
  assumes "task = owned_task i who s0" "tasks_ok s0" "row_revision i who s0 = row_revision i who s"
    "row_for env now i who task s = Inr (row, s')"
  shows "owned_task i who s' \<noteq> None \<and> row_revision i who s \<le> row_revision i who s'
    \<and> at_id row = i \<and> at_tenant row = fst (ownerOf who) \<and> at_member row = snd (ownerOf who)"
proof (cases task)
  case None
  with assms(4) have "materialize env now i who s = Inr (row, s')" by (simp add: row_for_def)
  from materialize_row [OF this] show ?thesis by (auto dest: owned_task_in)
next
  case (Some t)
  with assms(1) have t: "t \<in> set (st_tasks s0)" "at_id t = i" "at_tenant t = fst (ownerOf who)" "at_member t = snd (ownerOf who)"
    using owned_task_in [of i who s0 t] by auto
  have "row_revision i who s0 = at_revision t" unfolding row_revision_def assms(1) [symmetric] Some by simp
  with assms(2) t(1) have "1 \<le> row_revision i who s0" by (simp add: tasks_ok_def)
  with assms(3) have "owned_task i who s \<noteq> None" by (auto simp: row_revision_def [of _ _ s] split: option.splits)
  with Some t assms(4) show ?thesis by (simp add: row_for_def)
qed

lemma patch_commit_version:
  assumes start: "patch_begin env now0 clock0 prompting0 uuid i body who etag s0 = Inr (p, s1)" and ok: "tasks_ok (au_store s0)"
    and commit: "patch_commit env now clock prompting p s = Inr st"
  shows "version_less (version_of i who (au_store s)) (version_of i who st)"
proof -
  from start obtain c0 u0 where p: "checkVersion env now0 clock0 i who etag s0 = Inr u0"
    "task_resolve i who False (au_store s0) = Inr (pp_task p, Some c0)" "pp_id p = i" "pp_caller p = who" "pp_etag p = etag"
    by (rule patch_begin_Inr)
  from commit p(3-5) obtain u row st1 st2 where check: "checkVersion env now clock i who etag s = Inr u"
    and row: "row_for env now i who (pp_task p) (au_store s) = Inr (row, st1)"
    and st2: "(if pp_switching p
               then and_then (set_schedule env (pp_conversation p) None now st1) (\<lambda>st. lift_store (task_bind i (pp_next p) st))
               else Inr st1) = Inr st2"
    and st: "(let st3 = task_update (row\<lparr>at_name := pp_name p, at_category := pp_category p, at_conversation := pp_next p,
                   at_connectors := pp_connectors p\<rparr>) now st2
       in if pp_reschedule p then set_schedule env (pp_next p) (pp_schedule p) now st3 else Inr st3) = Inr st"
    by (auto simp: patch_commit_def)
  from p(1) check obtain g where v: "version_of i who (au_store s) = Some (row_revision i who (au_store s), g)"
    and same: "row_revision i who (au_store s0) = row_revision i who (au_store s)"
    by (elim checkVersion_Inr) (auto simp: etag_of_inject dest: version_of_revision)
  have st1: "owned_task i who st1 \<noteq> None" "row_revision i who (au_store s) \<le> row_revision i who st1"
    and own: "at_id row = i" "at_tenant row = fst (ownerOf who)" "at_member row = snd (ownerOf who)"
    using patch_row [OF resolve_task [OF p(2)] ok same row] by blast+
  let ?row = "row\<lparr>at_name := pp_name p, at_category := pp_category p, at_conversation := pp_next p, at_connectors := pp_connectors p\<rparr>"
  have tasks2: "st_tasks st2 = st_tasks st1"
    using st2 by (auto dest!: set_schedule_tasks task_bind_tasks split: if_splits)
  have tasks: "st_tasks st = st_tasks (task_update ?row now st2)"
    using st by (auto simp: Let_def dest: set_schedule_tasks split: if_splits)
  have "owned_task i who st2 \<noteq> None" using st1(1) tasks2 by (simp add: owned_task_def task_get_def)
  then have "row_revision i who (task_update ?row now st2) = row_revision i who st2 + 1"
    using own by (intro task_update_revision) simp_all
  with st1(2) have "row_revision i who (au_store s) < row_revision i who st"
    by (simp add: row_revision_cong [OF tasks] row_revision_cong [OF tasks2])
  with v show ?thesis by (rule version_revision_less)
qed

lemma edit_version:
  "edit env i who etag s s' \<Longrightarrow> au_store s' = au_store s \<or> version_less (version_of i who (au_store s)) (version_of i who (au_store s'))"
  by (induction rule: edit.induct) (auto dest: task_act_version intro: patch_commit_version)

lemma edit_etag:
  assumes "edit env i who etag s s'"
  obtains r g where "version_of i who (au_store s) = Some (r, g)" "etag = Some (etag_of r g)"
  using assms
proof cases
  case (edit_act now clock act v)
  then show ?thesis by (auto simp: task_act_def elim: checkVersion_Inr intro: that)
next
  case (edit_patch now0 clock0 prompting0 uuid body s0 p s1 now clock prompting st)
  then show ?thesis by (elim patch_begin_Inr) (auto simp: patch_commit_def elim: checkVersion_Inr intro: that)
qed

lemma edits_version:
  assumes "rtranclp (\<lambda>s s'. \<exists>etag. edit env i who etag s s') s s'"
  shows "version_of i who (au_store s') = version_of i who (au_store s) \<or> version_less (version_of i who (au_store s)) (version_of i who (au_store s'))"
  using assms
proof (induction rule: rtranclp_induct)
  case (step t u)
  then obtain etag where "edit env i who etag t u" by blast
  from edit_version [OF this] step.IH show ?case by (auto intro: version_less_trans)
qed simp

section \<open>Creation keys\<close>

text \<open>Everything that can happen between two requests: a step of this service, or a step elsewhere, where nothing writes
  the creation table.\<close>

inductive auto_step :: "automation_env \<Rightarrow> automation_state \<Rightarrow> automation_state \<Rightarrow> bool" for env where
  step_create_begin: "create_begin env now fresh body who key s = Inr (r, s') \<Longrightarrow> auto_step env s s'"
| step_create_finish: "create_finish env now clock p initialized s = (r, s') \<Longrightarrow> auto_step env s s'"
| step_act: "task_act env now clock i act who etag s = Inr (v, s') \<Longrightarrow> auto_step env s s'"
| step_patch_begin: "patch_begin env now clock prompting uuid i body who etag s = Inr (p, s') \<Longrightarrow> auto_step env s s'"
| step_patch_finish: "patch_finish env now clock prompting p initialized s = (r, s', discard) \<Longrightarrow> auto_step env s s'"
| step_elsewhere: "st_creations (au_store s') = st_creations (au_store s) \<Longrightarrow> auto_step env s s'"

definition same_creation :: "task_creation \<Rightarrow> task_creation \<Rightarrow> bool" where
  "same_creation c c' \<longleftrightarrow> tc_task c' = tc_task c \<and> tc_conversation c' = tc_conversation c \<and> tc_fingerprint c' = tc_fingerprint c"

definition keeps_creations :: "store \<Rightarrow> store \<Rightarrow> bool" where
  "keeps_creations s s' \<longleftrightarrow>
     (\<forall>own k c. creation_of own k s = Some c \<longrightarrow> (\<exists>c'. creation_of own k s' = Some c' \<and> same_creation c c'))"

lemma keeps_creations_trans: "keeps_creations s t \<Longrightarrow> keeps_creations t u \<Longrightarrow> keeps_creations s u"
  by (fastforce simp: keeps_creations_def same_creation_def)

lemma keeps_creations_same: "st_creations s' = st_creations s \<Longrightarrow> keeps_creations s s'"
  by (simp add: keeps_creations_def creation_of_def same_creation_def)

lemma keeps_creations_append: "st_creations s' = st_creations s @ cs \<Longrightarrow> keeps_creations s s'"
  by (simp add: keeps_creations_def creation_of_def same_creation_def find_append)

lemma keeps_creations_set:
  assumes "\<And>c. is_creation own k (f c) = is_creation own k c" "\<And>c own' k'. is_creation own' k' (f c) = is_creation own' k' c"
    "\<And>c. same_creation c (f c)"
  shows "keeps_creations s (set_creation own k f s)"
proof -
  have "find P (update_rows (is_creation own k) f cs) = map_option (\<lambda>c. if is_creation own k c then f c else c) (find P cs)"
    if "P = is_creation own' k'" for P own' k' cs
    unfolding that by (induction cs) (auto simp: assms(2))
  then show ?thesis using assms(3) by (auto simp: keeps_creations_def creation_of_def set_creation_def same_creation_def)
qed

lemma set_schedule_creations: "set_schedule env c sched now s = Inr s' \<Longrightarrow> st_creations s' = st_creations s"
  by (auto simp: set_schedule_def updateConversation_def saveConversation_def clearScheduleRetry_def Let_def split: option.splits if_splits)

lemma createConversation_creations [simp]: "st_creations (createConversation r now s) = st_creations s"
  by (simp add: createConversation_def saveConversation_def Let_def split: option.splits)

lemma task_insert_creations: "task_insert t s = Inr s' \<Longrightarrow> st_creations s' = st_creations s"
  by (auto simp: task_insert_def task_bind_def split: if_splits)

lemma task_bind_creations: "task_bind i c s = Inr s' \<Longrightarrow> st_creations s' = st_creations s"
  by (auto simp: task_bind_def split: if_splits)

lemma task_update_creations [simp]: "st_creations (task_update t now s) = st_creations s"
  by (simp add: task_update_def)

lemma row_for_creations: "row_for env now i who task s = Inr (row, s') \<Longrightarrow> st_creations s' = st_creations s"
  by (auto simp: row_for_def materialize_def Let_def dest: task_insert_creations split: option.splits)

lemma toggle_schedule_creations: "toggle_schedule env c sched b now s = Inr s' \<Longrightarrow> st_creations s' = st_creations s"
  by (auto dest!: toggle_schedule_cases set_schedule_creations)

lemmas creation_frames = toggle_schedule_creations set_schedule_creations task_insert_creations task_bind_creations row_for_creations

lemma task_act_creations: "task_act env now clock i act who etag s = Inr (v, s') \<Longrightarrow> st_creations (au_store s') = st_creations (au_store s)"
  by (auto simp: task_act_def dest!: creation_frames split: if_splits option.splits)

lemma patch_commit_creations: "patch_commit env now clock prompting p s = Inr st \<Longrightarrow> st_creations st = st_creations (au_store s)"
  by (auto simp: patch_commit_def Let_def dest!: creation_frames split: if_splits)

lemma patch_begin_creations: "patch_begin env now clock prompting uuid i body who etag s = Inr (p, s') \<Longrightarrow> st_creations (au_store s') = st_creations (au_store s)"
  by (auto simp: patch_begin_def Let_def)

lemma patch_finish_creations: "patch_finish env now clock prompting p b s = (r, s', d) \<Longrightarrow> st_creations (au_store s') = st_creations (au_store s)"
  by (auto simp: patch_finish_def Let_def dest: patch_commit_creations split: if_splits sum.splits)

lemma insert_creation_row:
  assumes "insert_creation own k q i conversation now s = Inr s'"
  shows "st_creations s' = st_creations s @ [\<lparr> tc_tenant = fst own, tc_member = snd own, tc_key = k, tc_fingerprint = cq_fingerprint q,
     tc_task = i, tc_conversation = conversation, tc_completed = False, tc_response = None \<rparr>]"
  using assms by (auto simp: insert_creation_def Let_def dest!: task_insert_creations)

text \<open>What an accepted request may do, by the row its key has.\<close>

definition begin_outcome ::
  "automation_env \<Rightarrow> ms \<Rightarrow> owner \<Rightarrow> string \<Rightarrow> create_request \<Rightarrow> store \<Rightarrow> create_step \<Rightarrow> store \<Rightarrow> bool" where
  "begin_outcome env now own k q s r s' \<longleftrightarrow>
     (case creation_of own k s of
        Some c \<Rightarrow> tc_fingerprint c = cq_fingerprint q \<and> s' = s
          \<and> (r = CreateReplay (ae_unjson env (nullish (recorded_response (Some c)) []))
             \<or> (\<exists>p. r = CreateStarted p \<and> recorded_response (Some c) = None \<and> pn_task p = tc_task c \<and> pn_conversation p = tc_conversation c))
      | None \<Rightarrow> (\<exists>p. r = CreateStarted p \<and> insert_creation own k q (pn_task p) (pn_conversation p) now s = Inr s'))"

lemma create_begin_cases:
  assumes "create_begin env now fresh body who key s = Inr (r, s')"
  obtains q where "create_request_of env body key = Inr q" "begin_outcome env now (ownerOf who) (nullish key []) q (au_store s) r (au_store s')"
proof -
  from assms obtain q where q: "create_request_of env body key = Inr q" by (auto simp: create_begin_def)
  moreover from assms q have "begin_outcome env now (ownerOf who) (nullish key []) q (au_store s) r (au_store s')"
    unfolding begin_outcome_def
    by (cases "creation_of (ownerOf who) (nullish key []) (au_store s)")
      (auto simp: create_begin_def Let_def recorded_response_def [of None] split: option.splits if_splits)
  ultimately show ?thesis by (rule that)
qed

lemma create_begin_keeps:
  "create_begin env now fresh body who key s = Inr (r, s') \<Longrightarrow> keeps_creations (au_store s) (au_store s')"
  by (erule create_begin_cases)
    (auto simp: begin_outcome_def dest!: insert_creation_row intro: keeps_creations_append keeps_creations_same split: option.splits)

lemma create_commit_keeps:
  assumes "create_commit env now clock p s = Inr (v, st)"
  shows "keeps_creations (au_store s) st"
proof -
  let ?own = "ownerOf (pn_caller p)"
  let ?done = "set_creation ?own (pn_key p) (\<lambda>c. c\<lparr>tc_completed := True\<rparr>) (au_store s)"
  from assms obtain sched st1 where "set_schedule env (pn_conversation p) sched now ?done = Inr st1"
    and st: "st = set_creation ?own (pn_key p) (\<lambda>c. c\<lparr>tc_completed := True, tc_response := Some (ae_json env v)\<rparr>) st1"
    by (auto simp: create_commit_def Let_def)
  then have "keeps_creations ?done st1" by (intro keeps_creations_same set_schedule_creations)
  moreover have "keeps_creations (au_store s) ?done" by (rule keeps_creations_set) (simp_all add: is_creation_def same_creation_def)
  moreover have "keeps_creations st1 st" unfolding st by (rule keeps_creations_set) (simp_all add: is_creation_def same_creation_def)
  ultimately show ?thesis by (blast intro: keeps_creations_trans)
qed

lemma auto_step_keeps: "auto_step env s s' \<Longrightarrow> keeps_creations (au_store s) (au_store s')"
proof (induction rule: auto_step.induct)
  case (step_create_finish now clock p initialized s r s')
  then show ?case
    by (auto simp: create_finish_def Let_def dest: create_commit_keeps intro: keeps_creations_same split: if_splits sum.splits)
qed (auto intro: create_begin_keeps keeps_creations_same task_act_creations patch_begin_creations patch_finish_creations)

lemma auto_steps_keep: "rtranclp (auto_step env) s s' \<Longrightarrow> keeps_creations (au_store s) (au_store s')"
  by (induction rule: rtranclp_induct) (auto intro: keeps_creations_same keeps_creations_trans auto_step_keeps)

section \<open>Properties\<close>

text \<open>(C9) No update of a task is lost: once an edit accepted under an entity tag has changed the tables, no later action
  or patch of that task is accepted under the same tag, whatever edits of it happened in between and even
  if the patch had begun before.\<close>

theorem stale_edit_refused:
  assumes "edit env i who etag s s1" "au_store s1 \<noteq> au_store s"
    and "rtranclp (\<lambda>s s'. \<exists>etag. edit env i who etag s s') s1 s2"
  shows "\<not> edit env i who etag s2 s3"
proof
  assume late: "edit env i who etag s2 s3"
  from edit_version [OF assms(1)] assms(2)
  have "version_less (version_of i who (au_store s)) (version_of i who (au_store s1))" by blast
  with edits_version [OF assms(3)]
  have "version_less (version_of i who (au_store s)) (version_of i who (au_store s2))" by (auto intro: version_less_trans)
  moreover have "version_of i who (au_store s2) = version_of i who (au_store s)"
    using assms(1) late by (elim edit_etag) (simp add: etag_of_inject)
  ultimately show False by simp
qed

definition demo_view :: task_view where
  "demo_view = \<lparr> tv_id = ''i'', tv_name = ''n'', tv_category = ''other'', tv_prompt = ''p'', tv_summary = ''p'', tv_employee = None,
     tv_employeeName = None, tv_connectorIds = [], tv_connectors = [], tv_schedule = None, tv_status = TaskPaused, tv_block = None,
     tv_conversation = None, tv_group = False, tv_automation = True, tv_etag = [], tv_lastRun = None, tv_nextRun = None,
     tv_created = None, tv_updated = None \<rparr>"

definition demo_auto_env :: automation_env where
  "demo_auto_env = \<lparr> ae_temporal = sv_temporal demo_schedule_env,
     ae_cursors = \<lparr> ce_hash = (\<lambda>_. []), ce_json = (\<lambda>_. []), ce_parse = (\<lambda>_. None), ce_iso = (\<lambda>t. int_text t), ce_date = (\<lambda>_. None) \<rparr>,
     ae_number = (\<lambda>_. JUndef), ae_instant = (\<lambda>_. Some 5000), ae_fingerprint = (\<lambda>n p c e k v. n), ae_json = tv_name, ae_unjson = (\<lambda>_. demo_view),
     ae_untitled = ''task'', ae_resultSummary = (\<lambda>_. None) \<rparr>"

definition demo_owner :: caller where
  "demo_owner = \<lparr> ca_callerId = ''m'', ca_accessToken = None, ca_tenantId = Some ''t'', ca_userId = Some ''m'', ca_roles = None, ca_claims = None \<rparr>"

definition demo_auto :: automation_state where
  "demo_auto = \<lparr> au_store = store_init\<lparr>st_conversations := [demo_due]\<rparr>, au_work = [], au_experts = (\<lambda>_ _. []), au_snapshots = (\<lambda>_ _. []),
     au_connectors = Some [], au_auth = None, au_creating = [] \<rparr>"

lemmas demo_owner_simps = demo_owner_def ownerOf_def callerMemberId_def

lemmas demo_auto_simps = demo_auto_def demo_owner_simps store_init_def getConversation_def demo_due_row Let_def

lemma demo_auto_resolve: "task_resolve ''c'' demo_owner False (au_store demo_auto) = Inr (None, Some demo_due)"
  by (simp add: demo_auto_simps task_resolve_def task_get_def getOwnedConversation_def task_forConversation_def)

lemma demo_auto_schedule: "stored_schedule demo_auto_env (Some demo_due) = Inr (Some (demo_due_schedule, None))"
proof -
  obtain v where v: "cv_schedule demo_due = Some v" "js_field v ''calendar'' = JUndef"
    by (simp add: demo_due_def conversation_row_def demo_conversation_def)
  with demo_due_valid show ?thesis by (simp add: stored_schedule_def demo_auto_env_def)
qed

lemma demo_auto_version: "checkVersion demo_auto_env now clock ''c'' demo_owner (Some (etag_of 0 0)) demo_auto = Inr ()"
  by (simp add: checkVersion_def auto_get_def demo_auto_resolve demo_auto_schedule view_of_def task_etag_def Let_def demo_due_row etag_of_def)

text \<open>Deleting the scheduled conversation's task.\<close>

lemma demo_auto_materialize:
  "\<exists>row st. materialize demo_auto_env 7 ''c'' demo_owner (au_store demo_auto) = Inr (row, st) \<and> st_tasks st = [row]
     \<and> at_id row = ''c'' \<and> at_conversation row = ''c'' \<and> at_deleted row = None \<and> st_conversations st = [demo_due]
     \<and> st_creations st = [] \<and> st_bindings st = [(''c'', ''c'')]"
  unfolding materialize_def demo_auto_resolve
  by (simp add: demo_auto_simps lift_store_def task_insert_def task_bind_def)

lemma demo_auto_delete:
  "\<exists>s1. task_act demo_auto_env 7 0 ''c'' ActionDelete demo_owner (Some (etag_of 0 0)) demo_auto = Inr (None, s1) \<and> st_tasks (au_store s1) \<noteq> []"
proof -
  obtain row st where m: "materialize demo_auto_env 7 ''c'' demo_owner (au_store demo_auto) = Inr (row, st)" "st_tasks st = [row]"
    "at_id row = ''c''" "at_conversation row = ''c''" "at_deleted row = None" "st_conversations st = [demo_due]" "st_creations st = []"
    "st_bindings st = [(''c'', ''c'')]"
    using demo_auto_materialize by blast
  have none: "task_get ''c'' (fst (ownerOf demo_owner)) (snd (ownerOf demo_owner)) (au_store demo_auto) = None"
    by (simp add: demo_auto_simps task_get_def)
  have "guardSchedule ''c'' st = None"
    by (simp add: guardSchedule_def task_forConversation_def task_creation_pending_def m)
  then obtain x where x: "set_schedule demo_auto_env ''c'' (Some (demo_due_schedule\<lparr>sc_enabled := False\<rparr>, None)) 7 st = Inr x"
    by (simp add: set_schedule_def lift_store_def updateConversation_def getConversation_def m(6) demo_due_row empty_patch_def Let_def)
  show ?thesis
    by (simp add: task_act_def demo_auto_version demo_auto_resolve demo_auto_schedule row_for_def none m(1,2) x demo_due_row
        toggle_schedule_def demo_due_schedule_def [THEN arg_cong [of _ _ sc_enabled]] task_update_def set_schedule_tasks [OF x])
qed

theorem stale_edit_refused_witness:
  "\<exists>s1. edit demo_auto_env ''c'' demo_owner (Some (etag_of 0 0)) demo_auto s1
     \<and> \<not> edit demo_auto_env ''c'' demo_owner (Some (etag_of 0 0)) s1 s1"
proof -
  obtain s1 where act: "task_act demo_auto_env 7 0 ''c'' ActionDelete demo_owner (Some (etag_of 0 0)) demo_auto = Inr (None, s1)"
    and tasks: "st_tasks (au_store s1) \<noteq> []" using demo_auto_delete by blast
  from act have first: "edit demo_auto_env ''c'' demo_owner (Some (etag_of 0 0)) demo_auto s1" by (rule edit_act)
  have "au_store s1 \<noteq> au_store demo_auto" using tasks by (auto simp: demo_auto_def store_init_def)
  from stale_edit_refused [OF first this rtranclp.rtrancl_refl, of s1] first show ?thesis by blast
qed

text \<open>(C10) An idempotency key names one task: once a creation under a key has started, every later creation request of
  that owner with this key, whatever happened in between, writes no row; it is refused unless the request
  is the same, and otherwise replays the recorded answer or resumes the task and the conversation of the
  first request.\<close>

theorem creation_key_names_one_task:
  assumes "create_begin env now fresh body who (Some k) s = Inr (CreateStarted p, s1)"
    and "rtranclp (auto_step env) s1 s2"
    and "create_begin env now' fresh' body' who (Some k) s2 = Inr (r, s3)"
  shows "au_store s3 = au_store s2
    \<and> (\<exists>q q'. create_request_of env body (Some k) = Inr q \<and> create_request_of env body' (Some k) = Inr q' \<and> cq_fingerprint q' = cq_fingerprint q)
    \<and> (\<forall>p'. r = CreateStarted p' \<longrightarrow> pn_task p' = pn_task p \<and> pn_conversation p' = pn_conversation p)"
proof -
  let ?own = "ownerOf who"
  from assms(1) obtain q where q: "create_request_of env body (Some k) = Inr q"
    and first: "begin_outcome env now ?own k q (au_store s) (CreateStarted p) (au_store s1)"
    by (auto elim: create_begin_cases)
  from first obtain c1 where c1: "creation_of ?own k (au_store s1) = Some c1" "tc_fingerprint c1 = cq_fingerprint q"
      "tc_task c1 = pn_task p" "tc_conversation c1 = pn_conversation p"
    by (auto simp: begin_outcome_def creation_of_def find_append is_creation_def dest!: insert_creation_row split: option.splits)
  from auto_steps_keep [OF assms(2)] c1(1) obtain c where c: "creation_of ?own k (au_store s2) = Some c" "same_creation c1 c"
    unfolding keeps_creations_def by blast
  from assms(3) obtain q' where "create_request_of env body' (Some k) = Inr q'"
    and "begin_outcome env now' ?own k q' (au_store s2) r (au_store s3)"
    by (auto elim: create_begin_cases)
  with q c c1 show ?thesis by (auto simp: begin_outcome_def same_creation_def)
qed

definition demo_body :: jsval where
  "demo_body = JObj [(''name'', JStr ''n''), (''prompt'', JStr ''go''), (''category'', JStr ''other''), (''employee_id'', JStr ''e''),
     (''schedule'', JObj [(''mode'', JStr ''once''), (''timezone'', JStr ''UTC''), (''run_at'', JStr ''x'')])]"

definition demo_hired :: automation_state where
  "demo_hired = demo_auto\<lparr>au_store := store_init,
     au_experts := (\<lambda>_ _. [\<lparr> ex_employee = ''e'', ex_name = ''E'', ex_version = ''1'', ex_status = None, ex_revoked = False \<rparr>]),
     au_snapshots := (\<lambda>_ _. [\<lparr> sn_employee = ''e'', sn_version = ''1'', sn_connectors = None, sn_toolPolicy = JNull \<rparr>])\<rparr>"

lemma demo_ids_safe: "regex_test SCHEDULE_ID ''fingerprint''" "regex_test SCHEDULE_ID ''pending''" "\<not> regex_test OFFSET_ZONE ''UTC''"
  by code_simp+

lemma demo_task_schedule:
  "regex_test SCHEDULE_ID i \<Longrightarrow> \<exists>sched. taskSchedule demo_auto_env (js_field demo_body ''schedule'') ''go'' i 1 True = Inr (sched, None)
     \<and> sc_oneShot sched \<and> sc_at sched = Some 5000"
  by (simp add: taskSchedule_def schedule_request_def demo_body_def demo_auto_env_def demo_schedule_env_def utc_env_def demo_ids_safe
      onlyKeys_def schedule_base_def validateSchedule_def schedule_identity_def schedule_prompt_def ALLOWED_def
      schedule_trigger_def positive_int_def js_trim_def js_space_def rat_is_int_def Let_def)

definition demo_creation :: "automation_env \<Rightarrow> create_request" where
  "demo_creation env = \<lparr> cq_name = ''n'', cq_prompt = ''go'', cq_category = ''other'', cq_employee = ''e'', cq_connectors = [],
     cq_schedule = js_field demo_body ''schedule'', cq_fingerprint = ''n'' \<rparr>"

lemma demo_creation_ok: "create_request_of demo_auto_env demo_body (Some ''k'') = Inr (demo_creation demo_auto_env)"
proof -
  have f: "ae_fingerprint demo_auto_env n a b c d v = n" for n a b c d v by (simp add: demo_auto_env_def)
  obtain sched where "taskSchedule demo_auto_env (js_field demo_body ''schedule'') ''go'' ''fingerprint'' 1 True = Inr (sched, None)"
    using demo_task_schedule [OF demo_ids_safe(1)] by blast
  then show ?thesis
    by (simp add: create_request_of_def demo_creation_def f onlyKeys_def task_fields_def idempotency_key_ok_def auto_text_def
        auto_category_def categories_def auto_connectorIds_def sort_by_def js_trim_def js_space_def demo_body_def)
qed

lemma demo_checks: "now < 5000 \<Longrightarrow> new_creation_checks demo_auto_env now (''t'', ''m'') (demo_creation demo_auto_env) existing (demo_hired\<lparr>au_store := st, au_creating := cs\<rparr>) = Inr ()"
proof -
  assume "now < 5000"
  obtain sched where "taskSchedule demo_auto_env (js_field demo_body ''schedule'') ''go'' ''pending'' 1 True = Inr (sched, None)" "sc_at sched = Some 5000"
    using demo_task_schedule [OF demo_ids_safe(2)] by blast
  with \<open>now < 5000\<close> show ?thesis
    by (simp add: new_creation_checks_def demo_creation_def auto_employee_def demo_hired_def demo_auto_def expert_active_def
        validateConnectorSelection_def)
qed

lemma demo_hired_self: "demo_hired = demo_hired\<lparr>au_store := store_init, au_creating := []\<rparr>"
  by (simp add: demo_hired_def demo_auto_def)

lemma demo_create_first:
  "\<exists>p st. create_begin demo_auto_env 1 (''i1'', ''c1'') demo_body demo_owner (Some ''k'') demo_hired
       = Inr (CreateStarted p, demo_hired\<lparr>au_store := st, au_creating := [''i1'']\<rparr>) \<and> pn_task p = ''i1''"
proof -
  have own: "ownerOf demo_owner = (''t'', ''m'')" by (simp add: demo_owner_simps)
  have none: "creation_of (''t'', ''m'') ''k'' (au_store demo_hired) = None"
    by (simp add: creation_of_def demo_hired_def demo_auto_def store_init_def)
  obtain st where "insert_creation (''t'', ''m'') ''k'' (demo_creation demo_auto_env) ''i1'' ''c1'' 1 (au_store demo_hired) = Inr st"
    by (simp add: insert_creation_def task_insert_def task_bind_def lift_store_def demo_hired_def demo_auto_def store_init_def createConversation_def
        saveConversation_def getConversation_def private_conversation_def Let_def)
  moreover have "new_creation_checks demo_auto_env 1 (''t'', ''m'') (demo_creation demo_auto_env) None demo_hired = Inr ()"
    by (subst demo_hired_self) (rule demo_checks, simp)
  moreover have "au_creating demo_hired = []" by (simp add: demo_hired_def demo_auto_def)
  ultimately show ?thesis
    by (intro exI [of _ "\<lparr> pn_caller = demo_owner, pn_key = ''k'', pn_task = ''i1'', pn_conversation = ''c1'', pn_prompt = ''go'',
        pn_schedule = js_field demo_body ''schedule'' \<rparr>"] exI [of _ st])
      (simp add: create_begin_def demo_creation_ok own none recorded_response_def demo_creation_def [THEN arg_cong [of _ _ cq_prompt]]
        demo_creation_def [THEN arg_cong [of _ _ cq_schedule]] Let_def)
qed

theorem creation_key_names_one_task_witness:
  "\<exists>p s1 s2 p' s3. create_begin demo_auto_env 1 (''i1'', ''c1'') demo_body demo_owner (Some ''k'') demo_hired = Inr (CreateStarted p, s1)
     \<and> create_finish demo_auto_env 2 0 p False s1 = (Inl AutoHost, s2)
     \<and> create_begin demo_auto_env 3 (''i2'', ''c2'') demo_body demo_owner (Some ''k'') s2 = Inr (CreateStarted p', s3)
     \<and> au_store s3 = au_store s2 \<and> pn_task p' = ''i1''"
proof -
  obtain p st s1 where first: "create_begin demo_auto_env 1 (''i1'', ''c1'') demo_body demo_owner (Some ''k'') demo_hired = Inr (CreateStarted p, s1)"
    and s1: "s1 = demo_hired\<lparr>au_store := st, au_creating := [''i1'']\<rparr>" and p: "pn_task p = ''i1''"
    using demo_create_first by blast
  let ?s2 = "demo_hired\<lparr>au_store := st, au_creating := []\<rparr>"
  have fail: "create_finish demo_auto_env 2 0 p False s1 = (Inl AutoHost, ?s2)" by (simp add: create_finish_def p s1)
  have own: "ownerOf demo_owner = (''t'', ''m'')" by (simp add: demo_owner_simps)
  from first obtain c where c: "creation_of (''t'', ''m'') ''k'' (au_store s1) = Some c" "tc_fingerprint c = ''n''" "\<not> tc_completed c"
    by (auto elim!: create_begin_cases simp: begin_outcome_def own demo_creation_ok demo_creation_def creation_of_def find_append is_creation_def
        demo_hired_def demo_auto_def store_init_def dest!: insert_creation_row split: option.splits)
  have "new_creation_checks demo_auto_env 3 (''t'', ''m'') (demo_creation demo_auto_env) (Some c) ?s2 = Inr ()"
    by (rule demo_checks) simp
  then obtain p' s3 where again: "create_begin demo_auto_env 3 (''i2'', ''c2'') demo_body demo_owner (Some ''k'') ?s2 = Inr (CreateStarted p', s3)"
    using c by (simp add: s1 create_begin_def demo_creation_ok own recorded_response_def demo_creation_def [THEN arg_cong [of _ _ cq_fingerprint]] Let_def)
  from fail have "auto_step demo_auto_env s1 ?s2" by (rule step_create_finish)
  then have "rtranclp (auto_step demo_auto_env) s1 ?s2" by (rule r_into_rtranclp)
  from creation_key_names_one_task [OF first this again] p have "au_store s3 = au_store ?s2 \<and> pn_task p' = ''i1''" by auto
  with first fail again show ?thesis by blast
qed

end
