(* ===== verification/Local_Files.thy ===== *)
theory Local_Files
  imports Js_Regex
begin

text \<open>
  \<open>local-files.ts\<close>: which file names and paths of a workspace may become artifacts, their MIME types,
  the bounded scan of a workspace and the content checks.  \<open>basename\<close> and \<open>extname\<close> are those of
  POSIX paths.  The file system is a parameter: \<open>fs_readdir\<close> gives the entries of a directory in the
  order \<open>opendir\<close> yields them (\<open>None\<close> when it fails), \<open>fs_exists\<close> whether \<open>lstat\<close> succeeds and
  \<open>fs_file\<close> the size and time of a regular file; it does not change during one scan.
\<close>

section \<open>Names and paths\<close>

definition MAX_ARTIFACT_PATH_CHARS :: nat where
  "MAX_ARTIFACT_PATH_CHARS = 1024"

definition basename :: "string \<Rightarrow> string" where
  "basename s = last (js_split (CHR ''/'') (rev (dropWhile (\<lambda>c. c = CHR ''/'') (rev s))))"

text \<open>From the last dot of the name, unless the name starts there or is \<open>..\<close>.\<close>

definition extname :: "string \<Rightarrow> string" where
  "extname s =
     (let b = basename s; tail = rev (takeWhile (\<lambda>c. c \<noteq> CHR ''.'') (rev b)); n = length b - length tail
      in if n \<le> 1 \<or> b = ''..'' then [] else CHR ''.'' # tail)"

definition ARTIFACT_MIME_BY_EXTENSION :: "(string \<times> string) list" where
  "ARTIFACT_MIME_BY_EXTENSION = [
     (''.bash'', ''text/plain''), (''.c'', ''text/plain''), (''.cc'', ''text/plain''), (''.cfg'', ''text/plain''),
     (''.conf'', ''text/plain''), (''.cpp'', ''text/plain''), (''.cxx'', ''text/plain''), (''.css'', ''text/css''),
     (''.csv'', ''text/csv''), (''.doc'', ''application/msword''),
     (''.docx'', ''application/vnd.openxmlformats-officedocument.wordprocessingml.document''),
     (''.go'', ''text/plain''), (''.h'', ''text/plain''), (''.hpp'', ''text/plain''), (''.htm'', ''text/html''),
     (''.html'', ''text/html''), (''.ini'', ''text/plain''), (''.java'', ''text/plain''), (''.js'', ''text/javascript''),
     (''.json'', ''application/json''), (''.jsx'', ''text/javascript''), (''.kt'', ''text/plain''), (''.kts'', ''text/plain''),
     (''.log'', ''text/plain''), (''.markdown'', ''text/markdown''), (''.md'', ''text/markdown''), (''.mjs'', ''text/javascript''),
     (''.cjs'', ''text/javascript''), (''.pdf'', ''application/pdf''), (''.php'', ''text/plain''),
     (''.ppt'', ''application/vnd.ms-powerpoint''),
     (''.pptx'', ''application/vnd.openxmlformats-officedocument.presentationml.presentation''),
     (''.py'', ''text/plain''), (''.rb'', ''text/plain''), (''.rs'', ''text/plain''), (''.sh'', ''text/plain''),
     (''.sql'', ''text/plain''), (''.svelte'', ''text/html''), (''.swift'', ''text/plain''), (''.toml'', ''text/plain''),
     (''.ts'', ''text/typescript''), (''.tsx'', ''text/typescript''), (''.txt'', ''text/plain''), (''.vue'', ''text/html''),
     (''.xml'', ''application/xml''), (''.yaml'', ''text/yaml''), (''.yml'', ''text/yaml''), (''.webp'', ''image/webp''),
     (''.png'', ''image/png''), (''.jpg'', ''image/jpeg''), (''.jpeg'', ''image/jpeg''), (''.gif'', ''image/gif'')]"

definition mimeTypeForFilename :: "string \<Rightarrow> string option" where
  "mimeTypeForFilename filename = map_of ARTIFACT_MIME_BY_EXTENSION (js_lower (extname filename))"

definition ALLOWED_FILE_MIMES :: "string list" where
  "ALLOWED_FILE_MIMES = [''application/json'', ''application/msword'', ''application/octet-stream'', ''application/pdf'', ''application/rtf'',
     ''application/vnd.ms-powerpoint'', ''application/vnd.openxmlformats-officedocument.presentationml.presentation'',
     ''application/vnd.openxmlformats-officedocument.wordprocessingml.document'', ''application/xml'', ''application/yaml'',
     ''image/gif'', ''image/jpeg'', ''image/png'', ''image/webp'', ''text/csv'', ''text/css'', ''text/html'', ''text/javascript'',
     ''text/markdown'', ''text/plain'', ''text/typescript'', ''text/xml'', ''text/yaml'']"

definition name_break :: regex where
  "name_break = Cls (char_in ''._-'')"

definition SENSITIVE_ARTIFACT_NAME :: regex where
  "SENSITIVE_ARTIFACT_NAME = seqs [Alt Bos name_break,
     alts [lit_i ''env'', lit_i ''secret'', lit_i ''secrets'', lit_i ''credential'', lit_i ''credentials'', lit_i ''password'',
       lit_i ''passwd'', lit_i ''token'', lit_i ''private'', seqs [lit_i ''api'', opt (Cls (char_in ''_-'')), lit_i ''key''],
       seqs [lit_i ''access'', opt (Cls (char_in ''_-'')), lit_i ''key'']],
     Alt Eos name_break]"

definition hidden_name :: "string \<Rightarrow> bool" where
  "hidden_name s \<longleftrightarrow> prefix ''.'' s"

definition isSafeArtifactFilename :: "string \<Rightarrow> bool" where
  "isSafeArtifactFilename filename \<longleftrightarrow>
     (let name = basename filename
      in name = filename \<and> \<not> hidden_name name \<and> \<not> regex_test SENSITIVE_ARTIFACT_NAME name)"

definition is_control :: "char \<Rightarrow> bool" where
  "is_control c \<longleftrightarrow> (of_char c :: nat) \<le> 31 \<or> (of_char c :: nat) = 127"

definition isSafeArtifactPath :: "string \<Rightarrow> bool" where
  "isSafeArtifactPath path \<longleftrightarrow>
     path \<noteq> [] \<and> length path \<le> MAX_ARTIFACT_PATH_CHARS \<and> list_all (\<lambda>c. \<not> is_control c \<and> c \<noteq> CHR 0x5C) path
     \<and> list_all (\<lambda>seg. seg \<noteq> [] \<and> length seg \<le> 255 \<and> \<not> hidden_name seg) (js_split (CHR ''/'') path)"

text \<open>\<open>replace(/[...]+/gu, "_")\<close> on a class of characters: each run becomes one underscore.\<close>

fun squeeze :: "(char \<Rightarrow> bool) \<Rightarrow> string \<Rightarrow> string" where
  "squeeze P [] = []"
| "squeeze P [c] = [if P c then CHR ''_'' else c]"
| "squeeze P (c # d # s) =
     (if P c then (if P d then squeeze P (d # s) else CHR ''_'' # squeeze P (d # s)) else c # squeeze P (d # s))"

definition path_breaking :: "char \<Rightarrow> bool" where
  "path_breaking c \<longleftrightarrow> is_control c \<or> c = CHR ''/'' \<or> c = CHR 0x5C \<or> c = CHR '':''"

definition safePathSegment :: "string option \<Rightarrow> string \<Rightarrow> string" where
  "safePathSegment value fallback =
     (let cleaned = js_trim (take 64 (js_trim (dropWhile (\<lambda>c. c = CHR ''.'' \<or> js_space c) (squeeze path_breaking (nullish value [])))));
          other = take 64 (squeeze (\<lambda>c. \<not> (is_alnum c \<or> c = CHR ''_'' \<or> c = CHR ''-'')) fallback)
      in if cleaned \<noteq> [] then cleaned else if other \<noteq> [] then other else ''_'')"

section \<open>Scan\<close>

datatype dirent_kind = KindFile | KindDirectory | KindLink | KindOther

record file_system =
  fs_readdir :: "string \<Rightarrow> (string \<times> dirent_kind) list option"
  fs_exists :: "string \<Rightarrow> bool"
  fs_file :: "string \<Rightarrow> (nat \<times> ms) option"

record workspace_file =
  wf_path :: string
  wf_size :: nat
  wf_mtime :: ms
  wf_mime :: string

record scan_state =
  sn_files :: "(string, workspace_file) omap"
  sn_pending :: "(string \<times> string) list"
  sn_remaining :: nat

definition MAX_ARTIFACT_ENTRIES_PER_DIRECTORY :: nat where
  "MAX_ARTIFACT_ENTRIES_PER_DIRECTORY = 2000"

definition MAX_ARTIFACT_ENTRIES_PER_SCAN :: nat where
  "MAX_ARTIFACT_ENTRIES_PER_SCAN = 20000"

definition IGNORED_WORKSPACE_DIRECTORIES :: "string list" where
  "IGNORED_WORKSPACE_DIRECTORIES = [''node_modules'', ''__pycache__'', ''venv'']"

definition join_path :: "string \<Rightarrow> string \<Rightarrow> string" where
  "join_path directory name = directory @ ''/'' @ name"

text \<open>What the loop does with one entry of the directory \<open>directory\<close>, whose path from the root is \<open>prefix\<close>.\<close>

definition scan_entry :: "file_system \<Rightarrow> string \<Rightarrow> string \<Rightarrow> string \<times> dirent_kind \<Rightarrow> scan_state \<Rightarrow> scan_state" where
  "scan_entry fs directory pre entry s =
     (let name = fst entry; path = join_path directory name; fromRoot = (if pre = [] then name else pre @ ''/'' @ name);
          s1 = s\<lparr>sn_remaining := sn_remaining s - 1\<rparr>
      in if hidden_name name \<or> snd entry = KindLink then s1
         else if snd entry = KindDirectory
         then (if name \<in> set IGNORED_WORKSPACE_DIRECTORIES \<or> fs_exists fs (join_path path ''pyvenv.cfg'') then s1
               else s1\<lparr>sn_pending := (path, fromRoot) # sn_pending s1\<rparr>)
         else if snd entry \<noteq> KindFile \<or> \<not> isSafeArtifactFilename name \<or> \<not> isSafeArtifactPath fromRoot then s1
         else (case mimeTypeForFilename name of
                 None \<Rightarrow> s1
               | Some mime \<Rightarrow>
                   (case fs_file fs path of
                      None \<Rightarrow> s1
                    | Some (bytes, mtime) \<Rightarrow>
                        s1\<lparr>sn_files := omap_set fromRoot \<lparr> wf_path = path, wf_size = bytes, wf_mtime = mtime, wf_mime = mime \<rparr> (sn_files s1)\<rparr>)))"

fun scan_entries :: "file_system \<Rightarrow> string \<Rightarrow> string \<Rightarrow> nat \<Rightarrow> (string \<times> dirent_kind) list \<Rightarrow> scan_state \<Rightarrow> scan_state" where
  "scan_entries fs directory pre inspected [] s = s"
| "scan_entries fs directory pre inspected (e # es) s =
     (if inspected \<ge> MAX_ARTIFACT_ENTRIES_PER_DIRECTORY \<or> sn_remaining s = 0 then s
      else scan_entries fs directory pre (inspected + 1) es (scan_entry fs directory pre e s))"

text \<open>The work left never grows: an entry takes one from the budget and adds at most one directory.\<close>

lemma scan_entry_work: "sn_remaining s > 0 \<Longrightarrow>
   sn_remaining (scan_entry fs d p e s) = sn_remaining s - 1 \<and> length (sn_pending (scan_entry fs d p e s)) \<le> length (sn_pending s) + 1"
  by (auto simp: scan_entry_def Let_def split: option.splits)

lemma scan_entries_work:
  "2 * sn_remaining (scan_entries fs d p n es s) + length (sn_pending (scan_entries fs d p n es s))
     \<le> 2 * sn_remaining s + length (sn_pending s)"
proof (induction fs d p n es s rule: scan_entries.induct)
  case (2 fs d p n e es s)
  then show ?case using scan_entry_work [of s fs d p e] by (auto simp: not_le)
qed simp

text \<open>The pending directories are a stack: \<open>pop\<close> takes the last one pushed.\<close>

function scan_loop :: "file_system \<Rightarrow> scan_state \<Rightarrow> scan_state" where
  "scan_loop fs s =
     (case sn_pending s of
        [] \<Rightarrow> s
      | (directory, pre) # rest \<Rightarrow>
          if sn_remaining s = 0 then s
          else (case fs_readdir fs directory of
                  None \<Rightarrow> scan_loop fs (s\<lparr>sn_pending := rest\<rparr>)
                | Some entries \<Rightarrow> scan_loop fs (scan_entries fs directory pre 0 entries (s\<lparr>sn_pending := rest\<rparr>))))"
  by pat_completeness auto
termination
proof (relation "measure (\<lambda>(fs, s). 2 * sn_remaining s + length (sn_pending s))")
  fix fs :: file_system and s :: scan_state and x rest directory pre entries
  assume "sn_pending s = x # rest"
  then show "((fs, scan_entries fs directory pre 0 entries (s\<lparr>sn_pending := rest\<rparr>)), fs, s)
      \<in> measure (\<lambda>(fs, s). 2 * sn_remaining s + length (sn_pending s))"
    using scan_entries_work [of fs directory pre 0 entries "s\<lparr>sn_pending := rest\<rparr>"] by simp
qed auto

declare scan_loop.simps [simp del]

definition scanWorkspaceFiles :: "file_system \<Rightarrow> string \<Rightarrow> (string, workspace_file) omap" where
  "scanWorkspaceFiles fs base =
     sn_files (scan_loop fs \<lparr> sn_files = [], sn_pending = [(base, [])], sn_remaining = MAX_ARTIFACT_ENTRIES_PER_SCAN \<rparr>)"

section \<open>Content\<close>

definition SENSITIVE_ARTIFACT_CONTENT :: regex where
  "SENSITIVE_ARTIFACT_CONTENT = Alt
     (seqs [lit_i ''-----BEGIN '', opt (Seq (plus (Cls (\<lambda>c. is_alnum c \<or> c = CHR '' ''))) (chr (CHR '' ''))), lit_i ''PRIVATE KEY-----''])
     (seqs [alts [seqs [lit_i ''api'', opt (Cls (char_in ''_-'')), lit_i ''key''], seqs [lit_i ''client'', opt (Cls (char_in ''_-'')), lit_i ''secret''],
          lit_i ''password'', lit_i ''passwd'', lit_i ''authorization'', seqs [lit_i ''access'', opt (Cls (char_in ''_-'')), lit_i ''token'']],
        opt (Cls (char_in [CHR 0x22, CHR 0x27])), Star (Cls js_space), Cls (char_in '':=''), Star (Cls js_space),
        opt (Cls (char_in [CHR 0x22, CHR 0x27])), rep 8 (Cls (\<lambda>c. \<not> js_space c \<and> c \<noteq> CHR 0x22 \<and> c \<noteq> CHR 0x27))])"

definition containsLikelySecret :: "string \<Rightarrow> string \<Rightarrow> bool" where
  "containsLikelySecret data mimeType \<longleftrightarrow>
     (prefix ''text/'' mimeType \<or> mimeType \<in> {''application/json'', ''application/xml'', ''application/yaml''})
     \<and> regex_test SENSITIVE_ARTIFACT_CONTENT data"

definition hasImageSignature :: "string \<Rightarrow> nat list \<Rightarrow> bool" where
  "hasImageSignature mimeType data \<longleftrightarrow>
     (if mimeType = ''image/png'' then take 8 data = [0x89, 0x50, 0x4e, 0x47, 0x0d, 0x0a, 0x1a, 0x0a]
      else if mimeType = ''image/jpeg'' then take 3 data = [0xff, 0xd8, 0xff]
      else if mimeType = ''image/gif'' then take 6 data = map of_char ''GIF87a'' \<or> take 6 data = map of_char ''GIF89a''
      else if mimeType = ''image/webp''
      then length data \<ge> 12 \<and> take 4 data = map of_char ''RIFF'' \<and> take 4 (drop 8 data) = map of_char ''WEBP''
      else False)"

section \<open>Facts\<close>

lemma known_mimes_allowed: "mimeTypeForFilename name = Some mime \<Longrightarrow> mime \<in> set ALLOWED_FILE_MIMES"
proof -
  have "set (map snd ARTIFACT_MIME_BY_EXTENSION) \<subseteq> set ALLOWED_FILE_MIMES"
    by (simp add: ARTIFACT_MIME_BY_EXTENSION_def ALLOWED_FILE_MIMES_def)
  then show "mimeTypeForFilename name = Some mime \<Longrightarrow> ?thesis"
    unfolding mimeTypeForFilename_def by (auto dest!: map_of_SomeD)
qed

definition below :: "string \<Rightarrow> string \<Rightarrow> string" where
  "below base rel = (if rel = [] then base else join_path base rel)"

lemma below_child: "join_path (below base p) name = join_path base (if p = [] then name else p @ ''/'' @ name)"
  by (simp add: below_def join_path_def)

text \<open>What holds of the files found and the directories pending, for a scan of \<open>base\<close> with budget \<open>n\<close>.\<close>

definition scan_ok :: "file_system \<Rightarrow> string \<Rightarrow> nat \<Rightarrow> scan_state \<Rightarrow> bool" where
  "scan_ok fs base n s \<longleftrightarrow>
     omap_ok (sn_files s) \<and> length (sn_files s) + sn_remaining s \<le> n
     \<and> (\<forall>(k, f) \<in> set (sn_files s). isSafeArtifactPath k \<and> wf_path f = join_path base k \<and> wf_mime f \<in> set ALLOWED_FILE_MIMES
          \<and> fs_file fs (wf_path f) = Some (wf_size f, wf_mtime f))
     \<and> (\<forall>(d, p) \<in> set (sn_pending s). d = below base p)"

lemma scan_ok_drop: "scan_ok fs base n s \<Longrightarrow> sn_pending s = x # rest \<Longrightarrow> scan_ok fs base n (s\<lparr>sn_pending := rest\<rparr>)"
  by (simp add: scan_ok_def)

lemma scan_ok_remaining: "scan_ok fs base n s \<Longrightarrow> scan_ok fs base n (s\<lparr>sn_remaining := sn_remaining s - 1\<rparr>)"
  unfolding scan_ok_def by auto

lemma scan_ok_push:
  assumes "scan_ok fs base n s" "d = below base p"
  shows "scan_ok fs base n (s\<lparr>sn_pending := (d, p) # sn_pending s\<rparr>)"
  using assms by (simp add: scan_ok_def)

lemma scan_ok_file:
  assumes "scan_ok fs base n s" "length (sn_files s) + sn_remaining s < n" "isSafeArtifactPath k" "fs_file fs (join_path base k) = Some (bytes, mtime)"
    "mime \<in> set ALLOWED_FILE_MIMES"
  shows "scan_ok fs base n (s\<lparr>sn_files := omap_set k \<lparr> wf_path = join_path base k, wf_size = bytes, wf_mtime = mtime, wf_mime = mime \<rparr> (sn_files s)\<rparr>)"
proof -
  let ?f = "\<lparr> wf_path = join_path base k, wf_size = bytes, wf_mtime = mtime, wf_mime = mime \<rparr>"
  have "set (omap_set k ?f (sn_files s)) \<subseteq> insert (k, ?f) (set (sn_files s))" by (rule set_omap_set_subset)
  moreover have "length (omap_set k ?f (sn_files s)) \<le> length (sn_files s) + 1" by (simp add: length_omap_set)
  ultimately show ?thesis using assms unfolding scan_ok_def by auto
qed

lemma scan_entry_ok:
  assumes ok: "scan_ok fs base n s" and left: "sn_remaining s > 0" and d: "d = below base p" and name: "fst e \<noteq> []"
  shows "scan_ok fs base n (scan_entry fs d p e s)"
proof -
  define rel where "rel = (if p = [] then fst e else p @ ''/'' @ fst e)"
  define s1 where "s1 = s\<lparr>sn_remaining := sn_remaining s - 1\<rparr>"
  have ok1: "scan_ok fs base n s1" unfolding s1_def using ok by (rule scan_ok_remaining)
  have room: "length (sn_files s1) + sn_remaining s1 < n" using ok left by (auto simp: s1_def scan_ok_def)
  have path: "join_path d (fst e) = join_path base rel" by (simp only: d below_child rel_def)
  have "join_path d (fst e) = below base rel" using name by (auto simp: path below_def rel_def)
  with scan_ok_push [OF ok1] have push: "scan_ok fs base n (s1\<lparr>sn_pending := (join_path d (fst e), rel) # sn_pending s1\<rparr>)" by blast
  show ?thesis
    unfolding scan_entry_def Let_def rel_def [symmetric] s1_def [symmetric]
    using ok1 push scan_ok_file [OF ok1 room, of rel, folded path] known_mimes_allowed [of "fst e"]
    by (auto split: option.splits)
qed

text \<open>A directory lists no empty name.\<close>

definition listing_ok :: "file_system \<Rightarrow> bool" where
  "listing_ok fs \<longleftrightarrow> (\<forall>d es. fs_readdir fs d = Some es \<longrightarrow> list_all (\<lambda>e. fst e \<noteq> []) es)"

lemma scan_entries_ok:
  "scan_ok fs base n s \<Longrightarrow> d = below base p \<Longrightarrow> list_all (\<lambda>e. fst e \<noteq> []) es \<Longrightarrow> scan_ok fs base n (scan_entries fs d p m es s)"
  by (induction fs d p m es s rule: scan_entries.induct) (simp_all add: scan_entry_ok)

lemma scan_loop_ok: "listing_ok fs \<Longrightarrow> scan_ok fs base n s \<Longrightarrow> scan_ok fs base n (scan_loop fs s)"
proof (induction fs s rule: scan_loop.induct)
  case (1 fs s)
  show ?case
  proof (cases "sn_pending s = [] \<or> sn_remaining s = 0")
    case True
    then have "scan_loop fs s = s" by (subst scan_loop.simps) (auto split: list.splits)
    with "1.prems" show ?thesis by simp
  next
    case False
    then obtain d p rest where pending: "sn_pending s = (d, p) # rest" and left: "sn_remaining s \<noteq> 0" by (cases "sn_pending s") auto
    from "1.prems"(2) pending have d: "d = below base p" by (simp add: scan_ok_def)
    have rest: "scan_ok fs base n (s\<lparr>sn_pending := rest\<rparr>)" using "1.prems"(2) pending by (rule scan_ok_drop)
    show ?thesis
    proof (cases "fs_readdir fs d")
      case None
      with "1.IH"(1) pending left "1.prems"(1) rest show ?thesis by (subst scan_loop.simps) simp
    next
      case (Some entries)
      with "1.prems"(1) have "scan_ok fs base n (scan_entries fs d p 0 entries (s\<lparr>sn_pending := rest\<rparr>))"
        by (intro scan_entries_ok [OF rest d]) (simp add: listing_ok_def)
      with Some "1.IH"(2) pending left "1.prems"(1) show ?thesis by (subst scan_loop.simps) simp
    qed
  qed
qed

section \<open>Properties\<close>


definition demo_files :: file_system where
  "demo_files = \<lparr> fs_readdir = (\<lambda>d. if d = ''/w'' then Some [(''a.txt'', KindFile), (''.env'', KindFile), (''sub'', KindDirectory), (''x.bin'', KindFile)]
       else if d = ''/w/sub'' then Some [(''b.md'', KindFile), (''c.md'', KindLink)] else None),
     fs_exists = (\<lambda>p. False), fs_file = (\<lambda>p. Some (3, 7)) \<rparr>"

lemma demo_names:
  "mimeTypeForFilename ''a.txt'' = Some ''text/plain''" "mimeTypeForFilename ''b.md'' = Some ''text/markdown''" "mimeTypeForFilename ''x.bin'' = None"
  "isSafeArtifactFilename ''a.txt''" "isSafeArtifactFilename ''b.md''"
  by (simp_all add: mimeTypeForFilename_def extname_def basename_def js_lower_def ARTIFACT_MIME_BY_EXTENSION_def isSafeArtifactFilename_def
      hidden_name_def regex_test_def SENSITIVE_ARTIFACT_NAME_def name_break_def seqs_def alts_def lit_i_def chr_i_def opt_def char_in_def Let_def)

lemma demo_paths: "isSafeArtifactPath ''a.txt''" "isSafeArtifactPath ''sub/b.md''"
  by (simp_all add: isSafeArtifactPath_def MAX_ARTIFACT_PATH_CHARS_def is_control_def hidden_name_def)

lemma demo_listing:
  "fs_readdir demo_files ''/w'' = Some [(''a.txt'', KindFile), (''.env'', KindFile), (''sub'', KindDirectory), (''x.bin'', KindFile)]"
  "fs_readdir demo_files ''/w/sub'' = Some [(''b.md'', KindFile), (''c.md'', KindLink)]" "\<not> fs_exists demo_files p" "fs_file demo_files p = Some (3, 7)"
  by (simp_all add: demo_files_def)

lemma demo_files_scan: "map fst (scanWorkspaceFiles demo_files ''/w'') = [''a.txt'', ''sub/b.md'']"
  by (simp add: scanWorkspaceFiles_def scan_loop.simps [of demo_files] demo_listing MAX_ARTIFACT_ENTRIES_PER_SCAN_def scan_entry_def hidden_name_def
      join_path_def demo_names demo_paths IGNORED_WORKSPACE_DIRECTORIES_def MAX_ARTIFACT_ENTRIES_PER_DIRECTORY_def Let_def)


end
