(* ===== verification/Event_Boundary.thy ===== *)
theory Event_Boundary
  imports Local_Files Usage
begin

text \<open>
  \<open>pi/event-sse.ts\<close>: what of a session event or a stored entry may leave the process.  Every field is
  copied by name, bounded and redacted.  A result object is the list of its members in insertion order.
  The placeholder texts and the ellipsis are not ASCII and are parameters, as are \<open>JSON.parse\<close>, the
  size of the JSON encoding, \<open>Date.parse\<close> and the home directory; the CJK punctuation at which a path
  also ends lies outside the model's alphabet.  Values are trees of plain objects, so the checks for
  cycles and foreign prototypes have nothing to find.
\<close>

record event_env =
  ev_hidden :: string
  ev_pathHidden :: string
  ev_omitted :: string
  ev_ellipsis :: string
  ev_home :: string
  ev_parse :: "string \<Rightarrow> jsval option"
  ev_bytes :: "jsval \<Rightarrow> nat"
  ev_date :: "string \<Rightarrow> ms option"
  ev_iso :: "ms \<Rightarrow> string"

type_synonym fields = "(string, jsval) omap"

definition MAX_EVENT_BYTES :: nat where "MAX_EVENT_BYTES = 24 * 1024"

definition MAX_TEXT_CHARS :: nat where "MAX_TEXT_CHARS = 4000"

definition MAX_MESSAGE_TEXT_CHARS :: nat where "MAX_MESSAGE_TEXT_CHARS = 200000"

definition MAX_TOOL_NAME_CHARS :: nat where "MAX_TOOL_NAME_CHARS = 128"

definition MAX_IDENTIFIER_CHARS :: nat where "MAX_IDENTIFIER_CHARS = 256"

definition MAX_FILE_NAME_CHARS :: nat where "MAX_FILE_NAME_CHARS = 255"

definition MAX_SOURCE_NAME_CHARS :: nat where "MAX_SOURCE_NAME_CHARS = 256"

definition MAX_OBJECT_KEYS :: nat where "MAX_OBJECT_KEYS = 24"

definition MAX_ARRAY_ITEMS :: nat where "MAX_ARRAY_ITEMS = 32"

definition MAX_JSON_DEPTH :: nat where "MAX_JSON_DEPTH = 4"

definition MAX_FAILURE_MESSAGE_CHARS :: nat where "MAX_FAILURE_MESSAGE_CHARS = 1000"

definition ALLOWED_EVENTS :: "string list" where
  "ALLOWED_EVENTS = [''agent_start'', ''agent_end'', ''agent_settled'', ''message_update'', ''message_end'', ''tool_execution_start'',
     ''tool_execution_update'', ''tool_execution_end'', ''auto_retry_start'', ''auto_retry_end'', ''compaction_start'', ''compaction_end'',
     ''approval_required'']"

definition TOOL_EVENTS :: "string list" where
  "TOOL_EVENTS = [''tool_execution_start'', ''tool_execution_update'', ''tool_execution_end'']"

definition ASSISTANT_EVENTS :: "string list" where
  "ASSISTANT_EVENTS = [''start'', ''text_start'', ''text_delta'', ''text_end'', ''thinking_start'', ''thinking_delta'', ''thinking_end'',
     ''toolcall_start'', ''toolcall_delta'', ''toolcall_end'', ''done'', ''error'']"

definition STOP_REASONS :: "string list" where
  "STOP_REASONS = [''stop'', ''length'', ''toolUse'', ''deferred'', ''aborted'', ''error'']"

definition CONTEXT_RESET_ENTRY_TYPE :: string where
  "CONTEXT_RESET_ENTRY_TYPE = ''aiteam_context_reset''"

section \<open>Patterns\<close>

text \<open>\<open>.?\<close>\<close>

definition any_opt :: regex where
  "any_opt = opt (Cls (\<lambda>c. c \<noteq> CHR 0x0A \<and> c \<noteq> CHR 0x0D))"

definition EVENT_SECRET_KEY :: regex where
  "EVENT_SECRET_KEY = alts [lit_i ''authorization'', seqs [lit_i ''access'', any_opt, lit_i ''token''], seqs [lit_i ''refresh'', any_opt, lit_i ''token''],
     lit_i ''token'', seqs [lit_i ''api'', any_opt, lit_i ''key''], lit_i ''credential'', lit_i ''secret'', lit_i ''password'',
     seqs [lit_i ''session'', any_opt, lit_i ''file''], lit_i ''workspace'', lit_i ''cwd'', lit_i ''path'', lit_i ''filename'',
     seqs [lit_i ''file'', any_opt, lit_i ''path''], seqs [lit_i ''private'', any_opt, lit_i ''key'']]"

definition UNSAFE_VALUE_KEY :: regex where
  "UNSAFE_VALUE_KEY = seqs [Bos, alts (map lit_i [''api'', ''provider'', ''model'', ''raw'', ''headers'', ''request'', ''diagnostics'', ''session'']), Eos]"

definition EVENT_INLINE_SECRET :: regex where
  "EVENT_INLINE_SECRET = Alt
     (Seq (alts [Seq (lit_i ''bearer'') (plus (Cls js_space)), Seq (lit_i ''basic'') (plus (Cls js_space)),
            Seq (alts [lit_i ''sk'', lit_i ''pk'', lit_i ''rk'']) (chr (CHR ''-''))])
        (plus (Cls (\<lambda>c. is_alnum c \<or> char_in ''._~+/=-'' c))))
     (seqs [alts [lit_i ''token'', lit_i ''secret'', lit_i ''password'', seqs [lit_i ''api'', opt (Cls (char_in '' _-'')), lit_i ''key'']],
        Star (Cls js_space), Cls (char_in '':=''), Star (Cls js_space), plus (Cls (\<lambda>c. \<not> js_space c \<and> c \<noteq> CHR '','' \<and> c \<noteq> CHR '';''))])"

text \<open>The group of \<open>URL_SECRET_PARAM\<close>, which stays, and the value behind it.\<close>

definition URL_PARAM_NAME :: regex where
  "URL_PARAM_NAME = seqs [Cls (char_in ''?&;''), Star (Seq (plus (Cls is_alnum)) (Cls (char_in ''_.-''))),
     alts (map lit_i [''key'', ''apikey'', ''token'', ''secret'', ''signature'', ''sig'', ''password'', ''passwd'', ''pwd'', ''credential'', ''auth'']),
     chr (CHR ''='')]"

definition URL_PARAM_VALUE :: regex where
  "URL_PARAM_VALUE = plus (Cls (\<lambda>c. c \<noteq> CHR ''&'' \<and> c \<noteq> CHR ''#'' \<and> \<not> js_space c \<and> c \<noteq> CHR 0x22 \<and> c \<noteq> CHR 0x27 \<and> c \<noteq> CHR ''<'' \<and> c \<noteq> CHR ''>''))"

definition path_rest :: regex where
  "path_rest = Star (Cls (\<lambda>c. \<not> js_space c \<and> \<not> char_in [CHR 0x22, CHR 0x27, CHR ''<'', CHR ''>'', CHR ''('', CHR '')'', CHR ''['', CHR '']'', CHR 0x7B, CHR 0x7D] c))"

definition EVENT_INLINE_PATH :: regex where
  "EVENT_INLINE_PATH = Alt
     (seqs [chr (CHR ''/''), alts (map lit_i [''Users'', ''Volumes'', ''private'', ''home'', ''tmp'', ''var'', ''workspace'', ''etc'', ''root'', ''opt'',
          ''srv'', ''mnt'', ''data'']), Star (Seq (chr (CHR ''/'')) path_rest)])
     (seqs [Cls (\<lambda>c. is_alnum c \<and> \<not> is_digit c), chr (CHR '':''), chr (CHR 0x5C), path_rest])"

section \<open>Redaction\<close>

text \<open>
  \<open>replace\<close> with a callback: \<open>m\<close> gives the end of the match at a position and its replacement.  A match
  that consumes nothing is replaced in front of the next character; every round consumes one.
\<close>

fun replace_loop :: "nat \<Rightarrow> (rpos \<Rightarrow> (rpos \<times> string) option) \<Rightarrow> rpos \<Rightarrow> string" where
  "replace_loop 0 m p = (case m p of None \<Rightarrow> snd p | Some (q, w) \<Rightarrow> w @ snd q)"
| "replace_loop (Suc n) m p =
     (case m p of
        None \<Rightarrow> (case snd p of [] \<Rightarrow> [] | c # s \<Rightarrow> c # replace_loop n m (c # fst p, s))
      | Some (q, w) \<Rightarrow>
          if length (snd q) < length (snd p) then w @ replace_loop n m q
          else (case snd p of [] \<Rightarrow> w | c # s \<Rightarrow> w @ c # replace_loop n m (c # fst p, s)))"

definition replace_with :: "(rpos \<Rightarrow> (rpos \<times> string) option) \<Rightarrow> string \<Rightarrow> string" where
  "replace_with m s = replace_loop (length s) m ([], s)"

definition consumed_text :: "rpos \<Rightarrow> rpos \<Rightarrow> string" where
  "consumed_text p q = take (length (snd p) - length (snd q)) (snd p)"

text \<open>\<open>ANY_SECRET\<close>: the URL rule first, then the inline rule; only the former has a group.\<close>

definition any_secret :: "event_env \<Rightarrow> rpos \<Rightarrow> (rpos \<times> string) option" where
  "any_secret env p =
     (case concat (map (\<lambda>g. map (\<lambda>q. (q, consumed_text p g @ ev_hidden env)) (regex_ends URL_PARAM_VALUE g)) (regex_ends URL_PARAM_NAME p)) of
        m # _ \<Rightarrow> Some m
      | [] \<Rightarrow> (case regex_ends EVENT_INLINE_SECRET p of q # _ \<Rightarrow> Some (q, ev_hidden env) | [] \<Rightarrow> None))"

definition redactSecrets :: "event_env \<Rightarrow> string \<Rightarrow> string" where
  "redactSecrets env s = replace_with (any_secret env) s"

definition trailing_punctuation :: "string \<Rightarrow> string" where
  "trailing_punctuation s = rev (takeWhile (char_in ''.,;:!?'') (rev s))"

definition inline_path :: "event_env \<Rightarrow> rpos \<Rightarrow> (rpos \<times> string) option" where
  "inline_path env p =
     (case regex_ends EVENT_INLINE_PATH p of
        q # _ \<Rightarrow> Some (q, ev_pathHidden env @ trailing_punctuation (consumed_text p q))
      | [] \<Rightarrow> None)"

definition redactInlinePaths :: "event_env \<Rightarrow> string \<Rightarrow> string" where
  "redactInlinePaths env s = replace_with (inline_path env) s"

definition boundText :: "event_env \<Rightarrow> string \<Rightarrow> nat \<Rightarrow> string" where
  "boundText env s n = (if length s \<le> n then s else take (n - 1) s @ ev_ellipsis env)"

definition safeText :: "event_env \<Rightarrow> string \<Rightarrow> nat \<Rightarrow> string" where
  "safeText env s n = boundText env (redactInlinePaths env (redactSecrets env s)) n"

definition safeMessageText :: "event_env \<Rightarrow> string \<Rightarrow> nat \<Rightarrow> string" where
  "safeMessageText env s n = boundText env (redactSecrets env s) n"

text \<open>The home directory as a whole directory name becomes \<open>~\<close>.\<close>

definition home_end :: "char \<Rightarrow> bool" where
  "home_end c \<longleftrightarrow> js_space c \<or> char_in [CHR 0x5C, CHR ''/'', CHR 0x22, CHR 0x27, CHR ''<'', CHR ''>'', CHR ''('', CHR '')'', CHR ''['', CHR '']'', CHR 0x7B, CHR 0x7D] c"

definition home_match :: "string \<Rightarrow> rpos \<Rightarrow> (rpos \<times> string) option" where
  "home_match dir p =
     (if prefix dir (snd p)
      then (let rest = drop (length dir) (snd p)
            in if rest = [] \<or> home_end (hd rest) then Some ((rev dir @ fst p, rest), ''~'') else None)
      else None)"

definition shortenHome :: "string \<Rightarrow> string \<Rightarrow> string" where
  "shortenHome s home =
     (let dir = rev (dropWhile (\<lambda>c. c = CHR 0x5C \<or> c = CHR ''/'') (rev home))
      in if length dir < 2 then s else replace_with (home_match dir) s)"

definition failureText :: "event_env \<Rightarrow> string \<Rightarrow> string" where
  "failureText env s = boundText env (shortenHome (redactSecrets env s) (ev_home env)) MAX_FAILURE_MESSAGE_CHARS"

definition boundedIdentifier :: "event_env \<Rightarrow> jsval \<Rightarrow> nat \<Rightarrow> string option" where
  "boundedIdentifier env v n =
     (case v of JStr s \<Rightarrow> if js_trim s = [] then None else Some (safeText env s n) | _ \<Rightarrow> None)"

section \<open>Values\<close>

definition blocked_key :: "string \<Rightarrow> bool" where
  "blocked_key k \<longleftrightarrow> regex_test EVENT_SECRET_KEY k \<or> regex_test UNSAFE_VALUE_KEY k"

text \<open>\<open>undefined\<close> leaves a member or an item out.\<close>

function boundedValue :: "event_env \<Rightarrow> jsval \<Rightarrow> string \<Rightarrow> nat \<Rightarrow> jsval" where
  "boundedValue env v key depth =
     (if blocked_key key then JUndef
      else (case v of
        JUndef \<Rightarrow> JUndef
      | JStr s \<Rightarrow> JStr (safeText env s MAX_TEXT_CHARS)
      | JArr vs \<Rightarrow>
          if depth \<ge> MAX_JSON_DEPTH then JStr (ev_omitted env)
          else JArr (filter (\<lambda>w. w \<noteq> JUndef) (map (\<lambda>w. boundedValue env w [] (depth + 1)) (take MAX_ARRAY_ITEMS vs)))
      | JObj fs \<Rightarrow>
          if depth \<ge> MAX_JSON_DEPTH then JStr (ev_omitted env)
          else JObj (filter (\<lambda>e. snd e \<noteq> JUndef) (map (\<lambda>(k, w). (k, boundedValue env w k (depth + 1))) (take MAX_OBJECT_KEYS fs)))
      | _ \<Rightarrow> v))"
  by pat_completeness auto
termination
  by (relation "measure (\<lambda>(env, v, key, depth). MAX_JSON_DEPTH - depth)") auto

declare boundedValue.simps [simp del]

definition put :: "string \<Rightarrow> jsval option \<Rightarrow> fields \<Rightarrow> fields" where
  "put k v r = (case v of None \<Rightarrow> r | Some v \<Rightarrow> omap_set k v r)"

definition text_member :: "string option \<Rightarrow> jsval option" where
  "text_member t = (case t of None \<Rightarrow> None | Some s \<Rightarrow> if s = [] then None else Some (JStr s))"

definition has_own :: "jsval \<Rightarrow> string \<Rightarrow> bool" where
  "has_own v k \<longleftrightarrow> k \<in> set (js_keys v)"

definition classifyToolKind :: "jsval \<Rightarrow> string option" where
  "classifyToolKind v =
     (case v of
        JStr s \<Rightarrow>
          if s = ''todo_update'' then Some ''todo''
          else if s \<in> {''knowledge_search'', ''knowledge_get''} then Some ''rag''
          else if s \<in> {''hindsight_recall'', ''hindsight_retain'', ''memory_recall'', ''memory_retain''} then Some ''memory''
          else None
      | _ \<Rightarrow> None)"

definition is_text_part :: "jsval \<Rightarrow> string option" where
  "is_text_part part =
     (if js_field part ''type'' = JStr ''text'' then (case js_field part ''text'' of JStr s \<Rightarrow> Some s | _ \<Rightarrow> None) else None)"

definition texts_of :: "jsval list \<Rightarrow> string" where
  "texts_of parts = concat (map (\<lambda>p. nullish (is_text_part p) []) parts)"

definition unwrapToolResult :: "event_env \<Rightarrow> jsval \<Rightarrow> jsval" where
  "unwrapToolResult env v =
     (if \<not> is_object v then v
      else (let joined = (case js_field v ''content'' of JArr parts \<Rightarrow> texts_of parts | _ \<Rightarrow> []); bounded = safeText env joined MAX_TEXT_CHARS
            in if joined \<noteq> [] then (case ev_parse env bounded of Some w \<Rightarrow> w | None \<Rightarrow> JObj [(''text'', JStr bounded)])
               else if js_field v ''details'' \<noteq> JUndef then js_field v ''details'' else v))"

definition safeToolValue :: "event_env \<Rightarrow> jsval \<Rightarrow> jsval" where
  "safeToolValue env v = boundedValue env v [] 0"

definition safeToolResult :: "event_env \<Rightarrow> jsval \<Rightarrow> jsval" where
  "safeToolResult env v = safeToolValue env (unwrapToolResult env v)"

section \<open>Copying members\<close>

definition identifier_member :: "event_env \<Rightarrow> jsval \<Rightarrow> nat \<Rightarrow> jsval option" where
  "identifier_member env v n = text_member (boundedIdentifier env v n)"

definition copyToolName :: "event_env \<Rightarrow> fields \<Rightarrow> jsval \<Rightarrow> fields" where
  "copyToolName env r raw = put ''toolName'' (identifier_member env (js_field raw ''toolName'') MAX_TOOL_NAME_CHARS) r"

definition copyIdentifier :: "event_env \<Rightarrow> jsval \<Rightarrow> string \<Rightarrow> fields \<Rightarrow> fields" where
  "copyIdentifier env raw key r = put key (identifier_member env (js_field raw key) MAX_IDENTIFIER_CHARS) r"

definition copyApprovalSummary :: "event_env \<Rightarrow> jsval \<Rightarrow> fields \<Rightarrow> fields" where
  "copyApprovalSummary env raw r =
     (case js_field raw ''summary'' of
        JStr s \<Rightarrow>
          (let redacted = redactSecrets env s
           in omap_set ''summary'' (JStr (if length redacted \<le> MAX_TEXT_CHARS then redacted
                else take (MAX_TEXT_CHARS - 1) redacted @ ev_ellipsis env)) r)
      | _ \<Rightarrow> r)"

definition copyText :: "event_env \<Rightarrow> jsval \<Rightarrow> string \<Rightarrow> fields \<Rightarrow> fields" where
  "copyText env raw key r = (case js_field raw key of JStr s \<Rightarrow> omap_set key (JStr (safeText env s MAX_TEXT_CHARS)) r | _ \<Rightarrow> r)"

definition copyFailure :: "event_env \<Rightarrow> jsval \<Rightarrow> string \<Rightarrow> fields \<Rightarrow> fields" where
  "copyFailure env raw key r = (case js_field raw key of JStr s \<Rightarrow> omap_set key (JStr (failureText env s)) r | _ \<Rightarrow> r)"

definition copyInteger :: "jsval \<Rightarrow> string \<Rightarrow> fields \<Rightarrow> fields" where
  "copyInteger raw key r =
     (case js_integer (js_field raw key) of Some i \<Rightarrow> if i \<ge> 0 then omap_set key (js_field raw key) r else r | None \<Rightarrow> r)"

definition copyBoolean :: "jsval \<Rightarrow> string \<Rightarrow> fields \<Rightarrow> fields" where
  "copyBoolean raw key r = (case js_field raw key of JBool b \<Rightarrow> omap_set key (JBool b) r | _ \<Rightarrow> r)"

definition copyReason :: "jsval \<Rightarrow> fields \<Rightarrow> fields" where
  "copyReason raw r =
     (if js_field raw ''reason'' \<in> JStr ` {''manual'', ''threshold'', ''overflow''} then omap_set ''reason'' (js_field raw ''reason'') r else r)"

definition SOURCE_ROLES :: "string list" where
  "SOURCE_ROLES = [''human'', ''child'', ''participant'', ''coordinator'']"

definition METADATA_KEYS :: "string list" where
  "METADATA_KEYS = [''conversation_id'', ''source_ref'', ''tool_call_id'', ''source_employee_id'', ''source_employee_display_name'']"

definition serializeMetadata :: "event_env \<Rightarrow> jsval \<Rightarrow> fields \<Rightarrow> fields" where
  "serializeMetadata env extra r =
     (let r = fold (\<lambda>key. put key (identifier_member env (js_field extra key)
                (if key = ''source_employee_display_name'' then MAX_SOURCE_NAME_CHARS else MAX_IDENTIFIER_CHARS))) METADATA_KEYS r
      in if js_field extra ''source_role'' \<in> JStr ` set SOURCE_ROLES then omap_set ''source_role'' (js_field extra ''source_role'') r else r)"

section \<open>Messages\<close>

definition serializeToolCall :: "event_env \<Rightarrow> jsval \<Rightarrow> fields option" where
  "serializeToolCall env v =
     (let ident = identifier_member env (js_field v ''id'') MAX_IDENTIFIER_CHARS;
          name = identifier_member env (js_field v ''name'') MAX_TOOL_NAME_CHARS;
          r = (if js_field v ''type'' \<in> JStr ` {''toolCall'', ''tool_call'', ''toolUse'', ''tool_use''} then [(''type'', js_field v ''type'')] else []);
          r = put ''name'' name (put ''id'' ident r)
      in if ident = None \<and> name = None then None
         else Some (if has_own v ''arguments'' then omap_set ''arguments'' (safeToolValue env (js_field v ''arguments'')) r else r))"

text \<open>One part of a message; \<open>body\<close> marks user and assistant text.\<close>

definition content_text :: "event_env \<Rightarrow> bool \<Rightarrow> string \<Rightarrow> nat \<Rightarrow> string" where
  "content_text env body s n = (if body then safeMessageText env s n else safeText env s n)"

definition content_part :: "event_env \<Rightarrow> bool \<Rightarrow> nat \<Rightarrow> jsval \<Rightarrow> jsval list" where
  "content_part env body n part =
     (case js_field part ''type'' of
        JStr kind \<Rightarrow>
          (case (if kind = ''text'' then js_field part ''text'' else JUndef) of
             JStr s \<Rightarrow>
               [JObj ([(''type'', JStr ''text''), (''text'', JStr (content_text env body s n))]
                  @ (if body \<and> length (redactSecrets env s) > n then [(''truncated'', JBool True)] else []))]
           | _ \<Rightarrow>
               (case (if kind = ''thinking'' then js_field part ''thinking'' else JUndef) of
                  JStr s \<Rightarrow> [JObj [(''type'', JStr ''thinking''), (''thinking'', JStr (safeText env s MAX_TEXT_CHARS))]]
                | _ \<Rightarrow>
                    if kind = ''toolCall'' then (case serializeToolCall env part of Some r \<Rightarrow> [JObj r] | None \<Rightarrow> [])
                    else if kind = ''image'' then [JObj [(''type'', JStr ''image'')]]
                    else []))
      | _ \<Rightarrow> [])"

definition serializeContent :: "event_env \<Rightarrow> jsval \<Rightarrow> bool \<Rightarrow> nat \<Rightarrow> jsval" where
  "serializeContent env v body n =
     (case v of
        JStr s \<Rightarrow> JStr (content_text env body s n)
      | JArr parts \<Rightarrow> JArr (concat (map (content_part env body n) (take MAX_ARRAY_ITEMS parts)))
      | _ \<Rightarrow> JUndef)"

definition is_finite_number :: "jsval \<Rightarrow> bool" where
  "is_finite_number v = (case v of JNum (Fin q) \<Rightarrow> True | _ \<Rightarrow> False)"

definition assistant_outcome :: "event_env \<Rightarrow> jsval \<Rightarrow> fields \<Rightarrow> fields" where
  "assistant_outcome env raw r =
     (let r = (if js_field raw ''stopReason'' \<in> JStr ` set STOP_REASONS then omap_set ''stopReason'' (js_field raw ''stopReason'') r else r)
      in if js_field raw ''stopReason'' = JStr ''error'' then copyFailure env raw ''errorMessage'' r else r)"

definition tool_outcome :: "event_env \<Rightarrow> jsval \<Rightarrow> jsval \<Rightarrow> fields \<Rightarrow> fields" where
  "tool_outcome env raw content r =
     (let r = copyBoolean raw ''isError'' (copyToolName env (copyIdentifier env raw ''toolCallId'' r) raw)
      in case classifyToolKind (js_field raw ''toolName'') of
           None \<Rightarrow> r
         | Some kind \<Rightarrow>
             (let r = omap_set ''tool_kind'' (JStr kind) r
              in if content \<noteq> JUndef then omap_set ''result'' (safeToolResult env (JObj [(''content'', content)])) r else r))"

definition serializeMessage :: "event_env \<Rightarrow> jsval \<Rightarrow> nat \<Rightarrow> fields option" where
  "serializeMessage env raw bodyMax =
     (let role = js_field raw ''role''
      in if role \<notin> JStr ` {''user'', ''assistant'', ''toolResult''} then None
         else (let r = [(''role'', role)];
                   r = (if is_finite_number (js_field raw ''timestamp'') then omap_set ''timestamp'' (js_field raw ''timestamp'') r else r);
                   content = (if role = JStr ''toolResult'' then serializeContent env (js_field raw ''content'') False MAX_TEXT_CHARS
                              else serializeContent env (js_field raw ''content'') True bodyMax);
                   r = (if content \<noteq> JUndef then omap_set ''content'' content r else r);
                   r = (if role = JStr ''assistant'' then assistant_outcome env raw r else r)
               in Some (if role = JStr ''toolResult'' then tool_outcome env raw content r else r)))"

definition serializeAssistantMessageEvent :: "event_env \<Rightarrow> jsval \<Rightarrow> fields option" where
  "serializeAssistantMessageEvent env raw =
     (case js_field raw ''type'' of
        JStr kind \<Rightarrow>
          if kind \<notin> set ASSISTANT_EVENTS then None
          else (let r = [(''type'', JStr kind)];
                    r = (case js_integer (js_field raw ''contentIndex'') of
                           Some i \<Rightarrow> if 0 \<le> i \<and> i < 1000 then omap_set ''contentIndex'' (js_field raw ''contentIndex'') r else r
                         | None \<Rightarrow> r);
                    r = (case js_field raw ''delta'' of JStr s \<Rightarrow> omap_set ''delta'' (JStr (content_text env (prefix ''text_'' kind) s MAX_TEXT_CHARS)) r | _ \<Rightarrow> r);
                    r = (case js_field raw ''content'' of JStr s \<Rightarrow> omap_set ''content'' (JStr (content_text env (prefix ''text_'' kind) s MAX_TEXT_CHARS)) r | _ \<Rightarrow> r);
                    r = (if js_field raw ''reason'' \<in> JStr ` {''stop'', ''length'', ''toolUse'', ''deferred'', ''aborted'', ''error''}
                         then omap_set ''reason'' (js_field raw ''reason'') r else r);
                    call = serializeToolCall env (js_field raw ''toolCall'')
                in Some (put ''toolCall'' (map_option JObj call) r))
      | _ \<Rightarrow> None)"

section \<open>Events\<close>

definition FILE_TOOLS :: "string list" where
  "FILE_TOOLS = [''read'', ''write'', ''edit'']"

definition path_name :: "string \<Rightarrow> string" where
  "path_name path = rev (takeWhile (\<lambda>c. c \<noteq> CHR 0x5C \<and> c \<noteq> CHR ''/'') (rev path))"

definition toolFileName :: "event_env \<Rightarrow> jsval \<Rightarrow> string option" where
  "toolFileName env raw =
     (if js_field raw ''toolName'' \<notin> JStr ` set FILE_TOOLS then None
      else (case js_field (js_field raw ''args'') ''path'' of
        JStr path \<Rightarrow>
          (let name = path_name path
           in if name = [] \<or> name = ''.'' \<or> name = ''..'' \<or> length name > MAX_FILE_NAME_CHARS then None
              else if list_ex is_control name \<or> \<not> isSafeArtifactFilename name then None
              else if safeText env name MAX_FILE_NAME_CHARS = name then Some name else None)
      | _ \<Rightarrow> None))"

definition put_kind :: "jsval \<Rightarrow> fields \<Rightarrow> fields" where
  "put_kind raw r = put ''tool_kind'' (map_option JStr (classifyToolKind (js_field raw ''toolName''))) r"

definition serializeToolEvent :: "event_env \<Rightarrow> string \<Rightarrow> jsval \<Rightarrow> fields \<Rightarrow> fields" where
  "serializeToolEvent env kind raw r =
     (let r = put_kind raw (copyToolName env (copyIdentifier env raw ''toolCallId'' r) raw);
          r = (if kind \<noteq> ''tool_execution_end'' \<and> has_own raw ''args'' then omap_set ''args'' (safeToolValue env (js_field raw ''args'')) r else r);
          r = (if kind \<noteq> ''tool_execution_end'' then put ''file_name'' (map_option JStr (toolFileName env raw)) r else r);
          r = (if kind = ''tool_execution_update'' \<and> has_own raw ''partialResult''
               then omap_set ''partialResult'' (safeToolResult env (js_field raw ''partialResult'')) r else r)
      in if kind = ''tool_execution_end''
         then copyBoolean raw ''isError''
                (if has_own raw ''result'' then omap_set ''result'' (safeToolResult env (js_field raw ''result'')) r else r)
         else r)"

definition bodyBytes :: "event_env \<Rightarrow> jsval \<Rightarrow> nat" where
  "bodyBytes env message =
     (if js_field message ''role'' \<notin> JStr ` {''user'', ''assistant''} then 0
      else (case js_field message ''content'' of
        JStr s \<Rightarrow> ev_bytes env (JStr s)
      | JArr parts \<Rightarrow> sum_list (map (\<lambda>p. case is_text_part p of Some s \<Rightarrow> ev_bytes env (JStr s) | None \<Rightarrow> 0) parts)
      | _ \<Rightarrow> 0))"

definition MINIMAL_KEYS :: "string list" where
  "MINIMAL_KEYS = [''conversation_id'', ''source_ref'', ''tool_call_id'', ''source_employee_id'', ''source_employee_display_name'', ''source_role'', ''tool_kind'',
     ''toolName'', ''toolCallId'', ''isError'']"

definition defined_member :: "fields \<Rightarrow> string \<Rightarrow> jsval option" where
  "defined_member r k = (case omap_get r k of Some v \<Rightarrow> if v = JUndef then None else Some v | None \<Rightarrow> None)"

definition minimalEvent :: "fields \<Rightarrow> fields" where
  "minimalEvent v = fold (\<lambda>key. put key (defined_member v key)) MINIMAL_KEYS [(''type'', js_field (JObj v) ''type'')]"

definition event_fits :: "event_env \<Rightarrow> fields \<Rightarrow> bool" where
  "event_fits env v \<longleftrightarrow> ev_bytes env (JObj v) \<le> MAX_EVENT_BYTES + bodyBytes env (js_field (JObj v) ''message'')"

definition boundEvent :: "event_env \<Rightarrow> fields \<Rightarrow> fields" where
  "boundEvent env v = (if event_fits env v then v else minimalEvent v)"

definition serialize_failure :: "event_env \<Rightarrow> jsval \<Rightarrow> fields \<Rightarrow> fields" where
  "serialize_failure env raw r = copyFailure env raw ''error_message'' (copyIdentifier env raw ''error_code'' (copyBoolean raw ''failed'' r))"

definition serialize_approval :: "event_env \<Rightarrow> jsval \<Rightarrow> fields \<Rightarrow> fields" where
  "serialize_approval env raw r =
     (let r = fold (copyIdentifier env raw) [''toolCallId'', ''approvalId'', ''approval_id'', ''approvalBatchId'', ''argsHash''] r;
          r = copyText env raw ''expiresAt'' (copyInteger raw ''decisionRevision'' r);
          r = copyText env raw ''riskLevel'' (copyApprovalSummary env raw r);
          r = put_kind raw (copyToolName env r raw)
      in if has_own raw ''args'' then omap_set ''args'' (safeToolValue env (js_field raw ''args'')) r else r)"

definition serialize_body :: "event_env \<Rightarrow> string \<Rightarrow> jsval \<Rightarrow> fields \<Rightarrow> fields" where
  "serialize_body env kind raw r =
     (if kind \<in> set TOOL_EVENTS then serializeToolEvent env kind raw r
      else if kind = ''message_update''
      then put ''assistantMessageEvent'' (map_option JObj (serializeAssistantMessageEvent env (js_field raw ''assistantMessageEvent'')))
             (put ''message'' (map_option JObj (serializeMessage env (js_field raw ''message'') MAX_TEXT_CHARS)) r)
      else if kind = ''message_end''
      then put ''message'' (map_option JObj (serializeMessage env (js_field raw ''message'') MAX_MESSAGE_TEXT_CHARS)) r
      else if kind = ''agent_end''
      then serialize_failure env raw
             (case js_field raw ''messages'' of
                JArr ms \<Rightarrow> omap_set ''message_count'' (JNum (Fin (of_nat (min (length ms) MAX_ARRAY_ITEMS)))) r
              | _ \<Rightarrow> r)
      else if kind = ''agent_settled'' then serialize_failure env raw r
      else if kind = ''auto_retry_start''
      then copyText env raw ''errorMessage'' (copyInteger raw ''delayMs'' (copyInteger raw ''maxAttempts'' (copyInteger raw ''attempt'' r)))
      else if kind = ''auto_retry_end'' then copyText env raw ''finalError'' (copyInteger raw ''attempt'' (copyBoolean raw ''success'' r))
      else if kind = ''compaction_start'' then copyReason raw r
      else if kind = ''compaction_end''
      then copyText env raw ''errorMessage'' (copyBoolean raw ''willRetry'' (copyBoolean raw ''aborted'' (copyReason raw r)))
      else if kind = ''approval_required'' then serialize_approval env raw r
      else r)"

definition serializePiEvent :: "event_env \<Rightarrow> jsval \<Rightarrow> jsval \<Rightarrow> fields option" where
  "serializePiEvent env raw extra =
     (case js_field raw ''type'' of
        JStr kind \<Rightarrow>
          if kind \<notin> set ALLOWED_EVENTS then None
          else Some (boundEvent env (serialize_body env kind raw (serializeMetadata env extra [(''type'', JStr kind)])))
      | _ \<Rightarrow> None)"

section \<open>Stored entries\<close>

definition serializeReplyFile :: "event_env \<Rightarrow> jsval \<Rightarrow> fields option" where
  "serializeReplyFile env raw =
     (case (js_integer (js_field raw ''chars''), identifier_member env (js_field raw ''id'') MAX_IDENTIFIER_CHARS, js_field raw ''filename'') of
        (Some n, Some ident, JStr name) \<Rightarrow>
          if n < 0 \<or> n > MAX_SAFE_INTEGER \<or> name = [] then None
          else Some [(''id'', ident), (''filename'', JStr (safeMessageText env name 255)),
            (''path'', case js_field raw ''path'' of JStr p \<Rightarrow> if p = [] then JNull else JStr (safeMessageText env p 1024) | _ \<Rightarrow> JNull),
            (''chars'', js_field raw ''chars'')]
      | _ \<Rightarrow> None)"

definition ENTRY_REF :: regex where
  "ENTRY_REF = seqs [Bos, lit ''entry_v1_'', rep 43 (Cls (\<lambda>c. is_alnum c \<or> c = CHR ''_'' \<or> c = CHR ''-'')), Eos]"

definition entry_ref_member :: "jsval \<Rightarrow> jsval option" where
  "entry_ref_member v = (case v of JStr s \<Rightarrow> if regex_test ENTRY_REF s then Some v else None | _ \<Rightarrow> None)"

definition entry_timestamp :: "event_env \<Rightarrow> jsval \<Rightarrow> jsval option" where
  "entry_timestamp env v =
     (case v of
        JStr s \<Rightarrow> (case ev_date env s of Some t \<Rightarrow> Some (JStr (ev_iso env t)) | None \<Rightarrow> None)
      | _ \<Rightarrow> if is_finite_number v then Some v else None)"

definition ENTRY_IDENTIFIERS :: "string list" where
  "ENTRY_IDENTIFIERS = [''work_id'', ''participant_employee_id'', ''logical_message_id'', ''source_type'', ''source_id'', ''source_display_name'',
     ''source_employee_id'', ''source_employee_display_name'', ''source_role'']"

text \<open>\<open>key.includes("display_name")\<close>\<close>

definition names_display :: "string \<Rightarrow> bool" where
  "names_display key \<longleftrightarrow> sublist ''display_name'' key"

definition defined_value :: "jsval \<Rightarrow> jsval option" where
  "defined_value v = (if v = JUndef then None else Some v)"

definition entry_identity :: "event_env \<Rightarrow> jsval \<Rightarrow> fields \<Rightarrow> fields" where
  "entry_identity env raw r =
     (let r = fold (\<lambda>key. put key (identifier_member env (js_field raw key) (if names_display key then MAX_SOURCE_NAME_CHARS else MAX_IDENTIFIER_CHARS)))
                ENTRY_IDENTIFIERS r;
          r = (if js_field raw ''source_type'' \<in> JStr ` {''human'', ''employee''} then omap_set ''source_type'' (js_field raw ''source_type'') r else r)
      in if js_field raw ''source_role'' \<in> JStr ` set SOURCE_ROLES then omap_set ''source_role'' (js_field raw ''source_role'') r else r)"

definition entry_details :: "event_env \<Rightarrow> jsval \<Rightarrow> fields \<Rightarrow> fields" where
  "entry_details env raw r =
     (let r = (if js_field raw ''type'' = JStr ''custom'' \<and> js_field raw ''customType'' = JStr CONTEXT_RESET_ENTRY_TYPE
               then put ''data'' (defined_value (boundedValue env (js_field raw ''data'') [] 0)) (omap_set ''customType'' (JStr CONTEXT_RESET_ENTRY_TYPE) r)
               else r);
          r = fold (copyText env raw) [''summary'', ''firstKeptEntryId'', ''reason''] r;
          r = (case js_field raw ''tokensBefore'' of JNum (Fin q) \<Rightarrow> omap_set ''tokensBefore'' (JNum (Fin (of_int (max 0 \<lfloor>q\<rfloor>)))) r | _ \<Rightarrow> r)
      in put ''details'' (defined_value (boundedValue env (js_field raw ''details'') [] 0)) r)"

definition truthy_member :: "fields \<Rightarrow> string \<Rightarrow> jsval option" where
  "truthy_member r k = (case omap_get r k of Some v \<Rightarrow> if js_truthy v then Some v else None | None \<Rightarrow> None)"

definition minimal_entry :: "fields \<Rightarrow> fields" where
  "minimal_entry v =
     put ''source_employee_id'' (truthy_member v ''source_employee_id'')
      (put ''timestamp'' (defined_member v ''timestamp'')
       (put ''participant_employee_id'' (truthy_member v ''participant_employee_id'')
        (put ''entry_ref'' (truthy_member v ''entry_ref'')
         (put ''work_id'' (truthy_member v ''work_id'')
           [(''id'', js_field (JObj v) ''id''), (''type'', js_field (JObj v) ''type'')]))))"

definition boundEntry :: "event_env \<Rightarrow> fields \<Rightarrow> fields" where
  "boundEntry env v = (if event_fits env v then v else minimal_entry v)"

definition optional_text :: "string option \<Rightarrow> jsval" where
  "optional_text t = (case t of Some s \<Rightarrow> JStr s | None \<Rightarrow> JUndef)"

definition serializePiEntry :: "event_env \<Rightarrow> jsval \<Rightarrow> fields option" where
  "serializePiEntry env raw =
     (case (js_field raw ''id'', js_field raw ''type'') of
        (JStr _, JStr _) \<Rightarrow>
          (let r = [(''id'', optional_text (boundedIdentifier env (js_field raw ''id'') MAX_IDENTIFIER_CHARS)),
                    (''type'', optional_text (boundedIdentifier env (js_field raw ''type'') MAX_IDENTIFIER_CHARS))];
               r = (case js_field raw ''parentId'' of JStr s \<Rightarrow> omap_set ''parentId'' (JStr s) r | JNull \<Rightarrow> omap_set ''parentId'' JNull r | _ \<Rightarrow> r);
               r = put ''timestamp'' (entry_timestamp env (js_field raw ''timestamp'')) r;
               r = put ''message'' (map_option JObj (serializeMessage env (js_field raw ''message'') MAX_MESSAGE_TEXT_CHARS)) r;
               r = put ''reply_file'' (map_option JObj (serializeReplyFile env (js_field raw ''reply_file''))) r;
               r = put ''entry_ref'' (entry_ref_member (js_field raw ''entry_ref'')) r
           in Some (boundEntry env (entry_details env raw (entry_identity env raw r))))
      | _ \<Rightarrow> None)"

section \<open>What leaves the process\<close>

text \<open>A value with no blocked member name at any depth, at most \<open>n\<close> levels deep, whose texts all went
  through \<open>safeText\<close>.\<close>

fun clean_value :: "event_env \<Rightarrow> nat \<Rightarrow> jsval \<Rightarrow> bool" where
  "clean_value env n (JStr s) \<longleftrightarrow> s = ev_omitted env \<or> (\<exists>t. s = safeText env t MAX_TEXT_CHARS)"
| "clean_value env 0 (JArr vs) \<longleftrightarrow> False"
| "clean_value env (Suc n) (JArr vs) \<longleftrightarrow> length vs \<le> 32 \<and> (\<forall>w \<in> set vs. clean_value env n w)"
| "clean_value env 0 (JObj fs) \<longleftrightarrow> False"
| "clean_value env (Suc n) (JObj fs) \<longleftrightarrow> length fs \<le> 24 \<and> (\<forall>e \<in> set fs. \<not> blocked_key (fst e) \<and> snd e \<noteq> JUndef \<and> clean_value env n (snd e))"
| "clean_value env n _ \<longleftrightarrow> True"

lemma length_boundText: "length (ev_ellipsis env) \<le> 1 \<Longrightarrow> n > 0 \<Longrightarrow> length (boundText env s n) \<le> n"
  by (auto simp: boundText_def)

lemma boundedValue_blocked: "boundedValue env v key depth \<noteq> JUndef \<Longrightarrow> \<not> blocked_key key"
  by (subst (asm) boundedValue.simps) (simp split: if_splits)

lemma length_take_filter: "length (filter P (map f (take n xs))) \<le> n"
  by (metis length_filter_le length_map length_take min.boundedE order.trans min.cobounded2)

lemma bounded_items_clean:
  assumes "\<And>w. clean_value env n (f w)"
  shows "clean_value env (Suc n) (JArr (filter (\<lambda>w. w \<noteq> JUndef) (map f (take MAX_ARRAY_ITEMS vs))))"
  using assms length_take_filter [of "\<lambda>w. w \<noteq> JUndef" f MAX_ARRAY_ITEMS vs] by (auto simp: MAX_ARRAY_ITEMS_def)

lemma bounded_members_clean:
  assumes "\<And>k w. clean_value env n (f w k)" and "\<And>k w. f w k \<noteq> JUndef \<Longrightarrow> \<not> blocked_key k"
  shows "clean_value env (Suc n) (JObj (filter (\<lambda>e. snd e \<noteq> JUndef) (map (\<lambda>(k, w). (k, f w k)) (take MAX_OBJECT_KEYS fs))))"
  using assms length_take_filter [of "\<lambda>e. snd e \<noteq> JUndef" "\<lambda>(k, w). (k, f w k)" MAX_OBJECT_KEYS fs] by (auto simp: MAX_OBJECT_KEYS_def)

lemma boundedValue_clean: "depth + n = 4 \<Longrightarrow> clean_value env n (boundedValue env v key depth)"
proof (induction n arbitrary: v key depth)
  case 0
  then show ?case
    by (subst boundedValue.simps) (auto simp: MAX_JSON_DEPTH_def split: jsval.split)
next
  case (Suc n)
  then have below: "depth < MAX_JSON_DEPTH" and deeper: "clean_value env n (boundedValue env w k (Suc depth))" for w k
    by (simp_all add: MAX_JSON_DEPTH_def)
  show ?case
    using below by (subst boundedValue.simps)
      (auto simp del: clean_value.simps(3,5) intro!: bounded_items_clean [OF deeper] bounded_members_clean [OF deeper boundedValue_blocked] split: jsval.split)
qed

lemma safeToolValue_clean: "clean_value env 4 (safeToolValue env v)" "clean_value env 4 (safeToolResult env v)"
  by (simp_all add: safeToolResult_def safeToolValue_def boundedValue_clean)

definition PAYLOAD_MEMBERS :: "string list" where
  "PAYLOAD_MEMBERS = [''args'', ''partialResult'', ''result'']"

definition EVENT_MEMBERS :: "string list" where
  "EVENT_MEMBERS = [''type'', ''toolCallId'', ''toolName'', ''tool_kind'', ''file_name'', ''isError'', ''message'', ''assistantMessageEvent'', ''message_count'',
     ''failed'', ''error_code'', ''error_message'', ''attempt'', ''maxAttempts'', ''delayMs'', ''errorMessage'', ''success'', ''finalError'', ''reason'', ''aborted'',
     ''willRetry'', ''approvalId'', ''approval_id'', ''approvalBatchId'', ''argsHash'', ''decisionRevision'', ''expiresAt'', ''summary'', ''riskLevel'', ''source_role'']
     @ METADATA_KEYS @ PAYLOAD_MEMBERS"

text \<open>A file name that may be shown: one plain component which redaction leaves as it is.\<close>

definition shown_file_name :: "event_env \<Rightarrow> string \<Rightarrow> bool" where
  "shown_file_name env name \<longleftrightarrow> name \<noteq> [] \<and> length name \<le> 255 \<and> CHR ''/'' \<notin> set name \<and> CHR 0x5C \<notin> set name
     \<and> isSafeArtifactFilename name \<and> safeText env name 255 = name"

definition safe_fields :: "event_env \<Rightarrow> string \<Rightarrow> fields \<Rightarrow> bool" where
  "safe_fields env t r \<longleftrightarrow> set (omap_keys r) \<subseteq> set EVENT_MEMBERS
     \<and> (\<forall>k \<in> set PAYLOAD_MEMBERS. \<forall>v. omap_get r k = Some v \<longrightarrow> clean_value env 4 v)
     \<and> (\<forall>v. omap_get r ''file_name'' = Some v \<longrightarrow> (\<exists>name. v = JStr name \<and> shown_file_name env name))
     \<and> omap_get r ''type'' = Some (JStr t)"

definition plain_member :: "string \<Rightarrow> bool" where
  "plain_member k \<longleftrightarrow> k \<in> set EVENT_MEMBERS \<and> k \<notin> set PAYLOAD_MEMBERS \<and> k \<noteq> ''type'' \<and> k \<noteq> ''file_name''"

lemma safe_fields_plain: "safe_fields env t r \<Longrightarrow> plain_member k \<Longrightarrow> safe_fields env t (omap_set k v r)"
  by (auto simp: safe_fields_def plain_member_def)

lemma safe_fields_put: "safe_fields env t r \<Longrightarrow> plain_member k \<Longrightarrow> safe_fields env t (put k v r)"
  by (simp add: put_def safe_fields_plain split: option.split)

lemma plain_members:
  "list_all plain_member [''toolCallId'', ''toolName'', ''tool_kind'', ''isError'', ''message'', ''assistantMessageEvent'', ''message_count'']"
  "list_all plain_member [''failed'', ''error_code'', ''error_message'', ''attempt'', ''maxAttempts'', ''delayMs'', ''errorMessage'', ''success'', ''finalError'', ''reason'']"
  "list_all plain_member [''aborted'', ''willRetry'', ''approvalId'', ''approval_id'', ''approvalBatchId'', ''argsHash'', ''decisionRevision'', ''expiresAt'', ''summary'']"
  "list_all plain_member [''riskLevel'', ''source_role'', ''conversation_id'', ''source_ref'', ''tool_call_id'', ''source_employee_id'', ''source_employee_display_name'']"
  by (simp_all add: plain_member_def EVENT_MEMBERS_def PAYLOAD_MEMBERS_def METADATA_KEYS_def)

lemmas plain_keys = plain_members [simplified]

lemma safe_fields_copy:
  assumes "safe_fields env t r"
  shows "plain_member k \<Longrightarrow> safe_fields env t (copyIdentifier env raw k r)"
    and "plain_member k \<Longrightarrow> safe_fields env t (copyText env raw k r)"
    and "plain_member k \<Longrightarrow> safe_fields env t (copyFailure env raw k r)"
    and "plain_member k \<Longrightarrow> safe_fields env t (copyInteger raw k r)"
    and "plain_member k \<Longrightarrow> safe_fields env t (copyBoolean raw k r)"
    and "safe_fields env t (copyReason raw r)"
    and "safe_fields env t (copyToolName env r raw)"
    and "safe_fields env t (copyApprovalSummary env raw r)"
    and "safe_fields env t (put_kind raw r)"
  using assms plain_keys
  by (auto simp: copyIdentifier_def copyText_def copyFailure_def copyInteger_def copyBoolean_def copyReason_def copyToolName_def copyApprovalSummary_def put_kind_def
      Let_def intro: safe_fields_plain safe_fields_put split: jsval.split option.split)

lemma safe_fields_payload: "safe_fields env t r \<Longrightarrow> k \<in> set PAYLOAD_MEMBERS \<Longrightarrow> clean_value env 4 v \<Longrightarrow> safe_fields env t (omap_set k v r)"
  by (auto simp: safe_fields_def EVENT_MEMBERS_def PAYLOAD_MEMBERS_def)

lemma payload_keys: "''args'' \<in> set PAYLOAD_MEMBERS" "''partialResult'' \<in> set PAYLOAD_MEMBERS" "''result'' \<in> set PAYLOAD_MEMBERS"
  by (simp_all add: PAYLOAD_MEMBERS_def)

lemma path_name_plain: "CHR ''/'' \<notin> set (path_name path)" "CHR 0x5C \<notin> set (path_name path)"
  by (auto simp: path_name_def dest: set_takeWhileD)

lemma toolFileName_shown: "toolFileName env raw = Some name \<Longrightarrow> shown_file_name env name"
  unfolding toolFileName_def Let_def
  by (auto simp: shown_file_name_def path_name_plain MAX_FILE_NAME_CHARS_def split: if_split_asm jsval.split_asm)

lemma safe_fields_file:
  "safe_fields env t r \<Longrightarrow> safe_fields env t (put ''file_name'' (map_option JStr (toolFileName env raw)) r)"
  using toolFileName_shown [of env raw]
  by (cases "toolFileName env raw") (auto simp: put_def safe_fields_def EVENT_MEMBERS_def PAYLOAD_MEMBERS_def)

lemmas safe_fields_intros = safe_fields_file safe_fields_copy safe_fields_put safe_fields_plain safe_fields_payload plain_keys payload_keys safeToolValue_clean

lemma safe_tool_event: "safe_fields env t r \<Longrightarrow> safe_fields env t (serializeToolEvent env kind raw r)"
  by (simp add: serializeToolEvent_def Let_def safe_fields_intros)

lemma safe_approval: "safe_fields env t r \<Longrightarrow> safe_fields env t (serialize_approval env raw r)"
  by (simp add: serialize_approval_def Let_def safe_fields_intros)

lemma safe_metadata: "safe_fields env t r \<Longrightarrow> safe_fields env t (serializeMetadata env extra r)"
  by (simp add: serializeMetadata_def METADATA_KEYS_def Let_def safe_fields_intros)

lemma safe_body: "safe_fields env t r \<Longrightarrow> safe_fields env t (serialize_body env kind raw r)"
  by (simp add: serialize_body_def serialize_failure_def safe_tool_event safe_approval safe_fields_intros split: jsval.split)

lemma safe_seed: "safe_fields env t [(''type'', JStr t)]"
  by (simp add: safe_fields_def EVENT_MEMBERS_def PAYLOAD_MEMBERS_def omap_keys_def omap_get_def)

lemma safe_minimal:
  assumes "safe_fields env t r"
  shows "safe_fields env t (minimalEvent r)"
proof -
  have "js_field (JObj r) ''type'' = JStr t"
    using assms by (simp add: safe_fields_def omap_get_def)
  then show ?thesis
    by (simp add: minimalEvent_def MINIMAL_KEYS_def safe_seed safe_fields_intros)
qed

lemma keys_put: "set (omap_keys (put k v r)) \<subseteq> insert k (set (omap_keys r))"
  by (auto simp: put_def split: option.split)

lemma keys_minimal: "set (omap_keys (minimalEvent r)) \<subseteq> insert ''type'' (set MINIMAL_KEYS)"
proof -
  have "set (omap_keys (fold (\<lambda>k. put k (f k)) ks r0)) \<subseteq> set (omap_keys r0) \<union> set ks" for f ks and r0 :: fields
  proof (induction ks arbitrary: r0)
    case (Cons k ks)
    show ?case using Cons [of "put k (f k) r0"] keys_put [of k "f k" r0] by auto
  qed simp
  from this [of "defined_member r" MINIMAL_KEYS "[(''type'', js_field (JObj r) ''type'')]"] show ?thesis
    by (auto simp: minimalEvent_def omap_keys_def)
qed


definition demo_event_env :: event_env where
  "demo_event_env = \<lparr>ev_hidden = ''[hidden]'', ev_pathHidden = ''[path]'', ev_omitted = ''[omitted]'', ev_ellipsis = ''.'', ev_home = ''/home/u'',
     ev_parse = (\<lambda>s. None), ev_bytes = (\<lambda>v. 100), ev_date = (\<lambda>s. None), ev_iso = (\<lambda>t. [])\<rparr>"

definition demo_event :: jsval where
  "demo_event = JObj [(''type'', JStr ''tool_execution_start''), (''toolName'', JStr ''edit''), (''secret'', JNum (Fin 1)),
     (''args'', JObj [(''path'', JStr ''/w/b''), (''token'', JStr ''x''), (''n'', JNum (Fin 3))])]"

definition demo_event_fields :: fields where
  "demo_event_fields = [(''type'', JStr ''tool_execution_start''), (''toolName'', JStr ''edit''), (''args'', JObj [(''n'', JNum (Fin 3))]),
     (''file_name'', JStr ''b'')]"

lemmas event_patterns = blocked_key_def EVENT_SECRET_KEY_def UNSAFE_VALUE_KEY_def EVENT_INLINE_SECRET_def URL_PARAM_NAME_def URL_PARAM_VALUE_def EVENT_INLINE_PATH_def
  path_rest_def any_opt_def regex_test_def seqs_def alts_def lit_i_def chr_i_def chr_def opt_def plus_def char_in_def is_alnum_def is_digit_def js_space_def

lemmas redactions = safeText_def redactInlinePaths_def redactSecrets_def replace_with_def any_secret_def inline_path_def boundText_def

lemma demo_event_keys: "blocked_key ''path''" "blocked_key ''token''" "\<not> blocked_key ''n''" "\<not> blocked_key []"
  by (simp_all add: event_patterns)

lemma demo_redactions: "n \<ge> 4 \<Longrightarrow> safeText demo_event_env ''edit'' n = ''edit''" "n \<ge> 4 \<Longrightarrow> safeText demo_event_env ''b'' n = ''b''"
  by (simp_all add: redactions event_patterns)

lemma demo_name: "isSafeArtifactFilename ''b''"
  by (simp add: isSafeArtifactFilename_def basename_def js_lower_def hidden_name_def SENSITIVE_ARTIFACT_NAME_def name_break_def event_patterns)

lemma demo_args: "safeToolValue demo_event_env (JObj [(''path'', JStr ''/w/b''), (''token'', JStr ''x''), (''n'', JNum (Fin 3))]) = JObj [(''n'', JNum (Fin 3))]"
  by (simp add: safeToolValue_def boundedValue.simps demo_event_keys MAX_JSON_DEPTH_def MAX_OBJECT_KEYS_def)

lemma demo_event_serialized: "serializePiEvent demo_event_env demo_event (JObj []) = Some demo_event_fields"
proof -
  have "toolFileName demo_event_env demo_event = Some ''b''"
    by (simp add: toolFileName_def demo_event_def FILE_TOOLS_def path_name_def is_control_def MAX_FILE_NAME_CHARS_def demo_name demo_redactions)
  moreover have "identifier_member demo_event_env (JStr ''edit'') MAX_TOOL_NAME_CHARS = Some (JStr ''edit'')"
    by (simp add: identifier_member_def boundedIdentifier_def js_trim_def js_space_def demo_redactions MAX_TOOL_NAME_CHARS_def text_member_def)
  moreover have "identifier_member demo_event_env JUndef n = None" for n
    by (simp add: identifier_member_def boundedIdentifier_def text_member_def)
  moreover have "event_fits demo_event_env r" for r
    by (simp add: event_fits_def demo_event_env_def MAX_EVENT_BYTES_def)
  ultimately show ?thesis
    by (simp add: serializePiEvent_def demo_event_def ALLOWED_EVENTS_def boundEvent_def serialize_body_def TOOL_EVENTS_def serializeToolEvent_def
        serializeMetadata_def METADATA_KEYS_def SOURCE_ROLES_def copyIdentifier_def copyToolName_def put_kind_def classifyToolKind_def put_def has_own_def
        demo_args demo_event_fields_def Let_def)
qed


section \<open>History entries\<close>

lemma omap_get_put: "omap_get (put k v r) j = (if j = k \<and> v \<noteq> None then v else omap_get r j)"
  by (auto simp: put_def split: option.split)

lemma get_put_other: "j \<noteq> k \<Longrightarrow> omap_get (put k v r) j = omap_get r j"
  by (simp add: omap_get_put)

lemma get_copyText: "j \<noteq> k \<Longrightarrow> omap_get (copyText env raw k r) j = omap_get r j"
  by (simp add: copyText_def split: jsval.split)

lemma get_identity: "omap_get (entry_identity env raw r) ''entry_ref'' = omap_get r ''entry_ref''"
  by (simp add: entry_identity_def ENTRY_IDENTIFIERS_def Let_def get_put_other)

lemma get_details: "omap_get (entry_details env raw r) ''entry_ref'' = omap_get r ''entry_ref''"
  by (simp add: entry_details_def Let_def get_put_other get_copyText split: jsval.split jsnum.split)

lemma content_part_text:
  "js_field part ''type'' = JStr ''text'' \<Longrightarrow> js_field part ''text'' = JStr s \<Longrightarrow>
   content_part env True n part = [JObj ([(''type'', JStr ''text''), (''text'', JStr (boundText env (redactSecrets env s) n))]
      @ (if length (redactSecrets env s) > n then [(''truncated'', JBool True)] else []))]"
  by (simp add: content_part_def content_text_def safeMessageText_def)

lemma minimal_entry_ref: "omap_get v ''entry_ref'' = Some (JStr s) \<Longrightarrow> s \<noteq> [] \<Longrightarrow> omap_get (minimal_entry v) ''entry_ref'' = Some (JStr s)"
  by (simp add: minimal_entry_def get_put_other) (simp add: omap_get_put truthy_member_def)

lemma minimal_entry_keys:
  "set (omap_keys (minimal_entry v)) \<subseteq> {''id'', ''type'', ''work_id'', ''entry_ref'', ''participant_employee_id'', ''timestamp'', ''source_employee_id''}"
  unfolding minimal_entry_def by (intro order.trans [OF keys_put] insert_mono insert_subsetI) (auto simp: omap_keys_def)

lemma entry_ref_nonempty: "regex_test ENTRY_REF s \<Longrightarrow> s \<noteq> []"
  by (cases s) (auto simp: regex_test_def ENTRY_REF_def seqs_def lit_def chr_def)


definition demo_ref :: string where
  "demo_ref = ''entry_v1_aaaaaaaaaaaaaaaaaaaaaaaaaaaaaaaaaaaaaaaaaaa''"

definition demo_text_part :: jsval where
  "demo_text_part = JObj [(''type'', JStr ''text''), (''text'', JStr ''b'')]"

definition demo_history_entry :: jsval where
  "demo_history_entry = JObj [(''id'', JStr ''b''), (''type'', JStr ''b''), (''entry_ref'', JStr demo_ref)]"

lemma demo_ref_valid: "regex_test ENTRY_REF demo_ref"
  by (simp add: demo_ref_def regex_test_def ENTRY_REF_def seqs_def lit_def chr_def rep_def is_alnum_def numeral_eq_Suc)


end
