(* ===== verification/Projections.thy ===== *)
theory Projections
  imports Event_Boundary Approval_Policy
begin

text \<open>
  The employee, solution and snapshot projections of \<open>storage/sqlite.ts\<close> that a pull from the Manager
  replaces, and the local avatars kept in them.  A projection column holds the members its JSON text
  denotes.  The avatar directory maps the names of its regular files to their bytes; where a stored path
  that is not a plain name leads is a parameter, as are \<open>encodeURIComponent\<close> and random identifiers.
\<close>

record employee_row =
  pj_employee :: string
  pj_tenant :: string
  pj_member :: string
  pj_version :: string
  pj_json :: fields
  pj_revoked :: bool
  pj_synced :: string

record snapshot_row =
  fz_employee :: string
  fz_tenant :: string
  fz_member :: string
  fz_snapshotVersion :: string
  fz_version :: string
  fz_json :: fields
  fz_synced :: string

record solution_row =
  so_id :: string
  so_tenant :: string
  so_member :: string
  so_version :: string
  so_json :: fields
  so_synced :: string

record projections =
  pv_experts :: "employee_row list"
  pv_solutions :: "solution_row list"
  pv_snapshots :: "snapshot_row list"
  pv_avatars :: "(string, nat list) omap"

datatype avatar_error = PathEscaped | PathUnreadable

record avatar_env =
  va_elsewhere :: "string \<Rightarrow> avatar_error + string option"
  va_encode :: "string \<Rightarrow> string"

section \<open>Members\<close>

abbreviation member_of :: "fields \<Rightarrow> string \<Rightarrow> jsval" where
  "member_of fs k \<equiv> js_field (JObj fs) k"

definition text_field :: "fields \<Rightarrow> string \<Rightarrow> string" where
  "text_field fs k = (case member_of fs k of JStr s \<Rightarrow> s | _ \<Rightarrow> [])"

definition text_option :: "fields \<Rightarrow> string \<Rightarrow> string option" where
  "text_option fs k = (case member_of fs k of JStr s \<Rightarrow> Some s | _ \<Rightarrow> None)"

text \<open>\<open>{ ...a, ...b }\<close>, and the members \<open>JSON.stringify\<close> writes.\<close>

definition spread :: "fields \<Rightarrow> fields \<Rightarrow> fields" where
  "spread a b = fold (\<lambda>e. omap_set (fst e) (snd e)) b a"

definition json_members :: "fields \<Rightarrow> fields" where
  "json_members fs = filter (\<lambda>e. member_of fs (fst e) \<noteq> JUndef) fs"

text \<open>\<open>...(x ? { k: x } : {})\<close>\<close>

definition given_text :: "string \<Rightarrow> string \<Rightarrow> fields" where
  "given_text k s = (if s = [] then [] else [(k, JStr s)])"

section \<open>Avatar members\<close>

definition LOCAL_AVATAR_FIELDS :: "string list" where
  "LOCAL_AVATAR_FIELDS = [''local_avatar_path'', ''local_avatar_mime_type'', ''local_avatar_version'', ''local_avatar_url'']"

definition avatarSyncVersion :: "fields \<Rightarrow> string" where
  "avatarSyncVersion v =
     (if text_field v ''avatar_sync_version'' \<noteq> [] then text_field v ''avatar_sync_version''
      else if text_field v ''version'' \<noteq> []
      then text_field v ''version'' @ '':avatar-'' @ int_text (nullish (js_integer (member_of v ''avatar_version'')) 0)
      else [])"

definition text_or_null :: "jsval \<Rightarrow> jsval" where
  "text_or_null v = (case v of JStr s \<Rightarrow> JStr s | _ \<Rightarrow> JNull)"

definition manager_avatar_url :: "fields \<Rightarrow> fields \<Rightarrow> jsval" where
  "manager_avatar_url existing incoming =
     (if has_own (JObj incoming) ''avatar_url'' then text_or_null (member_of incoming ''avatar_url'')
      else text_or_null (member_of existing ''manager_avatar_url''))"

definition manager_avatar_version :: "fields \<Rightarrow> fields \<Rightarrow> jsval" where
  "manager_avatar_version existing incoming =
     (if js_integer (member_of incoming ''avatar_version'') \<noteq> None then member_of incoming ''avatar_version''
      else if js_integer (member_of existing ''manager_avatar_version'') \<noteq> None then member_of existing ''manager_avatar_version''
      else JNum (Fin 0))"

definition local_override :: "fields \<Rightarrow> bool" where
  "local_override v \<longleftrightarrow> text_field v ''local_avatar_path'' \<noteq> [] \<and> text_field v ''local_avatar_url'' \<noteq> []
     \<and> member_of v ''avatar_source'' = JStr ''local''"

definition mergeAvatarProjection :: "fields option \<Rightarrow> fields \<Rightarrow> fields" where
  "mergeAvatarProjection previous incoming =
     (let existing = nullish previous []; url = manager_avatar_url existing incoming;
          sync = (if avatarSyncVersion incoming \<noteq> [] then avatarSyncVersion incoming else avatarSyncVersion existing);
          merged = spread incoming [(''manager_avatar_url'', url), (''manager_avatar_version'', manager_avatar_version existing incoming),
                     (''avatar_sync_version'', JStr sync)];
          merged = fold omap_delete LOCAL_AVATAR_FIELDS merged
      in if local_override existing
         then spread merged [(''avatar_url'', member_of existing ''local_avatar_url''), (''avatar_source'', JStr ''local''),
                (''local_avatar_path'', member_of existing ''local_avatar_path''), (''local_avatar_url'', member_of existing ''local_avatar_url''),
                (''local_avatar_mime_type'', member_of existing ''local_avatar_mime_type''),
                (''local_avatar_version'', member_of existing ''local_avatar_version'')]
         else omap_set ''avatar_source'' (JStr (if js_truthy url then ''manager'' else ''template'')) merged)"

definition publicAvatarProjection :: "fields \<Rightarrow> fields" where
  "publicAvatarProjection v = fold omap_delete LOCAL_AVATAR_FIELDS v"

section \<open>Reads\<close>

definition text_le :: "string \<Rightarrow> string \<Rightarrow> bool" where
  "text_le a b \<longleftrightarrow> bytes_le (map of_char a) (map of_char b)"

definition scope_matches :: "string option \<Rightarrow> string \<Rightarrow> bool" where
  "scope_matches wanted value \<longleftrightarrow> wanted = None \<or> value = [] \<or> Some value = wanted"

definition expert_view :: "employee_row \<Rightarrow> fields" where
  "expert_view r =
     (let projection = publicAvatarProjection (pj_json r)
      in spread projection ([(''tenant_id'', JStr (pj_tenant r))] @ given_text ''member_id'' (pj_member r)
           @ [(''revoked'', JBool (pj_revoked r \<or> member_of projection ''revoked'' = JBool True))]))"

definition listed_experts :: "string option \<Rightarrow> string option \<Rightarrow> bool \<Rightarrow> projections \<Rightarrow> employee_row list" where
  "listed_experts tenant member includeRevoked s =
     sort_by (\<lambda>a b. text_le (pj_employee a) (pj_employee b))
       (filter (\<lambda>r. (includeRevoked \<or> \<not> pj_revoked r) \<and> (tenant = None \<or> Some (pj_tenant r) = tenant) \<and> scope_matches member (pj_member r)) (pv_experts s))"

definition listLoadedExperts :: "string option \<Rightarrow> string option \<Rightarrow> bool \<Rightarrow> projections \<Rightarrow> fields list" where
  "listLoadedExperts tenant member includeRevoked s = map expert_view (listed_experts tenant member includeRevoked s)"

definition listed_solutions :: "string \<Rightarrow> string \<Rightarrow> projections \<Rightarrow> solution_row list" where
  "listed_solutions tenant member s = filter (\<lambda>r. so_tenant r = tenant \<and> (so_member r = [] \<or> so_member r = member)) (pv_solutions s)"

definition expert_version_text :: "fields \<Rightarrow> string" where
  "expert_version_text e =
     (let sync = (if text_field e ''avatar_sync_version'' \<noteq> [] then text_field e ''avatar_sync_version'' else text_field e ''version'')
      in if js_truthy (member_of e ''availability_reason'') then ''unavailable:'' @ sync else sync)"

definition knownProjectionVersions :: "string \<Rightarrow> string \<Rightarrow> projections \<Rightarrow> (string, string) omap" where
  "knownProjectionVersions tenant member s =
     fold (\<lambda>r. omap_set (so_id r) (so_version r)) (listed_solutions tenant member s)
       (fold (\<lambda>e. omap_set (text_field e ''employee_id'') (expert_version_text e)) (listLoadedExperts (Some tenant) (Some member) False s) [])"

definition snapshot_view :: "snapshot_row \<Rightarrow> fields" where
  "snapshot_view r = spread (publicAvatarProjection (fz_json r)) (given_text ''tenant_id'' (fz_tenant r) @ given_text ''member_id'' (fz_member r))"

definition listed_snapshots :: "string option \<Rightarrow> string option \<Rightarrow> projections \<Rightarrow> snapshot_row list" where
  "listed_snapshots tenant member s =
     sort_by (\<lambda>a b. text_le (fz_employee a) (fz_employee b))
       (filter (\<lambda>r. scope_matches tenant (fz_tenant r) \<and> scope_matches member (fz_member r)) (pv_snapshots s))"

definition listSnapshots :: "string option \<Rightarrow> string option \<Rightarrow> projections \<Rightarrow> fields list" where
  "listSnapshots tenant member s = map snapshot_view (listed_snapshots tenant member s)"

definition solution_view :: "solution_row \<Rightarrow> fields" where
  "solution_view r = spread (so_json r) (given_text ''tenant_id'' (so_tenant r) @ given_text ''member_id'' (so_member r))"

definition listSolutions :: "string option \<Rightarrow> string option \<Rightarrow> projections \<Rightarrow> fields list" where
  "listSolutions tenant member s =
     map solution_view (sort_by (\<lambda>a b. text_le (so_id a) (so_id b))
       (filter (\<lambda>r. scope_matches tenant (so_tenant r) \<and> scope_matches member (so_member r)) (pv_solutions s)))"

section \<open>A pull from the Manager\<close>

text \<open>\<open>INSERT ... ON CONFLICT DO UPDATE\<close>\<close>

definition upsert_row :: "('r \<Rightarrow> 'k) \<Rightarrow> 'r \<Rightarrow> 'r list \<Rightarrow> 'r list" where
  "upsert_row key r rows = (if key r \<in> key ` set rows then update_rows (\<lambda>q. key q = key r) (\<lambda>_. r) rows else rows @ [r])"

definition expert_key :: "employee_row \<Rightarrow> string \<times> string \<times> string" where
  "expert_key r = (pj_employee r, pj_tenant r, pj_member r)"

definition snapshot_key :: "snapshot_row \<Rightarrow> string \<times> string \<times> string" where
  "snapshot_key r = (fz_employee r, fz_tenant r, fz_member r)"

definition solution_key :: "solution_row \<Rightarrow> string \<times> string \<times> string" where
  "solution_key r = (so_id r, so_tenant r, so_member r)"

definition expert_json :: "string \<Rightarrow> string \<Rightarrow> string \<Rightarrow> projections \<Rightarrow> fields option" where
  "expert_json employee tenant member s = map_option pj_json (find (\<lambda>r. expert_key r = (employee, tenant, member)) (pv_experts s))"

definition snapshot_json :: "string \<Rightarrow> string \<Rightarrow> string \<Rightarrow> projections \<Rightarrow> fields option" where
  "snapshot_json employee tenant member s = map_option fz_json (find (\<lambda>r. snapshot_key r = (employee, tenant, member)) (pv_snapshots s))"

definition superseded :: "fields list \<Rightarrow> string list \<Rightarrow> string \<times> string \<Rightarrow> string list" where
  "superseded experts revokedIds own =
     map (\<lambda>e. text_field e ''employee_id'')
       (filter (\<lambda>e. text_option e ''tenant_id'' = Some (fst own) \<and> text_option e ''member_id'' = Some (snd own)) experts) @ revokedIds"

definition remove_legacy :: "string list \<Rightarrow> string \<Rightarrow> projections \<Rightarrow> projections" where
  "remove_legacy ids tenant s =
     s\<lparr>pv_experts := delete_rows (\<lambda>r. pj_employee r \<in> set ids \<and> pj_tenant r = tenant \<and> pj_member r = []) (pv_experts s),
       pv_snapshots := delete_rows (\<lambda>r. fz_employee r \<in> set ids \<and> fz_tenant r = tenant \<and> fz_member r = []) (pv_snapshots s)\<rparr>"

definition incoming_expert :: "string \<Rightarrow> fields \<Rightarrow> fields" where
  "incoming_expert now e =
     spread e ([(''tenant_id'', JStr (text_field e ''tenant_id''))] @ given_text ''member_id'' (text_field e ''member_id'')
       @ [(''synced_at'', if member_of e ''synced_at'' \<in> {JUndef, JNull} then JStr now else member_of e ''synced_at''), (''revoked'', JBool False)])"

definition expert_row :: "string \<Rightarrow> fields \<Rightarrow> projections \<Rightarrow> employee_row" where
  "expert_row now e s =
     (let employee = text_field e ''employee_id''; tenant = text_field e ''tenant_id''; member = text_field e ''member_id''
      in \<lparr>pj_employee = employee, pj_tenant = tenant, pj_member = member, pj_version = text_field e ''version'',
          pj_json = json_members (mergeAvatarProjection (expert_json employee tenant member s) (incoming_expert now e)), pj_revoked = False, pj_synced = now\<rparr>)"

definition upsert_expert :: "string \<Rightarrow> fields \<Rightarrow> projections \<Rightarrow> projections" where
  "upsert_expert now e s = s\<lparr>pv_experts := upsert_row expert_key (expert_row now e s) (pv_experts s)\<rparr>"

definition upsert_solution :: "string \<Rightarrow> fields \<Rightarrow> projections \<Rightarrow> projections" where
  "upsert_solution now v s =
     (let tenant = text_field v ''tenant_id''; member = text_field v ''member_id''
      in s\<lparr>pv_solutions := upsert_row solution_key
            \<lparr>so_id = text_field v ''solution_instance_id'', so_tenant = tenant, so_member = member, so_version = text_field v ''version'',
             so_json = json_members (spread v (given_text ''tenant_id'' tenant @ given_text ''member_id'' member)), so_synced = now\<rparr>
            (pv_solutions s)\<rparr>)"

definition upsert_snapshot :: "string \<Rightarrow> fields \<Rightarrow> projections \<Rightarrow> projections" where
  "upsert_snapshot now v s =
     (let employee = text_field v ''employee_id''; tenant = text_field v ''tenant_id''; member = text_field v ''member_id'';
          previous = (case snapshot_json employee tenant member s of Some j \<Rightarrow> Some j | None \<Rightarrow> expert_json employee tenant member s)
      in s\<lparr>pv_snapshots := upsert_row snapshot_key
            \<lparr>fz_employee = employee, fz_tenant = tenant, fz_member = member, fz_snapshotVersion = text_field v ''snapshot_version'',
             fz_version = text_field v ''version'',
             fz_json = json_members (mergeAvatarProjection previous (spread v (given_text ''tenant_id'' tenant @ given_text ''member_id'' member))),
             fz_synced = now\<rparr>
            (pv_snapshots s)\<rparr>)"

definition in_scope :: "(string \<times> string) option \<Rightarrow> string \<Rightarrow> string \<Rightarrow> bool" where
  "in_scope own tenant member = (case own of None \<Rightarrow> True | Some (t, m) \<Rightarrow> tenant = t \<and> (member = m \<or> member = []))"

definition revoke_id :: "(string \<times> string) option \<Rightarrow> string \<Rightarrow> string \<Rightarrow> projections \<Rightarrow> projections" where
  "revoke_id own now i s =
     s\<lparr>pv_experts := update_rows (\<lambda>r. pj_employee r = i \<and> in_scope own (pj_tenant r) (pj_member r)) (\<lambda>r. r\<lparr>pj_revoked := True, pj_synced := now\<rparr>) (pv_experts s),
       pv_snapshots := delete_rows (\<lambda>r. fz_employee r = i \<and> in_scope own (fz_tenant r) (fz_member r)) (pv_snapshots s),
       pv_solutions := delete_rows (\<lambda>r. so_id r = i \<and> in_scope own (so_tenant r) (so_member r)) (pv_solutions s)\<rparr>"

definition replaceProjections ::
  "fields list \<Rightarrow> fields list \<Rightarrow> fields list \<Rightarrow> string list \<Rightarrow> (string \<times> string) option \<Rightarrow> string \<Rightarrow> projections \<Rightarrow> (nat \<times> nat) \<times> projections" where
  "replaceProjections experts solutions snapshots revokedIds own now s =
     (let s = (case own of None \<Rightarrow> s | Some o' \<Rightarrow> remove_legacy (superseded experts revokedIds o') (fst o') s);
          s = fold (upsert_expert now) experts s;
          s = fold (upsert_solution now) solutions s;
          s = fold (upsert_snapshot now) snapshots s;
          s = fold (revoke_id own now) revokedIds s
      in ((length experts + length solutions + length snapshots, length revokedIds), s))"

section \<open>Local avatars\<close>

definition IMAGE_MIMES :: "string list" where
  "IMAGE_MIMES = [''image/gif'', ''image/jpeg'', ''image/png'', ''image/webp'']"

definition MAX_LOCAL_FILE_BYTES :: nat where
  "MAX_LOCAL_FILE_BYTES = 5 * 1024 * 1024"

definition plain_name :: "string \<Rightarrow> bool" where
  "plain_name p \<longleftrightarrow> p \<noteq> [] \<and> p \<noteq> ''.'' \<and> p \<noteq> ''..'' \<and> CHR ''/'' \<notin> set p"

definition managedAvatarPath :: "avatar_env \<Rightarrow> projections \<Rightarrow> string \<Rightarrow> avatar_error + string option" where
  "managedAvatarPath env s p =
     (if plain_name p then Inr (if omap_get (pv_avatars s) p = None then None else Some p) else va_elsewhere env p)"

definition active_row :: "string \<Rightarrow> string \<Rightarrow> string \<Rightarrow> employee_row \<Rightarrow> bool" where
  "active_row tenant member employee r \<longleftrightarrow> expert_key r = (employee, tenant, member) \<and> \<not> pj_revoked r"

definition avatar_members :: "string \<Rightarrow> string \<Rightarrow> string \<Rightarrow> int \<Rightarrow> fields" where
  "avatar_members url path mime version =
     [(''avatar_url'', JStr url), (''avatar_source'', JStr ''local''), (''local_avatar_url'', JStr url), (''local_avatar_path'', JStr path),
      (''local_avatar_mime_type'', JStr mime), (''local_avatar_version'', JNum (Fin (of_int version)))]"

definition drop_avatar :: "avatar_env \<Rightarrow> jsval \<Rightarrow> string \<Rightarrow> projections \<Rightarrow> projections" where
  "drop_avatar env previous path s =
     (case previous of
        JStr p \<Rightarrow>
          if p = [] \<or> p = path then s
          else (case managedAvatarPath env s p of Inr (Some f) \<Rightarrow> s\<lparr>pv_avatars := omap_delete f (pv_avatars s)\<rparr> | _ \<Rightarrow> s)
      | _ \<Rightarrow> s)"

definition avatar_content_url :: "avatar_env \<Rightarrow> string \<Rightarrow> string" where
  "avatar_content_url env employee = ''/api/agent/employees/'' @ va_encode env employee @ ''/avatar/content''"

text \<open>The file and the transaction that points both projections at it.\<close>

definition store_avatar ::
  "string \<Rightarrow> string \<Rightarrow> string \<Rightarrow> nat list \<Rightarrow> string \<Rightarrow> fields \<Rightarrow> employee_row \<Rightarrow> string \<Rightarrow> projections \<Rightarrow> projections" where
  "store_avatar tenant member employee data path members row now s =
     s\<lparr>pv_avatars := omap_set path data (pv_avatars s),
       pv_experts := update_rows (active_row tenant member employee)
         (\<lambda>r. r\<lparr>pj_json := spread (pj_json row) members, pj_synced := now\<rparr>) (pv_experts s),
       pv_snapshots := update_rows (\<lambda>r. snapshot_key r = (employee, tenant, member))
         (\<lambda>r. r\<lparr>fz_json := spread (fz_json r) members, fz_synced := now\<rparr>) (pv_snapshots s)\<rparr>"

text \<open>The value is the new version; \<open>None\<close> is the state \<open>not_found\<close>.\<close>

definition updateEmployeeAvatar ::
  "avatar_env \<Rightarrow> string \<Rightarrow> string \<Rightarrow> string \<Rightarrow> nat list \<Rightarrow> string \<Rightarrow> string \<Rightarrow> string \<Rightarrow> projections \<Rightarrow> int option \<times> projections" where
  "updateEmployeeAvatar env tenant member employee data mime uuid now s =
     (if mime \<notin> set IMAGE_MIMES \<or> \<not> hasImageSignature mime data \<or> data = [] \<or> length data > MAX_LOCAL_FILE_BYTES then (None, s)
      else (case find (active_row tenant member employee) (pv_experts s) of
        None \<Rightarrow> (None, s)
      | Some row \<Rightarrow>
          (let path = uuid @ ''.img'';
               version = (case js_integer (member_of (pj_json row) ''local_avatar_version'') of Some v \<Rightarrow> v + 1 | None \<Rightarrow> 1);
               members = avatar_members (avatar_content_url env employee) path mime version
           in (Some version, drop_avatar env (member_of (pj_json row) ''local_avatar_path'') path
                (store_avatar tenant member employee data path members row now s)))))"

definition readEmployeeAvatar :: "avatar_env \<Rightarrow> string \<Rightarrow> string \<Rightarrow> string \<Rightarrow> projections \<Rightarrow> avatar_error + (nat list \<times> string) option" where
  "readEmployeeAvatar env tenant member employee s =
     (case find (active_row tenant member employee) (pv_experts s) of
        None \<Rightarrow> Inr None
      | Some row \<Rightarrow>
          (case (member_of (pj_json row) ''local_avatar_path'', member_of (pj_json row) ''local_avatar_mime_type'') of
             (JStr p, JStr mime) \<Rightarrow>
               if mime \<notin> set IMAGE_MIMES then Inr None
               else (case managedAvatarPath env s p of
                 Inl e \<Rightarrow> Inl e
               | Inr None \<Rightarrow> Inr None
               | Inr (Some f) \<Rightarrow>
                   (case omap_get (pv_avatars s) f of
                      None \<Rightarrow> Inl PathUnreadable
                    | Some data \<Rightarrow> Inr (if hasImageSignature mime data then Some (data, mime) else None)))
           | _ \<Rightarrow> Inr None))"

definition avatar_reference :: "avatar_env \<Rightarrow> projections \<Rightarrow> fields \<Rightarrow> string list" where
  "avatar_reference env s fs =
     (case member_of fs ''local_avatar_path'' of
        JStr p \<Rightarrow> (case managedAvatarPath env s p of Inr (Some f) \<Rightarrow> [f] | _ \<Rightarrow> [])
      | _ \<Rightarrow> [])"

definition referenced_avatars :: "avatar_env \<Rightarrow> projections \<Rightarrow> string list" where
  "referenced_avatars env s = concat (map (avatar_reference env s) (map pj_json (pv_experts s) @ map fz_json (pv_snapshots s)))"

definition cleanupAvatarRoot :: "avatar_env \<Rightarrow> projections \<Rightarrow> projections" where
  "cleanupAvatarRoot env s =
     s\<lparr>pv_avatars := filter (\<lambda>e. fst e \<in> set (referenced_avatars env s) \<and> \<not> hidden_name (fst e)) (pv_avatars s)\<rparr>"

section \<open>Revocation\<close>

lemma map_of_omap_set [simp]: "map_of (omap_set k v m) = (map_of m)(k \<mapsto> v)"
  by (induction m) (auto simp: fun_eq_iff)

lemma map_of_omap_delete [simp]: "map_of (omap_delete k m) = (map_of m)(k := None)"
  by (induction m) (auto simp: omap_delete_def fun_eq_iff)

lemma map_of_filter_key: "map_of (filter (\<lambda>e. P (fst e)) fs) k = (if P k then map_of fs k else None)"
  by (induction fs) auto

lemma member_json: "member_of (json_members fs) k = member_of fs k"
  using map_of_filter_key [of "\<lambda>k. member_of fs k \<noteq> JUndef" fs k] by (simp add: json_members_def)

lemma set_fold_snapshots: "pv_experts (fold (upsert_snapshot now) xs s) = pv_experts s" "pv_avatars (fold (upsert_snapshot now) xs s) = pv_avatars s"
  by (induction xs arbitrary: s) (simp_all add: upsert_snapshot_def Let_def)

lemma set_fold_solutions: "pv_experts (fold (upsert_solution now) xs s) = pv_experts s" "pv_avatars (fold (upsert_solution now) xs s) = pv_avatars s"
  by (induction xs arbitrary: s) (simp_all add: upsert_solution_def Let_def)

lemma avatars_fold_experts: "pv_avatars (fold (upsert_expert now) xs s) = pv_avatars s"
  by (induction xs arbitrary: s) (simp_all add: upsert_expert_def Let_def)

lemma avatars_fold_revoke: "pv_avatars (fold (revoke_id own now) ids s) = pv_avatars s"
  by (induction ids arbitrary: s) (simp_all add: revoke_id_def)

text \<open>What no active row, snapshot or solution of \<open>i\<close> is left of after its revocation.\<close>

definition withdrawn :: "(string \<times> string) option \<Rightarrow> string \<Rightarrow> projections \<Rightarrow> bool" where
  "withdrawn own i s \<longleftrightarrow>
     (\<forall>r \<in> set (pv_experts s). pj_employee r = i \<and> in_scope own (pj_tenant r) (pj_member r) \<longrightarrow> pj_revoked r)
     \<and> (\<forall>r \<in> set (pv_snapshots s). fz_employee r = i \<longrightarrow> \<not> in_scope own (fz_tenant r) (fz_member r))
     \<and> (\<forall>r \<in> set (pv_solutions s). so_id r = i \<longrightarrow> \<not> in_scope own (so_tenant r) (so_member r))"

lemma revoke_withdraws: "withdrawn own i (revoke_id own now i s)"
  by (simp add: withdrawn_def revoke_id_def ball_update_rows) blast

lemma revoke_keeps_withdrawn: "withdrawn own i s \<Longrightarrow> withdrawn own i (revoke_id own now j s)"
  by (simp add: withdrawn_def revoke_id_def ball_update_rows)

lemma revoked_withdrawn: "i \<in> set ids \<Longrightarrow> withdrawn own i (fold (revoke_id own now) ids s)"
proof (induction ids arbitrary: s)
  case (Cons j ids)
  have "withdrawn own i s \<Longrightarrow> withdrawn own i (fold (revoke_id own now) ids s)" for s
    by (rule fold_preserves) (auto intro: revoke_keeps_withdrawn)
  with Cons revoke_withdraws show ?case by auto
qed simp


section \<open>Avatars across pulls\<close>

type_synonym avatar_log = "((string \<times> string \<times> string) \<times> string \<times> string \<times> nat list) list"

definition latest_upload :: "avatar_log \<Rightarrow> string \<times> string \<times> string \<Rightarrow> (string \<times> string \<times> nat list) option" where
  "latest_upload hist k = map_of hist k"

definition log_paths :: "avatar_log \<Rightarrow> string list" where
  "log_paths hist = map (\<lambda>e. fst (snd e)) hist"

text \<open>A row shows the upload stored at \<open>p\<close>.\<close>

definition shows_upload :: "string \<Rightarrow> string \<Rightarrow> fields \<Rightarrow> bool" where
  "shows_upload p mime fs \<longleftrightarrow> p \<noteq> [] \<and> local_override fs \<and> member_of fs ''local_avatar_path'' = JStr p \<and> member_of fs ''local_avatar_mime_type'' = JStr mime"

definition experts_ok :: "avatar_log \<Rightarrow> employee_row list \<Rightarrow> bool" where
  "experts_ok hist rows \<longleftrightarrow> distinct (map expert_key rows)
     \<and> (\<forall>r \<in> set rows. \<forall>p. member_of (pj_json r) ''local_avatar_path'' = JStr p \<longrightarrow> (\<exists>mime data. (expert_key r, p, mime, data) \<in> set hist))
     \<and> (\<forall>k p mime data. latest_upload hist k = Some (p, mime, data) \<longrightarrow> snd (snd k) \<noteq> [] \<longrightarrow> (\<exists>r \<in> set rows. expert_key r = k \<and> shows_upload p mime (pj_json r)))"

lemma experts_okI:
  assumes "distinct (map expert_key rows)"
    and "\<And>r p. r \<in> set rows \<Longrightarrow> member_of (pj_json r) ''local_avatar_path'' = JStr p \<Longrightarrow> \<exists>mime data. (expert_key r, p, mime, data) \<in> set hist"
    and "\<And>k p mime data. latest_upload hist k = Some (p, mime, data) \<Longrightarrow> snd (snd k) \<noteq> [] \<Longrightarrow> \<exists>r \<in> set rows. expert_key r = k \<and> shows_upload p mime (pj_json r)"
  shows "experts_ok hist rows"
  using assms unfolding experts_ok_def by blast

lemmas merge_unfold = mergeAvatarProjection_def spread_def LOCAL_AVATAR_FIELDS_def Let_def

lemma merge_path:
  "member_of (mergeAvatarProjection previous incoming) ''local_avatar_path''
   = (if local_override (nullish previous []) then member_of (nullish previous []) ''local_avatar_path'' else JUndef)"
  by (simp add: merge_unfold)

lemma merge_shows: "shows_upload p mime fs \<Longrightarrow> shows_upload p mime (mergeAvatarProjection (Some fs) incoming)"
  by (simp add: shows_upload_def local_override_def text_field_def merge_unfold)

lemma experts_ok_rows:
  assumes "experts_ok hist rows" and keys: "map expert_key rows' = map expert_key rows"
    and same: "\<And>i. i < length rows \<Longrightarrow> pj_json (rows' ! i) = pj_json (rows ! i)"
  shows "experts_ok hist rows'"
proof -
  have len: "length rows' = length rows" using keys by (metis length_map)
  have key: "expert_key (rows' ! i) = expert_key (rows ! i)" if "i < length rows" for i
    using keys len that by (metis nth_map)
  have "\<exists>q \<in> set rows. expert_key q = expert_key r \<and> pj_json q = pj_json r" if "r \<in> set rows'" for r
    using that len key same by (metis in_set_conv_nth nth_mem)
  moreover have "\<exists>r \<in> set rows'. expert_key r = expert_key q \<and> pj_json r = pj_json q" if "q \<in> set rows" for q
    using that len key same by (metis in_set_conv_nth nth_mem)
  ultimately show ?thesis
    using assms(1) keys unfolding experts_ok_def by metis
qed

lemma experts_ok_revoke:
  assumes "experts_ok hist (pv_experts s)"
  shows "experts_ok hist (pv_experts (revoke_id own now i s))"
  by (rule experts_ok_rows [OF assms]) (simp_all add: revoke_id_def update_rows_def expert_key_def)

lemma experts_ok_legacy:
  assumes "experts_ok hist (pv_experts s)"
  shows "experts_ok hist (pv_experts (remove_legacy ids t s))"
  using assms by (auto simp: experts_ok_def remove_legacy_def delete_rows_def distinct_map_filter expert_key_def) fastforce

lemma set_upsert: "set (upsert_row key r rows) = insert r {q \<in> set rows. key q \<noteq> key r}"
  by (auto simp: upsert_row_def set_update_rows image_iff)

lemma distinct_upsert: "distinct (map key rows) \<Longrightarrow> distinct (map key (upsert_row key r rows))"
proof -
  assume "distinct (map key rows)"
  moreover have "map key (update_rows (\<lambda>q. key q = key r) (\<lambda>_. r) rows) = map key rows"
    by (simp add: update_rows_def)
  ultimately show ?thesis
    by (auto simp: upsert_row_def)
qed

lemma experts_ok_upsert:
  assumes "experts_ok hist rows"
    and "\<And>p. member_of (pj_json r) ''local_avatar_path'' = JStr p \<Longrightarrow> \<exists>mime data. (expert_key r, p, mime, data) \<in> set hist"
    and "\<And>q p mime. q \<in> set rows \<Longrightarrow> expert_key q = expert_key r \<Longrightarrow> shows_upload p mime (pj_json q) \<Longrightarrow> shows_upload p mime (pj_json r)"
  shows "experts_ok hist (upsert_row expert_key r rows)"
proof -
  have "\<exists>q \<in> set (upsert_row expert_key r rows). expert_key q = k \<and> shows_upload p mime (pj_json q)"
    if held: "latest_upload hist k = Some (p, mime, data)" "snd (snd k) \<noteq> []" for k p mime data
  proof -
    obtain q where "q \<in> set rows" "expert_key q = k" "shows_upload p mime (pj_json q)"
      using assms(1) held unfolding experts_ok_def by blast
    then show ?thesis
      using assms(3) [of q p mime] by (cases "k = expert_key r") (auto simp: set_upsert)
  qed
  then show ?thesis
    using assms(1,2) unfolding experts_ok_def by (simp add: distinct_upsert set_upsert del: js_field.simps)
qed

lemma shows_json: "shows_upload p mime (json_members fs) = shows_upload p mime fs"
  by (simp add: shows_upload_def local_override_def text_field_def member_json del: js_field.simps)

lemma experts_ok_pull:
  assumes ok: "experts_ok hist (pv_experts s)"
  shows "experts_ok hist (pv_experts (upsert_expert now e s))"
proof -
  let ?k = "(text_field e ''employee_id'', text_field e ''tenant_id'', text_field e ''member_id'')"
  let ?prev = "expert_json (fst ?k) (fst (snd ?k)) (snd (snd ?k)) s"
  let ?r = "expert_row now e s"
  have key: "expert_key ?r = ?k" and json: "pj_json ?r = json_members (mergeAvatarProjection ?prev (incoming_expert now e))"
    by (simp_all add: expert_row_def Let_def expert_key_def)
  have prev: "?prev = Some (pj_json q)" if "q \<in> set (pv_experts s)" "expert_key q = ?k" for q
    using find_unique_key [of expert_key "pv_experts s" q ?k] ok that by (simp add: experts_ok_def expert_json_def)
  have "\<exists>mime data. (?k, p, mime, data) \<in> set hist" if held: "member_of (pj_json ?r) ''local_avatar_path'' = JStr p" for p
  proof -
    have "member_of (nullish ?prev []) ''local_avatar_path'' = JStr p"
      using held by (simp add: json member_json merge_path split: if_splits del: js_field.simps)
    then obtain q where "q \<in> set (pv_experts s)" "expert_key q = ?k" "member_of (pj_json q) ''local_avatar_path'' = JStr p"
      using find_Some_in [of "\<lambda>r. expert_key r = ?k" "pv_experts s"]
      by (cases ?prev) (auto simp: expert_json_def)
    then show ?thesis using ok unfolding experts_ok_def by metis
  qed
  moreover have "shows_upload p mime (pj_json ?r)" if "q \<in> set (pv_experts s)" "expert_key q = ?k" "shows_upload p mime (pj_json q)" for q p mime
    using prev [OF that(1,2)] merge_shows [OF that(3)] by (simp add: json shows_json)
  ultimately show ?thesis
    using experts_ok_upsert [OF ok, of ?r] by (simp add: upsert_expert_def key del: js_field.simps)
qed

lemma experts_ok_sync:
  assumes "experts_ok hist (pv_experts s)"
  shows "experts_ok hist (pv_experts (snd (replaceProjections experts solutions snapshots revokedIds own now s)))"
proof -
  define s1 where "s1 = (case own of None \<Rightarrow> s | Some o' \<Rightarrow> remove_legacy (superseded experts revokedIds o') (fst o') s)"
  have "experts_ok hist (pv_experts s1)"
    using assms by (simp add: s1_def experts_ok_legacy split: option.split)
  then have "experts_ok hist (pv_experts (fold (upsert_expert now) experts s1))"
    by (rule fold_preserves) (rule experts_ok_pull)
  then have "experts_ok hist (pv_experts (fold (upsert_snapshot now) snapshots (fold (upsert_solution now) solutions (fold (upsert_expert now) experts s1))))"
    by (simp add: set_fold_snapshots set_fold_solutions)
  then have "experts_ok hist (pv_experts (fold (revoke_id own now) revokedIds
      (fold (upsert_snapshot now) snapshots (fold (upsert_solution now) solutions (fold (upsert_expert now) experts s1)))))"
    by (rule fold_preserves) (rule experts_ok_revoke)
  then show ?thesis
    by (simp add: replaceProjections_def s1_def Let_def)
qed

lemma avatars_sync: "pv_avatars (snd (replaceProjections experts solutions snapshots revokedIds own now s)) = pv_avatars s"
  by (simp add: replaceProjections_def Let_def avatars_fold_revoke set_fold_snapshots set_fold_solutions avatars_fold_experts remove_legacy_def split: option.split)

text \<open>The histories of the tables: pulls, accepted uploads under a fresh identifier, start-up sweeps.  The
  second component remembers the uploads, newest first.\<close>

inductive avatar_step :: "avatar_env \<Rightarrow> projections \<times> avatar_log \<Rightarrow> projections \<times> avatar_log \<Rightarrow> bool" for env where
  sync: "avatar_step env (s, hist) (snd (replaceProjections experts solutions snapshots revokedIds own now s), hist)"
| upload: "updateEmployeeAvatar env t m e data mime uuid now s = (Some version, s') \<Longrightarrow> plain_name uuid \<Longrightarrow> \<not> hidden_name uuid \<Longrightarrow>
    uuid @ ''.img'' \<notin> set (log_paths hist) \<Longrightarrow> avatar_step env (s, hist) (s', ((e, t, m), uuid @ ''.img'', mime, data) # hist)"
| sweep: "avatar_step env (s, hist) (cleanupAvatarRoot env s, hist)"

definition entry_valid :: "(string \<times> string \<times> string) \<times> string \<times> string \<times> nat list \<Rightarrow> bool" where
  "entry_valid x \<longleftrightarrow> (case x of (k, p, mime, data) \<Rightarrow> plain_name p \<and> \<not> hidden_name p \<and> mime \<in> set IMAGE_MIMES \<and> hasImageSignature mime data)"

definition files_ok :: "avatar_log \<Rightarrow> (string, nat list) omap \<Rightarrow> bool" where
  "files_ok hist files \<longleftrightarrow>
     (\<forall>k p mime data. latest_upload hist k = Some (p, mime, data) \<longrightarrow> snd (snd k) \<noteq> [] \<longrightarrow> omap_get files p = Some data)"

definition avatar_inv :: "projections \<times> avatar_log \<Rightarrow> bool" where
  "avatar_inv x \<longleftrightarrow> (case x of (s, hist) \<Rightarrow>
     experts_ok hist (pv_experts s) \<and> files_ok hist (pv_avatars s) \<and> distinct (log_paths hist) \<and> (\<forall>x \<in> set hist. entry_valid x))"

lemma latest_in: "latest_upload hist k = Some x \<Longrightarrow> (k, x) \<in> set hist"
  by (simp add: latest_upload_def map_of_SomeD)

lemma latest_path: "latest_upload hist k = Some (p, x) \<Longrightarrow> p \<in> set (log_paths hist)"
  by (drule latest_in) (force simp: log_paths_def)

lemma same_path_same_entry:
  "distinct (log_paths hist) \<Longrightarrow> (k, p, x) \<in> set hist \<Longrightarrow> (k', p, x') \<in> set hist \<Longrightarrow> k = k' \<and> x = x'"
  unfolding log_paths_def by (induction hist) (auto simp: image_iff)

lemma active_unique:
  assumes "experts_ok hist (pv_experts s)" and "find (active_row t m e) (pv_experts s) = Some row" and "q \<in> set (pv_experts s)"
  shows "expert_key q = (e, t, m) \<longleftrightarrow> q = row"
proof -
  have "row \<in> set (pv_experts s)" "expert_key row = (e, t, m)"
    using find_Some_in [OF assms(2)] by (simp_all add: active_row_def)
  then show ?thesis
    using assms(1,3) unfolding experts_ok_def by (metis distinct_map inj_onD)
qed

lemma avatar_invD:
  assumes "avatar_inv (s, hist)"
  shows "experts_ok hist (pv_experts s)" "files_ok hist (pv_avatars s)" "distinct (log_paths hist)" "x \<in> set hist \<Longrightarrow> entry_valid x"
  using assms by (simp_all add: avatar_inv_def)

lemma held_file:
  assumes "avatar_inv (s, hist)" "latest_upload hist k = Some (p, mime, data)" "snd (snd k) \<noteq> []"
  shows "omap_get (pv_avatars s) p = Some data" "plain_name p" "\<not> hidden_name p" "mime \<in> set IMAGE_MIMES" "hasImageSignature mime data"
    "\<exists>r \<in> set (pv_experts s). expert_key r = k \<and> shows_upload p mime (pj_json r)"
proof -
  show "omap_get (pv_avatars s) p = Some data"
    using avatar_invD(2) [OF assms(1)] assms(2,3) unfolding files_ok_def by blast
  show "plain_name p" "\<not> hidden_name p" "mime \<in> set IMAGE_MIMES" "hasImageSignature mime data"
    using avatar_invD(4) [OF assms(1) latest_in [OF assms(2)]] by (simp_all add: entry_valid_def)
  show "\<exists>r \<in> set (pv_experts s). expert_key r = k \<and> shows_upload p mime (pj_json r)"
    using avatar_invD(1) [OF assms(1)] assms(2,3) unfolding experts_ok_def by blast
qed

lemma sweep_keeps:
  assumes inv: "avatar_inv (s, hist)"
  shows "avatar_inv (cleanupAvatarRoot env s, hist)"
proof -
  have "omap_get (pv_avatars (cleanupAvatarRoot env s)) p = Some data"
    if held: "latest_upload hist k = Some (p, mime, data)" "snd (snd k) \<noteq> []" for k p mime data
  proof -
    note facts = held_file [OF inv held]
    then obtain r where "r \<in> set (pv_experts s)" "shows_upload p mime (pj_json r)" by blast
    moreover from this have "avatar_reference env s (pj_json r) = [p]"
      using facts(1,2) by (simp add: avatar_reference_def shows_upload_def managedAvatarPath_def)
    ultimately have "p \<in> set (referenced_avatars env s)"
      by (fastforce simp: referenced_avatars_def)
    then show ?thesis
      using facts map_of_filter_key [of "\<lambda>n. n \<in> set (referenced_avatars env s) \<and> \<not> hidden_name n" "pv_avatars s" p]
      by (simp add: cleanupAvatarRoot_def omap_get_def)
  qed
  then have "files_ok hist (pv_avatars (cleanupAvatarRoot env s))"
    unfolding files_ok_def by blast
  then show ?thesis
    using inv by (simp add: avatar_inv_def cleanupAvatarRoot_def)
qed

lemma upload_facts:
  assumes "updateEmployeeAvatar env t m e data mime uuid now s = (Some version, s')"
  obtains row where "find (active_row t m e) (pv_experts s) = Some row" "mime \<in> set IMAGE_MIMES" "hasImageSignature mime data"
    "s' = drop_avatar env (member_of (pj_json row) ''local_avatar_path'') (uuid @ ''.img'')
        (store_avatar t m e data (uuid @ ''.img'') (avatar_members (avatar_content_url env e) (uuid @ ''.img'') mime version) row now s)"
  using assms by (auto simp: updateEmployeeAvatar_def Let_def simp del: js_field.simps split: if_split_asm option.split_asm)

lemma shows_new_upload: "uuid \<noteq> [] \<Longrightarrow> shows_upload (uuid @ ''.img'') mime
    (spread fs (avatar_members (avatar_content_url env e) (uuid @ ''.img'') mime version))"
  by (simp add: shows_upload_def local_override_def text_field_def spread_def avatar_members_def avatar_content_url_def)

lemma experts_drop: "pv_experts (drop_avatar env v p s) = pv_experts s"
  by (simp add: drop_avatar_def split: jsval.split sum.split option.split)

lemma keys_rewritten: "map expert_key (update_rows q (\<lambda>r. r\<lparr>pj_json := fs, pj_synced := now\<rparr>) rows) = map expert_key rows"
  by (simp add: update_rows_def expert_key_def)

lemma upload_experts:
  assumes ok: "experts_ok hist (pv_experts s)" and found: "find (active_row t m e) (pv_experts s) = Some row" and fs: "shows_upload p mime fs"
  shows "experts_ok (((e, t, m), p, mime, data) # hist)
    (update_rows (active_row t m e) (\<lambda>r. r\<lparr>pj_json := fs, pj_synced := now\<rparr>) (pv_experts s))"
proof -
  let ?k = "(e, t, m)" and ?new = "row\<lparr>pj_json := fs, pj_synced := now\<rparr>"
  note unique = active_unique [OF ok found]
  have row: "row \<in> set (pv_experts s)" "active_row t m e row" using find_Some_in [OF found] by simp_all
  have active: "active_row t m e q \<longleftrightarrow> q = row" if "q \<in> set (pv_experts s)" for q
    using unique [OF that] row(2) by (auto simp: active_row_def)
  then have rows: "set (update_rows (active_row t m e) (\<lambda>r. r\<lparr>pj_json := fs, pj_synced := now\<rparr>) (pv_experts s))
      = insert ?new {q \<in> set (pv_experts s). expert_key q \<noteq> ?k}"
    using row unique by (auto simp: set_update_rows image_iff)
  have key: "expert_key ?new = ?k" using row(2) by (simp add: active_row_def expert_key_def)
  show ?thesis
  proof (rule experts_okI)
    show "distinct (map expert_key (update_rows (active_row t m e) (\<lambda>r. r\<lparr>pj_json := fs, pj_synced := now\<rparr>) (pv_experts s)))"
      using ok keys_rewritten by (simp add: experts_ok_def)
  next
    fix q p'
    assume "q \<in> set (update_rows (active_row t m e) (\<lambda>r. r\<lparr>pj_json := fs, pj_synced := now\<rparr>) (pv_experts s))"
      and "member_of (pj_json q) ''local_avatar_path'' = JStr p'"
    then show "\<exists>mime' data'. (expert_key q, p', mime', data') \<in> set ((?k, p, mime, data) # hist)"
      unfolding rows using ok key fs unfolding experts_ok_def shows_upload_def by (auto simp del: js_field.simps) blast
  next
    fix k p' mime' data'
    assume held: "latest_upload ((?k, p, mime, data) # hist) k = Some (p', mime', data')" "snd (snd k) \<noteq> []"
    show "\<exists>q \<in> set (update_rows (active_row t m e) (\<lambda>r. r\<lparr>pj_json := fs, pj_synced := now\<rparr>) (pv_experts s)).
        expert_key q = k \<and> shows_upload p' mime' (pj_json q)"
    proof (cases "k = ?k")
      case True
      then show ?thesis unfolding rows using held key fs by (simp add: latest_upload_def)
    next
      case False
      then have "latest_upload hist k = Some (p', mime', data')" using held by (auto simp: latest_upload_def split: if_splits)
      then show ?thesis unfolding rows using ok held(2) False unfolding experts_ok_def by blast
    qed
  qed
qed

lemma drop_avatar_files:
  assumes "f \<noteq> path \<Longrightarrow> v = JStr f \<Longrightarrow> False" and "\<And>p. v = JStr p \<Longrightarrow> plain_name p"
  shows "omap_get (pv_avatars (drop_avatar env v path s)) f = omap_get (pv_avatars s) f"
  using assms by (auto simp: drop_avatar_def managedAvatarPath_def split: jsval.split)

lemma upload_keeps:
  assumes inv: "avatar_inv (s, hist)" and up: "updateEmployeeAvatar env t m e data mime uuid now s = (Some version, s')"
    and name: "plain_name uuid" "\<not> hidden_name uuid" and fresh: "uuid @ ''.img'' \<notin> set (log_paths hist)"
  shows "avatar_inv (s', ((e, t, m), uuid @ ''.img'', mime, data) # hist)"
proof -
  let ?k = "(e, t, m)" and ?p = "uuid @ ''.img''"
  obtain row where found: "find (active_row t m e) (pv_experts s) = Some row" and valid: "mime \<in> set IMAGE_MIMES" "hasImageSignature mime data"
    and s': "s' = drop_avatar env (member_of (pj_json row) ''local_avatar_path'') ?p
        (store_avatar t m e data ?p (avatar_members (avatar_content_url env e) ?p mime version) row now s)"
    by (rule upload_facts [OF up])
  have named: "uuid \<noteq> []" using name(1) by (simp add: plain_name_def)
  have experts: "experts_ok ((?k, ?p, mime, data) # hist) (pv_experts s')"
    unfolding s' experts_drop store_avatar_def
    using upload_experts [OF avatar_invD(1) [OF inv] found shows_new_upload [OF named]] by simp
  have old: "\<exists>mime data. (?k, p, mime, data) \<in> set hist" if "member_of (pj_json row) ''local_avatar_path'' = JStr p" for p
    using that avatar_invD(1) [OF inv] find_Some_in [OF found] unfolding experts_ok_def active_row_def by metis
  have "omap_get (pv_avatars s') p = Some data'"
    if held: "latest_upload ((?k, ?p, mime, data) # hist) k = Some (p, mime', data')" "snd (snd k) \<noteq> []" for k p mime' data'
  proof -
    have kept: "omap_get (pv_avatars s') p = omap_get (omap_set ?p data (pv_avatars s)) p"
    proof -
      have "omap_get (pv_avatars (drop_avatar env (member_of (pj_json row) ''local_avatar_path'') ?p x)) p = omap_get (pv_avatars x) p" for x
      proof (rule drop_avatar_files)
        show "plain_name q" if "member_of (pj_json row) ''local_avatar_path'' = JStr q" for q
          using old [OF that] avatar_invD(4) [OF inv] by (auto simp: entry_valid_def)
        assume other: "p \<noteq> ?p" "member_of (pj_json row) ''local_avatar_path'' = JStr p"
        then have "k \<noteq> ?k" "latest_upload hist k = Some (p, mime', data')"
          using held by (auto simp: latest_upload_def split: if_splits)
        then show False
          using old [OF other(2)] latest_in same_path_same_entry [OF avatar_invD(3) [OF inv]] by blast
      qed
      then show ?thesis by (simp add: s' store_avatar_def)
    qed
    show ?thesis
    proof (cases "k = ?k")
      case True
      then show ?thesis using held kept by (simp add: latest_upload_def)
    next
      case False
      then have prior: "latest_upload hist k = Some (p, mime', data')" using held by (auto simp: latest_upload_def split: if_splits)
      then have "p \<noteq> ?p" using fresh latest_path [OF prior] by auto
      then show ?thesis using kept held_file(1) [OF inv prior held(2)] by simp
    qed
  qed
  then have "files_ok ((?k, ?p, mime, data) # hist) (pv_avatars s')"
    unfolding files_ok_def by blast
  moreover have "entry_valid (?k, ?p, mime, data)"
    using name named valid by (cases uuid) (auto simp: entry_valid_def plain_name_def hidden_name_def)
  ultimately show ?thesis
    using experts fresh avatar_invD(3,4) [OF inv] by (simp add: avatar_inv_def log_paths_def)
qed

definition avatar_init :: "projections \<times> avatar_log \<Rightarrow> bool" where
  "avatar_init x \<longleftrightarrow> pv_experts (fst x) = [] \<and> snd x = []"

lemma avatar_step_inv: "avatar_step env x y \<Longrightarrow> avatar_inv x \<Longrightarrow> avatar_inv y"
proof (induction rule: avatar_step.induct)
  case (sync s hist experts solutions snapshots revokedIds own now)
  then show ?case by (simp add: avatar_inv_def experts_ok_sync avatars_sync)
qed (auto intro: upload_keeps sweep_keeps)

lemma avatar_init_inv: "avatar_init x \<Longrightarrow> avatar_inv x"
  by (cases x) (simp add: avatar_init_def avatar_inv_def experts_ok_def files_ok_def latest_upload_def log_paths_def)

interpretation avatars: invariant_system avatar_init "avatar_step env" avatar_inv for env
  by unfold_locales (blast intro: avatar_init_inv avatar_step_inv)+

lemma read_held:
  assumes inv: "avatar_inv (s, hist)" and held: "latest_upload hist (e, t, m) = Some (p, mime, data)" "m \<noteq> []"
    and active: "find (active_row t m e) (pv_experts s) = Some row"
  shows "readEmployeeAvatar env t m e s = Inr (Some (data, mime))"
proof -
  have scoped: "snd (snd (e, t, m)) \<noteq> []" using held(2) by simp
  note facts = held_file [OF inv held(1) scoped]
  then obtain r where "r \<in> set (pv_experts s)" "expert_key r = (e, t, m)" "shows_upload p mime (pj_json r)" by blast
  moreover from this have "r = row" using active_unique [OF avatar_invD(1) [OF inv] active] by blast
  ultimately show ?thesis
    using active facts(1-5) by (simp add: readEmployeeAvatar_def shows_upload_def managedAvatarPath_def del: js_field.simps)
qed


section \<open>Witnesses\<close>

definition demo_pull :: "fields list" where
  "demo_pull = [[(''employee_id'', JStr ''e''), (''tenant_id'', JStr ''t''), (''member_id'', JStr ''m''), (''version'', JStr ''1''),
     (''local_avatar_path'', JStr ''/etc/passwd''), (''avatar_source'', JStr ''local'')]]"

definition demo_tables :: projections where
  "demo_tables = \<lparr>pv_experts = [], pv_solutions = [], pv_snapshots = [], pv_avatars = []\<rparr>"

definition demo_avatar_env :: avatar_env where
  "demo_avatar_env = \<lparr>va_elsewhere = (\<lambda>p. Inl PathEscaped), va_encode = (\<lambda>s. s)\<rparr>"

definition demo_pulled :: projections where
  "demo_pulled = snd (replaceProjections demo_pull [] [] [] (Some (''t'', ''m'')) ''now'' demo_tables)"

definition demo_jpeg :: "nat list" where
  "demo_jpeg = [255, 216, 255, 0]"

definition demo_uploaded :: projections where
  "demo_uploaded = snd (updateEmployeeAvatar demo_avatar_env ''t'' ''m'' ''e'' demo_jpeg ''image/jpeg'' ''u1'' ''now'' demo_pulled)"

definition demo_repulled :: projections where
  "demo_repulled = snd (replaceProjections demo_pull [] [] [] (Some (''t'', ''m'')) ''later'' demo_uploaded)"

lemma demo_row_key: "expert_key (expert_row now (hd demo_pull) s) = (''e'', ''t'', ''m'')" "\<not> pj_revoked (expert_row now (hd demo_pull) s)"
  by (simp_all add: expert_row_def expert_key_def demo_pull_def text_field_def Let_def)

lemma demo_pulled_rows: "pv_experts demo_pulled = [expert_row ''now'' (hd demo_pull) demo_tables]"
proof -
  have "upsert_expert now (hd demo_pull) x = x\<lparr>pv_experts := upsert_row expert_key (expert_row now (hd demo_pull) x) (pv_experts x)\<rparr>" for now x
    by (simp add: upsert_expert_def)
  then show ?thesis
    by (simp add: demo_pulled_def replaceProjections_def demo_pull_def remove_legacy_def demo_tables_def upsert_row_def Let_def)
qed

lemma demo_upload_accepted:
  "updateEmployeeAvatar demo_avatar_env ''t'' ''m'' ''e'' demo_jpeg ''image/jpeg'' ''u1'' ''now'' demo_pulled = (Some 1, demo_uploaded)"
proof -
  have "find (active_row ''t'' ''m'' ''e'') (pv_experts demo_pulled) = Some (expert_row ''now'' (hd demo_pull) demo_tables)"
    by (simp add: demo_pulled_rows active_row_def demo_row_key)
  moreover have "member_of (pj_json (expert_row ''now'' (hd demo_pull) demo_tables)) ''local_avatar_version'' = JUndef"
    by (simp add: expert_row_def Let_def member_json expert_json_def demo_tables_def local_override_def text_field_def merge_unfold del: js_field.simps) simp
  ultimately have "fst (updateEmployeeAvatar demo_avatar_env ''t'' ''m'' ''e'' demo_jpeg ''image/jpeg'' ''u1'' ''now'' demo_pulled) = Some 1"
    by (simp add: updateEmployeeAvatar_def IMAGE_MIMES_def demo_jpeg_def hasImageSignature_def MAX_LOCAL_FILE_BYTES_def Let_def del: js_field.simps)
  then show ?thesis
    by (simp add: demo_uploaded_def prod_eq_iff)
qed

lemma demo_repulled_active: "\<exists>row. find (active_row ''t'' ''m'' ''e'') (pv_experts demo_repulled) = Some row"
proof -
  have again: "demo_repulled = upsert_expert ''later'' (hd demo_pull) (remove_legacy [''e''] ''t'' demo_uploaded)"
    by (simp add: demo_repulled_def replaceProjections_def demo_pull_def superseded_def text_option_def text_field_def Let_def)
  have "expert_row ''later'' (hd demo_pull) (remove_legacy [''e''] ''t'' demo_uploaded) \<in> set (pv_experts demo_repulled)"
    unfolding again by (simp add: upsert_expert_def set_upsert [of expert_key])
  then show ?thesis
    using demo_row_key by (metis active_row_def find_None_iff not_None_eq)
qed



end
