(* ===== verification/Local_File_Store.thy ===== *)
theory Local_File_Store
  imports Projections Conversation_Store
begin

text \<open>
  The files a conversation keeps (\<open>storage/sqlite.ts\<close>): rows of \<open>local_file\<close> and the managed directory.
  The directory tree is a map from absolute paths to nodes; the attachment root and the directories below
  it are real directories, a symbolic link names its final target.  An operation is the list of its
  effects in order, each atomic: a crash leaves the effects of a prefix.  SHA-256, random identifiers and
  the clock are parameters.
\<close>

datatype file_kind = Attachment | Artifact

record local_file =
  lf_id :: string
  lf_conversation :: string
  lf_tenant :: string
  lf_member :: string
  lf_kind :: file_kind
  lf_filename :: string
  lf_path :: "string option"
  lf_mime :: string
  lf_size :: nat
  lf_sha :: string
  lf_storage :: string
  lf_created :: ms
  lf_referenced :: "ms option"
  lf_entryRef :: "string option"
  lf_chars :: "int option"

datatype disk_node = DFile "nat list" | DLink string | DDir

record file_state =
  fl_rows :: "local_file list"
  fl_disk :: "(string, disk_node) omap"

record file_env =
  fe_root :: string
  fe_sha :: "nat list \<Rightarrow> string"
  fe_nameHash :: "string \<Rightarrow> string"

datatype file_error = FileTooLarge | BadFileName | BadFilePath | FileEscaped

section \<open>The disk\<close>

type_synonym effect = "file_state \<Rightarrow> file_state"

definition node_at :: "file_state \<Rightarrow> string \<Rightarrow> disk_node option" where
  "node_at s p = omap_get (fl_disk s) p"

definition realpath :: "file_state \<Rightarrow> string \<Rightarrow> string option" where
  "realpath s p =
     (case node_at s p of
        None \<Rightarrow> None
      | Some (DLink q) \<Rightarrow> if node_at s q = None then None else Some q
      | Some _ \<Rightarrow> Some p)"

definition file_bytes :: "file_state \<Rightarrow> string \<Rightarrow> nat list option" where
  "file_bytes s p = (case node_at s p of Some (DFile c) \<Rightarrow> Some c | _ \<Rightarrow> None)"

definition write_file :: "string \<Rightarrow> nat list \<Rightarrow> effect" where
  "write_file p c s = s\<lparr>fl_disk := omap_set p (DFile c) (fl_disk s)\<rparr>"

definition rename_file :: "string \<Rightarrow> string \<Rightarrow> effect" where
  "rename_file a b s = (case node_at s a of Some n \<Rightarrow> s\<lparr>fl_disk := omap_set b n (omap_delete a (fl_disk s))\<rparr> | None \<Rightarrow> s)"

definition link_file :: "string \<Rightarrow> string \<Rightarrow> effect" where
  "link_file a b s = (case node_at s a of Some n \<Rightarrow> s\<lparr>fl_disk := omap_set b n (fl_disk s)\<rparr> | None \<Rightarrow> s)"

definition remove_file :: "string \<Rightarrow> effect" where
  "remove_file p s = s\<lparr>fl_disk := omap_delete p (fl_disk s)\<rparr>"

definition change_rows :: "(local_file list \<Rightarrow> local_file list) \<Rightarrow> effect" where
  "change_rows f s = s\<lparr>fl_rows := f (fl_rows s)\<rparr>"

definition run :: "effect list \<Rightarrow> effect" where
  "run effs = fold id effs"

text \<open>Consecutive iterations, each computing its effects in the state it starts in; \<open>n\<close> effects happen.\<close>

fun run_for :: "nat \<Rightarrow> (file_state \<Rightarrow> effect list) list \<Rightarrow> effect" where
  "run_for n [] s = s"
| "run_for n (it # its) s =
     (let effs = it s in if length effs \<le> n then run_for (n - length effs) its (run effs s) else run (take n effs) s)"

fun run_all :: "(file_state \<Rightarrow> effect list) list \<Rightarrow> effect" where
  "run_all [] s = s"
| "run_all (it # its) s = run_all its (run (it s) s)"

section \<open>Paths\<close>

definition dir_name_chars :: "string \<Rightarrow> bool" where
  "dir_name_chars s \<longleftrightarrow> s \<noteq> [] \<and> length s \<le> 128 \<and> list_all (\<lambda>c. is_alnum c \<or> c = CHR ''_'' \<or> c = CHR ''-'') s"

definition conversationFileDirName :: "file_env \<Rightarrow> string \<Rightarrow> string" where
  "conversationFileDirName env i = (if dir_name_chars i then i else ''c-'' @ take 32 (fe_nameHash env i))"

definition conversationFileDir :: "file_env \<Rightarrow> string \<Rightarrow> string" where
  "conversationFileDir env i = join_path (fe_root env) (conversationFileDirName env i)"

definition path_base :: "string \<Rightarrow> string" where
  "path_base p = rev (takeWhile (\<lambda>c. c \<noteq> CHR ''/'') (rev p))"

definition path_dir :: "string \<Rightarrow> string" where
  "path_dir p = rev (drop 1 (dropWhile (\<lambda>c. c \<noteq> CHR ''/'') (rev p)))"

definition managedFilePath :: "file_env \<Rightarrow> file_state \<Rightarrow> string \<Rightarrow> file_error + string option" where
  "managedFilePath env s p =
     (case realpath s p of
        None \<Rightarrow> Inr None
      | Some q \<Rightarrow>
          (let inside = fe_root env @ ''/''; rest = drop (length inside) q
           in if \<not> prefix inside q \<or> rest = [] \<or> prefix ''..'' rest \<or> file_bytes s q = None then Inl FileEscaped else Inr (Some q)))"

section \<open>Operations\<close>

definition LOCAL_FILE_MAX_BYTES :: nat where "LOCAL_FILE_MAX_BYTES = 5 * 1024 * 1024"
definition LOCAL_FILE_MAX_NAME :: nat where "LOCAL_FILE_MAX_NAME = 255"
definition UNREFERENCED_LOCAL_FILE_RETENTION_MS :: int where "UNREFERENCED_LOCAL_FILE_RETENTION_MS = 24 * 60 * 60 * 1000"

record file_input =
  fi_conversation :: string
  fi_tenant :: string
  fi_member :: string
  fi_kind :: file_kind
  fi_filename :: string
  fi_path :: "string option"
  fi_mime :: string
  fi_data :: "nat list"
  fi_replaces :: "string list"
  fi_reply :: "(string \<times> int) option"

definition owned_file :: "string \<Rightarrow> string \<Rightarrow> string \<Rightarrow> local_file \<Rightarrow> bool" where
  "owned_file conversation tenant member r \<longleftrightarrow> lf_conversation r = conversation \<and> lf_tenant r = tenant \<and> lf_member r = member"

definition getOwnedLocalFile :: "string \<Rightarrow> string \<Rightarrow> string \<Rightarrow> string \<Rightarrow> file_state \<Rightarrow> local_file option" where
  "getOwnedLocalFile i conversation tenant member s = find (\<lambda>r. lf_id r = i \<and> owned_file conversation tenant member r) (fl_rows s)"

definition check_file_input :: "file_input \<Rightarrow> file_error option" where
  "check_file_input q =
     (if length (fi_data q) > LOCAL_FILE_MAX_BYTES then Some FileTooLarge
      else if fi_filename q = [] \<or> length (fi_filename q) > LOCAL_FILE_MAX_NAME \<or> CHR ''/'' \<in> set (fi_filename q) \<or> CHR 0x5C \<in> set (fi_filename q)
        \<or> list_ex is_control (fi_filename q) then Some BadFileName
      else if (case fi_path q of Some p \<Rightarrow> \<not> isSafeArtifactPath p | None \<Rightarrow> False) then Some BadFilePath
      else None)"

definition bin_path :: "file_env \<Rightarrow> string \<Rightarrow> string \<Rightarrow> string" where
  "bin_path env conversation i = join_path (conversationFileDir env conversation) (i @ ''.bin'')"

definition tmp_path :: "file_env \<Rightarrow> string \<Rightarrow> string \<Rightarrow> string" where
  "tmp_path env conversation i = join_path (conversationFileDir env conversation) (''.'' @ i @ ''.tmp'')"

definition new_file :: "file_env \<Rightarrow> file_input \<Rightarrow> string \<Rightarrow> ms \<Rightarrow> local_file" where
  "new_file env q uuid now =
     \<lparr>lf_id = uuid, lf_conversation = fi_conversation q, lf_tenant = fi_tenant q, lf_member = fi_member q, lf_kind = fi_kind q,
      lf_filename = fi_filename q, lf_path = fi_path q, lf_mime = fi_mime q, lf_size = length (fi_data q), lf_sha = fe_sha env (fi_data q),
      lf_storage = bin_path env (fi_conversation q) uuid, lf_created = now, lf_referenced = None,
      lf_entryRef = map_option fst (fi_reply q), lf_chars = map_option snd (fi_reply q)\<rparr>"

definition replaced_files :: "file_input \<Rightarrow> file_state \<Rightarrow> local_file list" where
  "replaced_files q s =
     concat (map (\<lambda>i. case getOwnedLocalFile i (fi_conversation q) (fi_tenant q) (fi_member q) s of Some r \<Rightarrow> [r] | None \<Rightarrow> []) (fi_replaces q))"

text \<open>\<open>managedFilePath\<close> and \<open>rmSync\<close> for the rows that are gone, up to the first that escaped.\<close>

fun remove_managed :: "file_env \<Rightarrow> string list \<Rightarrow> file_state \<Rightarrow> effect list" where
  "remove_managed env [] s = []"
| "remove_managed env (p # ps) s =
     (case managedFilePath env s p of
        Inl e \<Rightarrow> []
      | Inr None \<Rightarrow> remove_managed env ps s
      | Inr (Some q) \<Rightarrow> remove_file q # remove_managed env ps s)"

definition createLocalFile :: "file_env \<Rightarrow> file_input \<Rightarrow> string \<Rightarrow> ms \<Rightarrow> file_state \<Rightarrow> file_error + (file_state \<Rightarrow> effect list) list" where
  "createLocalFile env q uuid now s =
     (case check_file_input q of
        Some e \<Rightarrow> Inl e
      | None \<Rightarrow>
          (let tmp = tmp_path env (fi_conversation q) uuid; storage = bin_path env (fi_conversation q) uuid; replaced = replaced_files q s
           in Inr [\<lambda>_. [write_file tmp [], write_file tmp (fi_data q), rename_file tmp storage,
                  change_rows (\<lambda>rows. delete_rows (\<lambda>r. lf_id r \<in> lf_id ` set replaced) (rows @ [new_file env q uuid now]))],
                remove_managed env (map lf_storage replaced)]))"

definition publicLocalFile :: "local_file \<Rightarrow> local_file" where
  "publicLocalFile r = r\<lparr>lf_storage := [], lf_entryRef := None, lf_chars := None\<rparr>"

definition file_le :: "local_file \<Rightarrow> local_file \<Rightarrow> bool" where
  "file_le a b \<longleftrightarrow> lf_created a < lf_created b \<or> (lf_created a = lf_created b \<and> text_le (lf_id a) (lf_id b))"

definition listOwnedLocalFiles :: "string \<Rightarrow> string \<Rightarrow> string \<Rightarrow> file_kind option \<Rightarrow> file_state \<Rightarrow> local_file list" where
  "listOwnedLocalFiles conversation tenant member kind s =
     map publicLocalFile (sort_by file_le (filter (\<lambda>r. owned_file conversation tenant member r \<and> (kind = None \<or> kind = Some (lf_kind r))) (fl_rows s)))"

definition readOwnedLocalFile ::
  "file_env \<Rightarrow> string \<Rightarrow> string \<Rightarrow> string \<Rightarrow> string \<Rightarrow> file_state \<Rightarrow> file_error + (local_file \<times> nat list) option" where
  "readOwnedLocalFile env i conversation tenant member s =
     (case getOwnedLocalFile i conversation tenant member s of
        None \<Rightarrow> Inr None
      | Some r \<Rightarrow>
          (case managedFilePath env s (lf_storage r) of
             Inl e \<Rightarrow> Inl e
           | Inr None \<Rightarrow> Inr None
           | Inr (Some p) \<Rightarrow> Inr (map_option (\<lambda>c. (publicLocalFile r, c)) (file_bytes s p))))"

definition deleteOwnedLocalFile :: "file_env \<Rightarrow> string \<Rightarrow> string \<Rightarrow> string \<Rightarrow> string \<Rightarrow> file_state \<Rightarrow> effect list" where
  "deleteOwnedLocalFile env i conversation tenant member s =
     (case getOwnedLocalFile i conversation tenant member s of
        None \<Rightarrow> []
      | Some r \<Rightarrow>
          (case managedFilePath env s (lf_storage r) of
             Inl e \<Rightarrow> []
           | Inr p \<Rightarrow> change_rows (delete_rows (\<lambda>q. lf_id q = i)) # (case p of Some q \<Rightarrow> [remove_file q] | None \<Rightarrow> [])))"

definition mark_file :: "ms \<Rightarrow> string \<Rightarrow> string \<Rightarrow> string \<Rightarrow> file_kind \<Rightarrow> string \<Rightarrow> effect" where
  "mark_file now conversation tenant member kind i =
     change_rows (update_rows (\<lambda>r. lf_id r = i \<and> owned_file conversation tenant member r \<and> lf_kind r = kind) (\<lambda>r. r\<lparr>lf_referenced := Some now\<rparr>))"

definition markLocalFilesReferenced :: "ms \<Rightarrow> string list \<Rightarrow> string \<Rightarrow> string \<Rightarrow> string \<Rightarrow> file_kind \<Rightarrow> effect list" where
  "markLocalFilesReferenced now ids conversation tenant member kind = map (mark_file now conversation tenant member kind) ids"

definition deleteConversationLocalFiles :: "file_env \<Rightarrow> string \<Rightarrow> string \<Rightarrow> string \<Rightarrow> file_state \<Rightarrow> effect list" where
  "deleteConversationLocalFiles env conversation tenant member s =
     (let rows = filter (owned_file conversation tenant member) (fl_rows s); paths = map (\<lambda>r. managedFilePath env s (lf_storage r)) rows
      in if list_ex isl paths then []
         else change_rows (delete_rows (owned_file conversation tenant member))
           # concat (map (\<lambda>p. case p of Inr (Some q) \<Rightarrow> [remove_file q] | _ \<Rightarrow> []) paths))"

definition listReplyFiles :: "string \<Rightarrow> string \<Rightarrow> string \<Rightarrow> file_state \<Rightarrow> (string, local_file) omap" where
  "listReplyFiles conversation tenant member s =
     fold (\<lambda>r. omap_set (the (lf_entryRef r)) r)
       (sort_by file_le (filter (\<lambda>r. owned_file conversation tenant member r \<and> lf_kind r = Artifact \<and> lf_entryRef r \<noteq> None) (fl_rows s))) []"

definition listUnplacedArtifacts :: "file_state \<Rightarrow> local_file list" where
  "listUnplacedArtifacts s = sort_by file_le (filter (\<lambda>r. lf_kind r = Artifact \<and> lf_path r = None) (fl_rows s))"

definition setArtifactPath :: "string \<Rightarrow> string \<Rightarrow> file_error + effect list" where
  "setArtifactPath i p =
     (if \<not> isSafeArtifactPath p then Inl BadFilePath
      else Inr [change_rows (update_rows (\<lambda>r. lf_id r = i \<and> lf_kind r = Artifact \<and> lf_path r = None) (\<lambda>r. r\<lparr>lf_path := Some p\<rparr>))])"

section \<open>Start-up\<close>

text \<open>One row of \<open>moveRootLocalFiles\<close>; \<open>linkable\<close> says whether \<open>linkSync\<close> succeeds.\<close>

definition copy_into :: "file_state \<Rightarrow> bool \<Rightarrow> string \<Rightarrow> string \<Rightarrow> effect list option" where
  "copy_into s linkable source target =
     (if linkable then Some [link_file source target]
      else (case realpath s source of
        None \<Rightarrow> None
      | Some p \<Rightarrow> map_option (\<lambda>c. [write_file (target @ ''.tmp'') c, rename_file (target @ ''.tmp'') target]) (file_bytes s p)))"

definition repoint :: "string \<Rightarrow> string \<Rightarrow> effect" where
  "repoint i target = change_rows (update_rows (\<lambda>q. lf_id q = i) (\<lambda>q. q\<lparr>lf_storage := target\<rparr>))"

definition move_target :: "file_env \<Rightarrow> local_file \<Rightarrow> string" where
  "move_target env r = join_path (conversationFileDir env (lf_conversation r)) (path_base (lf_storage r))"

definition move_row :: "file_env \<Rightarrow> bool \<Rightarrow> local_file \<Rightarrow> file_state \<Rightarrow> effect list" where
  "move_row env linkable r s =
     (let target = move_target env r; settle = [repoint (lf_id r) target, remove_file (lf_storage r)]
      in if path_dir (lf_storage r) \<noteq> fe_root env then []
         else if realpath s target \<noteq> None then settle
         else if realpath s (lf_storage r) = None then []
         else (case copy_into s linkable (lf_storage r) target of None \<Rightarrow> [] | Some effs \<Rightarrow> effs @ settle))"

definition moveRootLocalFiles :: "file_env \<Rightarrow> bool \<Rightarrow> file_state \<Rightarrow> (file_state \<Rightarrow> effect list) list" where
  "moveRootLocalFiles env linkable s = map (move_row env linkable) (fl_rows s)"

definition stale_file :: "ms \<Rightarrow> receipt list \<Rightarrow> local_file \<Rightarrow> bool" where
  "stale_file now receipts r \<longleftrightarrow> lf_referenced r = None \<and> lf_created r < now - UNREFERENCED_LOCAL_FILE_RETENTION_MS
     \<and> \<not> (\<exists>q \<in> set receipts. rc_conversation q = lf_conversation r \<and> rc_state q \<in> {Accepted, Unknown})"

definition drop_stale_file :: "file_env \<Rightarrow> local_file \<Rightarrow> file_state \<Rightarrow> effect list" where
  "drop_stale_file env r s =
     (case managedFilePath env s (lf_storage r) of
        Inl e \<Rightarrow> []
      | Inr p \<Rightarrow> change_rows (delete_rows (\<lambda>q. lf_id q = lf_id r \<and> lf_referenced q = None)) # (case p of Some q \<Rightarrow> [remove_file q] | None \<Rightarrow> []))"

definition drop_missing :: "file_env \<Rightarrow> local_file \<Rightarrow> file_state \<Rightarrow> effect list" where
  "drop_missing env r s =
     (case managedFilePath env s (lf_storage r) of Inr None \<Rightarrow> [change_rows (delete_rows (\<lambda>q. lf_id q = lf_id r))] | _ \<Rightarrow> [])"

definition indexed_files :: "file_env \<Rightarrow> file_state \<Rightarrow> string list" where
  "indexed_files env s = concat (map (\<lambda>r. case managedFilePath env s (lf_storage r) of Inr (Some p) \<Rightarrow> [p] | _ \<Rightarrow> []) (fl_rows s))"

text \<open>The entries of a directory that are files or links, by path.\<close>

definition dir_files :: "file_state \<Rightarrow> string \<Rightarrow> string list" where
  "dir_files s dir = map fst (filter (\<lambda>e. path_dir (fst e) = dir \<and> snd e \<noteq> DDir) (fl_disk s))"

definition sub_dirs :: "file_state \<Rightarrow> string \<Rightarrow> string list" where
  "sub_dirs s dir = map fst (filter (\<lambda>e. path_dir (fst e) = dir \<and> snd e = DDir) (fl_disk s))"

text \<open>
  \<open>/^\\..+\\.tmp$/u\<close>: the doubled backslashes of the literal match a backslash followed by any character.
\<close>

definition TEMPORARY_NAME :: regex where
  "TEMPORARY_NAME = (let any = Cls (\<lambda>c. c \<noteq> CHR 0x0A \<and> c \<noteq> CHR 0x0D)
     in seqs [Bos, chr (CHR 0x5C), any, plus any, chr (CHR 0x5C), any, lit ''tmp'', Eos])"

definition unindexed :: "file_env \<Rightarrow> string list \<Rightarrow> file_state \<Rightarrow> string \<Rightarrow> bool" where
  "unindexed env indexed s p \<longleftrightarrow>
     \<not> (\<not> regex_test TEMPORARY_NAME (path_base p) \<and> (case managedFilePath env s p of Inr (Some q) \<Rightarrow> q \<in> set indexed | _ \<Rightarrow> False))"

definition removeUnindexedFiles :: "file_env \<Rightarrow> string list \<Rightarrow> string \<Rightarrow> file_state \<Rightarrow> effect list" where
  "removeUnindexedFiles env indexed dir s = map remove_file (filter (unindexed env indexed s) (dir_files s dir))"

text \<open>\<open>cleanupAttachmentRoot\<close> in its three parts.\<close>

definition cleanup_stale :: "file_env \<Rightarrow> ms \<Rightarrow> receipt list \<Rightarrow> file_state \<Rightarrow> (file_state \<Rightarrow> effect list) list" where
  "cleanup_stale env now receipts s = map (drop_stale_file env) (filter (stale_file now receipts) (fl_rows s))"

definition cleanup_missing :: "file_env \<Rightarrow> file_state \<Rightarrow> (file_state \<Rightarrow> effect list) list" where
  "cleanup_missing env s = map (drop_missing env) (fl_rows s)"

definition cleanup_unindexed :: "file_env \<Rightarrow> file_state \<Rightarrow> (file_state \<Rightarrow> effect list) list" where
  "cleanup_unindexed env s = map (removeUnindexedFiles env (indexed_files env s)) (fe_root env # sub_dirs s (fe_root env))"

definition cleanupAttachmentRoot :: "file_env \<Rightarrow> ms \<Rightarrow> receipt list \<Rightarrow> effect" where
  "cleanupAttachmentRoot env now receipts s =
     (let s = run_all (cleanup_stale env now receipts s) s; s = run_all (cleanup_missing env s) s
      in run_all (cleanup_unindexed env s) s)"

section \<open>Crashes\<close>

text \<open>A property that holds in front of and behind every effect of a list.\<close>

fun throughout :: "(file_state \<Rightarrow> bool) \<Rightarrow> effect list \<Rightarrow> file_state \<Rightarrow> bool" where
  "throughout P [] s \<longleftrightarrow> P s"
| "throughout P (e # es) s \<longleftrightarrow> P s \<and> throughout P es (e s)"

lemma run_simps [simp]: "run [] s = s" "run (e # es) s = run es (e s)"
  by (simp_all add: run_def)

lemma throughout_prefix: "throughout P es s \<Longrightarrow> P (run (take n es) s)"
proof (induction es arbitrary: s n)
  case (Cons e es)
  then show ?case by (cases n) auto
qed simp

lemma throughout_all: "throughout P es s \<Longrightarrow> P (run es s)"
  using throughout_prefix [of P es s "length es"] by simp

lemma throughout_append: "throughout P (es @ fs) s \<longleftrightarrow> throughout P es s \<and> throughout P fs (run es s)"
  by (induction es arbitrary: s) (auto dest: throughout_all, (cases fs; simp)+)

lemma throughout_mono: "throughout P es s \<Longrightarrow> (\<And>s. P s \<Longrightarrow> Q s) \<Longrightarrow> throughout Q es s"
  by (induction es arbitrary: s) auto

lemma run_for_holds:
  assumes "P s" and "\<And>it s. it \<in> set its \<Longrightarrow> P s \<Longrightarrow> throughout P (it s) s"
  shows "P (run_for n its s)"
  using assms
proof (induction its arbitrary: n s)
  case (Cons it its)
  then show ?case
    using throughout_prefix [of P "it s" s n] throughout_all [of P "it s" s] by (simp add: Let_def)
qed simp

section \<open>Paths apart\<close>

definition valid_id :: "string \<Rightarrow> bool" where
  "valid_id i \<longleftrightarrow> i \<noteq> [] \<and> list_all (\<lambda>c. is_alnum c \<or> c = CHR ''-'') i"

lemma valid_id_chars: "valid_id i \<Longrightarrow> CHR ''/'' \<notin> set i \<and> CHR ''.'' \<notin> set i \<and> CHR 0x5C \<notin> set i"
  by (auto simp: valid_id_def list_all_iff is_alnum_def)

lemma path_base_join: "CHR ''/'' \<notin> set n \<Longrightarrow> path_base (join_path d n) = n"
proof -
  assume "CHR ''/'' \<notin> set n"
  then have "takeWhile (\<lambda>c. c \<noteq> CHR ''/'') (rev n @ CHR ''/'' # rev d) = rev n"
    by (subst takeWhile_append2) auto
  then show ?thesis by (simp add: path_base_def join_path_def)
qed

lemma path_dir_join: "CHR ''/'' \<notin> set n \<Longrightarrow> path_dir (join_path d n) = d"
proof -
  assume "CHR ''/'' \<notin> set n"
  then have "dropWhile (\<lambda>c. c \<noteq> CHR ''/'') (rev n @ CHR ''/'' # rev d) = CHR ''/'' # rev d"
    by (subst dropWhile_append2) auto
  then show ?thesis by (simp add: path_dir_def join_path_def)
qed

definition legacy_path :: "file_env \<Rightarrow> string \<Rightarrow> string" where
  "legacy_path env i = join_path (fe_root env) (i @ ''.bin'')"

lemma bases:
  assumes "valid_id i"
  shows "path_base (bin_path env c i) = i @ ''.bin''" "path_base (legacy_path env i) = i @ ''.bin''"
    "path_base (tmp_path env c i) = ''.'' @ i @ ''.tmp''" "path_base (bin_path env c i @ ''.tmp'') = i @ ''.bin.tmp''"
proof -
  have join: "join_path d n @ m = join_path d (n @ m)" for d n m by (simp add: join_path_def)
  show "path_base (bin_path env c i) = i @ ''.bin''" "path_base (legacy_path env i) = i @ ''.bin''"
    "path_base (tmp_path env c i) = ''.'' @ i @ ''.tmp''" "path_base (bin_path env c i @ ''.tmp'') = i @ ''.bin.tmp''"
    using valid_id_chars [OF assms] by (simp_all add: bin_path_def legacy_path_def tmp_path_def join path_base_join)
qed

definition file_ok :: "file_env \<Rightarrow> local_file \<Rightarrow> disk_node \<Rightarrow> bool" where
  "file_ok env r n \<longleftrightarrow> (\<exists>c. n = DFile c \<and> fe_sha env c = lf_sha r \<and> length c = lf_size r)"

definition own_path :: "file_env \<Rightarrow> local_file \<Rightarrow> string" where
  "own_path env r = bin_path env (lf_conversation r) (lf_id r)"

definition file_row_ok :: "file_env \<Rightarrow> file_state \<Rightarrow> local_file \<Rightarrow> bool" where
  "file_row_ok env s r \<longleftrightarrow> valid_id (lf_id r) \<and> lf_storage r \<in> {legacy_path env (lf_id r), own_path env r}
     \<and> (\<exists>n. node_at s (lf_storage r) = Some n \<and> file_ok env r n) \<and> (\<forall>n. node_at s (own_path env r) = Some n \<longrightarrow> file_ok env r n)"

definition files_inv :: "file_env \<Rightarrow> file_state \<Rightarrow> bool" where
  "files_inv env s \<longleftrightarrow> distinct (map lf_id (fl_rows s)) \<and> (\<forall>r \<in> set (fl_rows s). file_row_ok env s r)"

text \<open>The paths at which a row's file is or may come to be.\<close>

definition claims :: "file_env \<Rightarrow> local_file \<Rightarrow> string \<Rightarrow> bool" where
  "claims env r p \<longleftrightarrow> p = legacy_path env (lf_id r) \<or> p = own_path env r"

lemma claims_base: "valid_id (lf_id r) \<Longrightarrow> claims env r p \<Longrightarrow> path_base p = lf_id r @ ''.bin''"
  by (auto simp: claims_def own_path_def bases)

lemma claims_apart:
  assumes "file_row_ok env s r" "file_row_ok env s q" "claims env r p" "claims env q p"
  shows "lf_id r = lf_id q"
  using claims_base [of r env p] claims_base [of q env p] assms by (simp add: file_row_ok_def)

lemma storage_claimed: "file_row_ok env s r \<Longrightarrow> claims env r (lf_storage r)"
  by (auto simp: file_row_ok_def claims_def)

lemma storage_base: "file_row_ok env s r \<Longrightarrow> path_base (lf_storage r) = lf_id r @ ''.bin''"
  by (auto simp: file_row_ok_def bases own_path_def)

lemma file_row_elsewhere:
  "file_row_ok env s r \<Longrightarrow> (\<And>p. claims env r p \<Longrightarrow> node_at t p = node_at s p) \<Longrightarrow> file_row_ok env t r"
  by (auto simp: file_row_ok_def claims_def)

lemma files_inv_elsewhere:
  assumes "files_inv env s" "fl_rows t = fl_rows s" "\<And>r p. r \<in> set (fl_rows s) \<Longrightarrow> claims env r p \<Longrightarrow> node_at t p = node_at s p"
  shows "files_inv env t"
  using assms unfolding files_inv_def by (metis file_row_elsewhere)

lemma nodes [simp]:
  "node_at (write_file p c s) q = (if q = p then Some (DFile c) else node_at s q)"
  "node_at (remove_file p s) q = (if q = p then None else node_at s q)"
  "node_at (change_rows f s) q = node_at s q"
  "node_at (rename_file a b s) q = (case node_at s a of None \<Rightarrow> node_at s q | Some n \<Rightarrow> if q = b then Some n else if q = a then None else node_at s q)"
  "node_at (link_file a b s) q = (case node_at s a of None \<Rightarrow> node_at s q | Some n \<Rightarrow> if q = b then Some n else node_at s q)"
  by (simp_all add: node_at_def write_file_def remove_file_def change_rows_def rename_file_def link_file_def split: option.split)

lemma rows_effects [simp]:
  "fl_rows (write_file p c s) = fl_rows s" "fl_rows (remove_file p s) = fl_rows s" "fl_rows (rename_file a b s) = fl_rows s"
  "fl_rows (link_file a b s) = fl_rows s" "fl_rows (change_rows f s) = f (fl_rows s)"
  by (simp_all add: write_file_def remove_file_def rename_file_def link_file_def change_rows_def split: option.split)

text \<open>A removal is safe unless the path is where a row has its file.\<close>

lemma inv_remove:
  assumes "files_inv env s" "\<And>r. r \<in> set (fl_rows s) \<Longrightarrow> lf_storage r \<noteq> p"
  shows "files_inv env (remove_file p s)"
  using assms by (auto simp: files_inv_def file_row_ok_def)

lemma inv_rows:
  assumes "files_inv env s" "set rows \<subseteq> set (fl_rows s)" "distinct (map lf_id rows)"
  shows "files_inv env (change_rows (\<lambda>_. rows) s)"
  using assms file_row_elsewhere [of env s _ "change_rows (\<lambda>_. rows) s"] by (auto simp: files_inv_def)

lemma inv_delete: "files_inv env s \<Longrightarrow> files_inv env (change_rows (delete_rows P) s)"
  using file_row_elsewhere [of env s _ "change_rows (delete_rows P) s"] by (auto simp: files_inv_def delete_rows_def distinct_map_filter)

lemma dir_name_head: "\<exists>y ys. conversationFileDirName env i = y # ys \<and> y \<noteq> CHR ''.''"
proof (cases "dir_name_chars i")
  case True
  then show ?thesis by (cases i) (auto simp: conversationFileDirName_def dir_name_chars_def is_alnum_def)
qed (simp add: conversationFileDirName_def)

lemma managed_ok:
  assumes "file_row_ok env s r"
  shows "managedFilePath env s (lf_storage r) = Inr (Some (lf_storage r))"
proof -
  obtain c where node: "node_at s (lf_storage r) = Some (DFile c)"
    using assms by (auto simp: file_row_ok_def file_ok_def)
  have i: "valid_id (lf_id r)" using assms by (simp add: file_row_ok_def)
  obtain x xs where x: "lf_id r = x # xs" "x \<noteq> CHR ''.''"
    using i valid_id_chars [OF i] by (cases "lf_id r") (auto simp: valid_id_def)
  obtain y ys where y: "conversationFileDirName env (lf_conversation r) = y # ys" "y \<noteq> CHR ''.''"
    using dir_name_head by blast
  have "lf_storage r = fe_root env @ ''/'' @ lf_id r @ ''.bin'' \<or> lf_storage r = fe_root env @ ''/'' @ (y # ys) @ ''/'' @ lf_id r @ ''.bin''"
    using assms y(1) by (auto simp: file_row_ok_def legacy_path_def own_path_def bin_path_def conversationFileDir_def join_path_def)
  then show ?thesis
    using node x y by (auto simp: managedFilePath_def realpath_def file_bytes_def Let_def)
qed

section \<open>Every effect keeps the files\<close>

lemma unclaimed_base:
  assumes "files_inv env s" "r \<in> set (fl_rows s)" "\<And>i. path_base p \<noteq> i @ ''.bin''"
  shows "\<not> claims env r p"
  using assms claims_base [of r env p] by (auto simp: files_inv_def file_row_ok_def)

lemma fresh_unclaimed:
  assumes "files_inv env s" "r \<in> set (fl_rows s)" "valid_id i" "i \<notin> lf_id ` set (fl_rows s)"
  shows "\<not> claims env r (bin_path env c i)"
  using assms claims_base [of r env "bin_path env c i"] bases(1) [OF assms(3)] by (auto simp: files_inv_def file_row_ok_def)

lemma tmp_base: "valid_id i \<Longrightarrow> path_base (tmp_path env c i) \<noteq> j @ ''.bin''" "valid_id i \<Longrightarrow> path_base (bin_path env c i @ ''.tmp'') \<noteq> j @ ''.bin''"
proof -
  assume i: "valid_id i"
  have ends: "xs @ ''p'' \<noteq> ys @ ''n''" for xs ys :: string by simp
  show "path_base (tmp_path env c i) \<noteq> j @ ''.bin''"
    using ends [of "''.'' @ i @ ''.tm''" "j @ ''.bi''"] by (simp add: bases(3) [OF i])
  show "path_base (bin_path env c i @ ''.tmp'') \<noteq> j @ ''.bin''"
    using ends [of "i @ ''.bin.tm''" "j @ ''.bi''"] by (simp add: bases(4) [OF i])
qed

lemma inv_write_tmp: "files_inv env s \<Longrightarrow> (\<And>i. path_base p \<noteq> i @ ''.bin'') \<Longrightarrow> files_inv env (write_file p c s)"
  by (rule files_inv_elsewhere) (use unclaimed_base in auto)

text \<open>The file is in place before its row is.\<close>

definition written :: "file_env \<Rightarrow> file_input \<Rightarrow> string \<Rightarrow> effect" where
  "written env q uuid s =
     (let tmp = tmp_path env (fi_conversation q) uuid
      in rename_file tmp (bin_path env (fi_conversation q) uuid) (write_file tmp (fi_data q) (write_file tmp [] s)))"

lemma written_inv:
  assumes inv: "files_inv env s" and i: "valid_id uuid" "uuid \<notin> lf_id ` set (fl_rows s)"
  shows "files_inv env (written env q uuid s)" "files_inv env (change_rows (\<lambda>rows. rows @ [new_file env q uuid now]) (written env q uuid s))"
proof -
  let ?tmp = "tmp_path env (fi_conversation q) uuid" and ?new = "new_file env q uuid now" and ?s = "written env q uuid s"
  have node: "node_at ?s p = (if p = lf_storage ?new then Some (DFile (fi_data q)) else if p = ?tmp then None else node_at s p)" for p
    by (simp add: written_def Let_def new_file_def)
  have rows: "fl_rows ?s = fl_rows s" by (simp add: written_def Let_def)
  show inv3: "files_inv env ?s"
  proof (rule files_inv_elsewhere [OF inv])
    show "node_at ?s p = node_at s p" if "r \<in> set (fl_rows s)" "claims env r p" for r p
      using that fresh_unclaimed [OF inv that(1) i] unclaimed_base [OF inv that(1) tmp_base(1) [OF i(1)]] by (auto simp: node new_file_def)
  qed (simp add: rows)
  have "file_row_ok env ?s ?new"
    using i by (auto simp: file_row_ok_def node file_ok_def) (simp_all add: new_file_def own_path_def)
  then show "files_inv env (change_rows (\<lambda>rows. rows @ [?new]) ?s)"
    using inv3 i file_row_elsewhere [of env ?s _ "change_rows (\<lambda>rows. rows @ [?new]) ?s"] by (auto simp: files_inv_def rows new_file_def)
qed

lemma remove_managed_throughout:
  assumes "files_inv env s" "\<And>p r. p \<in> set ps \<Longrightarrow> r \<in> set (fl_rows s) \<Longrightarrow> managedFilePath env t p \<noteq> Inr (Some (lf_storage r))"
  shows "throughout (files_inv env) (remove_managed env ps t) s"
  using assms
proof (induction ps arbitrary: s)
  case (Cons p ps)
  have "files_inv env (remove_file q s)" if "managedFilePath env t p = Inr (Some q)" for q
    using Cons.prems that by (intro inv_remove) auto
  then show ?case
    using Cons.IH [of s] Cons.IH [of "remove_file _ s"] Cons.prems by (auto split: sum.split option.split)
qed simp

lemma managed_row:
  assumes "files_inv env s" "r \<in> set (fl_rows s)"
  shows "managedFilePath env s (lf_storage r) = Inr (Some (lf_storage r))"
  using assms managed_ok by (simp add: files_inv_def)

lemma storage_apart:
  assumes "files_inv env s" "r \<in> set (fl_rows s)" "q \<in> set (fl_rows s)" "lf_storage r = lf_storage q"
  shows "r = q"
proof -
  have "file_row_ok env s r" "file_row_ok env s q" using assms by (auto simp: files_inv_def)
  then have "lf_id r = lf_id q"
    using claims_apart storage_claimed assms(4) by metis
  then show ?thesis using assms by (auto simp: files_inv_def distinct_map dest: inj_onD)
qed

lemma removes_throughout:
  "files_inv env s \<Longrightarrow> (\<And>p r. p \<in> set ps \<Longrightarrow> r \<in> set (fl_rows s) \<Longrightarrow> lf_storage r \<noteq> p) \<Longrightarrow> throughout (files_inv env) (map remove_file ps) s"
proof (induction ps arbitrary: s)
  case (Cons q qs)
  then show ?case using inv_remove [of env s q] Cons.IH [of "remove_file q s"] by simp
qed simp

text \<open>Deleting rows and then their files.\<close>

lemma delete_throughout:
  assumes inv: "files_inv env s" and ps: "\<And>p. p \<in> set ps \<Longrightarrow> \<exists>r \<in> set (fl_rows s). lf_storage r = p \<and> P r"
  shows "throughout (files_inv env) (change_rows (delete_rows P) # map remove_file ps) s"
proof -
  have "lf_storage r \<noteq> p" if "p \<in> set ps" "r \<in> set (delete_rows P (fl_rows s))" for p r
    using ps [OF that(1)] that(2) storage_apart [OF inv] by auto
  then have "throughout (files_inv env) (map remove_file ps) (change_rows (delete_rows P) s)"
    by (intro removes_throughout inv_delete [OF inv]) auto
  then show ?thesis using inv by simp
qed

lemma delete_owned_throughout:
  assumes inv: "files_inv env s"
  shows "throughout (files_inv env) (deleteOwnedLocalFile env i conversation tenant member s) s"
proof (cases "getOwnedLocalFile i conversation tenant member s")
  case (Some r)
  then have r: "r \<in> set (fl_rows s)" "lf_id r = i"
    using find_Some_in by (fastforce simp: getOwnedLocalFile_def)+
  have "throughout (files_inv env) (change_rows (delete_rows (\<lambda>q. lf_id q = i)) # map remove_file [lf_storage r]) s"
    by (rule delete_throughout [OF inv]) (use r in auto)
  then show ?thesis
    using Some managed_row [OF inv r(1)] by (simp add: deleteOwnedLocalFile_def)
qed (simp add: deleteOwnedLocalFile_def inv)

lemma delete_conversation_throughout:
  assumes inv: "files_inv env s"
  shows "throughout (files_inv env) (deleteConversationLocalFiles env conversation tenant member s) s"
proof -
  let ?P = "owned_file conversation tenant member"
  let ?rows = "filter ?P (fl_rows s)"
  have managed: "map (\<lambda>r. managedFilePath env s (lf_storage r)) ?rows = map (\<lambda>r. Inr (Some (lf_storage r))) ?rows"
    using managed_row [OF inv] by simp
  have "concat (map (\<lambda>p. case p of Inr (Some q) \<Rightarrow> [remove_file q] | _ \<Rightarrow> []) (map (\<lambda>r. Inr (Some (lf_storage r))) xs)) = map remove_file (map lf_storage xs)"
    for xs :: "local_file list" by (induction xs) simp_all
  then have "deleteConversationLocalFiles env conversation tenant member s = change_rows (delete_rows ?P) # map remove_file (map lf_storage ?rows)"
    unfolding deleteConversationLocalFiles_def Let_def managed by (simp add: list_ex_iff)
  moreover have "throughout (files_inv env) (change_rows (delete_rows ?P) # map remove_file (map lf_storage ?rows)) s"
    by (rule delete_throughout [OF inv]) auto
  ultimately show ?thesis by simp
qed

lemma inv_update:
  assumes "files_inv env s"
    and "\<And>r. lf_id (f r) = lf_id r \<and> lf_conversation (f r) = lf_conversation r \<and> lf_sha (f r) = lf_sha r \<and> lf_size (f r) = lf_size r \<and> lf_storage (f r) = lf_storage r"
  shows "files_inv env (change_rows (update_rows P f) s)"
proof -
  have "map lf_id (update_rows P f (fl_rows s)) = map lf_id (fl_rows s)"
    using assms(2) by (simp add: update_rows_def)
  moreover have "file_row_ok env (change_rows (update_rows P f) s) (f r) \<longleftrightarrow> file_row_ok env s r"
    "file_row_ok env (change_rows (update_rows P f) s) r \<longleftrightarrow> file_row_ok env s r" for r
    using assms(2) [of r] by (simp_all add: file_row_ok_def own_path_def file_ok_def)
  ultimately show ?thesis
    using assms(1) by (auto simp: files_inv_def ball_update_rows)
qed

lemma mark_throughout:
  "files_inv env s \<Longrightarrow> throughout (files_inv env) (markLocalFilesReferenced now ids conversation tenant member kind) s"
  unfolding markLocalFilesReferenced_def
  by (induction ids arbitrary: s) (simp_all add: mark_file_def inv_update)

lemma set_path_throughout:
  "files_inv env s \<Longrightarrow> setArtifactPath i p = Inr effs \<Longrightarrow> throughout (files_inv env) effs s"
  by (auto simp: setArtifactPath_def inv_update split: if_splits)

section \<open>Start-up keeps the files\<close>

definition moved_from :: "file_env \<Rightarrow> local_file list \<Rightarrow> file_state \<Rightarrow> bool" where
  "moved_from env rows s \<longleftrightarrow> files_inv env s \<and> map lf_id (fl_rows s) = map lf_id rows \<and> (\<forall>q \<in> set (fl_rows s). \<exists>r \<in> set rows. q = r \<or> q = r\<lparr>lf_storage := own_path env r\<rparr>)"

definition placed :: "file_env \<Rightarrow> local_file \<Rightarrow> bool" where
  "placed env r \<longleftrightarrow> valid_id (lf_id r) \<and> lf_storage r \<in> {legacy_path env (lf_id r), own_path env r}"

lemma own_path_repointed [simp]: "own_path env (r\<lparr>lf_storage := p\<rparr>) = own_path env r"
  by (simp add: own_path_def)

lemma own_not_legacy: "own_path env r \<noteq> legacy_path env (lf_id r)"
proof
  assume "own_path env r = legacy_path env (lf_id r)"
  then have "length (own_path env r) = length (legacy_path env (lf_id r))" by simp
  then show False
    by (simp add: own_path_def bin_path_def legacy_path_def conversationFileDir_def join_path_def)
qed

lemma legacy_by_dir: "placed env r \<Longrightarrow> path_dir (lf_storage r) = fe_root env \<Longrightarrow> lf_storage r = legacy_path env (lf_id r)"
proof (rule ccontr)
  assume r: "placed env r" "path_dir (lf_storage r) = fe_root env" "lf_storage r \<noteq> legacy_path env (lf_id r)"
  then have "lf_storage r = join_path (conversationFileDir env (lf_conversation r)) (lf_id r @ ''.bin'')"
    by (simp add: placed_def own_path_def bin_path_def)
  moreover have "CHR ''/'' \<notin> set (lf_id r @ ''.bin'')" using valid_id_chars r(1) by (auto simp: placed_def)
  ultimately have "conversationFileDir env (lf_conversation r) = fe_root env"
    using r(2) path_dir_join by metis
  then show False by (simp add: conversationFileDir_def join_path_def)
qed

lemma row_of_id:
  assumes "moved_from env rows s" "distinct (map lf_id rows)" "r \<in> set rows" "q \<in> set (fl_rows s)" "lf_id q = lf_id r"
  shows "q = r \<or> q = r\<lparr>lf_storage := own_path env r\<rparr>"
proof -
  obtain r' where "r' \<in> set rows" "q = r' \<or> q = r'\<lparr>lf_storage := own_path env r'\<rparr>"
    using assms(1,4) by (auto simp: moved_from_def)
  moreover from this have "lf_id r' = lf_id r" using assms(5) by auto
  ultimately show ?thesis using assms(2,3) by (auto simp: distinct_map dest: inj_onD)
qed

lemma repoint_inv:
  assumes from_rows: "moved_from env rows s" and rows: "distinct (map lf_id rows)" "r \<in> set rows"
    and there: "node_at s (own_path env r) \<noteq> None"
  shows "moved_from env rows (repoint (lf_id r) (own_path env r) s)"
    and "\<And>q. q \<in> set (fl_rows (repoint (lf_id r) (own_path env r) s)) \<Longrightarrow> lf_id q = lf_id r \<Longrightarrow> lf_storage q = own_path env r"
proof -
  let ?f = "\<lambda>q. q\<lparr>lf_storage := own_path env r\<rparr>" and ?s = "repoint (lf_id r) (own_path env r) s"
  have inv: "files_inv env s" using from_rows by (simp add: moved_from_def)
  have rows': "fl_rows ?s = update_rows (\<lambda>q. lf_id q = lf_id r) ?f (fl_rows s)" and nodes': "node_at ?s p = node_at s p" for p
    by (simp_all add: repoint_def)
  have new: "file_row_ok env ?s (?f q)" "?f q = r\<lparr>lf_storage := own_path env r\<rparr>" if "q \<in> set (fl_rows s)" "lf_id q = lf_id r" for q
  proof -
    have same: "?f q = r\<lparr>lf_storage := own_path env r\<rparr>" and own: "own_path env q = own_path env r"
      using row_of_id [OF from_rows rows that] by auto
    have "file_row_ok env s q" using inv that by (simp add: files_inv_def)
    then show "file_row_ok env ?s (?f q)" using there own by (auto simp: file_row_ok_def nodes' file_ok_def)
    show "?f q = r\<lparr>lf_storage := own_path env r\<rparr>" by (rule same)
  qed
  have keep: "file_row_ok env ?s q" if "q \<in> set (fl_rows s)" for q
    using inv that file_row_elsewhere [of env s q ?s] by (simp add: files_inv_def nodes')
  have "distinct (map lf_id (fl_rows ?s))"
    using inv by (simp add: rows' files_inv_def update_rows_def comp_def if_distrib cong: if_cong)
  moreover have ids: "map lf_id (fl_rows ?s) = map lf_id (fl_rows s)"
    by (simp add: rows' update_rows_def)
  ultimately have "files_inv env ?s"
    using new(1) keep by (simp add: files_inv_def rows' ball_update_rows)
  then show "moved_from env rows ?s"
    using from_rows new(2) rows(2) ids by (auto simp: moved_from_def rows' ball_update_rows)
  show "lf_storage q = own_path env r" if "q \<in> set (fl_rows ?s)" "lf_id q = lf_id r" for q
    using that by (auto simp: rows' set_update_rows split: if_splits)
qed

lemma remove_legacy_inv:
  assumes "moved_from env rows s" "\<And>q. q \<in> set (fl_rows s) \<Longrightarrow> lf_id q = lf_id r \<Longrightarrow> lf_storage q = own_path env r" "valid_id (lf_id r)"
  shows "moved_from env rows (remove_file (legacy_path env (lf_id r)) s)"
proof -
  have inv: "files_inv env s" using assms(1) by (simp add: moved_from_def)
  have "lf_storage q \<noteq> legacy_path env (lf_id r)" if "q \<in> set (fl_rows s)" for q
  proof
    assume at_legacy: "lf_storage q = legacy_path env (lf_id r)"
    have ok: "file_row_ok env s q" using inv that by (simp add: files_inv_def)
    then have "lf_id q = lf_id r" using at_legacy bases(2) [OF assms(3)] storage_base [OF ok] by simp
    then show False using assms(2) [OF that] at_legacy own_not_legacy [of env r] by simp
  qed
  then show ?thesis
    using assms(1) inv_remove [OF inv] by (simp add: moved_from_def)
qed

lemma repoint_throughout:
  assumes "moved_from env rows s" "distinct (map lf_id rows)" "r \<in> set rows" "node_at s (own_path env r) \<noteq> None" "valid_id (lf_id r)"
  shows "throughout (moved_from env rows) [repoint (lf_id r) (own_path env r), remove_file (legacy_path env (lf_id r))] s"
  using assms repoint_inv [OF assms(1-4)] remove_legacy_inv [OF repoint_inv(1) [OF assms(1-4)], of r] by simp

text \<open>Putting the file at its new place, where nothing is yet.\<close>

lemma place_inv:
  assumes from_rows: "moved_from env rows s" and rows: "distinct (map lf_id rows)" "r \<in> set rows" "valid_id (lf_id r)"
    and old: "lf_storage r = legacy_path env (lf_id r)" "node_at s (own_path env r) = None"
    and t: "fl_rows t = fl_rows s" "node_at t (own_path env r) = node_at s (legacy_path env (lf_id r))"
      "\<And>p. p \<noteq> own_path env r \<Longrightarrow> (\<exists>i. path_base p = i @ ''.bin'') \<Longrightarrow> node_at t p = node_at s p"
  shows "moved_from env rows t"
proof -
  have inv: "files_inv env s" using from_rows by (simp add: moved_from_def)
  have "file_row_ok env t q" if "q \<in> set (fl_rows s)" for q
  proof -
    have ok: "file_row_ok env s q" using inv that by (simp add: files_inv_def)
    have base: "\<exists>i. path_base p = i @ ''.bin''" if "claims env q p" for p
      using claims_base that ok by (auto simp: file_row_ok_def)
    show ?thesis
    proof (cases "lf_id q = lf_id r")
      case False
      then have "\<not> claims env q (own_path env r)"
        using claims_base [of q env "own_path env r"] ok bases(1) [OF rows(3)] by (auto simp: file_row_ok_def own_path_def)
      then show ?thesis
        by (intro file_row_elsewhere [OF ok] t(3)) (use base in auto)
    next
      case True
      have "lf_storage q \<noteq> own_path env r"
      proof
        assume "lf_storage q = own_path env r"
        with ok old(2) show False by (simp add: file_row_ok_def)
      qed
      then have "q = r" using row_of_id [OF from_rows rows(1,2) that True] by force
      moreover have "node_at t (legacy_path env (lf_id r)) = node_at s (legacy_path env (lf_id r))"
        using t(3) [OF own_not_legacy [of env r, symmetric] exI, OF bases(2) [OF rows(3)]] by simp
      ultimately show ?thesis
        using ok old t(2) by (auto simp: file_row_ok_def)
    qed
  qed
  then show ?thesis
    using from_rows inv by (simp add: moved_from_def files_inv_def t(1))
qed

lemma real_file: "file_row_ok env s q \<Longrightarrow> realpath s (lf_storage q) = Some (lf_storage q)"
  by (auto simp: file_row_ok_def file_ok_def realpath_def)

lemma copied_throughout:
  assumes from_rows: "moved_from env rows s" and rows: "distinct (map lf_id rows)" "r \<in> set rows" "valid_id (lf_id r)"
    and old: "lf_storage r = legacy_path env (lf_id r)" and free: "node_at s (own_path env r) = None"
    and copy: "copy_into s linkable (legacy_path env (lf_id r)) (own_path env r) = Some effs"
  shows "throughout (moved_from env rows) (effs @ [repoint (lf_id r) (own_path env r), remove_file (legacy_path env (lf_id r))]) s"
proof -
  let ?own = "own_path env r" and ?old = "legacy_path env (lf_id r)"
  have inv: "files_inv env s" using from_rows by (simp add: moved_from_def)
  obtain q where q: "q \<in> set (fl_rows s)" "lf_id q = lf_id r"
    using from_rows rows(2) unfolding moved_from_def by (metis in_set_conv_nth length_map nth_map)
  have okq: "file_row_ok env s q" using inv q by (simp add: files_inv_def)
  then have "lf_storage q \<noteq> ?own" using free by (auto simp: file_row_ok_def)
  then have "q = r" using row_of_id [OF from_rows rows(1,2) q] by force
  then obtain c where c: "node_at s ?old = Some (DFile c)" using okq old by (auto simp: file_row_ok_def file_ok_def)
  have tmp: "path_base (?own @ ''.tmp'') \<noteq> j @ ''.bin''" for j
    using tmp_base(2) [OF rows(3)] by (simp add: own_path_def)
  have placed: "moved_from env rows t" if "fl_rows t = fl_rows s" "node_at t ?own = node_at s ?old"
      "\<And>p. p \<noteq> ?own \<Longrightarrow> (\<exists>i. path_base p = i @ ''.bin'') \<Longrightarrow> node_at t p = node_at s p" for t
    by (rule place_inv [OF from_rows rows old free that])
  have settle: "throughout (moved_from env rows) [repoint (lf_id r) ?own, remove_file ?old] t" if "moved_from env rows t" "node_at t ?own \<noteq> None" for t
    by (rule repoint_throughout [OF that(1) rows(1,2) that(2) rows(3)])
  show ?thesis
  proof (cases linkable)
    case True
    have "moved_from env rows (link_file ?old ?own s)" by (rule placed) (simp_all add: c)
    moreover have "effs = [link_file ?old ?own]" using copy True by (simp add: copy_into_def)
    ultimately show ?thesis
      using from_rows settle [of "link_file ?old ?own s"] c by simp
  next
    case False
    let ?t = "rename_file (?own @ ''.tmp'') ?own (write_file (?own @ ''.tmp'') c s)"
    have effs: "effs = [write_file (?own @ ''.tmp'') c, rename_file (?own @ ''.tmp'') ?own]"
      using copy False c by (simp add: copy_into_def realpath_def file_bytes_def)
    have "moved_from env rows (write_file (?own @ ''.tmp'') c s)"
      using from_rows inv_write_tmp [OF inv tmp] by (simp add: moved_from_def)
    moreover have "moved_from env rows ?t"
      by (rule placed) (use tmp c in auto)
    ultimately show ?thesis
      using from_rows settle [of ?t] by (simp add: effs)
  qed
qed

lemma moves_throughout:
  assumes from_rows: "moved_from env rows s" and rows: "distinct (map lf_id rows)" "r \<in> set rows" "placed env r"
  shows "throughout (moved_from env rows) (move_row env linkable r s) s"
proof (cases "path_dir (lf_storage r) = fe_root env")
  case True
  let ?own = "own_path env r" and ?old = "legacy_path env (lf_id r)"
  have i: "valid_id (lf_id r)" using rows(3) by (simp add: placed_def)
  have old: "lf_storage r = ?old" by (rule legacy_by_dir [OF rows(3) True])
  have target: "move_target env r = ?own"
    by (simp add: move_target_def old bases(2) [OF i] own_path_def bin_path_def)
  have inv: "files_inv env s" using from_rows by (simp add: moved_from_def)
  obtain q where q: "q \<in> set (fl_rows s)" "lf_id q = lf_id r"
    using from_rows rows(2) unfolding moved_from_def by (metis in_set_conv_nth length_map nth_map)
  have "own_path env q = ?own" using row_of_id [OF from_rows rows(1,2) q] by auto
  then have free: "realpath s ?own = None \<longleftrightarrow> node_at s ?own = None"
    using inv q(1) by (auto simp: files_inv_def file_row_ok_def file_ok_def realpath_def split: option.split disk_node.split)
  have settle: "throughout (moved_from env rows) [repoint (lf_id r) ?own, remove_file ?old] s" if "node_at s ?own \<noteq> None"
    by (rule repoint_throughout [OF from_rows rows(1,2) that i])
  have at_root: "path_dir ?old = fe_root env" using True old by simp
  show ?thesis
  proof (cases "node_at s ?own = None")
    case True
    then have none: "realpath s ?own = None" using free by simp
    have "throughout (moved_from env rows) (effs @ [repoint (lf_id r) ?own, remove_file ?old]) s"
      if "copy_into s linkable ?old ?own = Some effs" for effs
      by (rule copied_throughout [OF from_rows rows(1,2) i old True that])
    then show ?thesis
      using from_rows by (auto simp: move_row_def Let_def old target none at_root split: option.split)
  next
    case False
    then have "move_row env linkable r s = [repoint (lf_id r) ?own, remove_file ?old]"
      using free by (auto simp: move_row_def Let_def old target at_root)
    then show ?thesis using settle [OF False] by simp
  qed
qed (simp add: move_row_def Let_def from_rows)

lemma move_files_inv:
  assumes inv: "files_inv env s"
  shows "files_inv env (run_for n (moveRootLocalFiles env linkable s) s)"
proof -
  have rows: "distinct (map lf_id (fl_rows s))" "r \<in> set (fl_rows s) \<Longrightarrow> placed env r" for r
    using inv by (auto simp: files_inv_def file_row_ok_def placed_def)
  have "moved_from env (fl_rows s) (run_for n (moveRootLocalFiles env linkable s) s)"
  proof (rule run_for_holds)
    show "moved_from env (fl_rows s) s" using inv by (auto simp: moved_from_def)
    show "throughout (moved_from env (fl_rows s)) (it t) t" if "it \<in> set (moveRootLocalFiles env linkable s)" "moved_from env (fl_rows s) t" for it t
      using that moves_throughout [OF that(2) rows(1)] rows(2) by (auto simp: moveRootLocalFiles_def)
  qed
  then show ?thesis by (simp add: moved_from_def)
qed

text \<open>A loop over captured rows, with what holds of the rows still to come.\<close>

lemma run_for_rows:
  assumes "Q rs s" and "\<And>rs s. Q rs s \<Longrightarrow> P s"
    and "\<And>r rs s. Q (r # rs) s \<Longrightarrow> throughout P (f r s) s \<and> Q rs (run (f r s) s)"
  shows "P (run_for n (map f rs) s)"
  using assms(1)
proof (induction rs arbitrary: n s)
  case Nil
  then show ?case using assms(2) by simp
next
  case (Cons r rs)
  then show ?case
    using assms(3) throughout_prefix [of P "f r s" s n] by (auto simp: Let_def)
qed

lemma rows_removes [simp]: "fl_rows (run (map remove_file ps) s) = fl_rows s"
  by (induction ps arbitrary: s) simp_all

lemma stale_inv:
  assumes inv: "files_inv env s"
  shows "files_inv env (run_for n (cleanup_stale env now receipts s) s)"
  unfolding cleanup_stale_def
proof (rule run_for_rows [where Q = "\<lambda>rs t. files_inv env t \<and> distinct (map lf_id rs) \<and> set rs \<subseteq> set (fl_rows t) \<and> (\<forall>r \<in> set rs. lf_referenced r = None)"])
  show "files_inv env s \<and> distinct (map lf_id (filter (stale_file now receipts) (fl_rows s))) \<and> set (filter (stale_file now receipts) (fl_rows s)) \<subseteq> set (fl_rows s)
      \<and> (\<forall>r \<in> set (filter (stale_file now receipts) (fl_rows s)). lf_referenced r = None)"
    using inv by (auto simp: files_inv_def distinct_map_filter stale_file_def)
next
  fix r rs t
  assume Q: "files_inv env t \<and> distinct (map lf_id (r # rs)) \<and> set (r # rs) \<subseteq> set (fl_rows t) \<and> (\<forall>q \<in> set (r # rs). lf_referenced q = None)"
  let ?P = "\<lambda>q. lf_id q = lf_id r \<and> lf_referenced q = None"
  let ?effs = "change_rows (delete_rows ?P) # map remove_file [lf_storage r]"
  have effs: "drop_stale_file env r t = ?effs"
    using Q managed_row [of env t r] by (simp add: drop_stale_file_def)
  have "throughout (files_inv env) ?effs t"
    by (rule delete_throughout) (use Q in auto)
  moreover have "set rs \<subseteq> set (fl_rows (run ?effs t))"
    using Q by (auto, metis image_eqI)
  ultimately show "throughout (files_inv env) (drop_stale_file env r t) t \<and> files_inv env (run (drop_stale_file env r t) t) \<and> distinct (map lf_id rs)
      \<and> set rs \<subseteq> set (fl_rows (run (drop_stale_file env r t) t)) \<and> (\<forall>q \<in> set rs. lf_referenced q = None)"
    unfolding effs using Q throughout_all by auto
qed simp

lemma missing_inv:
  assumes inv: "files_inv env s"
  shows "files_inv env (run_for n (cleanup_missing env s) s)"
  unfolding cleanup_missing_def
proof (rule run_for_rows [where Q = "\<lambda>rs t. files_inv env t \<and> set rs \<subseteq> set (fl_rows t)"])
  fix r rs t
  assume "files_inv env t \<and> set (r # rs) \<subseteq> set (fl_rows t)"
  moreover from this have "drop_missing env r t = []"
    using managed_row [of env t r] by (simp add: drop_missing_def)
  ultimately show "throughout (files_inv env) (drop_missing env r t) t \<and> files_inv env (run (drop_missing env r t) t) \<and> set rs \<subseteq> set (fl_rows (run (drop_missing env r t) t))"
    by simp
qed (use inv in auto)

lemma not_temporary: "x \<noteq> CHR 0x5C \<Longrightarrow> \<not> regex_test TEMPORARY_NAME (x # xs)"
  by (simp add: TEMPORARY_NAME_def Let_def seqs_def regex_test_Bos_Seq chr_def)

lemma indexed_row: "files_inv env s \<Longrightarrow> r \<in> set (fl_rows s) \<Longrightarrow> lf_storage r \<in> set (indexed_files env s)"
  using managed_row [of env s r] by (force simp: indexed_files_def)

lemma indexed_kept:
  assumes inv: "files_inv env s" and r: "r \<in> set (fl_rows s)" "lf_storage r \<in> set indexed"
  shows "\<not> unindexed env indexed s (lf_storage r)"
proof -
  have ok: "file_row_ok env s r" using inv r by (simp add: files_inv_def)
  then obtain x xs where "lf_id r = x # xs" "x \<noteq> CHR 0x5C"
    using valid_id_chars [of "lf_id r"] by (cases "lf_id r") (auto simp: file_row_ok_def valid_id_def)
  then show ?thesis
    using r managed_row [OF inv r(1)] by (simp add: unindexed_def storage_base [OF ok] not_temporary)
qed

lemma unindexed_inv:
  assumes inv: "files_inv env s"
  shows "files_inv env (run_for n (cleanup_unindexed env s) s)"
proof -
  let ?Q = "\<lambda>(_ :: string list) t. files_inv env t \<and> (\<forall>r \<in> set (fl_rows t). lf_storage r \<in> set (indexed_files env s))"
  show ?thesis
    unfolding cleanup_unindexed_def
  proof (rule run_for_rows [where Q = ?Q])
    fix dir dirs t
    assume Q: "files_inv env t \<and> (\<forall>r \<in> set (fl_rows t). lf_storage r \<in> set (indexed_files env s))"
    have "lf_storage r \<noteq> p" if "p \<in> set (filter (unindexed env (indexed_files env s) t) (dir_files t dir))" "r \<in> set (fl_rows t)" for p r
      using that Q indexed_kept by auto
    then have "throughout (files_inv env) (removeUnindexedFiles env (indexed_files env s) dir t) t"
      unfolding removeUnindexedFiles_def using Q by (intro removes_throughout) auto
    then show "throughout (files_inv env) (removeUnindexedFiles env (indexed_files env s) dir t) t
        \<and> files_inv env (run (removeUnindexedFiles env (indexed_files env s) dir t) t)
        \<and> (\<forall>r \<in> set (fl_rows (run (removeUnindexedFiles env (indexed_files env s) dir t) t)). lf_storage r \<in> set (indexed_files env s))"
      using Q throughout_all by (auto simp: removeUnindexedFiles_def)
  qed (use inv indexed_row in auto)
qed

lemma replaced_in: "r \<in> set (replaced_files q s) \<Longrightarrow> r \<in> set (fl_rows s)"
  by (auto simp: replaced_files_def getOwnedLocalFile_def split: option.splits dest!: sym [THEN find_Some_in])

lemma managed_same_disk: "node_at s = node_at t \<Longrightarrow> managedFilePath env s = managedFilePath env t"
  by (rule ext) (simp add: managedFilePath_def realpath_def file_bytes_def cong: option.case_cong disk_node.case_cong)

lemma create_inv:
  assumes inv: "files_inv env s" and i: "valid_id uuid" "uuid \<notin> lf_id ` set (fl_rows s)" and created: "createLocalFile env q uuid now s = Inr its"
  shows "files_inv env (run_for n its s)"
proof -
  let ?tmp = "tmp_path env (fi_conversation q) uuid" and ?new = "new_file env q uuid now" and ?w = "written env q uuid s"
  let ?old = "replaced_files q s"
  let ?drop = "\<lambda>r. lf_id r \<in> lf_id ` set ?old"
  let ?effs = "[write_file ?tmp [], write_file ?tmp (fi_data q), rename_file ?tmp (bin_path env (fi_conversation q) uuid),
      change_rows (\<lambda>rows. delete_rows ?drop (rows @ [?new]))]"
  have its: "its = [\<lambda>_. ?effs, remove_managed env (map lf_storage ?old)]"
    using created by (simp add: createLocalFile_def Let_def split: option.splits)
  let ?c = "change_rows (\<lambda>rows. rows @ [?new]) ?w" and ?t = "run ?effs s"
  have t: "?t = change_rows (delete_rows ?drop) ?c"
    by (simp add: written_def Let_def change_rows_def)
  note inv_w = written_inv(1) [OF inv i, of q] and inv_c = written_inv(2) [OF inv i, of q now]
  have inv_t: "files_inv env ?t" unfolding t by (rule inv_delete [OF inv_c])
  have first: "throughout (files_inv env) ?effs s"
    using inv inv_w inv_t inv_write_tmp [OF inv tmp_base(1) [OF i(1)]] inv_write_tmp [OF inv_write_tmp [OF inv tmp_base(1) [OF i(1)]] tmp_base(1) [OF i(1)]]
    by (simp add: written_def Let_def)
  have old: "r \<in> set (fl_rows ?c)" if "r \<in> set ?old" for r
    using replaced_in [OF that] by (simp add: written_def Let_def)
  have "managedFilePath env ?t (lf_storage r) = Inr (Some (lf_storage r))" if "r \<in> set ?old" for r
  proof -
    have "managedFilePath env ?t = managedFilePath env ?c"
      unfolding t by (rule managed_same_disk) (simp add: fun_eq_iff)
    then show ?thesis using managed_row [OF inv_c old [OF that]] by simp
  qed
  moreover have "lf_storage q \<noteq> lf_storage r" if "q \<in> set ?old" "r \<in> set (fl_rows ?t)" for q r
    using storage_apart [OF inv_c old [OF that(1)], of r] that unfolding t by auto
  ultimately have "throughout (files_inv env) (remove_managed env (map lf_storage ?old) ?t) ?t"
    by (intro remove_managed_throughout [OF inv_t]) auto
  then show ?thesis
    using first throughout_prefix [of "files_inv env"] throughout_all [of "files_inv env"] unfolding its by (auto simp: Let_def)
qed

section \<open>Histories\<close>

text \<open>Every operation and every part of a start-up, complete or cut off by a crash after \<open>n\<close> effects.\<close>

inductive file_step :: "file_env \<Rightarrow> file_state \<Rightarrow> file_state \<Rightarrow> bool" for env where
  create: "createLocalFile env q uuid now s = Inr its \<Longrightarrow> valid_id uuid \<Longrightarrow> uuid \<notin> lf_id ` set (fl_rows s) \<Longrightarrow> file_step env s (run_for n its s)"
| delete: "file_step env s (run (take n (deleteOwnedLocalFile env i conversation tenant member s)) s)"
| delete_conversation: "file_step env s (run (take n (deleteConversationLocalFiles env conversation tenant member s)) s)"
| mark: "file_step env s (run (take n (markLocalFilesReferenced now ids conversation tenant member kind)) s)"
| set_path: "setArtifactPath i p = Inr effs \<Longrightarrow> file_step env s (run (take n effs) s)"
| move: "file_step env s (run_for n (moveRootLocalFiles env linkable s) s)"
| stale: "file_step env s (run_for n (cleanup_stale env now receipts s) s)"
| missing: "file_step env s (run_for n (cleanup_missing env s) s)"
| unindexed: "file_step env s (run_for n (cleanup_unindexed env s) s)"

text \<open>The table an older version left: every file directly in the root.\<close>

definition legacy_table :: "file_env \<Rightarrow> file_state \<Rightarrow> bool" where
  "legacy_table env s \<longleftrightarrow> distinct (map lf_id (fl_rows s)) \<and> (\<forall>r \<in> set (fl_rows s). valid_id (lf_id r) \<and> lf_storage r = legacy_path env (lf_id r)
     \<and> (\<exists>n. node_at s (lf_storage r) = Some n \<and> file_ok env r n) \<and> node_at s (own_path env r) = None)"

lemma file_step_inv: "file_step env s t \<Longrightarrow> files_inv env s \<Longrightarrow> files_inv env t"
  by (induction rule: file_step.induct)
    (auto intro: create_inv move_files_inv stale_inv missing_inv unindexed_inv
      throughout_prefix delete_owned_throughout delete_conversation_throughout mark_throughout set_path_throughout)

lemma legacy_inv: "legacy_table env s \<Longrightarrow> files_inv env s"
  by (auto simp: legacy_table_def files_inv_def file_row_ok_def)

interpretation files: invariant_system "legacy_table env" "file_step env" "files_inv env" for env
  by unfold_locales (blast intro: legacy_inv file_step_inv)+


lemma own_temporaries_unmatched: "\<not> regex_test TEMPORARY_NAME (''.'' @ i @ ''.tmp'')"
  by (simp add: not_temporary)

definition demo_file_env :: file_env where
  "demo_file_env = \<lparr>fe_root = ''/a'', fe_sha = (\<lambda>c. ''h''), fe_nameHash = (\<lambda>i. ''n'')\<rparr>"

definition demo_input :: file_input where
  "demo_input = \<lparr>fi_conversation = ''c1'', fi_tenant = ''t'', fi_member = ''m'', fi_kind = Attachment, fi_filename = ''b'', fi_path = None, fi_mime = ''text/plain'',
     fi_data = [1, 2], fi_replaces = [], fi_reply = None\<rparr>"

definition demo_disk :: file_state where
  "demo_disk = \<lparr>fl_rows = [], fl_disk = []\<rparr>"

definition demo_stored :: local_file where
  "demo_stored = new_file demo_file_env demo_input ''u1'' 5"

text \<open>The upload, cut off right behind its transaction.\<close>

definition demo_crashed :: file_state where
  "demo_crashed = (case createLocalFile demo_file_env demo_input ''u1'' 5 demo_disk of Inr its \<Rightarrow> run_for 4 its demo_disk | Inl e \<Rightarrow> demo_disk)"


end
