(* ===== verification/Session_History.thy ===== *)
theory Session_History
  imports Local_File_Store Work_Records Session_Entries Read_Paging "HOL-Library.Multiset"
begin

text \<open>
  \<open>pi/session-history.ts\<close>: the entries of the sessions of a conversation as one history.  A stored entry
  is the JSON value of its line.  SHA-256 of a reference and the placeholder of an image are parameters; a
  key that the code renders with \<open>JSON.stringify\<close> is the value itself.
\<close>

record history_env =
  hy_event :: event_env
  hy_ref :: "jsval \<Rightarrow> string"
  hy_image :: string

record history_item =
  hm_entry :: fields
  hm_order :: "cursor_item list"
  hm_refs :: "(string \<times> string) list"

record history_source =
  hx_employee :: "string option"
  hx_role :: "participant_role option"
  hx_entries :: "jsval list"

definition historyTimestamp :: "history_env \<Rightarrow> jsval \<Rightarrow> int" where
  "historyTimestamp env entry =
     (case js_field entry ''timestamp'' of
        JStr s \<Rightarrow> nullish (ev_date (hy_event env) s) 0
      | v \<Rightarrow> (case js_integer v of Some i \<Rightarrow> if safe_integer i then i else 0 | None \<Rightarrow> 0))"

definition historyEntryRef :: "history_env \<Rightarrow> string \<Rightarrow> string option \<Rightarrow> string \<Rightarrow> string" where
  "historyEntryRef env conversation employee i = ''entry_v1_'' @ hy_ref env (JArr [JStr conversation, owner_value employee, JStr i])"

section \<open>Work of an entry\<close>

definition anchored :: "string list \<Rightarrow> int \<Rightarrow> string option \<Rightarrow> bool" where
  "anchored ids at_ordinal anchor =
     (case anchor of None \<Rightarrow> True | Some a \<Rightarrow> a = [] \<or> (0 \<le> at_ordinal \<and> nat at_ordinal < length ids \<and> ids ! nat at_ordinal = a))"

definition range_end :: "string list \<Rightarrow> int list \<Rightarrow> work_record \<Rightarrow> int option" where
  "range_end ids starts r =
     (case wk_endOrdinal r of
        Some e \<Rightarrow> Some e
      | None \<Rightarrow> if wk_outcome r = WActive then Some (nullish (next_start (wk_startOrdinal r) starts) (int (length ids))) else None)"

definition work_range :: "string list \<Rightarrow> int list \<Rightarrow> work_record \<Rightarrow> nat list" where
  "work_range ids starts r =
     (case range_end ids starts r of
        None \<Rightarrow> []
      | Some e \<Rightarrow>
          (let start = wk_startOrdinal r
           in if start < 0 \<or> e \<le> start \<or> e > int (length ids) then []
              else if \<not> anchored ids start (wk_firstEntry r) then []
              else if \<not> anchored ids (e - 1) (wk_lastEntry r) then []
              else [nat start..<nat e]))"

definition claim_ordinal :: "string \<Rightarrow> nat \<Rightarrow> (nat, string) omap \<times> nat list \<Rightarrow> (nat, string) omap \<times> nat list" where
  "claim_ordinal i n s = (if omap_get (fst s) n \<noteq> None then (fst s, n # snd s) else (omap_set n i (fst s), snd s))"

definition live_records :: "work_record list \<Rightarrow> work_record list" where
  "live_records records = sort_key wk_startOrdinal (filter (\<lambda>r. wk_provenance r = Live) records)"

definition workIdsForEntries :: "string list \<Rightarrow> work_record list \<Rightarrow> (nat, string) omap" where
  "workIdsForEntries ids records =
     (let live = live_records records; starts = js_unique (map wk_startOrdinal live);
          claimed = fold (\<lambda>r. fold (claim_ordinal (wk_id r)) (work_range ids starts r)) live ([], [])
      in fold omap_delete (snd claimed) (fst claimed))"

section \<open>Merging\<close>

text \<open>What the checklist functions read of an entry.\<close>

definition work_view :: "jsval \<Rightarrow> work_entry" where
  "work_view v =
     (let kind = js_field v ''type''; message = js_field v ''message'';
          str = (\<lambda>w. case w of JStr s \<Rightarrow> Some s | _ \<Rightarrow> None)
      in \<lparr>se_id = nullish (str (js_field v ''id'')) [],
          se_kind = (if kind = JStr ''message'' then MessageEntry
                     else if kind = JStr ''custom_message'' then CustomMessage (nullish (str (js_field v ''customType'')) []) else OtherEntry),
          se_role = nullish (str (js_field message ''role'')) [], se_toolName = str (js_field message ''toolName''),
          se_isError = js_truthy (js_field message ''isError''), se_details = js_field message ''details'',
          se_stopReason = str (js_field message ''stopReason''), se_timestamp = js_field v ''timestamp''\<rparr>)"

definition entry_members :: "jsval \<Rightarrow> fields" where
  "entry_members v = (case v of JObj fs \<Rightarrow> fs | _ \<Rightarrow> [])"

definition is_message_of :: "string \<Rightarrow> jsval \<Rightarrow> bool" where
  "is_message_of role v \<longleftrightarrow> js_field v ''type'' = JStr ''message'' \<and> js_field (js_field v ''message'') ''role'' = JStr role"

definition reconcileToolCallsOnly :: "jsval \<Rightarrow> jsval option" where
  "reconcileToolCallsOnly v =
     (if \<not> is_message_of ''assistant'' v then Some v
      else (let content = (case js_field (js_field v ''message'') ''content'' of
                  JArr parts \<Rightarrow> filter (\<lambda>p. js_field p ''type'' = JStr ''toolCall'') parts | _ \<Rightarrow> [])
            in if content = [] then None
               else Some (JObj (omap_set ''message''
                 (JObj (spread (omap_delete ''errorMessage'' (entry_members (js_field v ''message'')))
                    [(''content'', JArr content), (''stopReason'', JStr ''toolUse'')]))
                 (entry_members v)))))"

definition reply_value :: "local_file \<Rightarrow> jsval" where
  "reply_value f = JObj [(''id'', JStr (lf_id f)), (''filename'', JStr (lf_filename f)), (''path'', owner_value (lf_path f)),
     (''chars'', case lf_chars f of Some n \<Rightarrow> JNum (Fin (of_int n)) | None \<Rightarrow> JNull)]"

definition expert_name :: "fields list \<Rightarrow> string \<Rightarrow> string" where
  "expert_name experts employee =
     nullish (Option.bind (find (\<lambda>e. text_field e ''employee_id'' = employee) (rev experts)) (\<lambda>e. text_option e ''display_name'')) employee"

text \<open>Where a user message came from, and whose message it is otherwise.\<close>

definition user_source :: "fields list \<Rightarrow> entry_source option \<Rightarrow> fields \<Rightarrow> fields" where
  "user_source experts origin r =
     (let r = omap_set ''source_type'' (JStr (case origin of Some e \<Rightarrow> es_type e | None \<Rightarrow> ''human'')) r;
          r = omap_set ''source_role'' (JStr (if member_of r ''source_type'' = JStr ''employee'' then ''participant'' else ''human'')) r
      in case origin of
           None \<Rightarrow> r
         | Some e \<Rightarrow>
             (let r = omap_set ''logical_message_id'' (JStr (es_logicalMessage e)) (omap_set ''source_id'' (JStr (es_source e)) r);
                  r = put ''source_display_name'' (text_member (es_displayName e)) r
              in if es_type e = ''employee''
                 then omap_set ''source_employee_display_name'' (JStr (nullish (es_displayName e) (expert_name experts (es_source e))))
                        (omap_set ''source_employee_id'' (JStr (es_source e)) r)
                 else r))"

definition employee_source :: "fields list \<Rightarrow> string option \<Rightarrow> participant_role option \<Rightarrow> fields \<Rightarrow> fields" where
  "employee_source experts employee role r =
     (case employee of
        None \<Rightarrow> r
      | Some e \<Rightarrow>
          if e = [] then r
          else spread r [(''source_employee_id'', JStr e), (''source_employee_display_name'', JStr (expert_name experts e)),
                 (''source_role'', JStr (if role = Some Coordinator then ''coordinator'' else ''participant''))])"

record history_tables =
  ht_store :: store
  ht_experts :: "fields list"
  ht_work :: "work_record list"
  ht_replies :: "(string, local_file) omap"

definition given_employee :: "string option \<Rightarrow> string option" where
  "given_employee e = (if e = Some [] then None else e)"

definition history_fields :: "history_env \<Rightarrow> history_tables \<Rightarrow> string \<Rightarrow> history_source \<Rightarrow> string option \<Rightarrow> jsval \<Rightarrow> string \<Rightarrow> fields" where
  "history_fields env t conversation src work raw i =
     (let ref = historyEntryRef env conversation (hx_employee src) i;
          r = omap_delete ''reply_file'' (omap_delete ''work_id'' (omap_set ''entry_ref'' (JStr ref) (entry_members raw)));
          r = put ''reply_file'' (if is_message_of ''assistant'' raw then map_option reply_value (omap_get (ht_replies t) ref) else None) r;
          r = put ''work_id'' (if is_message_of ''assistant'' raw \<or> is_message_of ''toolResult'' raw then text_member work else None) r;
          r = put ''participant_employee_id'' (text_member (hx_employee src)) r
      in if is_message_of ''user'' raw
         then user_source (ht_experts t)
                (case given_employee (hx_employee src) of Some e \<Rightarrow> getConversationEntrySource conversation e i (ht_store t) | None \<Rightarrow> None) r
         else employee_source (ht_experts t) (hx_employee src) (hx_role src) r)"

definition index_entry ::
  "history_env \<Rightarrow> history_tables \<Rightarrow> string \<Rightarrow> history_source \<Rightarrow> (nat, string) omap \<Rightarrow> nat list \<Rightarrow> nat \<Rightarrow> jsval \<Rightarrow> history_item list" where
  "index_entry env t conversation src workIds reconcile ordinal stored =
     (case (if ordinal \<in> set reconcile then reconcileToolCallsOnly stored else Some stored) of
        None \<Rightarrow> []
      | Some raw \<Rightarrow>
          (case js_field raw ''id'' of
             JStr i \<Rightarrow>
               if js_field raw ''type'' = JStr ''session'' then []
               else if js_field raw ''type'' = JStr ''custom_message'' \<and> \<not> js_truthy (js_field raw ''display'') then []
               else [\<lparr>hm_entry = history_fields env t conversation src (omap_get workIds ordinal) raw i,
                      hm_order = [CNum (historyTimestamp env raw), CStr conversation, CStr (nullish (hx_employee src) []), CNum (int ordinal), CStr i],
                      hm_refs = [(i, historyEntryRef env conversation (hx_employee src) i)]\<rparr>]
           | _ \<Rightarrow> []))"

definition index_source :: "history_env \<Rightarrow> history_tables \<Rightarrow> string \<Rightarrow> history_source \<Rightarrow> history_item list" where
  "index_source env t conversation src =
     (let views = map work_view (hx_entries src);
          workIds = workIdsForEntries (map se_id views) (filter (\<lambda>r. Some (wk_employee r) = hx_employee src) (ht_work t));
          reconcile = reconcileEntryPositions views
      in concat (map (\<lambda>n. index_entry env t conversation src workIds reconcile n (hx_entries src ! n)) [0..<length (hx_entries src)]))"

definition order_le :: "history_item \<Rightarrow> history_item \<Rightarrow> bool" where
  "order_le a b \<longleftrightarrow> compareReadOrder (hm_order a) (hm_order b) \<le> 0"

text \<open>The copies of a fanned-out message share this key.\<close>

definition logical_key :: "history_item \<Rightarrow> jsval option" where
  "logical_key item =
     (let e = hm_entry item
      in if \<not> is_message_of ''user'' (JObj e) \<or> \<not> js_truthy (member_of e ''logical_message_id'') then None
         else Some (JArr [member_of e ''source_type'', member_of e ''source_id'', member_of e ''logical_message_id'']))"

definition merge_item :: "history_item \<Rightarrow> history_item list \<Rightarrow> history_item list" where
  "merge_item item kept =
     (if logical_key item \<noteq> None \<and> logical_key item \<in> logical_key ` set kept
      then map (\<lambda>p. if logical_key p = logical_key item then p\<lparr>hm_refs := hm_refs p @ hm_refs item\<rparr> else p) kept
      else kept @ [item])"

definition merge_items :: "history_item list \<Rightarrow> history_item list" where
  "merge_items items = fold merge_item items []"

definition history_tables_of :: "store \<Rightarrow> projections \<Rightarrow> work_repo \<Rightarrow> file_state \<Rightarrow> string \<Rightarrow> history_tables" where
  "history_tables_of st pv wr fs conversation =
     (let record' = getConversation conversation st; tenant = Option.bind record' cv_tenant; member = Option.bind record' cv_member;
          owned = (case (tenant, member) of (Some t, Some m) \<Rightarrow> if t = [] \<or> m = [] then None else Some (t, m) | _ \<Rightarrow> None)
      in \<lparr>ht_store = st, ht_experts = listLoadedExperts tenant member True pv,
          ht_work = (case owned of Some (t, m) \<Rightarrow> work_forConversation conversation t m wr | None \<Rightarrow> []),
          ht_replies = (case owned of Some (t, m) \<Rightarrow> listReplyFiles conversation t m fs | None \<Rightarrow> [])\<rparr>)"

definition indexed_history :: "history_env \<Rightarrow> history_tables \<Rightarrow> string \<Rightarrow> history_source list \<Rightarrow> history_item list" where
  "indexed_history env t conversation sources = sort_by order_le (concat (map (index_source env t conversation) sources))"

definition mergeHistorySources :: "history_env \<Rightarrow> store \<Rightarrow> projections \<Rightarrow> work_repo \<Rightarrow> file_state \<Rightarrow> string \<Rightarrow> history_source list \<Rightarrow> history_item list" where
  "mergeHistorySources env st pv wr fs conversation sources =
     merge_items (indexed_history env (history_tables_of st pv wr fs conversation) conversation sources)"

section \<open>Text\<close>

definition searchable_part :: "history_env \<Rightarrow> jsval \<Rightarrow> string" where
  "searchable_part env part =
     (case is_text_part part of Some s \<Rightarrow> s | None \<Rightarrow> if js_field part ''type'' = JStr ''image'' then hy_image env else [])"

text \<open>\<open>safeText(text, Infinity)\<close> cuts nothing.\<close>

definition searchableHistoryText :: "history_env \<Rightarrow> jsval \<Rightarrow> string option" where
  "searchableHistoryText env entry =
     (if \<not> is_message_of ''user'' entry \<and> \<not> is_message_of ''assistant'' entry then None
      else (let body = (case js_field (js_field entry ''message'') ''content'' of
                  JStr s \<Rightarrow> s | JArr parts \<Rightarrow> concat (map (searchable_part env) parts) | _ \<Rightarrow> []);
                shown = redactInlinePaths (hy_event env) (redactSecrets (hy_event env) body)
            in if shown = [] then None else Some shown))"

fun squash_spaces :: "bool \<Rightarrow> string \<Rightarrow> string" where
  "squash_spaces inside [] = []"
| "squash_spaces inside (c # s) =
     (if js_space c then (if inside then squash_spaces True s else CHR '' '' # squash_spaces True s) else c # squash_spaces False s)"

definition visibleHistoryText :: "history_env \<Rightarrow> jsval \<Rightarrow> string option" where
  "visibleHistoryText env entry =
     (case searchableHistoryText env entry of
        None \<Rightarrow> None
      | Some s \<Rightarrow> let shown = js_trim (squash_spaces False s) in if shown = [] then None else Some shown)"

section \<open>Facts\<close>

lemma claim_fold:
  "distinct xs \<Longrightarrow> omap_get (fst (fold (claim_ordinal i) xs s)) n
     = (if n \<in> set xs \<and> omap_get (fst s) n = None then Some i else omap_get (fst s) n)"
  "distinct xs \<Longrightarrow> n \<in> set (snd (fold (claim_ordinal i) xs s)) \<longleftrightarrow> n \<in> set (snd s) \<or> (n \<in> set xs \<and> omap_get (fst s) n \<noteq> None)"
  by (induction xs arbitrary: s) (auto simp: claim_ordinal_def)

text \<open>The rows that cover a position, in the order they are visited.\<close>

definition covering :: "(work_record \<Rightarrow> nat list) \<Rightarrow> nat \<Rightarrow> work_record list \<Rightarrow> work_record list" where
  "covering area n rows = filter (\<lambda>r. n \<in> set (area r)) rows"

lemma claims_covering:
  assumes "\<And>r. distinct (area r)"
  defines "claimed \<equiv> \<lambda>rows. fold (\<lambda>r. fold (claim_ordinal (wk_id r)) (area r)) rows ([], [])"
  shows "omap_get (fst (claimed rows)) n = (case covering area n rows of [] \<Rightarrow> None | r # _ \<Rightarrow> Some (wk_id r))"
    and "n \<in> set (snd (claimed rows)) \<longleftrightarrow> length (covering area n rows) \<ge> 2"
proof (induction rows rule: rev_induct)
  case (snoc r rows)
  { case 1
    show ?case using snoc assms(1) by (auto simp: claimed_def covering_def claim_fold split: list.splits) }
  { case 2
    show ?case using snoc assms(1) by (cases "covering area n rows") (auto simp: claimed_def covering_def claim_fold) }
qed (simp_all add: claimed_def covering_def omap_get_def)

lemma get_delete_fold: "omap_get (fold omap_delete ks m) k = (if k \<in> set ks then None else omap_get m k)"
  by (induction ks arbitrary: m) auto

lemma distinct_range: "distinct (work_range ids starts r)"
  by (simp add: work_range_def Let_def split: option.split)

text \<open>A reply is grouped under a run exactly when one live record covers its position: the loop over
  sorted records with its set of ambiguous positions computes, for every position, the record that alone
  covers it and nothing where none or several do.\<close>

theorem work_of_entry_unique:
  "omap_get (workIdsForEntries ids records) n =
     (case covering (work_range ids (js_unique (map wk_startOrdinal (live_records records)))) n (live_records records) of
        [r] \<Rightarrow> Some (wk_id r) | _ \<Rightarrow> None)"
proof -
  let ?area = "work_range ids (js_unique (map wk_startOrdinal (live_records records)))"
  note claimed = claims_covering [where area = ?area and rows = "live_records records" and n = n, OF distinct_range]
  show ?thesis
    unfolding workIdsForEntries_def Let_def get_delete_fold claimed
    by (cases "covering ?area n (live_records records)") (auto split: list.split)
qed

lemma logical_key_refs [simp]: "logical_key (p\<lparr>hm_refs := rs\<rparr>) = logical_key p"
  by (simp add: logical_key_def)

definition keys_of :: "history_item list \<Rightarrow> jsval list" where
  "keys_of items = concat (map (\<lambda>x. case logical_key x of Some k \<Rightarrow> [k] | None \<Rightarrow> []) items)"

lemma keys_of_simps [simp]: "keys_of [] = []" "keys_of (x # xs) = (case logical_key x of Some k \<Rightarrow> [k] | None \<Rightarrow> []) @ keys_of xs"
  "keys_of (xs @ ys) = keys_of xs @ keys_of ys"
  by (simp_all add: keys_of_def)

lemma set_keys_of: "k \<in> set (keys_of items) \<longleftrightarrow> Some k \<in> logical_key ` set items"
  by (induction items) (auto split: option.splits)

lemma keys_of_map: "(\<And>x. logical_key (f x) = logical_key x) \<Longrightarrow> keys_of (map f xs) = keys_of xs"
  by (induction xs) simp_all

lemma refs_untouched: "k \<notin> set (keys_of kept) \<Longrightarrow>
    map (\<lambda>p. if logical_key p = Some k then p\<lparr>hm_refs := hm_refs p @ rs\<rparr> else p) kept = kept"
  by (induction kept) (auto split: option.splits)

lemma refs_added:
  assumes "k \<in> set (keys_of kept)" "distinct (keys_of kept)"
  shows "mset (concat (map hm_refs (map (\<lambda>p. if logical_key p = Some k then p\<lparr>hm_refs := hm_refs p @ rs\<rparr> else p) kept)))
    = mset (concat (map hm_refs kept)) + mset rs"
  using assms
proof (induction kept)
  case (Cons x kept)
  then show ?case
    by (cases "logical_key x = Some k") (auto simp: refs_untouched simp del: map_map split: option.splits)
qed simp

lemma merge_item_keeps:
  assumes "distinct (keys_of kept)"
  shows "distinct (keys_of (merge_item x kept))" "mset (concat (map hm_refs (merge_item x kept))) = mset (concat (map hm_refs kept)) + mset (hm_refs x)"
proof -
  show "distinct (keys_of (merge_item x kept))"
    using assms by (auto simp: merge_item_def keys_of_map set_keys_of split: option.split)
  show "mset (concat (map hm_refs (merge_item x kept))) = mset (concat (map hm_refs kept)) + mset (hm_refs x)"
  proof (cases "logical_key x")
    case (Some k)
    then show ?thesis
      using refs_added [OF _ assms, of k "hm_refs x"] by (simp add: merge_item_def set_keys_of del: map_map)
  qed (simp add: merge_item_def)
qed

lemma merge_fold:
  assumes "distinct (keys_of kept)"
  shows "distinct (keys_of (fold merge_item items kept))"
    "mset (concat (map hm_refs (fold merge_item items kept))) = mset (concat (map hm_refs kept)) + mset (concat (map hm_refs items))"
  using assms
  by (induction items arbitrary: kept) (simp_all add: merge_item_keeps union_assoc)

lemma entries_merge_item:
  "map hm_entry (merge_item x kept) = map hm_entry kept @ (if logical_key x \<noteq> None \<and> logical_key x \<in> logical_key ` set kept then [] else [hm_entry x])"
  by (simp add: merge_item_def comp_def if_distrib cong: if_cong)

lemma entries_subseq: "subseq (map hm_entry (fold merge_item items kept)) (map hm_entry kept @ map hm_entry items)"
proof (induction items arbitrary: kept)
  case (Cons x items)
  have "subseq (map hm_entry (merge_item x kept) @ map hm_entry items) (map hm_entry kept @ hm_entry x # map hm_entry items)"
    by (auto simp: entries_merge_item intro: list_emb_append_mono list_emb_Cons)
  then show ?case
    using Cons [of "merge_item x kept"] subseq_order.trans by fastforce
qed simp

lemma set_index_source: "x \<in> set (index_source env t conversation src) \<longleftrightarrow>
  (\<exists>n < length (hx_entries src). x \<in> set (index_entry env t conversation src
     (workIdsForEntries (map se_id (map work_view (hx_entries src))) (filter (\<lambda>r. Some (wk_employee r) = hx_employee src) (ht_work t)))
     (reconcileEntryPositions (map work_view (hx_entries src))) n (hx_entries src ! n)))"
  by (auto simp: index_source_def Let_def)

text \<open>Only tool calls are left of an assistant message of the hidden checklist turn.\<close>

lemma tool_calls_silent:
  assumes "reconcileToolCallsOnly v = Some w" "is_message_of ''assistant'' v"
  shows "\<exists>parts. js_field (js_field w ''message'') ''content'' = JArr parts \<and> (\<forall>p \<in> set parts. js_field p ''type'' = JStr ''toolCall'')"
    and "js_field (js_field w ''message'') ''errorMessage'' = JUndef"
  using assms by (auto simp: reconcileToolCallsOnly_def Let_def spread_def split: if_splits jsval.splits)

lemma map_of_put: "map_of (put j v r) k = (if k = j \<and> v \<noteq> None then v else map_of r k)"
  by (simp add: put_def map_of_omap_set split: option.split)

lemma other_members:
  assumes "k \<notin> {''reply_file'', ''work_id'', ''entry_ref'', ''participant_employee_id'', ''source_type'', ''source_role'', ''logical_message_id'', ''source_id'',
      ''source_display_name'', ''source_employee_id'', ''source_employee_display_name''}"
  shows "member_of (history_fields env t conversation src work raw i) k = js_field raw k"
proof -
  have members: "member_of (entry_members raw) k = js_field raw k" by (cases raw) (simp_all add: entry_members_def)
  have user: "map_of (user_source experts origin r) k = map_of r k" for experts origin r
    using assms by (simp add: user_source_def Let_def map_of_put map_of_omap_set del: js_field.simps split: option.split)
  have employee: "map_of (employee_source experts e role r) k = map_of r k" for experts e role r
    using assms by (simp add: employee_source_def spread_def map_of_omap_set split: option.split)
  have "map_of (history_fields env t conversation src work raw i) k = map_of (entry_members raw) k"
    using assms by (simp add: history_fields_def Let_def user employee map_of_put map_of_omap_set map_of_omap_delete)
  then show ?thesis
    using members by simp
qed

lemma silent_text:
  assumes "\<And>p. p \<in> set parts \<Longrightarrow> js_field p ''type'' = JStr ''toolCall''" "js_field (js_field v ''message'') ''content'' = JArr parts"
  shows "searchableHistoryText env v = None"
proof -
  have "searchable_part env p = []" if "p \<in> set parts" for p
    using assms(1) [OF that] by (simp add: searchable_part_def is_text_part_def)
  then have "concat (map (searchable_part env) parts) = []"
    by simp
  moreover have "redactInlinePaths e (redactSecrets e []) = []" for e
    by (simp add: redactions event_patterns)
  ultimately show ?thesis
    using assms(2) by (simp add: searchableHistoryText_def Let_def del: concat_eq_Nil_conv)
qed

text \<open>The hidden turn that closes a checklist is never shown: whatever the model wrote in it, the history
  of the session has no text, no thinking and no error of that turn, only its tool calls.\<close>

theorem hidden_turn_never_shown:
  assumes "n \<in> set (reconcileEntryPositions (map work_view (hx_entries src)))" "is_message_of ''assistant'' (hx_entries src ! n)"
    and "x \<in> set (index_entry env t conversation src workIds (reconcileEntryPositions (map work_view (hx_entries src))) n (hx_entries src ! n))"
  shows "searchableHistoryText env (JObj (hm_entry x)) = None
    \<and> (\<exists>parts. js_field (member_of (hm_entry x) ''message'') ''content'' = JArr parts \<and> (\<forall>p \<in> set parts. js_field p ''type'' = JStr ''toolCall''))
    \<and> js_field (member_of (hm_entry x) ''message'') ''errorMessage'' = JUndef"
proof -
  from assms(1,3) obtain w where w: "reconcileToolCallsOnly (hx_entries src ! n) = Some w"
    by (cases "reconcileToolCallsOnly (hx_entries src ! n)") (auto simp: index_entry_def)
  with assms(1,3) obtain i where x: "hm_entry x = history_fields env t conversation src (omap_get workIds n) w i"
    by (auto simp: index_entry_def split: jsval.splits if_splits)
  have message: "member_of (hm_entry x) ''message'' = js_field w ''message''"
    unfolding x by (rule other_members) simp
  note silent = tool_calls_silent [OF w assms(2)]
  then obtain parts where parts: "js_field (js_field w ''message'') ''content'' = JArr parts" "\<forall>p \<in> set parts. js_field p ''type'' = JStr ''toolCall''"
    by blast
  have "searchableHistoryText env (JObj (hm_entry x)) = None"
    by (rule silent_text [of parts]) (use parts message in auto)
  then show ?thesis
    using silent message by simp
qed

definition demo_hidden :: "jsval list" where
  "demo_hidden = [JObj [(''id'', JStr ''a''), (''type'', JStr ''custom_message''), (''customType'', JStr ''todo_reconcile'')],
     JObj [(''id'', JStr ''b''), (''type'', JStr ''message''), (''message'', JObj [(''role'', JStr ''assistant''), (''errorMessage'', JStr ''e''),
       (''content'', JArr [JObj [(''type'', JStr ''text''), (''text'', JStr ''secret'')], JObj [(''type'', JStr ''toolCall'')]])])]]"

definition demo_hidden_source :: history_source where
  "demo_hidden_source = \<lparr>hx_employee = None, hx_role = None, hx_entries = demo_hidden\<rparr>"

definition demo_history_env :: history_env where
  "demo_history_env = \<lparr>hy_event = demo_event_env, hy_ref = (\<lambda>_. ''r''), hy_image = ''image''\<rparr>"

definition demo_history_tables :: history_tables where
  "demo_history_tables = \<lparr>ht_store = store_init, ht_experts = [], ht_work = [], ht_replies = []\<rparr>"

theorem hidden_turn_never_shown_witness:
  "\<exists>x. index_entry demo_history_env demo_history_tables ''c'' demo_hidden_source [] [1] 1 (demo_hidden ! 1) = [x]
    \<and> searchableHistoryText demo_history_env (JObj (hm_entry x)) = None
    \<and> js_field (member_of (hm_entry x) ''message'') ''errorMessage'' = JUndef"
proof -
  have positions: "reconcileEntryPositions (map work_view (hx_entries demo_hidden_source)) = [1]"
    by (simp add: demo_hidden_source_def demo_hidden_def work_view_def reconcileEntryPositions_def is_message_def nullish_def)
  have message: "is_message_of ''assistant'' (demo_hidden ! 1)"
    by (simp add: demo_hidden_def is_message_of_def)
  obtain x where x: "index_entry demo_history_env demo_history_tables ''c'' demo_hidden_source [] [1] 1 (demo_hidden ! 1) = [x]"
    by (simp add: index_entry_def reconcileToolCallsOnly_def demo_hidden_def is_message_of_def entry_members_def Let_def)
  from hidden_turn_never_shown [of 1 demo_hidden_source x demo_history_env demo_history_tables "''c''" "[]"] x message
  have "searchableHistoryText demo_history_env (JObj (hm_entry x)) = None \<and> js_field (member_of (hm_entry x) ''message'') ''errorMessage'' = JUndef"
    unfolding positions by (simp add: demo_hidden_source_def)
  with x show ?thesis by blast
qed

text \<open>Merging the sessions of a conversation loses nothing and repeats nothing: every reference of an
  indexed entry is a reference of exactly one entry of the history, the copies of a fanned-out message
  are one entry, and the entries keep the order of the index.\<close>

theorem history_merge_conserves:
  "mset (concat (map hm_refs (mergeHistorySources env st pv wr fs conversation sources)))
      = mset (concat (map hm_refs (indexed_history env (history_tables_of st pv wr fs conversation) conversation sources)))
    \<and> distinct (keys_of (mergeHistorySources env st pv wr fs conversation sources))
    \<and> subseq (map hm_entry (mergeHistorySources env st pv wr fs conversation sources))
        (map hm_entry (indexed_history env (history_tables_of st pv wr fs conversation) conversation sources))"
  using merge_fold [of "[]"] entries_subseq [of _ "[]"]
  by (simp add: mergeHistorySources_def merge_items_def)

end
