(* ===== verification/Conversation_Reads.thy ===== *)
theory Conversation_Reads
  imports Session_History Execution_Authorization
begin

text \<open>
  \<open>services/conversation-reads.ts\<close> and the history reads of \<open>pi/session-host.ts\<close> below it: which sessions
  belong to a conversation, the metadata with its unread count, the read pointer, the members of a group,
  the pages of the history and the message search.  The entries a running session holds in memory, the
  session files, \<open>realpath\<close> and \<open>JSON.parse\<close> are the fields of \<open>host_env\<close>.
\<close>

record host_env =
  hv_live :: "string \<Rightarrow> string option \<Rightarrow> jsval list option"
  hv_file :: "string \<Rightarrow> string option"
  hv_real :: "string \<Rightarrow> string option"
  hv_parse :: "string \<Rightarrow> jsval option"
  hv_sessionDir :: string
  hv_cwdRoot :: string

record read_env =
  re_cursor :: cursor_env
  re_history :: history_env
  re_host :: host_env

text \<open>What the reads see of the database.\<close>

record read_state =
  rs_store :: store
  rs_projections :: projections
  rs_work :: work_repo
  rs_files :: file_state

datatype reads_error = Refused read_error | SessionAuthorizationError | ReadCrash

section \<open>Sessions of a conversation\<close>

text \<open>\<open>path.relative(root, path)\<close> of resolved paths, where it does not begin with \<open>..\<close> for being outside.\<close>

definition relative_inside :: "string \<Rightarrow> string \<Rightarrow> string option" where
  "relative_inside root' path =
     (let base = (if root' = ''/'' then root' else root' @ ''/'')
      in if path = root' then Some [] else if prefix base path then Some (drop (length base) path) else None)"

definition assertManagedPath :: "host_env \<Rightarrow> string \<Rightarrow> string \<Rightarrow> bool" where
  "assertManagedPath hv path root' \<longleftrightarrow>
     prefix ''/'' path \<and> prefix ''/'' root' \<and>
     (case (hv_real hv root', hv_real hv path) of
        (Some resolvedRoot, Some resolved) \<Rightarrow>
          (case relative_inside resolvedRoot resolved of None \<Rightarrow> False | Some rel \<Rightarrow> \<not> prefix ''..'' rel)
      | _ \<Rightarrow> False)"

definition assertManagedPathEither :: "host_env \<Rightarrow> string \<Rightarrow> string list \<Rightarrow> bool" where
  "assertManagedPathEither hv path roots \<longleftrightarrow> list_ex (assertManagedPath hv path) roots"

definition persisted_line :: "host_env \<Rightarrow> string \<Rightarrow> jsval list" where
  "persisted_line hv line =
     (if js_trim line = [] then []
      else (case hv_parse hv line of
              Some (JObj fs) \<Rightarrow>
                (case (js_field (JObj fs) ''type'', js_field (JObj fs) ''id'') of
                   (JStr t, JStr _) \<Rightarrow> if t \<noteq> ''session'' then [JObj fs] else []
                 | _ \<Rightarrow> [])
            | _ \<Rightarrow> []))"

text \<open>\<open>lines.slice(-tail)\<close>: a tail of 0 keeps every line.\<close>

definition last_lines :: "nat option \<Rightarrow> string list \<Rightarrow> string list" where
  "last_lines tail lines = (case tail of None \<Rightarrow> lines | Some n \<Rightarrow> if n = 0 then lines else drop (length lines - n) lines)"

definition readPersistedEntries :: "host_env \<Rightarrow> string option \<Rightarrow> nat option \<Rightarrow> jsval list" where
  "readPersistedEntries hv sessionFile tail =
     (case sessionFile of
        None \<Rightarrow> []
      | Some f \<Rightarrow>
          (case hv_file hv f of
             None \<Rightarrow> []
           | Some content \<Rightarrow>
               if f = [] \<or> \<not> assertManagedPathEither hv f [hv_sessionDir hv, hv_cwdRoot hv] then []
               else concat (map (persisted_line hv) (last_lines tail (js_split (CHR 0x0A) content)))))"

definition legacy_employee :: "conversation \<Rightarrow> string option" where
  "legacy_employee c = (case cv_entry c of Some e \<Rightarrow> Some e | None \<Rightarrow> cv_coordinator c)"

definition legacySessionFile :: "conversation \<Rightarrow> string option \<Rightarrow> string option" where
  "legacySessionFile c employee = (if employee = legacy_employee c then Some (cv_sessionFile c) else None)"

definition session_entries :: "host_env \<Rightarrow> string \<Rightarrow> string option \<Rightarrow> string option \<Rightarrow> jsval list" where
  "session_entries hv conversation employee file' =
     (case hv_live hv conversation employee of Some es \<Rightarrow> es | None \<Rightarrow> readPersistedEntries hv file' None)"

definition participant_source :: "host_env \<Rightarrow> conversation \<Rightarrow> participant \<Rightarrow> history_source" where
  "participant_source hv c p =
     \<lparr>hx_employee = Some (pt_employee p), hx_role = Some (pt_role p),
      hx_entries = session_entries hv (cv_id c) (Some (pt_employee p))
        (if pt_sessionFile p \<noteq> [] then Some (pt_sessionFile p) else legacySessionFile c (Some (pt_employee p)))\<rparr>"

definition legacy_source :: "host_env \<Rightarrow> conversation \<Rightarrow> history_source" where
  "legacy_source hv c =
     (let employee = legacy_employee c
      in \<lparr>hx_employee = employee,
          hx_role = Some (if given_employee employee \<noteq> None \<and> cv_coordinator c = employee then Coordinator else Member),
          hx_entries = session_entries hv (cv_id c) employee (legacySessionFile c employee)\<rparr>)"

definition readExistingHistorySources :: "host_env \<Rightarrow> store \<Rightarrow> string \<Rightarrow> history_source list" where
  "readExistingHistorySources hv s conversation =
     (case getConversation conversation s of
        None \<Rightarrow> []
      | Some c \<Rightarrow>
          (let participants = listConversationParticipants conversation True s
           in map (participant_source hv c) participants
              @ (if participants = [] \<or> (cv_sessionFile c \<noteq> [] \<and> \<not> list_ex (\<lambda>p. Some (pt_employee p) = legacy_employee c) participants)
                 then [legacy_source hv c] else [])))"

definition owned_row :: "store \<Rightarrow> string \<Rightarrow> caller \<Rightarrow> conversation option" where
  "owned_row s conversation who =
     (case ca_tenantId who of
        None \<Rightarrow> None
      | Some tenant \<Rightarrow> if tenant = [] then None else getOwnedConversation conversation tenant (callerMemberId who) s)"

definition requireHistoryOwner :: "store \<Rightarrow> string \<Rightarrow> caller \<Rightarrow> reads_error option" where
  "requireHistoryOwner s conversation who = (if owned_row s conversation who = None then Some SessionAuthorizationError else None)"

definition readIndexedHistory :: "read_env \<Rightarrow> read_state \<Rightarrow> string \<Rightarrow> history_item list" where
  "readIndexedHistory env st conversation =
     mergeHistorySources (re_history env) (rs_store st) (rs_projections st) (rs_work st) (rs_files st) conversation
       (readExistingHistorySources (re_host env) (rs_store st) conversation)"

definition readEntries :: "read_env \<Rightarrow> read_state \<Rightarrow> string \<Rightarrow> caller \<Rightarrow> reads_error + history_item list" where
  "readEntries env st conversation who =
     (case requireHistoryOwner (rs_store st) conversation who of
        Some e \<Rightarrow> Inl e | None \<Rightarrow> Inr (readIndexedHistory env st conversation))"

definition readHistorySources :: "read_env \<Rightarrow> read_state \<Rightarrow> string \<Rightarrow> caller \<Rightarrow> reads_error + history_source list" where
  "readHistorySources env st conversation who =
     (case requireHistoryOwner (rs_store st) conversation who of
        Some e \<Rightarrow> Inl e | None \<Rightarrow> Inr (readExistingHistorySources (re_host env) (rs_store st) conversation))"

text \<open>\<open>entries\<close> of the host waits for the running prompts between its two owner checks: \<open>st\<close> is the
  database before and \<open>st'\<close> after the wait.\<close>

definition host_entries :: "read_env \<Rightarrow> read_state \<Rightarrow> read_state \<Rightarrow> string \<Rightarrow> caller \<Rightarrow> reads_error + fields list" where
  "host_entries env st st' conversation who =
     (case requireHistoryOwner (rs_store st) conversation who of
        Some e \<Rightarrow> Inl e
      | None \<Rightarrow> map_sum id (map hm_entry) (readEntries env st' conversation who))"

section \<open>The read service\<close>

definition resolveReadEntry :: "history_item list \<Rightarrow> string \<Rightarrow> history_item option" where
  "resolveReadEntry entries reference =
     (case concat (map (\<lambda>x. map (\<lambda>_. x) (filter (\<lambda>r. snd r = reference \<or> fst r = reference) (hm_refs x))) entries) of
        [x] \<Rightarrow> Some x | _ \<Rightarrow> None)"

definition owned :: "read_state \<Rightarrow> string \<Rightarrow> caller \<Rightarrow> reads_error + conversation" where
  "owned st conversation who =
     (case owned_row (rs_store st) conversation who of
        None \<Rightarrow> Inl (Refused (ConversationReadError 404 ''conversation_not_found'')) | Some c \<Rightarrow> Inr c)"

record metadata_view =
  mv_record :: conversation
  mv_preview :: "string option"
  mv_messageAt :: "string option"
  mv_unread :: nat
  mv_task :: "string option"

definition order_time :: "history_item \<Rightarrow> int" where
  "order_time x = (case hm_order x of CNum t # _ \<Rightarrow> t | _ \<Rightarrow> 0)"

text \<open>The times a \<open>Date\<close> can hold.\<close>

definition date_ok :: "int \<Rightarrow> bool" where
  "date_ok t \<longleftrightarrow> \<bar>t\<bar> \<le> 8640000000000000"

definition metadata_item ::
  "read_env \<Rightarrow> history_item option \<Rightarrow> history_item \<Rightarrow> string option \<times> string option \<times> nat \<Rightarrow> string option \<times> string option \<times> nat" where
  "metadata_item env read x acc =
     (case visibleHistoryText (re_history env) (JObj (hm_entry x)) of
        None \<Rightarrow> acc
      | Some shown \<Rightarrow>
          (Some (safeText (hy_event (re_history env)) shown 200),
           (if order_time x > 0 \<and> date_ok (order_time x) then Some (ce_iso (re_cursor env) (order_time x)) else None),
           (if is_message_of ''assistant'' (JObj (hm_entry x)) \<and>
               (case read of None \<Rightarrow> True | Some r \<Rightarrow> compareReadOrder (hm_order x) (hm_order r) > 0)
            then snd (snd acc) + 1 else snd (snd acc))))"

definition metadata :: "read_env \<Rightarrow> read_state \<Rightarrow> string \<Rightarrow> caller \<Rightarrow> reads_error + metadata_view" where
  "metadata env st conversation who =
     (case owned st conversation who of
        Inl e \<Rightarrow> Inl e
      | Inr c \<Rightarrow>
          (case readEntries env st conversation who of
             Inl e \<Rightarrow> Inl e
           | Inr entries \<Rightarrow>
               (let read = (case cv_lastRead c of None \<Rightarrow> None | Some p \<Rightarrow> if p = [] then None else resolveReadEntry entries p);
                    acc = fold (metadata_item env read) entries (None, None, 0)
                in Inr \<lparr>mv_record = c, mv_preview = fst acc, mv_messageAt = fst (snd acc), mv_unread = snd (snd acc),
                        mv_task = (case task_forConversation conversation (rs_store st) of
                           Some t \<Rightarrow> Some (at_id t) | None \<Rightarrow> if cv_schedule c \<noteq> None then Some conversation else None)\<rparr>)))"

definition entry_ref_of :: "history_item \<Rightarrow> string" where
  "entry_ref_of x = text_field (hm_entry x) ''entry_ref''"

definition invalid_pointer :: reads_error where
  "invalid_pointer = Refused (ConversationReadError 422 ''invalid_last_read_entry_id'')"

definition readPointer :: "read_env \<Rightarrow> read_state \<Rightarrow> string \<Rightarrow> caller \<Rightarrow> jsval \<Rightarrow> reads_error + string option" where
  "readPointer env st conversation who value' =
     (case owned st conversation who of
        Inl e \<Rightarrow> Inl e
      | Inr _ \<Rightarrow>
          (case value' of
             JNull \<Rightarrow> Inr None
           | JStr s \<Rightarrow>
               if s = [] \<or> length s > 256 then Inl invalid_pointer
               else (case readEntries env st conversation who of
                       Inl e \<Rightarrow> Inl e
                     | Inr entries \<Rightarrow>
                         (case resolveReadEntry entries s of None \<Rightarrow> Inl invalid_pointer | Some x \<Rightarrow> Inr (Some (entry_ref_of x))))
           | _ \<Rightarrow> Inl invalid_pointer))"

record member_view =
  mw_employee :: string
  mw_name :: string
  mw_handle :: "string option"
  mw_roleTitle :: "string option"
  mw_departments :: "string list"
  mw_role :: participant_role
  mw_available :: bool

definition employeeDisplay :: "event_env \<Rightarrow> fields option \<Rightarrow> string option \<times> string list" where
  "employeeDisplay env expert =
     (let field = (\<lambda>k. case expert of None \<Rightarrow> JUndef | Some e \<Rightarrow> member_of e k)
      in ((case field ''role_title'' of JStr s \<Rightarrow> if s = [] then None else Some (safeText env s 100) | _ \<Rightarrow> None),
          (case field ''department_ids'' of
             JArr vs \<Rightarrow> concat (map (\<lambda>v. case v of JStr s \<Rightarrow> if s = [] then [] else [safeText env s 256] | _ \<Rightarrow> []) vs)
           | _ \<Rightarrow> [])))"

definition member_available :: "fields list \<Rightarrow> fields \<Rightarrow> bool" where
  "member_available snapshots e \<longleftrightarrow>
     \<not> js_truthy (member_of e ''revoked'') \<and> (member_of e ''status'' = JUndef \<or> member_of e ''status'' = JStr ''active'')
     \<and> list_ex (\<lambda>s. member_of s ''employee_id'' = member_of e ''employee_id'' \<and> member_of s ''version'' = member_of e ''version'') snapshots"

definition member_of_group :: "event_env \<Rightarrow> fields list \<Rightarrow> fields list \<Rightarrow> participant \<Rightarrow> member_view" where
  "member_of_group env experts snapshots p =
     (let expert = find (\<lambda>e. text_field e ''employee_id'' = pt_employee p) (rev experts); display = employeeDisplay env expert
      in \<lparr>mw_employee = safeText env (pt_employee p) 256,
          mw_name = safeText env (expert_name experts (pt_employee p)) 256,
          mw_handle = map_option (\<lambda>e. safeText env (text_field e ''handle'') 256) expert,
          mw_roleTitle = fst display, mw_departments = snd display,
          mw_role = (if pt_role p = Coordinator then Coordinator else Member),
          mw_available = (case expert of None \<Rightarrow> False | Some e \<Rightarrow> member_available snapshots e)\<rparr>)"

definition participants :: "read_env \<Rightarrow> read_state \<Rightarrow> string \<Rightarrow> caller \<Rightarrow> reads_error + member_view list" where
  "participants env st conversation who =
     (case owned st conversation who of
        Inl e \<Rightarrow> Inl e
      | Inr _ \<Rightarrow>
          Inr (map (member_of_group (hy_event (re_history env))
                 (listLoadedExperts (ca_tenantId who) (Some (callerMemberId who)) True (rs_projections st))
                 (listSnapshots (ca_tenantId who) (Some (callerMemberId who)) (rs_projections st)))
             (listConversationParticipants conversation False (rs_store st))))"

section \<open>Pages\<close>

definition HISTORY_ORDER_TYPES :: "cursor_type list" where
  "HISTORY_ORDER_TYPES = [TNumber, TString, TString, TNumber, TString]"

record history_page =
  hp_entries :: "fields list"
  hp_next :: "string option"
  hp_hasMore :: bool

definition serialize_entries :: "read_env \<Rightarrow> fields list \<Rightarrow> fields list" where
  "serialize_entries env es = List.map_filter (\<lambda>e. serializePiEntry (hy_event (re_history env)) (JObj e)) es"

definition entries_scope :: "read_env \<Rightarrow> caller \<Rightarrow> string \<Rightarrow> string" where
  "entries_scope env who conversation =
     readCursorScope (re_cursor env) ''entries:ascending'' [owner_value (ca_tenantId who), JStr (callerMemberId who)] [JStr conversation]"

definition read_refused :: "nat \<Rightarrow> string \<Rightarrow> reads_error" where
  "read_refused status code = Refused (ConversationReadError status code)"

definition cursor_query :: "read_env \<Rightarrow> string \<Rightarrow> url_query \<Rightarrow> reads_error + cursor_item list option" where
  "cursor_query env scope query =
     (case map_of query ''cursor'' of
        None \<Rightarrow> Inr None
      | Some cursor \<Rightarrow> map_sum Refused Some (decodeReadCursor (re_cursor env) cursor scope HISTORY_ORDER_TYPES))"

text \<open>The entries from the one a reference names on.\<close>

definition from_reference :: "string option \<Rightarrow> history_item list \<Rightarrow> reads_error + history_item list" where
  "from_reference reference entries =
     (case reference of
        None \<Rightarrow> Inr entries
      | Some ref \<Rightarrow>
          (case resolveReadEntry entries ref of
             None \<Rightarrow> Inl (read_refused 422 ''invalid_entry_ref'')
           | Some anchor \<Rightarrow>
               if \<not> prefix ''entry_v1_'' ref then Inl (read_refused 422 ''invalid_entry_ref'')
               else Inr (filter (\<lambda>x. compareReadOrder (hm_order x) (hm_order anchor) \<ge> 0) entries)))"

definition page_of_entries :: "read_env \<Rightarrow> string \<Rightarrow> nat \<Rightarrow> history_item list \<Rightarrow> history_page" where
  "page_of_entries env scope limit entries =
     (let page = take limit entries
      in \<lparr>hp_entries = serialize_entries env (map hm_entry page),
          hp_next = (if length entries > limit \<and> page \<noteq> [] then Some (encodeReadCursor (re_cursor env) scope (hm_order (last page))) else None),
          hp_hasMore = length entries > limit\<rparr>)"

definition behind_boundary :: "cursor_item list option \<Rightarrow> history_item list \<Rightarrow> history_item list" where
  "behind_boundary boundary entries =
     (case boundary of None \<Rightarrow> entries | Some b \<Rightarrow> filter (\<lambda>x. compareReadOrder (hm_order x) b > 0) entries)"

definition paged_entries :: "read_env \<Rightarrow> read_state \<Rightarrow> string \<Rightarrow> caller \<Rightarrow> url_query \<Rightarrow> reads_error + history_page" where
  "paged_entries env st conversation who query =
     (case readPageLimit query of
        Inl e \<Rightarrow> Inl (Refused e)
      | Inr limit \<Rightarrow>
          (let scope = entries_scope env who conversation; reference = map_of query ''entry_ref''
           in if map_of query ''cursor'' \<noteq> None \<and> reference \<noteq> None then Inl (read_refused 422 ''invalid_query'')
              else (case cursor_query env scope query of
                Inl e \<Rightarrow> Inl e
              | Inr boundary \<Rightarrow>
                  (case readEntries env st conversation who of
                     Inl e \<Rightarrow> Inl e
                   | Inr entries \<Rightarrow> map_sum id (page_of_entries env scope limit) (from_reference reference (behind_boundary boundary entries))))))"

text \<open>Without a query the whole history, read after the wait of the host.  The first component of the
  result is the page or the plain list of entries.\<close>

definition entries :: "read_env \<Rightarrow> read_state \<Rightarrow> read_state \<Rightarrow> string \<Rightarrow> caller \<Rightarrow> url_query \<Rightarrow> reads_error + (fields list + history_page)" where
  "entries env st st' conversation who query =
     (case owned st conversation who of
        Inl e \<Rightarrow> Inl e
      | Inr _ \<Rightarrow>
          (case validateReadQuery query [''limit'', ''cursor'', ''entry_ref''] of
             Some e \<Rightarrow> Inl (Refused e)
           | None \<Rightarrow>
               if query = [] then map_sum id (\<lambda>es. Inl (serialize_entries env es)) (host_entries env st st' conversation who)
               else map_sum id Inr (paged_entries env st conversation who query)))"

section \<open>Search\<close>

record search_match =
  sm_order :: "cursor_item list"
  sm_value :: fields

record search_query =
  sq_q :: string
  sq_limit :: nat
  sq_conversation :: "string option"
  sq_employee :: "string option"

fun index_of :: "string \<Rightarrow> string \<Rightarrow> nat option" where
  "index_of needle s = (if prefix needle s then Some 0 else case s of [] \<Rightarrow> None | _ # rest \<Rightarrow> map_option Suc (index_of needle rest))"

declare index_of.simps [simp del]

definition search_snippet :: "read_env \<Rightarrow> string \<Rightarrow> nat \<Rightarrow> string" where
  "search_snippet env s position =
     (let start = position - 40; ellipsis = ev_ellipsis (hy_event (re_history env))
      in (if start > 0 then ellipsis else []) @ js_trim (squash_spaces False (take 238 (drop start s)))
         @ (if length s > start + 238 then ellipsis else []))"

definition SEARCH_FIELDS :: "string list" where
  "SEARCH_FIELDS = [''source_type'', ''source_id'', ''source_display_name'', ''source_employee_id'', ''source_employee_display_name'',
     ''source_role'', ''logical_message_id'']"

definition shown_member :: "fields \<Rightarrow> string \<Rightarrow> jsval option" where
  "shown_member fs k = (if member_of fs k = JUndef then None else Some (member_of fs k))"

definition search_value :: "read_env \<Rightarrow> conversation \<Rightarrow> history_item \<Rightarrow> string \<Rightarrow> reads_error + fields" where
  "search_value env c x snippet =
     (let ev = hy_event (re_history env) in
      case serializePiEntry ev (JObj (omap_set ''message'' JUndef (hm_entry x))) of
        None \<Rightarrow> Inl ReadCrash
      | Some shown \<Rightarrow>
          if \<not> date_ok (order_time x) then Inl ReadCrash
          else Inr (fold (\<lambda>k. put k (shown_member shown k)) SEARCH_FIELDS
            [(''conversation_id'', JStr (cv_id c)),
             (''conversation_title'', case cv_title c of None \<Rightarrow> JNull | Some t \<Rightarrow> JStr (safeText ev t 200)),
             (''entry_ref'', member_of (hm_entry x) ''entry_ref''), (''id'', member_of shown ''id''),
             (''participant_employee_id'', case shown_member shown ''participant_employee_id'' of None \<Rightarrow> JNull | Some v \<Rightarrow> v),
             (''timestamp'', JStr (ce_iso (re_cursor env) (order_time x))),
             (''role'', if member_of (hm_entry x) ''type'' = JStr ''message'' then js_field (member_of (hm_entry x) ''message'') ''role'' else JStr ''user''),
             (''snippet'', JStr snippet)]))"

definition search_item ::
  "read_env \<Rightarrow> search_query \<Rightarrow> cursor_item list option \<Rightarrow> conversation \<Rightarrow> history_item \<Rightarrow> reads_error + search_match list" where
  "search_item env q boundary c x =
     (if (case boundary of None \<Rightarrow> False | Some b \<Rightarrow> compareReadOrder (hm_order x) b \<ge> 0) then Inr []
      else if (case sq_employee q of None \<Rightarrow> False | Some e \<Rightarrow> member_of (hm_entry x) ''source_employee_id'' \<noteq> JStr e) then Inr []
      else (case searchableHistoryText (re_history env) (JObj (hm_entry x)) of
              None \<Rightarrow> Inr []
            | Some s \<Rightarrow>
                (case index_of (js_lower (sq_q q)) (js_lower s) of
                   None \<Rightarrow> Inr []
                 | Some position \<Rightarrow>
                     map_sum id (\<lambda>v. [\<lparr>sm_order = hm_order x, sm_value = v\<rparr>]) (search_value env c x (search_snippet env s position)))))"

text \<open>A loop that pushes onto \<open>matches\<close> and stops at the first exception.\<close>

fun collect :: "('a \<Rightarrow> reads_error + 'b list) \<Rightarrow> 'a list \<Rightarrow> reads_error + 'b list" where
  "collect f [] = Inr []"
| "collect f (x # xs) = (case f x of Inl e \<Rightarrow> Inl e | Inr ys \<Rightarrow> map_sum id ((@) ys) (collect f xs))"

definition search_conversation ::
  "read_env \<Rightarrow> read_state \<Rightarrow> caller \<Rightarrow> search_query \<Rightarrow> cursor_item list option \<Rightarrow> conversation \<Rightarrow> reads_error + search_match list" where
  "search_conversation env st who q boundary c =
     (case readEntries env st (cv_id c) who of
        Inl e \<Rightarrow> Inl e | Inr items \<Rightarrow> collect (search_item env q boundary c) items)"

definition parse_search :: "url_query \<Rightarrow> reads_error + search_query" where
  "parse_search query =
     (case validateReadQuery query [''q'', ''conversation_id'', ''employee_id'', ''limit'', ''cursor''] of
        Some e \<Rightarrow> Inl (Refused e)
      | None \<Rightarrow>
          (let q = js_trim (nullish (map_of query ''q'') [])
           in if q = [] \<or> length q > 200 then Inl (read_refused 422 ''invalid_q'')
              else (case readPageLimit query of
                Inl e \<Rightarrow> Inl (Refused e)
              | Inr limit \<Rightarrow>
                  if map_of query ''conversation_id'' = Some [] \<or> map_of query ''employee_id'' = Some [] then Inl (read_refused 422 ''invalid_query'')
                  else Inr \<lparr>sq_q = q, sq_limit = limit, sq_conversation = map_of query ''conversation_id'', sq_employee = map_of query ''employee_id''\<rparr>)))"

definition search_scope :: "read_env \<Rightarrow> caller \<Rightarrow> search_query \<Rightarrow> string" where
  "search_scope env who q =
     readCursorScope (re_cursor env) ''messages:descending'' [owner_value (ca_tenantId who), JStr (callerMemberId who)]
       [JStr (js_lower (sq_q q)), owner_value (sq_conversation q), owner_value (sq_employee q)]"

text \<open>The conversations searched.  \<open>None\<close> is a loop over the pages that does not end.\<close>

definition searched_conversations :: "read_env \<Rightarrow> read_state \<Rightarrow> caller \<Rightarrow> search_query \<Rightarrow> (reads_error + conversation list) option" where
  "searched_conversations env st who q =
     (case sq_conversation q of
        Some i \<Rightarrow> Some (map_sum id (\<lambda>c. [c]) (owned st i who))
      | None \<Rightarrow> map_option (map_sum Refused (map fst))
          (allConversations (re_cursor env) (ca_tenantId who) (callerMemberId who) (rs_store st)))"

record search_page =
  sg_values :: "fields list"
  sg_next :: "string option"
  sg_hasMore :: bool

definition page_of_matches :: "read_env \<Rightarrow> string \<Rightarrow> nat \<Rightarrow> search_match list \<Rightarrow> search_page" where
  "page_of_matches env scope limit matches =
     (let sorted' = sort_by (\<lambda>a b. compareReadOrder (sm_order b) (sm_order a) \<le> 0) matches; page = take limit sorted'
      in \<lparr>sg_values = map sm_value page,
          sg_next = (if length sorted' > limit \<and> page \<noteq> [] then Some (encodeReadCursor (re_cursor env) scope (sm_order (last page))) else None),
          sg_hasMore = length sorted' > limit\<rparr>)"

definition search :: "read_env \<Rightarrow> read_state \<Rightarrow> caller \<Rightarrow> url_query \<Rightarrow> (reads_error + search_page) option" where
  "search env st who query =
     (case parse_search query of
        Inl e \<Rightarrow> Some (Inl e)
      | Inr q \<Rightarrow>
          (case (case sq_conversation q of None \<Rightarrow> None | Some i \<Rightarrow> case owned st i who of Inl e \<Rightarrow> Some e | Inr _ \<Rightarrow> None) of
             Some e \<Rightarrow> Some (Inl e)
           | None \<Rightarrow>
               (case cursor_query env (search_scope env who q) query of
                  Inl e \<Rightarrow> Some (Inl e)
                | Inr boundary \<Rightarrow>
                    map_option (\<lambda>found. case found of
                        Inl e \<Rightarrow> Inl e
                      | Inr cs \<Rightarrow> map_sum id (page_of_matches env (search_scope env who q) (sq_limit q))
                          (collect (search_conversation env st who q boundary) cs))
                      (searched_conversations env st who q))))"

section \<open>The order of a history\<close>

type_synonym history_rank = "int \<times> string \<times> string \<times> int \<times> string"

fun order_of_rank :: "history_rank \<Rightarrow> cursor_item list" where
  "order_of_rank (t, c, e, n, i) = [CNum t, CStr c, CStr e, CNum n, CStr i]"

definition rank_of_order :: "cursor_item list \<Rightarrow> history_rank" where
  "rank_of_order b = (case b of [CNum t, CStr c, CStr e, CNum n, CStr i] \<Rightarrow> (t, c, e, n, i) | _ \<Rightarrow> (0, [], [], 0, []))"

fun earlier :: "history_rank \<Rightarrow> history_rank \<Rightarrow> bool" where
  "earlier (t, c, e, n, i) (t', c', e', n', i') \<longleftrightarrow>
     t < t' \<or> t = t' \<and> (str_less c c' \<or> c = c' \<and> (str_less e e' \<or> e = e' \<and> (n < n' \<or> n = n' \<and> str_less i i')))"

lemma rank_of_rank [simp]: "rank_of_order (order_of_rank r) = r"
  by (cases r) (simp add: rank_of_order_def)

lemma compare_earlier:
  "compareReadOrder (order_of_rank a) (order_of_rank b) < 0 \<longleftrightarrow> earlier a b"
  "compareReadOrder (order_of_rank a) (order_of_rank b) > 0 \<longleftrightarrow> earlier b a"
proof -
  have total: "str_less x y \<or> str_less y x \<or> x = y" for x y using str_less_total by blast
  show "compareReadOrder (order_of_rank a) (order_of_rank b) < 0 \<longleftrightarrow> earlier a b"
    "compareReadOrder (order_of_rank a) (order_of_rank b) > 0 \<longleftrightarrow> earlier b a"
    using total [of "fst (snd a)" "fst (snd b)"] total [of "fst (snd (snd a))" "fst (snd (snd b))"]
    by (cases a; cases b; auto dest: str_less_asym)+
qed

interpretation history: keyset "\<lambda>x. rank_of_order (hm_order x)" earlier
proof unfold_locales
  fix j k l
  show "\<not> earlier k k" by (cases k) simp
  show "earlier j k \<Longrightarrow> earlier k l \<Longrightarrow> earlier j l"
    by (cases j; cases k; cases l) (auto dest: str_less_trans)
  obtain t c e n i t' c' e' n' i' where "j = (t, c, e, n, i)" "k = (t', c', e', n', i')" by (cases j, cases k)
  then show "j \<noteq> k \<Longrightarrow> earlier j k \<or> earlier k j"
    using str_less_total [of c c'] str_less_total [of e e'] str_less_total [of i i'] by auto
qed

interpretation matches: keyset "\<lambda>x. rank_of_order (sm_order x)" "\<lambda>a b. earlier b a"
  by unfold_locales (use history.before_irrefl history.before_trans history.before_total in blast)+

definition shaped :: "cursor_item list \<Rightarrow> bool" where
  "shaped b \<longleftrightarrow> b = order_of_rank (rank_of_order b)"

lemma shaped_rank [simp]: "shaped (order_of_rank r)"
  by (simp add: shaped_def)

lemma compare_shaped:
  assumes "shaped a" "shaped b"
  shows "compareReadOrder a b < 0 \<longleftrightarrow> earlier (rank_of_order a) (rank_of_order b)"
    "compareReadOrder a b > 0 \<longleftrightarrow> earlier (rank_of_order b) (rank_of_order a)"
    "compareReadOrder a b \<le> 0 \<longleftrightarrow> \<not> earlier (rank_of_order b) (rank_of_order a)"
    "compareReadOrder a b \<ge> 0 \<longleftrightarrow> \<not> earlier (rank_of_order a) (rank_of_order b)"
proof -
  from assms have eq: "a = order_of_rank (rank_of_order a)" "b = order_of_rank (rank_of_order b)" by (simp_all add: shaped_def)
  show lt: "compareReadOrder a b < 0 \<longleftrightarrow> earlier (rank_of_order a) (rank_of_order b)"
    by (subst eq(1), subst eq(2)) (rule compare_earlier)
  show gt: "compareReadOrder a b > 0 \<longleftrightarrow> earlier (rank_of_order b) (rank_of_order a)"
    by (subst eq(1), subst eq(2)) (rule compare_earlier)
  show "compareReadOrder a b \<le> 0 \<longleftrightarrow> \<not> earlier (rank_of_order b) (rank_of_order a)"
    "compareReadOrder a b \<ge> 0 \<longleftrightarrow> \<not> earlier (rank_of_order a) (rank_of_order b)"
    using lt gt by (simp_all add: not_less [symmetric] del: not_less)
qed

lemma insert_by_cong: "(\<And>y. y \<in> set ys \<Longrightarrow> le x y = le' x y) \<Longrightarrow> insert_by le x ys = insert_by le' x ys"
  by (induction ys) auto

lemma sort_by_cong:
  assumes "\<And>x y. x \<in> set xs \<Longrightarrow> y \<in> set xs \<Longrightarrow> le x y = le' x y"
  shows "sort_by le xs = sort_by le' xs"
  using assms
proof (induction xs)
  case (Cons x xs)
  then have "sort_by le xs = sort_by le' xs" by simp
  then show ?case
    using Cons.prems set_sort_by [of le' xs] by (auto simp: sort_by_def intro!: insert_by_cong)
qed (simp add: sort_by_def)

lemma subseq_sorted_wrt: "subseq xs ys \<Longrightarrow> sorted_wrt P ys \<Longrightarrow> sorted_wrt P xs"
  by (induction rule: list_emb.induct) (auto dest: list_emb_set)

section \<open>Histories are strictly ordered\<close>

lemma index_entry_order:
  assumes "x \<in> set (index_entry env t conversation src workIds reconcile n stored)"
  obtains time' i where "hm_order x = order_of_rank (time', conversation, nullish (hx_employee src) [], int n, i)"
  using assms by (auto simp: index_entry_def split: option.splits jsval.splits if_splits)

lemma index_entry_one: "length (index_entry env t conversation src workIds reconcile n stored) \<le> 1"
  by (auto simp: index_entry_def split: option.split jsval.split)

lemma distinct_concat_by:
  assumes "\<And>n. n \<in> set ns \<Longrightarrow> length (f n) \<le> 1" "distinct ns" "\<And>n x. n \<in> set ns \<Longrightarrow> x \<in> set (f n) \<Longrightarrow> g (h x) = n"
  shows "distinct (map h (concat (map f ns)))"
  using assms
proof (induction ns)
  case (Cons n ns)
  have "distinct (map h (f n))"
    using Cons.prems(1) [of n] by (cases "f n") auto
  moreover have "h x \<noteq> h y" if "x \<in> set (f n)" "y \<in> set (concat (map f ns))" for x y
  proof -
    from that(2) obtain m where "m \<in> set ns" "y \<in> set (f m)" by auto
    then have "g (h y) = m" "g (h x) = n" "m \<noteq> n" using Cons.prems(2,3) that(1) by auto
    then show ?thesis by auto
  qed
  ultimately show ?case
    using Cons by (auto simp: distinct_append)
qed simp

lemma index_source_order:
  assumes "x \<in> set (index_source env t conversation src)"
  obtains time' n i where "hm_order x = order_of_rank (time', conversation, nullish (hx_employee src) [], n, i)"
  using assms by (auto simp: index_source_def Let_def elim!: index_entry_order)

lemma distinct_index_source: "distinct (map hm_order (index_source env t conversation src))"
  unfolding index_source_def Let_def
  by (rule distinct_concat_by [where g = "\<lambda>b. nat (fst (snd (snd (snd (rank_of_order b)))))"])
    (auto simp: index_entry_one [simplified] rank_of_order_def elim!: index_entry_order)

definition source_name :: "history_source \<Rightarrow> string" where
  "source_name src = nullish (hx_employee src) []"

lemma distinct_sources:
  "distinct (map source_name sources) \<Longrightarrow> distinct (map hm_order (concat (map (index_source env t conversation) sources)))"
proof (induction sources)
  case (Cons src sources)
  have "hm_order x \<noteq> hm_order y" if "x \<in> set (index_source env t conversation src)" "y \<in> set (concat (map (index_source env t conversation) sources))" for x y
  proof -
    from that(2) obtain other where "other \<in> set sources" "y \<in> set (index_source env t conversation other)" by auto
    moreover from this(1) Cons.prems have "source_name other \<noteq> source_name src"
      by (metis distinct.simps(2) image_eqI list.set_map list.simps(9))
    ultimately show ?thesis using that(1) by (auto simp: source_name_def elim!: index_source_order)
  qed
  with Cons show ?case by (auto simp: distinct_index_source)
qed simp

lemma orders_subseq: "subseq (map hm_order (fold merge_item items kept)) (map hm_order kept @ map hm_order items)"
proof (induction items arbitrary: kept)
  case (Cons x items)
  have "subseq (map hm_order (merge_item x kept) @ map hm_order items) (map hm_order kept @ hm_order x # map hm_order items)"
    by (auto simp: merge_item_def comp_def if_distrib cong: if_cong intro: list_emb_append_mono list_emb_Cons)
  then show ?case
    using Cons [of "merge_item x kept"] subseq_order.trans by fastforce
qed simp

text \<open>A merged history is sorted by keys that are all different.\<close>

lemma history_ordered:
  assumes "distinct (map source_name sources)"
  shows "history.ordered (mergeHistorySources env st pv wr fs conversation sources)
    \<and> list_all (\<lambda>x. shaped (hm_order x)) (mergeHistorySources env st pv wr fs conversation sources)"
proof -
  let ?t = "history_tables_of st pv wr fs conversation"
  let ?items = "concat (map (index_source env ?t conversation) sources)" and ?index = "indexed_history env ?t conversation sources"
  let ?merged = "mergeHistorySources env st pv wr fs conversation sources"
  let ?strict = "sorted_wrt (\<lambda>a b. earlier (rank_of_order a) (rank_of_order b))"
  have shaped: "shaped (hm_order x)" if "x \<in> set ?items" for x
    using that by (auto simp del: order_of_rank.simps elim!: index_source_order)
  have "?index = history.query (\<lambda>_. True) ?items"
    unfolding indexed_history_def by (simp only: filter_True simp_thms Ball_def)
      (intro sort_by_cong, simp only: order_le_def compare_shaped shaped)
  moreover have "distinct (map (\<lambda>x. rank_of_order (hm_order x)) ?items)"
    using distinct_sources [OF assms, of env ?t conversation] shaped
    unfolding distinct_map inj_on_def shaped_def by metis
  ultimately have index: "?strict (map hm_order ?index)"
    using history.ordered_query [of ?items "\<lambda>_. True"] by (simp add: history.ordered_def sorted_wrt_map)
  have sub: "subseq (map hm_order ?merged) (map hm_order ?index)"
    using orders_subseq [of ?index "[]"] by (simp add: mergeHistorySources_def merge_items_def)
  from subseq_sorted_wrt [OF sub index] have "history.ordered ?merged"
    by (simp add: history.ordered_def sorted_wrt_map)
  moreover have "shaped (hm_order x)" if "x \<in> set ?merged" for x
  proof -
    from that have "hm_order x \<in> set (map hm_order ?merged)" by (simp only: set_map image_eqI)
    with sub obtain b where "b \<in> set (map hm_order ?index)" "hm_order x = b" by (rule list_emb_set)
    then obtain y where "y \<in> set ?items" "hm_order x = hm_order y" unfolding indexed_history_def set_map set_sort_by by blast
    then show ?thesis using shaped [of y] by (simp only:)
  qed
  ultimately show ?thesis by (simp add: list_all_iff)
qed

section \<open>Pages are consecutive\<close>

lemma behind_boundary_drop:
  assumes "history.ordered xs" "list_all (\<lambda>x. shaped (hm_order x)) xs" "0 < n" "n \<le> length xs"
  shows "behind_boundary (Some (hm_order (last (take n xs)))) xs = drop n xs"
proof -
  have "take n xs \<noteq> []" using assms(3,4) by auto
  then have "last (take n xs) \<in> set xs" by (meson in_set_takeD last_in_set)
  with assms(2) have "behind_boundary (Some (hm_order (last (take n xs)))) xs
      = filter (\<lambda>r. earlier (rank_of_order (hm_order (last (take n xs)))) (rank_of_order (hm_order r))) xs"
    unfolding behind_boundary_def option.case list_all_iff by (intro filter_cong refl compare_shaped(2)) simp_all
  also have "\<dots> = drop n xs" by (rule history.behind_last [OF assms(1,3,4)])
  finally show ?thesis .
qed

text \<open>The cursor of the position behind the first \<open>k\<close> entries.\<close>

definition cursor_at :: "read_env \<Rightarrow> string \<Rightarrow> history_item list \<Rightarrow> nat \<Rightarrow> string option" where
  "cursor_at env scope xs k = (if k = 0 then None else Some (encodeReadCursor (re_cursor env) scope (hm_order (last (take k xs)))))"

definition page_query :: "nat \<Rightarrow> string option \<Rightarrow> url_query" where
  "page_query limit cursor = (''limit'', dec limit) # (case cursor of None \<Rightarrow> [] | Some c \<Rightarrow> [(''cursor'', c)])"

text \<open>What paging relies on: the members of a conversation have different non-empty ids, as the primary key
  of the table and the registration of employees ensure, and the cursors of its entries can be serialized.\<close>

definition members_named :: "store \<Rightarrow> string \<Rightarrow> bool" where
  "members_named s conversation \<longleftrightarrow>
     distinct (map pt_employee (listConversationParticipants conversation True s))
     \<and> [] \<notin> pt_employee ` set (listConversationParticipants conversation True s)"

definition serializable_history :: "read_env \<Rightarrow> string \<Rightarrow> history_item list \<Rightarrow> bool" where
  "serializable_history env scope xs \<longleftrightarrow>
     list_all (\<lambda>x. cursor_json (re_cursor env) (cursor_value scope (hm_order x)) \<and> list_all2 item_typed HISTORY_ORDER_TYPES (hm_order x)) xs"

lemma distinct_source_names:
  assumes "members_named s conversation"
  shows "distinct (map source_name (readExistingHistorySources hv s conversation))"
proof (cases "getConversation conversation s")
  case (Some c)
  let ?ps = "listConversationParticipants conversation True s"
  have names: "map source_name (map (participant_source hv c) ?ps) = map pt_employee ?ps"
    by (simp add: source_name_def participant_source_def nullish_def)
  have legacy: "source_name (legacy_source hv c) = nullish (legacy_employee c) []"
    by (simp add: source_name_def legacy_source_def Let_def)
  have "nullish (legacy_employee c) [] \<notin> pt_employee ` set ?ps"
    if "\<not> list_ex (\<lambda>p. Some (pt_employee p) = legacy_employee c) ?ps"
    using that assms by (cases "legacy_employee c") (auto simp: members_named_def nullish_def list_ex_iff)
  moreover have "?ps = [] \<Longrightarrow> nullish (legacy_employee c) [] \<notin> pt_employee ` set ?ps" by simp
  ultimately show ?thesis
    using assms unfolding readExistingHistorySources_def Some option.case Let_def map_append names
    by (auto simp: legacy members_named_def)
qed (simp add: readExistingHistorySources_def)

lemma cursor_at_decodes:
  assumes "serializable_history env scope xs" "0 < k" "k \<le> length xs"
  shows "decodeReadCursor (re_cursor env) (encodeReadCursor (re_cursor env) scope (hm_order (last (take k xs)))) scope HISTORY_ORDER_TYPES
    = Inr (hm_order (last (take k xs)))"
proof -
  have "take k xs \<noteq> []" using assms(2,3) by auto
  then have "last (take k xs) \<in> set xs" by (meson in_set_takeD last_in_set)
  with assms(1) show ?thesis by (intro decode_encode) (simp_all add: serializable_history_def list_all_iff)
qed

lemma page_limit_dec: "1 \<le> n \<Longrightarrow> n \<le> 100 \<Longrightarrow> readPageLimit (page_query n cursor) = Inr n"
  by (simp add: readPageLimit_def page_query_def dec_digits)

lemma page_query_valid: "validateReadQuery (page_query n cursor) [''limit'', ''cursor'', ''entry_ref''] = None"
  by (simp add: validateReadQuery_def page_query_def split: option.split)

lemma page_query_get: "map_of (page_query n cursor) ''cursor'' = cursor" "map_of (page_query n cursor) ''entry_ref'' = None"
  by (simp_all add: page_query_def split: option.split)

lemma page_of_rest:
  assumes "k \<le> length xs" "1 \<le> n"
  shows "page_of_entries env scope n (drop k xs) =
    \<lparr>hp_entries = serialize_entries env (map hm_entry (take n (drop k xs))),
     hp_next = (if k + n < length xs then cursor_at env scope xs (k + n) else None), hp_hasMore = k + n < length xs\<rparr>"
proof -
  have "last (take n (drop k xs)) = last (take (k + n) xs)" if "k + n < length xs"
    using that assms by (simp add: take_add)
  then show ?thesis
    using assms by (auto simp: page_of_entries_def Let_def cursor_at_def)
qed

text \<open>(C38) Paging through a history skips and repeats nothing.  At every position \<open>k\<close>, the page asked for with
  the cursor issued there holds exactly the next entries of the history, and its own cursor is the one of
  the position behind them, absent exactly at the end.\<close>

theorem history_pages_consecutive:
  fixes env :: read_env and st :: read_state
  assumes "owned st conversation who = Inr c" "members_named (rs_store st) conversation"
    and "serializable_history env (entries_scope env who conversation) (readIndexedHistory env st conversation)"
    and "k \<le> length (readIndexedHistory env st conversation)" "1 \<le> n" "n \<le> 100"
  shows "entries env st st' conversation who
      (page_query n (cursor_at env (entries_scope env who conversation) (readIndexedHistory env st conversation) k)) =
    Inr (Inr \<lparr>hp_entries = serialize_entries env (map hm_entry (take n (drop k (readIndexedHistory env st conversation)))),
      hp_next = (if k + n < length (readIndexedHistory env st conversation)
         then cursor_at env (entries_scope env who conversation) (readIndexedHistory env st conversation) (k + n) else None),
      hp_hasMore = k + n < length (readIndexedHistory env st conversation)\<rparr>)"
proof -
  let ?xs = "readIndexedHistory env st conversation" and ?scope = "entries_scope env who conversation"
  let ?query = "page_query n (cursor_at env ?scope ?xs k)"
  have ordered: "history.ordered ?xs" "list_all (\<lambda>x. shaped (hm_order x)) ?xs"
    using history_ordered [OF distinct_source_names [OF assms(2)]] by (simp_all add: readIndexedHistory_def)
  have read: "readEntries env st conversation who = Inr ?xs"
    using assms(1) by (simp add: readEntries_def requireHistoryOwner_def owned_def split: option.splits)
  obtain boundary where "cursor_query env ?scope ?query = Inr boundary" "behind_boundary boundary ?xs = drop k ?xs"
  proof (cases "k = 0")
    case True
    then show thesis by (intro that [of None]) (simp_all add: cursor_query_def page_query_get cursor_at_def behind_boundary_def)
  next
    case False
    then show thesis
      using cursor_at_decodes [OF assms(3)] behind_boundary_drop [OF ordered] assms(4)
      by (intro that [of "Some (hm_order (last (take k ?xs)))"]) (simp_all add: cursor_query_def page_query_get cursor_at_def)
  qed
  then have "paged_entries env st conversation who ?query = Inr (page_of_entries env ?scope n (drop k ?xs))"
    using assms(5,6) by (simp add: paged_entries_def page_limit_dec page_query_get read from_reference_def Let_def)
  moreover have "?query \<noteq> []" by (simp add: page_query_def)
  ultimately show ?thesis
    using assms by (simp add: entries_def page_query_valid page_of_rest)
qed

definition demo_said :: "string \<Rightarrow> jsval" where
  "demo_said i = JObj [(''id'', JStr i), (''type'', JStr ''b'')]"

definition demo_order :: "nat \<Rightarrow> cursor_item list" where
  "demo_order n = order_of_rank (0, ''a'', [], int n, if n = 0 then ''x'' else ''y'')"

definition demo_reads :: read_env where
  "demo_reads = \<lparr>re_cursor = \<lparr>ce_hash = (\<lambda>_. []), ce_json = (\<lambda>v. if v = cursor_value [] (demo_order 0) then [1] else [2]),
       ce_parse = (\<lambda>bs. Some (cursor_value [] (if bs = [1] then demo_order 0 else demo_order 1))), ce_iso = (\<lambda>_. []), ce_date = (\<lambda>_. Some 0)\<rparr>,
     re_history = demo_history_env,
     re_host = \<lparr>hv_live = (\<lambda>_ _. Some [demo_said ''x'', demo_said ''y'']), hv_file = (\<lambda>_. None), hv_real = (\<lambda>_. None), hv_parse = (\<lambda>_. None),
       hv_sessionDir = ''/s'', hv_cwdRoot = ''/w''\<rparr>\<rparr>"

definition demo_read_state :: read_state where
  "demo_read_state = \<lparr>rs_store = demo_listed, rs_projections = \<lparr>pv_experts = [], pv_solutions = [], pv_snapshots = [], pv_avatars = []\<rparr>,
     rs_work = \<lparr>wr_records = [], wr_changes = [], wr_recordSeq = 0, wr_changeSeq = 0, wr_outbox = []\<rparr>,
     rs_files = file_state.make [] []\<rparr>"

definition demo_reader :: caller where
  "demo_reader = demo_caller\<lparr>ca_callerId := ''m''\<rparr>"

lemmas demo_read_defs = file_state.defs demo_reads_def demo_read_state_def demo_reader_def demo_listed_def demo_row_def conversation_row_def store_init_def demo_caller_def

lemma demo_owned: "owned demo_read_state ''a'' demo_reader = Inr (demo_row ''a'' 1)"
  by (simp add: owned_def owned_row_def getOwnedConversation_def getConversation_def callerMemberId_def nullish_def demo_read_defs)

lemma demo_members: "listConversationParticipants ''a'' True (rs_store demo_read_state) = []"
  by (simp add: listConversationParticipants_def demo_read_state_def demo_listed_def store_init_def sort_by_def)

lemma demo_sources: "readExistingHistorySources (re_host demo_reads) (rs_store demo_read_state) ''a'' =
    [\<lparr>hx_employee = None, hx_role = Some Member, hx_entries = [demo_said ''x'', demo_said ''y'']\<rparr>]"
  using demo_members
  by (simp add: readExistingHistorySources_def getConversation_def legacy_source_def legacy_employee_def session_entries_def given_employee_def Let_def
      demo_read_defs)

lemma demo_history_orders: "map hm_order (readIndexedHistory demo_reads demo_read_state ''a'') = [demo_order 0, demo_order 1]"
proof -
  have index: "index_entry env t ''a'' \<lparr>hx_employee = None, hx_role = r, hx_entries = es\<rparr> ws [] n (demo_said i)
      = [\<lparr>hm_entry = history_fields env t ''a'' \<lparr>hx_employee = None, hx_role = r, hx_entries = es\<rparr> (omap_get ws n) (demo_said i) i,
          hm_order = [CNum 0, CStr ''a'', CStr [], CNum (int n), CStr i], hm_refs = [(i, historyEntryRef env ''a'' None i)]\<rparr>]" for env t r es ws n i
    by (simp add: index_entry_def demo_said_def historyTimestamp_def nullish_def)
  have key: "logical_key \<lparr>hm_entry = history_fields env t ''a'' src w (demo_said i) i, hm_order = b, hm_refs = rs\<rparr> = None" for env t src w i b rs
    using other_members [of "''type''" env t "''a''" src w "demo_said i" i] by (simp add: logical_key_def is_message_of_def demo_said_def)
  have "reconcileEntryPositions [work_view (demo_said ''x''), work_view (demo_said ''y'')] = []"
    by (simp add: reconcileEntryPositions_def work_view_def demo_said_def is_message_def Let_def)
  then show ?thesis
    by (simp add: readIndexedHistory_def demo_sources mergeHistorySources_def indexed_history_def index_source_def index merge_items_def merge_item_def key
        sort_by_def order_le_def demo_order_def upt_rec Let_def)
qed

theorem history_pages_consecutive_witness:
  "\<exists>p. entries demo_reads demo_read_state demo_read_state ''a'' demo_reader
      (page_query 1 (cursor_at demo_reads [] (readIndexedHistory demo_reads demo_read_state ''a'') 1)) = Inr (Inr p) \<and> \<not> hp_hasMore p \<and> hp_next p = None"
proof -
  let ?xs = "readIndexedHistory demo_reads demo_read_state ''a''"
  have scope: "entries_scope demo_reads demo_reader ''a'' = []"
    by (simp add: entries_scope_def readCursorScope_def demo_reads_def)
  have two: "length ?xs = 2" using arg_cong [OF demo_history_orders, of length] by simp
  have orders: "hm_order x \<in> {demo_order 0, demo_order 1}" if "x \<in> set ?xs" for x
    using that arg_cong [OF demo_history_orders, of set] by auto
  have "cursor_json (re_cursor demo_reads) (cursor_value [] (demo_order n)) \<and> list_all2 item_typed HISTORY_ORDER_TYPES (demo_order n)"
    if "n = 0 \<or> n = 1" for n
    using that by (auto simp: cursor_json_def demo_reads_def cursor_value_def demo_order_def HISTORY_ORDER_TYPES_def safe_integer_def)
  with orders have "serializable_history demo_reads [] ?xs"
    unfolding serializable_history_def list_all_iff by fastforce
  then show ?thesis
    using history_pages_consecutive [OF demo_owned, of demo_reads 1 1 demo_read_state] demo_members two
    by (simp add: members_named_def scope)
qed

section \<open>Read pointers\<close>

definition all_refs :: "history_item list \<Rightarrow> (history_item \<times> string \<times> string) list" where
  "all_refs xs = concat (map (\<lambda>x. map (Pair x) (hm_refs x)) xs)"

text \<open>What the pointers rely on: SHA-256 gives different entries different references, and no entry has a
  reference as its id.\<close>

definition refs_unique :: "history_item list \<Rightarrow> bool" where
  "refs_unique xs \<longleftrightarrow> distinct (map (snd \<circ> snd) (all_refs xs)) \<and> (\<forall>a \<in> set (all_refs xs). \<forall>b \<in> set (all_refs xs). fst (snd a) \<noteq> snd (snd b))"

lemma resolve_all_refs:
  "resolveReadEntry xs reference = (case map fst (filter (\<lambda>a. snd (snd a) = reference \<or> fst (snd a) = reference) (all_refs xs)) of [x] \<Rightarrow> Some x | _ \<Rightarrow> None)"
proof -
  have "concat (map (\<lambda>x. map (\<lambda>_. x) (filter (\<lambda>r. snd r = reference \<or> fst r = reference) (hm_refs x))) xs)
      = map fst (filter (\<lambda>a. snd (snd a) = reference \<or> fst (snd a) = reference) (all_refs xs))"
    unfolding all_refs_def by (induction xs) (simp_all add: filter_map comp_def)
  then show ?thesis by (simp only: resolveReadEntry_def)
qed

lemma filter_unique: "distinct (map f xs) \<Longrightarrow> y \<in> set xs \<Longrightarrow> filter (\<lambda>z. f z = f y) xs = [y]"
proof (induction xs)
  case (Cons x xs)
  then show ?case by (cases "x = y") (auto simp: filter_empty_conv image_iff)
qed simp

text \<open>The reference of an entry is one of its references, also after merging.\<close>

definition own_ref :: "history_item \<Rightarrow> bool" where
  "own_ref x \<longleftrightarrow> entry_ref_of x \<in> snd ` set (hm_refs x) \<and> entry_ref_of x \<noteq> []"

lemma own_ref_index:
  assumes "x \<in> set (index_source env t conversation src)"
  shows "own_ref x"
proof -
  obtain raw i w where x: "hm_entry x = history_fields env t conversation src w raw i" "hm_refs x = [(i, historyEntryRef env conversation (hx_employee src) i)]"
    using assms by (auto simp: index_source_def Let_def index_entry_def split: option.splits jsval.splits if_splits)
  have "map_of (user_source experts origin r) ''entry_ref'' = map_of r ''entry_ref''" for experts origin r
    by (simp add: user_source_def Let_def map_of_put del: js_field.simps split: option.split)
  moreover have "map_of (employee_source experts e role r) ''entry_ref'' = map_of r ''entry_ref''" for experts e role r
    by (simp add: employee_source_def spread_def split: option.split)
  ultimately have "entry_ref_of x = historyEntryRef env conversation (hx_employee src) i"
    by (simp add: entry_ref_of_def text_field_def x history_fields_def Let_def map_of_put)
  then show ?thesis by (simp add: own_ref_def x historyEntryRef_def)
qed

lemma own_ref_merged:
  assumes "x \<in> set (mergeHistorySources env st pv wr fs conversation sources)"
  shows "own_ref x"
proof -
  have "\<forall>x \<in> set kept. own_ref x \<Longrightarrow> \<forall>x \<in> set items. own_ref x \<Longrightarrow> \<forall>x \<in> set (fold merge_item items kept). own_ref x" for items kept
  proof (induction items arbitrary: kept)
    case (Cons y items)
    have "own_ref (p\<lparr>hm_refs := hm_refs p @ rs\<rparr>)" if "own_ref p" for p rs
      using that by (auto simp: own_ref_def entry_ref_of_def)
    with Cons.prems have "\<forall>x \<in> set (merge_item y kept). own_ref x"
      unfolding merge_item_def by auto
    with Cons show ?case by simp
  qed simp
  moreover have "\<forall>x \<in> set (indexed_history env t conversation sources). own_ref x" for t
    unfolding indexed_history_def set_sort_by by (auto intro: own_ref_index)
  ultimately show ?thesis
    using assms unfolding mergeHistorySources_def merge_items_def by (metis empty_iff list.set(1))
qed

lemma resolve_member: "resolveReadEntry xs reference = Some x \<Longrightarrow> x \<in> set xs"
  by (auto simp: resolveReadEntry_def split: list.splits dest!: arg_cong [where f = set])

lemma resolve_own_ref:
  assumes "refs_unique xs" "x \<in> set xs" "own_ref x"
  shows "resolveReadEntry xs (entry_ref_of x) = Some x"
proof -
  from assms(3) obtain i where i: "(i, entry_ref_of x) \<in> set (hm_refs x)" by (auto simp: own_ref_def)
  let ?a = "(x, i, entry_ref_of x)"
  have a: "?a \<in> set (all_refs xs)" using assms(2) i by (auto simp: all_refs_def)
  have "filter (\<lambda>b. snd (snd b) = entry_ref_of x \<or> fst (snd b) = entry_ref_of x) (all_refs xs)
      = filter (\<lambda>b. (snd \<circ> snd) b = (snd \<circ> snd) ?a) (all_refs xs)"
    using assms(1) a unfolding refs_unique_def by (intro filter_cong) fastforce+
  also have "\<dots> = [?a]"
    using assms(1) a by (intro filter_unique) (simp_all only: refs_unique_def)
  finally show ?thesis by (simp add: resolve_all_refs)
qed

definition visible_reply :: "read_env \<Rightarrow> history_item \<Rightarrow> bool" where
  "visible_reply env x \<longleftrightarrow>
     visibleHistoryText (re_history env) (JObj (hm_entry x)) \<noteq> None \<and> is_message_of ''assistant'' (JObj (hm_entry x))"

lemma metadata_fold:
  "snd (snd (fold (metadata_item env read) xs acc)) = snd (snd acc)
     + length (filter (\<lambda>x. visible_reply env x \<and> (case read of None \<Rightarrow> True | Some r \<Rightarrow> compareReadOrder (hm_order x) (hm_order r) > 0)) xs)"
  by (induction xs arbitrary: acc) (auto simp: metadata_item_def visible_reply_def split: option.split)

text \<open>Marking a conversation as read works: the pointer that is stored for an accepted id or reference leads
  back to the same entry, and from then on the unread count is the number of visible replies after it,
  which is none when it is the latest entry.\<close>

theorem read_pointer_roundtrip:
  assumes "readPointer env st conversation who (JStr v) = Inr (Some p)"
    and "refs_unique (readIndexedHistory env st conversation)" "members_named (rs_store st) conversation"
    and "owned st' conversation who = Inr (c\<lparr>cv_lastRead := Some p\<rparr>)"
    and "readIndexedHistory env st' conversation = readIndexedHistory env st conversation"
  shows "\<exists>x m. resolveReadEntry (readIndexedHistory env st conversation) v = Some x
    \<and> resolveReadEntry (readIndexedHistory env st conversation) p = Some x
    \<and> metadata env st' conversation who = Inr m
    \<and> mv_unread m = length (filter (\<lambda>y. visible_reply env y \<and> compareReadOrder (hm_order y) (hm_order x) > 0) (readIndexedHistory env st conversation))
    \<and> (x = last (readIndexedHistory env st conversation) \<longrightarrow> mv_unread m = 0)"
proof -
  let ?xs = "readIndexedHistory env st conversation"
  from assms(1) obtain x where x: "resolveReadEntry ?xs v = Some x" "p = entry_ref_of x"
    by (auto simp: readPointer_def readEntries_def requireHistoryOwner_def split: sum.splits if_splits option.splits)
  have "x \<in> set ?xs" by (rule resolve_member [OF x(1)])
  moreover from this have own: "own_ref x" unfolding readIndexedHistory_def by (rule own_ref_merged)
  ultimately have p: "resolveReadEntry ?xs p = Some x" "p \<noteq> []"
    using resolve_own_ref [OF assms(2)] own by (auto simp: x(2) own_ref_def)
  have read: "readEntries env st' conversation who = Inr ?xs"
    using assms(4,5) by (simp add: readEntries_def requireHistoryOwner_def owned_def split: option.splits)
  obtain m where m: "metadata env st' conversation who = Inr m"
    "mv_unread m = length (filter (\<lambda>y. visible_reply env y \<and> compareReadOrder (hm_order y) (hm_order x) > 0) ?xs)"
    by (simp add: metadata_def assms(4) read p Let_def metadata_fold)
  have "mv_unread m = 0" if "x = last ?xs"
  proof -
    have ordered: "history.ordered ?xs" "list_all (\<lambda>x. shaped (hm_order x)) ?xs"
      using history_ordered [OF distinct_source_names [OF assms(3)]] by (simp_all add: readIndexedHistory_def)
    have "behind_boundary (Some (hm_order x)) ?xs = []"
      using behind_boundary_drop [OF ordered, of "length ?xs"] \<open>x \<in> set ?xs\<close> that by (cases ?xs) simp_all
    then show ?thesis by (auto simp: m(2) behind_boundary_def filter_empty_conv)
  qed
  with x(1) p(1) m show ?thesis by blast
qed

definition demo_marked :: "string option \<Rightarrow> read_state" where
  "demo_marked q = demo_read_state\<lparr>rs_store := demo_listed\<lparr>st_conversations := [(demo_row ''a'' 1)\<lparr>cv_lastRead := q\<rparr>]\<rparr>\<rparr>"

definition demo_one :: read_env where
  "demo_one = demo_reads\<lparr>re_host := (re_host demo_reads)\<lparr>hv_live := (\<lambda>_ _. Some [demo_said ''x''])\<rparr>\<rparr>"

definition demo_item :: history_item where
  "demo_item = \<lparr>hm_entry = [(''id'', JStr ''x''), (''type'', JStr ''b''), (''entry_ref'', JStr ''entry_v1_r'')],
     hm_order = demo_order 0, hm_refs = [(''x'', ''entry_v1_r'')]\<rparr>"

lemma demo_one_history: "readIndexedHistory demo_one (demo_marked q) ''a'' = [demo_item]"
proof -
  have positions: "reconcileEntryPositions [work_view (demo_said ''x'')] = []"
    by (simp add: reconcileEntryPositions_def work_view_def demo_said_def is_message_def Let_def)
  have "readExistingHistorySources (re_host demo_one) (rs_store (demo_marked q)) ''a'' =
      [\<lparr>hx_employee = None, hx_role = Some Member, hx_entries = [demo_said ''x'']\<rparr>]"
    by (simp add: readExistingHistorySources_def getConversation_def legacy_source_def legacy_employee_def session_entries_def given_employee_def
        listConversationParticipants_def sort_by_def demo_marked_def demo_one_def demo_read_defs)
  moreover have "index_entry demo_history_env t ''a'' \<lparr>hx_employee = None, hx_role = r, hx_entries = es\<rparr> ws [] 0 (demo_said ''x'') = [demo_item]" for t r es ws
    by (simp add: index_entry_def history_fields_def is_message_of_def employee_source_def put_def text_member_def entry_members_def historyEntryRef_def
        historyTimestamp_def demo_said_def demo_item_def demo_order_def demo_history_env_def nullish_def omap_delete_def Let_def)
  ultimately show ?thesis
    by (simp add: readIndexedHistory_def mergeHistorySources_def indexed_history_def index_source_def positions
        merge_items_def merge_item_def sort_by_def demo_one_def demo_reads_def Let_def)
qed

theorem read_pointer_roundtrip_witness:
  "readPointer demo_one (demo_marked None) ''a'' demo_reader (JStr ''x'') = Inr (Some ''entry_v1_r'')
   \<and> (\<exists>m. metadata demo_one (demo_marked (Some ''entry_v1_r'')) ''a'' demo_reader = Inr m \<and> mv_unread m = 0)"
proof -
  have owned: "owned (demo_marked q) ''a'' demo_reader = Inr ((demo_row ''a'' 1)\<lparr>cv_lastRead := q\<rparr>)" for q
    by (simp add: owned_def owned_row_def getOwnedConversation_def getConversation_def callerMemberId_def nullish_def demo_marked_def demo_read_defs)
  have read: "readEntries demo_one (demo_marked None) ''a'' demo_reader = Inr [demo_item]"
    using owned [of None] by (simp add: readEntries_def requireHistoryOwner_def owned_def demo_one_history split: option.splits)
  have pointer: "readPointer demo_one (demo_marked None) ''a'' demo_reader (JStr ''x'') = Inr (Some ''entry_v1_r'')"
    by (simp add: readPointer_def owned read resolveReadEntry_def demo_item_def entry_ref_of_def text_field_def)
  have unique: "refs_unique (readIndexedHistory demo_one (demo_marked None) ''a'')"
    by (simp add: refs_unique_def all_refs_def demo_one_history demo_item_def)
  have named: "members_named (rs_store (demo_marked None)) ''a''"
    by (simp add: members_named_def listConversationParticipants_def sort_by_def demo_marked_def demo_read_defs)
  show ?thesis
    using read_pointer_roundtrip [OF pointer unique named, where c = "demo_row ''a'' 1" and st' = "demo_marked (Some ''entry_v1_r'')"] owned pointer
    by (auto simp: demo_one_history resolveReadEntry_def demo_item_def)
qed

section \<open>Search stays with its owner\<close>

lemma collect_member:
  "collect f xs = Inr ys \<Longrightarrow> y \<in> set ys \<Longrightarrow> \<exists>x \<in> set xs. \<exists>zs. f x = Inr zs \<and> y \<in> set zs"
proof (induction xs arbitrary: ys)
  case (Cons x xs)
  then obtain zs rest where f: "f x = Inr zs" "collect f xs = Inr rest" "ys = zs @ rest"
    by (auto split: sum.splits simp: map_sum_def)
  with Cons show ?case by fastforce
qed simp

lemma search_item_match:
  assumes "search_item env q boundary c x = Inr ms" "m \<in> set ms"
  shows "\<exists>s n. searchableHistoryText (re_history env) (JObj (hm_entry x)) = Some s \<and> index_of (js_lower (sq_q q)) (js_lower s) = Some n
    \<and> search_value env c x (search_snippet env s n) = Inr (sm_value m) \<and> sm_order m = hm_order x"
  using assms by (auto simp: search_item_def map_sum_def split: if_splits option.splits sum.splits)

lemma index_of_occurs: "index_of needle s = Some n \<Longrightarrow> \<exists>before after. s = before @ needle @ after \<and> length before = n"
proof (induction s arbitrary: n)
  case Nil
  then show ?case by (auto simp: index_of.simps split: if_splits)
next
  case (Cons c s)
  then show ?case
    by (subst (asm) (2) index_of.simps) (force simp: prefix_def split: if_splits dest: Cons.IH intro: exI [of _ "c # _"])
qed

lemma map_of_puts: "k \<notin> set ks \<Longrightarrow> map_of (fold (\<lambda>j. put j (f j)) ks r) k = map_of r k"
  by (induction ks arbitrary: r) (simp_all add: map_of_put)

lemma search_value_conversation:
  assumes "search_value env c x snippet = Inr v"
  shows "map_of v ''conversation_id'' = Some (JStr (cv_id c))"
proof -
  have "''conversation_id'' \<notin> set SEARCH_FIELDS" by (simp add: SEARCH_FIELDS_def)
  from map_of_puts [OF this] assms show ?thesis
    unfolding search_value_def Let_def by (cases "serializePiEntry (hy_event (re_history env)) (JObj (omap_set ''message'' JUndef (hm_entry x)))")
      (auto simp: if_distrib cong: if_cong split: if_split_asm)
qed

lemma search_Inr:
  assumes "search env st who query = Some (Inr page)"
  shows "\<exists>q boundary cs ms. parse_search query = Inr q \<and> collect (search_conversation env st who q boundary) cs = Inr ms
    \<and> page = page_of_matches env (search_scope env who q) (sq_limit q) ms"
proof -
  from assms obtain q where q: "parse_search query = Inr q"
    unfolding search_def by (cases "parse_search query") auto
  have rest: "(case cursor_query env (search_scope env who q) query of
        Inl e \<Rightarrow> Some (Inl e)
      | Inr boundary \<Rightarrow>
          map_option (\<lambda>found. case found of Inl e \<Rightarrow> Inl e
            | Inr cs \<Rightarrow> map_sum id (page_of_matches env (search_scope env who q) (sq_limit q)) (collect (search_conversation env st who q boundary) cs))
          (searched_conversations env st who q)) = Some (Inr page)"
    using assms unfolding search_def q sum.case by (auto split: option.splits sum.splits)
  then obtain boundary where "cursor_query env (search_scope env who q) query = Inr boundary"
    by (cases "cursor_query env (search_scope env who q) query") auto
  with rest obtain found where
    page: "(case found of Inl e \<Rightarrow> Inl e
      | Inr cs \<Rightarrow> map_sum id (page_of_matches env (search_scope env who q) (sq_limit q)) (collect (search_conversation env st who q boundary) cs)) = Inr page"
    by auto
  show ?thesis
  proof (cases found)
    case (Inr cs)
    with q page show ?thesis by (cases "collect (search_conversation env st who q boundary) cs") auto
  qed (use page in simp)
qed

text \<open>A search shows only what its caller owns and asked for: every hit names a conversation of the caller,
  comes from an entry of its history whose redacted text contains the query regardless of case, and there
  are at most as many hits as the page may hold, which is at most 100.\<close>

theorem search_only_own_matches:
  assumes "search env st who query = Some (Inr page)"
  shows "\<exists>q. parse_search query = Inr q \<and> length (sg_values page) \<le> sq_limit q \<and> sq_limit q \<le> 100
    \<and> (\<forall>v \<in> set (sg_values page). \<exists>(c :: conversation) c' (x :: history_item) s before after.
         map_of v ''conversation_id'' = Some (JStr (cv_id c)) \<and> owned st (cv_id c) who = Inr c' \<and> x \<in> set (readIndexedHistory env st (cv_id c))
         \<and> searchableHistoryText (re_history env) (JObj (hm_entry x)) = Some s
         \<and> js_lower s = before @ js_lower (sq_q q) @ after)"
proof -
  from search_Inr [OF assms] obtain q boundary cs ms where q: "parse_search query = Inr q"
    and ms: "collect (search_conversation env st who q boundary) cs = Inr ms"
    and page: "page = page_of_matches env (search_scope env who q) (sq_limit q) ms" by blast
  have limit: "sq_limit q \<le> 100"
    using q by (auto simp: parse_search_def readPageLimit_def Let_def split: option.splits if_splits sum.splits)
  have shown: "set (sg_values page) \<subseteq> sm_value ` set ms" "length (sg_values page) \<le> sq_limit q"
    unfolding page page_of_matches_def by (auto simp: Let_def dest: in_set_takeD)
  have "\<exists>(c :: conversation) c' (x :: history_item) s before after.
      map_of v ''conversation_id'' = Some (JStr (cv_id c)) \<and> owned st (cv_id c) who = Inr c' \<and> x \<in> set (readIndexedHistory env st (cv_id c))
      \<and> searchableHistoryText (re_history env) (JObj (hm_entry x)) = Some s \<and> js_lower s = before @ js_lower (sq_q q) @ after"
    if "v \<in> set (sg_values page)" for v
  proof -
    from that shown(1) obtain m where "m \<in> set ms" "v = sm_value m" by blast
    with collect_member [OF ms this(1)] obtain c zs where c: "search_conversation env st who q boundary c = Inr zs" "m \<in> set zs" by blast
    then obtain items where items: "readEntries env st (cv_id c) who = Inr items" "collect (search_item env q boundary c) items = Inr zs"
      by (auto simp: search_conversation_def split: sum.splits)
    from items(1) have history: "items = readIndexedHistory env st (cv_id c)" "\<exists>c'. owned st (cv_id c) who = Inr c'"
      by (auto simp: readEntries_def requireHistoryOwner_def owned_def split: option.splits if_splits)
    from collect_member [OF items(2) c(2)] obtain x os where x: "x \<in> set items" "search_item env q boundary c x = Inr os" "m \<in> set os" by blast
    from search_item_match [OF x(2,3)] obtain s n where s: "searchableHistoryText (re_history env) (JObj (hm_entry x)) = Some s"
      "index_of (js_lower (sq_q q)) (js_lower s) = Some n" "search_value env c x (search_snippet env s n) = Inr (sm_value m)" by blast
    obtain before after where "js_lower s = before @ js_lower (sq_q q) @ after" using index_of_occurs [OF s(2)] by blast
    moreover have "map_of v ''conversation_id'' = Some (JStr (cv_id c))" using search_value_conversation [OF s(3)] \<open>v = sm_value m\<close> by simp
    moreover obtain c' where "owned st (cv_id c) who = Inr c'" using history(2) by blast
    ultimately show ?thesis
      using history(1) x(1) s(1) by blast
  qed
  with q limit shown(2) show ?thesis by blast
qed

end
