(* ===== verification/Directory_Store.thy ===== *)
theory Directory_Store
  imports Projections Execution_Authorization Read_Paging
begin

text \<open>
  Local directories a member lets employees read: the tables of \<open>storage/local-directories.ts\<close>, the answers
  of the desktop host that \<open>local-directory-host.ts\<close> accepts, and the tool policy of
  \<open>services/local-directories.ts\<close>.  An error is the code of its \<open>LocalDirectoryError\<close>; a new identifier and
  the time are arguments.
\<close>

type_synonym dir_owner = "string \<times> string"

record directory_resource =
  dr_id :: string
  dr_owner :: dir_owner
  dr_path :: string
  dr_name :: string
  dr_identity :: string
  dr_revision :: nat
  dr_created :: ms
  dr_revoked :: "ms option"

record directory_binding =
  db_owner :: dir_owner
  db_employee :: string
  db_directory :: string
  db_enabled :: bool
  db_revision :: nat
  db_updated :: ms

record directory_tables =
  dt_resources :: "directory_resource list"
  dt_bindings :: "directory_binding list"

record host_directory =
  hd_path :: string
  hd_name :: string
  hd_identity :: string

section \<open>The tables\<close>

definition live_directory :: "dir_owner \<Rightarrow> directory_resource \<Rightarrow> bool" where
  "live_directory own r \<longleftrightarrow> dr_owner r = own \<and> dr_revoked r = None"

definition dir_list :: "dir_owner \<Rightarrow> directory_tables \<Rightarrow> directory_resource list" where
  "dir_list own t =
     sort_by (\<lambda>a b. dr_created a < dr_created b \<or> (dr_created a = dr_created b \<and> text_le (dr_id a) (dr_id b)))
       (filter (live_directory own) (dt_resources t))"

definition dir_get :: "dir_owner \<Rightarrow> string \<Rightarrow> directory_tables \<Rightarrow> string + directory_resource" where
  "dir_get own i t =
     (case find (\<lambda>r. dr_id r = i \<and> live_directory own r) (dt_resources t) of None \<Rightarrow> Inl ''unauthorized'' | Some r \<Rightarrow> Inr r)"

text \<open>An identifier that is already a primary key is refused by the insert.\<close>

definition dir_register :: "string \<Rightarrow> ms \<Rightarrow> dir_owner \<Rightarrow> host_directory \<Rightarrow> directory_tables \<Rightarrow> (string + directory_resource) \<times> directory_tables" where
  "dir_register i now own h t =
     (case find (\<lambda>r. dr_path r = hd_path h) (dir_list own t) of
        Some existing \<Rightarrow> (if dr_identity existing \<noteq> hd_identity h then Inl ''source_changed'' else Inr existing, t)
      | None \<Rightarrow>
          if i \<in> dr_id ` set (dt_resources t) then (Inl ''constraint_failed'', t)
          else (let r = \<lparr>dr_id = i, dr_owner = own, dr_path = hd_path h, dr_name = hd_name h, dr_identity = hd_identity h, dr_revision = 1,
                         dr_created = now, dr_revoked = None\<rparr>;
                    t' = t\<lparr>dt_resources := dt_resources t @ [r]\<rparr>
                in (dir_get own i t', t')))"

definition bound_to :: "dir_owner \<Rightarrow> string \<Rightarrow> directory_binding \<Rightarrow> bool" where
  "bound_to own i b \<longleftrightarrow> db_owner b = own \<and> db_directory b = i"

definition dir_bindings :: "dir_owner \<Rightarrow> string \<Rightarrow> directory_tables \<Rightarrow> string + directory_binding list" where
  "dir_bindings own i t =
     (case dir_get own i t of
        Inl e \<Rightarrow> Inl e
      | Inr _ \<Rightarrow> Inr (sort_by (\<lambda>a b. text_le (db_employee a) (db_employee b)) (filter (bound_to own i) (dt_bindings t))))"

definition binding_of :: "dir_owner \<Rightarrow> string \<Rightarrow> string \<Rightarrow> directory_tables \<Rightarrow> directory_binding option" where
  "binding_of own i employee t =
     (case dir_bindings own i t of Inl _ \<Rightarrow> None | Inr bs \<Rightarrow> find (\<lambda>b. db_employee b = employee) bs)"

definition binding_key :: "directory_binding \<Rightarrow> dir_owner \<times> string \<times> string" where
  "binding_key b = (db_owner b, db_employee b, db_directory b)"

definition bind_row :: "directory_binding \<Rightarrow> directory_tables \<Rightarrow> directory_tables" where
  "bind_row b t = t\<lparr>dt_bindings := upsert_row binding_key b (dt_bindings t)\<rparr>"

definition dir_bind ::
  "ms \<Rightarrow> dir_owner \<Rightarrow> string \<Rightarrow> string \<Rightarrow> bool \<Rightarrow> jsval \<Rightarrow> directory_tables \<Rightarrow> (string + directory_binding) \<times> directory_tables" where
  "dir_bind now own i employee enabled expected t =
     (case dir_get own i t of
        Inl e \<Rightarrow> (Inl e, t)
      | Inr _ \<Rightarrow>
          (case js_integer expected of
             None \<Rightarrow> (Inl ''invalid_revision'', t)
           | Some n \<Rightarrow>
               if \<not> safe_integer n \<or> n < 0 then (Inl ''invalid_revision'', t)
               else (let current = binding_of own i employee t
                     in if int (case current of Some b \<Rightarrow> db_revision b | None \<Rightarrow> 0) \<noteq> n then (Inl ''revision_conflict'', t)
                        else if map_option db_enabled current = Some enabled then (Inr (the current), t)
                        else (let b = \<lparr>db_owner = own, db_employee = employee, db_directory = i, db_enabled = enabled,
                                       db_revision = nat n + 1, db_updated = now\<rparr>
                              in (Inr b, bind_row b t)))))"

definition revoke_resource :: "ms \<Rightarrow> directory_resource \<Rightarrow> directory_resource" where
  "revoke_resource now r = r\<lparr>dr_revoked := Some now, dr_revision := dr_revision r + 1\<rparr>"

definition disable_binding :: "ms \<Rightarrow> directory_binding \<Rightarrow> directory_binding" where
  "disable_binding now b = b\<lparr>db_enabled := False, db_revision := db_revision b + 1, db_updated := now\<rparr>"

text \<open>Both updates are one transaction.\<close>

definition dir_revoke :: "ms \<Rightarrow> dir_owner \<Rightarrow> string \<Rightarrow> directory_tables \<Rightarrow> string option \<times> directory_tables" where
  "dir_revoke now own i t =
     (case dir_get own i t of
        Inl e \<Rightarrow> (Some e, t)
      | Inr _ \<Rightarrow>
          (None, t\<lparr>dt_resources := update_rows (\<lambda>r. dr_id r = i \<and> dr_owner r = own) (revoke_resource now) (dt_resources t),
                   dt_bindings := update_rows (bound_to own i) (disable_binding now) (dt_bindings t)\<rparr>))"

section \<open>Answers of the host\<close>

record directory_listing =
  dl_authority :: string
  dl_entries :: "(string \<times> bool) list"
  dl_partial :: bool

record directory_source =
  du_authority :: string
  du_text :: string
  du_version :: string

definition HOST_ERRORS :: "string list" where
  "HOST_ERRORS = [''unauthorized'', ''authorization_unavailable'', ''citation_expired'', ''source_changed'', ''file_unavailable'', ''unsupported_format'',
     ''unsupported_file'', ''budget_exhausted'', ''parse_failed'', ''source_overlaps_runtime'', ''cancelled'']"

abbreviation unavailable :: string where
  "unavailable \<equiv> ''authorization_unavailable''"

text \<open>The reply on the socket, already parsed; \<open>None\<close> is a text that is no JSON.\<close>

definition host_response :: "jsval option \<Rightarrow> string + jsval" where
  "host_response v =
     (case v of
        None \<Rightarrow> Inl unavailable
      | Some value' \<Rightarrow>
          (case js_field value' ''error'' of
             JStr code \<Rightarrow> Inl (if code \<in> set HOST_ERRORS then code else unavailable)
           | _ \<Rightarrow> (case js_field value' ''data'' of JObj fs \<Rightarrow> Inr (JObj fs) | _ \<Rightarrow> Inl unavailable)))"

definition stringField :: "jsval \<Rightarrow> string \<Rightarrow> string + string" where
  "stringField v k = (case js_field v k of JStr s \<Rightarrow> Inr s | _ \<Rightarrow> Inl unavailable)"

definition host_status :: "jsval \<Rightarrow> string option" where
  "host_status data =
     (case js_field data ''epoch'' of JStr _ \<Rightarrow> if js_field data ''platform'' = JStr ''darwin'' then None else Some unavailable | _ \<Rightarrow> Some unavailable)"

definition host_receipt :: "jsval \<Rightarrow> string + host_directory" where
  "host_receipt data =
     (case (stringField data ''canonical_path'', stringField data ''display_name'', stringField data ''root_identity'') of
        (Inr p, Inr n, Inr i) \<Rightarrow> Inr \<lparr>hd_path = p, hd_name = n, hd_identity = i\<rparr> | _ \<Rightarrow> Inl unavailable)"

text \<open>\<open>/[\0/\\]/\<close>\<close>

definition unsafe_entry_char :: "char \<Rightarrow> bool" where
  "unsafe_entry_char c \<longleftrightarrow> c = CHR 0x00 \<or> c = CHR ''/'' \<or> c = CHR 0x5C"

definition host_entry :: "jsval \<Rightarrow> (string \<times> bool) option" where
  "host_entry v =
     (case (js_field v ''name'', js_field v ''directory'') of
        (JStr name, JBool d) \<Rightarrow> if list_ex unsafe_entry_char name \<or> name = ''..'' \<or> name = ''.'' then None else Some (name, d)
      | _ \<Rightarrow> None)"

definition host_listing :: "jsval \<Rightarrow> string + directory_listing" where
  "host_listing data =
     (case (js_field data ''entries'', js_field data ''partial'') of
        (JArr vs, JBool p) \<Rightarrow>
          if length vs > 2048 \<or> list_ex (\<lambda>v. host_entry v = None) vs then Inl unavailable
          else (case stringField data ''authority'' of
                  Inl e \<Rightarrow> Inl e | Inr a \<Rightarrow> Inr \<lparr>dl_authority = a, dl_entries = map (the \<circ> host_entry) vs, dl_partial = p\<rparr>)
      | _ \<Rightarrow> Inl unavailable)"

definition host_source :: "jsval \<Rightarrow> string + directory_source" where
  "host_source data =
     (case (stringField data ''authority'', stringField data ''text'', stringField data ''content_version'') of
        (Inr a, Inr s, Inr v) \<Rightarrow> Inr \<lparr>du_authority = a, du_text = s, du_version = v\<rparr> | _ \<Rightarrow> Inl unavailable)"

section \<open>Policy\<close>

definition LOCAL_DIRECTORY_TOOLS :: "string list" where
  "LOCAL_DIRECTORY_TOOLS = [''local_dir_search'', ''local_dir_read'']"

definition KNOWLEDGE_ALIAS :: "string \<Rightarrow> string" where
  "KNOWLEDGE_ALIAS tool = (if tool = ''local_dir_search'' then ''knowledge_search'' else ''knowledge_get'')"

definition allowed_tool_names :: "fields \<Rightarrow> jsval list option" where
  "allowed_tool_names snapshot =
     (case member_of snapshot ''tool_policy'' of
        JObj p \<Rightarrow> (case member_of p ''allowed_tools'' of JArr vs \<Rightarrow> Some vs | _ \<Rightarrow> None) | _ \<Rightarrow> None)"

definition operation_granted :: "jsval list \<Rightarrow> string \<Rightarrow> bool" where
  "operation_granted allowed operation \<longleftrightarrow>
     allowed = [] \<or> JStr (if operation = ''knowledge_search'' then ''local_dir_search'' else ''local_dir_read'') \<in> set allowed
     \<or> JStr operation \<in> set allowed"

definition localDirectoryTools :: "fields \<Rightarrow> string list" where
  "localDirectoryTools snapshot =
     (let knowledge = member_of snapshot ''knowledge_policy''; names = nullish (allowed_tool_names snapshot) []
      in case js_field knowledge ''allowed_operations'' of
           JArr operations \<Rightarrow>
             if js_field knowledge ''state'' \<notin> {JStr ''inherit'', JStr ''allow''} then []
             else if list_ex (\<lambda>v. \<not> (case v of JStr _ \<Rightarrow> True | _ \<Rightarrow> False)) names then []
             else filter (\<lambda>tool. JStr (KNOWLEDGE_ALIAS tool) \<in> set operations \<and> operation_granted names (KNOWLEDGE_ALIAS tool)) LOCAL_DIRECTORY_TOOLS
         | _ \<Rightarrow> [])"

end
