(* ===== verification/Local_Directories.thy ===== *)
theory Local_Directories
  imports Directory_Store
begin

text \<open>
  \<open>LocalDirectoryService\<close> of \<open>services/local-directories.ts\<close>.  An asynchronous method is a function of the
  \<^emph>\<open>worlds\<close> it sees: the first is the world it is called in, and at each \<open>await\<close> the next one is the world in
  which it resumes.  A world holds the state of the service at that moment, the time and what the desktop
  host answers then, so that everything else may happen between two worlds.  A result \<open>None\<close> is a call that
  still waits.  \<open>verified\<close> is the set of verified callers, \<open>randomUUID\<close>, NFKC with lower case, the collation and
  byte sizes are fields of \<open>dir_env\<close>.
\<close>

record dir_env =
  de_verified :: "caller \<Rightarrow> bool"
  de_uuid :: "nat \<Rightarrow> string"
  de_fold :: "char \<Rightarrow> string"
  de_normal :: "string \<Rightarrow> string"
  de_collate :: "string \<Rightarrow> string \<Rightarrow> bool"
  de_bytes :: "string \<Rightarrow> nat"

record dir_context =
  dx_caller :: caller
  dx_employee :: string
  dx_conversation :: string
  dx_session :: string
  dx_turn :: string
  dx_snapshot :: jsval
  dx_generation :: nat
  dx_permission :: permission_mode
  dx_background :: bool

record citation =
  ct_id :: string
  ct_context :: dir_context
  ct_owner :: dir_owner
  ct_resource :: directory_resource
  ct_title :: string
  ct_relative :: string
  ct_snippet :: string
  ct_version :: string
  ct_authority :: string
  ct_binding :: nat
  ct_expires :: ms

record active_task =
  tk_owner :: dir_owner
  tk_employee :: string
  tk_directories :: "string list"
  tk_aborted :: bool

record dir_service =
  ds_tables :: directory_tables
  ds_registry :: auth_registry
  ds_store :: store
  ds_projections :: projections
  ds_citations :: "(string, citation) omap"
  ds_tasks :: "(nat, active_task) omap"

record dir_world =
  dw_state :: dir_service
  dw_now :: ms
  dw_clock :: rat
  dw_status :: "string option"
  dw_challenge :: "dir_owner \<Rightarrow> string + string"
  dw_consume :: "dir_owner \<Rightarrow> string \<Rightarrow> string + host_directory"
  dw_check :: "directory_resource \<Rightarrow> string + string"
  dw_list :: "directory_resource \<Rightarrow> string \<Rightarrow> string + directory_listing"
  dw_read :: "directory_resource \<Rightarrow> string \<Rightarrow> string + directory_source"

section \<open>Authorization\<close>

text \<open>\<open>owner\<close>: a verified caller whose token has not expired on the local clock.\<close>

definition directory_owner :: "dir_env \<Rightarrow> caller \<Rightarrow> ms \<Rightarrow> string + dir_owner" where
  "directory_owner env c now =
     (case (ca_tenantId c, ca_userId c, caller_expiry c) of
        (Some t, Some m, Some e) \<Rightarrow>
          if \<not> de_verified env c \<or> t = [] \<or> m = [] \<or> e \<le> of_int now then Inl ''unauthorized'' else Inr (t, m)
      | _ \<Rightarrow> Inl ''unauthorized'')"

definition owned_view :: "dir_owner \<Rightarrow> string \<Rightarrow> fields \<Rightarrow> bool" where
  "owned_view own i v \<longleftrightarrow>
     text_option v ''employee_id'' = Some i \<and> text_option v ''tenant_id'' = Some (fst own) \<and> text_option v ''member_id'' = Some (snd own)"

definition directory_employee :: "dir_owner \<Rightarrow> string \<Rightarrow> projections \<Rightarrow> string + fields" where
  "directory_employee own i pv =
     (case find (\<lambda>v. owned_view own i v \<and> \<not> js_truthy (member_of v ''revoked'')) (listLoadedExperts (Some (fst own)) (Some (snd own)) False pv) of
        None \<Rightarrow> Inl ''unauthorized''
      | Some expert \<Rightarrow>
          if member_of expert ''lifecycle_status'' \<notin> {JUndef, JStr ''active''} then Inl ''unauthorized''
          else (case find (\<lambda>v. owned_view own i v \<and> member_of v ''version'' = member_of expert ''version'')
                       (listSnapshots (Some (fst own)) (Some (snd own)) pv) of
                  None \<Rightarrow> Inl ''unauthorized'' | Some snapshot \<Rightarrow> Inr snapshot))"

definition takes_part :: "dir_context \<Rightarrow> conversation \<Rightarrow> store \<Rightarrow> bool" where
  "takes_part ctx c s \<longleftrightarrow>
     (if cv_kind c = ''group'' then list_ex (\<lambda>p. pt_employee p = dx_employee ctx) (listConversationParticipants (dx_conversation ctx) False s)
      else cv_entry c = Some (dx_employee ctx))"

definition registered_generation :: "dir_env \<Rightarrow> dir_owner \<Rightarrow> rat \<Rightarrow> auth_registry \<Rightarrow> nat option" where
  "registered_generation env own clock reg =
     (case fst (auth_get (fst own) (snd own) clock reg) of
        None \<Rightarrow> None | Some i \<Rightarrow> if de_verified env (ei_caller i) then Some (ei_generation i) else None)"

text \<open>\<open>authorize\<close>; that the registry forgets an expired identity on the way is an operation of the registry.\<close>

definition authorize :: "dir_env \<Rightarrow> dir_context \<Rightarrow> string option \<Rightarrow> dir_world \<Rightarrow> string + fields" where
  "authorize env ctx tool w =
     (case directory_owner env (dx_caller ctx) (dw_now w) of
        Inl e \<Rightarrow> Inl e
      | Inr own \<Rightarrow>
          if registered_generation env own (dw_clock w) (ds_registry (dw_state w)) \<noteq> Some (dx_generation ctx) then Inl ''unauthorized''
          else if dx_background ctx \<or> dx_permission ctx \<notin> {ReadOnly, WorkspaceWrite} then Inl ''unauthorized''
          else (case getConversation (dx_conversation ctx) (ds_store (dw_state w)) of
            None \<Rightarrow> Inl ''unauthorized''
          | Some c \<Rightarrow>
              if cv_tenant c \<noteq> Some (fst own) \<or> cv_member c \<noteq> Some (snd own) \<or> cv_permission c \<noteq> dx_permission ctx then Inl ''unauthorized''
              else if \<not> takes_part ctx c (ds_store (dw_state w)) then Inl ''unauthorized''
              else (case directory_employee own (dx_employee ctx) (ds_projections (dw_state w)) of
                Inl e \<Rightarrow> Inl e
              | Inr snapshot \<Rightarrow>
                  if member_of snapshot ''snapshot_version'' \<noteq> dx_snapshot ctx
                     \<or> (case tool of None \<Rightarrow> False | Some x \<Rightarrow> x \<notin> set (localDirectoryTools snapshot)) then Inl ''unauthorized''
                  else Inr snapshot)))"

definition task_aborted :: "nat \<Rightarrow> dir_world \<Rightarrow> bool" where
  "task_aborted k w \<longleftrightarrow> (case omap_get (ds_tasks (dw_state w)) k of Some t \<Rightarrow> tk_aborted t | None \<Rightarrow> False)"

text \<open>The grant a check asks for: the binding enabled at the revision it was found at.\<close>

definition granted_at :: "dir_owner \<Rightarrow> string \<Rightarrow> string \<Rightarrow> nat \<Rightarrow> directory_tables \<Rightarrow> bool" where
  "granted_at own i employee n t \<longleftrightarrow>
     (case binding_of own i employee t of None \<Rightarrow> False | Some b \<Rightarrow> db_enabled b \<and> db_revision b = n)"

text \<open>\<open>check\<close> up to the call of the host and behind it.\<close>

definition check_before :: "dir_env \<Rightarrow> nat \<Rightarrow> dir_context \<Rightarrow> directory_resource \<Rightarrow> nat \<Rightarrow> string \<Rightarrow> dir_world \<Rightarrow> string option" where
  "check_before env k ctx r n tool w =
     (if task_aborted k w then Some ''cancelled''
      else (case authorize env ctx (Some tool) w of
        Inl e \<Rightarrow> Some e
      | Inr _ \<Rightarrow>
          (case directory_owner env (dx_caller ctx) (dw_now w) of
             Inl e \<Rightarrow> Some e
           | Inr own \<Rightarrow>
               (case dir_get own (dr_id r) (ds_tables (dw_state w)) of
                  Inl e \<Rightarrow> Some e
                | Inr current \<Rightarrow>
                    if dr_revision current \<noteq> dr_revision r \<or> \<not> granted_at own (dr_id r) (dx_employee ctx) n (ds_tables (dw_state w))
                    then Some ''unauthorized'' else None))))"

definition check_after ::
  "dir_env \<Rightarrow> nat \<Rightarrow> dir_context \<Rightarrow> directory_resource \<Rightarrow> nat \<Rightarrow> string option \<Rightarrow> string \<Rightarrow> dir_owner \<Rightarrow> dir_world \<Rightarrow> string + string" where
  "check_after env k ctx r n authority tool own w =
     (case dw_check w r of
        Inl e \<Rightarrow> Inl e
      | Inr actual \<Rightarrow>
          if task_aborted k w then Inl ''cancelled''
          else (case authorize env ctx (Some tool) w of
            Inl e \<Rightarrow> Inl e
          | Inr _ \<Rightarrow>
              (case dir_get own (dr_id r) (ds_tables (dw_state w)) of
                 Inl e \<Rightarrow> Inl e
               | Inr _ \<Rightarrow>
                   if \<not> granted_at own (dr_id r) (dx_employee ctx) n (ds_tables (dw_state w)) \<or> (authority \<noteq> None \<and> authority \<noteq> Some actual)
                   then Inl ''unauthorized'' else Inr actual)))"

text \<open>An awaited \<open>check\<close>: the host answers in the second world, the caller resumes in the third.\<close>

type_synonym 'a dir_run = "((string + 'a) \<times> dir_world list) option"

definition check :: "dir_env \<Rightarrow> nat \<Rightarrow> dir_context \<Rightarrow> directory_resource \<Rightarrow> nat \<Rightarrow> string option \<Rightarrow> string \<Rightarrow> dir_world list \<Rightarrow> string dir_run" where
  "check env k ctx r n authority tool ws =
     (case ws of
        w0 # w1 # w2 # rest \<Rightarrow>
          (case (check_before env k ctx r n tool w0, directory_owner env (dx_caller ctx) (dw_now w0)) of
             (None, Inr own) \<Rightarrow> Some (check_after env k ctx r n authority tool own w1, w2 # rest)
           | (Some e, _) \<Rightarrow> Some (Inl e, w1 # w2 # rest)
           | (None, Inl e) \<Rightarrow> Some (Inl e, w1 # w2 # rest))
      | _ \<Rightarrow> None)"

section \<open>Grants\<close>

text \<open>\<open>!id\<close> and \<open>!employee\<close> hold of an absent and of an empty argument.\<close>

definition no_filter :: "string option \<Rightarrow> bool" where
  "no_filter f \<longleftrightarrow> f = None \<or> f = Some []"

definition task_matches :: "dir_owner \<Rightarrow> string option \<Rightarrow> string option \<Rightarrow> active_task \<Rightarrow> bool" where
  "task_matches own i employee t \<longleftrightarrow>
     tk_owner t = own \<and> (no_filter employee \<or> Some (tk_employee t) = employee)
     \<and> (no_filter i \<or> tk_directories t = [] \<or> the i \<in> set (tk_directories t))"

definition citation_matches :: "dir_owner \<Rightarrow> string option \<Rightarrow> string option \<Rightarrow> citation \<Rightarrow> bool" where
  "citation_matches own i employee c \<longleftrightarrow>
     ct_owner c = own \<and> (no_filter i \<or> Some (dr_id (ct_resource c)) = i) \<and> (no_filter employee \<or> Some (dx_employee (ct_context c)) = employee)"

definition invalidate :: "dir_owner \<Rightarrow> string option \<Rightarrow> string option \<Rightarrow> dir_service \<Rightarrow> dir_service" where
  "invalidate own i employee s =
     s\<lparr>ds_tasks := map (\<lambda>(k, t). (k, if task_matches own i employee t then t\<lparr>tk_aborted := True\<rparr> else t)) (ds_tasks s),
       ds_citations := filter (\<lambda>(_, c). \<not> citation_matches own i employee c) (ds_citations s)\<rparr>"

text \<open>\<open>register\<close>: before and after the host hands over what the ticket stands for.\<close>

definition register_finish ::
  "dir_env \<Rightarrow> string \<Rightarrow> caller \<Rightarrow> string \<Rightarrow> dir_owner \<Rightarrow> dir_world \<Rightarrow> (string + directory_resource) \<times> dir_service" where
  "register_finish env i c ticket own w =
     (case dw_consume w own ticket of
        Inl e \<Rightarrow> (Inl e, dw_state w)
      | Inr receipt \<Rightarrow>
          (case directory_owner env c (dw_now w) of
             Inl e \<Rightarrow> (Inl e, dw_state w)
           | Inr _ \<Rightarrow>
               (let r = dir_register i (dw_now w) own receipt (ds_tables (dw_state w))
                in (fst r, (dw_state w)\<lparr>ds_tables := snd r\<rparr>))))"

definition registerDirectory :: "dir_env \<Rightarrow> string \<Rightarrow> caller \<Rightarrow> string \<Rightarrow> dir_world \<Rightarrow> dir_world \<Rightarrow> (string + directory_resource) \<times> dir_service" where
  "registerDirectory env i c ticket w0 w1 =
     (case directory_owner env c (dw_now w0) of Inl e \<Rightarrow> (Inl e, dw_state w0) | Inr own \<Rightarrow> register_finish env i c ticket own w1)"

definition challenge :: "dir_env \<Rightarrow> caller \<Rightarrow> dir_world \<Rightarrow> dir_world \<Rightarrow> string + string" where
  "challenge env c w0 w1 = (case directory_owner env c (dw_now w0) of Inl e \<Rightarrow> Inl e | Inr own \<Rightarrow> dw_challenge w1 own)"

text \<open>\<open>bind\<close>: the binding is written in one synchronous stretch with its invalidation.\<close>

definition bind_commit ::
  "dir_owner \<Rightarrow> string \<Rightarrow> string \<Rightarrow> bool \<Rightarrow> jsval \<Rightarrow> dir_world \<Rightarrow> (string + directory_binding) \<times> dir_service" where
  "bind_commit own i employee enabled revision w =
     (let r = dir_bind (dw_now w) own i employee enabled revision (ds_tables (dw_state w)); s = (dw_state w)\<lparr>ds_tables := snd r\<rparr>
      in case fst r of Inl e \<Rightarrow> (Inl e, s) | Inr b \<Rightarrow> (Inr b, invalidate own (Some i) (Some employee) s))"

definition bind_admitted :: "dir_owner \<Rightarrow> string \<Rightarrow> string \<Rightarrow> dir_world \<Rightarrow> string + directory_resource" where
  "bind_admitted own i employee w =
     (case directory_employee own employee (ds_projections (dw_state w)) of
        Inl e \<Rightarrow> Inl e | Inr _ \<Rightarrow> dir_get own i (ds_tables (dw_state w)))"

definition bindDirectory ::
  "dir_env \<Rightarrow> caller \<Rightarrow> string \<Rightarrow> string \<Rightarrow> bool \<Rightarrow> jsval \<Rightarrow> dir_world \<Rightarrow> dir_world \<Rightarrow> (string + directory_binding) \<times> dir_service" where
  "bindDirectory env c i employee enabled revision w0 w1 =
     (case directory_owner env c (dw_now w0) of
        Inl e \<Rightarrow> (Inl e, dw_state w0)
      | Inr own \<Rightarrow>
          if \<not> enabled then bind_commit own i employee enabled revision w0
          else (case bind_admitted own i employee w0 of
            Inl e \<Rightarrow> (Inl e, dw_state w0)
          | Inr r \<Rightarrow>
              (case dw_check w1 r of
                 Inl e \<Rightarrow> (Inl e, dw_state w1)
               | Inr _ \<Rightarrow>
                   (case directory_owner env c (dw_now w1) of
                      Inl e \<Rightarrow> (Inl e, dw_state w1) | Inr _ \<Rightarrow> bind_commit own i employee enabled revision w1))))"

definition revokeDirectory :: "dir_env \<Rightarrow> caller \<Rightarrow> string \<Rightarrow> dir_world \<Rightarrow> string option \<times> dir_service" where
  "revokeDirectory env c i w =
     (case directory_owner env c (dw_now w) of
        Inl e \<Rightarrow> (Some e, dw_state w)
      | Inr own \<Rightarrow>
          (let r = dir_revoke (dw_now w) own i (ds_tables (dw_state w)); s = (dw_state w)\<lparr>ds_tables := snd r\<rparr>
           in case fst r of Some e \<Rightarrow> (Some e, s) | None \<Rightarrow> (None, invalidate own (Some i) None s)))"

section \<open>Reports\<close>

definition DIRECTORY_FORMATS :: "string list" where
  "DIRECTORY_FORMATS = [''.txt'', ''.md'', ''.markdown'', ''.csv'', ''.json'', ''.log'']"

record directory_report =
  dp_resource :: directory_resource
  dp_status :: string
  dp_bindings :: "directory_binding list"

text \<open>\<open>list\<close>: the statuses are asked for concurrently, each answer in a world of its own; the row and its
  bindings are read there.\<close>

definition report_directory :: "dir_owner \<Rightarrow> directory_resource \<times> dir_world \<Rightarrow> string + directory_report" where
  "report_directory own rw =
     (case dir_bindings own (dr_id (fst rw)) (ds_tables (dw_state (snd rw))) of
        Inl e \<Rightarrow> Inl e
      | Inr bs \<Rightarrow> Inr \<lparr>dp_resource = fst rw, dp_status = (case dw_check (snd rw) (fst rw) of Inl e \<Rightarrow> e | Inr _ \<Rightarrow> ''ready''), dp_bindings = bs\<rparr>)"

fun all_or_error :: "(string + 'a) list \<Rightarrow> string + 'a list" where
  "all_or_error [] = Inr []"
| "all_or_error (r # rs) = (case r of Inl e \<Rightarrow> Inl e | Inr x \<Rightarrow> (case all_or_error rs of Inl e \<Rightarrow> Inl e | Inr xs \<Rightarrow> Inr (x # xs)))"

definition listDirectories :: "dir_env \<Rightarrow> caller \<Rightarrow> dir_world \<Rightarrow> dir_world \<Rightarrow> dir_world list \<Rightarrow> string + bool \<times> directory_report list" where
  "listDirectories env c w0 w1 ws =
     (case directory_owner env c (dw_now w0) of
        Inl e \<Rightarrow> Inl e
      | Inr own \<Rightarrow>
          (case all_or_error (map (report_directory own) (zip (dir_list own (ds_tables (dw_state w0))) ws)) of
             Inl e \<Rightarrow> Inl e | Inr ds \<Rightarrow> Inr (dw_status w1 = None, ds)))"

definition enabled_binding :: "dir_owner \<Rightarrow> string \<Rightarrow> directory_tables \<Rightarrow> directory_resource \<Rightarrow> directory_binding option" where
  "enabled_binding own employee t r =
     (case dir_bindings own (dr_id r) t of Inl _ \<Rightarrow> None | Inr bs \<Rightarrow> find (\<lambda>b. db_employee b = employee \<and> db_enabled b) bs)"

definition directory_tools :: "dir_env \<Rightarrow> dir_context \<Rightarrow> dir_world \<Rightarrow> string list" where
  "directory_tools env ctx w =
     (case authorize env ctx None w of
        Inl _ \<Rightarrow> []
      | Inr snapshot \<Rightarrow>
          (case directory_owner env (dx_caller ctx) (dw_now w) of
             Inl _ \<Rightarrow> []
           | Inr own \<Rightarrow>
               let t = ds_tables (dw_state w)
               in if list_ex (\<lambda>r. enabled_binding own (dx_employee ctx) t r \<noteq> None) (dir_list own t) then localDirectoryTools snapshot else []))"

definition capability_part :: "string \<Rightarrow> directory_resource \<Rightarrow> directory_binding \<Rightarrow> string" where
  "capability_part authority r b = dr_id r @ '':'' @ dec (dr_revision r) @ '':'' @ dec (db_revision b) @ '':'' @ authority"

text \<open>One directory after the other; the bindings of a directory revoked meanwhile are refused, which the
  outer \<open>catch\<close> turns into a withdrawn capability.\<close>

fun capability_parts :: "dir_owner \<Rightarrow> string \<Rightarrow> directory_resource list \<Rightarrow> dir_world list \<Rightarrow> string list dir_run" where
  "capability_parts own employee [] ws = Some (Inr [], ws)"
| "capability_parts own employee (r # rs) [] = None"
| "capability_parts own employee (r # rs) (w # ws) =
     (case dir_bindings own (dr_id r) (ds_tables (dw_state w)) of
        Inl e \<Rightarrow> Some (Inl e, w # ws)
      | Inr bs \<Rightarrow>
          (case find (\<lambda>b. db_employee b = employee \<and> db_enabled b) bs of
             None \<Rightarrow> capability_parts own employee rs (w # ws)
           | Some b \<Rightarrow>
               (case ws of
                  [] \<Rightarrow> None
                | w' # _ \<Rightarrow>
                    let part = capability_part (case dw_check w' r of Inl _ \<Rightarrow> ''unavailable'' | Inr a \<Rightarrow> a) r b
                    in map_option (map_prod (map_sum id ((#) part)) id) (capability_parts own employee rs ws))))"

definition available_part :: "string \<Rightarrow> bool" where
  "available_part part \<longleftrightarrow> \<not> suffix '':unavailable'' part"

definition join_parts :: "string list \<Rightarrow> string" where
  "join_parts ps = (case ps of [] \<Rightarrow> [] | p # ps \<Rightarrow> p @ concat (map (\<lambda>q. CHR '','' # q) ps))"

definition capabilityState :: "dir_env \<Rightarrow> dir_context \<Rightarrow> dir_world list \<Rightarrow> (string \<times> string list) option" where
  "capabilityState env ctx ws =
     (case ws of
        [] \<Rightarrow> None
      | w # _ \<Rightarrow>
          (case (authorize env (ctx\<lparr>dx_session := ''probe'', dx_turn := ''probe''\<rparr>) None w, directory_owner env (dx_caller ctx) (dw_now w)) of
             (Inr snapshot, Inr own) \<Rightarrow>
               if localDirectoryTools snapshot = [] then Some (''disabled:policy'', [])
               else map_option (\<lambda>(r, _). case r of
                   Inl _ \<Rightarrow> (''disabled:unauthorized'', [])
                 | Inr parts \<Rightarrow>
                     if filter available_part parts = [] then (''inactive:'' @ join_parts parts, [])
                     else (''active:'' @ join_parts parts, localDirectoryTools snapshot))
                 (capability_parts own (dx_employee ctx) (dir_list own (ds_tables (dw_state w))) ws)
           | _ \<Rightarrow> Some (''disabled:unauthorized'', [])))"

section \<open>Hits\<close>

definition normalizeWithMap :: "dir_env \<Rightarrow> string \<Rightarrow> string \<times> nat list" where
  "normalizeWithMap env s =
     (concat (map (de_fold env) s), concat (map (\<lambda>(i, c). replicate (length (de_fold env c)) i) (List.enumerate 0 s)))"

fun first_index :: "string \<Rightarrow> string \<Rightarrow> nat option" where
  "first_index term' s =
     (if prefix term' s then Some 0 else case s of [] \<Rightarrow> None | _ # rest \<Rightarrow> map_option Suc (first_index term' rest))"

declare first_index.simps [simp del]

record located_hit =
  lh_score :: nat
  lh_offset :: nat
  lh_snippet :: string

definition term_score :: "string \<Rightarrow> string \<Rightarrow> string \<Rightarrow> nat" where
  "term_score name normalized term' =
     (if first_index term' name \<noteq> None then 5 else 0) + (if first_index term' normalized \<noteq> None then 1 else 0)"

definition hit_anchors :: "string \<times> nat list \<Rightarrow> string list \<Rightarrow> nat list" where
  "hit_anchors mapped terms =
     map (\<lambda>n. if n < length (snd mapped) then snd mapped ! n else 0) (List.map_filter (\<lambda>t. first_index t (fst mapped)) terms)"

definition locateHit :: "dir_env \<Rightarrow> string list \<Rightarrow> string \<Rightarrow> string \<Rightarrow> located_hit option" where
  "locateHit env terms name s =
     (let mapped = normalizeWithMap env s
      in if list_ex (\<lambda>t. term_score name (fst mapped) t = 0) terms then None
         else (let anchors = hit_anchors mapped terms; first = (if anchors = [] then 0 else Min (set anchors)); offset = first - 100
               in Some \<lparr>lh_score = sum_list (map (term_score name (fst mapped)) terms), lh_offset = offset,
                        lh_snippet = take 400 (drop offset s)\<rparr>))"

section \<open>Search\<close>

record hit_candidate =
  cd_title :: string
  cd_path :: string
  cd_version :: string
  cd_hit :: located_hit
  cd_resource :: directory_resource
  cd_authority :: string
  cd_binding :: nat

record search_acc =
  sa_files :: nat
  sa_skipped :: nat
  sa_entries :: nat
  sa_bytes :: nat
  sa_partial :: bool
  sa_candidates :: "hit_candidate list"

text \<open>What stays fixed during one search.\<close>

record dir_search =
  se_env :: dir_env
  se_task :: nat
  se_context :: dir_context
  se_terms :: "string list"
  se_limit :: nat
  se_deadline :: ms
  se_size :: "hit_candidate \<Rightarrow> string \<Rightarrow> nat"

definition MAX_SEARCH_BYTES :: nat where
  "MAX_SEARCH_BYTES = 32 * 1024 * 1024"

definition checkBudget :: "dir_search \<Rightarrow> search_acc \<Rightarrow> dir_world \<Rightarrow> string + bool" where
  "checkBudget q a w =
     (if task_aborted (se_task q) w then Inl ''cancelled''
      else Inr (dw_now w < se_deadline q \<and> sa_files a + sa_skipped a < 2000 \<and> sa_entries a < 8000 \<and> sa_bytes a < MAX_SEARCH_BYTES))"

text \<open>\<open>posix.join\<close> of a normalized directory and a name without separators that is not a dot segment.\<close>

definition join_entry :: "string \<Rightarrow> string \<Rightarrow> string" where
  "join_entry directory name =
     (if directory = [] then (if name = [] then ''.'' else name) else if name = [] then directory else directory @ ''/'' @ name)"

definition candidate_le :: "dir_env \<Rightarrow> hit_candidate \<Rightarrow> hit_candidate \<Rightarrow> bool" where
  "candidate_le env a b \<longleftrightarrow>
     lh_score (cd_hit a) > lh_score (cd_hit b) \<or> (lh_score (cd_hit a) = lh_score (cd_hit b) \<and> de_collate env (cd_path a) (cd_path b))"

definition add_candidate :: "dir_search \<Rightarrow> hit_candidate \<Rightarrow> hit_candidate list \<Rightarrow> hit_candidate list" where
  "add_candidate q c cs = take (se_limit q) (sort_by (candidate_le (se_env q)) (cs @ [c]))"

definition SKIPPED_ERRORS :: "string list" where
  "SKIPPED_ERRORS = [''file_unavailable'', ''unsupported_file'', ''unsupported_format'', ''parse_failed'', ''budget_exhausted'', ''source_changed'']"

text \<open>One directory under search, with its binding and the authority the host gave for it.\<close>

record searched_directory =
  sd_resource :: directory_resource
  sd_binding :: nat
  sd_authority :: string

definition search_check :: "dir_search \<Rightarrow> searched_directory \<Rightarrow> dir_world list \<Rightarrow> string dir_run" where
  "search_check q d ws =
     check (se_env q) (se_task q) (se_context q) (sd_resource d) (sd_binding d) (Some (sd_authority d)) ''local_dir_search'' ws"

text \<open>What reading a file adds; the flag stops the loop over the listing.\<close>

definition examine :: "dir_search \<Rightarrow> searched_directory \<Rightarrow> string \<Rightarrow> string \<Rightarrow> directory_source \<Rightarrow> search_acc \<Rightarrow> bool \<times> search_acc" where
  "examine q d title path src a =
     (let a = a\<lparr>sa_bytes := sa_bytes a + de_bytes (se_env q) (du_text src), sa_files := sa_files a + 1\<rparr>
      in if sa_bytes a > MAX_SEARCH_BYTES then (True, a\<lparr>sa_partial := True\<rparr>)
         else (case locateHit (se_env q) (se_terms q) (de_normal (se_env q) path) (du_text src) of
           None \<Rightarrow> (False, a)
         | Some h \<Rightarrow>
             (False, a\<lparr>sa_candidates := add_candidate q \<lparr>cd_title = title, cd_path = path, cd_version = du_version src, cd_hit = h,
                 cd_resource = sd_resource d, cd_authority = sd_authority d, cd_binding = sd_binding d\<rparr> (sa_candidates a)\<rparr>)))"

text \<open>A file of a supported format: a check, then the read.  Without an error, whether to stop and the new figures.\<close>

definition search_file :: "dir_search \<Rightarrow> searched_directory \<Rightarrow> string \<Rightarrow> string \<Rightarrow> search_acc \<Rightarrow> dir_world list \<Rightarrow> (bool \<times> search_acc) dir_run" where
  "search_file q d title path a ws =
     (case search_check q d ws of
        None \<Rightarrow> None
      | Some (Inl e, ws) \<Rightarrow> Some (Inl e, ws)
      | Some (Inr _, _ # w # rest) \<Rightarrow>
          (case dw_read w (sd_resource d) path of
             Inl e \<Rightarrow>
               if e \<in> set SKIPPED_ERRORS then Some (Inr (False, a\<lparr>sa_skipped := sa_skipped a + 1, sa_partial := True\<rparr>), w # rest)
               else Some (Inl e, w # rest)
           | Inr src \<Rightarrow>
               if du_authority src \<noteq> sd_authority d then Some (Inl ''unauthorized'', w # rest)
               else Some (Inr (examine q d title path src a), w # rest))
      | _ \<Rightarrow> None)"

fun search_listing ::
  "dir_search \<Rightarrow> searched_directory \<Rightarrow> string \<Rightarrow> (string \<times> bool) list \<Rightarrow> string list \<Rightarrow> search_acc \<Rightarrow> dir_world list \<Rightarrow> (string list \<times> search_acc) dir_run" where
  "search_listing q d directory [] queue a ws = Some (Inr (queue, a), ws)"
| "search_listing q d directory (e # es) queue a [] = None"
| "search_listing q d directory (e # es) queue a (w # ws) =
     (case checkBudget q a w of
        Inl err \<Rightarrow> Some (Inl err, w # ws)
      | Inr False \<Rightarrow> Some (Inr (queue, a\<lparr>sa_partial := True\<rparr>), w # ws)
      | Inr True \<Rightarrow>
          (let a = a\<lparr>sa_entries := sa_entries a + 1\<rparr>; path = join_entry directory (fst e)
           in if snd e then search_listing q d directory es (queue @ [path]) a (w # ws)
              else if js_lower (extname (fst e)) \<notin> set DIRECTORY_FORMATS
              then search_listing q d directory es queue (a\<lparr>sa_skipped := sa_skipped a + 1\<rparr>) (w # ws)
              else (case search_file q d (fst e) path a (w # ws) of
                None \<Rightarrow> None
              | Some (Inl err, ws') \<Rightarrow> Some (Inl err, ws')
              | Some (Inr (stop, a'), ws') \<Rightarrow>
                  if stop then Some (Inr (queue, a'), ws') else search_listing q d directory es queue a' ws')))"

lemma check_shorter: "check env k ctx r n authority tool ws = Some (x, ws') \<Longrightarrow> length ws' < length ws"
  by (auto simp: check_def split: list.splits option.splits sum.splits)

lemma search_file_shorter: "search_file q d title path a ws = Some (x, ws') \<Longrightarrow> length ws' < length ws"
  by (auto simp: search_file_def search_check_def split: option.splits sum.splits prod.splits list.splits if_splits dest!: check_shorter)

lemma search_listing_shorter: "search_listing q d directory es queue a ws = Some (x, ws') \<Longrightarrow> length ws' \<le> length ws"
proof (induction es arbitrary: queue a ws)
  case (Cons e es)
  then obtain w rest where ws: "ws = w # rest" by (cases ws) auto
  show ?case
  proof (cases "checkBudget q a w")
    case (Inr going)
    show ?thesis
    proof (cases "going \<and> \<not> snd e \<and> js_lower (extname (fst e)) \<in> set DIRECTORY_FORMATS")
      case True
      then show ?thesis
        using Cons.prems Inr unfolding ws
        by (auto simp: Let_def split: option.split_asm sum.split_asm prod.split_asm if_split_asm dest!: Cons.IH search_file_shorter)
    next
      case False
      then show ?thesis
        using Cons.prems Inr unfolding ws by (auto simp: Let_def split: bool.split_asm if_split_asm dest!: Cons.IH)
    qed
  qed (use Cons.prems ws in simp)
qed simp

text \<open>The loop over the queue of directories.  Every turn awaits a check, so it uses up worlds.\<close>

function search_queue :: "dir_search \<Rightarrow> searched_directory \<Rightarrow> string list \<Rightarrow> search_acc \<Rightarrow> dir_world list \<Rightarrow> search_acc dir_run" where
  "search_queue q d queue a ws =
     (case (queue, ws) of
        ([], _) \<Rightarrow> Some (Inr a, ws)
      | (_, []) \<Rightarrow> None
      | (directory # queue, w # _) \<Rightarrow>
          (case checkBudget q a w of
             Inl e \<Rightarrow> Some (Inl e, ws)
           | Inr False \<Rightarrow> Some (Inr (a\<lparr>sa_partial := True\<rparr>), ws)
           | Inr True \<Rightarrow>
               (case search_check q d ws of
                  None \<Rightarrow> None
                | Some (Inl e, ws1) \<Rightarrow> Some (Inl e, ws1)
                | Some (Inr _, ws1) \<Rightarrow>
                    (case ws1 of
                       _ # w1 # ws2 \<Rightarrow>
                         (case dw_list w1 (sd_resource d) directory of
                            Inl e \<Rightarrow> Some (Inl e, w1 # ws2)
                          | Inr l \<Rightarrow>
                              if dl_authority l \<noteq> sd_authority d then Some (Inl ''unauthorized'', w1 # ws2)
                              else (case search_listing q d directory (dl_entries l) queue (a\<lparr>sa_partial := sa_partial a \<or> dl_partial l\<rparr>) (w1 # ws2) of
                                None \<Rightarrow> None
                              | Some (Inl e, ws3) \<Rightarrow> Some (Inl e, ws3)
                              | Some (Inr (queue', a'), ws3) \<Rightarrow> search_queue q d queue' a' ws3))
                     | _ \<Rightarrow> None))))"
  by pat_completeness auto
termination
  by (relation "measure (\<lambda>(q, d, queue, a, ws). length ws)")
    (auto simp: search_check_def dest!: check_shorter search_listing_shorter)

declare search_queue.simps [simp del]

fun search_directories ::
  "dir_search \<Rightarrow> dir_owner \<Rightarrow> directory_resource list \<Rightarrow> search_acc \<Rightarrow> searched_directory list \<Rightarrow> dir_world list \<Rightarrow> (search_acc \<times> searched_directory list) dir_run" where
  "search_directories q own [] a ds ws = Some (Inr (a, ds), ws)"
| "search_directories q own (r # rs) a ds [] = None"
| "search_directories q own (r # rs) a ds (w # ws) =
     (case dir_bindings own (dr_id r) (ds_tables (dw_state w)) of
        Inl e \<Rightarrow> Some (Inl e, w # ws)
      | Inr bs \<Rightarrow>
          (case find (\<lambda>b. db_employee b = dx_employee (se_context q) \<and> db_enabled b) bs of
             None \<Rightarrow> search_directories q own rs a ds (w # ws)
           | Some b \<Rightarrow>
               (case check (se_env q) (se_task q) (se_context q) r (db_revision b) None ''local_dir_search'' (w # ws) of
                  None \<Rightarrow> None
                | Some (Inl e, ws1) \<Rightarrow> Some (Inl e, ws1)
                | Some (Inr authority, ws1) \<Rightarrow>
                    (let d = \<lparr>sd_resource = r, sd_binding = db_revision b, sd_authority = authority\<rparr>
                     in case search_queue q d [[]] a ws1 of
                          None \<Rightarrow> None
                        | Some (Inl e, ws2) \<Rightarrow> Some (Inl e, ws2)
                        | Some (Inr a', ws2) \<Rightarrow> search_directories q own rs a' (ds @ [d]) ws2))))"

fun final_checks :: "dir_search \<Rightarrow> searched_directory list \<Rightarrow> dir_world list \<Rightarrow> unit dir_run" where
  "final_checks q [] ws = Some (Inr (), ws)"
| "final_checks q (d # ds) ws =
     (case search_check q d ws of
        None \<Rightarrow> None | Some (Inl e, ws1) \<Rightarrow> Some (Inl e, ws1) | Some (Inr _, ws1) \<Rightarrow> final_checks q ds ws1)"

section \<open>Citations\<close>

definition MAX_CITATIONS :: nat where
  "MAX_CITATIONS = 512"

fun evict :: "('k, 'v) omap \<Rightarrow> ('k, 'v) omap" where
  "evict [] = []"
| "evict (e # m) = (if length (e # m) \<ge> MAX_CITATIONS then evict m else e # m)"

definition prune :: "ms \<Rightarrow> (string, citation) omap \<Rightarrow> (string, citation) omap" where
  "prune now m = evict (filter (\<lambda>(_, c). ct_expires c > now) m)"

definition MAX_SEARCH_OUTPUT_BYTES :: nat where
  "MAX_SEARCH_OUTPUT_BYTES = 32 * 1024"

record delivered_hit =
  dv_citation :: string
  dv_title :: string
  dv_path :: string
  dv_version :: string
  dv_snippet :: string
  dv_offset :: nat

definition citation_id :: "dir_env \<Rightarrow> nat \<Rightarrow> string" where
  "citation_id env n = ''localdir:'' @ de_uuid env n"

definition citation_for :: "dir_search \<Rightarrow> dir_owner \<Rightarrow> ms \<Rightarrow> nat \<Rightarrow> hit_candidate \<Rightarrow> citation" where
  "citation_for q own now n c =
     \<lparr>ct_id = citation_id (se_env q) n, ct_context = se_context q, ct_owner = own, ct_resource = cd_resource c, ct_title = cd_title c,
      ct_relative = cd_path c, ct_snippet = lh_snippet (cd_hit c), ct_version = cd_version c, ct_authority = cd_authority c,
      ct_binding = cd_binding c, ct_expires = now + 15 * 60000\<rparr>"

definition delivered :: "dir_search \<Rightarrow> nat \<Rightarrow> hit_candidate \<Rightarrow> delivered_hit" where
  "delivered q n c =
     \<lparr>dv_citation = citation_id (se_env q) n, dv_title = cd_title c, dv_path = cd_path c, dv_version = cd_version c,
      dv_snippet = lh_snippet (cd_hit c), dv_offset = lh_offset (cd_hit c)\<rparr>"

text \<open>The loop that fills the answer up to its budget and registers a citation for each item.  The first
  component tells whether candidates were left out.\<close>

fun deliver_hits ::
  "dir_search \<Rightarrow> dir_owner \<Rightarrow> ms \<Rightarrow> nat \<Rightarrow> nat \<Rightarrow> hit_candidate list \<Rightarrow> (string, citation) omap \<Rightarrow> bool \<times> delivered_hit list \<times> (string, citation) omap" where
  "deliver_hits q own now n bytes [] m = (False, [], m)"
| "deliver_hits q own now n bytes (c # cs) m =
     (let size' = se_size q c (citation_id (se_env q) n)
      in if n > 0 \<and> bytes + size' > MAX_SEARCH_OUTPUT_BYTES then (True, [], m)
         else (let r = deliver_hits q own now (n + 1) (bytes + size') cs (omap_set (citation_id (se_env q) n) (citation_for q own now n c) (prune now m))
               in (fst r, delivered q n c # fst (snd r), snd (snd r))))"

record search_result =
  sr_partial :: bool
  sr_coverage :: search_acc
  sr_items :: "delivered_hit list"

fun split_words :: "string \<Rightarrow> string \<Rightarrow> string list" where
  "split_words acc [] = (if acc = [] then [] else [acc])"
| "split_words acc (c # s) =
     (if js_space c then (if acc = [] then split_words [] s else acc # split_words [] s) else split_words (acc @ [c]) s)"

definition search_limit :: "jsval \<Rightarrow> nat option" where
  "search_limit v = (case js_integer v of None \<Rightarrow> None | Some n \<Rightarrow> if n < 1 \<or> n > 15 then None else Some (nat n))"

definition empty_acc :: search_acc where
  "empty_acc = \<lparr>sa_files = 0, sa_skipped = 0, sa_entries = 0, sa_bytes = 0, sa_partial = False, sa_candidates = []\<rparr>"

text \<open>What happens in the last world of a search.\<close>

definition search_finish :: "dir_search \<Rightarrow> dir_owner \<Rightarrow> search_acc \<Rightarrow> dir_world \<Rightarrow> (string + search_result) \<times> dir_service" where
  "search_finish q own a w =
     (if task_aborted (se_task q) w then (Inl ''cancelled'', dw_state w)
      else (let r = deliver_hits q own (dw_now w) 0 0 (sa_candidates a) (ds_citations (dw_state w))
            in (Inr \<lparr>sr_partial = (sa_partial a \<or> fst r), sr_coverage = a, sr_items = fst (snd r)\<rparr>, (dw_state w)\<lparr>ds_citations := snd (snd r)\<rparr>)))"

definition search_task :: "dir_search \<Rightarrow> dir_owner \<Rightarrow> dir_world \<Rightarrow> dir_world list \<Rightarrow> ((string + search_result) \<times> dir_service) option" where
  "search_task q own w ws =
     (case search_directories q own (dir_list own (ds_tables (dw_state w))) empty_acc [] (w # ws) of
        Some (Inr (a, ds), ws1) \<Rightarrow>
          if ds = [] then Some (Inl ''unauthorized'', dw_state (hd ws1))
          else (case final_checks q ds ws1 of
            Some (Inr _, ws2) \<Rightarrow> Some (search_finish q own a (hd ws2))
          | Some (Inl e, ws2) \<Rightarrow> Some (Inl e, dw_state (hd ws2))
          | None \<Rightarrow> None)
      | Some (Inl e, ws1) \<Rightarrow> Some (Inl e, dw_state (hd ws1))
      | None \<Rightarrow> None)"

definition searchDirectories ::
  "dir_env \<Rightarrow> (hit_candidate \<Rightarrow> string \<Rightarrow> nat) \<Rightarrow> nat \<Rightarrow> dir_context \<Rightarrow> string \<Rightarrow> jsval \<Rightarrow> bool \<Rightarrow> dir_world \<Rightarrow> dir_world list
     \<Rightarrow> ((string + search_result) \<times> dir_service) option" where
  "searchDirectories env sizes k ctx query limit aborted w ws =
     (case (authorize env ctx (Some ''local_dir_search'') w, search_limit limit, directory_owner env (dx_caller ctx) (dw_now w)) of
        (Inl e, _, _) \<Rightarrow> Some (Inl e, dw_state w)
      | (_, None, _) \<Rightarrow> Some (Inl ''invalid_query'', dw_state w)
      | (Inr _, Some n, owner') \<Rightarrow>
          if js_trim query = [] \<or> length query > 512 then Some (Inl ''invalid_query'', dw_state w)
          else (case owner' of
            Inl e \<Rightarrow> Some (Inl e, dw_state w)
          | Inr own \<Rightarrow>
              if aborted then Some (Inl ''cancelled'', dw_state w)
              else search_task \<lparr>se_env = env, se_task = k, se_context = ctx, se_terms = js_unique (split_words [] (de_normal env query)),
                     se_limit = n, se_deadline = dw_now w + 5000, se_size = sizes\<rparr> own w ws))"

text \<open>\<open>trackTask\<close>: the task is listed while it runs, so that \<open>invalidate\<close> reaches it.\<close>

definition track_task :: "nat \<Rightarrow> dir_owner \<Rightarrow> string \<Rightarrow> dir_service \<Rightarrow> dir_service" where
  "track_task k own employee s =
     s\<lparr>ds_tasks := omap_set k \<lparr>tk_owner = own, tk_employee = employee, tk_directories = [], tk_aborted = False\<rparr> (ds_tasks s)\<rparr>"

definition track_directory :: "nat \<Rightarrow> string \<Rightarrow> dir_service \<Rightarrow> dir_service" where
  "track_directory k i s =
     (case omap_get (ds_tasks s) k of
        None \<Rightarrow> s
      | Some t \<Rightarrow> s\<lparr>ds_tasks := omap_set k (t\<lparr>tk_directories := (if i \<in> set (tk_directories t) then tk_directories t else tk_directories t @ [i])\<rparr>) (ds_tasks s)\<rparr>)"

definition untrack_task :: "nat \<Rightarrow> dir_service \<Rightarrow> dir_service" where
  "untrack_task k s = s\<lparr>ds_tasks := omap_delete k (ds_tasks s)\<rparr>"

section \<open>Reading what was cited\<close>

record read_view =
  rv_citation :: string
  rv_version :: string
  rv_text :: string
  rv_offset :: nat
  rv_next :: "nat option"

definition MAX_READ_CHARS :: nat where
  "MAX_READ_CHARS = 12000"

definition same_execution :: "dir_context \<Rightarrow> dir_context \<Rightarrow> bool" where
  "same_execution a b \<longleftrightarrow>
     ca_tenantId (dx_caller a) = ca_tenantId (dx_caller b) \<and> ca_userId (dx_caller a) = ca_userId (dx_caller b) \<and> dx_employee a = dx_employee b
     \<and> dx_session a = dx_session b \<and> dx_turn a = dx_turn b \<and> dx_conversation a = dx_conversation b"

definition current_citation :: "string \<Rightarrow> dir_world \<Rightarrow> string + citation" where
  "current_citation i w =
     (case omap_get (ds_citations (dw_state w)) i of
        None \<Rightarrow> Inl ''citation_expired'' | Some c \<Rightarrow> if ct_expires c \<le> dw_now w then Inl ''citation_expired'' else Inr c)"

text \<open>The source between the two checks of a read.\<close>

definition read_slice :: "string \<Rightarrow> citation \<Rightarrow> nat \<Rightarrow> directory_source \<Rightarrow> string + read_view" where
  "read_slice i c offset src =
     (if du_version src \<noteq> ct_version c then Inl ''source_changed''
      else if du_authority src \<noteq> ct_authority c then Inl ''unauthorized''
      else if offset > length (du_text src) then Inl ''invalid_offset''
      else Inr \<lparr>rv_citation = i, rv_version = ct_version c, rv_text = take MAX_READ_CHARS (drop offset (du_text src)), rv_offset = offset,
                rv_next = (if offset + MAX_READ_CHARS < length (du_text src) then Some (offset + MAX_READ_CHARS) else None)\<rparr>)"

definition read_check :: "dir_env \<Rightarrow> nat \<Rightarrow> dir_context \<Rightarrow> citation \<Rightarrow> dir_world list \<Rightarrow> string dir_run" where
  "read_check env k ctx c ws = check env k ctx (ct_resource c) (ct_binding c) (Some (ct_authority c)) ''local_dir_read'' ws"

definition read_task :: "dir_env \<Rightarrow> nat \<Rightarrow> dir_context \<Rightarrow> string \<Rightarrow> citation \<Rightarrow> nat \<Rightarrow> dir_world list \<Rightarrow> read_view dir_run" where
  "read_task env k ctx i c offset ws =
     (case read_check env k ctx c ws of
        None \<Rightarrow> None
      | Some (Inl e, ws1) \<Rightarrow> Some (Inl e, ws1)
      | Some (Inr _, ws1) \<Rightarrow>
          (case ws1 of
             _ # w # rest \<Rightarrow>
               (case dw_read w (ct_resource c) (ct_relative c) of
                  Inl e \<Rightarrow> Some (Inl e, w # rest)
                | Inr src \<Rightarrow>
                    (case read_slice i c offset src of
                       Inl e \<Rightarrow> Some (Inl e, w # rest)
                     | Inr view \<Rightarrow>
                         (case read_check env k ctx c (w # rest) of
                            None \<Rightarrow> None | Some (Inl e, ws2) \<Rightarrow> Some (Inl e, ws2) | Some (Inr _, ws2) \<Rightarrow> Some (Inr view, ws2))))
           | _ \<Rightarrow> None))"

definition read_offset :: "jsval \<Rightarrow> nat option" where
  "read_offset v = (case js_integer v of None \<Rightarrow> None | Some n \<Rightarrow> if \<not> safe_integer n \<or> n < 0 then None else Some (nat n))"

definition readCitation :: "dir_env \<Rightarrow> nat \<Rightarrow> dir_context \<Rightarrow> string \<Rightarrow> jsval \<Rightarrow> bool \<Rightarrow> dir_world \<Rightarrow> dir_world list \<Rightarrow> read_view dir_run" where
  "readCitation env k ctx i offset aborted w ws =
     (case authorize env ctx (Some ''local_dir_read'') w of
        Inl e \<Rightarrow> Some (Inl e, w # ws)
      | Inr _ \<Rightarrow>
          (case read_offset offset of
             None \<Rightarrow> Some (Inl ''invalid_offset'', w # ws)
           | Some n \<Rightarrow>
               (case current_citation i w of
                  Inl e \<Rightarrow> Some (Inl e, w # ws)
                | Inr c \<Rightarrow>
                    if \<not> same_execution (ct_context c) ctx then Some (Inl ''unauthorized'', w # ws)
                    else if aborted then Some (Inl ''cancelled'', w # ws)
                    else read_task env k ctx i c n (w # ws))))"

definition assertCitationCurrent :: "dir_env \<Rightarrow> caller \<Rightarrow> string \<Rightarrow> dir_world \<Rightarrow> string + citation" where
  "assertCitationCurrent env who i w =
     (case directory_owner env who (dw_now w) of
        Inl e \<Rightarrow> Inl e
      | Inr own \<Rightarrow>
          (case current_citation i w of
             Inl e \<Rightarrow> Inl e
           | Inr c \<Rightarrow>
               if ct_owner c \<noteq> own then Inl ''unauthorized''
               else (case authorize env ((ct_context c)\<lparr>dx_caller := who\<rparr>) (Some ''local_dir_read'') w of
                 Inl e \<Rightarrow> Inl e
               | Inr _ \<Rightarrow>
                   (case dir_get own (dr_id (ct_resource c)) (ds_tables (dw_state w)) of
                      Inl e \<Rightarrow> Inl e
                    | Inr r \<Rightarrow>
                        if dr_revision r \<noteq> dr_revision (ct_resource c)
                           \<or> \<not> granted_at own (dr_id r) (dx_employee (ct_context c)) (ct_binding c) (ds_tables (dw_state w))
                        then Inl ''unauthorized'' else Inr c))))"

text \<open>The reader resumes behind the awaited \<open>read\<close> in one more world.\<close>

definition verifyCitation :: "dir_env \<Rightarrow> nat \<Rightarrow> caller \<Rightarrow> string \<Rightarrow> jsval \<Rightarrow> dir_world \<Rightarrow> dir_world list \<Rightarrow> (citation \<times> read_view) dir_run" where
  "verifyCitation env k who i offset w ws =
     (case assertCitationCurrent env who i w of
        Inl e \<Rightarrow> Some (Inl e, w # ws)
      | Inr c \<Rightarrow>
          (case readCitation env k ((ct_context c)\<lparr>dx_caller := who\<rparr>) i offset False w ws of
             None \<Rightarrow> None
           | Some (Inl e, ws1) \<Rightarrow> Some (Inl e, ws1)
           | Some (Inr view, _ # w1 # ws2) \<Rightarrow>
               (case assertCitationCurrent env who i w1 of Inl e \<Rightarrow> Some (Inl e, w1 # ws2) | Inr _ \<Rightarrow> Some (Inr (c, view), w1 # ws2))
           | _ \<Rightarrow> None))"

section \<open>Revisions never return\<close>

text \<open>What may happen between two worlds: a registration, a binding, a revocation, or anything that leaves the
  tables alone.\<close>

inductive dir_step :: "dir_env \<Rightarrow> dir_service \<Rightarrow> dir_service \<Rightarrow> bool" for env where
  step_register: "dir_step env (dw_state w) (snd (register_finish env i c ticket own w))"
| step_bind: "dir_step env (dw_state w) (snd (bind_commit own i employee enabled revision w))"
| step_revoke: "dir_step env (dw_state w) (snd (revokeDirectory env c i w))"
| step_other: "ds_tables t = ds_tables s \<Longrightarrow> dir_step env s t"

lemma ds_tables_invalidate [simp]: "ds_tables (invalidate own i employee s) = ds_tables s"
  by (simp add: invalidate_def)

lemma step_tables:
  assumes "dir_step env s t"
  obtains "ds_tables t = ds_tables s"
  | i now own h where "ds_tables t = snd (dir_register i now own h (ds_tables s))"
  | now own i employee enabled revision where "ds_tables t = snd (dir_bind now own i employee enabled revision (ds_tables s))"
  | now own i where "ds_tables t = snd (dir_revoke now own i (ds_tables s))"
  using assms
proof cases
  case (step_register w i c ticket own)
  then show ?thesis
    using that(1,2) by (auto simp: register_finish_def Let_def split: sum.splits)
next
  case (step_bind w own i employee enabled revision)
  then show ?thesis
    using that(3) by (auto simp: bind_commit_def Let_def split: sum.splits)
next
  case (step_revoke w c i)
  then show ?thesis
    using that(1,4) by (auto simp: revokeDirectory_def Let_def split: sum.splits option.splits)
qed (use that(1) in auto)

definition tables_keyed :: "directory_tables \<Rightarrow> bool" where
  "tables_keyed t \<longleftrightarrow> distinct (map binding_key (dt_bindings t)) \<and> distinct (map dr_id (dt_resources t))"

interpretation disabled: row_update binding_key "disable_binding now" for now
  by unfold_locales (simp add: binding_key_def disable_binding_def)

interpretation withdrawn: row_update dr_id "revoke_resource now" for now
  by unfold_locales (simp add: revoke_resource_def)

lemma upserted_keys: "map key (upsert_row key r rows) = (if key r \<in> key ` set rows then map key rows else map key rows @ [key r])"
  by (auto simp: upsert_row_def update_rows_def)

lemma find_upsert: "find (\<lambda>q. key q = k) (upsert_row key r rows) = (if k = key r then Some r else find (\<lambda>q. key q = k) rows)"
proof -
  have "find (\<lambda>q. key q = k) (update_rows (\<lambda>q. key q = key r) (\<lambda>_. r) rows)
      = (if k = key r \<and> k \<in> key ` set rows then Some r else find (\<lambda>q. key q = k) rows)"
    by (induction rows) (auto simp: update_rows_def)
  moreover have "find (\<lambda>q. key q = k) (rows @ [r]) = (if k \<in> key ` set rows then find (\<lambda>q. key q = k) rows else if k = key r then Some r else None)"
    by (induction rows) auto
  moreover have "k \<notin> key ` set rows \<Longrightarrow> find (\<lambda>q. key q = k) rows = None"
    by (auto simp: find_None_iff)
  ultimately show ?thesis by (auto simp: upsert_row_def)
qed

lemma keyed_step:
  assumes "tables_keyed (ds_tables s)" "dir_step env s t"
  shows "tables_keyed (ds_tables t)"
  using assms(2)
proof (cases rule: step_tables)
  case (2 i now own h)
  then show ?thesis
    using assms(1) by (auto simp: tables_keyed_def dir_register_def Let_def split: option.splits if_splits)
next
  case (3 now own i employee enabled revision)
  have "distinct (map binding_key (upsert_row binding_key b (dt_bindings (ds_tables s))))" for b
    using assms(1) by (auto simp: upserted_keys tables_keyed_def)
  with 3 show ?thesis
    using assms(1) by (auto simp: tables_keyed_def dir_bind_def bind_row_def Let_def split: sum.splits option.splits)
next
  case (4 now own i)
  then show ?thesis
    using assms(1)
    by (auto simp: tables_keyed_def dir_revoke_def disabled.distinct_update withdrawn.distinct_update split: sum.splits)
qed (use assms(1) in simp)

interpretation keyed: invariant_system "\<lambda>s. tables_keyed (ds_tables s)" "dir_step env" "\<lambda>s. tables_keyed (ds_tables s)" for env
  by unfold_locales (auto intro: keyed_step)

text \<open>A row is either untouched or has a larger revision.\<close>

definition row_later :: "('r \<Rightarrow> nat) \<Rightarrow> 'r option \<Rightarrow> 'r option \<Rightarrow> bool" where
  "row_later revision x y \<longleftrightarrow> x = y \<or> (case (x, y) of (Some a, Some b) \<Rightarrow> revision a < revision b | (None, _) \<Rightarrow> True | _ \<Rightarrow> False)"

lemma row_later_between:
  "row_later revision (Some a) y \<Longrightarrow> row_later revision y (Some b) \<Longrightarrow> revision a = revision b \<Longrightarrow> y = Some a \<and> a = b"
  by (cases y) (auto simp: row_later_def)

definition grant_row :: "dir_owner \<Rightarrow> string \<Rightarrow> string \<Rightarrow> directory_tables \<Rightarrow> directory_binding option" where
  "grant_row own i employee t = find (\<lambda>b. binding_key b = (own, employee, i)) (dt_bindings t)"

definition resource_row :: "string \<Rightarrow> directory_tables \<Rightarrow> directory_resource option" where
  "resource_row i t = find (\<lambda>r. dr_id r = i) (dt_resources t)"

lemma find_sorted_filter:
  assumes "distinct (map key xs)" "\<And>x y. q x \<Longrightarrow> q y \<Longrightarrow> p x \<Longrightarrow> p y \<Longrightarrow> key x = key y"
  shows "find p (sort_by le (filter q xs)) = find (\<lambda>x. p x \<and> q x) xs"
proof (cases "find (\<lambda>x. p x \<and> q x) xs")
  case None
  then have "find p (sort_by le (filter q xs)) = None" by (auto simp: find_None_iff)
  with None show ?thesis by simp
next
  case (Some a)
  then have a: "a \<in> set xs" "p a" "q a" by (auto simp: find_Some_iff)
  have unique: "x = a" if "x \<in> set (sort_by le (filter q xs))" "p x" for x
    using that a assms by (auto simp: distinct_map dest: inj_onD)
  obtain b where "find p (sort_by le (filter q xs)) = Some b"
    using a by (cases "find p (sort_by le (filter q xs))") (auto simp: find_None_iff)
  moreover from this have "b \<in> set (sort_by le (filter q xs))" "p b" by (metis find_Some_iff nth_mem)+
  ultimately show ?thesis using unique Some by simp
qed

lemma find_keyed_cong: "(\<And>x. x \<in> set xs \<Longrightarrow> p x = q x) \<Longrightarrow> find p xs = find q xs"
  by (induction xs) auto

lemma binding_of_row:
  assumes "tables_keyed t" "dir_get own i t = Inr r"
  shows "binding_of own i employee t = grant_row own i employee t"
proof -
  have "find (\<lambda>b. db_employee b = employee) (sort_by (\<lambda>a b. text_le (db_employee a) (db_employee b)) (filter (bound_to own i) (dt_bindings t)))
      = find (\<lambda>b. db_employee b = employee \<and> bound_to own i b) (dt_bindings t)"
    using assms(1) by (intro find_sorted_filter [where key = binding_key]) (auto simp: tables_keyed_def bound_to_def binding_key_def)
  also have "\<dots> = grant_row own i employee t"
    unfolding grant_row_def by (intro find_keyed_cong) (auto simp: bound_to_def binding_key_def)
  finally show ?thesis
    using assms(2) by (simp add: binding_of_def dir_bindings_def)
qed

lemma find_keyed_conj:
  "distinct (map key xs) \<Longrightarrow> find (\<lambda>x. key x = k \<and> q x) xs = (case find (\<lambda>x. key x = k) xs of Some x \<Rightarrow> if q x then Some x else None | None \<Rightarrow> None)"
proof (induction xs)
  case (Cons x xs)
  have "find (\<lambda>x. key x = k \<and> q x) xs = None" if "key x = k"
    using Cons.prems that by (simp add: find_None_iff) (metis image_eqI)
  with Cons show ?case by simp
qed simp

lemma dir_get_row:
  "tables_keyed t \<Longrightarrow> dir_get own i t =
     (case resource_row i t of Some r \<Rightarrow> if live_directory own r then Inr r else Inl ''unauthorized'' | None \<Rightarrow> Inl ''unauthorized'')"
  using find_keyed_conj [of dr_id "dt_resources t" i "live_directory own"]
  by (simp add: dir_get_def resource_row_def tables_keyed_def split: option.splits)

text \<open>A grant is the enabled row of a live directory.\<close>

lemma granted_at_row:
  assumes "tables_keyed t"
  shows "granted_at own i employee n t \<longleftrightarrow>
    (\<exists>r b. resource_row i t = Some r \<and> live_directory own r \<and> grant_row own i employee t = Some b \<and> db_enabled b \<and> db_revision b = n)"
proof (cases "dir_get own i t")
  case (Inr r)
  then show ?thesis
    using binding_of_row [OF assms Inr] dir_get_row [OF assms, of own i]
    by (auto simp: granted_at_def split: option.splits if_splits)
next
  case (Inl e)
  then show ?thesis
    using dir_get_row [OF assms, of own i] by (auto simp: granted_at_def binding_of_def dir_bindings_def split: option.splits)
qed

lemma grant_row_bind: "grant_row own i employee (bind_row b t) = (if binding_key b = (own, employee, i) then Some b else grant_row own i employee t)"
  by (auto simp: grant_row_def bind_row_def find_upsert)

lemma row_later_refl [simp]: "row_later revision x x"
  by (simp add: row_later_def)

lemma bind_row_later:
  assumes "tables_keyed t"
  shows "row_later db_revision (grant_row own' i' e' t) (grant_row own' i' e' (snd (dir_bind now own i employee enabled revision t)))"
proof (cases "dir_get own i t")
  case (Inr r)
  show ?thesis
    unfolding dir_bind_def Inr sum.case Let_def binding_of_row [OF assms Inr]
    by (auto simp: grant_row_bind binding_key_def row_later_def split: option.split)
qed (simp add: dir_bind_def)

text \<open>The row of a directory stays as it is until it is revoked, and then stays revoked.\<close>

definition live_or_gone :: "directory_resource option \<Rightarrow> directory_resource option \<Rightarrow> bool" where
  "live_or_gone x y \<longleftrightarrow> x = y \<or> x = None \<or> (\<exists>r. y = Some r \<and> dr_revoked r \<noteq> None)"

lemma live_or_gone_refl: "live_or_gone x x"
  by (simp add: live_or_gone_def)

lemma live_or_gone_trans: "live_or_gone x y \<Longrightarrow> live_or_gone y z \<Longrightarrow> live_or_gone x z"
  by (auto simp: live_or_gone_def)

lemma rows_later:
  assumes "tables_keyed (ds_tables s)" "dir_step env s t"
  shows "row_later db_revision (grant_row own i employee (ds_tables s)) (grant_row own i employee (ds_tables t))"
    and "live_or_gone (resource_row i (ds_tables s)) (resource_row i (ds_tables t))"
proof -
  have grants: "grant_row own i employee (t'\<lparr>dt_resources := rs\<rparr>) = grant_row own i employee t'" for t' rs
    by (simp add: grant_row_def)
  have resources: "resource_row i (bind_row b t') = resource_row i t'" for b t'
    by (simp add: resource_row_def bind_row_def)
  have registered: "live_or_gone (find (\<lambda>r. dr_id r = i) xs) (find (\<lambda>r. dr_id r = i) (xs @ [x]))" for xs x
    by (induction xs) (auto simp: live_or_gone_def)
  show "row_later db_revision (grant_row own i employee (ds_tables s)) (grant_row own i employee (ds_tables t))"
    using assms(2)
  proof (cases rule: step_tables)
    case (2 j now own' h)
    then show ?thesis by (simp add: dir_register_def grants Let_def split: option.split)
  next
    case (3 now own' j employee' enabled revision)
    then show ?thesis using bind_row_later [OF assms(1)] by simp
  next
    case (4 now own' j)
    then show ?thesis
      by (auto simp: dir_revoke_def grant_row_def disabled.find_update row_later_def disable_binding_def split: sum.split option.split)
  qed simp
  show "live_or_gone (resource_row i (ds_tables s)) (resource_row i (ds_tables t))"
    using assms(2)
  proof (cases rule: step_tables)
    case (2 j now own' h)
    then show ?thesis
      by (auto simp: dir_register_def resource_row_def Let_def live_or_gone_refl split: option.split intro: registered)
  next
    case (3 now own' j employee' enabled revision)
    then show ?thesis by (simp add: dir_bind_def resources live_or_gone_def Let_def split: sum.split option.split)
  next
    case (4 now own' j)
    then show ?thesis
      by (cases "find (\<lambda>r. dr_id r = i) (dt_resources (ds_tables s))")
        (auto simp: dir_revoke_def resource_row_def withdrawn.find_update live_or_gone_def revoke_resource_def split: sum.split)
  qed (simp add: live_or_gone_def)
qed

lemma row_later_trans: "row_later revision x y \<Longrightarrow> row_later revision y z \<Longrightarrow> row_later revision x z"
  by (cases x; cases y; cases z) (auto simp: row_later_def)

definition keyed_dir_step :: "dir_env \<Rightarrow> dir_service \<Rightarrow> dir_service \<Rightarrow> bool" where
  "keyed_dir_step env s t \<longleftrightarrow> tables_keyed (ds_tables s) \<and> dir_step env s t"

lemma steps_keyed: "steps (dir_step env) s t \<Longrightarrow> tables_keyed (ds_tables s) \<Longrightarrow> steps (keyed_dir_step env) s t \<and> tables_keyed (ds_tables t)"
proof (induction rule: steps.induct)
  case (steps_snoc s t u)
  then show ?case
    by (meson keyed_dir_step_def keyed_step steps.steps_snoc)
qed (simp add: steps.steps_refl)

interpretation grants: monotone_step "keyed_dir_step env" "\<lambda>s. grant_row own i employee (ds_tables s)" "row_later db_revision" for env own i employee
  by unfold_locales (auto simp: keyed_dir_step_def intro: row_later_trans rows_later(1))

interpretation resources: monotone_step "keyed_dir_step env" "\<lambda>s. resource_row i (ds_tables s)" live_or_gone for env i
  by unfold_locales (auto simp: keyed_dir_step_def intro: live_or_gone_refl live_or_gone_trans rows_later(2))

lemma steps_append: "steps step s t \<Longrightarrow> steps step t u \<Longrightarrow> steps step s u"
  by (rotate_tac, induction rule: steps.induct) (auto intro: steps.intros)

text \<open>A grant that holds at two moments under the same revision held at every moment between them.\<close>

lemma grant_unbroken:
  assumes "tables_keyed (ds_tables s0)" "steps (dir_step env) s0 s1" "steps (dir_step env) s1 s2"
    and "granted_at own i employee n (ds_tables s0)" "granted_at own i employee n (ds_tables s2)"
  shows "granted_at own i employee n (ds_tables s1) \<and> dir_get own i (ds_tables s1) = dir_get own i (ds_tables s0)"
proof -
  from steps_keyed [OF assms(2,1)] have k1: "steps (keyed_dir_step env) s0 s1" "tables_keyed (ds_tables s1)" by auto
  from steps_keyed [OF assms(3) k1(2)] have k2: "steps (keyed_dir_step env) s1 s2" "tables_keyed (ds_tables s2)" by auto
  obtain r0 b0 where 0: "resource_row i (ds_tables s0) = Some r0" "live_directory own r0" "grant_row own i employee (ds_tables s0) = Some b0"
    "db_enabled b0" "db_revision b0 = n" using assms(4) granted_at_row [OF assms(1)] by blast
  obtain r2 b2 where 2: "resource_row i (ds_tables s2) = Some r2" "live_directory own r2" "grant_row own i employee (ds_tables s2) = Some b2"
    "db_revision b2 = n" using assms(5) granted_at_row [OF k2(2)] by blast
  have "grant_row own i employee (ds_tables s1) = Some b0"
    using row_later_between [of db_revision b0 _ b2] grants.steps_le [OF k1(1), of own i employee] grants.steps_le [OF k2(1), of own i employee] 0 2 by simp
  moreover have "resource_row i (ds_tables s1) = Some r0"
  proof -
    have "live_or_gone (Some r0) (resource_row i (ds_tables s1))" "live_or_gone (resource_row i (ds_tables s1)) (Some r2)"
      using resources.steps_le [OF k1(1), of i] resources.steps_le [OF k2(1), of i] 0(1) 2(1) by (simp_all only:)
    moreover have "dr_revoked r2 = None" using 2(2) by (simp add: live_directory_def)
    ultimately show ?thesis by (auto simp: live_or_gone_def)
  qed
  ultimately show ?thesis
    using 0 granted_at_row [OF k1(2)] dir_get_row [OF k1(2)] dir_get_row [OF assms(1)] by auto
qed

text \<open>Worlds in the order a call sees them.\<close>

fun linked :: "dir_env \<Rightarrow> dir_world list \<Rightarrow> bool" where
  "linked env (v # w # ws) \<longleftrightarrow> steps (dir_step env) (dw_state v) (dw_state w) \<and> linked env (w # ws)"
| "linked env _ \<longleftrightarrow> True"

lemma check_Inr:
  assumes "check env k ctx r n authority tool ws = Some (Inr a, ws')"
  obtains w0 w1 w2 rest own where "ws = w0 # w1 # w2 # rest" "ws' = w2 # rest" "check_before env k ctx r n tool w0 = None"
    "directory_owner env (dx_caller ctx) (dw_now w0) = Inr own" "check_after env k ctx r n authority tool own w1 = Inr a"
  using assms by (auto simp: check_def split: list.splits option.splits sum.splits)

lemma check_after_Inr:
  assumes "check_after env k ctx r n authority tool own w = Inr a"
  shows "granted_at own (dr_id r) (dx_employee ctx) n (ds_tables (dw_state w))" "\<exists>snapshot. authorize env ctx (Some tool) w = Inr snapshot"
    "\<not> task_aborted k w" "dw_check w r = Inr a" "authority \<noteq> None \<Longrightarrow> authority = Some a"
  using assms by (auto simp: check_after_def split: sum.splits if_splits)

lemma directory_owner_names: "directory_owner env c now = Inr own \<Longrightarrow> own = (the (ca_tenantId c), the (ca_userId c))"
  by (auto simp: directory_owner_def split: option.splits if_splits)

lemma read_task_Inr:
  assumes "read_task env k ctx i c offset ws = Some (Inr view, ws')"
  obtains w0 w1 w2 w3 w4 w5 rest own a src where "ws = w0 # w1 # w2 # w3 # w4 # w5 # rest" "ws' = w5 # rest"
    "directory_owner env (dx_caller ctx) (dw_now w3) = Inr own"
    "check_after env k ctx (ct_resource c) (ct_binding c) (Some (ct_authority c)) ''local_dir_read'' own w4 = Inr a"
    "dw_read w3 (ct_resource c) (ct_relative c) = Inr src" "read_slice i c offset src = Inr view"
proof -
  from assms obtain x ws1 where first: "read_check env k ctx c ws = Some (Inr x, ws1)"
    by (auto simp: read_task_def split: option.splits sum.splits)
  from this [unfolded read_check_def] obtain w0 w1 w2 rest where ws: "ws = w0 # w1 # w2 # rest" "ws1 = w2 # rest" by (rule check_Inr)
  with assms first obtain w3 rest' where rest: "rest = w3 # rest'" by (cases rest) (simp_all add: read_task_def)
  with assms first ws obtain src where src: "dw_read w3 (ct_resource c) (ct_relative c) = Inr src" "read_slice i c offset src = Inr view"
    by (auto simp: read_task_def split: sum.splits option.splits)
  with assms first ws rest obtain y where "read_check env k ctx c (w3 # rest') = Some (Inr y, ws')"
    by (auto simp: read_task_def split: sum.splits option.splits)
  from this [unfolded read_check_def] show thesis
    by (rule check_Inr) (use that ws rest src in auto)
qed

lemma readCitation_task:
  assumes "readCitation env k ctx i offset aborted w ws = Some (Inr view, ws')"
  obtains c n where "current_citation i w = Inr c" "read_offset offset = Some n" "same_execution (ct_context c) ctx"
    "read_task env k ctx i c n (w # ws) = Some (Inr view, ws')"
  using assms unfolding readCitation_def by (auto split: sum.splits option.splits if_splits)

text \<open>(C21) A cited text is delivered only under an unbroken grant.  Whatever is registered, bound, unbound or revoked
  while a read waits for the host, if it delivers text then the employee's binding was enabled, at the
  revision the citation was issued under, and the directory unrevoked at every moment from the issue of the
  citation up to the last check; at that check the whole execution was still authorized, and the text is the
  asked-for part of a source of the cited version.\<close>

theorem cited_text_under_unbroken_grant:
  assumes "readCitation env k ctx i offset aborted w ws = Some (Inr view, ws')" "current_citation i w = Inr c"
    and "directory_owner env (dx_caller ctx) (dw_now w) = Inr own" "linked env (w # ws)"
    and "tables_keyed (ds_tables s0)" "steps (dir_step env) s0 (dw_state w)"
    and "granted_at own (dr_id (ct_resource c)) (dx_employee ctx) (ct_binding c) (ds_tables s0)"
  shows "(\<forall>s. steps (dir_step env) s0 s \<longrightarrow> steps (dir_step env) s (dw_state (ws ! 3)) \<longrightarrow>
        granted_at own (dr_id (ct_resource c)) (dx_employee ctx) (ct_binding c) (ds_tables s)
        \<and> dir_get own (dr_id (ct_resource c)) (ds_tables s) = dir_get own (dr_id (ct_resource c)) (ds_tables s0))
    \<and> steps (dir_step env) s0 (dw_state (ws ! 3)) \<and> \<not> task_aborted k (ws ! 3)
    \<and> (\<exists>snapshot. authorize env ctx (Some ''local_dir_read'') (ws ! 3) = Inr snapshot)
    \<and> (\<exists>n src. read_offset offset = Some n \<and> dw_read (ws ! 2) (ct_resource c) (ct_relative c) = Inr src \<and> du_version src = ct_version c
         \<and> rv_text view = take MAX_READ_CHARS (drop n (du_text src)))"
proof -
  from assms(1,2) obtain n where n: "read_offset offset = Some n" and task: "read_task env k ctx i c n (w # ws) = Some (Inr view, ws')"
    by (auto elim!: readCitation_task)
  from task obtain w1 w2 w3 w4 w5 rest own' a src where ws: "ws = w1 # w2 # w3 # w4 # w5 # rest"
    and own': "directory_owner env (dx_caller ctx) (dw_now w3) = Inr own'"
    and checked: "check_after env k ctx (ct_resource c) (ct_binding c) (Some (ct_authority c)) ''local_dir_read'' own' w4 = Inr a"
    and src: "dw_read w3 (ct_resource c) (ct_relative c) = Inr src" "read_slice i c n src = Inr view"
    by (rule read_task_Inr) auto
  have "own' = own" using directory_owner_names [OF own'] directory_owner_names [OF assms(3)] by simp
  note checked = check_after_Inr [OF checked [unfolded this]]
  have "steps (dir_step env) (dw_state w) (dw_state w4)"
    using assms(4) unfolding ws by (auto intro: steps_append)
  then have "steps (dir_step env) s0 (dw_state w4)" using assms(6) by (blast intro: steps_append)
  moreover have "du_version src = ct_version c \<and> rv_text view = take MAX_READ_CHARS (drop n (du_text src))"
    using src(2) by (auto simp: read_slice_def split: if_splits)
  ultimately show ?thesis
    using grant_unbroken [OF assms(5) _ _ assms(7) checked(1)] checked(2,3) n src(1) by (auto simp: ws)
qed

section \<open>Bounds of a search\<close>

lemma evict_drop: "evict m = drop (length m - (MAX_CITATIONS - 1)) m"
proof (induction m)
  case (Cons e m)
  moreover have "length (e # m) - (MAX_CITATIONS - 1) = Suc (length m - (MAX_CITATIONS - 1))" if "length (e # m) \<ge> MAX_CITATIONS"
    using that by (simp add: MAX_CITATIONS_def)
  ultimately show ?case by (auto simp: MAX_CITATIONS_def)
qed simp

lemma length_prune: "length (prune now m) < MAX_CITATIONS"
  by (simp add: prune_def evict_drop MAX_CITATIONS_def)

lemma omap_set_fresh: "k \<notin> fst ` set m \<Longrightarrow> omap_set k v m = m @ [(k, v)]"
  by (induction k v m rule: omap_set.induct) auto

definition handle :: "dir_search \<Rightarrow> dir_owner \<Rightarrow> ms \<Rightarrow> nat \<times> hit_candidate \<Rightarrow> string \<times> citation" where
  "handle q own now e = (citation_id (se_env q) (fst e), citation_for q own now (fst e) (snd e))"

text \<open>The handles of one search stand at the end of the table, so that eviction takes older ones.\<close>

lemma deliver_hits_keeps:
  assumes "n + length cs < MAX_CITATIONS" "length taken = n" "inj (de_uuid (se_env q))"
    and "\<forall>j. citation_id (se_env q) j \<notin> fst ` set old" "length (old @ map (handle q own now) (List.enumerate 0 taken)) \<le> MAX_CITATIONS"
  shows "\<exists>l old'. deliver_hits q own now n bytes cs (old @ map (handle q own now) (List.enumerate 0 taken)) =
      (l < length cs, map (\<lambda>(j, c). delivered q j c) (List.enumerate n (take l cs)), old' @ map (handle q own now) (List.enumerate 0 (taken @ take l cs)))
    \<and> l \<le> length cs \<and> length (old' @ map (handle q own now) (List.enumerate 0 (taken @ take l cs))) \<le> MAX_CITATIONS \<and> set old' \<subseteq> set old"
  using assms
proof (induction cs arbitrary: n bytes taken old)
  case Nil
  then show ?case by (intro exI [of _ 0] exI [of _ old]) simp
next
  case (Cons c cs)
  let ?fresh = "map (handle q own now) (List.enumerate 0 taken)" and ?size = "se_size q c (citation_id (se_env q) n)"
  show ?case
  proof (cases "n > 0 \<and> bytes + ?size > MAX_SEARCH_OUTPUT_BYTES")
    case True
    then show ?thesis using Cons.prems(5) by (intro exI [of _ 0] exI [of _ old]) simp
  next
    case False
    let ?old = "filter (\<lambda>(_, c). ct_expires c > now) old"
    define old' where "old' = drop (length ?old + length ?fresh - (MAX_CITATIONS - 1)) ?old"
    have "filter (\<lambda>(_, c). ct_expires c > now) ?fresh = ?fresh"
      by (simp add: filter_id_conv handle_def citation_for_def)
    then have pruned: "prune now (old @ ?fresh) = old' @ ?fresh"
      using Cons.prems(1,2) by (simp add: prune_def evict_drop old'_def MAX_CITATIONS_def)
    have old': "set old' \<subseteq> set old" unfolding old'_def by (auto dest: in_set_dropD)
    have new: "citation_id (se_env q) n \<notin> fst ` set (old' @ ?fresh)"
      using Cons.prems(2,3,4) old' by (auto simp: handle_def in_set_enumerate_eq citation_id_def dest: injD)
    have set: "omap_set (citation_id (se_env q) n) (citation_for q own now n c) (prune now (old @ ?fresh))
        = old' @ map (handle q own now) (List.enumerate 0 (taken @ [c]))"
      unfolding pruned omap_set_fresh [OF new] using Cons.prems(2) by (simp add: enumerate_append_eq handle_def)
    have "length (old' @ map (handle q own now) (List.enumerate 0 (taken @ [c]))) \<le> MAX_CITATIONS"
      using length_prune [of now "old @ ?fresh"] unfolding pruned by simp
    moreover have "\<forall>j. citation_id (se_env q) j \<notin> fst ` set old'" using Cons.prems(4) old' by blast
    ultimately have "\<exists>l old''. deliver_hits q own now (Suc n) (bytes + ?size) cs (old' @ map (handle q own now) (List.enumerate 0 (taken @ [c]))) =
        (l < length cs, map (\<lambda>(j, c). delivered q j c) (List.enumerate (Suc n) (take l cs)),
         old'' @ map (handle q own now) (List.enumerate 0 ((taken @ [c]) @ take l cs)))
      \<and> l \<le> length cs \<and> length (old'' @ map (handle q own now) (List.enumerate 0 ((taken @ [c]) @ take l cs))) \<le> MAX_CITATIONS \<and> set old'' \<subseteq> set old'"
      using Cons.prems(1-3) by (intro Cons.IH) simp_all
    then obtain l old'' where IH: "deliver_hits q own now (Suc n) (bytes + ?size) cs (old' @ map (handle q own now) (List.enumerate 0 (taken @ [c]))) =
        (l < length cs, map (\<lambda>(j, c). delivered q j c) (List.enumerate (Suc n) (take l cs)),
         old'' @ map (handle q own now) (List.enumerate 0 ((taken @ [c]) @ take l cs)))"
      "l \<le> length cs" "length (old'' @ map (handle q own now) (List.enumerate 0 ((taken @ [c]) @ take l cs))) \<le> MAX_CITATIONS" "set old'' \<subseteq> set old'"
      by blast
    show ?thesis
      using False IH old' by (intro exI [of _ "Suc l"] exI [of _ old'']) (auto simp: set Let_def)
  qed
qed

text \<open>A run goes on to a later world.\<close>

definition onward :: "dir_world list \<Rightarrow> dir_world list \<Rightarrow> bool" where
  "onward ws ws' \<longleftrightarrow> set ws' \<subseteq> set ws \<and> (ws \<noteq> [] \<longrightarrow> ws' \<noteq> [])"

lemma onward_refl [simp]: "onward ws ws"
  by (simp add: onward_def)

lemma onward_trans: "onward us vs \<Longrightarrow> onward vs ws \<Longrightarrow> onward us ws"
  by (auto simp: onward_def)

lemma onward_tl [simp]: "onward (v # w # ws) (w # ws)"
  by (auto simp: onward_def)

lemma check_onward: "check env k ctx r n authority tool ws = Some (x, ws') \<Longrightarrow> onward ws ws'"
  by (auto simp: check_def onward_def split: list.splits option.splits sum.splits)

lemma search_check_onward: "search_check q d ws = Some (x, ws') \<Longrightarrow> onward ws ws'"
  unfolding search_check_def by (rule check_onward)

definition within_budget :: "dir_search \<Rightarrow> search_acc \<Rightarrow> bool" where
  "within_budget q a \<longleftrightarrow> sa_entries a \<le> 8000 \<and> sa_files a + sa_skipped a \<le> 2000 \<and> length (sa_candidates a) \<le> se_limit q"

lemma budget_left: "checkBudget q a w = Inr True \<Longrightarrow> sa_entries a < 8000 \<and> sa_files a + sa_skipped a < 2000"
  by (simp add: checkBudget_def split: if_splits)

lemma examine_budget:
  assumes "sa_files a + sa_skipped a < 2000" "sa_entries a \<le> 8000" "length (sa_candidates a) \<le> se_limit q"
  shows "within_budget q (snd (examine q d title path src a))"
  using assms by (auto simp: examine_def within_budget_def add_candidate_def Let_def split: option.split)

lemma search_file_budget:
  assumes "search_file q d title path a ws = Some (x, ws')" "sa_files a + sa_skipped a < 2000" "sa_entries a \<le> 8000" "length (sa_candidates a) \<le> se_limit q"
  shows "onward ws ws' \<and> (\<forall>y. x = Inr y \<longrightarrow> within_budget q (snd y))"
proof (cases "search_check q d ws")
  case (Some cw)
  obtain y ws1 where cw: "search_check q d ws = Some (y, ws1)" using Some by (cases cw) simp
  from search_check_onward [OF cw] have on: "onward ws ws1" .
  show ?thesis
  proof (cases y)
    case (Inl e)
    then show ?thesis using assms(1) cw on by (auto simp: search_file_def)
  next
    case (Inr authority)
    then obtain v w rest where ws1: "ws1 = v # w # rest"
      using assms(1) cw by (auto simp: search_file_def split: list.splits)
    from on [unfolded this] onward_tl have "onward ws (w # rest)" by (rule onward_trans)
    have skipped: "within_budget q (a\<lparr>sa_skipped := sa_skipped a + 1, sa_partial := True\<rparr>)"
      using assms(2-) by (simp add: within_budget_def)
    note result = assms(1) [unfolded search_file_def cw Inr ws1, simplified]
    have "ws' = w # rest" using result by (auto split: sum.splits if_splits)
    moreover have "within_budget q (snd y)" if "x = Inr y" for y
      using result that skipped examine_budget [OF assms(2-), where d = d and title = title and path = path]
      by (auto split: sum.splits if_splits)
    ultimately show ?thesis using \<open>onward ws (w # rest)\<close> by blast
  qed
qed (use assms(1) in \<open>simp add: search_file_def\<close>)

lemma search_listing_budget:
  assumes "search_listing q d directory es queue a ws = Some (x, ws')" "within_budget q a"
  shows "onward ws ws' \<and> (\<forall>y. x = Inr y \<longrightarrow> within_budget q (snd y))"
  using assms
proof (induction es arbitrary: queue a ws)
  case (Cons e es)
  then obtain w rest where ws: "ws = w # rest" by (cases ws) auto
  show ?case
  proof (cases "checkBudget q a w = Inr True")
    case False
    with Cons.prems show ?thesis
      unfolding ws by (auto simp: within_budget_def split: sum.splits bool.splits)
  next
    case True
    let ?a = "a\<lparr>sa_entries := sa_entries a + 1\<rparr>" and ?path = "join_entry directory (fst e)"
    have left: "sa_files ?a + sa_skipped ?a < 2000" "sa_entries ?a \<le> 8000" "length (sa_candidates ?a) \<le> se_limit q"
      using budget_left [OF True] Cons.prems(2) by (auto simp: within_budget_def)
    consider "snd e" | "\<not> snd e" "js_lower (extname (fst e)) \<notin> set DIRECTORY_FORMATS" | "\<not> snd e" "js_lower (extname (fst e)) \<in> set DIRECTORY_FORMATS"
      by blast
    then show ?thesis
    proof cases
      case 1
      then show ?thesis
        using Cons.prems(1) True left Cons.IH [of "queue @ [?path]" ?a ws] unfolding ws by (simp add: within_budget_def Let_def)
    next
      case 2
      then show ?thesis
        using Cons.prems(1) True left Cons.IH [of queue "?a\<lparr>sa_skipped := sa_skipped a + 1\<rparr>" ws] unfolding ws by (simp add: within_budget_def Let_def)
    next
      case 3
      with Cons.prems(1) True obtain y ws1 where looked: "search_file q d (fst e) ?path ?a ws = Some (y, ws1)"
        unfolding ws by (auto simp: Let_def split: option.splits)
      note found = search_file_budget [OF looked left]
      show ?thesis
      proof (cases y)
        case (Inl err)
        then show ?thesis using Cons.prems(1) True 3 looked found unfolding ws by (auto simp: Let_def)
      next
        case (Inr r)
        obtain stop a' where r: "r = (stop, a')" by (cases r)
        then show ?thesis
          using Cons.prems(1) True 3 looked found Inr Cons.IH [of queue a' ws1] unfolding ws
          by (auto simp: Let_def split: if_splits intro: onward_trans)
      qed
    qed
  qed
qed auto

lemma search_queue_budget:
  assumes "search_queue q d queue a ws = Some (x, ws')" "within_budget q a"
  shows "onward ws ws' \<and> (\<forall>y. x = Inr y \<longrightarrow> within_budget q y)"
  using assms
proof (induction "length ws" arbitrary: queue a ws rule: less_induct)
  case less
  show ?case
  proof (cases queue)
    case Nil
    with less.prems show ?thesis by (auto simp: search_queue.simps [of _ _ "[]"])
  next
    case (Cons directory queue')
    with less.prems(1) obtain w rest where ws: "ws = w # rest" by (cases ws) (simp_all add: search_queue.simps)
    show ?thesis
    proof (cases "checkBudget q a w = Inr True")
      case False
      with less.prems Cons ws show ?thesis
        by (subst (asm) search_queue.simps) (auto simp: within_budget_def split: sum.splits bool.splits)
    next
      case True
      with less.prems(1) Cons ws obtain y ws1 where chk: "search_check q d ws = Some (y, ws1)"
        by (subst (asm) search_queue.simps) (auto split: option.splits)
      show ?thesis
      proof (cases y)
        case (Inl e)
        then show ?thesis
          using less.prems(1) Cons ws True chk search_check_onward [OF chk] by (subst (asm) search_queue.simps) auto
      next
        case (Inr authority)
        with less.prems(1) Cons ws True chk obtain v w1 ws2 where ws1: "ws1 = v # w1 # ws2"
          by (subst (asm) search_queue.simps) (auto split: list.splits)
        have on: "onward ws (w1 # ws2)" using search_check_onward [OF chk] ws1 onward_trans onward_tl by blast
        have shorter: "length (w1 # ws2) < length ws" using check_shorter chk ws1 by (fastforce simp: search_check_def)
        show ?thesis
        proof (cases "dw_list w1 (sd_resource d) directory")
          case (Inl e)
          then show ?thesis
            using less.prems(1) Cons ws True chk Inr ws1 on by (subst (asm) search_queue.simps) auto
        next
          case (Inr l)
          let ?a = "a\<lparr>sa_partial := sa_partial a \<or> dl_partial l\<rparr>"
          have a: "within_budget q ?a" using less.prems(2) by (simp add: within_budget_def)
          show ?thesis
          proof (cases "dl_authority l \<noteq> sd_authority d")
            case True
            then show ?thesis
              using less.prems(1) Cons ws \<open>checkBudget q a w = Inr True\<close> chk \<open>y = Inr authority\<close> ws1 Inr on
              by (subst (asm) search_queue.simps) auto
          next
            case False
            note eq = less.prems(1) [unfolded search_queue.simps [of q d queue a ws]]
            from eq False Cons ws \<open>checkBudget q a w = Inr True\<close> chk \<open>y = Inr authority\<close> ws1 Inr
            obtain z ws3 where listing: "search_listing q d directory (dl_entries l) queue' ?a (w1 # ws2) = Some (z, ws3)"
              by (auto split: option.splits)
            note listed = search_listing_budget [OF listing a]
            have "length ws3 < length ws" using search_listing_shorter [OF listing] shorter by simp
            show ?thesis
            proof (cases z)
              case (Inl e)
              with eq False Cons ws \<open>checkBudget q a w = Inr True\<close> chk \<open>y = Inr authority\<close> ws1 \<open>dw_list w1 (sd_resource d) directory = Inr l\<close> listing
              have "x = Inl e" "ws' = ws3" by simp_all
              then show ?thesis using listed on by (auto intro: onward_trans)
            next
              case (Inr r)
              obtain queue'' a' where r: "r = (queue'', a')" by (cases r)
              with eq False Cons ws \<open>checkBudget q a w = Inr True\<close> chk \<open>y = Inr authority\<close> ws1 \<open>dw_list w1 (sd_resource d) directory = Inr l\<close> listing Inr
              have "search_queue q d queue'' a' ws3 = Some (x, ws')" by simp
              from less.hyps [OF \<open>length ws3 < length ws\<close> this] listed Inr r on show ?thesis by (auto intro: onward_trans)
            qed
          qed
        qed
      qed
    qed
  qed
qed

lemma search_directories_budget:
  assumes "search_directories q own rs a ds ws = Some (x, ws')" "within_budget q a"
  shows "onward ws ws' \<and> (\<forall>y. x = Inr y \<longrightarrow> within_budget q (fst y))"
  using assms
proof (induction rs arbitrary: a ds ws)
  case (Cons r rs)
  then obtain w rest where ws: "ws = w # rest" by (cases ws) auto
  show ?case
  proof (cases "enabled_binding own (dx_employee (se_context q)) (ds_tables (dw_state w)) r")
    case None
    then show ?thesis
      using Cons.prems Cons.IH [of a ds ws] unfolding ws by (auto simp: enabled_binding_def split: sum.splits)
  next
    case (Some b)
    then obtain bs where bs: "dir_bindings own (dr_id r) (ds_tables (dw_state w)) = Inr bs"
      "find (\<lambda>b. db_employee b = dx_employee (se_context q) \<and> db_enabled b) bs = Some b"
      by (auto simp: enabled_binding_def split: sum.splits)
    note eq = Cons.prems(1) [unfolded ws search_directories.simps bs sum.case option.case, folded ws]
    then obtain y ws1 where chk: "check (se_env q) (se_task q) (se_context q) r (db_revision b) None ''local_dir_search'' ws = Some (y, ws1)"
      by (auto split: option.splits)
    note on = check_onward [OF chk]
    show ?thesis
    proof (cases y)
      case (Inl e)
      then show ?thesis using eq chk on by auto
    next
      case (Inr authority)
      let ?d = "\<lparr>sd_resource = r, sd_binding = db_revision b, sd_authority = authority\<rparr>"
      from eq chk Inr obtain z ws2 where queue: "search_queue q ?d [[]] a ws1 = Some (z, ws2)"
        by (auto simp: Let_def split: option.splits)
      note queued = search_queue_budget [OF queue Cons.prems(2)]
      show ?thesis
        using eq chk Inr queue queued on Cons.IH [of "projr z" "ds @ [?d]" ws2]
        by (cases z) (auto simp: Let_def intro: onward_trans)
    qed
  qed
qed auto

lemma final_checks_onward: "final_checks q ds ws = Some (x, ws') \<Longrightarrow> onward ws ws'"
proof (induction ds arbitrary: ws)
  case (Cons d ds)
  then show ?case
    by (auto split: option.splits sum.splits dest!: search_check_onward dest: Cons.IH intro: onward_trans)
qed simp

text \<open>What a successful search did last.\<close>

lemma searchDirectories_Inr:
  assumes "searchDirectories env sizes k ctx query limit aborted w ws = Some (Inr res, s')"
  obtains q own a v where "se_env q = env" "1 \<le> se_limit q" "se_limit q \<le> 15" "within_budget q a" "v \<in> set (w # ws)"
    "search_finish q own a v = (Inr res, s')"
proof -
  from assms obtain n own where n: "search_limit limit = Some n" and task: "search_task \<lparr>se_env = env, se_task = k, se_context = ctx,
      se_terms = js_unique (split_words [] (de_normal env query)), se_limit = n, se_deadline = dw_now w + 5000, se_size = sizes\<rparr> own w ws = Some (Inr res, s')"
    (is "search_task ?q own w ws = _")
    unfolding searchDirectories_def by (auto split: sum.splits option.splits if_splits)
  have "within_budget ?q empty_acc" by (simp add: within_budget_def empty_acc_def)
  from task obtain a ds ws1 where dirs: "search_directories ?q own (dir_list own (ds_tables (dw_state w))) empty_acc [] (w # ws) = Some (Inr (a, ds), ws1)"
    unfolding search_task_def by (auto split: option.splits sum.splits)
  note found = search_directories_budget [OF dirs \<open>within_budget ?q empty_acc\<close>]
  from task dirs obtain ws2 where final: "final_checks ?q ds ws1 = Some (Inr (), ws2)" "search_finish ?q own a (hd ws2) = (Inr res, s')"
    unfolding search_task_def by (auto split: option.splits sum.splits if_splits)
  from onward_trans [OF conjunct1 [OF found] final_checks_onward [OF final(1)]] have "hd ws2 \<in> set (w # ws)"
    unfolding onward_def by (metis hd_in_set list.distinct(1) subsetD)
  moreover have "1 \<le> n \<and> n \<le> 15" using n by (auto simp: search_limit_def split: option.splits if_splits)
  ultimately show thesis
    using that [of ?q a "hd ws2" own] found final(2) by simp
qed

text \<open>(C24) A search keeps its budget and its promises.  It examines at most 8000 entries and 2000 files and answers
  with at most 15 hits; the table of citations never outgrows its 512 places, and yet every handle in the
  answer is in the table when the search returns, unexpired and for exactly the text that was shown: making
  room evicts only older handles.\<close>

theorem search_keeps_its_handles:
  assumes "searchDirectories env sizes k ctx query limit aborted w ws = Some (Inr res, s')" "inj (de_uuid env)"
    and "\<forall>v \<in> set (w # ws). length (ds_citations (dw_state v)) \<le> MAX_CITATIONS \<and> (\<forall>j. citation_id env j \<notin> fst ` set (ds_citations (dw_state v)))"
  shows "sa_entries (sr_coverage res) \<le> 8000 \<and> sa_files (sr_coverage res) + sa_skipped (sr_coverage res) \<le> 2000
    \<and> length (sr_items res) \<le> 15 \<and> length (ds_citations s') \<le> MAX_CITATIONS
    \<and> (\<forall>h \<in> set (sr_items res). \<exists>c v. omap_get (ds_citations s') (dv_citation h) = Some c \<and> v \<in> set (w # ws) \<and> dw_now v < ct_expires c
         \<and> ct_relative c = dv_path h \<and> ct_version c = dv_version h \<and> ct_snippet c = dv_snippet h)"
proof -
  obtain q own a v where q: "se_env q = env" "se_limit q \<le> 15" and a: "within_budget q a" and v: "v \<in> set (w # ws)"
    and finish: "search_finish q own a v = (Inr res, s')"
    by (rule searchDirectories_Inr [OF assms(1)])
  let ?handle = "handle q own (dw_now v)" and ?old = "ds_citations (dw_state v)"
  have "0 + length (sa_candidates a) < MAX_CITATIONS" using a q(2) by (simp add: within_budget_def MAX_CITATIONS_def)
  then obtain l old' where del: "deliver_hits q own (dw_now v) 0 0 (sa_candidates a) ?old =
      (l < length (sa_candidates a), map (\<lambda>(j, c). delivered q j c) (List.enumerate 0 (take l (sa_candidates a))),
       old' @ map ?handle (List.enumerate 0 (take l (sa_candidates a))))"
    and size: "length (old' @ map ?handle (List.enumerate 0 (take l (sa_candidates a)))) \<le> MAX_CITATIONS" and old': "set old' \<subseteq> set ?old"
    using deliver_hits_keeps [of 0 "sa_candidates a" "[]" q ?old own "dw_now v" 0] assms(2,3) q(1) v by auto
  have res: "sr_items res = map (\<lambda>(j, c). delivered q j c) (List.enumerate 0 (take l (sa_candidates a)))" "sr_coverage res = a"
    "ds_citations s' = old' @ map ?handle (List.enumerate 0 (take l (sa_candidates a)))"
    using finish unfolding search_finish_def del by (auto simp: Let_def split: if_splits)
  have "\<exists>c v. omap_get (ds_citations s') (dv_citation h) = Some c \<and> v \<in> set (w # ws) \<and> dw_now v < ct_expires c
      \<and> ct_relative c = dv_path h \<and> ct_version c = dv_version h \<and> ct_snippet c = dv_snippet h" if "h \<in> set (sr_items res)" for h
  proof -
    from that obtain j c where h: "(j, c) \<in> set (List.enumerate 0 (take l (sa_candidates a)))" "h = delivered q j c" by (auto simp: res)
    have "citation_id env j \<notin> fst ` set old'" using assms(3) v old' by blast
    then have "map_of old' (citation_id env j) = None" by (simp add: map_of_eq_None_iff)
    moreover have same: "x = y" if "citation_id (se_env q) x = citation_id (se_env q) y" for x y
      using assms(2) that by (auto simp: citation_id_def q(1) dest: injD)
    have "map_of (map ?handle (List.enumerate 0 (take l (sa_candidates a)))) (citation_id env j) = Some (citation_for q own (dw_now v) j c)"
      using h(1) q(1) by (intro map_of_is_SomeI) (auto simp: handle_def distinct_map comp_def inj_on_def in_set_enumerate_eq image_iff intro!: bexI [of _ "(j, c)"] dest!: same)
    ultimately have "omap_get (ds_citations s') (dv_citation h) = Some (citation_for q own (dw_now v) j c)"
      by (simp add: res(3) omap_get_def h(2) delivered_def q(1) map_add_def)
    then show ?thesis using v by (intro exI [of _ "citation_for q own (dw_now v) j c"] exI [of _ v]) (simp add: citation_for_def h(2) delivered_def)
  qed
  then show ?thesis using a q(2) size by (auto simp: res within_budget_def)
qed

section \<open>Hits can be located\<close>

lemma normalize_map:
  "length (concat (map (\<lambda>(i, c). replicate (length (f c)) i) (List.enumerate k s))) = length (concat (map f s))
   \<and> set (concat (map (\<lambda>(i, c). replicate (length (f c)) i) (List.enumerate k s))) \<subseteq> {k..<k + length s}"
  by (induction s arbitrary: k) (auto simp: in_set_enumerate_eq split: if_splits)

text \<open>Every hit lies in the original text although matching is done on the normalized one: the snippet is a part
  of the text that starts inside it, and each term occurs in the name or in the normalized text.\<close>

theorem hit_locatable:
  assumes "locateHit env terms name s = Some h"
  shows "lh_offset h \<le> length s \<and> lh_snippet h = take 400 (drop (lh_offset h) s)
    \<and> (\<forall>t \<in> set terms. first_index t name \<noteq> None \<or> first_index t (fst (normalizeWithMap env s)) \<noteq> None)"
proof -
  let ?mapped = "normalizeWithMap env s" and ?anchors = "hit_anchors (normalizeWithMap env s) terms"
  have "a \<le> length s" if "a \<in> set ?anchors" for a
  proof -
    from that have "a = 0 \<or> a \<in> set (snd ?mapped)" by (auto simp: hit_anchors_def split: if_splits)
    then show ?thesis using normalize_map [of "de_fold env" 0 s] unfolding normalizeWithMap_def snd_conv by fastforce
  qed
  then have "(if ?anchors = [] then 0 else Min (set ?anchors)) \<le> length s" by auto
  then show ?thesis
    using assms by (auto simp: locateHit_def term_score_def list_ex_iff Let_def split: if_splits)
qed

section \<open>An execution\<close>

definition demo_dir_caller :: caller where
  "demo_dir_caller = \<lparr>ca_callerId = ''u'', ca_accessToken = None, ca_tenantId = Some ''t'', ca_userId = Some ''m'', ca_roles = None,
     ca_claims = Some (JObj [(''exp'', JNum (Fin 1000))])\<rparr>"

definition demo_dir_env :: dir_env where
  "demo_dir_env = \<lparr>de_verified = (\<lambda>_. True), de_uuid = dec, de_fold = (\<lambda>c. [c]), de_normal = (\<lambda>s. s), de_collate = (\<lambda>_ _. True), de_bytes = length\<rparr>"

definition demo_execution :: dir_context where
  "demo_execution = \<lparr>dx_caller = demo_dir_caller, dx_employee = ''e'', dx_conversation = ''a'', dx_session = ''s'', dx_turn = ''1'', dx_snapshot = JStr ''v'',
     dx_generation = 0, dx_permission = ReadOnly, dx_background = False\<rparr>"

definition demo_directory :: directory_resource where
  "demo_directory = \<lparr>dr_id = ''d'', dr_owner = (''t'', ''m''), dr_path = ''/d'', dr_name = ''d'', dr_identity = ''i'', dr_revision = 1, dr_created = 0, dr_revoked = None\<rparr>"

definition demo_snapshot :: fields where
  "demo_snapshot = [(''employee_id'', JStr ''e''), (''version'', JStr ''1''), (''snapshot_version'', JStr ''v''),
     (''knowledge_policy'', JObj [(''state'', JStr ''allow''), (''allowed_operations'', JArr [JStr ''knowledge_search'', JStr ''knowledge_get''])])]"

definition demo_cited :: citation where
  "demo_cited = \<lparr>ct_id = ''c'', ct_context = demo_execution, ct_owner = (''t'', ''m''), ct_resource = demo_directory, ct_title = ''b.txt'', ct_relative = ''b.txt'',
     ct_snippet = ''hello'', ct_version = ''1'', ct_authority = ''h'', ct_binding = 1, ct_expires = 900000\<rparr>"

definition demo_dir_state :: dir_service where
  "demo_dir_state = \<lparr>ds_tables = \<lparr>dt_resources = [demo_directory],
       dt_bindings = [\<lparr>db_owner = (''t'', ''m''), db_employee = ''e'', db_directory = ''d'', db_enabled = True, db_revision = 1, db_updated = 0\<rparr>]\<rparr>,
     ds_registry = \<lparr>ar_identities = [(owner_key ''t'' ''m'', \<lparr>ei_caller = demo_dir_caller, ei_tenantId = ''t'', ei_memberId = ''m'', ei_expiresAt = None, ei_generation = 0\<rparr>)],
       ar_generations = []\<rparr>,
     ds_store = store_init\<lparr>st_conversations := [(demo_row ''a'' 1)\<lparr>cv_entry := Some ''e''\<rparr>]\<rparr>,
     ds_projections = \<lparr>pv_experts = [\<lparr>pj_employee = ''e'', pj_tenant = ''t'', pj_member = ''m'', pj_version = ''1'',
         pj_json = [(''employee_id'', JStr ''e''), (''version'', JStr ''1'')], pj_revoked = False, pj_synced = []\<rparr>], pv_solutions = [],
       pv_snapshots = [\<lparr>fz_employee = ''e'', fz_tenant = ''t'', fz_member = ''m'', fz_snapshotVersion = ''v'', fz_version = ''1'', fz_json = demo_snapshot, fz_synced = []\<rparr>],
       pv_avatars = []\<rparr>,
     ds_citations = [(''c'', demo_cited)], ds_tasks = []\<rparr>"

definition demo_dir_world :: dir_world where
  "demo_dir_world = \<lparr>dw_state = demo_dir_state, dw_now = 0, dw_clock = 0, dw_status = None, dw_challenge = (\<lambda>_. Inl unavailable), dw_consume = (\<lambda>_ _. Inl unavailable),
     dw_check = (\<lambda>_. Inr ''h''), dw_list = (\<lambda>_ _. Inr \<lparr>dl_authority = ''h'', dl_entries = [(''b.txt'', False)], dl_partial = False\<rparr>),
     dw_read = (\<lambda>_ _. Inr \<lparr>du_authority = ''h'', du_text = ''hello'', du_version = ''1''\<rparr>)\<rparr>"

lemma demo_dir_owner: "directory_owner demo_dir_env demo_dir_caller 0 = Inr (''t'', ''m'')"
  by (simp add: directory_owner_def demo_dir_caller_def demo_dir_env_def caller_expiry_def)

lemma demo_tools: "localDirectoryTools (snapshot_view \<lparr>fz_employee = ''e'', fz_tenant = ''t'', fz_member = ''m'', fz_snapshotVersion = ''v'', fz_version = ''1'',
    fz_json = demo_snapshot, fz_synced = []\<rparr>) = LOCAL_DIRECTORY_TOOLS"
  by (simp add: localDirectoryTools_def snapshot_view_def publicAvatarProjection_def LOCAL_AVATAR_FIELDS_def omap_delete_def spread_def given_text_def
      demo_snapshot_def allowed_tool_names_def operation_granted_def KNOWLEDGE_ALIAS_def LOCAL_DIRECTORY_TOOLS_def nullish_def Let_def)

lemma demo_dir_employee: "directory_employee (''t'', ''m'') ''e'' (ds_projections demo_dir_state) = Inr (snapshot_view \<lparr>fz_employee = ''e'', fz_tenant = ''t'', fz_member = ''m'',
    fz_snapshotVersion = ''v'', fz_version = ''1'', fz_json = demo_snapshot, fz_synced = []\<rparr>)"
  by (simp add: directory_employee_def demo_dir_state_def listLoadedExperts_def listed_experts_def expert_view_def listSnapshots_def listed_snapshots_def snapshot_view_def
      sort_by_def scope_matches_def publicAvatarProjection_def LOCAL_AVATAR_FIELDS_def omap_delete_def spread_def given_text_def owned_view_def text_option_def
      demo_snapshot_def Let_def)

lemma demo_authorized:
  assumes "tool \<in> set LOCAL_DIRECTORY_TOOLS"
  shows "\<exists>snapshot. authorize demo_dir_env demo_execution (Some tool) demo_dir_world = Inr snapshot"
proof -
  have "registered_generation demo_dir_env (''t'', ''m'') 0 (ds_registry demo_dir_state) = Some 0"
    by (simp add: registered_generation_def auth_get_def auth_resolve_def auth_generation_def demo_dir_state_def demo_dir_env_def past_def nullish_def omap_get_def Let_def)
  moreover have "getConversation ''a'' (ds_store demo_dir_state) = Some ((demo_row ''a'' 1)\<lparr>cv_entry := Some ''e''\<rparr>)"
    by (simp add: getConversation_def demo_dir_state_def demo_row_def conversation_row_def)
  moreover have "takes_part demo_execution ((demo_row ''a'' 1)\<lparr>cv_entry := Some ''e''\<rparr>) s" for s
    by (simp add: takes_part_def demo_execution_def demo_row_def conversation_row_def)
  moreover have "member_of (snapshot_view \<lparr>fz_employee = ''e'', fz_tenant = ''t'', fz_member = ''m'', fz_snapshotVersion = ''v'', fz_version = ''1'',
      fz_json = demo_snapshot, fz_synced = []\<rparr>) ''snapshot_version'' = JStr ''v''"
    by (simp add: snapshot_view_def publicAvatarProjection_def LOCAL_AVATAR_FIELDS_def omap_delete_def spread_def given_text_def demo_snapshot_def)
  ultimately show ?thesis
    using demo_dir_owner demo_tools demo_dir_employee assms
    by (simp add: authorize_def demo_execution_def demo_dir_world_def demo_row_def conversation_row_def del: js_field.simps)
qed

lemma demo_granted: "granted_at (''t'', ''m'') ''d'' ''e'' 1 (ds_tables demo_dir_state)" "dir_get (''t'', ''m'') ''d'' (ds_tables demo_dir_state) = Inr demo_directory"
  by (simp_all add: granted_at_def binding_of_def dir_bindings_def dir_get_def live_directory_def demo_dir_state_def demo_directory_def bound_to_def sort_by_def)

lemma demo_check:
  assumes "tool \<in> set LOCAL_DIRECTORY_TOOLS" "authority = None \<or> authority = Some ''h''"
  shows "check demo_dir_env 0 demo_execution demo_directory 1 authority tool (demo_dir_world # demo_dir_world # demo_dir_world # rest) = Some (Inr ''h'', demo_dir_world # rest)"
proof -
  have "\<not> task_aborted 0 demo_dir_world" by (simp add: task_aborted_def demo_dir_world_def demo_dir_state_def)
  moreover have "dr_id demo_directory = ''d''" "dx_employee demo_execution = ''e''" "dx_caller demo_execution = demo_dir_caller" "dw_now demo_dir_world = 0"
    "dw_state demo_dir_world = demo_dir_state" "dw_check demo_dir_world demo_directory = Inr ''h''"
    by (simp_all add: demo_directory_def demo_execution_def demo_dir_world_def)
  ultimately show ?thesis
    using demo_authorized [OF assms(1)] assms(2) demo_granted demo_dir_owner by (auto simp: check_def check_before_def check_after_def)
qed

theorem cited_text_under_unbroken_grant_witness:
  "\<exists>view ws'. readCitation demo_dir_env 0 demo_execution ''c'' (JNum (Fin 0)) False demo_dir_world (replicate 5 demo_dir_world) = Some (Inr view, ws')
    \<and> rv_text view = ''hello'' \<and> granted_at (''t'', ''m'') ''d'' ''e'' 1 (ds_tables demo_dir_state)"
proof -
  let ?w = demo_dir_world
  have tool: "''local_dir_read'' \<in> set LOCAL_DIRECTORY_TOOLS" by (simp add: LOCAL_DIRECTORY_TOOLS_def)
  have cited: "current_citation ''c'' ?w = Inr demo_cited"
    by (simp add: current_citation_def demo_dir_world_def demo_dir_state_def demo_cited_def omap_get_def)
  have fields': "ct_resource demo_cited = demo_directory" "ct_binding demo_cited = 1" "ct_authority demo_cited = ''h''" "dr_id demo_directory = ''d''"
    "dx_employee demo_execution = ''e''" "dx_caller demo_execution = demo_dir_caller" "dw_now ?w = 0" "dw_state ?w = demo_dir_state"
    by (simp_all add: demo_cited_def demo_directory_def demo_execution_def demo_dir_world_def)
  have zero: "read_offset (JNum (Fin 0)) = Some 0" by (simp add: read_offset_def rat_is_int_def safe_integer_def)
  have "dw_read ?w demo_directory (ct_relative demo_cited) = Inr \<lparr>du_authority = ''h'', du_text = ''hello'', du_version = ''1''\<rparr>"
    by (simp add: demo_dir_world_def)
  moreover have "same_execution (ct_context demo_cited) demo_execution" by (simp add: same_execution_def demo_cited_def)
  ultimately obtain view where view: "readCitation demo_dir_env 0 demo_execution ''c'' (JNum (Fin 0)) False ?w (replicate 5 ?w) = Some (Inr view, [?w])"
    using demo_authorized [OF tool] cited zero demo_check [OF tool]
    by (auto simp: readCitation_def read_task_def read_check_def read_slice_def fields' numeral_eq_Suc demo_cited_def [THEN arg_cong, of ct_version])
  have linked: "linked demo_dir_env (?w # replicate 5 ?w)" by (simp add: numeral_eq_Suc steps_refl)
  have keyed: "tables_keyed (ds_tables demo_dir_state)" by (simp add: tables_keyed_def demo_dir_state_def)
  have "rv_text view = ''hello''"
    using cited_text_under_unbroken_grant [OF view cited, of "(''t'', ''m'')" demo_dir_state] linked keyed demo_dir_owner demo_granted(1) zero
    by (auto simp: fields' steps_refl MAX_READ_CHARS_def demo_dir_world_def)
  with view demo_granted(1) show ?thesis by blast
qed

definition demo_dir_search :: dir_search where
  "demo_dir_search = \<lparr>se_env = demo_dir_env, se_task = 0, se_context = demo_execution, se_terms = [''hello''], se_limit = 15, se_deadline = 5000, se_size = (\<lambda>_ _. 1)\<rparr>"

definition demo_searched :: searched_directory where
  "demo_searched = \<lparr>sd_resource = demo_directory, sd_binding = 1, sd_authority = ''h''\<rparr>"

lemma demo_hit: "locateHit demo_dir_env [''hello''] ''b.txt'' ''hello'' = Some \<lparr>lh_score = 1, lh_offset = 0, lh_snippet = ''hello''\<rparr>"
  by (simp add: locateHit_def normalizeWithMap_def demo_dir_env_def term_score_def hit_anchors_def map_filter_def first_index.simps enumerate_eq_zip upt_rec Let_def)

lemma demo_search_check: "search_check demo_dir_search demo_searched (demo_dir_world # demo_dir_world # demo_dir_world # rest) = Some (Inr ''h'', demo_dir_world # rest)"
  using demo_check [of "''local_dir_search''" "Some ''h''"]
  by (simp add: search_check_def demo_dir_search_def demo_searched_def LOCAL_DIRECTORY_TOOLS_def)

lemma demo_budget: "sa_files a + sa_skipped a < 2000 \<Longrightarrow> sa_entries a < 8000 \<Longrightarrow> sa_bytes a < 5000 \<Longrightarrow> checkBudget demo_dir_search a demo_dir_world = Inr True"
  by (simp add: checkBudget_def task_aborted_def demo_dir_search_def demo_dir_world_def demo_dir_state_def MAX_SEARCH_BYTES_def)

definition demo_candidate :: hit_candidate where
  "demo_candidate = \<lparr>cd_title = ''b.txt'', cd_path = ''b.txt'', cd_version = ''1'', cd_hit = \<lparr>lh_score = 1, lh_offset = 0, lh_snippet = ''hello''\<rparr>,
     cd_resource = demo_directory, cd_authority = ''h'', cd_binding = 1\<rparr>"

definition demo_acc :: search_acc where
  "demo_acc = \<lparr>sa_files = 1, sa_skipped = 0, sa_entries = 1, sa_bytes = 5, sa_partial = False, sa_candidates = [demo_candidate]\<rparr>"

lemma demo_examine: "search_file demo_dir_search demo_searched ''b.txt'' ''b.txt'' (empty_acc\<lparr>sa_entries := 1\<rparr>)
    (demo_dir_world # demo_dir_world # demo_dir_world # demo_dir_world # rest) = Some (Inr (False, demo_acc), demo_dir_world # rest)"
proof -
  have "dw_read demo_dir_world (sd_resource demo_searched) path = Inr \<lparr>du_authority = ''h'', du_text = ''hello'', du_version = ''1''\<rparr>" for path
    by (simp add: demo_dir_world_def)
  moreover have "examine demo_dir_search demo_searched ''b.txt'' ''b.txt'' \<lparr>du_authority = ''h'', du_text = ''hello'', du_version = ''1''\<rparr> (empty_acc\<lparr>sa_entries := 1\<rparr>) = (False, demo_acc)"
    using demo_hit by (simp add: examine_def demo_dir_search_def demo_dir_env_def demo_searched_def demo_acc_def demo_candidate_def empty_acc_def MAX_SEARCH_BYTES_def
        add_candidate_def sort_by_def Let_def)
  ultimately show ?thesis
    by (simp add: search_file_def demo_search_check) (simp add: demo_searched_def)
qed

lemma demo_queue: "search_queue demo_dir_search demo_searched [[]] empty_acc (demo_dir_world # replicate 6 demo_dir_world @ rest) = Some (Inr demo_acc, demo_dir_world # rest)"
proof -
  let ?w = demo_dir_world
  have budget: "checkBudget demo_dir_search empty_acc ?w = Inr True" by (rule demo_budget) (simp_all add: empty_acc_def)
  have list: "dw_list ?w (sd_resource demo_searched) [] = Inr \<lparr>dl_authority = ''h'', dl_entries = [(''b.txt'', False)], dl_partial = False\<rparr>"
    by (simp add: demo_dir_world_def)
  have format: "js_lower (extname ''b.txt'') \<in> set DIRECTORY_FORMATS"
    by (simp add: extname_def basename_def js_lower_def DIRECTORY_FORMATS_def Let_def)
  have acc: "empty_acc\<lparr>sa_partial := sa_partial empty_acc \<or> False\<rparr> = empty_acc" by (simp add: empty_acc_def)
  have "search_listing demo_dir_search demo_searched [] [(''b.txt'', False)] [] empty_acc (?w # ?w # ?w # ?w # rest) = Some (Inr ([], demo_acc), ?w # rest)"
    using demo_examine [of rest] budget format by (simp add: join_entry_def empty_acc_def Let_def)
  then show ?thesis
    using budget demo_search_check list
    by (simp add: search_queue.simps [of _ _ "[[]]"] search_queue.simps [of _ _ "[]"] numeral_eq_Suc acc [simplified]) (simp add: demo_searched_def)
qed

lemma demo_search_runs: "\<exists>res s'. searchDirectories demo_dir_env (\<lambda>_ _. 1) 0 demo_execution ''hello'' (JNum (Fin 15)) False demo_dir_world (replicate 10 demo_dir_world)
    = Some (Inr res, s') \<and> map dv_path (sr_items res) = [''b.txt'']"
proof -
  let ?w = demo_dir_world
  have tool: "''local_dir_search'' \<in> set LOCAL_DIRECTORY_TOOLS" by (simp add: LOCAL_DIRECTORY_TOOLS_def)
  have fields': "dr_id demo_directory = ''d''" "dx_employee demo_execution = ''e''" "dx_caller demo_execution = demo_dir_caller" "dw_now ?w = 0" "dw_state ?w = demo_dir_state"
    "se_env demo_dir_search = demo_dir_env" "se_task demo_dir_search = 0" "se_context demo_dir_search = demo_execution"
    by (simp_all add: demo_directory_def demo_execution_def demo_dir_world_def demo_dir_search_def)
  have listed: "dir_list (''t'', ''m'') (ds_tables demo_dir_state) = [demo_directory]"
    by (simp add: dir_list_def live_directory_def demo_dir_state_def demo_directory_def sort_by_def)
  have bound: "dir_bindings (''t'', ''m'') ''d'' (ds_tables demo_dir_state) =
      Inr [\<lparr>db_owner = (''t'', ''m''), db_employee = ''e'', db_directory = ''d'', db_enabled = True, db_revision = 1, db_updated = 0\<rparr>]"
    using demo_granted(2) by (simp add: dir_bindings_def) (simp add: demo_dir_state_def bound_to_def sort_by_def)
  have worlds: "?w # replicate 10 ?w = ?w # ?w # ?w # replicate 6 ?w @ [?w, ?w]" by (simp add: numeral_eq_Suc)
  have directories: "search_directories demo_dir_search (''t'', ''m'') [demo_directory] empty_acc [] (?w # replicate 10 ?w) = Some (Inr (demo_acc, [demo_searched]), [?w, ?w, ?w])"
    unfolding worlds using demo_check [OF tool, of None] demo_queue [of "[?w, ?w]"] bound by (simp add: fields' demo_searched_def Let_def)
  have finish: "\<exists>res s'. search_finish demo_dir_search (''t'', ''m'') demo_acc ?w = (Inr res, s') \<and> map dv_path (sr_items res) = [''b.txt'']"
    by (simp add: search_finish_def task_aborted_def demo_dir_world_def demo_dir_state_def demo_acc_def delivered_def demo_candidate_def Let_def)
  have "\<exists>res s'. search_task demo_dir_search (''t'', ''m'') ?w (replicate 10 ?w) = Some (Inr res, s') \<and> map dv_path (sr_items res) = [''b.txt'']"
    using directories demo_search_check [of "[]"] finish unfolding search_task_def fields' listed by simp
  moreover have "js_trim ''hello'' \<noteq> []" "js_unique (split_words [] (de_normal demo_dir_env ''hello'')) = [''hello'']" "search_limit (JNum (Fin 15)) = Some 15"
    by (simp_all add: js_trim_def js_space_def js_unique_def demo_dir_env_def search_limit_def rat_is_int_def)
  ultimately show ?thesis
    using demo_authorized [OF tool] demo_dir_owner by (auto simp: searchDirectories_def fields' demo_dir_search_def)
qed

theorem search_keeps_its_handles_witness:
  "\<exists>res s'. searchDirectories demo_dir_env (\<lambda>_ _. 1) 0 demo_execution ''hello'' (JNum (Fin 15)) False demo_dir_world (replicate 10 demo_dir_world) = Some (Inr res, s')
    \<and> (\<exists>h c. sr_items res = [h] \<and> omap_get (ds_citations s') (dv_citation h) = Some c \<and> ct_relative c = ''b.txt'')"
proof -
  obtain res s' where run: "searchDirectories demo_dir_env (\<lambda>_ _. 1) 0 demo_execution ''hello'' (JNum (Fin 15)) False demo_dir_world (replicate 10 demo_dir_world) = Some (Inr res, s')"
    and items: "map dv_path (sr_items res) = [''b.txt'']"
    using demo_search_runs by (elim exE conjE)
  have "inj (de_uuid demo_dir_env)" by (simp add: inj_def demo_dir_env_def)
  moreover have "length (ds_citations (dw_state demo_dir_world)) \<le> MAX_CITATIONS" "citation_id demo_dir_env j \<notin> fst ` set (ds_citations (dw_state demo_dir_world))" for j
    by (simp_all add: demo_dir_world_def demo_dir_state_def MAX_CITATIONS_def citation_id_def)
  ultimately have "\<forall>h \<in> set (sr_items res). \<exists>c. omap_get (ds_citations s') (dv_citation h) = Some c \<and> ct_relative c = dv_path h"
    using search_keeps_its_handles [OF run] by (auto 0 3)
  with run items show ?thesis by auto
qed

end
