(* ===== verification/Workspace_Layout.thy ===== *)
theory Workspace_Layout
  imports Local_File_Store Event_Boundary
begin

text \<open>
  Working folders: their names (\<open>workspace-layout.ts\<close>), the folder of a new member
  (\<open>pi/session-host.ts\<close>, \<open>newWorkspace\<close>) and the listing of a member's folders for the desktop
  workbench (\<open>services/conversation-workspaces.ts\<close>).  \<open>node:path\<close> is that of POSIX.  SHA-256, the
  calendar of the local time zone, the untitled name and the file system are parameters; the file
  system does not change while one request lists folders.  A character is one code point, so
  \<open>Array.from\<close> and the \<open>u\<close> flag read the characters of the string.
\<close>

section \<open>Paths\<close>

text \<open>\<open>resolve\<close>, \<open>join\<close>, \<open>dirname\<close> and \<open>relative\<close> on absolute paths, through their segments.\<close>

fun norm_onto :: "string list \<Rightarrow> string list \<Rightarrow> string list" where
  "norm_onto acc [] = rev acc"
| "norm_onto acc (s # ss) =
     (if s = [] \<or> s = ''.'' then norm_onto acc ss else if s = ''..'' then norm_onto (tl acc) ss else norm_onto (s # acc) ss)"

definition path_segs :: "string \<Rightarrow> string list" where
  "path_segs p = norm_onto [] (js_split (CHR ''/'') p)"

definition render_path :: "string list \<Rightarrow> string" where
  "render_path ss = (if ss = [] then ''/'' else concat (map (\<lambda>s. CHR ''/'' # s) ss))"

definition node_resolve :: "string \<Rightarrow> string \<Rightarrow> string" where
  "node_resolve cwd p = render_path (path_segs (if prefix ''/'' p then p else cwd @ ''/'' @ p))"

definition node_join :: "string \<Rightarrow> string \<Rightarrow> string" where
  "node_join a b = render_path (path_segs (a @ ''/'' @ b))"

definition node_dirname :: "string \<Rightarrow> string" where
  "node_dirname p = render_path (butlast (path_segs p))"

fun strip_common :: "string list \<Rightarrow> string list \<Rightarrow> string list \<times> string list" where
  "strip_common (a # as) (b # bs) = (if a = b then strip_common as bs else (a # as, b # bs))"
| "strip_common as bs = (as, bs)"

fun join_segs :: "string list \<Rightarrow> string" where
  "join_segs [] = []"
| "join_segs [s] = s"
| "join_segs (s # t # ss) = s @ ''/'' @ join_segs (t # ss)"

definition node_relative :: "string \<Rightarrow> string \<Rightarrow> string" where
  "node_relative base p =
     (case strip_common (path_segs base) (path_segs p) of (up, down) \<Rightarrow> join_segs (map (\<lambda>_. ''..'') up @ down))"

section \<open>Names\<close>

definition lower_hex :: "char \<Rightarrow> bool" where
  "lower_hex c \<longleftrightarrow> is_digit c \<or> c \<in> set ''abcdef''"

definition LEGACY_WORKSPACE_NAME :: "string \<Rightarrow> bool" where
  "LEGACY_WORKSPACE_NAME s \<longleftrightarrow> prefix ''conversation-'' s \<and> length s = 37 \<and> list_all lower_hex (drop 13 s)"

definition key_char :: "char \<Rightarrow> bool" where
  "key_char c \<longleftrightarrow> c \<noteq> CHR ''/'' \<and> c \<noteq> CHR 0x5C \<and> \<not> is_control c"

definition KEY_SEGMENT :: "string \<Rightarrow> bool" where
  "KEY_SEGMENT s \<longleftrightarrow> s \<noteq> [] \<and> length s \<le> 128 \<and> list_all key_char s \<and> hd s \<noteq> CHR ''.''"

definition WORKSPACE_KEY_PATTERN :: "string \<Rightarrow> bool" where
  "WORKSPACE_KEY_PATTERN s \<longleftrightarrow> length (js_split (CHR ''/'') s) \<le> 2 \<and> list_all KEY_SEGMENT (js_split (CHR ''/'') s)"

record layout_env =
  le_sha :: "string \<Rightarrow> string"
  le_untitled :: string
  le_day :: "ms \<Rightarrow> nat \<times> nat \<times> nat"
  le_now :: ms
  le_cwd :: string

definition NAME_CHARS :: nat where
  "NAME_CHARS = 40"

definition shell_hostile :: "char \<Rightarrow> bool" where
  "shell_hostile c \<longleftrightarrow> c \<in> set ''*?<>|'' \<or> c = CHR 0x22"

definition folderSegment :: "string \<Rightarrow> string \<Rightarrow> string" where
  "folderSegment value fallback =
     (let cleaned = squeeze shell_hostile (safePathSegment (Some value) fallback);
          short = rev (dropWhile (\<lambda>c. c = CHR ''.'' \<or> js_space c) (rev (take NAME_CHARS cleaned)))
      in if short \<noteq> [] then short else safePathSegment (Some fallback) fallback)"

definition pad2 :: "nat \<Rightarrow> string" where
  "pad2 n = (if length (dec n) < 2 then ''0'' @ dec n else dec n)"

text \<open>The month of \<open>le_day\<close> counts from 0; a creation time that is missing or no date counts as now.\<close>

definition conversationFolderBase :: "layout_env \<Rightarrow> string option \<Rightarrow> string option \<Rightarrow> ms option \<Rightarrow> string" where
  "conversationFolderBase env title employeeName createdAt =
     (let t = js_trim (nullish title [])
      in if t \<noteq> [] then folderSegment t (le_untitled env)
         else (case le_day env (nullish createdAt (le_now env)) of
                 (y, m, d) \<Rightarrow>
                   (let name = js_trim (nullish employeeName [])
                    in folderSegment ((if name \<noteq> [] then name else le_untitled env) @ ''-'' @ dec y @ pad2 (m + 1) @ pad2 d) (le_untitled env))))"

definition shortId :: "layout_env \<Rightarrow> string \<Rightarrow> nat \<Rightarrow> string" where
  "shortId env i n = take n (le_sha env i)"

text \<open>\<open>None\<close> is the error that no name is free; \<open>onDisk\<close> is \<open>existsSync\<close>.\<close>

definition first_free :: "(string \<Rightarrow> bool) \<Rightarrow> (string \<Rightarrow> bool) \<Rightarrow> string list \<Rightarrow> string option" where
  "first_free onDisk taken = find (\<lambda>p. \<not> onDisk p \<and> \<not> taken p)"

definition conversationFolder :: "layout_env \<Rightarrow> (string \<Rightarrow> bool) \<Rightarrow> string \<Rightarrow> string \<Rightarrow> string \<Rightarrow> (string \<Rightarrow> bool) \<Rightarrow> string option" where
  "conversationFolder env onDisk base name conversationId taken =
     first_free onDisk taken (map (\<lambda>n. node_join base (name @ ''-'' @ shortId env conversationId n)) [6, 12, 24])"

definition employeeFolder :: "layout_env \<Rightarrow> (string \<Rightarrow> bool) \<Rightarrow> string \<Rightarrow> string option \<Rightarrow> string \<Rightarrow> (string \<Rightarrow> bool) \<Rightarrow> string option" where
  "employeeFolder env onDisk dir displayName employeeId taken =
     (let name = folderSegment (nullish displayName []) employeeId
      in first_free onDisk taken (map (node_join dir)
           [name, name @ ''-'' @ shortId env employeeId 6, name @ ''-'' @ shortId env employeeId 24]))"

definition workspaceFolderHint :: "string option \<Rightarrow> string list \<Rightarrow> string" where
  "workspaceFolderHint permissionMode tools =
     (if permissionMode = Some ''read-only'' \<or> \<not> list_ex (\<lambda>t. t = ''write'' \<or> t = ''edit'' \<or> t = ''bash'') tools then []
      else ''Keep the working folder organized:'' @ [CHR 0x0A]
        @ ''- output/: documents, reports and other deliverables for the user'' @ [CHR 0x0A]
        @ ''- scripts/: helper scripts you write'' @ [CHR 0x0A]
        @ ''- data/: downloaded or raw data'' @ [CHR 0x0A]
        @ ''- each runnable app or website goes in its own top-level folder named after it (for example todo-app/), not inside output/'')"

section \<open>The folder of a new member\<close>

definition expert_display :: "fields list \<Rightarrow> string option \<Rightarrow> string option" where
  "expert_display experts employee =
     (case employee of
        None \<Rightarrow> None
      | Some i \<Rightarrow> if i = [] then None
          else (case find (\<lambda>e. member_of e ''employee_id'' = JStr i) experts of
                  None \<Rightarrow> None
                | Some e \<Rightarrow> (case member_of e ''display_name'' of JStr n \<Rightarrow> Some n | _ \<Rightarrow> None)))"

text \<open>The first participant folder two levels below the root names the conversation's folder.\<close>

definition shared_folder :: "layout_env \<Rightarrow> string \<Rightarrow> string list \<Rightarrow> string option" where
  "shared_folder env base paths =
     map_option (\<lambda>p. node_dirname (node_resolve (le_cwd env) p))
       (find (\<lambda>p. p \<noteq> [] \<and> node_dirname (node_dirname (node_resolve (le_cwd env) p)) = base) paths)"

definition newWorkspace ::
  "layout_env \<Rightarrow> (string \<Rightarrow> bool) \<Rightarrow> string \<Rightarrow> conversation \<Rightarrow> string option \<Rightarrow> projections \<Rightarrow> store \<Rightarrow> string option" where
  "newWorkspace env onDisk cwdRoot c employee pv s =
     (let base = node_resolve (le_cwd env) cwdRoot;
          experts = listLoadedExperts (cv_tenant c) (cv_member c) True pv;
          isGroup = (cv_kind c = ''group'' \<or> nullish (cv_coordinator c) [] \<noteq> []);
          participants = (if isGroup then listConversationParticipants (cv_id c) True s else []);
          leader = (case cv_coordinator c of Some i \<Rightarrow> Some i | None \<Rightarrow> (case cv_entry c of Some i \<Rightarrow> Some i | None \<Rightarrow> employee));
          taken = (\<lambda>p. workspaceInUse p s);
          dir = (case shared_folder env base (map pt_workspace participants) of
                   Some d \<Rightarrow> Some d
                 | None \<Rightarrow> conversationFolder env onDisk base
                     (conversationFolderBase env (cv_title c) (expert_display experts leader) (Some (cv_created c))) (cv_id c) taken)
      in case dir of
           None \<Rightarrow> None
         | Some d \<Rightarrow>
             if \<not> isGroup \<or> nullish employee [] = [] then Some d
             else employeeFolder env onDisk d (expert_display experts employee) (nullish employee []) taken)"

section \<open>The listing of folders\<close>

definition IGNORED_DIRECTORIES :: "string list" where
  "IGNORED_DIRECTORIES = [''node_modules'', ''__pycache__'', ''venv'']"

definition MAX_ENTRIES_PER_WORKSPACE :: nat where
  "MAX_ENTRIES_PER_WORKSPACE = 2000"

definition MAX_ENTRIES_PER_REQUEST :: nat where
  "MAX_ENTRIES_PER_REQUEST = 20000"

text \<open>\<open>ScanBudget.take\<close>: whether an entry may still be inspected, and what is left.\<close>

definition budget_take :: "nat \<Rightarrow> bool \<times> nat" where
  "budget_take n = (if n = 0 then (False, 0) else (True, n - 1))"

record project_scan =
  ps_own :: nat
  ps_request :: nat
  ps_pending :: "string list"

text \<open>One entry: \<open>Inl\<close> answers the scan with true, leaving so much of the request's budget.\<close>

definition project_entry :: "file_system \<Rightarrow> string \<Rightarrow> string \<times> dirent_kind \<Rightarrow> project_scan \<Rightarrow> nat + project_scan" where
  "project_entry fs current entry s =
     (case budget_take (ps_own s) of
        (False, _) \<Rightarrow> Inl (ps_request s)
      | (True, own) \<Rightarrow>
          (case budget_take (ps_request s) of
             (False, request) \<Rightarrow> Inl request
           | (True, request) \<Rightarrow>
               (let s1 = s\<lparr>ps_own := own, ps_request := request\<rparr>; name = fst entry; path = join_path current name
                in if hidden_name name \<or> snd entry = KindLink then Inr s1
                   else if snd entry = KindDirectory
                   then Inr (if name \<in> set IGNORED_DIRECTORIES then s1 else s1\<lparr>ps_pending := path # ps_pending s1\<rparr>)
                   else if snd entry \<noteq> KindFile then Inr s1
                   else (case fs_file fs path of
                           Some (bytes, _) \<Rightarrow> if bytes > 0 then Inl request else Inr s1
                         | None \<Rightarrow> Inr s1))))"

fun project_entries :: "file_system \<Rightarrow> string \<Rightarrow> (string \<times> dirent_kind) list \<Rightarrow> project_scan \<Rightarrow> nat + project_scan" where
  "project_entries fs current [] s = Inr s"
| "project_entries fs current (e # es) s =
     (case project_entry fs current e s of Inl n \<Rightarrow> Inl n | Inr s1 \<Rightarrow> project_entries fs current es s1)"

lemma project_entry_work:
  "project_entry fs d e s = Inr t \<Longrightarrow>
     ps_own s = Suc (ps_own t) \<and> ps_request s = Suc (ps_request t) \<and> length (ps_pending t) \<le> Suc (length (ps_pending s))"
  by (auto simp: project_entry_def budget_take_def Let_def split: if_splits option.splits)

lemma project_entries_work:
  "project_entries fs d es s = Inr t \<Longrightarrow>
     ps_own s = length es + ps_own t \<and> ps_request s = length es + ps_request t \<and> length (ps_pending t) + 2 * ps_own t \<le> length (ps_pending s) + 2 * ps_own s"
  by (induction es arbitrary: s) (force split: sum.splits dest!: project_entry_work)+

text \<open>The directories pending are a stack; one that cannot be opened is passed over.\<close>

function project_loop :: "file_system \<Rightarrow> project_scan \<Rightarrow> bool \<times> nat" where
  "project_loop fs s =
     (case ps_pending s of
        [] \<Rightarrow> (False, ps_request s)
      | current # rest \<Rightarrow>
          (case fs_readdir fs current of
             None \<Rightarrow> project_loop fs (s\<lparr>ps_pending := rest\<rparr>)
           | Some entries \<Rightarrow>
               (case project_entries fs current entries (s\<lparr>ps_pending := rest\<rparr>) of
                  Inl n \<Rightarrow> (True, n)
                | Inr t \<Rightarrow> project_loop fs t)))"
  by pat_completeness auto
termination
  by (relation "measure (\<lambda>(fs, s). 2 * ps_own s + length (ps_pending s))") (auto dest!: project_entries_work)

declare project_loop.simps [simp del]

definition hasProjectFile :: "file_system \<Rightarrow> string \<Rightarrow> nat \<Rightarrow> bool \<times> nat" where
  "hasProjectFile fs directory request =
     project_loop fs \<lparr>ps_own = MAX_ENTRIES_PER_WORKSPACE, ps_request = request, ps_pending = [directory]\<rparr>"

text \<open>\<open>ld_isDir\<close>: \<open>lstat\<close> succeeds and says directory; \<open>ld_real\<close>: \<open>realpath\<close>, \<open>None\<close> when it fails.\<close>

record listing_env =
  ld_layout :: layout_env
  ld_event :: event_env
  ld_fs :: file_system
  ld_isDir :: "string \<Rightarrow> bool"
  ld_real :: "string \<Rightarrow> string option"

definition managedWorkspaceKey :: "listing_env \<Rightarrow> string \<Rightarrow> string \<Rightarrow> string option" where
  "managedWorkspaceKey env path base =
     (if path = [] \<or> \<not> ld_isDir env path then None
      else (case ld_real env path of
              None \<Rightarrow> None
            | Some resolved \<Rightarrow>
                (let key = node_relative base resolved
                 in if \<not> WORKSPACE_KEY_PATTERN key \<or> node_join base key \<noteq> resolved then None
                    else if suffix (CHR ''/'' # key) (node_resolve (le_cwd (ld_layout env)) path) then Some key else None)))"

datatype workspace_role = RoleEntry | RoleCoordinator | RoleMember

record workspace_out =
  wo_employee :: "string option"
  wo_role :: workspace_role
  wo_removed :: bool
  wo_key :: string
  wo_hasFiles :: bool

record workspaces_out =
  ws_id :: string
  ws_kind :: string
  ws_title :: "string option"
  ws_entry :: "string option"
  ws_coordinator :: "string option"
  ws_updated :: ms
  ws_workspaces :: "workspace_out list"

text \<open>\<open>listOwnedConversationWorkspaces\<close> and \<open>listAllConversationWorkspaces\<close>: a conversation with its participants, removed ones included.\<close>

definition newest_first :: "conversation \<Rightarrow> conversation \<Rightarrow> bool" where
  "newest_first a b \<longleftrightarrow> cv_updated b < cv_updated a \<or> (cv_updated b = cv_updated a \<and> text_le (cv_id b) (cv_id a))"

definition listOwnedConversationWorkspaces :: "string \<Rightarrow> string \<Rightarrow> store \<Rightarrow> (conversation \<times> participant list) list" where
  "listOwnedConversationWorkspaces tenant member s =
     map (\<lambda>c. (c, listConversationParticipants (cv_id c) True s))
       (sort_by newest_first (filter (\<lambda>c. cv_tenant c = Some tenant \<and> cv_member c = Some member) (st_conversations s)))"

definition oldest_first :: "conversation \<Rightarrow> conversation \<Rightarrow> bool" where
  "oldest_first a b \<longleftrightarrow> cv_created a < cv_created b \<or> (cv_created a = cv_created b \<and> text_le (cv_id a) (cv_id b))"

definition listAllConversationWorkspaces :: "store \<Rightarrow> (conversation \<times> participant list) list" where
  "listAllConversationWorkspaces s =
     map (\<lambda>c. (c, listConversationParticipants (cv_id c) True s)) (sort_by oldest_first (st_conversations s))"

text \<open>The candidates of a conversation, each with its path, and the loop over them.\<close>

definition workspace_candidates :: "conversation \<Rightarrow> participant list \<Rightarrow> (string \<times> string option \<times> workspace_role \<times> bool) list" where
  "workspace_candidates c ps =
     map (\<lambda>p. (pt_workspace p, Some (pt_employee p),
            if pt_role p = Coordinator then RoleCoordinator else if Some (pt_employee p) = cv_entry c then RoleEntry else RoleMember,
            pt_removed p \<noteq> None)) ps
     @ (if cv_workspace c = [] then [] else [(cv_workspace c, cv_entry c, RoleEntry, False)])"

fun list_workspaces :: "listing_env \<Rightarrow> string \<Rightarrow> (string \<times> string option \<times> workspace_role \<times> bool) list \<Rightarrow> string list \<Rightarrow> nat
    \<Rightarrow> workspace_out list \<times> nat" where
  "list_workspaces env base [] seen budget = ([], budget)"
| "list_workspaces env base ((path, employee, role, removed) # rest) seen budget =
     (case managedWorkspaceKey env path base of
        None \<Rightarrow> list_workspaces env base rest seen budget
      | Some key \<Rightarrow>
          if key = [] \<or> key \<in> set seen then list_workspaces env base rest seen budget
          else (case hasProjectFile (ld_fs env) (node_join base key) budget of
                  (found, left) \<Rightarrow>
                    (case list_workspaces env base rest (key # seen) left of
                       (out, final) \<Rightarrow>
                         (\<lparr>wo_employee = employee, wo_role = role, wo_removed = removed, wo_key = key, wo_hasFiles = found\<rparr> # out, final))))"

fun list_conversations :: "listing_env \<Rightarrow> string \<Rightarrow> (conversation \<times> participant list) list \<Rightarrow> nat \<Rightarrow> workspaces_out list \<times> nat" where
  "list_conversations env base [] budget = ([], budget)"
| "list_conversations env base ((c, ps) # rest) budget =
     (case list_workspaces env base (workspace_candidates c ps) [] budget of
        (spaces, left) \<Rightarrow>
          (case list_conversations env base rest left of
             (out, final) \<Rightarrow>
               (if spaces = [] then out
                else \<lparr>ws_id = cv_id c, ws_kind = cv_kind c,
                       ws_title = (if nullish (cv_title c) [] = [] then None else Some (safeText (ld_event env) (nullish (cv_title c) []) 200)),
                       ws_entry = cv_entry c, ws_coordinator = cv_coordinator c, ws_updated = cv_updated c, ws_workspaces = spaces\<rparr> # out,
                final)))"

definition workspaces_list :: "listing_env \<Rightarrow> string \<Rightarrow> string \<Rightarrow> string \<Rightarrow> store \<Rightarrow> workspaces_out list" where
  "workspaces_list env workspaceRoot tenant member s =
     (case ld_real env workspaceRoot of
        None \<Rightarrow> []
      | Some base \<Rightarrow> fst (list_conversations env base (listOwnedConversationWorkspaces tenant member s) MAX_ENTRIES_PER_REQUEST))"

section \<open>What the scan finds\<close>

text \<open>The reference: a non-empty regular file, reached from \<open>d\<close> through directories that are neither hidden nor ignored.\<close>

definition visible_file :: "file_system \<Rightarrow> string \<Rightarrow> string \<times> dirent_kind \<Rightarrow> bool" where
  "visible_file fs d e \<longleftrightarrow>
     snd e = KindFile \<and> \<not> hidden_name (fst e) \<and> (\<exists>bytes mtime. fs_file fs (join_path d (fst e)) = Some (bytes, mtime) \<and> bytes > 0)"

definition visible_dir :: "string \<times> dirent_kind \<Rightarrow> bool" where
  "visible_dir e \<longleftrightarrow> snd e = KindDirectory \<and> \<not> hidden_name (fst e) \<and> fst e \<notin> set IGNORED_DIRECTORIES"

inductive project_under :: "file_system \<Rightarrow> string \<Rightarrow> bool" for fs where
  project_here: "fs_readdir fs d = Some es \<Longrightarrow> e \<in> set es \<Longrightarrow> visible_file fs d e \<Longrightarrow> project_under fs d"
| project_below: "fs_readdir fs d = Some es \<Longrightarrow> e \<in> set es \<Longrightarrow> visible_dir e \<Longrightarrow> project_under fs (join_path d (fst e)) \<Longrightarrow> project_under fs d"

lemma project_unlisted: "fs_readdir fs d = None \<Longrightarrow> \<not> project_under fs d"
  by (subst project_under.simps) simp

lemma project_entry_Inr:
  assumes "project_entry fs d e s = Inr t"
  shows "\<not> visible_file fs d e \<and> ps_pending t = (if visible_dir e then [join_path d (fst e)] else []) @ ps_pending s"
  using assms unfolding project_entry_def visible_file_def visible_dir_def
  by (auto simp: Let_def split: prod.splits bool.splits if_splits option.splits)

lemma project_entries_Inr:
  "project_entries fs d es s = Inr t \<Longrightarrow>
     (\<forall>e \<in> set es. \<not> visible_file fs d e) \<and> set (ps_pending t) = set (ps_pending s) \<union> (\<lambda>e. join_path d (fst e)) ` Set.filter visible_dir (set es)"
proof (induction es arbitrary: s)
  case (Cons e es)
  then obtain s1 where s1: "project_entry fs d e s = Inr s1" "project_entries fs d es s1 = Inr t" by (auto split: sum.splits)
  from Cons.IH [OF s1(2)] project_entry_Inr [OF s1(1)] show ?case by (auto simp del: split_paired_All split_paired_Ex)
qed auto

lemma project_entry_Inl:
  assumes "project_entry fs d e s = Inl n"
  shows "n \<le> ps_request s \<and> ps_request s - n \<le> ps_own s \<and> (visible_file fs d e \<or> n = 0 \<or> ps_request s - n = ps_own s)"
  using assms unfolding project_entry_def visible_file_def budget_take_def
  by (auto simp: Let_def split: if_splits option.splits)

lemma project_entries_Inl:
  "project_entries fs d es s = Inl n \<Longrightarrow>
     n \<le> ps_request s \<and> ps_request s - n \<le> ps_own s \<and> ((\<exists>e \<in> set es. visible_file fs d e) \<or> n = 0 \<or> ps_request s - n = ps_own s)"
proof (induction es arbitrary: s)
  case (Cons e es)
  show ?case
  proof (cases "project_entry fs d e s")
    case (Inl m)
    with Cons.prems project_entry_Inl [of fs d e s m] show ?thesis by auto
  next
    case (Inr s1)
    with Cons.prems have "project_entries fs d es s1 = Inl n" by simp
    from Cons.IH [OF this] project_entry_work [OF Inr] show ?thesis by auto
  qed
qed simp

definition scan_answer :: "file_system \<Rightarrow> project_scan \<Rightarrow> bool \<times> nat \<Rightarrow> bool" where
  "scan_answer fs s r \<longleftrightarrow>
     snd r \<le> ps_request s \<and> ps_request s - snd r \<le> ps_own s
     \<and> (if fst r then (\<exists>d \<in> set (ps_pending s). project_under fs d) \<or> snd r = 0 \<or> ps_request s - snd r = ps_own s
        else \<forall>d \<in> set (ps_pending s). \<not> project_under fs d)"

lemma scan_answer_found:
  assumes "fs_readdir fs d = Some es" "project_entries fs d es (s\<lparr>ps_pending := rest\<rparr>) = Inl n" "ps_pending s = d # rest"
  shows "scan_answer fs s (True, n)"
  using project_entries_Inl [OF assms(2)] assms(1, 3) by (auto simp: scan_answer_def intro: project_here)

lemma scan_answer_passed:
  assumes es: "fs_readdir fs d = Some es" and t: "project_entries fs d es (s\<lparr>ps_pending := rest\<rparr>) = Inr t" and pending: "ps_pending s = d # rest"
    and later: "scan_answer fs t r"
  shows "scan_answer fs s r"
proof -
  have "ps_own s = length es + ps_own t" "ps_request s = length es + ps_request t" using project_entries_work [OF t] by simp_all
  moreover have none: "\<forall>e \<in> set es. \<not> visible_file fs d e"
    and new: "set (ps_pending t) = set rest \<union> (\<lambda>e. join_path d (fst e)) ` Set.filter visible_dir (set es)" using project_entries_Inr [OF t] by simp_all
  moreover have "project_under fs d \<longleftrightarrow> (\<exists>e \<in> set es. visible_dir e \<and> project_under fs (join_path d (fst e)))"
    by (subst project_under.simps) (use es none in auto)
  ultimately have "(\<exists>x \<in> set (ps_pending t). project_under fs x) \<longleftrightarrow> (\<exists>x \<in> set (ps_pending s). project_under fs x)"
    "ps_own s = length es + ps_own t" "ps_request s = length es + ps_request t" unfolding pending by auto
  with later show ?thesis unfolding scan_answer_def by (cases "fst r") auto
qed

lemma project_loop_answer: "scan_answer fs s (project_loop fs s)"
proof (induction fs s rule: project_loop.induct)
  case (1 fs s)
  show ?case
  proof (cases "ps_pending s")
    case Nil
    then show ?thesis by (subst project_loop.simps) (simp add: scan_answer_def)
  next
    case (Cons d rest)
    show ?thesis
    proof (cases "fs_readdir fs d")
      case None
      with Cons "1.IH"(1) have "scan_answer fs (s\<lparr>ps_pending := rest\<rparr>) (project_loop fs (s\<lparr>ps_pending := rest\<rparr>))" by simp
      with Cons project_unlisted [OF None] have "scan_answer fs s (project_loop fs (s\<lparr>ps_pending := rest\<rparr>))"
        by (auto simp: scan_answer_def split: if_splits)
      with None Cons show ?thesis by (subst project_loop.simps) simp
    next
      case (Some es)
      show ?thesis
      proof (cases "project_entries fs d es (s\<lparr>ps_pending := rest\<rparr>)")
        case (Inl n)
        from scan_answer_found [OF Some Inl Cons] Some Cons Inl show ?thesis by (subst project_loop.simps) simp
      next
        case (Inr t)
        with Some Cons "1.IH"(2) have "scan_answer fs t (project_loop fs t)" by simp
        from scan_answer_passed [OF Some Inr Cons this] Some Cons Inr show ?thesis by (subst project_loop.simps) simp
      qed
    qed
  qed
qed

section \<open>Segments\<close>

definition seg_ok :: "string \<Rightarrow> bool" where
  "seg_ok s \<longleftrightarrow> s \<noteq> [] \<and> s \<noteq> ''.'' \<and> s \<noteq> ''..'' \<and> CHR ''/'' \<notin> set s"

lemma key_segment_ok: "KEY_SEGMENT s \<Longrightarrow> seg_ok s"
proof -
  assume "KEY_SEGMENT s"
  then have "s \<noteq> []" "hd s \<noteq> CHR ''.''" "\<forall>c \<in> set s. key_char c" unfolding KEY_SEGMENT_def list_all_iff by simp_all
  moreover from this have "CHR ''/'' \<notin> set s" by (auto simp: key_char_def)
  ultimately show ?thesis unfolding seg_ok_def by (metis list.sel(1))
qed

lemma js_split_nonempty [simp]: "js_split c s \<noteq> []"
  by (cases s) (simp_all split: list.split)

lemma js_split_append: "js_split c (a @ c # b) = js_split c a @ js_split c b"
proof (induction a)
  case (Cons x a)
  then show ?case by (cases "js_split c a") simp_all
qed simp

lemma js_split_no_sep: "x \<in> set (js_split c s) \<Longrightarrow> c \<notin> set x"
  by (induction s arbitrary: x) (auto split: if_splits list.splits)

lemma js_split_join: "ss \<noteq> [] \<Longrightarrow> list_all (\<lambda>s. CHR ''/'' \<notin> set s) ss \<Longrightarrow> js_split (CHR ''/'') (join_segs ss) = ss"
  by (induction ss rule: join_segs.induct) (auto simp: js_split_none js_split_append)

lemma join_split: "join_segs (js_split (CHR ''/'') s) = s"
proof (induction s)
  case (Cons x s)
  then show ?case by (cases "js_split (CHR ''/'') s" rule: join_segs.cases) simp_all
qed simp

lemma norm_onto_append: "norm_onto acc (xs @ ys) = norm_onto (rev (norm_onto acc xs)) ys"
  by (induction acc xs rule: norm_onto.induct) auto

lemma norm_onto_ok: "list_all seg_ok ss \<Longrightarrow> norm_onto acc ss = rev acc @ ss"
  by (induction ss arbitrary: acc) (auto simp: seg_ok_def)

lemma norm_onto_segs:
  "list_all seg_ok acc \<Longrightarrow> list_all (\<lambda>s. CHR ''/'' \<notin> set s) ss \<Longrightarrow> list_all seg_ok (norm_onto acc ss)"
proof (induction acc ss rule: norm_onto.induct)
  case (2 acc s ss)
  then show ?case by (cases acc) (auto simp: seg_ok_def)
qed (simp add: list_all_iff)

lemma path_segs_ok: "list_all seg_ok (path_segs p)"
  unfolding path_segs_def by (rule norm_onto_segs) (auto simp: list_all_iff dest: js_split_no_sep)

lemma path_segs_append: "path_segs (a @ CHR ''/'' # b) = norm_onto (rev (path_segs a)) (js_split (CHR ''/'') b)"
  by (simp add: path_segs_def js_split_append norm_onto_append)

lemma path_segs_concat: "list_all seg_ok ss \<Longrightarrow> path_segs (concat (map (\<lambda>s. CHR ''/'' # s) ss)) = ss"
proof (induction ss rule: rev_induct)
  case (snoc x ss)
  then have "CHR ''/'' \<notin> set x" "seg_ok x" by (simp_all add: seg_ok_def)
  with snoc show ?case by (simp add: path_segs_append js_split_none norm_onto_ok [of "[x]"] del: norm_onto.simps)
qed (simp add: path_segs_def)

lemma path_segs_render [simp]: "list_all seg_ok ss \<Longrightarrow> path_segs (render_path ss) = ss"
  by (cases "ss = []") (simp_all add: render_path_def path_segs_concat, simp add: path_segs_def)

lemma render_inject: "list_all seg_ok as \<Longrightarrow> list_all seg_ok bs \<Longrightarrow> render_path as = render_path bs \<longleftrightarrow> as = bs"
  by (metis path_segs_render)

lemma node_join_segs:
  assumes "list_all seg_ok (js_split (CHR ''/'') b)"
  shows "node_join a b = render_path (path_segs a @ js_split (CHR ''/'') b)"
  by (simp add: node_join_def path_segs_append norm_onto_ok [OF assms])

lemma node_join_seg: "seg_ok x \<Longrightarrow> node_join a x = render_path (path_segs a @ [x])"
  by (subst node_join_segs) (simp_all add: js_split_none seg_ok_def)

lemma render_snoc: "ss \<noteq> [] \<Longrightarrow> render_path (ss @ ts) = render_path ss @ concat (map (\<lambda>s. CHR ''/'' # s) ts)"
  by (simp add: render_path_def)

lemma strip_common_prefix: "strip_common as (as @ bs) = ([], bs)"
  by (induction as) (cases bs, auto)

lemma strip_common_up: "strip_common as bs = ([], ts) \<Longrightarrow> bs = as @ ts"
  by (induction as bs rule: strip_common.induct) (auto split: if_splits)

lemma concat_join: "ts \<noteq> [] \<Longrightarrow> concat (map (\<lambda>s. CHR ''/'' # s) ts) = CHR ''/'' # join_segs ts"
  by (induction ts rule: join_segs.induct) auto

section \<open>Managed folders\<close>

text \<open>A folder the listing can name: the condition \<open>managedWorkspaceKey\<close> puts on a resolved path.\<close>

definition managed :: "string \<Rightarrow> string \<Rightarrow> bool" where
  "managed base p \<longleftrightarrow> WORKSPACE_KEY_PATTERN (node_relative base p) \<and> node_join base (node_relative base p) = p"

lemma key_pattern_segs: "WORKSPACE_KEY_PATTERN k \<Longrightarrow> list_all seg_ok (js_split (CHR ''/'') k)"
  by (auto simp: WORKSPACE_KEY_PATTERN_def list_all_iff intro: key_segment_ok)

lemma managed_iff:
  "managed base p \<longleftrightarrow> (\<exists>ks. ks \<noteq> [] \<and> length ks \<le> 2 \<and> list_all KEY_SEGMENT ks \<and> p = render_path (path_segs base @ ks))"
proof
  assume "managed base p"
  then have k: "WORKSPACE_KEY_PATTERN (node_relative base p)" "node_join base (node_relative base p) = p" by (auto simp: managed_def)
  let ?ks = "js_split (CHR ''/'') (node_relative base p)"
  from k node_join_segs [OF key_pattern_segs [OF k(1)], of base]
  show "\<exists>ks. ks \<noteq> [] \<and> length ks \<le> 2 \<and> list_all KEY_SEGMENT ks \<and> p = render_path (path_segs base @ ks)"
    by (intro exI [of _ ?ks]) (auto simp: WORKSPACE_KEY_PATTERN_def)
next
  assume "\<exists>ks. ks \<noteq> [] \<and> length ks \<le> 2 \<and> list_all KEY_SEGMENT ks \<and> p = render_path (path_segs base @ ks)"
  then obtain ks where ks: "ks \<noteq> []" "length ks \<le> 2" "list_all KEY_SEGMENT ks" "p = render_path (path_segs base @ ks)" by blast
  from ks(3) have ok: "list_all seg_ok ks" by (auto simp: list_all_iff intro: key_segment_ok)
  then have split: "js_split (CHR ''/'') (join_segs ks) = ks" using ks(1) by (intro js_split_join) (auto simp: list_all_iff seg_ok_def)
  have "path_segs p = path_segs base @ ks" using ok path_segs_ok [of base] by (simp add: ks(4))
  then have rel: "node_relative base p = join_segs ks" by (simp add: node_relative_def strip_common_prefix)
  moreover have "node_join base (join_segs ks) = p" using node_join_segs [of "join_segs ks" base] ok ks(4) by (simp add: split)
  ultimately show "managed base p" using ks(2, 3) by (simp add: managed_def WORKSPACE_KEY_PATTERN_def split)
qed

lemma managed_abs:
  assumes "managed base p"
  shows "path_segs p = path_segs base @ js_split (CHR ''/'') (node_relative base p)" "render_path (path_segs p) = p"
proof -
  let ?ks = "js_split (CHR ''/'') (node_relative base p)"
  from assms have ok: "list_all seg_ok ?ks" by (auto simp: managed_def intro: key_pattern_segs)
  with assms node_join_segs [OF this, of base] have p: "p = render_path (path_segs base @ ?ks)" by (simp add: managed_def)
  have "path_segs (render_path (path_segs base @ ?ks)) = path_segs base @ ?ks" using ok path_segs_ok [of base] by (intro path_segs_render) simp
  with p show "path_segs p = path_segs base @ ?ks" by (metis p)
  with p show "render_path (path_segs p) = p" by metis
qed

lemma managed_resolve: "managed base p \<Longrightarrow> node_resolve cwd p = p"
proof -
  assume m: "managed base p"
  then obtain ks where "ks \<noteq> []" "p = render_path (path_segs base @ ks)" by (auto simp: managed_iff)
  then have "prefix ''/'' p" by (cases "path_segs base"; cases ks) (auto simp: render_path_def)
  with managed_abs(2) [OF m] show ?thesis by (simp only: node_resolve_def if_True)
qed

section \<open>Names are segments\<close>

text \<open>What a cleaned name promises: short, of key characters, without a leading dot.\<close>

definition safe_name :: "string \<Rightarrow> bool" where
  "safe_name s \<longleftrightarrow> s \<noteq> [] \<and> length s \<le> 64 \<and> list_all key_char s \<and> hd s \<noteq> CHR ''.''"

lemma squeeze_facts:
  "s \<noteq> [] \<Longrightarrow> squeeze P s \<noteq> [] \<and> hd (squeeze P s) = (if P (hd s) then CHR ''_'' else hd s)
     \<and> length (squeeze P s) \<le> length s \<and> set (squeeze P s) \<subseteq> insert (CHR ''_'') {c \<in> set s. \<not> P c}"
  by (induction P s rule: squeeze.induct) auto

lemma key_char_underscore [simp]: "key_char (CHR ''_'')" "key_char (CHR ''-'')"
  by (simp_all add: key_char_def is_control_def)

lemma key_char_squeeze: "(\<And>c. \<not> P c \<Longrightarrow> key_char c) \<Longrightarrow> list_all key_char (squeeze P s)"
  using squeeze_facts [of s P] by (cases "s = []") (auto simp: list_all_iff)

lemma key_char_squeeze_more: "list_all key_char s \<Longrightarrow> list_all key_char (squeeze P s)"
  using squeeze_facts [of s P] by (cases "s = []") (auto simp: list_all_iff)

lemma cut_end_prefix: "prefix (rev (dropWhile P (rev s))) s"
  by (metis prefixI rev_append rev_rev_ident takeWhile_dropWhile_id)

lemma hd_prefix: "prefix a b \<Longrightarrow> a \<noteq> [] \<Longrightarrow> hd a = hd b"
  by (auto simp: prefix_def)

lemma trim_start: "s = [] \<or> \<not> js_space (hd s) \<Longrightarrow> prefix (js_trim s) s"
  by (cases s) (auto simp: js_trim_def cut_end_prefix [of js_space "_ # _", simplified])

lemma alnum_key_char: "is_alnum c \<or> c = CHR ''_'' \<or> c = CHR ''-'' \<Longrightarrow> key_char c \<and> c \<noteq> CHR ''.''"
  by (auto simp: is_alnum_def key_char_def is_control_def)

lemma safe_name_prefix: "safe_name s \<Longrightarrow> prefix t s \<Longrightarrow> t \<noteq> [] \<Longrightarrow> safe_name t"
  using set_mono_prefix [of t s] prefix_length_le [of t s] by (auto simp: safe_name_def list_all_iff hd_prefix)

lemma safe_name_squeeze: "safe_name s \<Longrightarrow> safe_name (squeeze P s)"
  using squeeze_facts [of s P] key_char_squeeze_more [of s P] by (auto simp: safe_name_def)

lemma safePathSegment_safe: "safe_name (safePathSegment v f)"
proof -
  define x where "x = dropWhile (\<lambda>c. c = CHR ''.'' \<or> js_space c) (squeeze path_breaking (nullish v []))"
  define y where "y = js_trim (take 64 (js_trim x))"
  define z where "z = take 64 (squeeze (\<lambda>c. \<not> (is_alnum c \<or> c = CHR ''_'' \<or> c = CHR ''-'')) f)"
  have hd_x: "x = [] \<or> (\<not> js_space (hd x) \<and> hd x \<noteq> CHR ''.'')" unfolding x_def using hd_dropWhile by blast
  then have p1: "prefix (js_trim x) x" by (auto intro: trim_start)
  then have p2: "prefix (take 64 (js_trim x)) x" by (meson prefix_order.trans take_is_prefix)
  with hd_x have "take 64 (js_trim x) = [] \<or> \<not> js_space (hd (take 64 (js_trim x)))" using hd_prefix [OF p2] p2 by auto
  then have p3: "prefix y (take 64 (js_trim x))" unfolding y_def by (rule trim_start)
  from prefix_order.trans [OF p3 p2] have "prefix y x" .
  moreover have "list_all key_char x" unfolding x_def
    using key_char_squeeze [of path_breaking "nullish v []"] set_dropWhileD by (fastforce simp: list_all_iff path_breaking_def key_char_def)
  moreover have "length y \<le> 64" using prefix_length_le [OF p3] by simp
  ultimately have "y \<noteq> [] \<Longrightarrow> safe_name y" using hd_x set_mono_prefix [of y x] hd_prefix [of y x] by (auto simp: safe_name_def list_all_iff)
  moreover have "z \<noteq> [] \<Longrightarrow> safe_name z"
  proof -
    assume z: "z \<noteq> []"
    have "\<forall>c \<in> set z. is_alnum c \<or> c = CHR ''_'' \<or> c = CHR ''-''"
      using squeeze_facts [of f "\<lambda>c. \<not> (is_alnum c \<or> c = CHR ''_'' \<or> c = CHR ''-'')"] in_set_takeD z unfolding z_def by (cases "f = []") (auto dest!: in_set_takeD)
    with z have "list_all key_char z" "hd z \<noteq> CHR ''.''" using alnum_key_char hd_in_set [OF z] by (auto simp: list_all_iff)
    with z show ?thesis by (simp add: safe_name_def z_def)
  qed
  moreover have "safe_name ''_''" by (simp add: safe_name_def)
  ultimately show ?thesis by (simp add: safePathSegment_def x_def y_def z_def Let_def)
qed

lemma folderSegment_safe: "safe_name (folderSegment v f)"
proof -
  let ?c = "squeeze shell_hostile (safePathSegment (Some v) f)"
  let ?s = "rev (dropWhile (\<lambda>c. c = CHR ''.'' \<or> js_space c) (rev (take NAME_CHARS ?c)))"
  have "prefix ?s ?c" using cut_end_prefix take_is_prefix prefix_order.trans by blast
  with safe_name_prefix [OF safe_name_squeeze [OF safePathSegment_safe]] safePathSegment_safe show ?thesis
    unfolding folderSegment_def Let_def by (simp del: rev_is_Nil_conv dropWhile_eq_Nil_conv)
qed

lemma base_safe: "safe_name (conversationFolderBase env title name created)"
  unfolding conversationFolderBase_def Let_def by (simp add: folderSegment_safe split: prod.split)

text \<open>The documented form of the digest: lower-case hexadecimal.\<close>

definition hex_digest :: "(string \<Rightarrow> string) \<Rightarrow> bool" where
  "hex_digest h \<longleftrightarrow> (\<forall>x. list_all lower_hex (h x) \<and> length (h x) = 64)"

lemma lower_hex_key: "lower_hex c \<Longrightarrow> key_char c"
  unfolding lower_hex_def is_digit_def key_char_def is_control_def by auto

lemma safe_name_key: "safe_name s \<Longrightarrow> KEY_SEGMENT s"
  by (simp add: safe_name_def KEY_SEGMENT_def)

lemma suffixed_key:
  assumes "safe_name s" "hex_digest (le_sha env)" "n \<le> 24"
  shows "KEY_SEGMENT (s @ ''-'' @ shortId env i n)"
proof -
  have "list_all key_char (shortId env i n)" "length (shortId env i n) \<le> 24" using assms(2, 3) lower_hex_key
    by (auto simp: hex_digest_def shortId_def list_all_iff dest!: in_set_takeD)
  with assms(1) show ?thesis by (simp add: safe_name_def KEY_SEGMENT_def)
qed

lemma first_free_Some: "first_free onDisk taken ps = Some p \<Longrightarrow> p \<in> set ps \<and> \<not> onDisk p \<and> \<not> taken p"
  unfolding first_free_def by (auto dest: find_Some_in)

lemma conversationFolder_Some:
  assumes "conversationFolder env onDisk base name i taken = Some p" "safe_name name" "hex_digest (le_sha env)"
  shows "\<exists>k. KEY_SEGMENT k \<and> p = render_path (path_segs base @ [k]) \<and> \<not> onDisk p \<and> \<not> taken p"
proof -
  from first_free_Some [OF assms(1) [unfolded conversationFolder_def]] obtain n
    where n: "n \<in> set [6, 12, 24]" "p = node_join base (name @ ''-'' @ shortId env i n)" "\<not> onDisk p" "\<not> taken p"
    unfolding set_map by blast
  from n(1) have "n \<le> 24" by auto
  then have k: "KEY_SEGMENT (name @ ''-'' @ shortId env i n)" by (rule suffixed_key [OF assms(2, 3)])
  from node_join_seg [OF key_segment_ok [OF k], of base] k n show ?thesis by blast
qed

lemma employeeFolder_Some:
  assumes "employeeFolder env onDisk dir name i taken = Some p" "hex_digest (le_sha env)"
  shows "\<exists>k. KEY_SEGMENT k \<and> p = render_path (path_segs dir @ [k]) \<and> \<not> onDisk p \<and> \<not> taken p"
proof -
  let ?n = "folderSegment (nullish name []) i"
  from first_free_Some [OF assms(1) [unfolded employeeFolder_def Let_def]] obtain k
    where k: "k = ?n \<or> k = ?n @ ''-'' @ shortId env i 6 \<or> k = ?n @ ''-'' @ shortId env i 24"
      and p: "p = node_join dir k" "\<not> onDisk p" "\<not> taken p" by auto
  have "KEY_SEGMENT k" using k suffixed_key [OF folderSegment_safe assms(2)] safe_name_key [OF folderSegment_safe] by auto
  with node_join_seg [OF key_segment_ok [OF this]] p show ?thesis by blast
qed

lemma dirname_render: "list_all seg_ok ss \<Longrightarrow> node_dirname (render_path ss) = render_path (butlast ss)"
  by (simp add: node_dirname_def)

text \<open>A shared folder of managed paths is a folder directly below the root.\<close>

lemma shared_folder_Some:
  assumes "shared_folder env base paths = Some d" and managed: "\<forall>p \<in> set paths. p = [] \<or> managed base p" and base: "path_segs base \<noteq> []"
  shows "\<exists>k j. KEY_SEGMENT k \<and> KEY_SEGMENT j \<and> d = render_path (path_segs base @ [k]) \<and> render_path (path_segs base @ [k, j]) \<in> set paths"
proof -
  from assms(1) obtain p where p: "p \<in> set paths" "p \<noteq> []" "node_dirname (node_dirname (node_resolve (le_cwd env) p)) = base"
    "d = node_dirname (node_resolve (le_cwd env) p)" unfolding shared_folder_def by (auto dest: find_Some_in)
  from managed p have m: "managed base p" by blast
  then obtain ks where ks: "ks \<noteq> []" "length ks \<le> 2" "list_all KEY_SEGMENT ks" "p = render_path (path_segs base @ ks)" by (auto simp: managed_iff)
  have ok: "list_all seg_ok (path_segs base @ ks)" using path_segs_ok ks(3) by (auto simp: list_all_iff intro: key_segment_ok)
  then have ok': "list_all seg_ok (butlast (path_segs base @ ks))" by (auto simp: list_all_iff dest: in_set_butlastD)
  have up: "node_resolve (le_cwd env) p = p" using m by (rule managed_resolve)
  have "node_dirname (node_dirname p) = render_path (butlast (butlast (path_segs base @ ks)))" using dirname_render [OF ok] dirname_render [OF ok'] by (simp add: ks(4))
  with p(3) up have "path_segs base = path_segs (render_path (butlast (butlast (path_segs base @ ks))))" by simp
  also have "\<dots> = butlast (butlast (path_segs base @ ks))" using ok' by (intro path_segs_render) (auto simp: list_all_iff dest: in_set_butlastD)
  finally have "length (path_segs base) = length (butlast (butlast (path_segs base @ ks)))" by (rule arg_cong)
  then have "length (path_segs base) = length (path_segs base) + length ks - 1 - 1" by (simp only: length_butlast length_append)
  moreover have "n = n + m - 1 - 1 \<Longrightarrow> 0 < n \<Longrightarrow> 0 < m \<Longrightarrow> m \<le> 2 \<Longrightarrow> m = 2" for n m :: nat by arith
  ultimately have "length ks = 2" using ks(1, 2) base by blast
  then obtain k j where kj: "ks = [k, j]" by (auto simp: numeral_2_eq_2 length_Suc_conv)
  moreover have "d = render_path (path_segs base @ [k])" using p(4) up dirname_render [OF ok] by (simp add: ks(4) kj butlast_append)
  ultimately show ?thesis using ks(3, 4) p(1) by auto
qed

section \<open>Properties\<close>

lemma managed_one: "KEY_SEGMENT k \<Longrightarrow> managed base (render_path (path_segs base @ [k]))"
  unfolding managed_iff by (rule exI [of _ "[k]"]) simp

lemma managed_two: "KEY_SEGMENT k \<Longrightarrow> KEY_SEGMENT j \<Longrightarrow> managed base (render_path (path_segs base @ [k, j]))"
  unfolding managed_iff by (rule exI [of _ "[k, j]"]) simp

lemma resolve_segs: "path_segs (node_resolve cwd p) = path_segs (if prefix ''/'' p then p else cwd @ ''/'' @ p)"
  by (simp add: node_resolve_def path_segs_ok)

lemma key_of_managed:
  assumes "managed base p" "path_segs base \<noteq> []" "ld_isDir env p" "ld_real env p = Some p"
  shows "managedWorkspaceKey env p base = Some (node_relative base p)"
proof -
  let ?k = "node_relative base p"
  have p: "p = render_path (path_segs base @ js_split (CHR ''/'') ?k)" using managed_abs [OF assms(1)] by metis
  have "p = render_path (path_segs base) @ CHR ''/'' # ?k" using p render_snoc [OF assms(2), of "js_split (CHR ''/'') ?k"]
    by (simp add: concat_join join_split)
  then have "suffix (CHR ''/'' # ?k) p" by (metis suffixI)
  moreover have "p \<noteq> []" using p by (auto simp: render_path_def assms(2))
  moreover have "node_resolve (le_cwd (ld_layout env)) p = p" using assms(1) by (rule managed_resolve)
  ultimately show ?thesis using assms by (simp add: managedWorkspaceKey_def managed_def Let_def)
qed

text \<open>The directory a new member's folder is put in: fresh below the root, or the one its group already has.\<close>

lemma new_folder_managed:
  assumes new: "newWorkspace env onDisk cwdRoot c (Some employee) pv s = Some p" and employee: "employee \<noteq> []"
    and base: "base = node_resolve (le_cwd env) cwdRoot" "path_segs base \<noteq> []" and hash: "hex_digest (le_sha env)"
    and stored: "\<forall>q \<in> set (st_participants s). pt_workspace q = [] \<or> managed base (pt_workspace q)"
  shows "managed base p \<and> \<not> onDisk p \<and> \<not> workspaceInUse p s"
proof -
  define grp where "grp = (cv_kind c = ''group'' \<or> nullish (cv_coordinator c) [] \<noteq> [])"
  define paths where "paths = map pt_workspace (if grp then listConversationParticipants (cv_id c) True s else [])"
  have paths: "\<forall>q \<in> set paths. q = [] \<or> managed base q" using stored by (auto simp: paths_def listConversationParticipants_def)
  have plain: "paths = []" if "\<not> grp" using that by (simp add: paths_def)
  obtain d name where d: "shared_folder env base paths = Some d
      \<or> (shared_folder env base paths = None \<and> safe_name name \<and> conversationFolder env onDisk base name (cv_id c) (\<lambda>p. workspaceInUse p s) = Some d)"
    and p: "if grp then \<exists>shown. employeeFolder env onDisk d shown employee (\<lambda>p. workspaceInUse p s) = Some p else p = d"
    using new employee unfolding newWorkspace_def Let_def base(1) [symmetric] grp_def [symmetric] paths_def [symmetric]
    by (auto split: option.splits if_splits intro: base_safe)
  from d have dir: "(\<exists>k. KEY_SEGMENT k \<and> d = render_path (path_segs base @ [k])) \<and> (paths = [] \<longrightarrow> \<not> onDisk d \<and> \<not> workspaceInUse d s)"
  proof (rule disjE)
    assume "shared_folder env base paths = Some d"
    with shared_folder_Some [OF this paths base(2)] show ?thesis by (auto simp: shared_folder_def)
  next
    assume "shared_folder env base paths = None \<and> safe_name name \<and> conversationFolder env onDisk base name (cv_id c) (\<lambda>p. workspaceInUse p s) = Some d"
    with conversationFolder_Some [OF _ _ hash, of onDisk base name "cv_id c" "\<lambda>p. workspaceInUse p s" d] show ?thesis by blast
  qed
  show ?thesis
  proof (cases grp)
    case True
    from dir obtain k where k: "KEY_SEGMENT k" "d = render_path (path_segs base @ [k])" by blast
    have "path_segs d = path_segs base @ [k]" using k path_segs_ok [of base] by (simp add: key_segment_ok)
    moreover from True p obtain shown where "employeeFolder env onDisk d shown employee (\<lambda>p. workspaceInUse p s) = Some p" by auto
    ultimately show ?thesis using employeeFolder_Some [OF _ hash] managed_two [OF k(1)] by fastforce
  next
    case False
    with p plain dir managed_one show ?thesis by auto
  qed
qed

text \<open>What leaves the Agent in a listing: valid keys, each once per conversation, of folders that are real directories.\<close>

lemma listed_key: "managedWorkspaceKey env path base = Some key \<Longrightarrow> WORKSPACE_KEY_PATTERN key \<and> ld_isDir env path \<and> ld_real env path = Some (node_join base key)"
  by (auto simp: managedWorkspaceKey_def Let_def split: if_splits option.splits)

lemma list_workspaces_keys:
  "list_workspaces env base cs seen budget = (out, left) \<Longrightarrow>
     distinct (map wo_key out) \<and> wo_key ` set out \<inter> set seen = {} \<and> (\<forall>w \<in> set out. WORKSPACE_KEY_PATTERN (wo_key w))"
proof (induction env base cs seen budget arbitrary: out left rule: list_workspaces.induct)
  case (2 env base path employee role removed rest seen budget)
  show ?case
  proof (cases "\<exists>key. managedWorkspaceKey env path base = Some key \<and> key \<noteq> [] \<and> key \<notin> set seen")
    case True
    then obtain key found n out' left' where key: "managedWorkspaceKey env path base = Some key" "key \<noteq> []" "key \<notin> set seen"
      and n: "hasProjectFile (ld_fs env) (node_join base key) budget = (found, n)"
      and rest: "list_workspaces env base rest (key # seen) n = (out', left')"
      and out: "out = \<lparr>wo_employee = employee, wo_role = role, wo_removed = removed, wo_key = key, wo_hasFiles = found\<rparr> # out'"
      using "2.prems" by (auto split: prod.splits)
    from "2.IH"(3) [OF key(1) _ n [symmetric] rest] key listed_key [OF key(1)] out show ?thesis by auto
  next
    case False
    with "2.IH"(1, 2) "2.prems" show ?thesis by (auto split: option.splits if_splits)
  qed
qed simp

lemma list_conversations_keys:
  "list_conversations env base cs budget = (out, left) \<Longrightarrow> ws \<in> set out \<Longrightarrow>
     ws_workspaces ws \<noteq> [] \<and> distinct (map wo_key (ws_workspaces ws)) \<and> (\<forall>w \<in> set (ws_workspaces ws). WORKSPACE_KEY_PATTERN (wo_key w))"
proof (induction env base cs budget arbitrary: out left rule: list_conversations.induct)
  case (2 env base c ps rest budget)
  obtain spaces n where here: "list_workspaces env base (workspace_candidates c ps) [] budget = (spaces, n)" by fastforce
  obtain out' n' where later: "list_conversations env base rest n = (out', n')" by fastforce
  show ?case
  proof (cases "ws \<in> set out'")
    case True
    with "2.IH" [OF here [symmetric] later] show ?thesis by simp
  next
    case False
    with "2.prems" here later have "ws_workspaces ws = spaces \<and> spaces \<noteq> []" by (auto split: if_splits)
    with list_workspaces_keys [OF here] show ?thesis by simp
  qed
qed simp

theorem listing_only_keys:
  assumes "ws \<in> set (workspaces_list env workspaceRoot tenant member s)" "w \<in> set (ws_workspaces ws)"
  shows "WORKSPACE_KEY_PATTERN (wo_key w) \<and> distinct (map wo_key (ws_workspaces ws))"
proof -
  from assms(1) obtain base where "ws \<in> set (fst (list_conversations env base (listOwnedConversationWorkspaces tenant member s) MAX_ENTRIES_PER_REQUEST))"
    by (auto simp: workspaces_list_def split: option.splits)
  from list_conversations_keys [OF prod.collapse [symmetric] this] assms(2) show ?thesis by blast
qed

text \<open>(C20) A new working folder has a name of its own that the workbench can list: whatever the title of the conversation and the names
  of the employees, the folder is not on disk and no conversation, member or pending move uses it or a folder inside it; once it
  exists as a real directory, the listing shows it under a key of one or two plain segments that leads back to it.\<close>

theorem new_workspace_listable:
  assumes "newWorkspace (ld_layout env) onDisk cwdRoot c (Some employee) pv s = Some p" "employee \<noteq> []"
    and "base = node_resolve (le_cwd (ld_layout env)) cwdRoot" "path_segs base \<noteq> []" and "hex_digest (le_sha (ld_layout env))"
    and "\<forall>q \<in> set (st_participants s). pt_workspace q = [] \<or> managed base (pt_workspace q)"
    and "ld_isDir env p" "ld_real env p = Some p"
  shows "\<not> onDisk p \<and> \<not> workspaceInUse p s
    \<and> (\<exists>key. managedWorkspaceKey env p base = Some key \<and> WORKSPACE_KEY_PATTERN key \<and> node_join base key = p)"
  using new_folder_managed [OF assms(1-6)] key_of_managed [OF _ assms(4, 7, 8)] by (auto simp: managed_def)

definition demo_layout :: layout_env where
  "demo_layout = \<lparr>le_sha = (\<lambda>_. replicate 64 (CHR ''a'')), le_untitled = ''Chat'', le_day = (\<lambda>_. (2026, 0, 5)), le_now = 0, le_cwd = ''/''\<rparr>"

definition demo_listing_env :: listing_env where
  "demo_listing_env = \<lparr>ld_layout = demo_layout, ld_event = demo_event_env, ld_fs = demo_files, ld_isDir = (\<lambda>_. True), ld_real = Some\<rparr>"

definition demo_titled :: conversation where
  "demo_titled = \<lparr> cv_id = ''c1'', cv_sessionFile = [], cv_workspace = [], cv_title = Some '' a/b? '', cv_description = None, cv_orchestration = None,
     cv_kind = ''group'', cv_labels = [], cv_state = Active, cv_entry = None, cv_coordinator = None, cv_solution = None, cv_tenant = Some ''t'',
     cv_member = Some ''m'', cv_schedule = None, cv_generation = 0, cv_permission = ReadOnly, cv_lastRead = None, cv_created = 0, cv_updated = 0 \<rparr>"

lemma demo_hash: "hex_digest (le_sha demo_layout)"
  by (simp add: hex_digest_def demo_layout_def lower_hex_def list_all_iff)

lemma demo_short: "shortId demo_layout i 6 = ''aaaaaa''"
  by (simp add: shortId_def demo_layout_def numeral_eq_Suc)

lemma demo_base: "node_resolve ''/'' ''/w'' = ''/w''" "path_segs ''/w'' = [''w'']"
  by (simp_all add: node_resolve_def path_segs_def render_path_def)

lemma demo_name_segments: "folderSegment ''a/b?'' f = ''a_b_''" "folderSegment [] ''e1'' = ''e1''"
  by (simp_all add: folderSegment_def safePathSegment_def NAME_CHARS_def js_trim_def js_space_def path_breaking_def is_control_def shell_hostile_def is_alnum_def Let_def)

definition demo_projections :: projections where
  "demo_projections = \<lparr>pv_experts = [], pv_solutions = [], pv_snapshots = [], pv_avatars = []\<rparr>"

lemma demo_titled_name: "conversationFolderBase demo_layout (cv_title demo_titled) shown created = ''a_b_''"
  by (simp add: conversationFolderBase_def demo_titled_def js_trim_def js_space_def demo_name_segments)

lemma demo_new_workspace:
  "newWorkspace demo_layout (\<lambda>_. False) ''/w'' demo_titled (Some ''e1'') demo_projections store_init = Some ''/w/a_b_-aaaaaa/e1''"
proof -
  have cwd: "le_cwd demo_layout = ''/''" by (simp add: demo_layout_def)
  have folder: "conversationFolder demo_layout (\<lambda>_. False) ''/w'' ''a_b_'' i (\<lambda>p. workspaceInUse p store_init) = Some ''/w/a_b_-aaaaaa''" for i
    by (simp add: conversationFolder_def first_free_def workspaceInUse_def store_init_def demo_short node_join_def path_segs_def render_path_def)
  have "employeeFolder demo_layout (\<lambda>_. False) ''/w/a_b_-aaaaaa'' None ''e1'' (\<lambda>p. workspaceInUse p store_init) = Some ''/w/a_b_-aaaaaa/e1''"
    by (simp add: employeeFolder_def first_free_def workspaceInUse_def store_init_def demo_name_segments node_join_def path_segs_def render_path_def)
  moreover have "cv_kind demo_titled = ''group''" "cv_coordinator demo_titled = None" "cv_entry demo_titled = None" by (simp_all add: demo_titled_def)
  ultimately show ?thesis
    by (simp add: newWorkspace_def cwd demo_base folder demo_titled_name listConversationParticipants_def store_init_def [THEN arg_cong [where f = st_participants]]
        shared_folder_def sort_by_def listLoadedExperts_def listed_experts_def demo_projections_def expert_display_def Let_def)
qed

theorem new_workspace_listable_witness:
  "newWorkspace demo_layout (\<lambda>_. False) ''/w'' demo_titled (Some ''e1'') demo_projections store_init = Some ''/w/a_b_-aaaaaa/e1''
   \<and> (\<exists>key. managedWorkspaceKey demo_listing_env ''/w/a_b_-aaaaaa/e1'' ''/w'' = Some key \<and> node_join ''/w'' key = ''/w/a_b_-aaaaaa/e1'')"
proof -
  have "ld_layout demo_listing_env = demo_layout" "le_cwd demo_layout = ''/''" by (simp_all add: demo_listing_env_def demo_layout_def)
  with new_workspace_listable [of demo_listing_env "\<lambda>_. False" "''/w''" demo_titled "''e1''" demo_projections store_init "''/w/a_b_-aaaaaa/e1''" "''/w''"]
    demo_new_workspace demo_hash demo_base
  show ?thesis by (auto simp: demo_listing_env_def store_init_def)
qed

text \<open>(C14) The scan for project files ends, spends at most 2000 entries of a folder and never more than the request has left, and a
  negative answer is exact: no non-empty regular file outside hidden and dependency directories.  A positive answer names a real
  project unless one of the two budgets ran out.\<close>

theorem has_files_negative_exact:
  assumes "hasProjectFile fs directory request = (found, left)"
  shows "left \<le> request \<and> request - left \<le> 2000
    \<and> (\<not> found \<longrightarrow> \<not> project_under fs directory)
    \<and> (found \<longrightarrow> project_under fs directory \<or> left = 0 \<or> request - left = 2000)"
  using project_loop_answer [of fs "\<lparr>ps_own = MAX_ENTRIES_PER_WORKSPACE, ps_request = request, ps_pending = [directory]\<rparr>"] assms
  unfolding hasProjectFile_def by (simp add: scan_answer_def MAX_ENTRIES_PER_WORKSPACE_def split: if_splits)

lemma demo_project_scan: "hasProjectFile demo_files ''/w/sub'' 20000 = (True, 19999)"
  by (simp add: hasProjectFile_def project_loop.simps [of demo_files] demo_listing project_entry_def budget_take_def hidden_name_def
      MAX_ENTRIES_PER_WORKSPACE_def Let_def)

lemma demo_empty_scan: "hasProjectFile demo_files ''/none'' 20000 = (False, 20000)"
proof -
  have "fs_readdir demo_files ''/none'' = None" by (simp add: demo_files_def)
  then show ?thesis by (simp add: hasProjectFile_def project_loop.simps [of demo_files])
qed

theorem has_files_negative_exact_witness:
  "hasProjectFile demo_files ''/none'' 20000 = (False, 20000) \<and> \<not> project_under demo_files ''/none''
   \<and> hasProjectFile demo_files ''/w/sub'' 20000 = (True, 19999) \<and> project_under demo_files ''/w/sub''"
  using has_files_negative_exact [OF demo_empty_scan] has_files_negative_exact [OF demo_project_scan] demo_empty_scan demo_project_scan by simp

end
