(* ===== verification/Workspace_Migration.thy ===== *)
theory Workspace_Migration
  imports Workspace_Layout
begin

text \<open>
  \<open>services/workspace-migration.ts\<close>: the move of the folders of older builds to conversation-named ones,
  at start-up and before any session.  The disk maps absolute paths to nodes; a symbolic link names its
  final target and no parent of a path is a link.  A start is the sequence of the states it goes through,
  one per change of the disk or of the database: a crash leaves any of them, and the next start begins
  there.  \<open>me_refuses\<close> says for which targets the system refuses a directory or a rename.
\<close>

section \<open>The disk\<close>

type_synonym disk = "string \<Rightarrow> disk_node option"

record migration_env =
  me_layout :: layout_env
  me_root :: string
  me_agentDir :: string
  me_refuses :: "string \<Rightarrow> bool"
  me_projections :: projections
  me_clock :: "string \<Rightarrow> ms"

record migration =
  mg_store :: store
  mg_disk :: disk

definition disk_exists :: "disk \<Rightarrow> string \<Rightarrow> bool" where
  "disk_exists d p = (case d p of None \<Rightarrow> False | Some (DLink q) \<Rightarrow> d q \<noteq> None | Some _ \<Rightarrow> True)"

definition path_ancestors :: "string \<Rightarrow> string list" where
  "path_ancestors p = filter (\<lambda>q. q \<noteq> [] \<and> path_within q p) (prefixes p)"

text \<open>\<open>mkdirSync\<close> with \<open>recursive\<close>; \<open>None\<close> when it throws.\<close>

definition make_dirs :: "migration_env \<Rightarrow> disk \<Rightarrow> string \<Rightarrow> disk option" where
  "make_dirs env d p =
     (if me_refuses env p \<or> list_ex (\<lambda>q. d q \<noteq> None \<and> d q \<noteq> Some DDir) (path_ancestors p) then None
      else Some (\<lambda>q. if q \<in> set (path_ancestors p) then Some DDir else d q))"

text \<open>
  \<open>renameSync\<close> onto a target that \<open>existsSync\<close> does not see: absent, or a link to nothing, which only a
  source that is no directory may replace.
\<close>

definition rename_tree :: "migration_env \<Rightarrow> disk \<Rightarrow> string \<Rightarrow> string \<Rightarrow> disk option" where
  "rename_tree env d a b =
     (if d a = None \<or> me_refuses env b \<or> d (node_dirname b) \<noteq> Some DDir \<or> path_within a b \<or> disk_exists d b
         \<or> (d b \<noteq> None \<and> d a = Some DDir) then None
      else Some (\<lambda>p. if path_within b p then d (a @ drop (length b) p) else if path_within a p then None else d p))"

section \<open>One move\<close>

definition hindsight_root :: "migration_env \<Rightarrow> string" where
  "hindsight_root env = node_join (me_agentDir env) ''hindsight''"

definition hindsightStateDir :: "migration_env \<Rightarrow> string \<Rightarrow> string" where
  "hindsightStateDir env workspace =
     node_join (hindsight_root env) (take 32 (le_sha (me_layout env) (node_resolve (le_cwd (me_layout env)) workspace)))"

text \<open>The part after the folder itself is in place; the list holds the states after each change.\<close>

definition commit_move :: "string \<Rightarrow> string \<Rightarrow> migration \<Rightarrow> migration" where
  "commit_move oldPath newPath s = s\<lparr>mg_store := finishWorkspaceMove oldPath newPath (mg_store s)\<rparr>"

definition finish_state :: "migration_env \<Rightarrow> string \<Rightarrow> string \<Rightarrow> migration \<Rightarrow> bool \<times> migration list" where
  "finish_state env oldPath newPath s =
     (let fromState = hindsightStateDir env oldPath; toState = hindsightStateDir env newPath
      in if disk_exists (mg_disk s) fromState \<and> \<not> disk_exists (mg_disk s) toState
         then (case rename_tree env (mg_disk s) fromState toState of
                 None \<Rightarrow> (False, [])
               | Some d \<Rightarrow> (True, [s\<lparr>mg_disk := d\<rparr>, commit_move oldPath newPath (s\<lparr>mg_disk := d\<rparr>)]))
         else (True, [commit_move oldPath newPath s]))"

definition finishMove :: "migration_env \<Rightarrow> string \<Rightarrow> string \<Rightarrow> migration \<Rightarrow> bool \<times> migration list" where
  "finishMove env oldPath newPath s =
     (case mg_disk s oldPath of
        None \<Rightarrow> finish_state env oldPath newPath s
      | Some DDir \<Rightarrow>
          if disk_exists (mg_disk s) newPath then (False, [])
          else (case make_dirs env (mg_disk s) (node_dirname newPath) of
                  None \<Rightarrow> (False, [])
                | Some d1 \<Rightarrow>
                    (case rename_tree env d1 oldPath newPath of
                       None \<Rightarrow> (False, [s\<lparr>mg_disk := d1\<rparr>])
                     | Some d2 \<Rightarrow>
                         (case finish_state env oldPath newPath (s\<lparr>mg_disk := d2\<rparr>) of
                            (ok, later) \<Rightarrow> (ok, s\<lparr>mg_disk := d1\<rparr> # s\<lparr>mg_disk := d2\<rparr> # later))))
      | Some _ \<Rightarrow> (False, []))"

section \<open>The plan\<close>

definition legacy_candidates :: "conversation \<Rightarrow> participant list \<Rightarrow> (string \<times> string option) list" where
  "legacy_candidates c ps = map (\<lambda>p. (pt_workspace p, Some (pt_employee p))) ps @ [(cv_workspace c, cv_entry c)]"

definition legacy_folder :: "migration_env \<Rightarrow> string \<Rightarrow> bool" where
  "legacy_folder env path \<longleftrightarrow>
     node_resolve (le_cwd (me_layout env)) path = node_join (me_root env) (basename path) \<and> LEGACY_WORKSPACE_NAME (basename path)"

definition legacyWorkspaces :: "migration_env \<Rightarrow> conversation \<Rightarrow> participant list \<Rightarrow> string list \<Rightarrow> (string, string option) omap" where
  "legacyWorkspaces env c ps planned =
     fold (\<lambda>(path, employee) m.
         if path = [] \<or> path \<in> set planned \<or> omap_get m path \<noteq> None \<or> \<not> legacy_folder env path then m else omap_set path employee m)
       (legacy_candidates c ps) []"

text \<open>The moves of a group: each folder gets a name no earlier one has chosen; \<open>None\<close> is the error that none is free.\<close>

fun plan_members :: "migration_env \<Rightarrow> fields list \<Rightarrow> string \<Rightarrow> migration \<Rightarrow> (string \<times> string option) list \<Rightarrow> string list \<Rightarrow> (string \<times> string) list option" where
  "plan_members env experts dir s [] chosen = Some []"
| "plan_members env experts dir s ((oldPath, employee) # rest) chosen =
     (case employeeFolder (me_layout env) (disk_exists (mg_disk s)) dir (expert_display experts employee) (nullish employee ''conversation'')
             (\<lambda>p. p \<in> set chosen \<or> workspaceInUse p (mg_store s)) of
        None \<Rightarrow> None
      | Some newPath \<Rightarrow> map_option (Cons (oldPath, newPath)) (plan_members env experts dir s rest (newPath # chosen)))"

definition plan_folder :: "migration_env \<Rightarrow> fields list \<Rightarrow> conversation \<Rightarrow> string option \<Rightarrow> migration \<Rightarrow> string option" where
  "plan_folder env experts c employee s =
     conversationFolder (me_layout env) (disk_exists (mg_disk s)) (me_root env)
       (conversationFolderBase (me_layout env) (cv_title c) (expert_display experts employee) (Some (cv_created c))) (cv_id c)
       (\<lambda>p. workspaceInUse p (mg_store s))"

definition plan :: "migration_env \<Rightarrow> conversation \<Rightarrow> participant list \<Rightarrow> (string, string option) omap \<Rightarrow> migration \<Rightarrow> (string \<times> string) list option" where
  "plan env c ps legacy s =
     (let experts = listLoadedExperts (cv_tenant c) (cv_member c) True (me_projections env)
      in case legacy of
           [] \<Rightarrow> Some []
         | (oldPath, employee) # others \<Rightarrow>
             if cv_kind c \<noteq> ''group'' \<and> cv_coordinator c = None \<and> others = []
             then map_option (\<lambda>newPath. [(oldPath, newPath)]) (plan_folder env experts c employee s)
             else
               (let leader = (case cv_coordinator c of Some i \<Rightarrow> Some i | None \<Rightarrow> (case cv_entry c of Some i \<Rightarrow> Some i | None \<Rightarrow> employee));
                    dir = (case shared_folder (me_layout env) (me_root env) (map pt_workspace ps) of
                             Some d \<Rightarrow> Some d
                           | None \<Rightarrow> plan_folder env experts c leader s)
                in case dir of None \<Rightarrow> None | Some d \<Rightarrow> plan_members env experts d s legacy []))"

section \<open>A start\<close>

definition move_le :: "workspace_move \<Rightarrow> workspace_move \<Rightarrow> bool" where
  "move_le a b \<longleftrightarrow> wm_created a < wm_created b \<or> (wm_created a = wm_created b \<and> text_le (wm_old a) (wm_old b))"

definition listWorkspaceMoves :: "store \<Rightarrow> workspace_move list" where
  "listWorkspaceMoves s = sort_by move_le (st_moves s)"

definition plan_conversation :: "migration_env \<Rightarrow> conversation \<times> participant list \<Rightarrow> migration \<Rightarrow> migration" where
  "plan_conversation env cps s =
     (case cps of (c, ps) \<Rightarrow>
        (let legacy = legacyWorkspaces env c ps (map wm_old (listWorkspaceMoves (mg_store s)))
         in if legacy = [] then s
            else (case plan env c ps legacy s of
                    None \<Rightarrow> s
                  | Some moves \<Rightarrow> s\<lparr>mg_store := snd (planWorkspaceMoves moves (me_clock env (cv_id c)) (mg_store s))\<rparr>)))"

fun plan_trace :: "migration_env \<Rightarrow> (conversation \<times> participant list) list \<Rightarrow> migration \<Rightarrow> migration list" where
  "plan_trace env [] s = []"
| "plan_trace env (cps # rest) s = (let t = plan_conversation env cps s in t # plan_trace env rest t)"

fun finish_trace :: "migration_env \<Rightarrow> workspace_move list \<Rightarrow> migration \<Rightarrow> nat \<times> nat \<times> migration list" where
  "finish_trace env [] s = (0, 0, [])"
| "finish_trace env (m # rest) s =
     (case finishMove env (wm_old m) (wm_new m) s of
        (ok, here) \<Rightarrow>
          (case finish_trace env rest (last (s # here)) of
             (moved, pending, later) \<Rightarrow> ((if ok then moved + 1 else moved), (if ok then pending else pending + 1), here @ later)))"

definition migrateWorkspaceLayout :: "migration_env \<Rightarrow> migration \<Rightarrow> nat \<times> nat \<times> migration list" where
  "migrateWorkspaceLayout env s =
     (let planned = plan_trace env (listAllConversationWorkspaces (mg_store s)) s; s1 = last (s # planned)
      in case finish_trace env (listWorkspaceMoves (mg_store s1)) s1 of
           (moved, pending, later) \<Rightarrow> (moved, pending, planned @ later))"

text \<open>A start that ends, or is cut off, in the state \<open>t\<close>.\<close>

inductive start :: "migration_env \<Rightarrow> migration \<Rightarrow> migration \<Rightarrow> bool" for env where
  start_ends: "migrateWorkspaceLayout env s = (moved, pending, states) \<Longrightarrow> t \<in> set (s # states) \<Longrightarrow> start env s t"

inductive_simps start_iff: "start env s t"

section \<open>Trees\<close>

text \<open>Every parent of an entry is a directory.\<close>

definition tree_ok :: "disk \<Rightarrow> bool" where
  "tree_ok d \<longleftrightarrow> (\<forall>p q. p \<noteq> [] \<longrightarrow> d (p @ CHR ''/'' # q) \<noteq> None \<longrightarrow> d p = Some DDir)"

lemma tree_okD: "tree_ok d \<Longrightarrow> d (p @ CHR ''/'' # q) \<noteq> None \<Longrightarrow> p \<noteq> [] \<Longrightarrow> d p = Some DDir"
  unfolding tree_ok_def by blast

lemma path_within_refl [simp]: "path_within p p"
  by (simp add: path_within_def)

lemma path_withinE:
  assumes "path_within a p"
  obtains "p = a" | q where "p = a @ CHR ''/'' # q"
  using assms by (auto simp: path_within_def prefix_def)

lemma path_within_sub [simp]: "path_within a (a @ CHR ''/'' # q)"
  by (simp add: path_within_def prefix_def)

lemma path_within_trans: "path_within a b \<Longrightarrow> path_within b c \<Longrightarrow> path_within a c"
  by (auto simp: path_within_def prefix_def)

text \<open>Two paths that contain a common one are comparable.\<close>

lemma path_within_linear:
  assumes "path_within a p" "path_within b p"
  shows "path_within a b \<or> path_within b a"
proof -
  have "prefix (c @ ''/'') (p @ ''/'')" if "path_within c p" for c using that by (elim path_withinE) simp_all
  then have "prefix (a @ ''/'') (p @ ''/'')" "prefix (b @ ''/'') (p @ ''/'')" using assms by blast+
  then have "prefix (a @ ''/'') (b @ ''/'') \<or> prefix (b @ ''/'') (a @ ''/'')" by (meson prefix_same_cases)
  moreover have "path_within x y" if "prefix (x @ ''/'') (y @ ''/'')" for x y
  proof -
    from that obtain z where z: "y @ ''/'' = (x @ ''/'') @ z" by (auto simp: prefix_def)
    show ?thesis
    proof (cases z rule: rev_cases)
      case Nil
      with z show ?thesis by simp
    next
      case (snoc w c)
      with z have "y = x @ CHR ''/'' # w" by simp
      then show ?thesis by simp
    qed
  qed
  ultimately show ?thesis by blast
qed

lemma set_path_ancestors: "q \<in> set (path_ancestors p) \<longleftrightarrow> q \<noteq> [] \<and> path_within q p"
  by (auto simp: path_ancestors_def path_within_def prefix_def)

lemma make_dirs_Some:
  assumes "make_dirs env d p = Some d'"
  shows "d' q = (if q \<noteq> [] \<and> path_within q p then Some DDir else d q)" "q \<noteq> [] \<Longrightarrow> path_within q p \<Longrightarrow> d q = None \<or> d q = Some DDir"
proof -
  from assms have d': "d' = (\<lambda>q. if q \<in> set (path_ancestors p) then Some DDir else d q)" and none: "\<not> list_ex (\<lambda>q. d q \<noteq> None \<and> d q \<noteq> Some DDir) (path_ancestors p)"
    by (auto simp: make_dirs_def split: if_splits)
  show "d' q = (if q \<noteq> [] \<and> path_within q p then Some DDir else d q)" by (simp add: d' set_path_ancestors)
  show "q \<noteq> [] \<Longrightarrow> path_within q p \<Longrightarrow> d q = None \<or> d q = Some DDir" using none by (auto simp: list_ex_iff set_path_ancestors)
qed

lemma make_dirs_keeps: "make_dirs env d p = Some d' \<Longrightarrow> d q = Some n \<Longrightarrow> d' q = Some n"
  using make_dirs_Some(1) [of env d p d' q] make_dirs_Some(2) [of env d p d' q] by auto

lemma make_dirs_tree: "make_dirs env d p = Some d' \<Longrightarrow> tree_ok d \<Longrightarrow> tree_ok d'"
  unfolding tree_ok_def using make_dirs_Some(1) [of env d p d'] path_within_trans by (metis path_within_sub)

lemma rename_Some:
  assumes "rename_tree env d a b = Some d'"
  shows "d a \<noteq> None" "d (node_dirname b) = Some DDir" "\<not> path_within a b" "d b = None \<or> (\<exists>q. d b = Some (DLink q))" "d a = Some DDir \<Longrightarrow> d b = None"
    "d' p = (if path_within b p then d (a @ drop (length b) p) else if path_within a p then None else d p)"
  using assms by (auto simp: rename_tree_def disk_exists_def split: if_splits option.splits disk_node.splits)

lemma rename_below_free:
  assumes "rename_tree env d a b = Some d'" "tree_ok d" "b \<noteq> []"
  shows "d (b @ CHR ''/'' # q) = None"
  using tree_okD [OF assms(2), of b q] assms(3) rename_Some(4) [OF assms(1)] by (cases "d (b @ CHR ''/'' # q)") auto

text \<open>\<open>dirname\<close> of a path in normal form is the longest of its proper parents.\<close>

definition plain_path :: "string \<Rightarrow> bool" where
  "plain_path p \<longleftrightarrow> (\<exists>ss. ss \<noteq> [] \<and> list_all seg_ok ss \<and> p = render_path ss)"

lemma plain_nonempty: "plain_path p \<Longrightarrow> p \<noteq> []"
  by (auto simp: plain_path_def render_path_def neq_Nil_conv)

lemma split_render: "ss \<noteq> [] \<Longrightarrow> list_all seg_ok ss \<Longrightarrow> js_split (CHR ''/'') (render_path ss) = [] # ss"
proof (induction ss rule: rev_induct)
  case (snoc x ss)
  then show ?case by (cases "ss = []") (simp_all add: render_path_def js_split_append js_split_none seg_ok_def)
qed simp

lemma within_render:
  assumes "as \<noteq> []" "bs \<noteq> []" "list_all seg_ok as" "list_all seg_ok bs"
  shows "path_within (render_path as) (render_path bs) \<longleftrightarrow> prefix as bs"
proof
  assume "path_within (render_path as) (render_path bs)"
  then have "prefix (js_split (CHR ''/'') (render_path as)) (js_split (CHR ''/'') (render_path bs))"
    by (elim path_withinE) (simp_all add: js_split_append)
  with assms show "prefix as bs" by (simp add: split_render)
next
  assume "prefix as bs"
  then obtain cs where "bs = as @ cs" by (auto simp: prefix_def)
  with assms show "path_within (render_path as) (render_path bs)" by (cases cs) (simp_all add: render_snoc)
qed

lemma parent_within_dirname:
  assumes "plain_path (p @ CHR ''/'' # r)" "p \<noteq> []"
  shows "path_within p (node_dirname (p @ CHR ''/'' # r)) \<and> plain_path p"
proof -
  from assms(1) obtain ss where ss: "ss \<noteq> []" "list_all seg_ok ss" "p @ CHR ''/'' # r = render_path ss" by (auto simp: plain_path_def)
  have "js_split (CHR ''/'') p @ js_split (CHR ''/'') r = [] # ss" using split_render [OF ss(1, 2)] by (simp add: ss(3) [symmetric] js_split_append)
  then obtain as where as: "js_split (CHR ''/'') p = [] # as" "ss = as @ js_split (CHR ''/'') r" by (cases "js_split (CHR ''/'') p") auto
  have join: "p = join_segs ([] # as)" using join_split [of p] as(1) by simp
  with assms(2) have "as \<noteq> []" by auto
  with join concat_join [OF this] have p: "p = render_path as" by (cases as) (simp_all add: render_path_def)
  have ok: "list_all seg_ok as" using ss(2) as(2) by simp
  have "butlast ss = as @ butlast (js_split (CHR ''/'') r)" by (simp add: as(2) butlast_append)
  moreover have "node_dirname (p @ CHR ''/'' # r) = render_path (butlast ss)" using ss(2) by (simp add: ss(3) dirname_render)
  moreover have "list_all seg_ok (butlast ss)" using ss(2) by (auto simp: list_all_iff dest: in_set_butlastD)
  ultimately show ?thesis using within_render [of as "butlast ss"] \<open>as \<noteq> []\<close> ok p by (auto simp: plain_path_def)
qed

lemma drop_within: "path_within b p \<Longrightarrow> a @ drop (length b) (p @ CHR ''/'' # q) = (a @ drop (length b) p) @ CHR ''/'' # q"
  by (elim path_withinE) simp_all

lemma rename_tree_ok:
  assumes run: "rename_tree env d a b = Some d'" and ok: "tree_ok d" and "a \<noteq> []" and b: "plain_path b"
  shows "tree_ok d'"
  unfolding tree_ok_def
proof (intro allI impI)
  fix p q
  assume p: "p \<noteq> []" and some: "d' (p @ CHR ''/'' # q) \<noteq> None"
  note at = rename_Some(6) [OF run]
  show "d' p = Some DDir"
  proof (cases "path_within b (p @ CHR ''/'' # q)")
    case False
    with some have "\<not> path_within a (p @ CHR ''/'' # q)" "d (p @ CHR ''/'' # q) \<noteq> None" using at by (auto split: if_splits)
    moreover have "\<not> path_within b p" "\<not> path_within a p" using False calculation(1) path_within_trans path_within_sub by blast+
    ultimately show ?thesis using at [of p] tree_okD [OF ok _ p] by simp
  next
    case b_above: True
    show ?thesis
    proof (cases "path_within b p")
      case True
      have "d ((a @ drop (length b) p) @ CHR ''/'' # q) \<noteq> None" using some at b_above drop_within [OF True, of a q] by simp
      from tree_okD [OF ok this] \<open>a \<noteq> []\<close> True at [of p] show ?thesis by simp
    next
      case False
      with path_within_linear [OF b_above path_within_sub] have "path_within p b" by blast
      with False obtain r where r: "b = p @ CHR ''/'' # r" by (elim path_withinE) auto
      have "path_within p (node_dirname b)" using parent_within_dirname b p r by blast
      then have "d p = Some DDir" using rename_Some(2) [OF run] tree_okD [OF ok, of p] p by (elim path_withinE) auto
      moreover have "\<not> path_within a p" using rename_Some(3) [OF run] path_within_trans [OF _ \<open>path_within p b\<close>] by blast
      ultimately show ?thesis using at [of p] False by simp
    qed
  qed
qed

section \<open>Conservation\<close>

text \<open>Every file and directory of \<open>d\<close> is in \<open>d'\<close> at a place of its own.\<close>

definition solid :: "disk \<Rightarrow> string \<Rightarrow> bool" where
  "solid d p \<longleftrightarrow> (case d p of Some (DFile c) \<Rightarrow> True | Some DDir \<Rightarrow> True | _ \<Rightarrow> False)"

definition conserves :: "disk \<Rightarrow> disk \<Rightarrow> bool" where
  "conserves d d' \<longleftrightarrow> (\<exists>f. inj_on f {p. solid d p} \<and> (\<forall>p. solid d p \<longrightarrow> d' (f p) = d p))"

lemma conserves_refl: "conserves d d"
  unfolding conserves_def by (rule exI [of _ id]) simp

lemma conserves_trans:
  assumes "conserves d e" "conserves e g"
  shows "conserves d g"
proof -
  from assms obtain f h where f: "inj_on f {p. solid d p}" "\<And>p. solid d p \<Longrightarrow> e (f p) = d p"
    and h: "inj_on h {p. solid e p}" "\<And>p. solid e p \<Longrightarrow> g (h p) = e p" unfolding conserves_def by auto
  have mid: "solid e (f p)" if "solid d p" for p using that f(2) [OF that] by (simp add: solid_def)
  have "inj_on (h \<circ> f) {p. solid d p}" using f(1) h(1) mid by (intro comp_inj_on) (auto simp: inj_on_def)
  then show ?thesis unfolding conserves_def using f(2) h(2) mid by (intro exI [of _ "h \<circ> f"]) simp
qed

lemma conserves_more: "(\<And>p n. d p = Some n \<Longrightarrow> d' p = Some n) \<Longrightarrow> conserves d d'"
  unfolding conserves_def by (rule exI [of _ id]) (auto simp: solid_def split: option.splits)

lemma rename_keeps_all:
  assumes run: "rename_tree env d a b = Some d'" and ok: "tree_ok d" and b: "b \<noteq> []"
  shows "conserves d d'"
proof -
  define f where "f p = (if path_within a p then b @ drop (length a) p else p)" for p
  have free: "\<not> path_within b p" if "solid d p" for p
  proof
    assume "path_within b p"
    then have "d p = None \<or> (\<exists>q. d p = Some (DLink q))"
      using rename_Some(4) [OF run] rename_below_free [OF run ok b] by (elim path_withinE) auto
    with that show False by (auto simp: solid_def)
  qed
  have there: "a @ drop (length a) p = p \<and> path_within b (b @ drop (length a) p)" if "path_within a p" for p
    using that by (elim path_withinE) simp_all
  have "d' (f p) = d p" if "solid d p" for p
    using there [of p] free [OF that] rename_Some(6) [OF run] by (simp add: f_def)
  moreover have "inj_on f {p. solid d p}"
  proof (rule inj_onI)
    fix p q
    assume pq: "p \<in> {p. solid d p}" "q \<in> {p. solid d p}" "f p = f q"
    show "p = q"
    proof (cases "path_within a p = path_within a q")
      case True
      with pq there show ?thesis by (metis f_def append_eq_append_conv)
    next
      case False
      with pq there free show ?thesis unfolding f_def by (metis mem_Collect_eq)
    qed
  qed
  ultimately show ?thesis unfolding conserves_def by blast
qed

section \<open>A move keeps the tree\<close>

lemma render_plain: "list_all seg_ok ss \<Longrightarrow> ss \<noteq> [] \<Longrightarrow> plain_path (render_path ss)"
  by (auto simp: plain_path_def)

lemma render_snoc_plain: "KEY_SEGMENT k \<Longrightarrow> plain_path (render_path (path_segs p @ [k]))"
  by (rule render_plain) (simp_all add: path_segs_ok key_segment_ok)

lemma hex_segment: "list_all lower_hex h \<Longrightarrow> h \<noteq> [] \<Longrightarrow> seg_ok h"
proof -
  assume h: "list_all lower_hex h" "h \<noteq> []"
  have no: "\<not> lower_hex (CHR ''.'')" "\<not> lower_hex (CHR ''/'')" by (simp_all add: lower_hex_def is_digit_def)
  from h no have "hd h \<noteq> CHR ''.''" "CHR ''/'' \<notin> set h" by (auto simp: list_all_iff dest: hd_in_set)
  with h(2) show ?thesis by (auto simp: seg_ok_def)
qed

definition state_name :: "migration_env \<Rightarrow> string \<Rightarrow> string" where
  "state_name env workspace = take 32 (le_sha (me_layout env) (node_resolve (le_cwd (me_layout env)) workspace))"

lemma state_name_ok: "hex_digest (le_sha (me_layout env)) \<Longrightarrow> seg_ok (state_name env w) \<and> length (state_name env w) = 32"
proof -
  assume hash: "hex_digest (le_sha (me_layout env))"
  let ?h = "le_sha (me_layout env) (node_resolve (le_cwd (me_layout env)) w)"
  from hash have h: "list_all lower_hex ?h" "length ?h = 64" unfolding hex_digest_def by blast+
  then have "list_all lower_hex (take 32 ?h)" "take 32 ?h \<noteq> []" "length (take 32 ?h) = 32" by (auto simp: list_all_iff dest: in_set_takeD)
  then show ?thesis unfolding state_name_def by (simp add: hex_segment)
qed

lemma hindsight_dir:
  assumes "hex_digest (le_sha (me_layout env))"
  shows "hindsightStateDir env w = render_path (path_segs (hindsight_root env) @ [state_name env w])"
  unfolding hindsightStateDir_def state_name_def [symmetric] by (rule node_join_seg) (use state_name_ok [OF assms] in blast)

lemma hindsight_plain: "hex_digest (le_sha (me_layout env)) \<Longrightarrow> plain_path (hindsightStateDir env w)"
  using state_name_ok [of env w] by (auto simp: hindsight_dir path_segs_ok intro: render_plain)

definition keeps_tree :: "disk \<Rightarrow> disk \<Rightarrow> bool" where
  "keeps_tree d d' \<longleftrightarrow> (tree_ok d \<longrightarrow> tree_ok d' \<and> conserves d d')"

lemma keeps_tree_refl: "keeps_tree d d"
  by (simp add: keeps_tree_def conserves_refl)

lemma keeps_tree_trans: "keeps_tree d e \<Longrightarrow> keeps_tree e g \<Longrightarrow> keeps_tree d g"
  by (auto simp: keeps_tree_def intro: conserves_trans)

lemma keeps_tree_mkdirs: "make_dirs env d p = Some d' \<Longrightarrow> keeps_tree d d'"
  by (auto simp: keeps_tree_def make_dirs_tree make_dirs_keeps intro: conserves_more)

lemma keeps_tree_rename: "rename_tree env d a b = Some d' \<Longrightarrow> a \<noteq> [] \<Longrightarrow> plain_path b \<Longrightarrow> keeps_tree d d'"
  by (simp add: keeps_tree_def rename_tree_ok rename_keeps_all plain_nonempty)

text \<open>What a state on the way of a move may be.\<close>

definition on_the_way :: "string \<Rightarrow> string \<Rightarrow> migration \<Rightarrow> migration \<Rightarrow> bool" where
  "on_the_way old new s t \<longleftrightarrow>
     keeps_tree (mg_disk s) (mg_disk t) \<and> (mg_store t = mg_store s \<or> mg_store t = finishWorkspaceMove old new (mg_store s))"

lemma finish_state_way:
  assumes "finish_state env old new s = (ok, tr)" "hex_digest (le_sha (me_layout env))" "t \<in> set tr"
  shows "on_the_way old new s t"
  using assms keeps_tree_rename [of env "mg_disk s" "hindsightStateDir env old" "hindsightStateDir env new"]
    hindsight_plain [OF assms(2)] plain_nonempty [OF hindsight_plain [OF assms(2)]] keeps_tree_refl
  by (auto simp: finish_state_def commit_move_def on_the_way_def Let_def split: if_splits option.splits)

lemma finishMove_way:
  assumes run: "finishMove env old new s = (ok, tr)" and hash: "hex_digest (le_sha (me_layout env))" and "old \<noteq> []" "plain_path new" and t: "t \<in> set tr"
  shows "on_the_way old new s t"
proof (cases "mg_disk s old = None")
  case True
  with run hash t show ?thesis by (auto simp: finishMove_def intro: finish_state_way)
next
  case False
  with run t obtain d1 where d1: "make_dirs env (mg_disk s) (node_dirname new) = Some d1"
    and at: "t = s\<lparr>mg_disk := d1\<rparr> \<or> (\<exists>d2. rename_tree env d1 old new = Some d2
        \<and> (t = s\<lparr>mg_disk := d2\<rparr> \<or> (\<exists>ok later. finish_state env old new (s\<lparr>mg_disk := d2\<rparr>) = (ok, later) \<and> t \<in> set later)))"
    by (auto simp: finishMove_def split: option.splits disk_node.splits if_splits prod.splits)
  note made = keeps_tree_mkdirs [OF d1]
  from at show ?thesis
  proof (elim disjE exE conjE)
    assume "t = s\<lparr>mg_disk := d1\<rparr>"
    with made show ?thesis by (simp add: on_the_way_def)
  next
    fix d2
    assume d2: "rename_tree env d1 old new = Some d2" "t = s\<lparr>mg_disk := d2\<rparr>"
    with keeps_tree_trans [OF made keeps_tree_rename [OF d2(1) assms(3, 4)]] show ?thesis by (simp add: on_the_way_def)
  next
    fix d2 ok' later
    assume d2: "rename_tree env d1 old new = Some d2" and later: "finish_state env old new (s\<lparr>mg_disk := d2\<rparr>) = (ok', later)" "t \<in> set later"
    from finish_state_way [OF later(1) hash later(2)] keeps_tree_trans [OF made keeps_tree_rename [OF d2 assms(3, 4)]]
    show ?thesis by (auto simp: on_the_way_def intro: keeps_tree_trans)
  qed
qed

section \<open>Planning\<close>

definition row_paths :: "store \<Rightarrow> string set" where
  "row_paths st = (cv_workspace ` set (st_conversations st) \<union> pt_workspace ` set (st_participants st)) - {[]}"

definition used_paths :: "store \<Rightarrow> string set" where
  "used_paths st = row_paths st \<union> wm_new ` set (st_moves st)"

lemma in_use_iff: "q \<noteq> [] \<Longrightarrow> workspaceInUse q st \<longleftrightarrow> (\<exists>u \<in> used_paths st. path_within q u)"
  unfolding workspaceInUse_def used_paths_def row_paths_def by (auto simp: path_within_def)

text \<open>
  The invariant of the table of moves: stored and planned paths are folders one or two levels below the
  root, none inside another; a planned path is not stored yet, the path it replaces is.
\<close>

definition layout_ok :: "string \<Rightarrow> store \<Rightarrow> bool" where
  "layout_ok base st \<longleftrightarrow>
     (\<forall>u \<in> used_paths st. managed base u)
     \<and> (\<forall>u \<in> used_paths st. \<forall>v \<in> used_paths st. path_within u v \<longrightarrow> u = v)
     \<and> wm_old ` set (st_moves st) \<subseteq> row_paths st \<and> wm_new ` set (st_moves st) \<inter> row_paths st = {}
     \<and> distinct (map wm_old (st_moves st)) \<and> distinct (map wm_new (st_moves st))"

lemma managed_plain: "managed base u \<Longrightarrow> plain_path u"
  using managed_abs [of base u] path_segs_ok [of u] by (auto simp: plain_path_def intro!: exI [of _ "path_segs u"])

lemma insert_moves_Some:
  "insert_moves ms now mv = Some mv' \<Longrightarrow>
     mv' = mv @ map (\<lambda>m. \<lparr>wm_old = fst m, wm_new = snd m, wm_created = now\<rparr>) ms
     \<and> (distinct (map wm_old mv) \<longrightarrow> distinct (map wm_old mv')) \<and> (distinct (map wm_new mv) \<longrightarrow> distinct (map wm_new mv'))"
proof (induction ms now mv rule: insert_moves.induct)
  case (2 m rest now mv)
  let ?m = "\<lparr>wm_old = fst m, wm_new = snd m, wm_created = now\<rparr>"
  from "2.prems" have new: "\<not> (\<exists>q \<in> set mv. wm_old q = fst m \<or> wm_new q = snd m)" and rest: "insert_moves rest now (mv @ [?m]) = Some mv'"
    by (auto split: if_splits)
  from new have fresh: "distinct (map wm_old mv) \<Longrightarrow> distinct (map wm_old (mv @ [?m]))" "distinct (map wm_new mv) \<Longrightarrow> distinct (map wm_new (mv @ [?m]))" by auto
  from "2.IH" [OF new rest] have "mv' = (mv @ [?m]) @ map (\<lambda>m. \<lparr>wm_old = fst m, wm_new = snd m, wm_created = now\<rparr>) rest"
    "distinct (map wm_old (mv @ [?m])) \<longrightarrow> distinct (map wm_old mv')" "distinct (map wm_new (mv @ [?m])) \<longrightarrow> distinct (map wm_new mv')" by blast+
  with fresh show ?case by simp
qed simp

lemma layout_add:
  assumes ok: "layout_ok base st" and run: "insert_moves ms now (st_moves st) = Some mv"
    and old: "fst ` set ms \<subseteq> row_paths st"
    and new: "\<And>n. n \<in> snd ` set ms \<Longrightarrow> managed base n \<and> \<not> workspaceInUse n st"
    and alone: "\<And>n u. n \<in> snd ` set ms \<Longrightarrow> u \<in> used_paths st \<union> snd ` set ms \<Longrightarrow> path_within u n \<Longrightarrow> u = n"
  shows "layout_ok base (st\<lparr>st_moves := mv\<rparr>)"
proof -
  note mv = insert_moves_Some [OF run]
  have rows: "row_paths (st\<lparr>st_moves := mv\<rparr>) = row_paths st" by (simp add: row_paths_def)
  have news: "wm_new ` set mv = wm_new ` set (st_moves st) \<union> snd ` set ms" and olds: "wm_old ` set mv = wm_old ` set (st_moves st) \<union> fst ` set ms"
    unfolding mv [THEN conjunct1] by (simp_all add: image_Un image_image)
  have used: "used_paths (st\<lparr>st_moves := mv\<rparr>) = used_paths st \<union> snd ` set ms" by (auto simp: used_paths_def rows news)
  have apart: "\<not> path_within n u" if "n \<in> snd ` set ms" "u \<in> used_paths st" for n u
  proof -
    from new [OF that(1)] have "n \<noteq> []" "\<not> workspaceInUse n st" by (auto dest: managed_plain plain_nonempty)
    with that(2) show ?thesis by (simp add: in_use_iff)
  qed
  have chain: "path_within u v \<Longrightarrow> u \<in> used_paths st \<Longrightarrow> v \<in> used_paths st \<Longrightarrow> u = v" for u v using ok unfolding layout_ok_def by blast
  have "path_within u v \<longrightarrow> u = v" if "u \<in> used_paths st \<union> snd ` set ms" "v \<in> used_paths st \<union> snd ` set ms" for u v
    using that chain [of u v] alone [of v u] apart [of u v] by blast
  moreover have "n \<notin> row_paths st" if "n \<in> snd ` set ms" for n using apart [OF that, of n] by (auto simp: used_paths_def)
  then have "snd ` set ms \<inter> row_paths st = {}" by blast
  moreover have "\<forall>u \<in> used_paths st \<union> snd ` set ms. managed base u" using ok new by (auto simp: layout_ok_def)
  moreover have "wm_old ` set (st_moves st) \<subseteq> row_paths st" "wm_new ` set (st_moves st) \<inter> row_paths st = {}"
    "distinct (map wm_old (st_moves st))" "distinct (map wm_new (st_moves st))" using ok by (simp_all add: layout_ok_def)
  ultimately show ?thesis unfolding layout_ok_def used rows using mv [THEN conjunct2] old by (simp add: news olds Int_Un_distrib2)
qed

lemma legacy_in:
  "(path, e) \<in> set (legacyWorkspaces env c ps planned) \<Longrightarrow> path \<noteq> [] \<and> path \<in> insert (cv_workspace c) (pt_workspace ` set ps)"
proof -
  define good where "good = (\<lambda>path. path \<noteq> [] \<and> path \<in> insert (cv_workspace c) (pt_workspace ` set ps))"
  define add where "add = (\<lambda>(path, employee :: string option) (m :: (string, string option) omap).
      if path = [] \<or> path \<in> set planned \<or> omap_get m path \<noteq> None \<or> \<not> legacy_folder env path then m else omap_set path employee m)"
  have "\<forall>(p, e) \<in> set (fold add cs m). good p"
    if "\<forall>(p, e) \<in> set m. good p" "\<forall>(p, e) \<in> set cs. p = [] \<or> good p" for cs m
    using that
  proof (induction cs arbitrary: m)
    case (Cons x cs)
    have "\<forall>(p, e) \<in> set (add x m). good p" using Cons.prems set_omap_set_subset [of "fst x" "snd x" m] by (cases x) (auto simp: add_def)
    with Cons show ?case by simp
  qed simp
  from this [of "[]" "legacy_candidates c ps"]
  have "\<forall>(p, e) \<in> set (legacyWorkspaces env c ps planned). good p" unfolding legacyWorkspaces_def add_def [symmetric] by (auto simp: good_def legacy_candidates_def)
  then show "(path, e) \<in> set (legacyWorkspaces env c ps planned) \<Longrightarrow> ?thesis" by (auto simp: good_def)
qed

lemma plan_members_Some:
  assumes "plan_members env experts dir s legacy chosen = Some ms" "hex_digest (le_sha (me_layout env))"
  shows "fst ` set ms = fst ` set legacy
    \<and> (\<forall>n \<in> snd ` set ms. \<exists>k. KEY_SEGMENT k \<and> n = render_path (path_segs dir @ [k]) \<and> \<not> workspaceInUse n (mg_store s))"
  using assms
proof (induction env experts dir s legacy chosen arbitrary: ms rule: plan_members.induct)
  case (2 env experts dir s old e rest chosen)
  then obtain n ms' where n: "employeeFolder (me_layout env) (disk_exists (mg_disk s)) dir (expert_display experts e) (nullish e ''conversation'')
      (\<lambda>p. p \<in> set chosen \<or> workspaceInUse p (mg_store s)) = Some n"
    and ms': "plan_members env experts dir s rest (n # chosen) = Some ms'" "ms = (old, n) # ms'" by (auto split: option.splits)
  from employeeFolder_Some [OF n "2.prems"(2)] "2.IH" [OF n ms'(1) "2.prems"(2)] ms'(2) show ?case by auto
qed simp

lemma below_base:
  assumes "managed base u" "KEY_SEGMENT k" "KEY_SEGMENT j" "path_within u (render_path (path_segs base @ [k, j]))" "path_segs base \<noteq> []"
  shows "u = render_path (path_segs base @ [k]) \<or> u = render_path (path_segs base @ [k, j])"
proof -
  from assms(1) obtain ks where ks: "ks \<noteq> []" "list_all KEY_SEGMENT ks" "u = render_path (path_segs base @ ks)" by (auto simp: managed_iff)
  have "list_all seg_ok (path_segs base @ ks)" "list_all seg_ok (path_segs base @ [k, j])"
    using path_segs_ok ks(2) assms(2, 3) by (auto simp: list_all_iff key_segment_ok)
  with assms(4, 5) ks have "prefix ks [k, j]" by (simp add: within_render)
  with ks(1) have "ks = [k] \<or> ks = [k, j]" by (auto simp: prefix_def Cons_eq_append_conv)
  with ks(3) show ?thesis by auto
qed

lemma below_base_one:
  assumes "managed base u" "KEY_SEGMENT k" "path_within u (render_path (path_segs base @ [k]))" "path_segs base \<noteq> []"
  shows "u = render_path (path_segs base @ [k])"
proof -
  from assms(1) obtain ks where ks: "ks \<noteq> []" "list_all KEY_SEGMENT ks" "u = render_path (path_segs base @ ks)" by (auto simp: managed_iff)
  have "list_all seg_ok (path_segs base @ ks)" "list_all seg_ok (path_segs base @ [k])"
    using path_segs_ok ks(2) assms(2) by (auto simp: list_all_iff key_segment_ok)
  with assms(3, 4) ks have "prefix ks [k]" by (simp add: within_render)
  with ks(1) have "ks = [k]" by (auto simp: prefix_def Cons_eq_append_conv)
  with ks(3) show ?thesis by auto
qed

lemma render_two_ne: "KEY_SEGMENT k \<Longrightarrow> KEY_SEGMENT j \<Longrightarrow> render_path (path_segs base @ [k]) \<noteq> render_path (path_segs base @ [k, j])"
  using render_inject [of "path_segs base @ [k]" "path_segs base @ [k, j]"] path_segs_ok [of base] by (simp add: key_segment_ok)

text \<open>What the plan of a conversation promises of its new paths.\<close>

definition new_paths_ok :: "string \<Rightarrow> store \<Rightarrow> string set \<Rightarrow> bool" where
  "new_paths_ok base st ns \<longleftrightarrow>
     (\<forall>n \<in> ns. managed base n \<and> \<not> workspaceInUse n st) \<and> (\<forall>n \<in> ns. \<forall>u \<in> used_paths st \<union> ns. path_within u n \<longrightarrow> u = n)"

lemma new_paths_one:
  assumes "layout_ok base st" "path_segs base \<noteq> []" "KEY_SEGMENT k" "n = render_path (path_segs base @ [k])" "\<not> workspaceInUse n st"
  shows "new_paths_ok base st {n}"
  using assms below_base_one [of base _ k] managed_one [of k base] unfolding new_paths_ok_def layout_ok_def by auto

lemma new_paths_members:
  assumes ok: "layout_ok base st" and base: "path_segs base \<noteq> []" and k: "KEY_SEGMENT k" and dir: "dir = render_path (path_segs base @ [k])" "dir \<notin> used_paths st"
    and ns: "\<forall>n \<in> ns. \<exists>j. KEY_SEGMENT j \<and> n = render_path (path_segs dir @ [j]) \<and> \<not> workspaceInUse n st"
  shows "new_paths_ok base st ns"
proof -
  have segs: "path_segs dir = path_segs base @ [k]" using k path_segs_ok [of base] by (simp add: dir(1) key_segment_ok)
  have form: "\<exists>j. KEY_SEGMENT j \<and> n = render_path (path_segs base @ [k, j]) \<and> \<not> workspaceInUse n st \<and> managed base n" if "n \<in> ns" for n
    using ns that managed_two [OF k] by (fastforce simp: segs)
  have "u = n" if n: "n \<in> ns" and u: "u \<in> used_paths st \<union> ns" "path_within u n" for n u
  proof -
    from form [OF n] obtain j where j: "KEY_SEGMENT j" "n = render_path (path_segs base @ [k, j])" by blast
    have "managed base u" using u(1) ok form by (auto simp: layout_ok_def)
    from below_base [OF this k j(1) u(2) [unfolded j(2)] base] have "u = dir \<or> u = n" by (simp add: dir(1) j(2))
    moreover have "dir \<notin> ns" using form render_two_ne [OF k] by (auto simp: dir(1))
    ultimately show ?thesis using u(1) dir(2) by auto
  qed
  with form show ?thesis unfolding new_paths_ok_def by blast
qed

lemma plan_folder_Some:
  assumes "plan_folder env experts c e s = Some d" "hex_digest (le_sha (me_layout env))"
  shows "\<exists>k. KEY_SEGMENT k \<and> d = render_path (path_segs (me_root env) @ [k]) \<and> \<not> workspaceInUse d (mg_store s)"
  using conversationFolder_Some [OF assms(1) [unfolded plan_folder_def] base_safe assms(2)] by blast

lemma unused_path: "\<not> workspaceInUse d st \<Longrightarrow> plain_path d \<Longrightarrow> d \<notin> used_paths st"
  using in_use_iff [of d st] plain_nonempty [of d] by auto

lemma plan_Some:
  assumes run: "plan env c ps legacy s = Some ms" and hash: "hex_digest (le_sha (me_layout env))" and base: "path_segs (me_root env) \<noteq> []"
    and ok: "layout_ok (me_root env) (mg_store s)" and ps: "\<forall>p \<in> set ps. pt_workspace p = [] \<or> pt_workspace p \<in> row_paths (mg_store s)"
  shows "fst ` set ms \<subseteq> fst ` set legacy \<and> new_paths_ok (me_root env) (mg_store s) (snd ` set ms)"
proof (cases legacy)
  case Nil
  with run have "ms = []" by (simp add: plan_def)
  then show ?thesis by (simp add: new_paths_ok_def)
next
  case (Cons x others)
  obtain old e where x: "x = (old, e)" by (cases x)
  show ?thesis
  proof (cases "cv_kind c \<noteq> ''group'' \<and> cv_coordinator c = None \<and> others = []")
    case True
    with run Cons x obtain n experts where n: "plan_folder env experts c e s = Some n" "ms = [(old, n)]" by (auto simp: plan_def Let_def)
    from plan_folder_Some [OF n(1) hash] new_paths_one [OF ok base] n(2) Cons x show ?thesis by auto
  next
    case False
    with run Cons x obtain experts leader d where d: "shared_folder (me_layout env) (me_root env) (map pt_workspace ps) = Some d \<or> plan_folder env experts c leader s = Some d"
      and members: "plan_members env experts d s legacy [] = Some ms" by (auto simp: plan_def Let_def simp del: plan_members.simps split: option.splits if_splits)
    have "\<exists>k. KEY_SEGMENT k \<and> d = render_path (path_segs (me_root env) @ [k]) \<and> d \<notin> used_paths (mg_store s)"
      using d
    proof
      assume "plan_folder env experts c leader s = Some d"
      from plan_folder_Some [OF this hash] show ?thesis by (auto intro: render_snoc_plain dest: unused_path)
    next
      assume shared: "shared_folder (me_layout env) (me_root env) (map pt_workspace ps) = Some d"
      have "\<forall>p \<in> set (map pt_workspace ps). p = [] \<or> managed (me_root env) p" using ps ok by (auto simp: layout_ok_def used_paths_def)
      from shared_folder_Some [OF shared this base] obtain k j where kj: "KEY_SEGMENT k" "KEY_SEGMENT j" "d = render_path (path_segs (me_root env) @ [k])"
        "render_path (path_segs (me_root env) @ [k, j]) \<in> pt_workspace ` set ps" by auto
      let ?p = "render_path (path_segs (me_root env) @ [k, j])"
      have "?p \<noteq> []" using plain_nonempty [OF managed_plain [OF managed_two [OF kj(1, 2)]]] .
      with kj(4) ps have "?p \<in> used_paths (mg_store s)" by (auto simp: used_paths_def)
      moreover have "path_within d ?p" using within_render [of "path_segs (me_root env) @ [k]" "path_segs (me_root env) @ [k, j]"] kj(1, 2) path_segs_ok [of "me_root env"]
        by (simp add: kj(3) key_segment_ok)
      moreover have "d \<noteq> ?p" unfolding kj(3) using kj(1, 2) by (rule render_two_ne)
      moreover have "\<forall>u \<in> used_paths (mg_store s). \<forall>v \<in> used_paths (mg_store s). path_within u v \<longrightarrow> u = v" using ok by (simp add: layout_ok_def)
      ultimately have "d \<notin> used_paths (mg_store s)" by metis
      with kj(1, 3) show ?thesis by blast
    qed
    then obtain k where k: "KEY_SEGMENT k" "d = render_path (path_segs (me_root env) @ [k])" "d \<notin> used_paths (mg_store s)" by blast
    from plan_members_Some [OF members hash] new_paths_members [OF ok base k] show ?thesis by blast
  qed
qed

lemma plan_conversation_ok:
  assumes "hex_digest (le_sha (me_layout env))" "path_segs (me_root env) \<noteq> []" "layout_ok (me_root env) (mg_store s)"
    and rows: "cv_workspace c = [] \<or> cv_workspace c \<in> row_paths (mg_store s)" "\<forall>p \<in> set ps. pt_workspace p = [] \<or> pt_workspace p \<in> row_paths (mg_store s)"
  shows "mg_disk (plan_conversation env (c, ps) s) = mg_disk s \<and> row_paths (mg_store (plan_conversation env (c, ps) s)) = row_paths (mg_store s)
    \<and> layout_ok (me_root env) (mg_store (plan_conversation env (c, ps) s))
    \<and> set (st_moves (mg_store s)) \<subseteq> set (st_moves (mg_store (plan_conversation env (c, ps) s)))"
proof -
  let ?legacy = "legacyWorkspaces env c ps (map wm_old (listWorkspaceMoves (mg_store s)))"
  show ?thesis
  proof (cases "\<exists>ms mv. plan env c ps ?legacy s = Some ms \<and> insert_moves ms (me_clock env (cv_id c)) (st_moves (mg_store s)) = Some mv")
    case False
    with assms(3) show ?thesis by (auto simp: plan_conversation_def planWorkspaceMoves_def Let_def split: option.splits)
  next
    case True
    then obtain ms mv where ms: "plan env c ps ?legacy s = Some ms" and mv: "insert_moves ms (me_clock env (cv_id c)) (st_moves (mg_store s)) = Some mv" by blast
    note planned = plan_Some [OF ms assms(1-3) rows(2)]
    have "fst ` set ?legacy \<subseteq> row_paths (mg_store s)" using rows legacy_in [of _ _ env c ps] by fastforce
    with planned have old: "fst ` set ms \<subseteq> row_paths (mg_store s)" and new: "new_paths_ok (me_root env) (mg_store s) (snd ` set ms)" by blast+
    have "layout_ok (me_root env) ((mg_store s)\<lparr>st_moves := mv\<rparr>)"
      by (rule layout_add [OF assms(3) mv old]) (use new in \<open>auto simp only: new_paths_ok_def\<close>)
    with ms mv assms(3) insert_moves_Some [OF mv] show ?thesis by (auto simp: plan_conversation_def planWorkspaceMoves_def row_paths_def Let_def)
  qed
qed

section \<open>Where the folders are\<close>

text \<open>Each stored folder is on disk, or a recorded move says where it went.\<close>

definition located :: "migration \<Rightarrow> bool" where
  "located s \<longleftrightarrow>
     (\<forall>w \<in> row_paths (mg_store s). mg_disk s w = Some DDir
        \<or> (\<exists>m \<in> set (st_moves (mg_store s)). wm_old m = w \<and> mg_disk s (wm_new m) = Some DDir))"

text \<open>The state directories of the memory service are not among the working folders.\<close>

definition hindsight_apart :: "migration_env \<Rightarrow> bool" where
  "hindsight_apart env \<longleftrightarrow> (\<forall>w. managed (me_root env) w \<longrightarrow> \<not> path_within (hindsight_root env) w)"

lemma row_paths_finish:
  assumes "old \<in> row_paths st" "new \<noteq> []"
  shows "row_paths (finishWorkspaceMove old new st) = insert new (row_paths st - {old})"
proof -
  have old: "old \<noteq> []" using assms(1) by (simp add: row_paths_def)
  define repl where "repl = (\<lambda>w. if w = old then new else w)"
  have cs: "cv_workspace ` set (update_rows (\<lambda>c. cv_workspace c = old) (\<lambda>c. c\<lparr>cv_workspace := new\<rparr>) cs) = repl ` cv_workspace ` set cs" for cs
    unfolding set_update_rows image_image repl_def by (rule image_cong) auto
  have ps: "pt_workspace ` set (update_rows (\<lambda>p. pt_workspace p = old) (\<lambda>p. p\<lparr>pt_workspace := new\<rparr>) ps) = repl ` pt_workspace ` set ps" for ps
    unfolding set_update_rows image_image repl_def by (rule image_cong) auto
  have "row_paths (finishWorkspaceMove old new st)
      = repl ` (cv_workspace ` set (st_conversations st) \<union> pt_workspace ` set (st_participants st)) - {[]}"
    unfolding row_paths_def finishWorkspaceMove_def by (simp add: image_Un cs ps)
  moreover have "repl ` A - {[]} = insert new ((A - {[]}) - {old})" if "old \<in> A" for A
    using that assms(2) old by (auto simp: repl_def)
  ultimately show ?thesis using assms(1) unfolding row_paths_def by simp
qed

lemma moves_finish: "st_moves (finishWorkspaceMove old new st) = filter (\<lambda>m. wm_old m \<noteq> old) (st_moves st)"
  by (simp add: finishWorkspaceMove_def delete_rows_def)

lemma same_old: "layout_ok base st \<Longrightarrow> m \<in> set (st_moves st) \<Longrightarrow> m' \<in> set (st_moves st) \<Longrightarrow> wm_old m' = wm_old m \<Longrightarrow> m' = m"
  by (auto simp: layout_ok_def distinct_map dest: inj_onD)

lemma same_new: "layout_ok base st \<Longrightarrow> m \<in> set (st_moves st) \<Longrightarrow> m' \<in> set (st_moves st) \<Longrightarrow> wm_new m' = wm_new m \<Longrightarrow> m' = m"
  by (auto simp: layout_ok_def distinct_map dest: inj_onD)

lemma move_facts:
  assumes "layout_ok base st" "m \<in> set (st_moves st)"
  shows "wm_old m \<in> row_paths st" "wm_new m \<notin> row_paths st" "wm_old m \<in> used_paths st" "wm_new m \<in> used_paths st" "plain_path (wm_new m)" "wm_old m \<noteq> []"
proof -
  from assms show "wm_old m \<in> row_paths st" "wm_new m \<notin> row_paths st" unfolding layout_ok_def by auto
  then show "wm_old m \<in> used_paths st" "wm_old m \<noteq> []" by (auto simp: used_paths_def row_paths_def)
  from assms(2) show "wm_new m \<in> used_paths st" by (simp add: used_paths_def)
  with assms(1) show "plain_path (wm_new m)" by (auto simp: layout_ok_def intro: managed_plain)
qed

lemma layout_commit:
  assumes ok: "layout_ok base st" and m: "m \<in> set (st_moves st)"
  shows "layout_ok base (finishWorkspaceMove (wm_old m) (wm_new m) st)"
proof -
  let ?st = "finishWorkspaceMove (wm_old m) (wm_new m) st"
  note f = move_facts [OF ok m]
  have rows: "row_paths ?st = insert (wm_new m) (row_paths st - {wm_old m})" by (rule row_paths_finish [OF f(1) plain_nonempty [OF f(5)]])
  have "used_paths ?st \<subseteq> used_paths st" using f(4) by (auto simp: used_paths_def rows moves_finish)
  moreover have "wm_old ` set (st_moves ?st) \<subseteq> row_paths ?st" using ok by (auto simp: layout_ok_def rows moves_finish)
  moreover have "wm_new ` set (st_moves ?st) \<inter> row_paths ?st = {}" using ok same_new [OF ok m] by (auto simp: layout_ok_def rows moves_finish)
  moreover have "\<forall>u \<in> used_paths st. managed base u" "\<forall>u \<in> used_paths st. \<forall>v \<in> used_paths st. path_within u v \<longrightarrow> u = v"
    "distinct (map wm_old (st_moves ?st))" "distinct (map wm_new (st_moves ?st))" using ok by (simp_all add: layout_ok_def moves_finish distinct_map_filter)
  ultimately show ?thesis unfolding layout_ok_def by (meson subsetD)
qed

lemma located_commit:
  assumes ok: "layout_ok base (mg_store s)" and m: "m \<in> set (st_moves (mg_store s))" and at: "located s" and gone: "mg_disk s (wm_old m) = None"
  shows "located (commit_move (wm_old m) (wm_new m) s)"
proof -
  note f = move_facts [OF ok m]
  from at f(1) gone have "mg_disk s (wm_new m) = Some DDir" using same_old [OF ok m] by (fastforce simp: located_def)
  with at show ?thesis unfolding located_def
    by (auto simp: commit_move_def moves_finish row_paths_finish [OF f(1) plain_nonempty [OF f(5)]])
qed

lemma located_disk:
  assumes "located s" "mg_store t = mg_store s" "\<And>u. u \<in> used_paths (mg_store s) \<Longrightarrow> mg_disk s u = Some DDir \<Longrightarrow> mg_disk t u = Some DDir"
  shows "located t"
  using assms unfolding located_def used_paths_def by (metis UnI1 UnI2 image_eqI)

lemma renamed_folder:
  assumes ok: "layout_ok base (mg_store s)" and m: "m \<in> set (st_moves (mg_store s))" and at: "located s"
    and old: "mg_disk s (wm_old m) = Some DDir" and run: "rename_tree env (mg_disk s) (wm_old m) (wm_new m) = Some d"
  shows "located (s\<lparr>mg_disk := d\<rparr>)" "d (wm_old m) = None"
proof -
  note f = move_facts [OF ok m]
  note chain = ok [unfolded layout_ok_def, THEN conjunct2, THEN conjunct1, rule_format]
  have new: "mg_disk s (wm_new m) = None" using rename_Some(5) [OF run old] .
  have differ: "wm_new m \<noteq> wm_old m" using f by auto
  have stay: "d u = Some DDir" if "u \<in> used_paths (mg_store s)" "u \<noteq> wm_old m" "mg_disk s u = Some DDir" for u
    using that chain [OF f(4) that(1)] chain [OF f(3) that(1)] new rename_Some(6) [OF run, of u] by auto
  have there: "d (wm_new m) = Some DDir" using rename_Some(6) [OF run, of "wm_new m"] old by simp
  show "d (wm_old m) = None" using chain [OF f(4) f(3)] differ rename_Some(6) [OF run, of "wm_old m"] by auto
  show "located (s\<lparr>mg_disk := d\<rparr>)"
    unfolding located_def
  proof
    fix w
    assume w: "w \<in> row_paths (mg_store (s\<lparr>mg_disk := d\<rparr>))"
    show "mg_disk (s\<lparr>mg_disk := d\<rparr>) w = Some DDir
      \<or> (\<exists>m \<in> set (st_moves (mg_store (s\<lparr>mg_disk := d\<rparr>))). wm_old m = w \<and> mg_disk (s\<lparr>mg_disk := d\<rparr>) (wm_new m) = Some DDir)"
    proof (cases "w = wm_old m")
      case True
      with m there show ?thesis by auto
    next
      case False
      from w at consider "mg_disk s w = Some DDir"
        | m' where "m' \<in> set (st_moves (mg_store s))" "wm_old m' = w" "mg_disk s (wm_new m') = Some DDir" by (auto simp: located_def)
      then show ?thesis
      proof cases
        case 1
        with False w stay [of w] show ?thesis by (simp add: used_paths_def)
      next
        case 2
        have "wm_new m' \<noteq> wm_old m" using move_facts(2) [OF ok 2(1)] f(1) by auto
        with 2 stay [of "wm_new m'"] move_facts(4) [OF ok 2(1)] show ?thesis by auto
      qed
    qed
  qed
qed

text \<open>Changes below the state directories do not touch a working folder.\<close>

lemma hindsight_within:
  assumes "hex_digest (le_sha (me_layout env))"
  shows "path_within (hindsight_root env) (hindsightStateDir env x)"
proof -
  have ok: "seg_ok ''hindsight''" by (simp add: seg_ok_def)
  then have root: "hindsight_root env = render_path (path_segs (me_agentDir env) @ [''hindsight''])" by (simp add: hindsight_root_def node_join_seg)
  then have "path_segs (hindsight_root env) = path_segs (me_agentDir env) @ [''hindsight'']" using ok path_segs_ok [of "me_agentDir env"] by simp
  with root state_name_ok [OF assms, of x] show ?thesis
    using within_render [of "path_segs (hindsight_root env)" "path_segs (hindsight_root env) @ [state_name env x]"] path_segs_ok [of "hindsight_root env"]
    by (simp add: hindsight_dir [OF assms])
qed

lemma renamed_state:
  assumes "hindsight_apart env" "hex_digest (le_sha (me_layout env))" "managed (me_root env) u"
    and run: "rename_tree env d (hindsightStateDir env v) (hindsightStateDir env w) = Some d'"
  shows "d' u = d u"
proof -
  have "\<not> path_within (hindsight_root env) u" using assms(1, 3) by (simp add: hindsight_apart_def)
  then show ?thesis using rename_Some(6) [OF run, of u] hindsight_within [OF assms(2)] path_within_trans by metis
qed

lemma finish_state_located:
  assumes run: "finish_state env (wm_old m) (wm_new m) s = (ok, tr)" and env: "hindsight_apart env" "hex_digest (le_sha (me_layout env))"
    and layout: "layout_ok (me_root env) (mg_store s)" and m: "m \<in> set (st_moves (mg_store s))" and at: "located s" and gone: "mg_disk s (wm_old m) = None"
    and t: "t \<in> set tr"
  shows "located t"
proof -
  have managed: "managed (me_root env) u" if "u \<in> used_paths (mg_store s)" for u using layout that by (simp add: layout_ok_def)
  show ?thesis
  proof (cases "\<exists>d. rename_tree env (mg_disk s) (hindsightStateDir env (wm_old m)) (hindsightStateDir env (wm_new m)) = Some d \<and> s\<lparr>mg_disk := d\<rparr> \<in> set tr")
    case False
    with run t have "t = commit_move (wm_old m) (wm_new m) s" by (auto simp: finish_state_def Let_def split: if_splits option.splits)
    with located_commit [OF layout m at gone] show ?thesis by simp
  next
    case True
    then obtain d where d: "rename_tree env (mg_disk s) (hindsightStateDir env (wm_old m)) (hindsightStateDir env (wm_new m)) = Some d" by blast
    let ?s = "s\<lparr>mg_disk := d\<rparr>"
    note same = renamed_state [OF env managed d]
    have at': "located ?s" by (rule located_disk [OF at]) (simp_all add: same)
    have "mg_disk ?s (wm_old m) = None" using same [OF move_facts(3) [OF layout m]] gone by simp
    with located_commit [of "me_root env" ?s m] layout m at' have "located (commit_move (wm_old m) (wm_new m) ?s)" by simp
    moreover have "t = commit_move (wm_old m) (wm_new m) s \<or> t = ?s \<or> t = commit_move (wm_old m) (wm_new m) ?s"
      using run t d by (auto simp: finish_state_def Let_def split: if_splits)
    ultimately show ?thesis using at' located_commit [OF layout m at gone] by auto
  qed
qed

lemma finishMove_located:
  assumes run: "finishMove env (wm_old m) (wm_new m) s = (ok, tr)" and env: "hindsight_apart env" "hex_digest (le_sha (me_layout env))"
    and layout: "layout_ok (me_root env) (mg_store s)" and m: "m \<in> set (st_moves (mg_store s))" and at: "located s" and t: "t \<in> set tr"
  shows "located t"
proof (cases "mg_disk s (wm_old m) = None")
  case True
  with run t finish_state_located [OF _ env layout m at True] show ?thesis by (auto simp: finishMove_def)
next
  case False
  with run t obtain d1 where old: "mg_disk s (wm_old m) = Some DDir" and d1: "make_dirs env (mg_disk s) (node_dirname (wm_new m)) = Some d1"
    and way: "t = s\<lparr>mg_disk := d1\<rparr> \<or> (\<exists>d2. rename_tree env d1 (wm_old m) (wm_new m) = Some d2
        \<and> (t = s\<lparr>mg_disk := d2\<rparr> \<or> (\<exists>ok later. finish_state env (wm_old m) (wm_new m) (s\<lparr>mg_disk := d2\<rparr>) = (ok, later) \<and> t \<in> set later)))"
    by (auto simp: finishMove_def split: option.splits disk_node.splits if_splits prod.splits)
  let ?s = "s\<lparr>mg_disk := d1\<rparr>"
  have at1: "located ?s" by (rule located_disk [OF at]) (simp_all add: make_dirs_keeps [OF d1])
  have old1: "mg_disk ?s (wm_old m) = Some DDir" using make_dirs_keeps [OF d1 old] by simp
  have two: "located (s\<lparr>mg_disk := d2\<rparr>) \<and> d2 (wm_old m) = None" if "rename_tree env d1 (wm_old m) (wm_new m) = Some d2" for d2
    using renamed_folder [of "me_root env" ?s m env d2] layout m at1 old1 that by simp
  from way show ?thesis
  proof (elim disjE exE conjE)
    fix d2 ok' later
    assume d2: "rename_tree env d1 (wm_old m) (wm_new m) = Some d2" and later: "finish_state env (wm_old m) (wm_new m) (s\<lparr>mg_disk := d2\<rparr>) = (ok', later)" "t \<in> set later"
    from two [OF d2] show ?thesis by (intro finish_state_located [OF later(1) env _ _ _ _ later(2)]) (use layout m in simp_all)
  qed (use at1 two in auto)
qed

section \<open>A whole start\<close>

definition sound :: "migration_env \<Rightarrow> migration \<Rightarrow> migration \<Rightarrow> bool" where
  "sound env s t \<longleftrightarrow> layout_ok (me_root env) (mg_store t) \<and> keeps_tree (mg_disk s) (mg_disk t) \<and> (located s \<longrightarrow> located t)"

lemma sound_refl: "layout_ok (me_root env) (mg_store s) \<Longrightarrow> sound env s s"
  by (simp add: sound_def keeps_tree_refl)

lemma sound_trans: "sound env s t \<Longrightarrow> sound env t u \<Longrightarrow> sound env s u"
  by (auto simp: sound_def intro: keeps_tree_trans)

lemma finishMove_sound:
  assumes run: "finishMove env (wm_old m) (wm_new m) s = (ok, tr)" and env: "hindsight_apart env" "hex_digest (le_sha (me_layout env))"
    and layout: "layout_ok (me_root env) (mg_store s)" and m: "m \<in> set (st_moves (mg_store s))" and t: "t \<in> set tr"
  shows "sound env s t \<and> set (st_moves (mg_store s)) - {m} \<subseteq> set (st_moves (mg_store t))"
proof -
  note f = move_facts [OF layout m]
  have way: "on_the_way (wm_old m) (wm_new m) s t" by (rule finishMove_way [OF run env(2) f(6, 5) t])
  then have store: "mg_store t = mg_store s \<or> mg_store t = finishWorkspaceMove (wm_old m) (wm_new m) (mg_store s)" by (simp add: on_the_way_def)
  then have "layout_ok (me_root env) (mg_store t)" using layout layout_commit [OF layout m] by auto
  moreover have "set (st_moves (mg_store s)) - {m} \<subseteq> set (st_moves (mg_store t))" using store same_old [OF layout m] by (auto simp: moves_finish)
  ultimately show ?thesis using way finishMove_located [OF run env layout m _ t] by (auto simp: sound_def on_the_way_def)
qed

lemma finish_trace_sound:
  assumes env: "hindsight_apart env" "hex_digest (le_sha (me_layout env))"
  shows "finish_trace env ms s = (moved, pending, tr) \<Longrightarrow> layout_ok (me_root env) (mg_store s) \<Longrightarrow> set ms \<subseteq> set (st_moves (mg_store s)) \<Longrightarrow> distinct ms
    \<Longrightarrow> t \<in> set tr \<Longrightarrow> sound env s t"
proof (induction ms arbitrary: s moved pending tr)
  case (Cons m ms)
  obtain ok here where here: "finishMove env (wm_old m) (wm_new m) s = (ok, here)" by fastforce
  obtain a b later where later: "finish_trace env ms (last (s # here)) = (a, b, later)" by (metis prod_cases3)
  have tr: "tr = here @ later" using Cons.prems(1) here later by (auto split: if_splits)
  have m: "m \<in> set (st_moves (mg_store s))" using Cons.prems(3) by simp
  note step = finishMove_sound [OF here env Cons.prems(2) m]
  have mid: "sound env s (last (s # here)) \<and> set (st_moves (mg_store s)) - {m} \<subseteq> set (st_moves (mg_store (last (s # here))))"
    using step [of "last here"] sound_refl [OF Cons.prems(2)] by (cases "here = []") auto
  have "sound env (last (s # here)) t" if "t \<in> set later"
    using mid Cons.prems(3, 4) by (intro Cons.IH [OF later _ _ _ that]) (auto simp: sound_def)
  with mid step Cons.prems(5) show ?case by (auto simp: tr intro: sound_trans)
qed simp

lemma plan_trace_sound:
  assumes env: "hex_digest (le_sha (me_layout env))" "path_segs (me_root env) \<noteq> []"
  shows "layout_ok (me_root env) (mg_store s)
    \<Longrightarrow> \<forall>(c, ps) \<in> set cpss. insert (cv_workspace c) (pt_workspace ` set ps) \<subseteq> insert [] (row_paths (mg_store s))
    \<Longrightarrow> t \<in> set (plan_trace env cpss s) \<Longrightarrow> sound env s t"
proof (induction cpss arbitrary: s)
  case (Cons cps cpss)
  obtain c ps where cps: "cps = (c, ps)" by (cases cps)
  let ?u = "plan_conversation env cps s"
  have "mg_disk ?u = mg_disk s \<and> row_paths (mg_store ?u) = row_paths (mg_store s) \<and> layout_ok (me_root env) (mg_store ?u)
      \<and> set (st_moves (mg_store s)) \<subseteq> set (st_moves (mg_store ?u))"
    unfolding cps using Cons.prems(1, 2) by (intro plan_conversation_ok [OF env]) (auto simp: cps)
  then have u: "mg_disk ?u = mg_disk s" "row_paths (mg_store ?u) = row_paths (mg_store s)" "layout_ok (me_root env) (mg_store ?u)"
    "set (st_moves (mg_store s)) \<subseteq> set (st_moves (mg_store ?u))" by blast+
  have "located s \<longrightarrow> located ?u" unfolding located_def u(1, 2) using u(4) by blast
  with u have step: "sound env s ?u" by (simp add: sound_def keeps_tree_refl)
  have "sound env ?u t" if "t \<in> set (plan_trace env cpss ?u)" using Cons.prems(2) u that by (intro Cons.IH) auto
  with step Cons.prems(3) show ?case by (auto simp: Let_def intro: sound_trans)
qed simp

lemma listed_rows:
  "(c, ps) \<in> set (listAllConversationWorkspaces st) \<Longrightarrow> insert (cv_workspace c) (pt_workspace ` set ps) \<subseteq> insert [] (row_paths st)"
  by (auto simp: listAllConversationWorkspaces_def listConversationParticipants_def row_paths_def)

lemma start_sound:
  assumes env: "hindsight_apart env" "hex_digest (le_sha (me_layout env))" "path_segs (me_root env) \<noteq> []"
    and layout: "layout_ok (me_root env) (mg_store s)" and run: "start env s t"
  shows "sound env s t"
proof -
  define planned where "planned = plan_trace env (listAllConversationWorkspaces (mg_store s)) s"
  define s1 where "s1 = last (s # planned)"
  obtain a b later where later: "finish_trace env (listWorkspaceMoves (mg_store s1)) s1 = (a, b, later)" by (metis prod_cases3)
  have "migrateWorkspaceLayout env s = (a, b, planned @ later)"
    unfolding migrateWorkspaceLayout_def planned_def [symmetric] Let_def s1_def [symmetric] by (simp only: later prod.case)
  with run have t: "t \<in> set (s # planned @ later)" by (auto simp: start_iff)
  have plan: "sound env s u" if "u \<in> set planned" for u
    using that listed_rows unfolding planned_def by (intro plan_trace_sound [OF env(2, 3) layout]) blast+
  have s1: "sound env s s1" using plan [of s1] sound_refl [OF layout] by (cases "planned = []") (auto simp: s1_def)
  then have ok1: "layout_ok (me_root env) (mg_store s1)" by (simp add: sound_def)
  then have "distinct (listWorkspaceMoves (mg_store s1))" using distinct_sort_by [of id] by (auto simp: listWorkspaceMoves_def layout_ok_def distinct_map)
  then have "sound env s1 u" if "u \<in> set later" for u
    using that by (intro finish_trace_sound [OF env(1, 2) later ok1]) (auto simp: listWorkspaceMoves_def)
  with t plan s1 sound_refl [OF layout] show ?thesis by (auto intro: sound_trans)
qed

lemma starts_sound:
  assumes env: "hindsight_apart env" "hex_digest (le_sha (me_layout env))" "path_segs (me_root env) \<noteq> []"
  shows "steps (start env) s t \<Longrightarrow> layout_ok (me_root env) (mg_store s) \<Longrightarrow> sound env s t"
proof (induction rule: steps.induct)
  case (steps_snoc s t u)
  then have st: "sound env s t" by blast
  then have "layout_ok (me_root env) (mg_store t)" by (simp add: sound_def)
  from sound_trans [OF st start_sound [OF env this steps_snoc.hyps(2)]] show ?case .
qed (rule sound_refl)

text \<open>The invariant of a node over all its starts, with what it takes of its environment.\<close>

definition folders_inv :: "migration_env \<Rightarrow> migration \<Rightarrow> bool" where
  "folders_inv env s \<longleftrightarrow>
     hindsight_apart env \<and> hex_digest (le_sha (me_layout env)) \<and> path_segs (me_root env) \<noteq> [] \<and> layout_ok (me_root env) (mg_store s) \<and> located s"

interpretation migration_starts: invariant_system "folders_inv env" "start env" "folders_inv env" for env
proof unfold_locales
  fix s t
  assume "folders_inv env s" "start env s t"
  with start_sound [of env s t] show "folders_inv env t" by (auto simp: folders_inv_def sound_def)
qed

section \<open>Recovery\<close>

lemma state_dirs_apart:
  assumes "hex_digest (le_sha (me_layout env))" "path_within (hindsightStateDir env v) (hindsightStateDir env w)"
  shows "hindsightStateDir env v = hindsightStateDir env w"
proof -
  let ?h = "path_segs (hindsight_root env)"
  have "list_all seg_ok (?h @ [state_name env v])" "list_all seg_ok (?h @ [state_name env w])"
    using state_name_ok [OF assms(1)] path_segs_ok by simp_all
  with assms within_render [of "?h @ [state_name env v]" "?h @ [state_name env w]"] show ?thesis by (simp add: hindsight_dir)
qed

lemma finish_state_resumes:
  assumes run: "finish_state env old new s = (True, tr)" and hash: "hex_digest (le_sha (me_layout env))"
    and old: "mg_disk s old = None" "\<not> path_within (hindsightStateDir env new) old" and t: "t \<in> set (butlast tr)"
  shows "mg_disk t old = None \<and> (\<exists>tr'. finish_state env old new t = (True, tr') \<and> last tr' = last tr)"
proof -
  let ?from = "hindsightStateDir env old" and ?to = "hindsightStateDir env new"
  from run t obtain d where ex: "disk_exists (mg_disk s) ?from" "\<not> disk_exists (mg_disk s) ?to"
    and d: "rename_tree env (mg_disk s) ?from ?to = Some d" and tr: "tr = [s\<lparr>mg_disk := d\<rparr>, commit_move old new (s\<lparr>mg_disk := d\<rparr>)]"
    by (auto simp: finish_state_def Let_def split: if_splits option.splits)
  from t tr have tt: "t = s\<lparr>mg_disk := d\<rparr>" by simp
  have "\<not> path_within ?to ?from" using state_dirs_apart [OF hash] ex by metis
  then have "d ?from = None" using rename_Some(6) [OF d, of ?from] by simp
  moreover have "d old = None" using old rename_Some(6) [OF d, of old] by simp
  ultimately show ?thesis by (simp add: tt tr finish_state_def disk_exists_def)
qed

lemma make_dirs_again:
  assumes "make_dirs env d p = Some d'"
  shows "make_dirs env d' p = Some d'"
proof -
  have "\<not> me_refuses env p" using assms by (auto simp: make_dirs_def split: if_splits)
  moreover have "d' q = Some DDir" if "q \<in> set (path_ancestors p)" for q using make_dirs_Some(1) [OF assms, of q] that by (simp add: set_path_ancestors)
  ultimately show ?thesis by (auto simp: make_dirs_def list_ex_iff)
qed

lemma finishMove_resumes:
  assumes run: "finishMove env old new s = (True, tr)" and hash: "hex_digest (le_sha (me_layout env))" and tree: "tree_ok (mg_disk s)"
    and new: "new \<noteq> []" and apart: "\<not> path_within (hindsightStateDir env new) old" and t: "t \<in> set (butlast tr)"
  shows "\<exists>tr'. finishMove env old new t = (True, tr') \<and> last tr' = last tr"
proof (cases "mg_disk s old = None")
  case True
  with run have "finish_state env old new s = (True, tr)" by (simp add: finishMove_def)
  from finish_state_resumes [OF this hash True apart t] show ?thesis by (auto simp: finishMove_def)
next
  case False
  with run obtain d1 d2 later where old: "mg_disk s old = Some DDir" and d1: "make_dirs env (mg_disk s) (node_dirname new) = Some d1"
    and d2: "rename_tree env d1 old new = Some d2" and later: "finish_state env old new (s\<lparr>mg_disk := d2\<rparr>) = (True, later)"
    and tr: "tr = s\<lparr>mg_disk := d1\<rparr> # s\<lparr>mg_disk := d2\<rparr> # later"
    by (auto simp: finishMove_def split: option.splits disk_node.splits if_splits prod.splits)
  have some: "later \<noteq> []" using later by (auto simp: finish_state_def Let_def split: if_splits option.splits)
  have old1: "d1 old = Some DDir" using make_dirs_keeps [OF d1 old] .
  have new1: "d1 new = None" using rename_Some(5) [OF d2 old1] .
  have tree1: "tree_ok d1" using make_dirs_tree [OF d1 tree] .
  have "\<not> path_within new old" using old1 new1 tree_okD [OF tree1, of new] new by (auto elim!: path_withinE)
  then have gone: "d2 old = None" using rename_Some(6) [OF d2, of old] by simp
  from t some tr consider "t = s\<lparr>mg_disk := d1\<rparr>" | "t = s\<lparr>mg_disk := d2\<rparr>" | "t \<in> set (butlast later)" by (auto split: if_splits)
  then show ?thesis
  proof cases
    case 1
    have "finishMove env old new t = (True, tr)" using old1 new1 make_dirs_again [OF d1] d2 later by (simp add: 1 finishMove_def disk_exists_def tr)
    then show ?thesis by blast
  next
    case 2
    have "finishMove env old new t = (True, later)" using gone later by (simp add: 2 finishMove_def)
    with some tr show ?thesis by simp
  next
    case 3
    from finish_state_resumes [OF later hash _ apart 3] gone have "mg_disk t old = None" "\<exists>tr'. finish_state env old new t = (True, tr') \<and> last tr' = last later" by auto
    with some tr show ?thesis by (simp add: finishMove_def)
  qed
qed

section \<open>A small disk\<close>

definition demo_old :: string where
  "demo_old = ''/w/conversation-aaaaaaaaaaaaaaaaaaaaaaaa''"

definition demo_new :: string where
  "demo_new = ''/w/a_b_-aaaaaa''"

definition demo_tree :: disk where
  "demo_tree = [''/w'' \<mapsto> DDir, demo_old \<mapsto> DDir, demo_old @ ''/f'' \<mapsto> DFile [7]]"

definition demo_migration_env :: migration_env where
  "demo_migration_env = \<lparr>me_layout = demo_layout, me_root = ''/w'', me_agentDir = ''/a'', me_refuses = (\<lambda>_. False), me_projections = demo_projections, me_clock = (\<lambda>_. 5)\<rparr>"

definition demo_chat :: conversation where
  "demo_chat = demo_titled\<lparr>cv_kind := ''chat'', cv_workspace := demo_old\<rparr>"

definition demo_before :: migration where
  "demo_before = \<lparr>mg_store = store_init\<lparr>st_conversations := [demo_chat]\<rparr>, mg_disk = demo_tree\<rparr>"

definition demo_move :: workspace_move where
  "demo_move = \<lparr>wm_old = demo_old, wm_new = demo_new, wm_created = 5\<rparr>"

definition demo_planned :: migration where
  "demo_planned = demo_before\<lparr>mg_store := (mg_store demo_before)\<lparr>st_moves := [demo_move]\<rparr>\<rparr>"

lemma demo_managed: "managed ''/w'' demo_old" "managed ''/w'' demo_new"
  by (simp_all add: managed_def demo_old_def demo_new_def node_relative_def path_segs_def node_join_def render_path_def WORKSPACE_KEY_PATTERN_def KEY_SEGMENT_def
      key_char_def is_control_def)

lemma demo_rows: "row_paths (mg_store demo_before) = {demo_old}" "row_paths (mg_store demo_planned) = {demo_old}"
  by (simp_all add: row_paths_def demo_before_def demo_planned_def demo_chat_def store_init_def demo_old_def)

lemma demo_moves: "st_moves (mg_store demo_before) = []" "st_moves (mg_store demo_planned) = [demo_move]"
  by (simp_all add: demo_before_def demo_planned_def store_init_def)

lemma demo_layout_ok: "layout_ok ''/w'' (mg_store demo_before)" "layout_ok ''/w'' (mg_store demo_planned)"
proof -
  have "\<not> path_within demo_old demo_new" "\<not> path_within demo_new demo_old" "demo_old \<noteq> demo_new" by (simp_all add: path_within_def demo_old_def demo_new_def)
  then show "layout_ok ''/w'' (mg_store demo_before)" "layout_ok ''/w'' (mg_store demo_planned)"
    using demo_managed by (simp_all add: layout_ok_def used_paths_def demo_rows demo_moves demo_move_def)
qed

lemma parent_cases:
  assumes "p @ CHR ''/'' # q = x"
  shows "p \<in> (\<lambda>n. join_segs (take n (js_split (CHR ''/'') x))) ` set [1..<length (js_split (CHR ''/'') x)]"
proof -
  have x: "js_split (CHR ''/'') x = js_split (CHR ''/'') p @ js_split (CHR ''/'') q" using assms by (auto simp: js_split_append)
  let ?n = "length (js_split (CHR ''/'') p)"
  have "0 < ?n" "0 < length (js_split (CHR ''/'') q)" by simp_all
  moreover have "p = join_segs (take ?n (js_split (CHR ''/'') x))" by (simp add: x join_split)
  ultimately show ?thesis by (intro image_eqI [of _ _ ?n]) (simp_all add: x del: length_greater_0_conv)
qed

lemma demo_tree_ok: "tree_ok demo_tree"
  unfolding tree_ok_def
proof (intro allI impI)
  fix p q
  assume p: "p \<noteq> []" and "demo_tree (p @ CHR ''/'' # q) \<noteq> None"
  then consider "p @ CHR ''/'' # q = ''/w''" | "p @ CHR ''/'' # q = demo_old" | "p @ CHR ''/'' # q = demo_old @ ''/f''"
    by (auto simp: demo_tree_def split: if_splits)
  then show "demo_tree p = Some DDir"
  proof cases
    case 1
    from parent_cases [OF this] p show ?thesis by (auto simp: upt_rec)
  next
    case 2
    from parent_cases [OF this] p show ?thesis by (auto simp: demo_old_def demo_tree_def upt_rec)
  next
    case 3
    from parent_cases [OF this] p show ?thesis by (auto simp: demo_old_def demo_tree_def upt_rec numeral_eq_Suc)
  qed
qed

lemma demo_env_ok: "hindsight_apart demo_migration_env" "hex_digest (le_sha (me_layout demo_migration_env))" "me_root demo_migration_env = ''/w''" "path_segs ''/w'' \<noteq> []"
proof -
  have "hindsight_root demo_migration_env = ''/a/hindsight''" by (simp add: hindsight_root_def demo_migration_env_def node_join_def path_segs_def render_path_def)
  moreover have "\<not> path_within ''/a/hindsight'' w" if "managed ''/w'' w" for w
  proof -
    from that obtain ks where "w = render_path (''w'' # ks)" by (auto simp: managed_iff demo_base)
    then show ?thesis by (auto simp: render_path_def path_within_def)
  qed
  ultimately show "hindsight_apart demo_migration_env" by (simp add: hindsight_apart_def demo_migration_env_def)
qed (use demo_hash demo_base in \<open>simp_all add: demo_migration_env_def\<close>)

lemma demo_legacy: "legacyWorkspaces demo_migration_env demo_chat [] [] = [(demo_old, None)]"
proof -
  have "legacy_folder demo_migration_env demo_old"
    by (simp add: legacy_folder_def demo_migration_env_def demo_layout_def demo_old_def node_resolve_def path_segs_def render_path_def node_join_def basename_def
        LEGACY_WORKSPACE_NAME_def lower_hex_def)
  moreover have "cv_workspace demo_chat = demo_old" "cv_entry demo_chat = None" "demo_old \<noteq> []" by (simp_all add: demo_chat_def demo_titled_def demo_old_def)
  ultimately show ?thesis by (simp add: legacyWorkspaces_def legacy_candidates_def)
qed

lemma demo_chat_name: "conversationFolderBase demo_layout (cv_title demo_chat) shown created = ''a_b_''"
  using demo_titled_name by (simp add: demo_chat_def)

lemma demo_plan_one: "plan demo_migration_env demo_chat [] [(demo_old, None)] demo_before = Some [(demo_old, demo_new)]"
proof -
  have "\<not> workspaceInUse demo_new (mg_store demo_before)" "\<not> disk_exists (mg_disk demo_before) demo_new"
    by (simp_all add: workspaceInUse_def demo_before_def demo_chat_def store_init_def path_within_def disk_exists_def demo_tree_def demo_old_def demo_new_def)
  moreover have "node_join ''/w'' ''a_b_-aaaaaa'' = demo_new" by (simp add: node_join_def path_segs_def render_path_def demo_new_def)
  moreover have "cv_kind demo_chat = ''chat''" "cv_coordinator demo_chat = None" by (simp_all add: demo_chat_def demo_titled_def)
  ultimately show ?thesis
    by (simp add: plan_def plan_folder_def conversationFolder_def first_free_def demo_migration_env_def demo_chat_name demo_short Let_def)
qed

lemma demo_plan: "plan_trace demo_migration_env (listAllConversationWorkspaces (mg_store demo_before)) demo_before = [demo_planned]"
proof -
  have "listAllConversationWorkspaces (mg_store demo_before) = [(demo_chat, [])]"
    by (simp add: listAllConversationWorkspaces_def demo_before_def store_init_def sort_by_def listConversationParticipants_def)
  moreover have "me_clock demo_migration_env x = 5" for x by (simp add: demo_migration_env_def)
  ultimately show ?thesis
    by (simp add: plan_conversation_def listWorkspaceMoves_def demo_moves sort_by_def demo_legacy demo_plan_one planWorkspaceMoves_def demo_planned_def demo_move_def Let_def)
qed

definition demo_moved_disk :: disk where
  "demo_moved_disk = (\<lambda>p. if path_within demo_new p then demo_tree (demo_old @ drop (length demo_new) p) else if path_within demo_old p then None else demo_tree p)"

definition demo_way :: "migration list" where
  "demo_way = [demo_planned, demo_planned\<lparr>mg_disk := demo_moved_disk\<rparr>, commit_move demo_old demo_new (demo_planned\<lparr>mg_disk := demo_moved_disk\<rparr>)]"

lemma demo_move_finished: "finishMove demo_migration_env demo_old demo_new demo_planned = (True, demo_way)"
proof -
  have disk: "mg_disk demo_planned = demo_tree" by (simp add: demo_planned_def demo_before_def)
  have at: "demo_tree demo_old = Some DDir" "demo_tree demo_new = None" "demo_tree ''/w'' = Some DDir" by (simp_all add: demo_tree_def demo_old_def demo_new_def)
  have dir: "node_dirname demo_new = ''/w''" by (simp add: node_dirname_def demo_new_def path_segs_def render_path_def)
  have "path_ancestors ''/w'' = [''/w'']" by (simp add: path_ancestors_def path_within_def)
  then have made: "make_dirs demo_migration_env demo_tree ''/w'' = Some demo_tree" using at(3) by (auto simp: make_dirs_def demo_migration_env_def)
  have "\<not> path_within demo_old demo_new" by (simp add: path_within_def demo_old_def demo_new_def)
  then have renamed: "rename_tree demo_migration_env demo_tree demo_old demo_new = Some demo_moved_disk"
    using at by (simp add: rename_tree_def dir disk_exists_def demo_moved_disk_def demo_migration_env_def)
  have "hindsightStateDir demo_migration_env demo_old = hindsightStateDir demo_migration_env demo_new"
    by (simp add: hindsightStateDir_def demo_migration_env_def demo_layout_def)
  then have "finish_state demo_migration_env demo_old demo_new s = (True, [commit_move demo_old demo_new s])" for s by (simp add: finish_state_def Let_def)
  with disk at dir made renamed show ?thesis by (simp add: finishMove_def disk_exists_def demo_way_def) 
qed

lemma demo_migrated: "migrateWorkspaceLayout demo_migration_env demo_before = (1, 0, demo_planned # demo_way)"
  by (simp add: migrateWorkspaceLayout_def demo_plan listWorkspaceMoves_def demo_moves sort_by_def demo_move_def demo_move_finished)

lemma demo_start: "t \<in> set (demo_before # demo_planned # demo_way) \<Longrightarrow> steps (start demo_migration_env) demo_before t"
  using demo_migrated by (intro steps_snoc [OF steps_refl]) (auto intro: start_ends)

lemma demo_file_moved: "demo_moved_disk (demo_new @ ''/f'') = Some (DFile [7])" "demo_moved_disk demo_new = Some DDir"
  by (simp_all add: demo_moved_disk_def path_within_def demo_tree_def demo_old_def demo_new_def)

section \<open>Properties\<close>

text \<open>(C17) No start, wherever it is cut off and however often it is repeated, loses or overwrites anything: every file and directory that
  was on disk before is still there at a place of its own, with its content.\<close>

theorem migration_loses_nothing:
  assumes "steps (start env) s t" "tree_ok (mg_disk s)" "layout_ok (me_root env) (mg_store s)"
    and "hindsight_apart env" "hex_digest (le_sha (me_layout env))" "path_segs (me_root env) \<noteq> []"
  shows "conserves (mg_disk s) (mg_disk t)"
  using starts_sound [OF assms(4-6) assms(1) assms(3)] assms(2) by (simp add: sound_def keeps_tree_def)

theorem migration_loses_nothing_witness:
  "steps (start demo_migration_env) demo_before (last demo_way) \<and> mg_disk (last demo_way) (demo_new @ ''/f'') = Some (DFile [7])
   \<and> conserves (mg_disk demo_before) (mg_disk (last demo_way))"
proof -
  have run: "steps (start demo_migration_env) demo_before (last demo_way)" by (rule demo_start) (simp add: demo_way_def)
  have "tree_ok (mg_disk demo_before)" using demo_tree_ok by (simp add: demo_before_def)
  with migration_loses_nothing [OF run] demo_layout_ok(1) demo_env_ok run demo_file_moved show ?thesis by (simp add: demo_way_def commit_move_def)
qed

text \<open>(C16) Whatever the starts before it did and wherever they were cut off, each stored working folder is on disk under its stored path, or
  the table of moves says where it is; the table stays consistent, with one target per folder and no folder inside another.\<close>

theorem migration_keeps_folders_located:
  assumes "steps (start env) s t" "located s" "layout_ok (me_root env) (mg_store s)"
    and "hindsight_apart env" "hex_digest (le_sha (me_layout env))" "path_segs (me_root env) \<noteq> []"
  shows "located t \<and> layout_ok (me_root env) (mg_store t)"
  using migration_starts.steps_inv [OF assms(1)] assms(2-6) by (simp add: folders_inv_def)

theorem migration_keeps_folders_located_witness:
  "steps (start demo_migration_env) demo_before (demo_way ! 1) \<and> mg_disk (demo_way ! 1) demo_old = None \<and> located (demo_way ! 1)"
proof -
  have run: "steps (start demo_migration_env) demo_before (demo_way ! 1)" by (rule demo_start) (simp add: demo_way_def)
  have "located demo_before" unfolding located_def demo_rows by (simp add: demo_before_def demo_tree_def)
  moreover have "mg_disk (demo_way ! 1) demo_old = None" by (simp add: demo_way_def demo_moved_disk_def path_within_def demo_old_def demo_new_def)
  ultimately show ?thesis using migration_keeps_folders_located [OF run] demo_layout_ok(1) demo_env_ok run by simp
qed

text \<open>(C18) A move that was cut off before its last change is finished by running it again, and ends in the very state the uninterrupted
  move would have reached.\<close>

theorem interrupted_move_resumes:
  assumes "finishMove env (wm_old m) (wm_new m) s = (True, tr)" "t \<in> set (butlast tr)" "m \<in> set (st_moves (mg_store s))"
    and "tree_ok (mg_disk s)" "layout_ok (me_root env) (mg_store s)" "hindsight_apart env" "hex_digest (le_sha (me_layout env))"
  shows "\<exists>tr'. finishMove env (wm_old m) (wm_new m) t = (True, tr') \<and> last tr' = last tr"
proof -
  note f = move_facts [OF assms(5, 3)]
  have "managed (me_root env) (wm_old m)" using f(3) assms(5) by (simp add: layout_ok_def)
  then have "\<not> path_within (hindsight_root env) (wm_old m)" using assms(6) by (simp add: hindsight_apart_def)
  with path_within_trans [OF hindsight_within [OF assms(7)]] have "\<not> path_within (hindsightStateDir env (wm_new m)) (wm_old m)" by blast
  from finishMove_resumes [OF assms(1, 7, 4) plain_nonempty [OF f(5)] this assms(2)] show ?thesis .
qed

theorem interrupted_move_resumes_witness:
  "\<exists>tr. finishMove demo_migration_env demo_old demo_new (demo_way ! 1) = (True, tr) \<and> last tr = last demo_way"
proof -
  have "finishMove demo_migration_env (wm_old demo_move) (wm_new demo_move) demo_planned = (True, demo_way)" by (simp add: demo_move_def demo_move_finished)
  moreover have "demo_way ! 1 \<in> set (butlast demo_way)" by (simp add: demo_way_def)
  moreover have "tree_ok (mg_disk demo_planned)" using demo_tree_ok by (simp add: demo_planned_def demo_before_def)
  ultimately show ?thesis using interrupted_move_resumes [of demo_migration_env demo_move demo_planned demo_way "demo_way ! 1"] demo_layout_ok(2) demo_env_ok demo_moves
    by (simp add: demo_move_def)
qed

end
