(* ===== verification/Artifact_Paths.thy ===== *)
theory Artifact_Paths
  imports Workspace_Layout
begin

text \<open>
  \<open>services/artifact-paths.ts\<close>: artifacts stored before paths were recorded get one at start-up, from the
  file of the same name, size and digest in a workspace of their conversation, or their file name.
  The workspaces do not change while the placement runs; \<open>bf_sha\<close> is the digest of the file at a path
  (\<open>None\<close> when it cannot be read), \<open>bf_locale\<close> the order of \<open>localeCompare\<close>.
\<close>

record backfill_env =
  bf_fs :: file_system
  bf_real :: "string \<Rightarrow> string option"
  bf_sha :: "string \<Rightarrow> string option"
  bf_locale :: "string \<Rightarrow> string \<Rightarrow> bool"

record candidate =
  cd_file :: workspace_file
  cd_path :: string

text \<open>\<open>inside\<close>: the canonical path when it lies below the root.\<close>

definition inside_root :: "backfill_env \<Rightarrow> string \<Rightarrow> string \<Rightarrow> string option" where
  "inside_root env path base =
     (if path = [] then None
      else (case bf_real env path of
              None \<Rightarrow> None
            | Some resolved \<Rightarrow>
                (let rel = node_relative base resolved
                 in if rel \<noteq> [] \<and> \<not> prefix ''..'' rel \<and> \<not> prefix ''/'' rel then Some resolved else None)))"

fun collect_files :: "backfill_env \<Rightarrow> bool \<Rightarrow> string \<Rightarrow> (string option \<times> string) list \<Rightarrow> string list \<Rightarrow> candidate list" where
  "collect_files env isGroup base [] seen = []"
| "collect_files env isGroup base ((employee, path) # rest) seen =
     (case inside_root env path base of
        None \<Rightarrow> collect_files env isGroup base rest seen
      | Some resolved \<Rightarrow>
          if resolved \<in> set seen then collect_files env isGroup base rest seen
          else (let pre = (if isGroup \<and> nullish employee [] \<noteq> [] then basename path @ ''/'' else [])
                in map (\<lambda>(k, f). \<lparr>cd_file = f, cd_path = pre @ k\<rparr>) (scanWorkspaceFiles (bf_fs env) resolved)
                   @ collect_files env isGroup base rest (resolved # seen)))"

definition workspaceFiles :: "backfill_env \<Rightarrow> string \<Rightarrow> string \<Rightarrow> string \<Rightarrow> string \<Rightarrow> store \<Rightarrow> candidate list" where
  "workspaceFiles env base tenant member conversation s =
     (case find (\<lambda>(c, ps). cv_id c = conversation) (listOwnedConversationWorkspaces tenant member s) of
        None \<Rightarrow> []
      | Some (c, ps) \<Rightarrow>
          (let isGroup = (cv_kind c = ''group'' \<or> cv_coordinator c \<noteq> None);
               workspaces = map (\<lambda>p. (Some (pt_employee p), pt_workspace p)) ps
                 @ (if cv_workspace c = [] then [] else [(cv_entry c, cv_workspace c)])
           in sort_by (\<lambda>a b. bf_locale env (cd_path a) (cd_path b)) (collect_files env isGroup base workspaces [])))"

definition matches_artifact :: "backfill_env \<Rightarrow> local_file \<Rightarrow> string list \<Rightarrow> candidate \<Rightarrow> bool" where
  "matches_artifact env artifact taken c \<longleftrightarrow>
     cd_path c \<notin> set taken \<and> wf_size (cd_file c) = lf_size artifact \<and> last (js_split (CHR ''/'') (cd_path c)) = lf_filename artifact
     \<and> bf_sha env (wf_path (cd_file c)) = Some (lf_sha artifact)"

definition findPath :: "backfill_env \<Rightarrow> local_file \<Rightarrow> candidate list \<Rightarrow> string list \<Rightarrow> string option" where
  "findPath env artifact candidates taken = map_option cd_path (find (matches_artifact env artifact taken) candidates)"

text \<open>The artifacts of one conversation: each takes a path of its own; a path that is not safe leaves its artifact unplaced.\<close>

fun place_group :: "backfill_env \<Rightarrow> candidate list \<Rightarrow> local_file list \<Rightarrow> string list \<Rightarrow> nat \<times> file_state \<Rightarrow> nat \<times> file_state" where
  "place_group env candidates [] taken r = r"
| "place_group env candidates (a # rest) taken (count, s) =
     (let found = findPath env a candidates taken;
          taken' = (case found of Some p \<Rightarrow> p # taken | None \<Rightarrow> taken)
      in case setArtifactPath (lf_id a) (nullish found (lf_filename a)) of
           Inl e \<Rightarrow> place_group env candidates rest taken' (count, s)
         | Inr effs \<Rightarrow> place_group env candidates rest taken' (count + 1, run effs s))"

definition artifact_groups :: "local_file list \<Rightarrow> (string \<times> string \<times> string, local_file list) omap" where
  "artifact_groups pending =
     fold (\<lambda>a m. let k = (lf_tenant a, lf_member a, lf_conversation a) in omap_set k (nullish (omap_get m k) [] @ [a]) m) pending []"

definition backfillArtifactPaths :: "backfill_env \<Rightarrow> string \<Rightarrow> store \<Rightarrow> file_state \<Rightarrow> nat \<times> file_state" where
  "backfillArtifactPaths env workspaceRoot st s =
     fold (\<lambda>((tenant, member, conversation), artifacts) r.
         place_group env (case bf_real env workspaceRoot of None \<Rightarrow> [] | Some base \<Rightarrow> workspaceFiles env base tenant member conversation st) artifacts [] r)
       (artifact_groups (listUnplacedArtifacts s)) (0, s)"

section \<open>Facts\<close>

definition artifact_scope :: "local_file \<Rightarrow> string \<times> string \<times> string" where
  "artifact_scope a = (lf_tenant a, lf_member a, lf_conversation a)"

lemma artifact_groups_scope:
  "artifact_groups as = fold (\<lambda>a m. omap_set (artifact_scope a) (nullish (omap_get m (artifact_scope a)) [] @ [a]) m) as []"
  by (simp add: artifact_groups_def artifact_scope_def Let_def)

lemma grouped:
  assumes "omap_ok m"
  shows "omap_ok (fold (\<lambda>a m. omap_set (artifact_scope a) (nullish (omap_get m (artifact_scope a)) [] @ [a]) m) as m)
    \<and> nullish (omap_get (fold (\<lambda>a m. omap_set (artifact_scope a) (nullish (omap_get m (artifact_scope a)) [] @ [a]) m) as m) k) []
       = nullish (omap_get m k) [] @ filter (\<lambda>a. artifact_scope a = k) as"
  using assms by (induction as arbitrary: m) auto

lemma group_members: "(k, g) \<in> set (artifact_groups as) \<Longrightarrow> g = filter (\<lambda>a. artifact_scope a = k) as"
  using grouped [of "[]" as k] unfolding artifact_groups_scope by (auto simp: omap_ok_def omap_get_def omap_keys_def dest: map_of_is_SomeI)

lemma group_present:
  assumes "a \<in> set as"
  shows "\<exists>g. (artifact_scope a, g) \<in> set (artifact_groups as) \<and> a \<in> set g"
proof -
  have "nullish (omap_get (artifact_groups as) (artifact_scope a)) [] = filter (\<lambda>b. artifact_scope b = artifact_scope a) as"
    using grouped [of "[]" as "artifact_scope a"] unfolding artifact_groups_scope by simp
  with assms have "a \<in> set (nullish (omap_get (artifact_groups as) (artifact_scope a)) [])" by simp
  then show ?thesis by (cases "omap_get (artifact_groups as) (artifact_scope a)") (auto simp: omap_get_def dest: map_of_SomeD)
qed

text \<open>The candidates of an artifact and where it may be placed.\<close>

definition files_for :: "backfill_env \<Rightarrow> string \<Rightarrow> store \<Rightarrow> string \<times> string \<times> string \<Rightarrow> candidate list" where
  "files_for env workspaceRoot st k =
     (case k of (tenant, member, conversation) \<Rightarrow>
        (case bf_real env workspaceRoot of None \<Rightarrow> [] | Some base \<Rightarrow> workspaceFiles env base tenant member conversation st))"

definition unplaced :: "local_file \<Rightarrow> bool" where
  "unplaced r \<longleftrightarrow> lf_kind r = Artifact \<and> lf_path r = None"

definition place_for :: "backfill_env \<Rightarrow> candidate list \<Rightarrow> local_file \<Rightarrow> string \<Rightarrow> bool" where
  "place_for env cs a p \<longleftrightarrow> isSafeArtifactPath p \<and> (p = lf_filename a \<or> (\<exists>c \<in> set cs. cd_path c = p \<and> matches_artifact env a [] c))"

definition carried :: "backfill_env \<Rightarrow> (local_file \<Rightarrow> candidate list) \<Rightarrow> local_file \<Rightarrow> local_file \<Rightarrow> bool" where
  "carried env cs r r' \<longleftrightarrow> r' = r \<or> (unplaced r \<and> (\<exists>p. place_for env (cs r) r p \<and> r' = r\<lparr>lf_path := Some p\<rparr>))"

lemma findPath_place: "findPath env a cs taken = Some p \<Longrightarrow> isSafeArtifactPath p \<Longrightarrow> place_for env cs a p"
  unfolding findPath_def place_for_def by (auto dest!: find_Some_in simp: matches_artifact_def)

lemma set_path_rows:
  "setArtifactPath i p = Inr effs \<Longrightarrow> isSafeArtifactPath p \<and> run effs s = s\<lparr>fl_rows := update_rows (\<lambda>r. lf_id r = i \<and> unplaced r) (\<lambda>r. r\<lparr>lf_path := Some p\<rparr>) (fl_rows s)\<rparr>"
  by (auto simp: setArtifactPath_def run_def change_rows_def unplaced_def split: if_splits)

lemma carried_update:
  assumes "list_all2 (carried env cs) rows rows'" "distinct (map lf_id rows)" "a \<in> set rows" "unplaced a" "place_for env (cs a) a p"
  shows "list_all2 (carried env cs) rows (update_rows (\<lambda>r. lf_id r = lf_id a \<and> unplaced r) (\<lambda>r. r\<lparr>lf_path := Some p\<rparr>) rows')"
proof -
  have "carried env cs r (if lf_id r' = lf_id a \<and> unplaced r' then r'\<lparr>lf_path := Some p\<rparr> else r')" if "carried env cs r r'" "r \<in> set rows" for r r'
  proof (cases "lf_id r' = lf_id a \<and> unplaced r'")
    case True
    with that(1) have "r' = r" by (auto simp: carried_def unplaced_def)
    with True that(2) assms(2, 3) have "r = a" by (auto simp: distinct_map dest: inj_onD)
    with assms(4, 5) \<open>r' = r\<close> show ?thesis by (auto simp: carried_def)
  qed (use that in auto)
  with assms(1) show ?thesis unfolding update_rows_def by (auto simp: list_all2_conv_all_nth)
qed

lemma place_group_carried:
  assumes "\<forall>a \<in> set g. a \<in> set rows \<and> unplaced a \<and> cs a = cands" "distinct (map lf_id rows)" "list_all2 (carried env cs) rows (fl_rows s)"
  shows "list_all2 (carried env cs) rows (fl_rows (snd (place_group env cands g taken (n, s)))) \<and> fl_disk (snd (place_group env cands g taken (n, s))) = fl_disk s"
  using assms(1, 3)
proof (induction g arbitrary: taken n s)
  case (Cons a g)
  let ?p = "nullish (findPath env a cands taken) (lf_filename a)"
  from Cons.prems have a: "a \<in> set rows" "unplaced a" "cs a = cands" by auto
  show ?case
  proof (cases "setArtifactPath (lf_id a) ?p")
    case (Inl e)
    with Cons show ?thesis by (simp add: Let_def)
  next
    case (Inr effs)
    from set_path_rows [OF Inr, of s] have safe: "isSafeArtifactPath ?p"
      and run: "run effs s = s\<lparr>fl_rows := update_rows (\<lambda>r. lf_id r = lf_id a \<and> unplaced r) (\<lambda>r. r\<lparr>lf_path := Some ?p\<rparr>) (fl_rows s)\<rparr>" by simp_all
    have "place_for env (cs a) a ?p" using safe findPath_place [of env a cands taken] a(3) by (cases "findPath env a cands taken") (auto simp: place_for_def)
    from carried_update [OF Cons.prems(2) assms(2) a(1, 2) this] Cons.IH Cons.prems(1) Inr run show ?thesis by (simp add: Let_def)
  qed
qed simp

text \<open>An artifact is settled once it has a path, or the path chosen for it was not a safe one.\<close>

definition unsafe_choice :: "candidate list \<Rightarrow> local_file \<Rightarrow> bool" where
  "unsafe_choice cs a \<longleftrightarrow> \<not> isSafeArtifactPath (lf_filename a) \<or> (\<exists>c \<in> set cs. \<not> isSafeArtifactPath (cd_path c))"

definition settled :: "candidate list \<Rightarrow> local_file \<Rightarrow> file_state \<Rightarrow> bool" where
  "settled cs a s \<longleftrightarrow> unsafe_choice cs a \<or> (\<forall>r \<in> set (fl_rows s). lf_id r = lf_id a \<longrightarrow> \<not> unplaced r)"

lemma settled_update:
  "settled cs a s \<Longrightarrow> settled cs a (s\<lparr>fl_rows := update_rows P (\<lambda>r. r\<lparr>lf_path := Some p\<rparr>) (fl_rows s)\<rparr>)"
  by (auto simp: settled_def set_update_rows unplaced_def)

lemma place_group_keeps_settled: "settled cs b s \<Longrightarrow> settled cs b (snd (place_group env cands g taken (n, s)))"
proof (induction g arbitrary: taken n s)
  case (Cons a g)
  show ?case
  proof (cases "setArtifactPath (lf_id a) (nullish (findPath env a cands taken) (lf_filename a))")
    case (Inl e)
    with Cons show ?thesis by (simp add: Let_def)
  next
    case (Inr effs)
    with Cons.IH settled_update [OF Cons.prems] set_path_rows [OF Inr, of s] show ?thesis by (simp add: Let_def)
  qed
qed simp

lemma place_group_settles: "a \<in> set g \<Longrightarrow> settled cands a (snd (place_group env cands g taken (n, s)))"
proof (induction g arbitrary: taken n s)
  case (Cons b g)
  let ?p = "nullish (findPath env b cands taken) (lf_filename b)"
  show ?case
  proof (cases "a = b")
    case False
    with Cons show ?thesis by (auto simp: Let_def split: sum.splits)
  next
    case True
    show ?thesis
    proof (cases "setArtifactPath (lf_id b) ?p")
      case (Inl e)
      then have "\<not> isSafeArtifactPath ?p" by (simp add: setArtifactPath_def split: if_splits)
      then have "unsafe_choice cands b"
        by (cases "find (matches_artifact env b taken) cands") (auto simp: unsafe_choice_def findPath_def dest!: find_Some_in)
      with True show ?thesis by (simp add: settled_def)
    next
      case (Inr effs)
      from set_path_rows [OF Inr, of s] have "settled cands b (run effs s)" by (auto simp: settled_def set_update_rows unplaced_def)
      with True Inr place_group_keeps_settled show ?thesis by (simp add: Let_def)
    qed
  qed
qed simp

definition place_conversation :: "backfill_env \<Rightarrow> string \<Rightarrow> store \<Rightarrow> (string \<times> string \<times> string) \<times> local_file list \<Rightarrow> nat \<times> file_state \<Rightarrow> nat \<times> file_state" where
  "place_conversation env workspaceRoot st kg r = place_group env (files_for env workspaceRoot st (fst kg)) (snd kg) [] r"

lemma backfill_fold: "backfillArtifactPaths env w st s = fold (place_conversation env w st) (artifact_groups (listUnplacedArtifacts s)) (0, s)"
proof -
  have "(\<lambda>((tenant, member, conversation), artifacts) r.
         place_group env (case bf_real env w of None \<Rightarrow> [] | Some base \<Rightarrow> workspaceFiles env base tenant member conversation st) artifacts [] r)
       = place_conversation env w st" by (auto simp: fun_eq_iff place_conversation_def files_for_def split: prod.split)
  then show ?thesis by (simp only: backfillArtifactPaths_def)
qed

lemma backfill_carried:
  fixes env w st and rows :: "local_file list"
  defines "cs \<equiv> \<lambda>a. files_for env w st (artifact_scope a)"
  assumes "\<forall>(k, g) \<in> set kgs. \<forall>a \<in> set g. a \<in> set rows \<and> unplaced a \<and> artifact_scope a = k" "distinct (map lf_id rows)"
    and "list_all2 (carried env cs) rows (fl_rows (snd r))"
  shows "list_all2 (carried env cs) rows (fl_rows (snd (fold (place_conversation env w st) kgs r))) \<and> fl_disk (snd (fold (place_conversation env w st) kgs r)) = fl_disk (snd r)"
  using assms(2, 4)
proof (induction kgs arbitrary: r)
  case (Cons kg kgs)
  obtain k g n s where kg: "kg = (k, g)" and r: "r = (n, s)" by (cases kg; cases r) auto
  have "\<forall>a \<in> set g. a \<in> set rows \<and> unplaced a \<and> cs a = files_for env w st k" using Cons.prems(1) by (auto simp: kg cs_def)
  from place_group_carried [OF this assms(3), of env s "[]" n] Cons.prems Cons.IH show ?case by (simp add: kg r place_conversation_def)
qed simp

lemma backfill_settled:
  "settled cs a (snd r) \<or> (\<exists>(k, g) \<in> set kgs. a \<in> set g \<and> cs = files_for env w st k) \<Longrightarrow> settled cs a (snd (fold (place_conversation env w st) kgs r))"
proof (induction kgs arbitrary: r)
  case (Cons kg kgs)
  obtain k g n s where kg: "kg = (k, g)" and r: "r = (n, s)" by (cases kg; cases r) auto
  from Cons.prems place_group_keeps_settled [of cs a s env "files_for env w st k" g "[]" n] place_group_settles [of a g "files_for env w st k" env "[]" n s]
  have "settled cs a (snd (place_conversation env w st kg r)) \<or> (\<exists>(k, g) \<in> set kgs. a \<in> set g \<and> cs = files_for env w st k)"
    by (auto simp: kg r place_conversation_def)
  with Cons.IH show ?case by simp
qed simp

lemma unplaced_listed: "a \<in> set (listUnplacedArtifacts s) \<longleftrightarrow> a \<in> set (fl_rows s) \<and> unplaced a"
  by (auto simp: listUnplacedArtifacts_def unplaced_def)

section \<open>Properties\<close>

text \<open>Placing old artifacts only fills in missing paths: no file changes, no row appears, disappears or changes otherwise, and
  each new path is safe and either the artifact's own file name or a file of its own conversation's workspaces with the same
  name, size and digest.  An artifact stays without a path only when its file name or a file of its workspaces has no safe path.\<close>

theorem backfill_places_own_copies:
  assumes "backfillArtifactPaths env w st s = (n, s')" "distinct (map lf_id (fl_rows s))"
  shows "fl_disk s' = fl_disk s
    \<and> list_all2 (carried env (\<lambda>a. files_for env w st (artifact_scope a))) (fl_rows s) (fl_rows s')
    \<and> (\<forall>r \<in> set (fl_rows s'). unplaced r \<longrightarrow> unsafe_choice (files_for env w st (artifact_scope r)) r)"
proof -
  let ?cs = "\<lambda>a. files_for env w st (artifact_scope a)"
  let ?kgs = "artifact_groups (listUnplacedArtifacts s)"
  have s': "snd (fold (place_conversation env w st) ?kgs (0, s)) = s'" using assms(1) by (simp add: backfill_fold)
  have "\<forall>(k, g) \<in> set ?kgs. \<forall>a \<in> set g. a \<in> set (fl_rows s) \<and> unplaced a \<and> artifact_scope a = k"
    by (auto dest!: group_members simp: unplaced_listed)
  moreover have "list_all2 (carried env ?cs) (fl_rows s) (fl_rows (snd (0 :: nat, s)))" by (simp add: list_all2_same carried_def)
  ultimately have run: "list_all2 (carried env ?cs) (fl_rows s) (fl_rows s') \<and> fl_disk s' = fl_disk s"
    using backfill_carried [of ?kgs "fl_rows s" env w st "(0, s)"] assms(2) by (simp add: s')
  moreover have "unsafe_choice (?cs r) r" if r: "r \<in> set (fl_rows s')" "unplaced r" for r
  proof -
    from run r(1) obtain q where q: "q \<in> set (fl_rows s)" "carried env ?cs q r" unfolding list_all2_conv_all_nth in_set_conv_nth by metis
    with r(2) have "q = r" by (auto simp: carried_def unplaced_def)
    with q r(2) have "r \<in> set (listUnplacedArtifacts s)" by (simp add: unplaced_listed)
    from group_present [OF this] have "settled (?cs r) r (snd (fold (place_conversation env w st) ?kgs (0, s)))" by (intro backfill_settled) auto
    with r show ?thesis by (auto simp: s' settled_def)
  qed
  ultimately show ?thesis by blast
qed

definition demo_backfill :: backfill_env where
  "demo_backfill = \<lparr>bf_fs = demo_files, bf_real = Some, bf_sha = (\<lambda>_. Some ''h''), bf_locale = (\<lambda>_ _. True)\<rparr>"

definition demo_artifact :: local_file where
  "demo_artifact = \<lparr>lf_id = ''f1'', lf_conversation = ''c1'', lf_tenant = ''t'', lf_member = ''m'', lf_kind = Artifact, lf_filename = ''b.md'', lf_path = None,
     lf_mime = ''text/markdown'', lf_size = 3, lf_sha = ''h'', lf_storage = [], lf_created = 0, lf_referenced = None, lf_entryRef = None, lf_chars = None\<rparr>"

definition demo_workspaces :: store where
  "demo_workspaces = store_init\<lparr>st_conversations := [demo_titled\<lparr>cv_kind := ''chat'', cv_workspace := ''/w''\<rparr>]\<rparr>"

lemma demo_scanned:
  "scanWorkspaceFiles demo_files ''/w'' =
     [(''a.txt'', \<lparr>wf_path = ''/w/a.txt'', wf_size = 3, wf_mtime = 7, wf_mime = ''text/plain''\<rparr>),
      (''sub/b.md'', \<lparr>wf_path = ''/w/sub/b.md'', wf_size = 3, wf_mtime = 7, wf_mime = ''text/markdown''\<rparr>)]"
  by (simp add: scanWorkspaceFiles_def scan_loop.simps [of demo_files] demo_listing MAX_ARTIFACT_ENTRIES_PER_SCAN_def scan_entry_def hidden_name_def
      join_path_def demo_names demo_paths IGNORED_WORKSPACE_DIRECTORIES_def MAX_ARTIFACT_ENTRIES_PER_DIRECTORY_def Let_def)

lemma demo_backfilled:
  "backfillArtifactPaths demo_backfill ''/'' demo_workspaces \<lparr>fl_rows = [demo_artifact], fl_disk = []\<rparr>
     = (1, \<lparr>fl_rows = [demo_artifact\<lparr>lf_path := Some ''sub/b.md''\<rparr>], fl_disk = []\<rparr>)"
  by (simp add: backfillArtifactPaths_def demo_backfill_def workspaceFiles_def listOwnedConversationWorkspaces_def demo_workspaces_def store_init_def demo_titled_def
      sort_by_def listConversationParticipants_def inside_root_def node_relative_def path_segs_def demo_scanned artifact_groups_def listUnplacedArtifacts_def
      demo_artifact_def findPath_def matches_artifact_def setArtifactPath_def demo_paths run_def change_rows_def Let_def)

theorem backfill_places_own_copies_witness:
  "backfillArtifactPaths demo_backfill ''/'' demo_workspaces \<lparr>fl_rows = [demo_artifact], fl_disk = []\<rparr>
     = (1, \<lparr>fl_rows = [demo_artifact\<lparr>lf_path := Some ''sub/b.md''\<rparr>], fl_disk = []\<rparr>)
   \<and> carried demo_backfill (\<lambda>a. files_for demo_backfill ''/'' demo_workspaces (artifact_scope a)) demo_artifact (demo_artifact\<lparr>lf_path := Some ''sub/b.md''\<rparr>)"
  using backfill_places_own_copies [OF demo_backfilled] demo_backfilled by simp

end
