(* ===== verification/Conversation_Failures.thy ===== *)
theory Conversation_Failures
  imports Local_File_Store
begin

text \<open>
  \<open>storage/conversation-failures.ts\<close>: the latest failed run of each participant of a conversation,
  kept until the participant runs again.  The empty employee stands for the session of a single chat.
\<close>

definition MAX_MESSAGE_CHARS :: nat where
  "MAX_MESSAGE_CHARS = 1000"

record failure_row =
  fr_conversation :: string
  fr_employee :: string
  fr_work :: "string option"
  fr_code :: string
  fr_message :: string
  fr_failedAt :: ms

record conversation_failure =
  cf_employee :: "string option"
  cf_work :: "string option"
  cf_code :: string
  cf_message :: string
  cf_failedAt :: ms

record failure_input =
  fq_conversation :: string
  fq_employee :: "string option"
  fq_work :: "string option"
  fq_code :: string
  fq_message :: string
  fq_failedAt :: ms

definition failure_key :: "failure_row \<Rightarrow> string \<times> string" where
  "failure_key r = (fr_conversation r, fr_employee r)"

definition failure_of :: "failure_input \<Rightarrow> failure_row" where
  "failure_of q =
     \<lparr>fr_conversation = fq_conversation q, fr_employee = nullish (fq_employee q) [], fr_work = fq_work q, fr_code = fq_code q,
      fr_message = take MAX_MESSAGE_CHARS (fq_message q), fr_failedAt = fq_failedAt q\<rparr>"

definition failure_record :: "failure_input \<Rightarrow> failure_row list \<Rightarrow> failure_row list" where
  "failure_record q rows =
     (let new = failure_of q
      in if \<exists>r \<in> set rows. failure_key r = failure_key new
         then update_rows (\<lambda>r. failure_key r = failure_key new)
           (\<lambda>r. r\<lparr>fr_work := fr_work new, fr_code := fr_code new, fr_message := fr_message new, fr_failedAt := fr_failedAt new\<rparr>) rows
         else rows @ [new])"

definition failure_clear :: "string \<Rightarrow> string option \<Rightarrow> failure_row list \<Rightarrow> failure_row list" where
  "failure_clear conversation employee = delete_rows (\<lambda>r. failure_key r = (conversation, nullish employee []))"

definition failure_le :: "failure_row \<Rightarrow> failure_row \<Rightarrow> bool" where
  "failure_le a b \<longleftrightarrow> fr_failedAt a < fr_failedAt b \<or> (fr_failedAt a = fr_failedAt b \<and> text_le (fr_employee a) (fr_employee b))"

definition failure_view :: "failure_row \<Rightarrow> conversation_failure" where
  "failure_view r =
     \<lparr>cf_employee = (if fr_employee r = [] then None else Some (fr_employee r)), cf_work = fr_work r, cf_code = fr_code r,
      cf_message = fr_message r, cf_failedAt = fr_failedAt r\<rparr>"

definition failure_list :: "string \<Rightarrow> failure_row list \<Rightarrow> conversation_failure list" where
  "failure_list conversation rows = map failure_view (sort_by failure_le (filter (\<lambda>r. fr_conversation r = conversation) rows))"

definition failure_deleteConversation :: "string \<Rightarrow> failure_row list \<Rightarrow> failure_row list" where
  "failure_deleteConversation conversation = delete_rows (\<lambda>r. fr_conversation r = conversation)"

section \<open>Facts\<close>

interpretation failure_update: row_update failure_key
  "\<lambda>r. r\<lparr>fr_work := w, fr_code := c, fr_message := m, fr_failedAt := t\<rparr>" for w c m t
  by unfold_locales (simp add: failure_key_def)

definition failures_ok :: "failure_row list \<Rightarrow> bool" where
  "failures_ok rows \<longleftrightarrow> distinct (map failure_key rows) \<and> list_all (\<lambda>r. length (fr_message r) \<le> 1000) rows"

lemma failure_record_ok: "failures_ok rows \<Longrightarrow> failures_ok (failure_record q rows)"
proof -
  assume ok: "failures_ok rows"
  let ?n = "failure_of q"
  have short: "length (fr_message ?n) \<le> 1000" by (simp add: failure_of_def MAX_MESSAGE_CHARS_def)
  show ?thesis
  proof (cases "\<exists>r \<in> set rows. failure_key r = failure_key ?n")
    case True
    with ok short show ?thesis unfolding failures_ok_def failure_record_def Let_def
      by (auto simp: failure_update.distinct_update list_all_iff set_update_rows)
  next
    case False
    then have "failure_key ?n \<notin> failure_key ` set rows" by auto
    with False ok short show ?thesis unfolding failures_ok_def failure_record_def Let_def by (simp add: list_all_iff)
  qed
qed

lemma failure_clear_ok: "failures_ok rows \<Longrightarrow> failures_ok (failure_clear c e rows)"
  by (auto simp: failures_ok_def failure_clear_def distinct_key_delete list_all_iff)

lemma failure_delete_ok: "failures_ok rows \<Longrightarrow> failures_ok (failure_deleteConversation c rows)"
  by (auto simp: failures_ok_def failure_deleteConversation_def distinct_key_delete list_all_iff)

lemma recorded_row:
  assumes "r \<in> set (failure_record q rows)" "failure_key r = failure_key (failure_of q)"
  shows "r = failure_of q"
proof -
  let ?n = "failure_of q"
  have "s\<lparr>fr_work := fr_work ?n, fr_code := fr_code ?n, fr_message := fr_message ?n, fr_failedAt := fr_failedAt ?n\<rparr> = ?n"
    if "failure_key s = failure_key ?n" for s :: failure_row
    using that by (cases s) (simp add: failure_key_def failure_of_def)
  with assms show ?thesis unfolding failure_record_def Let_def by (auto simp: set_update_rows failure_key_def split: if_splits)
qed

lemma recorded_present: "failure_of q \<in> set (failure_record q rows)"
proof (cases "\<exists>r \<in> set rows. failure_key r = failure_key (failure_of q)")
  case True
  then obtain r where r: "r \<in> set rows" "failure_key r = failure_key (failure_of q)" by blast
  let ?n = "failure_of q"
  let ?u = "r\<lparr>fr_work := fr_work ?n, fr_code := fr_code ?n, fr_message := fr_message ?n, fr_failedAt := fr_failedAt ?n\<rparr>"
  from r have "?u \<in> set (failure_record q rows)" unfolding failure_record_def Let_def set_update_rows by (auto simp: set_update_rows)
  moreover have "failure_key ?u = failure_key ?n" using r(2) by (simp add: failure_key_def)
  ultimately show ?thesis using recorded_row by metis
qed (simp add: failure_record_def)

lemma failure_row_other: "r \<in> set (failure_record q rows) \<Longrightarrow> failure_key r \<noteq> failure_key (failure_of q) \<Longrightarrow> r \<in> set rows"
  unfolding failure_record_def Let_def by (auto simp: set_update_rows failure_key_def split: if_splits)

text \<open>After a failure is recorded the list shows it, and nothing else, for its participant.\<close>

lemma failure_view_employee: "nullish (cf_employee (failure_view r)) [] = fr_employee r"
  by (cases "fr_employee r = []") (simp_all add: failure_view_def)

theorem latest_failure_listed:
  "{f \<in> set (failure_list (fq_conversation q) (failure_record q rows)). nullish (cf_employee f) [] = nullish (fq_employee q) []}
     = {failure_view (failure_of q)}"
proof -
  have key: "failure_key r = failure_key (failure_of q) \<longleftrightarrow> fr_conversation r = fq_conversation q \<and> fr_employee r = nullish (fq_employee q) []" for r
    by (simp add: failure_key_def failure_of_def)
  have "{r \<in> set (failure_record q rows). fr_conversation r = fq_conversation q \<and> fr_employee r = nullish (fq_employee q) []} = {failure_of q}"
    unfolding key [symmetric] using recorded_present [of q rows] recorded_row [of _ q rows] by blast
  moreover have "{f \<in> set (failure_list (fq_conversation q) (failure_record q rows)). nullish (cf_employee f) [] = nullish (fq_employee q) []}
      = failure_view ` {r \<in> set (failure_record q rows). fr_conversation r = fq_conversation q \<and> fr_employee r = nullish (fq_employee q) []}"
    by (auto simp: failure_list_def failure_view_employee)
  ultimately show ?thesis by simp
qed

text \<open>A new run of the participant removes it, whatever was recorded.\<close>

theorem run_clears_failure:
  "f \<in> set (failure_list conversation (failure_clear conversation employee rows)) \<Longrightarrow> nullish (cf_employee f) [] \<noteq> nullish employee []"
  by (auto simp: failure_list_def failure_clear_def failure_key_def failure_view_employee)

end
