(* ===== verification/Launch_Guards.thy ===== *)
theory Launch_Guards
  imports Workspace_Layout
begin

text \<open>
  What must hold before the node agent serves: its configuration file (\<open>config.ts\<close>), the environment it
  may keep (\<open>launch-guards.ts\<close>), and what a tool may touch on disk afterwards (\<open>pi/sandbox.ts\<close>).  The
  environment is a map of names to texts.  Parsing of a URL, reading the file, \<open>existsSync\<close>,
  \<open>realpathSync\<close> and the sandbox library's \<open>canonicalPath\<close> are parameters.
\<close>

type_synonym environment = "(string, string) omap"

definition env_get :: "environment \<Rightarrow> string \<Rightarrow> string option" where
  "env_get env n = omap_get env n"

section \<open>Configuration file\<close>

datatype config_error = NoAssignment nat | BadName nat | DefinedTwice nat string | Unterminated nat | FileUnreadable

text \<open>\<open>split(/\r?\n/u)\<close>: a carriage return before a line feed belongs to the separator.\<close>

definition drop_cr :: "string \<Rightarrow> string" where
  "drop_cr s = (if s \<noteq> [] \<and> last s = CHR 0x0D then butlast s else s)"

definition config_lines :: "string \<Rightarrow> string list" where
  "config_lines text = (let ls = js_split (CHR 0x0A) text in map drop_cr (butlast ls) @ [last ls])"

definition ENV_NAME :: "string \<Rightarrow> bool" where
  "ENV_NAME s \<longleftrightarrow> s \<noteq> [] \<and> list_all (\<lambda>c. is_alnum c \<or> c = CHR ''_'') s \<and> \<not> is_digit (hd s)"

fun unescape :: "string \<Rightarrow> string" where
  "unescape [] = []"
| "unescape [c] = [c]"
| "unescape (c # d # s) =
     (if c = CHR 0x5C \<and> d \<in> {CHR 0x5C, CHR 0x22, CHR ''n'', CHR ''r'', CHR ''t''}
      then (if d = CHR ''n'' then CHR 0x0A else if d = CHR ''r'' then CHR 0x0D else if d = CHR ''t'' then CHR 0x09 else d) # unescape s
      else c # unescape (d # s))"

definition parseValue :: "string \<Rightarrow> nat \<Rightarrow> config_error + string" where
  "parseValue value line =
     (if value = [] then Inr []
      else if hd value \<noteq> CHR 0x22 \<and> hd value \<noteq> CHR 0x27 then Inr value
      else if length value < 2 \<or> last value \<noteq> hd value then Inl (Unterminated line)
      else (let inner = butlast (tl value) in Inr (if hd value = CHR 0x27 then inner else unescape inner)))"

text \<open>Assigning to \<open>__proto__\<close> of a plain object defines no member.\<close>

definition parse_line :: "string \<Rightarrow> nat \<Rightarrow> environment \<Rightarrow> config_error + environment" where
  "parse_line original line found =
     (let l = js_trim original
      in if l = [] \<or> prefix ''#'' l then Inr found
         else
           (let assignment = (if prefix ''export '' l then js_trim (drop 7 l) else l);
                name = takeWhile (\<lambda>c. c \<noteq> CHR ''='') assignment; key = js_trim name
            in if CHR ''='' \<notin> set assignment \<or> name = [] then Inl (NoAssignment line)
               else if \<not> ENV_NAME key then Inl (BadName line)
               else if omap_get found key \<noteq> None then Inl (DefinedTwice line key)
               else (case parseValue (js_trim (drop (length name + 1) assignment)) line of
                       Inl e \<Rightarrow> Inl e
                     | Inr v \<Rightarrow> Inr (if key = ''__proto__'' then found else omap_set key v found))))"

fun parse_lines :: "string list \<Rightarrow> nat \<Rightarrow> environment \<Rightarrow> config_error + environment" where
  "parse_lines [] line found = Inr found"
| "parse_lines (l # ls) line found = (case parse_line l line found of Inl e \<Rightarrow> Inl e | Inr f \<Rightarrow> parse_lines ls (line + 1) f)"

definition parseAgentEnvFile :: "string \<Rightarrow> config_error + environment" where
  "parseAgentEnvFile text = parse_lines (config_lines text) 1 []"

record launch_env =
  la_cwd :: string
  la_read :: "string \<Rightarrow> string option"
  la_url :: "string \<Rightarrow> (string \<times> string \<times> string \<times> string \<times> string) option"

definition resolve_jwks :: "string \<Rightarrow> environment \<Rightarrow> environment" where
  "resolve_jwks configPath found =
     (case env_get found ''AITEAM_AGENT_JWKS_PATH'' of
        None \<Rightarrow> found
      | Some p \<Rightarrow> if p = [] \<or> prefix ''/'' p then found
          else omap_set ''AITEAM_AGENT_JWKS_PATH'' (node_resolve (node_dirname configPath) p) found)"

definition keep_existing :: "environment \<Rightarrow> environment \<Rightarrow> environment" where
  "keep_existing found env = fold (\<lambda>(k, v) e. if env_get e k = None then omap_set k v e else e) found env"

definition loadAgentConfig :: "launch_env \<Rightarrow> environment \<Rightarrow> config_error + environment" where
  "loadAgentConfig la env =
     (let filename = js_trim (nullish (env_get env ''AITEAM_CONFIG_FILE'') [])
      in if filename = [] then Inr env
         else
           (let configPath = node_resolve (la_cwd la) filename
            in case la_read la configPath of
                 None \<Rightarrow> Inl FileUnreadable
               | Some text \<Rightarrow> (case parseAgentEnvFile text of Inl e \<Rightarrow> Inl e | Inr found \<Rightarrow> Inr (keep_existing (resolve_jwks configPath found) env))))"

section \<open>Credentials\<close>

definition FORBIDDEN_AGENT_CREDENTIALS :: "string list" where
  "FORBIDDEN_AGENT_CREDENTIALS = [
    ''AITEAM_CONSOLE_CREDENTIALS_FILE'', ''MANAGER_CREDENTIAL_KEY'', ''GOOGLE_APPLICATION_CREDENTIALS'', ''GOOGLE_CLOUD_KEYFILE_JSON'',
    ''AWS_SHARED_CREDENTIALS_FILE'', ''AWS_PROFILE'', ''AZURE_CONFIG_DIR'', ''CLOUDSDK_CONFIG'', ''BOTO_CONFIG'', ''KUBECONFIG'',
    ''DOCKER_AUTH_CONFIG'', ''GIT_ASKPASS'', ''SSH_AUTH_SOCK'', ''NPM_CONFIG_USERCONFIG'', ''DB_URL'', ''ADMIN_DB_URL'', ''DATABASE_URL'',
    ''DATABASE_URI'', ''DATABASE_DSN'', ''DATABASE_CONNECTION_STRING'', ''TEST_DATABASE_URL'', ''DSN'', ''SQL_DSN'', ''CONNECTION_STRING'',
    ''DB_URI'', ''DB_DSN'', ''DB_CONNECTION_STRING'', ''REDIS_URL'', ''REDIS_URI'', ''REDIS_DSN'', ''REDIS_CONNECTION_STRING'', ''MYSQL_URL'',
    ''MYSQL_URI'', ''MYSQL_DSN'', ''MYSQL_CONNECTION_STRING'', ''MONGO_URL'', ''MONGO_URI'', ''MONGO_DSN'', ''MONGO_CONNECTION_STRING'',
    ''POSTGRES_URL'', ''POSTGRES_URI'', ''POSTGRES_DSN'', ''POSTGRES_CONNECTION_STRING'', ''REDIS_CONN_STRING'', ''PROVIDER_URL'', ''PROVIDER_URI'',
    ''PROVIDER_API_KEY'', ''PROVIDER_TOKEN'', ''PROVIDER_SECRET'', ''MODEL_PRICING_URL'', ''OPENAI_API_KEY'', ''ANTHROPIC_API_KEY'',
    ''AZURE_OPENAI_API_KEY'', ''GOOGLE_API_KEY'', ''GEMINI_API_KEY'', ''GROQ_API_KEY'', ''MISTRAL_API_KEY'', ''COHERE_API_KEY'',
    ''DEEPSEEK_API_KEY'', ''XAI_API_KEY'', ''PERPLEXITY_API_KEY'', ''TOGETHER_API_KEY'', ''OPENROUTER_API_KEY'', ''FIREWORKS_API_KEY'', ''HF_TOKEN'',
    ''GITHUB_TOKEN'', ''GH_TOKEN'', ''AWS_ACCESS_KEY_ID'', ''AWS_SECRET_ACCESS_KEY'', ''AWS_SESSION_TOKEN'', ''AWS_SECURITY_TOKEN'',
    ''NEWAPI_BASE_URL'', ''NEWAPI_PUBLIC_BASE_URL'', ''NEWAPI_API_KEY'', ''NEWAPI_TOKEN'', ''OPERATION_URL'', ''OPERATION_API_KEY'',
    ''OPERATOR_URL'', ''AITEAM_OPERATOR_URL'', ''MANAGER_BASE_URL'', ''MANAGER_API_KEY'', ''API_KEY'', ''PASSWORD'', ''PASSWD'', ''DB_PASSWORD'',
    ''DATABASE_PASSWORD'', ''REDIS_PASSWORD'', ''MYSQL_PASSWORD'', ''MONGO_PASSWORD'', ''NEWAPI_PASSWORD'', ''SERVICE_PASSWORD'',
    ''PROVIDER_PASSWORD'', ''HINDSIGHT_PASSWORD'', ''LIGHTRAG_PASSWORD'', ''OAUTH_GOOGLE_CLIENT_SECRET'', ''OAUTH_GITHUB_CLIENT_SECRET'',
    ''LOGIN_AUDIT_PEPPER'', ''SESSION_SECRET'', ''CRYPTO_SECRET'', ''APP_RW_PASSWORD'', ''POSTGRES_PASSWORD'', ''POSTGRES_SUPER_PASSWORD'',
    ''SERVICE_TOKEN'', ''SERVICE_SECRET'', ''SERVICE_API_KEY'', ''SERVICE_APIKEY'', ''NEWAPI_ADMIN_USERNAME'', ''NEWAPI_ADMIN_PASSWORD'',
    ''NEWAPI_ADMIN_USER_ID'', ''NEWAPI_ADMIN_TOKEN'', ''NEWAPI_DB_PASSWORD'', ''NEWAPI_REDIS_PASSWORD'', ''NEWAPI_SESSION_SECRET'',
    ''NEWAPI_CRYPTO_SECRET'', ''OPERATION_SYSTEM_USERNAME'', ''OPERATION_SYSTEM_PASSWORD'', ''OPERATION_SIGNING_PRIVATE_KEY'',
    ''OPERATION_PROVIDER_CREDENTIAL_KEY'', ''LIGHTRAG_INSTANCES'', ''LIGHTRAG_AUTH_ACCOUNTS'', ''LIGHTRAG_TOKEN_SECRET'', ''LIGHTRAG_API_KEY'',
    ''LIGHTRAG_URL'', ''LIGHTRAG_WORKSPACE'', ''LIGHTRAG_DB_HOST'', ''LIGHTRAG_DB_PORT'', ''LIGHTRAG_DB_NAME'', ''LIGHTRAG_DB_USER'',
    ''LIGHTRAG_DB_PASSWORD'', ''LIGHTRAG_DB_ADMIN_USER'', ''LIGHTRAG_DB_ADMIN_PASSWORD'', ''AITEAM_HINDSIGHT_URL'', ''HINDSIGHT_URL'',
    ''HINDSIGHT_BASE_URL'', ''HINDSIGHT_FACADE_URL'', ''HINDSIGHT_RECALL_PATH'', ''HINDSIGHT_RETAIN_PATH'', ''HINDSIGHT_DELETE_PATH'',
    ''HINDSIGHT_UPDATE_PATH'', ''HINDSIGHT_LIST_PATH'', ''HINDSIGHT_STATS_PATH'', ''HINDSIGHT_LEASE_TTL_SECONDS'', ''HINDSIGHT_SERVICE_TOKEN'',
    ''HINDSIGHT_API_TOKEN'', ''HINDSIGHT_API_KEY'', ''HINDSIGHT_API_KEY_REF'', ''HINDSIGHT_CP_ACCESS_KEY'', ''AUTH_ACCOUNTS'', ''TOKEN_SECRET'',
    ''LIGHTRAG_ADMIN_USERNAME'', ''LIGHTRAG_ADMIN_PASSWORD'', ''AITEAM_SKILL_SIGNING_PRIVATE_KEY'', ''AITEAM_SKILL_SIGNING_CURRENT_PRIVATE_KEY'',
    ''AITEAM_SKILL_SIGNING_NEXT_PRIVATE_KEY'']"

definition SAFE_AGENT_URLS :: "string list" where
  "SAFE_AGENT_URLS = [''AITEAM_MANAGER_URL'', ''AITEAM_RAG_MCP_URL'', ''AITEAM_AGENT_JWKS_PATH'', ''AITEAM_CONFIG_FILE'']"

text \<open>\<open>/(?:^|_)(?:...)$/u\<close> on a choice of words: the text is a word, or ends in an underscore and a word.\<close>

definition ends_in_word :: "string list \<Rightarrow> string \<Rightarrow> bool" where
  "ends_in_word ws s \<longleftrightarrow> list_ex (\<lambda>w. s = w \<or> suffix (CHR ''_'' # w) s) ws"

definition CREDENTIAL_WORDS :: "string list" where
  "CREDENTIAL_WORDS = [''API_KEY'', ''APIKEY'', ''PASSWORD'', ''PASSWD'', ''TOKEN'', ''SECRET'', ''SECRET_KEY'', ''ENCRYPTION_KEY'', ''MASTER_KEY'',
     ''PEPPER'', ''PRIVATE_KEY'', ''ACCESS_KEY'', ''ACCESS_KEY_ID'', ''SECRET_ACCESS_KEY'', ''SESSION_TOKEN'', ''CREDENTIAL'', ''CREDENTIALS'',
     ''CREDENTIAL_PATH'', ''CREDENTIALS_FILE'', ''CREDENTIAL_FILE'', ''KEY_FILE'', ''KEYFILE'']"

definition LOCATION_WORDS :: "string list" where
  "LOCATION_WORDS = [''URL'', ''URI'', ''DSN'', ''CONNECTION_STRING'', ''KEY_PATH'', ''PATH'']"

definition isForbiddenAgentEnvironmentName :: "string \<Rightarrow> bool" where
  "isForbiddenAgentEnvironmentName name \<longleftrightarrow>
     (let upper = js_upper name
      in upper \<notin> set SAFE_AGENT_URLS
         \<and> (upper \<in> set FORBIDDEN_AGENT_CREDENTIALS \<or> ends_in_word CREDENTIAL_WORDS upper \<or> ends_in_word LOCATION_WORDS upper))"

definition scrubAgentEnvironment :: "environment \<Rightarrow> environment" where
  "scrubAgentEnvironment env = fold (\<lambda>k e. if isForbiddenAgentEnvironmentName k then omap_delete k e else e) (omap_keys env) env"

section \<open>Launch\<close>

datatype agent_environment = Development | Dev | Test | Production

record launch_configuration =
  lc_environment :: agent_environment
  lc_useFauxModel :: bool
  lc_useDevAuth :: bool

datatype launch_error =
    MissingSetting string
  | UnknownEnvironment string
  | MustNotReceive string
  | FauxForbidden
  | DevAuthForbidden
  | SandboxNotReady
  | LocalOnlyRequired
  | NotLoopback
  | NotHttpUrl string
  | NotHttps string
  | EmbeddedCredentials string
  | QueryOrFragment string
  | IssuerDiffers
  | JwksConflict
  | JwksMissing
  | JwksAmbiguous
  | ConfigFile config_error

definition isTrue :: "string option \<Rightarrow> bool" where
  "isTrue v \<longleftrightarrow> map_option (\<lambda>s. js_lower (js_trim s)) v = Some ''true''"

definition setting :: "environment \<Rightarrow> string \<Rightarrow> string" where
  "setting env n = js_trim (nullish (env_get env n) [])"

definition required_setting :: "environment \<Rightarrow> string \<Rightarrow> launch_error + string" where
  "required_setting env n = (if setting env n = [] then Inl (MissingSetting n) else Inr (setting env n))"

text \<open>\<open>la_url\<close> gives protocol, user name, password, query and fragment of an absolute URL.\<close>

definition requireAbsoluteHttpUrl :: "launch_env \<Rightarrow> environment \<Rightarrow> string \<Rightarrow> bool \<Rightarrow> launch_error option" where
  "requireAbsoluteHttpUrl la env n httpsOnly =
     (case required_setting env n of
        Inl e \<Rightarrow> Some e
      | Inr value \<Rightarrow>
          (case la_url la value of
             None \<Rightarrow> Some (NotHttpUrl n)
           | Some (protocol, username, password, query, fragment) \<Rightarrow>
               if protocol \<noteq> ''http:'' \<and> protocol \<noteq> ''https:'' then Some (NotHttpUrl n)
               else if httpsOnly \<and> protocol \<noteq> ''https:'' then Some (NotHttps n)
               else if username \<noteq> [] \<or> password \<noteq> [] then Some (EmbeddedCredentials n)
               else if query \<noteq> [] \<or> fragment \<noteq> [] then Some (QueryOrFragment n)
               else None))"

definition environment_of :: "string \<Rightarrow> agent_environment option" where
  "environment_of s = map_of [(''development'', Development), (''dev'', Dev), (''test'', Test), (''production'', Production)] s"

definition received :: "environment \<Rightarrow> string option" where
  "received env = map_option fst (find (\<lambda>(n, v). js_trim v \<noteq> [] \<and> isForbiddenAgentEnvironmentName n) env)"

definition jwks_source_error :: "environment \<Rightarrow> launch_error option" where
  "jwks_source_error env =
     (let rawJwks = setting env ''AITEAM_AGENT_JWKS_JSON''; jwksPath = setting env ''AITEAM_AGENT_JWKS_PATH''
      in if setting env ''AITEAM_AGENT_JWKS_MODE'' = ''manager''
         then (if rawJwks \<noteq> [] \<or> jwksPath \<noteq> [] then Some JwksConflict else None)
         else if rawJwks = [] \<and> jwksPath = [] then Some JwksMissing
         else if rawJwks \<noteq> [] \<and> jwksPath \<noteq> [] then Some JwksAmbiguous
         else None)"

definition LOOPBACK_HOSTS :: "string list" where
  "LOOPBACK_HOSTS = [''127.0.0.1'', ''localhost'', ''::1'', ''[::1]'']"

definition production_error :: "launch_env \<Rightarrow> environment \<Rightarrow> launch_error option" where
  "production_error la env =
     (if isTrue (env_get env ''AITEAM_PI_FAKE'') then Some FauxForbidden
      else if isTrue (env_get env ''AITEAM_AGENT_DEV_AUTH'') then Some DevAuthForbidden
      else if \<not> isTrue (env_get env ''AITEAM_AGENT_SANDBOX_READY'') then Some SandboxNotReady
      else if \<not> isTrue (env_get env ''AITEAM_AGENT_LOCAL_ONLY'') then Some LocalOnlyRequired
      else if js_lower (js_trim (nullish (env_get env ''HOST'') ''127.0.0.1'')) \<notin> set LOOPBACK_HOSTS then Some NotLoopback
      else (case required_setting env ''AITEAM_MANAGER_URL'' of
              Inl e \<Rightarrow> Some e
            | Inr managerValue \<Rightarrow>
                (case required_setting env ''AITEAM_AGENT_JWT_ISSUER'' of
                   Inl e \<Rightarrow> Some e
                 | Inr issuerValue \<Rightarrow>
                     (case requireAbsoluteHttpUrl la env ''AITEAM_MANAGER_URL'' True of
                        Some e \<Rightarrow> Some e
                      | None \<Rightarrow>
                          (case requireAbsoluteHttpUrl la env ''AITEAM_AGENT_JWT_ISSUER'' True of
                             Some e \<Rightarrow> Some e
                           | None \<Rightarrow>
                               if managerValue \<noteq> issuerValue then Some IssuerDiffers
                               else (case required_setting env ''AITEAM_AGENT_JWT_AUDIENCE'' of Inl e \<Rightarrow> Some e | Inr _ \<Rightarrow> jwks_source_error env))))))"

definition assertAgentLaunchConfiguration :: "launch_env \<Rightarrow> environment \<Rightarrow> launch_error + launch_configuration" where
  "assertAgentLaunchConfiguration la env =
     (case required_setting env ''AITEAM_ENV'' of
        Inl e \<Rightarrow> Inl e
      | Inr raw \<Rightarrow>
          (case environment_of raw of
             None \<Rightarrow> Inl (UnknownEnvironment raw)
           | Some environment \<Rightarrow>
               (let config = \<lparr>lc_environment = environment, lc_useFauxModel = isTrue (env_get env ''AITEAM_PI_FAKE''),
                      lc_useDevAuth = isTrue (env_get env ''AITEAM_AGENT_DEV_AUTH'')\<rparr>
                in case received env of
                     Some n \<Rightarrow> Inl (MustNotReceive n)
                   | None \<Rightarrow>
                       if environment \<noteq> Production then Inr config
                       else (case production_error la env of Some e \<Rightarrow> Inl e | None \<Rightarrow> Inr config))))"

text \<open>The first three steps of \<open>main.ts\<close>.\<close>

definition launch_agent :: "launch_env \<Rightarrow> environment \<Rightarrow> launch_error + launch_configuration \<times> environment" where
  "launch_agent la env =
     (case loadAgentConfig la env of
        Inl e \<Rightarrow> Inl (ConfigFile e)
      | Inr loaded \<Rightarrow>
          (let scrubbed = scrubAgentEnvironment loaded
           in case assertAgentLaunchConfiguration la scrubbed of Inl e \<Rightarrow> Inl e | Inr config \<Rightarrow> Inr (config, scrubbed)))"

section \<open>What a tool may touch\<close>

record sandbox_env =
  sx_cwd :: string
  sx_exists :: "string \<Rightarrow> bool"
  sx_real :: "string \<Rightarrow> string option"
  sx_canonical :: "string \<Rightarrow> string"

datatype sandbox_error = PathEscapes | ReadOnlySession | RealpathFailed

text \<open>The nearest existing parent and the names below it, outermost first; \<open>None\<close> when not even the root exists.\<close>

function nearest_existing :: "sandbox_env \<Rightarrow> string list \<Rightarrow> string list \<Rightarrow> (string list \<times> string list) option" where
  "nearest_existing env segs deeper =
     (if sx_exists env (render_path segs) then Some (segs, deeper)
      else if segs = [] then None
      else nearest_existing env (butlast segs) (last segs # deeper))"
  by pat_completeness auto
termination
  by (relation "measure (\<lambda>(env, segs, deeper). length segs)") auto

declare nearest_existing.simps [simp del]

definition assertWorkspacePath :: "sandbox_env \<Rightarrow> string \<Rightarrow> string \<Rightarrow> sandbox_error + string" where
  "assertWorkspacePath env path workspaceRoot =
     (let absolute = node_resolve (node_resolve (sx_cwd env) workspaceRoot) path;
          base = sx_canonical env (node_resolve (sx_cwd env) workspaceRoot)
      in case nearest_existing env (path_segs absolute) [] of
           None \<Rightarrow> Inl PathEscapes
         | Some (existing, deeper) \<Rightarrow>
             (case sx_real env (render_path existing) of
                None \<Rightarrow> Inl RealpathFailed
              | Some actual \<Rightarrow>
                  (let candidate = render_path (path_segs actual @ deeper); escaped = node_relative base candidate
                   in if prefix ''..'' escaped \<or> prefix ''/'' escaped then Inl PathEscapes else Inr candidate)))"

text \<open>The file operations a session's tools get: the path each one touches.\<close>

datatype tool_access = ToolExec string | ToolRead string | ToolAccess string | ToolWrite string | ToolMkdir string

definition sandbox_operation :: "sandbox_env \<Rightarrow> string \<Rightarrow> permission_mode \<Rightarrow> tool_access \<Rightarrow> sandbox_error + string" where
  "sandbox_operation env workspaceRoot mode op =
     (if mode = FullAccess
      then Inr (case op of
          ToolExec p \<Rightarrow> node_resolve (sx_cwd env) (if p = [] then node_resolve (sx_cwd env) workspaceRoot else p)
        | ToolRead p \<Rightarrow> node_resolve (sx_cwd env) p | ToolAccess p \<Rightarrow> node_resolve (sx_cwd env) p
        | ToolWrite p \<Rightarrow> node_resolve (sx_cwd env) p | ToolMkdir p \<Rightarrow> node_resolve (sx_cwd env) p)
      else
        (let base = sx_canonical env (node_resolve (sx_cwd env) workspaceRoot); readOnly = (mode = ReadOnly)
         in case op of
              ToolExec p \<Rightarrow> assertWorkspacePath env p base
            | ToolRead p \<Rightarrow> assertWorkspacePath env p base
            | ToolAccess p \<Rightarrow> assertWorkspacePath env p base
            | ToolWrite p \<Rightarrow> if readOnly then Inl ReadOnlySession else assertWorkspacePath env p base
            | ToolMkdir p \<Rightarrow> if readOnly then Inl ReadOnlySession else assertWorkspacePath env p base))"

section \<open>Facts\<close>

lemma env_get_scrub: "env_get (scrubAgentEnvironment env) n = (if isForbiddenAgentEnvironmentName n then None else env_get env n)"
proof -
  have "env_get (fold (\<lambda>k e. if isForbiddenAgentEnvironmentName k then omap_delete k e else e) ks e) n
      = (if isForbiddenAgentEnvironmentName n \<and> n \<in> set ks then None else env_get e n)" for ks and e :: environment
    by (induction ks arbitrary: e) (auto simp: env_get_def)
  from this [of "omap_keys env" env] show ?thesis
    by (auto simp: scrubAgentEnvironment_def env_get_def omap_get_None_iff)
qed

lemma scrubbed_names: "n \<in> set (omap_keys (scrubAgentEnvironment env)) \<Longrightarrow> \<not> isForbiddenAgentEnvironmentName n"
  using env_get_scrub [of env n] omap_get_None_iff [of "scrubAgentEnvironment env" n] by (auto simp: env_get_def split: if_splits)

lemma scrubbed_received: "received (scrubAgentEnvironment env) = None"
  using scrubbed_names [of _ env] by (force simp: received_def find_None_iff omap_keys_def)

lemma config_never_overrides: "env_get env n = Some v \<Longrightarrow> env_get (keep_existing found env) n = Some v"
  unfolding keep_existing_def
proof (induction found arbitrary: env)
  case (Cons kv found)
  obtain k w where kv: "kv = (k, w)" by (cases kv)
  have "env_get (if env_get env k = None then omap_set k w env else env) n = Some v" using Cons.prems by (auto simp: env_get_def)
  from Cons.IH [OF this] show ?case by (simp add: kv)
qed simp

text \<open>What a production launch has checked.\<close>

definition sound_url :: "launch_env \<Rightarrow> string \<Rightarrow> bool" where
  "sound_url la value \<longleftrightarrow> la_url la value = Some (''https:'', [], [], [], [])"

definition production_sound :: "launch_env \<Rightarrow> environment \<Rightarrow> bool" where
  "production_sound la env \<longleftrightarrow>
     js_lower (js_trim (nullish (env_get env ''HOST'') ''127.0.0.1'')) \<in> set LOOPBACK_HOSTS
     \<and> isTrue (env_get env ''AITEAM_AGENT_SANDBOX_READY'') \<and> isTrue (env_get env ''AITEAM_AGENT_LOCAL_ONLY'')
     \<and> sound_url la (setting env ''AITEAM_MANAGER_URL'') \<and> setting env ''AITEAM_AGENT_JWT_ISSUER'' = setting env ''AITEAM_MANAGER_URL''
     \<and> setting env ''AITEAM_AGENT_JWT_AUDIENCE'' \<noteq> []
     \<and> (if setting env ''AITEAM_AGENT_JWKS_MODE'' = ''manager''
        then setting env ''AITEAM_AGENT_JWKS_JSON'' = [] \<and> setting env ''AITEAM_AGENT_JWKS_PATH'' = []
        else (setting env ''AITEAM_AGENT_JWKS_JSON'' = []) \<noteq> (setting env ''AITEAM_AGENT_JWKS_PATH'' = []))"

lemma https_url: "requireAbsoluteHttpUrl la env n True = None \<Longrightarrow> sound_url la (setting env n)"
  by (auto simp: requireAbsoluteHttpUrl_def required_setting_def sound_url_def split: if_splits option.splits)

lemma production_error_None:
  assumes "production_error la env = None"
  shows "production_sound la env \<and> \<not> isTrue (env_get env ''AITEAM_PI_FAKE'') \<and> \<not> isTrue (env_get env ''AITEAM_AGENT_DEV_AUTH'')"
  using assms https_url [of la env "''AITEAM_MANAGER_URL''"]
  by (auto simp: production_error_def production_sound_def required_setting_def jwks_source_error_def Let_def split: if_splits option.splits sum.splits)

lemma contained_candidate:
  assumes "\<not> prefix ''..'' (node_relative base p)"
  shows "prefix (path_segs base) (path_segs p)"
proof -
  obtain up down where strip: "strip_common (path_segs base) (path_segs p) = (up, down)" by fastforce
  have "up = []"
  proof (rule ccontr)
    assume "up \<noteq> []"
    then have "prefix ''..'' (join_segs (map (\<lambda>_. ''..'') up @ down))"
      by (cases up; cases "tl up @ down" rule: list.exhaust) (auto simp: neq_Nil_conv append_eq_Cons_conv)
    with assms strip show False by (simp add: node_relative_def)
  qed
  with strip_common_up [of "path_segs base" "path_segs p" down] strip show ?thesis by simp
qed

lemma nearest_existing_Some:
  "nearest_existing env segs deeper = Some (existing, names) \<Longrightarrow> sx_exists env (render_path existing) \<and> existing @ names = segs @ deeper"
proof (induction env segs deeper rule: nearest_existing.induct)
  case (1 env segs deeper)
  show ?case
  proof (cases "sx_exists env (render_path segs) \<or> segs = []")
    case True
    with "1.prems" show ?thesis by (subst (asm) nearest_existing.simps) (auto split: if_splits)
  next
    case False
    with "1.prems" have "nearest_existing env (butlast segs) (last segs # deeper) = Some (existing, names)"
      by (subst (asm) nearest_existing.simps) simp
    with "1.IH" False show ?thesis by simp
  qed
qed

lemma assert_path_Inr:
  assumes "assertWorkspacePath env path w = Inr p"
  shows "prefix (path_segs (sx_canonical env (node_resolve (sx_cwd env) w))) (path_segs p)
    \<and> (\<exists>existing names actual. sx_exists env (render_path existing) \<and> sx_real env (render_path existing) = Some actual
         \<and> existing @ names = path_segs (node_resolve (node_resolve (sx_cwd env) w) path) \<and> p = render_path (path_segs actual @ names))"
proof -
  from assms obtain existing names actual where near: "nearest_existing env (path_segs (node_resolve (node_resolve (sx_cwd env) w) path)) [] = Some (existing, names)"
    and actual: "sx_real env (render_path existing) = Some actual" and p: "p = render_path (path_segs actual @ names)"
    and inside: "\<not> prefix ''..'' (node_relative (sx_canonical env (node_resolve (sx_cwd env) w)) p)"
    by (auto simp: assertWorkspacePath_def Let_def split: option.splits if_splits)
  from contained_candidate [OF inside] nearest_existing_Some [OF near] actual p show ?thesis by fastforce
qed

section \<open>Properties\<close>

text \<open>(C23) A node agent that starts keeps no variable whose name marks a credential or a control-plane address, and in production it starts
  only without the fake model and the development login, bound to a loopback address, with an HTTPS Manager without embedded
  credentials that is exactly the issuer of its tokens, an audience, and exactly one source of public keys.\<close>

theorem launch_guarded:
  assumes "launch_agent la env = Inr (config, kept)"
  shows "(\<forall>n \<in> set (omap_keys kept). \<not> isForbiddenAgentEnvironmentName n)
    \<and> (lc_environment config = Production \<longrightarrow> \<not> lc_useFauxModel config \<and> \<not> lc_useDevAuth config \<and> production_sound la kept)"
proof -
  from assms obtain loaded where kept: "kept = scrubAgentEnvironment loaded" and config: "assertAgentLaunchConfiguration la kept = Inr config"
    by (auto simp: launch_agent_def Let_def split: sum.splits)
  from config have "lc_environment config = Production \<Longrightarrow> production_error la kept = None"
    and "lc_useFauxModel config = isTrue (env_get kept ''AITEAM_PI_FAKE'')" "lc_useDevAuth config = isTrue (env_get kept ''AITEAM_AGENT_DEV_AUTH'')"
    by (auto simp: assertAgentLaunchConfiguration_def Let_def split: sum.splits option.splits if_splits)
  with production_error_None scrubbed_names [of _ loaded] kept show ?thesis by auto
qed

definition demo_launch_env :: launch_env where
  "demo_launch_env = \<lparr>la_cwd = ''/'', la_read = (\<lambda>_. None), la_url = (\<lambda>_. Some (''https:'', [], [], [], []))\<rparr>"

definition demo_kept :: environment where
  "demo_kept = [(''AITEAM_ENV'', ''production''), (''AITEAM_AGENT_SANDBOX_READY'', ''true''), (''AITEAM_AGENT_LOCAL_ONLY'', '' TRUE ''),
     (''AITEAM_MANAGER_URL'', ''https://m''), (''AITEAM_AGENT_JWT_ISSUER'', ''https://m''), (''AITEAM_AGENT_JWT_AUDIENCE'', ''agent''),
     (''AITEAM_AGENT_JWKS_MODE'', ''manager'')]"

definition demo_received :: environment where
  "demo_received = demo_kept @ [(''vendor_token'', ''x'')]"

lemma demo_scrubbed: "scrubAgentEnvironment demo_received = demo_kept"
  by code_simp

lemma demo_launched: "launch_agent demo_launch_env demo_received = Inr (\<lparr>lc_environment = Production, lc_useFauxModel = False, lc_useDevAuth = False\<rparr>, demo_kept)"
proof -
  have load: "loadAgentConfig demo_launch_env demo_received = Inr demo_received" by code_simp
  have "received demo_kept = None" using scrubbed_received [of demo_received] by (simp add: demo_scrubbed)
  moreover have "production_error demo_launch_env demo_kept = None" by code_simp
  moreover have "required_setting demo_kept ''AITEAM_ENV'' = Inr ''production''" "isTrue (env_get demo_kept ''AITEAM_PI_FAKE'') = False"
    "isTrue (env_get demo_kept ''AITEAM_AGENT_DEV_AUTH'') = False" by code_simp+
  ultimately have "assertAgentLaunchConfiguration demo_launch_env demo_kept = Inr \<lparr>lc_environment = Production, lc_useFauxModel = False, lc_useDevAuth = False\<rparr>"
    by (simp add: assertAgentLaunchConfiguration_def environment_of_def Let_def)
  then show ?thesis by (simp add: launch_agent_def load demo_scrubbed Let_def)
qed

theorem launch_guarded_witness:
  "launch_agent demo_launch_env demo_received = Inr (\<lparr>lc_environment = Production, lc_useFauxModel = False, lc_useDevAuth = False\<rparr>, demo_kept)
   \<and> production_sound demo_launch_env demo_kept"
  using launch_guarded [OF demo_launched] demo_launched by simp

text \<open>Because the environment is scrubbed first, a launch is never refused for a variable it received.\<close>

theorem launch_never_refuses_received: "launch_agent la env \<noteq> Inl (MustNotReceive n)"
proof -
  have required: "required_setting e m \<noteq> Inl (MustNotReceive n)" for e m by (simp add: required_setting_def)
  have url: "requireAbsoluteHttpUrl la e m b \<noteq> Some (MustNotReceive n)" for e m b
    using required [of e m] by (auto simp: requireAbsoluteHttpUrl_def split: sum.splits option.splits)
  have jwks: "jwks_source_error e \<noteq> Some (MustNotReceive n)" for e by (simp add: jwks_source_error_def Let_def)
  have production: "production_error la e \<noteq> Some (MustNotReceive n)" for e
    unfolding production_error_def by (auto simp: required url jwks split: sum.splits option.splits if_splits)
  have "assertAgentLaunchConfiguration la (scrubAgentEnvironment e) \<noteq> Inl (MustNotReceive n)" for e
    unfolding assertAgentLaunchConfiguration_def Let_def scrubbed_received by (auto simp: required production split: sum.splits option.splits if_splits)
  then show ?thesis by (auto simp: launch_agent_def Let_def split: sum.splits)
qed

text \<open>The search path of the process counts as a forbidden location, so that scrubbing removes it.\<close>

lemma search_path_scrubbed: "env_get (scrubAgentEnvironment env) ''PATH'' = None"
  by (simp add: env_get_scrub isForbiddenAgentEnvironmentName_def js_upper_def SAFE_AGENT_URLS_def ends_in_word_def LOCATION_WORDS_def Let_def)


definition demo_sandbox :: sandbox_env where
  "demo_sandbox = \<lparr>sx_cwd = ''/'', sx_exists = (\<lambda>p. p \<in> {''/w'', ''/w/link''}), sx_real = (\<lambda>p. if p = ''/w/link'' then Some ''/etc'' else Some p), sx_canonical = (\<lambda>p. p)\<rparr>"

lemma demo_inside: "sandbox_operation demo_sandbox ''/w'' WorkspaceWrite (ToolWrite ''a/b'') = Inr ''/w/a/b''"
  by (simp add: sandbox_operation_def assertWorkspacePath_def demo_sandbox_def node_resolve_def path_segs_def render_path_def nearest_existing.simps node_relative_def Let_def)

lemma demo_link_out: "sandbox_operation demo_sandbox ''/w'' WorkspaceWrite (ToolWrite ''link/passwd'') = Inl PathEscapes"
  by (simp add: sandbox_operation_def assertWorkspacePath_def demo_sandbox_def node_resolve_def path_segs_def render_path_def nearest_existing.simps node_relative_def Let_def)


end
