(* ===== verification/Spec2Isabelle.thy ===== *)
theory Spec2Isabelle
  imports Jwks_Cache Execution_Authorization Manager_Clock Runtime_Lease Prompt_Receipts Context_Segments Work_Records
    Read_Paging Transcript Group_Config Session_Entries Usage_Statistics
    Chat_Send_Queue Settle_Tracker Notification_Policy Office_Milestones Automation_Service Event_Boundary Conversation_Reads Local_Directories
    Workspace_Migration Artifact_Paths Conversation_Failures Launch_Guards
begin

text \<open>
  Verification of the AI Team node agent, the local service of \<open>src/server/agent_service/src\<close>, and of the
  pure parts of the desktop client beside it (\<open>src/clients/desktop/src/lib\<close>).

  \<^bold>\<open>The program.\<close>  AI Team runs teams of AI employees on a member's own machine.  The node agent keeps
  conversations, sessions, files and work records in SQLite (\<open>storage/\<close>), authenticates its callers
  against the Manager's public keys (\<open>http/auth.ts\<close>, \<open>http/manager-jwks.ts\<close>), runs agent sessions of a
  third-party SDK (\<open>pi/\<close>), gates risky tool calls behind approvals (\<open>approval-service.ts\<close>), fires schedules
  and automation tasks (\<open>schedule.ts\<close>, \<open>services/automation-tasks.ts\<close>) and reports usage to the Manager
  (\<open>usage.ts\<close>, \<open>usage-flush.ts\<close>).  A request is authenticated, its owner is checked against the row it
  names, a prompt is reserved under an idempotency key before it runs, its tool calls pass the approval
  service, its events pass the event boundary before they leave the process, and its usage reaches the
  outbox.  Background work acts only under an identity of the execution authorization registry.

  \<^bold>\<open>Conventions.\<close>  A string is a list of characters (UTF-16 units in \<open>Transcript\<close>), a JavaScript number
  an exact rational, a time an integer of milliseconds, a JavaScript \<open>Map\<close> an association list in insertion
  order with the laws of the locale \<open>js_map\<close>, a table the list of its rows.  Errors are values of sum or
  option types.  A method with an \<open>await\<close> is split there: its parts are separate operations, and a step
  relation interleaves them with everything else that may happen.  What the code takes from outside
  \<open>src/\<close> (SHA-256, \<open>JSON\<close>, \<open>Date\<close>, \<open>Temporal\<close>, signatures, \<open>localeCompare\<close>, the file system, the
  agent SDK) is an argument, in the records named \<open>..._env\<close>; what a theorem needs of it is a named
  hypothesis, and the witness of the theorem instantiates it.  Text outside the alphabet of the model
  (Chinese placeholders and prompts) is an argument too.

  \<^bold>\<open>Theories.\<close>
  \<^item> \<open>Prelude\<close>, \<open>Js_Regex\<close>: values, strings, maps, rows, the locales \<open>js_map\<close>, \<open>row_update\<close> (an update by
    key keeps the other rows), \<open>invariant_system\<close> (an initial invariant kept by every step holds in every
    reachable state) and \<open>monotone_step\<close>; ECMAScript regular expressions with backtracking.
  \<^item> \<open>Scope_Encoding\<close>, \<open>Runtime_Lease\<close> (\<open>runtime-lease-cache.ts\<close>), \<open>Manager_Clock\<close> (\<open>clock.ts\<close>),
    \<open>Jwt_Auth\<close>, \<open>Jwks_Cache\<close> (\<open>http/auth.ts\<close>, \<open>http/manager-jwks.ts\<close>), \<open>Execution_Authorization\<close>
    (\<open>execution-authorization.ts\<close>): who a caller is and what was granted to it.  A token is accepted only
    after every check, keys of one tenant are never used for another, a revoked owner resolves to nothing
    and a load in flight at a revocation writes nothing.
  \<^item> \<open>Approval_Policy\<close>, \<open>Approval_Store\<close>, \<open>Approval_Service\<close> (\<open>approval-service.ts\<close> and its table): every
    execution was claimed from one approval of that very call, and at most once, under all interleavings of
    decisions, timers, aborts and restarts.
  \<^item> \<open>Conversation_Store\<close>, \<open>Prompt_Receipts\<close>, \<open>Context_Segments\<close>, \<open>Work_Records\<close>, \<open>Projections\<close>,
    \<open>Local_Files\<close>, \<open>Local_File_Store\<close> (\<open>storage/sqlite.ts\<close> and the modules beside it): prompts start at
    most once and are never replayed, the change feed is complete, revocations win over whatever a pull
    carries, avatars and files survive pulls, sweeps and crashes.  The operations on files are lists of
    effects, so that a crash is a prefix of such a list.
  \<^item> \<open>Schedule\<close>, \<open>Schedule_Service\<close>, \<open>Automation_Requests\<close>, \<open>Automation_Service\<close>: validated schedules are
    well formed, the next run is the first later occurrence, a launch is sound, a creation key names one
    task and a stale edit is refused.
  \<^item> \<open>Usage\<close>, \<open>Usage_Outbox\<close>, \<open>Usage_Statistics\<close>: costs are exact, the outbox refines a ledger of all
    recorded usage, and what is marked as sent is what the Manager accepted.
  \<^item> \<open>Session_Entries\<close>, \<open>Session_History\<close>, \<open>Event_Boundary\<close>, \<open>Read_Paging\<close>, \<open>Conversation_Reads\<close>,
    \<open>Transcript\<close>, \<open>Group_Config\<close>: what is read of the sessions.  Merging conserves every reference, pages
    are consecutive (the locale \<open>keyset\<close>, interpreted on the conversation list, the history and the search
    results), read pointers lead back to their entry, and only listed and bounded members leave the process.
  \<^item> \<open>Chat_Send_Queue\<close>, \<open>Settle_Tracker\<close>, \<open>Notification_Policy\<close>, \<open>Office_Milestones\<close>: the desktop client's
    queue of typed messages, the completion of a round, notifications and milestones.
  \<^item> \<open>Directory_Store\<close>, \<open>Local_Directories\<close> (\<open>storage/local-directories.ts\<close>, \<open>local-directory-host.ts\<close>,
    \<open>services/local-directories.ts\<close>): directories a member lets employees search.  Here an asynchronous method
    is a function of the worlds in which it resumes.  A cited text is delivered only under a grant that was
    never interrupted, and a search stays in its budget without losing the handles it gives out.
  \<^item> \<open>Workspace_Layout\<close>, \<open>Workspace_Migration\<close>, \<open>Artifact_Paths\<close> (\<open>workspace-layout.ts\<close>,
    \<open>services/workspace-migration.ts\<close>, \<open>services/conversation-workspaces.ts\<close>, \<open>services/artifact-paths.ts\<close>):
    working folders.  A new folder is free and can be listed under its key, the scan for project files says
    no only when there are none, and the move of older folders, wherever it is cut off, loses nothing, keeps
    every stored folder located and is finished by the next start.  \<open>Conversation_Failures\<close>
    (\<open>storage/conversation-failures.ts\<close>): the latest failure of each participant.
  \<^item> \<open>Launch_Guards\<close> (\<open>config.ts\<close>, \<open>launch-guards.ts\<close>, \<open>pi/sandbox.ts\<close>): what is checked before the agent
    serves and what a tool may touch afterwards.  No variable named like a credential survives the start, a
    production start is bound to loopback and to one issuer, and tools stay inside their workspace.

  \<^bold>\<open>Bounds and fuel.\<close>  Loops are structural or have a measure: the calendar search looks 370 days ahead
  as the code does, a regular expression is matched in as many rounds as the text is long, values are cut
  at the depth and sizes of \<open>event-sse.ts\<close>, the scan of a workspace and the binary search of a transcript
  decrease a measure.  The loop over all pages of conversations is a \<open>partial_function\<close> whose value
  \<open>None\<close> is a loop that does not end; it is proved to return.  The loops of a directory search use up the worlds
  they are given; \<open>None\<close> is a search that still waits for the host.

  \<^bold>\<open>Not modelled.\<close>  The HTTP routing of \<open>http/server.ts\<close> and the request schemas, which dispatch to the
  services above; the larger part of \<open>pi/session-host.ts\<close>, which drives the agent SDK; the network
  clients (\<open>manager-client.ts\<close>, skills, connectors, knowledge), the wiring of the services, the spawning of
  sandboxed commands and logging;
  schema migration; the web and desktop user interfaces, the native shell in Rust, and the Manager and
  Operator services in Python.
\<close>

end
